(* ===== verification/Prelude.thy ===== *)
theory Prelude
  imports Complex_Main "HOL-Library.Char_ord"
begin

text \<open>
  Shared vocabulary of the development: Go's \<open>error\<close> values with the sentinel errors of the
  repository, Go's \<open>int64\<close> arithmetic written out on \<open>int\<close>, the result type
  \<open>goerr + 'a\<close> of every function that returns \<open>(T, error)\<close>, and generic lemmas about sums,
  lists and associations that the component theories share.
\<close>

section \<open>Errors\<close>

text \<open>
  One constructor per sentinel of \<open>internal/executions/types.go\<close>, the two database outcomes
  the code distinguishes (\<open>sql.ErrNoRows\<close> and any other driver error), a cancelled context, and
  the three ways the code builds an error value: \<open>errors.New\<close> (or \<open>fmt.Errorf\<close> without
  \<open>%w\<close>), \<open>fmt.Errorf\<close> with \<open>%w\<close>, and \<open>errors.Join\<close>.
\<close>

datatype goerr =
    ErrInvalidRunID
  | ErrRunActive
  | ErrRunExists
  | ErrRunNotFound
  | ErrRunTokenInvalid
  | ErrSignalTokenInvalid
  | ErrSignalAlreadyClaimed
  | ErrInvalidTransition
  | ErrPolicyBlockRecorded
  | ErrNoRows
  | ErrDriver
  | ErrContext
  | Errorf string
  | Wrapf string goerr
  | Joined goerr goerr

text \<open>\<open>errors.Is\<close>: the error itself or anything it wraps.\<close>

fun errors_is :: "goerr \<Rightarrow> goerr \<Rightarrow> bool" where
  "errors_is (Wrapf m e) t = (Wrapf m e = t \<or> errors_is e t)"
| "errors_is (Joined a b) t = (Joined a b = t \<or> errors_is a t \<or> errors_is b t)"
| "errors_is e t = (e = t)"

lemma errors_is_refl [simp]: "errors_is e e"
  by (cases e) simp_all

type_synonym 'a res = "goerr + 'a"

definition is_ok :: "'a res \<Rightarrow> bool" where
  "is_ok r = (case r of Inl _ \<Rightarrow> False | Inr _ \<Rightarrow> True)"

lemma is_ok_simps [simp]: "is_ok (Inr x)" "\<not> is_ok (Inl e)"
  by (simp_all add: is_ok_def)

lemma is_ok_iff: "is_ok r \<longleftrightarrow> (\<exists>x. r = Inr x)"
  by (cases r) simp_all

text \<open>Sequencing of fallible pure code: the first error is returned.\<close>

definition rbind :: "'a res \<Rightarrow> ('a \<Rightarrow> 'b res) \<Rightarrow> 'b res" where
  "rbind r k = (case r of Inl e \<Rightarrow> Inl e | Inr x \<Rightarrow> k x)"

lemma rbind_simps [simp]: "rbind (Inl e) k = Inl e" "rbind (Inr x) k = k x"
  by (simp_all add: rbind_def)

lemma rbind_Inr_iff: "rbind r k = Inr y \<longleftrightarrow> (\<exists>x. r = Inr x \<and> k x = Inr y)"
  by (cases r) simp_all

section \<open>64-bit integers\<close>

definition max_int64 :: int where
  "max_int64 = 9223372036854775807"

definition min_int64 :: int where
  "min_int64 = - 9223372036854775808"

text \<open>Two's complement wrap-around of Go's \<open>int64\<close> operations.\<close>

definition wrap64 :: "int \<Rightarrow> int" where
  "wrap64 x = (x + 9223372036854775808) mod 18446744073709551616 - 9223372036854775808"

definition is_int64 :: "int \<Rightarrow> bool" where
  "is_int64 x \<longleftrightarrow> min_int64 \<le> x \<and> x \<le> max_int64"

lemma wrap64_id: "is_int64 x \<Longrightarrow> wrap64 x = x"
  by (simp add: wrap64_def is_int64_def max_int64_def min_int64_def)

lemma wrap64_range: "is_int64 (wrap64 x)"
proof -
  have "0 \<le> (x + 9223372036854775808) mod 18446744073709551616"
    and "(x + 9223372036854775808) mod 18446744073709551616 < 18446744073709551616"
    by simp_all
  then show ?thesis
    unfolding wrap64_def is_int64_def max_int64_def min_int64_def by linarith
qed

lemma wrap64_nonneg_id: "0 \<le> x \<Longrightarrow> x \<le> max_int64 \<Longrightarrow> wrap64 x = x"
  by (rule wrap64_id) (simp add: is_int64_def min_int64_def)

section \<open>Lists, options and associations\<close>

named_theorems table_simps \<open>rewriting of table updates and lookups\<close>

text \<open>First row of a table that satisfies a condition, as a single-row query returns it.\<close>

fun first_row :: "('a \<Rightarrow> bool) \<Rightarrow> 'a list \<Rightarrow> 'a option" where
  "first_row P [] = None"
| "first_row P (x # xs) = (if P x then Some x else first_row P xs)"

lemma first_row_None: "first_row P xs = None \<longleftrightarrow> (\<forall>x \<in> set xs. \<not> P x)"
  by (induction xs) auto

lemma first_row_Some: "first_row P xs = Some x \<Longrightarrow> x \<in> set xs \<and> P x"
  by (induction xs) (auto split: if_splits)

lemma first_row_append:
  "first_row P (xs @ ys) = (case first_row P xs of None \<Rightarrow> first_row P ys | Some x \<Rightarrow> Some x)"
  by (induction xs) auto

text \<open>\<open>UPDATE t SET \<dots> WHERE \<dots>\<close>: rewrite the matching rows, and count them.\<close>

definition update_where :: "('a \<Rightarrow> bool) \<Rightarrow> ('a \<Rightarrow> 'a) \<Rightarrow> 'a list \<Rightarrow> 'a list" where
  "update_where P f = map (\<lambda>x. if P x then f x else x)"

definition count_where :: "('a \<Rightarrow> bool) \<Rightarrow> 'a list \<Rightarrow> nat" where
  "count_where P xs = length (filter P xs)"

lemma update_where_Nil [simp]: "update_where P f [] = []"
  and update_where_Cons [simp]:
    "update_where P f (x # xs) = (if P x then f x else x) # update_where P f xs"
  and update_where_append [simp]:
    "update_where P f (xs @ ys) = update_where P f xs @ update_where P f ys"
  and length_update_where [simp]: "length (update_where P f xs) = length xs"
  by (simp_all add: update_where_def)

lemma update_where_none: "\<forall>x \<in> set xs. \<not> P x \<Longrightarrow> update_where P f xs = xs"
  by (induction xs) auto

lemma set_update_where:
  "set (update_where P f xs) = {x \<in> set xs. \<not> P x} \<union> f ` {x \<in> set xs. P x}"
  by (auto simp: update_where_def)

lemma map_update_where:
  "(\<And>x. x \<in> set xs \<Longrightarrow> P x \<Longrightarrow> g (f x) = g x) \<Longrightarrow> map g (update_where P f xs) = map g xs"
  by (induction xs) auto

lemma image_update_where:
  assumes "\<And>x. P x \<Longrightarrow> k (f x) = k x"
  shows "k ` set (update_where P f xs) = k ` set xs"
proof -
  from assms have "map k (update_where P f xs) = map k xs" by (simp add: map_update_where)
  then show ?thesis by (metis image_set)
qed

lemma count_where_0: "count_where P xs = 0 \<longleftrightarrow> (\<forall>x \<in> set xs. \<not> P x)"
  by (auto simp: count_where_def filter_empty_conv)

text \<open>A key column: at most one row per key.\<close>

definition distinct_on :: "('a \<Rightarrow> 'k) \<Rightarrow> 'a list \<Rightarrow> bool" where
  "distinct_on k xs \<longleftrightarrow> distinct (map k xs)"

lemma distinct_on_unique:
  "distinct_on k xs \<Longrightarrow> x \<in> set xs \<Longrightarrow> y \<in> set xs \<Longrightarrow> k x = k y \<Longrightarrow> x = y"
  unfolding distinct_on_def by (meson distinct_map inj_on_def)

lemma distinct_on_Nil [simp]: "distinct_on k []"
  by (simp add: distinct_on_def)

lemma distinct_on_append_one:
  "distinct_on k (xs @ [x]) \<longleftrightarrow> distinct_on k xs \<and> k x \<notin> k ` set xs"
  by (auto simp: distinct_on_def)

lemma distinct_on_filter: "distinct_on k xs \<Longrightarrow> distinct_on k (filter P xs)"
  by (simp add: distinct_on_def distinct_map_filter)

lemma distinct_on_update:
  "distinct_on k xs \<Longrightarrow> (\<And>x. P x \<Longrightarrow> k (f x) = k x) \<Longrightarrow> distinct_on k (update_where P f xs)"
  by (simp add: distinct_on_def map_update_where)

lemma first_row_key:
  "distinct_on k xs \<Longrightarrow> x \<in> set xs \<Longrightarrow> first_row (\<lambda>y. k y = k x) xs = Some x"
proof -
  assume d: "distinct_on k xs" and x: "x \<in> set xs"
  then obtain y where y: "first_row (\<lambda>y. k y = k x) xs = Some y"
    using first_row_None [of "\<lambda>y. k y = k x" xs] by (cases "first_row (\<lambda>y. k y = k x) xs") auto
  from first_row_Some [OF y] d x have "y = x" by (auto intro: distinct_on_unique)
  with y show ?thesis by simp
qed

lemma count_where_key:
  "distinct_on k xs \<Longrightarrow> x \<in> set xs \<Longrightarrow> count_where (\<lambda>y. k y = k x) xs = 1"
proof (induction xs)
  case Nil
  then show ?case by simp
next
  case (Cons a xs)
  then show ?case
    by (auto simp: count_where_def distinct_on_def image_iff filter_empty_conv)
qed

lemma count_where_key_le:
  "distinct_on k xs \<Longrightarrow> count_where (\<lambda>y. k y = key \<and> P y) xs \<le> 1"
proof (induction xs)
  case Nil
  then show ?case by (simp add: count_where_def)
next
  case (Cons a xs)
  then have d: "distinct_on k xs" and n: "k a \<notin> k ` set xs"
    by (auto simp: distinct_on_def)
  show ?case
  proof (cases "k a = key \<and> P a")
    case True
    with n have "filter (\<lambda>y. k y = key \<and> P y) xs = []"
      unfolding filter_empty_conv by (metis image_eqI)
    with True show ?thesis by (simp add: count_where_def)
  next
    case False
    with Cons.IH [OF d] show ?thesis by (auto simp: count_where_def)
  qed
qed

lemma sum_list_update_where_key:
  fixes g :: "'a \<Rightarrow> 'b::ab_group_add"
  assumes d: "distinct_on k xs" and x: "x \<in> set xs"
  shows "sum_list (map g (update_where (\<lambda>y. k y = k x) f xs)) = sum_list (map g xs) - g x + g (f x)"
  using assms
proof (induction xs)
  case Nil
  then show ?case by simp
next
  case (Cons a xs)
  then have d: "distinct_on k xs" and n: "k a \<notin> k ` set xs"
    by (auto simp: distinct_on_def)
  show ?case
  proof (cases "k a = k x")
    case True
    with Cons.prems have "a = x" by (auto simp: distinct_on_def image_iff)
    moreover from n True have "update_where (\<lambda>y. k y = k x) f xs = xs"
      by (intro update_where_none) (metis image_eqI)
    ultimately show ?thesis by simp
  next
    case False
    with Cons.prems have "x \<in> set xs" by auto
    with Cons.IH [OF d] False show ?thesis by simp
  qed
qed

lemma dropWhile_hd_neg: "dropWhile P xs = y # ys \<Longrightarrow> \<not> P y"
  by (metis hd_dropWhile list.distinct(1) list.sel(1))

lemma list_all_takeWhile: "list_all P (takeWhile P xs)"
  by (induction xs) auto

lemma takeWhile_append_stop:
  "list_all P xs \<Longrightarrow> \<not> P y \<Longrightarrow> takeWhile P (xs @ y # ys) = xs"
  by (induction xs) auto

lemma dropWhile_append_stop:
  "list_all P xs \<Longrightarrow> \<not> P y \<Longrightarrow> dropWhile P (xs @ y # ys) = y # ys"
  by (induction xs) auto

lemma takeWhile_all: "list_all P xs \<Longrightarrow> takeWhile P xs = xs"
  by (induction xs) auto

lemma dropWhile_all: "list_all P xs \<Longrightarrow> dropWhile P xs = []"
  by (induction xs) auto

end
