(* ===== verification/Go_Strings.thy ===== *)
theory Go_Strings
  imports Prelude
begin

text \<open>
  The parts of Go's \<open>strings\<close>, \<open>regexp\<close>, \<open>strconv\<close> and \<open>encoding/hex\<close> that the
  program uses, on byte strings (\<open>string\<close> is a list of 8-bit characters, as a Go string is).
  The patterns of the source are written as predicates: each is anchored at both ends, has a
  character class per position and a bound on its length.
\<close>

section \<open>Character classes\<close>

definition is_digit :: "char \<Rightarrow> bool" where
  "is_digit c \<longleftrightarrow> CHR ''0'' \<le> c \<and> c \<le> CHR ''9''"

definition is_lower :: "char \<Rightarrow> bool" where
  "is_lower c \<longleftrightarrow> CHR ''a'' \<le> c \<and> c \<le> CHR ''z''"

definition is_upper :: "char \<Rightarrow> bool" where
  "is_upper c \<longleftrightarrow> CHR ''A'' \<le> c \<and> c \<le> CHR ''Z''"

definition is_alnum :: "char \<Rightarrow> bool" where
  "is_alnum c \<longleftrightarrow> is_upper c \<or> is_lower c \<or> is_digit c"

definition is_hex_lower :: "char \<Rightarrow> bool" where
  "is_hex_lower c \<longleftrightarrow> is_digit c \<or> (CHR ''a'' \<le> c \<and> c \<le> CHR ''f'')"

text \<open>White space of \<open>strings.TrimSpace\<close> and \<open>strings.Fields\<close> on ASCII input.\<close>

definition is_space :: "char \<Rightarrow> bool" where
  "is_space c \<longleftrightarrow> c \<in> {CHR '' '', CHR 0x09, CHR 0x0A, CHR 0x0B, CHR 0x0C, CHR 0x0D}"

definition to_lower_char :: "char \<Rightarrow> char" where
  "to_lower_char c = (if is_upper c then char_of (of_char c + (32 :: nat)) else c)"

definition to_upper_char :: "char \<Rightarrow> char" where
  "to_upper_char c = (if is_lower c then char_of (of_char c - (32 :: nat)) else c)"

definition to_lower :: "string \<Rightarrow> string" where
  "to_lower = map to_lower_char"

definition to_upper :: "string \<Rightarrow> string" where
  "to_upper = map to_upper_char"

text \<open>\<open>strings.EqualFold\<close> on ASCII.\<close>

definition equal_fold :: "string \<Rightarrow> string \<Rightarrow> bool" where
  "equal_fold a b \<longleftrightarrow> to_lower a = to_lower b"

section \<open>Splitting and trimming\<close>

text \<open>\<open>strings.Split(s, sep)\<close> for a one-byte separator: always at least one part.\<close>

fun split_on :: "char \<Rightarrow> string \<Rightarrow> string list" where
  "split_on sep [] = [[]]"
| "split_on sep (c # s) =
     (if c = sep then [] # split_on sep s
      else (case split_on sep s of [] \<Rightarrow> [[c]] | p # ps \<Rightarrow> (c # p) # ps))"

text \<open>\<open>strings.Cut(s, sep)\<close>: before, after, found.\<close>

definition cut :: "char \<Rightarrow> string \<Rightarrow> string \<times> string \<times> bool" where
  "cut sep s = (case dropWhile (\<lambda>c. c \<noteq> sep) s of
     [] \<Rightarrow> (s, [], False)
   | _ # rest \<Rightarrow> (takeWhile (\<lambda>c. c \<noteq> sep) s, rest, True))"

definition trim_space :: "string \<Rightarrow> string" where
  "trim_space s = rev (dropWhile is_space (rev (dropWhile is_space s)))"

definition has_prefix :: "string \<Rightarrow> string \<Rightarrow> bool" where
  "has_prefix s p \<longleftrightarrow> take (length p) s = p"

definition has_suffix :: "string \<Rightarrow> string \<Rightarrow> bool" where
  "has_suffix s p \<longleftrightarrow> length p \<le> length s \<and> drop (length s - length p) s = p"

definition trim_prefix :: "string \<Rightarrow> string \<Rightarrow> string" where
  "trim_prefix s p = (if has_prefix s p then drop (length p) s else s)"

definition trim_suffix :: "string \<Rightarrow> string \<Rightarrow> string" where
  "trim_suffix s p = (if has_suffix s p then take (length s - length p) s else s)"

fun contains :: "string \<Rightarrow> string \<Rightarrow> bool" where
  "contains [] p = (p = [])"
| "contains (c # s) p = (has_prefix (c # s) p \<or> contains s p)"

text \<open>\<open>strings.Fields\<close>: the maximal runs of non-space bytes.\<close>

function fields :: "string \<Rightarrow> string list" where
  "fields s = (case dropWhile is_space s of
     [] \<Rightarrow> []
   | c # t \<Rightarrow> takeWhile (\<lambda>x. \<not> is_space x) (c # t) # fields (dropWhile (\<lambda>x. \<not> is_space x) (c # t)))"
  by pat_completeness auto
termination
proof (relation "measure length")
  fix s :: string and c t
  assume e: "dropWhile is_space s = c # t"
  then have "\<not> is_space c" by (rule dropWhile_hd_neg)
  then have "length (dropWhile (\<lambda>x. \<not> is_space x) (c # t)) \<le> length t"
    by (simp add: length_dropWhile_le)
  also have "length t < length s"
    using e by (metis impossible_Cons length_dropWhile_le not_less order_trans)
  finally show "(dropWhile (\<lambda>x. \<not> is_space x) (c # t), s) \<in> measure length" by simp
qed simp

declare fields.simps [simp del]

text \<open>\<open>strings.Join\<close>.\<close>

fun join_with :: "string \<Rightarrow> string list \<Rightarrow> string" where
  "join_with sep [] = []"
| "join_with sep [x] = x"
| "join_with sep (x # y # ys) = x @ sep @ join_with sep (y # ys)"

section \<open>Patterns\<close>

text \<open>\<open>^[A-Za-z0-9_.-]{1,64}$\<close>\<close>

definition label_char :: "char \<Rightarrow> bool" where
  "label_char c \<longleftrightarrow> is_alnum c \<or> c = CHR ''_'' \<or> c = CHR ''.'' \<or> c = CHR ''-''"

definition label_pattern :: "string \<Rightarrow> bool" where
  "label_pattern s \<longleftrightarrow> 1 \<le> length s \<and> length s \<le> 64 \<and> list_all label_char s"

text \<open>\<open>^[A-Za-z0-9][A-Za-z0-9_.:/-]{0,127}$\<close>\<close>

definition model_char :: "char \<Rightarrow> bool" where
  "model_char c \<longleftrightarrow> label_char c \<or> c = CHR '':'' \<or> c = CHR ''/''"

definition model_pattern :: "string \<Rightarrow> bool" where
  "model_pattern s = (case s of [] \<Rightarrow> False
     | c # t \<Rightarrow> is_alnum c \<and> length t \<le> 127 \<and> list_all model_char t)"

text \<open>\<open>^[a-z0-9_]{1,64}$\<close>\<close>

definition code_char :: "char \<Rightarrow> bool" where
  "code_char c \<longleftrightarrow> is_lower c \<or> is_digit c \<or> c = CHR ''_''"

definition code_pattern :: "string \<Rightarrow> bool" where
  "code_pattern s \<longleftrightarrow> 1 \<le> length s \<and> length s \<le> 64 \<and> list_all code_char s"

text \<open>\<open>^[0-9a-f]{64}$\<close>\<close>

definition hex64_pattern :: "string \<Rightarrow> bool" where
  "hex64_pattern s \<longleftrightarrow> length s = 64 \<and> list_all is_hex_lower s"

text \<open>\<open>^[A-Z]{3}$\<close>\<close>

definition currency_pattern :: "string \<Rightarrow> bool" where
  "currency_pattern s \<longleftrightarrow> length s = 3 \<and> list_all is_upper s"

text \<open>
  \<open>^(0|[1-9][0-9]*)(\.[0-9]{1,n})?$\<close>, with \<open>None\<close> for \<open>[0-9]+\<close>.
\<close>

definition int_part_ok :: "string \<Rightarrow> bool" where
  "int_part_ok s \<longleftrightarrow> s = ''0'' \<or> (s \<noteq> [] \<and> hd s \<noteq> CHR ''0'' \<and> list_all is_digit s)"

definition decimal_pattern :: "nat option \<Rightarrow> string \<Rightarrow> bool" where
  "decimal_pattern mx s =
     (let (whole, frac, dot) = cut (CHR ''.'') s in
      int_part_ok whole \<and>
      (dot \<longrightarrow> frac \<noteq> [] \<and> list_all is_digit frac \<and>
        (case mx of None \<Rightarrow> True | Some n \<Rightarrow> length frac \<le> n)))"

section \<open>Decimal and hexadecimal digits\<close>

definition digit_char :: "nat \<Rightarrow> char" where
  "digit_char d = char_of (48 + d)"

definition digit_val :: "char \<Rightarrow> nat" where
  "digit_val c = of_char c - 48"

fun show_nat :: "nat \<Rightarrow> string" where
  "show_nat n = (if n < 10 then [digit_char n] else show_nat (n div 10) @ [digit_char (n mod 10)])"

declare show_nat.simps [simp del]

definition show_int :: "int \<Rightarrow> string" where
  "show_int i = (if i < 0 then CHR ''-'' # show_nat (nat (- i)) else show_nat (nat i))"

definition digits_val :: "string \<Rightarrow> nat" where
  "digits_val = foldl (\<lambda>n c. 10 * n + digit_val c) 0"

definition parse_nat :: "string \<Rightarrow> nat option" where
  "parse_nat s = (if s \<noteq> [] \<and> list_all is_digit s then Some (digits_val s) else None)"

lemma of_char_digit_char: "d < 10 \<Longrightarrow> of_char (digit_char d) = 48 + d"
  by (simp add: digit_char_def of_char_of)

lemma is_digit_digit_char: "d < 10 \<Longrightarrow> is_digit (digit_char d)"
  by (simp add: is_digit_def less_eq_char_def of_char_digit_char)

lemma digit_val_digit_char: "d < 10 \<Longrightarrow> digit_val (digit_char d) = d"
  by (simp add: digit_val_def of_char_digit_char)

lemma show_nat_digits: "list_all is_digit (show_nat n)"
  by (induction n rule: show_nat.induct)
    (subst show_nat.simps, simp add: is_digit_digit_char)

lemma show_nat_nonempty: "show_nat n \<noteq> []"
  by (subst show_nat.simps) simp

lemma digits_val_snoc: "digits_val (s @ [c]) = 10 * digits_val s + digit_val c"
  by (simp add: digits_val_def)

lemma digits_val_show_nat: "digits_val (show_nat n) = n"
proof (induction n rule: show_nat.induct)
  case (1 n)
  show ?case
  proof (cases "n < 10")
    case True
    then show ?thesis
      by (simp add: show_nat.simps [of n] digits_val_def digit_val_digit_char)
  next
    case False
    with 1 show ?thesis
      by (simp add: show_nat.simps [of n] digits_val_snoc digit_val_digit_char)
  qed
qed

lemma parse_show_nat [simp]: "parse_nat (show_nat n) = Some n"
  by (simp add: parse_nat_def show_nat_digits show_nat_nonempty digits_val_show_nat)

definition hex_digit :: "nat \<Rightarrow> char" where
  "hex_digit d = (if d < 10 then char_of (48 + d) else char_of (87 + d))"

text \<open>\<open>hex.EncodeToString\<close>.\<close>

definition hex_encode :: "string \<Rightarrow> string" where
  "hex_encode bs = concat (map (\<lambda>c. [hex_digit (of_char c div 16), hex_digit (of_char c mod 16)]) bs)"

lemma is_hex_lower_hex_digit: "d < 16 \<Longrightarrow> is_hex_lower (hex_digit d)"
  by (auto simp: hex_digit_def is_hex_lower_def is_digit_def less_eq_char_def of_char_of)

lemma length_hex_encode: "length (hex_encode bs) = 2 * length bs"
  by (induction bs) (simp_all add: hex_encode_def)

lemma of_char_less_256: "of_char c < (256 :: nat)"
proof -
  have "of_char c = (of_char c mod 256 :: nat)" by simp
  then show ?thesis by (metis mod_less_divisor zero_less_numeral)
qed

lemma hex_encode_lower: "list_all is_hex_lower (hex_encode bs)"
proof (induction bs)
  case Nil
  then show ?case by (simp add: hex_encode_def)
next
  case (Cons c bs)
  have "of_char c div 16 < (16 :: nat)"
    using of_char_less_256 [of c] by (simp add: less_mult_imp_div_less)
  with Cons show ?case by (simp add: hex_encode_def is_hex_lower_hex_digit)
qed

section \<open>Facts about the patterns\<close>

lemma is_hex_lower_label: "is_hex_lower c \<Longrightarrow> label_char c"
  by (auto simp: is_hex_lower_def label_char_def is_alnum_def is_lower_def is_digit_def
      less_eq_char_def)

lemma code_char_label: "code_char c \<Longrightarrow> label_char c"
  by (auto simp: code_char_def label_char_def is_alnum_def)

lemma code_pattern_label: "code_pattern s \<Longrightarrow> label_pattern s"
  unfolding code_pattern_def label_pattern_def
  by (auto simp: list_all_iff code_char_label)

lemma cut_found:
  "cut sep s = (a, b, True) \<Longrightarrow> s = a @ sep # b \<and> list_all (\<lambda>c. c \<noteq> sep) a"
  unfolding cut_def
  by (auto split: list.splits simp: list_all_takeWhile)
    (metis (mono_tags, lifting) dropWhile_hd_neg takeWhile_dropWhile_id)

lemma cut_not_found: "cut sep s = (a, b, False) \<Longrightarrow> a = s \<and> b = [] \<and> sep \<notin> set s"
  unfolding cut_def by (auto split: list.splits)

lemma cut_append: "list_all (\<lambda>c. c \<noteq> sep) a \<Longrightarrow> cut sep (a @ sep # b) = (a, b, True)"
  by (simp add: cut_def dropWhile_append_stop takeWhile_append_stop)

lemma cut_none: "list_all (\<lambda>c. c \<noteq> sep) s \<Longrightarrow> cut sep s = (s, [], False)"
  by (simp add: cut_def dropWhile_all)

lemma has_prefix_append [simp]: "has_prefix (p @ s) p"
  by (simp add: has_prefix_def)

lemma has_prefix_iff: "has_prefix s p \<longleftrightarrow> (\<exists>t. s = p @ t)"
  unfolding has_prefix_def by (metis append_eq_conv_conj append_take_drop_id)

lemma has_suffix_iff: "has_suffix s p \<longleftrightarrow> (\<exists>t. s = t @ p)"
  unfolding has_suffix_def by (metis append_take_drop_id append_eq_append_conv_if
      diff_diff_cancel length_append length_drop le_add2 append_eq_conv_conj add_diff_cancel_right')

lemma split_on_nonempty [simp]: "split_on sep s \<noteq> []"
  by (induction s) (auto split: list.splits)

end
