(* ===== verification/Go_Rat.thy ===== *)
theory Go_Rat
  imports Go_Strings
begin

text \<open>
  \<open>math/big.Rat\<close> as the program uses it: exact rationals, the text forms
  \<open>SetString\<close>, \<open>RatString\<close> and \<open>FloatString\<close>, and the two decimal readers
  \<open>decimal\<close> (\<open>internal/policies/counters.go\<close>) and \<open>policyDecimal\<close>
  (\<open>internal/storage/policy_counters.go\<close>). The main result is that the text written to
  SQLite by \<open>RatString\<close> is read back to the same rational.
\<close>

section \<open>SetString and RatString\<close>

text \<open>
  \<open>SetString\<close> on an optionally signed decimal or fraction. Go also reads base prefixes,
  digit separators and exponents; no caller passes such a text (each checks a decimal pattern
  first or reads a text that \<open>RatString\<close> or \<open>FloatString\<close> wrote).
\<close>

definition unsigned_fraction :: "string \<Rightarrow> rat option" where
  "unsigned_fraction s = (case cut (CHR ''/'') s of
     (a, b, True) \<Rightarrow> (case (parse_nat a, parse_nat b) of
        (Some m, Some n) \<Rightarrow> (if n = 0 then None else Some (of_nat m / of_nat n))
      | _ \<Rightarrow> None)
   | (a, b, False) \<Rightarrow> (case cut (CHR ''.'') s of
        (w, f, dot) \<Rightarrow>
          (if list_all is_digit (w @ f) \<and> w @ f \<noteq> []
           then Some (of_nat (digits_val (w @ f)) / 10 ^ length f) else None)))"

definition set_string :: "string \<Rightarrow> rat option" where
  "set_string s = (case s of
     [] \<Rightarrow> None
   | c # t \<Rightarrow> (if c = CHR ''-'' then map_option uminus (unsigned_fraction t)
               else if c = CHR ''+'' then unsigned_fraction t
               else unsigned_fraction s))"

definition rat_string :: "rat \<Rightarrow> string" where
  "rat_string r = (let (a, b) = quotient_of r in
     if b = 1 then show_int a else show_int a @ CHR ''/'' # show_nat (nat b))"

text \<open>
  \<open>FloatString(10)\<close>: ten decimals, rounded to nearest with halves away from zero.
\<close>

definition pad_left :: "nat \<Rightarrow> string \<Rightarrow> string" where
  "pad_left n s = replicate (n - length s) (CHR ''0'') @ s"

definition round10 :: "rat \<Rightarrow> nat" where
  "round10 r = nat (\<lfloor>\<bar>r\<bar> * 10000000000 + 1 / 2\<rfloor>)"

definition float_string10 :: "rat \<Rightarrow> string" where
  "float_string10 r = (let n = round10 r in
     (if r < 0 then ''-'' else []) @ show_nat (n div 10000000000) @ CHR ''.'' #
     pad_left 10 (show_nat (n mod 10000000000)))"

section \<open>Reading back what was written\<close>

lemma show_nat_no_char: "\<not> is_digit c \<Longrightarrow> list_all (\<lambda>x. x \<noteq> c) (show_nat n)"
  using show_nat_digits [of n] by (auto simp: list_all_iff)

lemma not_digit_chars [simp]:
  "\<not> is_digit (CHR ''/'')" "\<not> is_digit (CHR ''.'')" "\<not> is_digit (CHR ''-'')" "\<not> is_digit (CHR ''+'')"
  by (simp_all add: is_digit_def less_eq_char_def)

lemma unsigned_fraction_show: "unsigned_fraction (show_nat n) = Some (of_nat n)"
proof -
  have "cut (CHR ''/'') (show_nat n) = (show_nat n, [], False)"
    and "cut (CHR ''.'') (show_nat n) = (show_nat n, [], False)"
    by (simp_all add: cut_none show_nat_no_char)
  then show ?thesis
    by (simp add: unsigned_fraction_def show_nat_digits show_nat_nonempty digits_val_show_nat)
qed

lemma unsigned_fraction_show_frac:
  "0 < n \<Longrightarrow> unsigned_fraction (show_nat m @ CHR ''/'' # show_nat n) = Some (of_nat m / of_nat n)"
  by (simp add: unsigned_fraction_def cut_append show_nat_no_char)

lemma show_nat_Cons: "\<exists>c t. show_nat n = c # t \<and> is_digit c"
  using show_nat_nonempty [of n] show_nat_digits [of n] by (cases "show_nat n") auto

lemma set_string_unsigned:
  "s = c # t \<Longrightarrow> is_digit c \<Longrightarrow> set_string s = unsigned_fraction s"
  by (auto simp: set_string_def)

lemma set_string_show_nat_append:
  "set_string (show_nat n @ s) = unsigned_fraction (show_nat n @ s)"
proof -
  obtain c t where "show_nat n = c # t" "is_digit c" using show_nat_Cons by blast
  then show ?thesis by (simp add: set_string_unsigned)
qed

lemma set_string_neg: "set_string (CHR ''-'' # t) = map_option uminus (unsigned_fraction t)"
  by (simp add: set_string_def)

lemma set_string_rat_string: "set_string (rat_string r) = Some r"
proof -
  obtain a b where q: "quotient_of r = (a, b)" by (cases "quotient_of r") auto
  then have b: "0 < b" and r: "r = of_int a / of_int b"
    by (auto dest: quotient_of_denom_pos quotient_of_div)
  define n where "n = nat b"
  from b have n: "0 < n" "of_int b = (of_nat n :: rat)" by (simp_all add: n_def)
  show ?thesis
  proof (cases "a < 0")
    case True
    then have "(of_nat (nat (- a)) :: rat) = - of_int a" by simp
    with True n r q show ?thesis
      by (auto simp: rat_string_def show_int_def set_string_neg unsigned_fraction_show
          unsigned_fraction_show_frac simp flip: n_def)
  next
    case False
    then have "(of_nat (nat a) :: rat) = of_int a" by simp
    with False n r q show ?thesis
      using set_string_show_nat_append [of "nat a" "[]"]
      by (auto simp: rat_string_def show_int_def set_string_show_nat_append unsigned_fraction_show
          unsigned_fraction_show_frac simp flip: n_def)
  qed
qed

section \<open>The two decimal readers\<close>

text \<open>\<open>decimal\<close>: empty is zero, otherwise the pattern \<open>^(0|[1-9][0-9]*)(\.[0-9]{1,10})?$\<close>.\<close>

definition decimal :: "string \<Rightarrow> rat res" where
  "decimal value =
     (if value = [] then Inr 0
      else if \<not> decimal_pattern (Some 10) value then Inl (Errorf ''invalid decimal'')
      else (case set_string value of
              None \<Rightarrow> Inl (Errorf ''invalid nonnegative decimal'')
            | Some r \<Rightarrow> if r < 0 then Inl (Errorf ''invalid nonnegative decimal'') else Inr r))"

definition policy_decimal :: "string \<Rightarrow> rat res" where
  "policy_decimal value =
     (if value = [] then Inr 0
      else (case set_string value of
              None \<Rightarrow> Inl (Errorf ''invalid policy cost'')
            | Some r \<Rightarrow> if r < 0 then Inl (Errorf ''invalid policy cost'') else Inr r))"

text \<open>\<open>exceedsCost\<close> and \<open>addCost\<close> of \<open>counters.go\<close>.\<close>

definition exceeds_cost :: "string \<Rightarrow> string \<Rightarrow> string \<Rightarrow> bool res" where
  "exceeds_cost current amount cap =
     rbind (decimal current) (\<lambda>a. rbind (decimal amount) (\<lambda>b. rbind (decimal cap) (\<lambda>c.
       Inr (a + b > c))))"

definition add_cost :: "string \<Rightarrow> string \<Rightarrow> string res" where
  "add_cost current amount =
     rbind (decimal current) (\<lambda>a. rbind (decimal amount) (\<lambda>b. Inr (rat_string (a + b))))"

lemma rat_string_nonempty [simp]: "rat_string r \<noteq> []"
  by (auto simp: rat_string_def show_int_def show_nat_nonempty split: prod.splits)

lemma policy_decimal_nonneg: "policy_decimal s = Inr r \<Longrightarrow> 0 \<le> r"
  by (auto simp: policy_decimal_def split: if_splits option.splits)

lemma decimal_nonneg: "decimal s = Inr r \<Longrightarrow> 0 \<le> r"
  by (auto simp: decimal_def split: if_splits option.splits)

lemma policy_decimal_rat_string: "0 \<le> r \<Longrightarrow> policy_decimal (rat_string r) = Inr r"
  by (simp add: policy_decimal_def set_string_rat_string)

lemma policy_decimal_Nil [simp]: "policy_decimal [] = Inr 0"
  by (simp add: policy_decimal_def)

lemma decimal_Nil [simp]: "decimal [] = Inr 0"
  by (simp add: decimal_def)

lemma decimal_policy_decimal: "decimal s = Inr r \<Longrightarrow> policy_decimal s = Inr r"
  by (auto simp: decimal_def policy_decimal_def split: if_splits option.splits)

text \<open>A text that matches the decimal pattern is always a readable non-negative number.\<close>

lemma int_part_digits: "int_part_ok w \<Longrightarrow> list_all is_digit w \<and> w \<noteq> []"
  by (auto simp: int_part_ok_def is_digit_def less_eq_char_def)

lemma decimal_pattern_unsigned:
  assumes "decimal_pattern mx s"
  obtains r where "unsigned_fraction s = Some r" and "0 \<le> r"
proof -
  obtain w f dot where c: "cut (CHR ''.'') s = (w, f, dot)" by (cases "cut (CHR ''.'') s") auto
  with assms have w: "list_all is_digit w" "w \<noteq> []" and f: "dot \<Longrightarrow> list_all is_digit f"
    by (auto simp: decimal_pattern_def dest: int_part_digits)
  have s: "s = w @ (if dot then CHR ''.'' # f else [])" and f': "\<not> dot \<Longrightarrow> f = []"
    using c by (cases dot; auto dest: cut_found cut_not_found)+
  have "list_all (\<lambda>c. c \<noteq> CHR ''/'') s"
    using w f unfolding s by (cases dot) (auto simp: list_all_iff)
  then have "cut (CHR ''/'') s = (s, [], False)" by (rule cut_none)
  with c w f f' have "unsigned_fraction s = Some (of_nat (digits_val (w @ f)) / 10 ^ length f)"
    by (cases dot) (simp_all add: unsigned_fraction_def)
  then show ?thesis by (rule that) simp
qed

lemma decimal_pattern_set_string:
  assumes "decimal_pattern mx s"
  obtains r where "set_string s = Some r" and "0 \<le> r"
proof -
  obtain w f dot where c: "cut (CHR ''.'') s = (w, f, dot)" by (cases "cut (CHR ''.'') s") auto
  with assms have w: "list_all is_digit w" "w \<noteq> []"
    by (auto simp: decimal_pattern_def dest: int_part_digits)
  moreover have "s = w @ (if dot then CHR ''.'' # f else [])"
    using c by (cases dot) (auto dest: cut_found cut_not_found)
  ultimately obtain d t where "s = d # t" "is_digit d" by (cases w) auto
  then have "set_string s = unsigned_fraction s" by (rule set_string_unsigned)
  moreover obtain r where "unsigned_fraction s = Some r" "0 \<le> r"
    using assms by (rule decimal_pattern_unsigned)
  ultimately show ?thesis using that by simp
qed

lemma decimal_ok_iff: "is_ok (decimal s) \<longleftrightarrow> s = [] \<or> decimal_pattern (Some 10) s"
proof (cases "s = [] \<or> decimal_pattern (Some 10) s")
  case True
  show ?thesis
  proof (cases "s = []")
    case False
    with True have p: "decimal_pattern (Some 10) s" by simp
    then obtain r where "set_string s = Some r" "0 \<le> r" by (rule decimal_pattern_set_string)
    with p show ?thesis by (simp add: decimal_def)
  qed simp
next
  case False
  then show ?thesis by (simp add: decimal_def)
qed

end
