(* ===== verification/Telemetry.thy ===== *)
theory Telemetry
  imports Go_Rat
begin

text \<open>
  \<open>internal/telemetry\<close>: identifiers and W3C trace context (\<open>trace.go\<close>), usage provenance
  (\<open>usage.go\<close>) and the canonical event with its builder and validator (\<open>event.go\<close>).
  Instants are integers of nanoseconds since the Unix epoch; \<open>zero_time\<close> is Go's zero
  \<open>time.Time\<close>. Random bytes are an argument: \<open>None\<close> is a failing \<open>rand.Read\<close>.
\<close>

section \<open>Identifiers and trace context\<close>

type_synonym time = int

definition zero_time :: time where
  "zero_time = - 62135596800000000000"

definition new_id :: "string option \<Rightarrow> string res" where
  "new_id raw = (case raw of None \<Rightarrow> Inl (Errorf ''rand'') | Some bs \<Rightarrow> Inr (hex_encode bs))"

definition valid_hex_id :: "string \<Rightarrow> nat \<Rightarrow> bool" where
  "valid_hex_id v n \<longleftrightarrow> length v = n \<and> \<not> list_all (\<lambda>c. c = CHR ''0'') v \<and> list_all is_hex_lower v"

record trace_context =
  tc_trace_id :: string
  tc_span_id :: string
  tc_parent_span_id :: string

text \<open>\<open>NewTrace\<close>: a well-formed traceparent is continued, anything else starts a new trace.\<close>

definition parse_traceparent :: "string \<Rightarrow> (string \<times> string) option" where
  "parse_traceparent tp = (case split_on (CHR ''-'') (to_lower tp) of
     [p0, p1, p2, p3] \<Rightarrow>
       (if length p0 = 2 \<and> p0 \<noteq> ''ff'' \<and> valid_hex_id p1 32 \<and> valid_hex_id p2 16 \<and> length p3 = 2
           \<and> list_all is_hex_lower (p0 @ p3)
        then Some (p1, p2) else None)
   | _ \<Rightarrow> None)"

definition new_trace :: "string option \<Rightarrow> string option \<Rightarrow> string \<Rightarrow> trace_context res" where
  "new_trace raw_trace raw_span tp =
     rbind (case parse_traceparent tp of
              Some (t, p) \<Rightarrow> Inr (t, p)
            | None \<Rightarrow> rbind (new_id raw_trace) (\<lambda>t. Inr (t, [])))
       (\<lambda>(t, p). rbind (new_id raw_span) (\<lambda>s.
          Inr \<lparr>tc_trace_id = t, tc_span_id = s, tc_parent_span_id = p\<rparr>))"

definition resolve_run_id :: "string option \<Rightarrow> string \<Rightarrow> string res" where
  "resolve_run_id raw candidate =
     (if label_pattern candidate then Inr candidate
      else rbind (new_id raw) (\<lambda>i. Inr (''run_'' @ i)))"

section \<open>Usage and events\<close>

record usage =
  us_source :: string
  us_input_tokens :: "int option"
  us_output_tokens :: "int option"
  us_cached_tokens :: "int option"

definition from_result :: "string \<Rightarrow> int option \<Rightarrow> int option \<Rightarrow> int option \<Rightarrow> usage" where
  "from_result src i out c =
     \<lparr>us_source = src, us_input_tokens = i, us_output_tokens = out, us_cached_tokens = c\<rparr>"

record policy_decision =
  pd_decision :: string
  pd_reason :: string
  pd_policy :: string
  pd_attempt :: int
  pd_threshold :: int

record event =
  ev_event_id :: string
  ev_event_type :: string
  ev_schema_version :: string
  ev_created_at :: time
  ev_organization_id :: string
  ev_installation_id :: string
  ev_project_id :: string
  ev_environment :: string
  ev_agent_id :: string
  ev_run_id :: string
  ev_trace_id :: string
  ev_span_id :: string
  ev_provider :: string
  ev_requested_model :: string
  ev_response_model :: string
  ev_input_tokens :: "int option"
  ev_output_tokens :: "int option"
  ev_cached_tokens :: "int option"
  ev_usage_source :: string
  ev_latency_ms :: int
  ev_status :: string
  ev_error_code :: string
  ev_tool_name :: string
  ev_policy_decision :: "policy_decision option"
  ev_actual_cost :: "string option"
  ev_estimated_cost :: "string option"
  ev_pricing_version :: string
  ev_cost_currency :: string
  ev_content_capture :: bool

record attempt =
  at_organization_id :: string
  at_installation_id :: string
  at_project_id :: string
  at_environment :: string
  at_agent_id :: string
  at_run_id :: string
  at_trace_id :: string
  at_span_id :: string
  at_provider :: string
  at_requested_model :: string
  at_response_model :: string
  at_input_tokens :: "int option"
  at_output_tokens :: "int option"
  at_cached_tokens :: "int option"
  at_usage_source :: string
  at_status :: string
  at_error_code :: string
  at_tool_name :: string
  at_policy_decision :: "policy_decision option"
  at_actual_cost :: "string option"
  at_estimated_cost :: "string option"
  at_pricing_version :: string
  at_cost_currency :: string
  at_started_at :: time
  at_ended_at :: time

definition schema_version :: string where
  "schema_version = ''1.0''"

definition valid_count :: "int option \<Rightarrow> bool" where
  "valid_count c = (case c of None \<Rightarrow> True | Some n \<Rightarrow> 0 \<le> n)"

definition valid_optional_label :: "string \<Rightarrow> bool" where
  "valid_optional_label v \<longleftrightarrow> v = [] \<or> label_pattern v"

definition valid_optional_model :: "string \<Rightarrow> bool" where
  "valid_optional_model v \<longleftrightarrow> v = [] \<or> model_pattern v"

definition cached_ok :: "int option \<Rightarrow> int option \<Rightarrow> bool" where
  "cached_ok cached inp = (case cached of None \<Rightarrow> True
     | Some c \<Rightarrow> (case inp of None \<Rightarrow> False | Some i \<Rightarrow> c \<le> i))"

definition event_statuses :: "string list" where
  "event_statuses = [''success'', ''provider_error'', ''transport_error'', ''policy_block'', ''client_cancelled'']"

text \<open>The switch over \<open>UsageSource\<close>, common to \<open>Build\<close> and \<open>ValidateEvent\<close>.\<close>

definition check_usage_source :: "string \<Rightarrow> int option \<Rightarrow> int option \<Rightarrow> int option \<Rightarrow> unit res" where
  "check_usage_source src i out c =
     (if src = ''provider'' \<or> src = ''estimated'' then
        (if i = None \<and> out = None then Inl (Errorf ''usage source has no counts'') else Inr ())
      else if src = ''unknown'' then
        (if i \<noteq> None \<or> out \<noteq> None \<or> c \<noteq> None then Inl (Errorf ''unknown usage has counts'') else Inr ())
      else Inl (Errorf ''invalid usage source''))"

text \<open>The exclusive, provenance-bound cost fields.\<close>

definition check_costs :: "string \<Rightarrow> string option \<Rightarrow> string option \<Rightarrow> unit res" where
  "check_costs src actual estimated =
     (if actual \<noteq> None \<and> estimated \<noteq> None then Inl (Errorf ''actual and estimated cost are exclusive'')
      else if (case actual of None \<Rightarrow> False | Some a \<Rightarrow> src \<noteq> ''provider'' \<or> \<not> decimal_pattern None a)
        then Inl (Errorf ''invalid actual cost'')
      else if (case estimated of None \<Rightarrow> False | Some a \<Rightarrow> src \<noteq> ''estimated'' \<or> \<not> decimal_pattern None a)
        then Inl (Errorf ''invalid estimated cost'')
      else Inr ())"

definition event_type_of :: "string \<Rightarrow> string" where
  "event_type_of status =
     (if status = ''policy_block'' then ''llm.policy.blocked''
      else if status \<noteq> ''success'' then ''llm.response.failed''
      else ''llm.response.completed'')"

text \<open>\<open>Duration.Milliseconds\<close> of \<open>EndedAt.Sub(StartedAt)\<close>: \<open>Sub\<close> saturates.\<close>

definition latency_ms :: "time \<Rightarrow> time \<Rightarrow> int" where
  "latency_ms started ended = (let d = ended - started in
     (if d > max_int64 then max_int64 div 1000000
      else if d < min_int64 then - ((- min_int64) div 1000000)
      else if d < 0 then - ((- d) div 1000000) else d div 1000000))"

text \<open>The event that \<open>Build\<close> returns once every check has passed.\<close>

definition built_event :: "attempt \<Rightarrow> string \<Rightarrow> event" where
  "built_event a eid =
        \<lparr>ev_event_id = eid, ev_event_type = event_type_of (at_status a),
             ev_schema_version = schema_version, ev_created_at = at_ended_at a,
             ev_organization_id = at_organization_id a, ev_installation_id = at_installation_id a,
             ev_project_id = at_project_id a, ev_environment = at_environment a,
             ev_agent_id = at_agent_id a, ev_run_id = at_run_id a, ev_trace_id = at_trace_id a,
             ev_span_id = at_span_id a, ev_provider = at_provider a,
             ev_requested_model = at_requested_model a, ev_response_model = at_response_model a,
             ev_input_tokens = at_input_tokens a, ev_output_tokens = at_output_tokens a,
             ev_cached_tokens = at_cached_tokens a, ev_usage_source = at_usage_source a,
             ev_latency_ms = latency_ms (at_started_at a) (at_ended_at a), ev_status = at_status a,
             ev_error_code = at_error_code a, ev_tool_name = at_tool_name a,
             ev_policy_decision = at_policy_decision a, ev_actual_cost = at_actual_cost a,
             ev_estimated_cost = at_estimated_cost a, ev_pricing_version = at_pricing_version a,
             ev_cost_currency = at_cost_currency a, ev_content_capture = False\<rparr>"

definition build :: "string option \<Rightarrow> attempt \<Rightarrow> event res" where
  "build raw a =
     (if \<not> label_pattern (at_installation_id a) \<or> \<not> label_pattern (at_run_id a)
         \<or> \<not> valid_hex_id (at_trace_id a) 32 \<or> \<not> valid_hex_id (at_span_id a) 16
         \<or> \<not> label_pattern (at_provider a) \<or> \<not> model_pattern (at_requested_model a)
         \<or> \<not> valid_optional_model (at_response_model a)
         \<or> \<not> valid_optional_label (at_organization_id a) \<or> \<not> valid_optional_label (at_project_id a)
         \<or> \<not> valid_optional_label (at_environment a) \<or> \<not> valid_optional_label (at_agent_id a)
         \<or> \<not> valid_optional_model (at_tool_name a)
         \<or> \<not> valid_optional_label (at_pricing_version a)
         \<or> (at_cost_currency a \<noteq> [] \<and> \<not> currency_pattern (at_cost_currency a))
      then Inl (Errorf ''invalid event identity'')
      else if at_ended_at a < at_started_at a \<or> at_started_at a = zero_time
        then Inl (Errorf ''invalid event timing'')
      else if \<not> valid_count (at_input_tokens a) \<or> \<not> valid_count (at_output_tokens a)
              \<or> \<not> valid_count (at_cached_tokens a)
        then Inl (Errorf ''negative token count'')
      else if \<not> cached_ok (at_cached_tokens a) (at_input_tokens a)
        then Inl (Errorf ''cached tokens exceed input tokens'')
      else if at_status a \<notin> set event_statuses then Inl (Errorf ''invalid event status'')
      else rbind (check_usage_source (at_usage_source a) (at_input_tokens a) (at_output_tokens a)
                    (at_cached_tokens a)) (\<lambda>_.
        if at_error_code a \<noteq> [] \<and> \<not> code_pattern (at_error_code a)
          then Inl (Errorf ''invalid error code'')
        else rbind (check_costs (at_usage_source a) (at_actual_cost a) (at_estimated_cost a)) (\<lambda>_.
        rbind (new_id raw) (\<lambda>eid. Inr (built_event a eid)))))"

definition valid_policy_decision :: "policy_decision \<Rightarrow> bool" where
  "valid_policy_decision p \<longleftrightarrow>
     (pd_decision p = ''allow'' \<or> pd_decision p = ''block'') \<and>
     code_pattern (pd_reason p) \<and> code_pattern (pd_policy p) \<and>
     0 \<le> pd_attempt p \<and> 0 \<le> pd_threshold p"

definition validate_event :: "event \<Rightarrow> unit res" where
  "validate_event e =
     (if ev_schema_version e \<noteq> schema_version \<or> ev_content_capture e
         \<or> \<not> valid_hex_id (ev_event_id e) 32 \<or> ev_created_at e = zero_time
         \<or> \<not> label_pattern (ev_installation_id e) \<or> \<not> label_pattern (ev_run_id e)
         \<or> \<not> valid_hex_id (ev_trace_id e) 32 \<or> \<not> valid_hex_id (ev_span_id e) 16
         \<or> \<not> label_pattern (ev_provider e) \<or> \<not> model_pattern (ev_requested_model e)
         \<or> \<not> valid_optional_model (ev_response_model e)
         \<or> \<not> valid_optional_label (ev_organization_id e) \<or> \<not> valid_optional_label (ev_project_id e)
         \<or> \<not> valid_optional_label (ev_environment e) \<or> \<not> valid_optional_label (ev_agent_id e)
         \<or> \<not> valid_optional_model (ev_tool_name e)
         \<or> \<not> valid_optional_label (ev_pricing_version e)
         \<or> (ev_cost_currency e \<noteq> [] \<and> \<not> currency_pattern (ev_cost_currency e))
         \<or> (ev_error_code e \<noteq> [] \<and> \<not> code_pattern (ev_error_code e))
         \<or> ev_latency_ms e < 0 \<or> \<not> valid_count (ev_input_tokens e)
         \<or> \<not> valid_count (ev_output_tokens e) \<or> \<not> valid_count (ev_cached_tokens e)
      then Inl (Errorf ''invalid canonical event metadata'')
      else if \<not> cached_ok (ev_cached_tokens e) (ev_input_tokens e)
        then Inl (Errorf ''invalid cached token count'')
      else if ev_status e \<notin> set event_statuses then Inl (Errorf ''invalid event status'')
      else rbind (check_usage_source (ev_usage_source e) (ev_input_tokens e) (ev_output_tokens e)
                    (ev_cached_tokens e)) (\<lambda>_.
        rbind (check_costs (ev_usage_source e) (ev_actual_cost e) (ev_estimated_cost e)) (\<lambda>_.
        case ev_policy_decision e of
          None \<Rightarrow> Inr ()
        | Some p \<Rightarrow> if valid_policy_decision p then Inr () else Inl (Errorf ''invalid policy decision''))))"

section \<open>Lemmas\<close>

lemma latency_ms_nonneg: "started \<le> ended \<Longrightarrow> 0 \<le> latency_ms started ended"
  by (simp add: latency_ms_def Let_def max_int64_def min_int64_def pos_imp_zdiv_nonneg_iff)

lemma new_id_length: "new_id (Some bs) = Inr i \<Longrightarrow> length i = 2 * length bs"
  by (auto simp: new_id_def length_hex_encode)

lemma label_pattern_run_prefix:
  "length bs = 16 \<Longrightarrow> label_pattern (''run_'' @ hex_encode bs)"
  using hex_encode_lower [of bs]
  by (auto simp: label_pattern_def length_hex_encode list_all_iff is_hex_lower_label)
    (simp_all add: label_char_def is_alnum_def is_lower_def less_eq_char_def)

lemma resolve_run_id_label:
  "resolve_run_id (Some bs) c = Inr r \<Longrightarrow> length bs = 16 \<Longrightarrow> label_pattern r"
  unfolding resolve_run_id_def new_id_def
  using label_pattern_run_prefix [of bs] by (auto split: if_splits)

lemma resolve_run_id_valid [simp]: "label_pattern c \<Longrightarrow> resolve_run_id raw c = Inr c"
  by (simp add: resolve_run_id_def)

lemma char_of_48: "char_of (48 :: nat) = CHR ''0''"
  by code_simp

lemma hex_digit_zero: "d < 16 \<Longrightarrow> hex_digit d = CHR ''0'' \<longleftrightarrow> d = 0"
  by (auto simp: hex_digit_def of_char_of char_of_48 dest!: arg_cong [where f = "of_char :: char \<Rightarrow> nat"])

text \<open>An identifier of random bytes that are not all zero is a valid identifier.\<close>

lemma hex_encode_valid:
  assumes "length bs = n" and "\<exists>c \<in> set bs. c \<noteq> CHR 0x00"
  shows "valid_hex_id (hex_encode bs) (2 * n)"
proof -
  from assms(2) obtain c where c: "c \<in> set bs" and nz: "c \<noteq> CHR 0x00" by blast
  define d where "d = (of_char c :: nat)"
  have d: "d < 256" unfolding d_def by (rule of_char_less_256)
  have "d \<noteq> 0"
  proof
    assume "d = 0"
    then have "of_char c = (of_char (CHR 0x00) :: nat)" by (simp add: d_def)
    with nz show False by (simp only: of_char_eq_iff)
  qed
  then have "d div 16 \<noteq> 0 \<or> d mod 16 \<noteq> 0" by presburger
  moreover from d have "d div 16 < 16" by (simp add: less_mult_imp_div_less)
  ultimately have "hex_digit (d div 16) \<noteq> CHR ''0'' \<or> hex_digit (d mod 16) \<noteq> CHR ''0''"
    by (simp add: hex_digit_zero)
  moreover from c have "hex_digit (d div 16) \<in> set (hex_encode bs)"
    and "hex_digit (d mod 16) \<in> set (hex_encode bs)"
    by (auto simp: hex_encode_def d_def)
  ultimately have "\<not> list_all (\<lambda>x. x = CHR ''0'') (hex_encode bs)"
    by (auto simp: list_all_iff)
  with assms(1) show ?thesis
    by (simp add: valid_hex_id_def length_hex_encode hex_encode_lower)
qed

lemma parse_traceparent_valid:
  "parse_traceparent tp = Some (t, p) \<Longrightarrow> valid_hex_id t 32 \<and> valid_hex_id p 16"
  by (auto simp: parse_traceparent_def split: list.splits if_splits)

lemma parse_traceparent_Nil: "parse_traceparent [] = None"
  by (simp add: parse_traceparent_def to_lower_def)

lemma build_InrD:
  assumes "build raw a = Inr e"
  shows "label_pattern (at_installation_id a) \<and> label_pattern (at_run_id a)
    \<and> valid_hex_id (at_trace_id a) 32 \<and> valid_hex_id (at_span_id a) 16
    \<and> label_pattern (at_provider a) \<and> model_pattern (at_requested_model a)
    \<and> valid_optional_model (at_response_model a)
    \<and> valid_optional_label (at_organization_id a) \<and> valid_optional_label (at_project_id a)
    \<and> valid_optional_label (at_environment a) \<and> valid_optional_label (at_agent_id a)
    \<and> valid_optional_model (at_tool_name a) \<and> valid_optional_label (at_pricing_version a)
    \<and> (at_cost_currency a \<noteq> [] \<longrightarrow> currency_pattern (at_cost_currency a))
    \<and> at_started_at a \<le> at_ended_at a \<and> at_started_at a \<noteq> zero_time
    \<and> valid_count (at_input_tokens a) \<and> valid_count (at_output_tokens a)
    \<and> valid_count (at_cached_tokens a)
    \<and> cached_ok (at_cached_tokens a) (at_input_tokens a) \<and> at_status a \<in> set event_statuses
    \<and> check_usage_source (at_usage_source a) (at_input_tokens a) (at_output_tokens a)
        (at_cached_tokens a) = Inr ()
    \<and> (at_error_code a \<noteq> [] \<longrightarrow> code_pattern (at_error_code a))
    \<and> check_costs (at_usage_source a) (at_actual_cost a) (at_estimated_cost a) = Inr ()
    \<and> (\<exists>eid. new_id raw = Inr eid \<and> e = built_event a eid)"
  using assms unfolding build_def
  by (simp add: rbind_Inr_iff split: if_split_asm)
    (metis not_less)

section \<open>Properties\<close>

text \<open>an event that \<open>Build\<close> returns always passes \<open>ValidateEvent\<close>: the journal, the redaction
  step and the exporters never reject an event the gateway built, as long as its random
  identifier is not all zero, its end is not the zero instant and its policy decision (which
  \<open>Build\<close> copies unchecked) is well formed.
\<close>

theorem build_validates:
  assumes b: "build (Some bs) a = Inr e"
    and id: "length bs = 16" "\<exists>c \<in> set bs. c \<noteq> CHR 0x00"
    and t: "at_ended_at a \<noteq> zero_time"
    and p: "\<And>d. at_policy_decision a = Some d \<Longrightarrow> valid_policy_decision d"
  shows "validate_event e = Inr ()"
proof -
  have "valid_hex_id (hex_encode bs) 32"
    using hex_encode_valid [OF id] by simp
  moreover have "(case at_policy_decision a of None \<Rightarrow> Inr ()
      | Some d \<Rightarrow> if valid_policy_decision d then Inr () else Inl (Errorf ''invalid policy decision''))
      = (Inr () :: unit res)"
    using p by (simp split: option.split)
  ultimately show ?thesis
    using build_InrD [OF b] t
    by (auto simp: validate_event_def built_event_def new_id_def latency_ms_nonneg not_less)
qed

definition example_attempt :: attempt where
  "example_attempt = \<lparr>at_organization_id = [], at_installation_id = ''install_1'', at_project_id = [],
     at_environment = [], at_agent_id = [], at_run_id = ''run_1'',
     at_trace_id = ''0123456789abcdef0123456789abcdef'', at_span_id = ''0123456789abcdef'',
     at_provider = ''openai'', at_requested_model = ''gpt-4o'', at_response_model = [],
     at_input_tokens = None, at_output_tokens = None, at_cached_tokens = None,
     at_usage_source = ''unknown'', at_status = ''policy_block'', at_error_code = ''call_limit'',
     at_tool_name = [],
     at_policy_decision = Some \<lparr>pd_decision = ''block'', pd_reason = ''call_limit'',
       pd_policy = ''max_requests_per_run'', pd_attempt = 4, pd_threshold = 3\<rparr>,
     at_actual_cost = None, at_estimated_cost = None, at_pricing_version = [],
     at_cost_currency = [], at_started_at = 5, at_ended_at = 9\<rparr>"

lemma example_attempt_builds:
  "build (Some (replicate 16 (CHR ''a''))) example_attempt =
   Inr (built_event example_attempt (hex_encode (replicate 16 (CHR ''a''))))"
  by code_simp

theorem build_validates_witness:
  "validate_event (built_event example_attempt (hex_encode (replicate 16 (CHR ''a'')))) = Inr ()"
proof (rule build_validates [OF example_attempt_builds])
  show "length (replicate 16 (CHR ''a'')) = 16" by simp
  show "\<exists>c \<in> set (replicate 16 (CHR ''a'')). c \<noteq> CHR 0x00" by simp
  show "at_ended_at example_attempt \<noteq> zero_time" by code_simp
  show "valid_policy_decision d" if "at_policy_decision example_attempt = Some d" for d
  proof -
    have "valid_policy_decision (the (at_policy_decision example_attempt))" by code_simp
    with that show ?thesis by simp
  qed
qed

end
