(* ===== verification/Redaction.thy ===== *)
theory Redaction
  imports Telemetry
begin

text \<open>
  \<open>internal/redaction/event.go\<close>: the allow-list of exportable fields, \<open>Prepare\<close>,
  \<open>ValidateFields\<close> and \<open>ForExport\<close>. The event's JSON object is the list of its encoded
  fields, \<open>omitempty\<close> fields left out as \<open>encoding/json\<close> does.
\<close>

datatype json =
    JNull
  | JStr string
  | JNum int
  | JBool bool
  | JTime time
  | JObj "(string \<times> json) list"

definition json_opt :: "('a \<Rightarrow> json) \<Rightarrow> 'a option \<Rightarrow> json" where
  "json_opt f x = (case x of None \<Rightarrow> JNull | Some y \<Rightarrow> f y)"

text \<open>A string field tagged \<open>omitempty\<close>.\<close>

definition omit_empty :: "string \<Rightarrow> string \<Rightarrow> (string \<times> json) list" where
  "omit_empty name v = (if v = [] then [] else [(name, JStr v)])"

definition decision_json :: "policy_decision \<Rightarrow> json" where
  "decision_json p = JObj [(''decision'', JStr (pd_decision p)), (''reason'', JStr (pd_reason p)),
     (''policy'', JStr (pd_policy p)), (''attempt'', JNum (pd_attempt p)),
     (''threshold'', JNum (pd_threshold p))]"

definition event_json :: "event \<Rightarrow> (string \<times> json) list" where
  "event_json e =
     [(''event_id'', JStr (ev_event_id e)), (''event_type'', JStr (ev_event_type e)),
      (''schema_version'', JStr (ev_schema_version e)), (''created_at'', JTime (ev_created_at e))] @
     omit_empty ''organization_id'' (ev_organization_id e) @
     [(''installation_id'', JStr (ev_installation_id e))] @
     omit_empty ''project_id'' (ev_project_id e) @
     omit_empty ''environment'' (ev_environment e) @
     omit_empty ''agent_id'' (ev_agent_id e) @
     [(''run_id'', JStr (ev_run_id e)), (''trace_id'', JStr (ev_trace_id e)),
      (''span_id'', JStr (ev_span_id e)), (''provider'', JStr (ev_provider e)),
      (''requested_model'', JStr (ev_requested_model e))] @
     omit_empty ''response_model'' (ev_response_model e) @
     [(''input_tokens'', json_opt JNum (ev_input_tokens e)),
      (''output_tokens'', json_opt JNum (ev_output_tokens e)),
      (''cached_tokens'', json_opt JNum (ev_cached_tokens e)),
      (''usage_source'', JStr (ev_usage_source e)), (''latency_ms'', JNum (ev_latency_ms e)),
      (''status'', JStr (ev_status e))] @
     omit_empty ''error_code'' (ev_error_code e) @
     omit_empty ''tool_name'' (ev_tool_name e) @
     (case ev_policy_decision e of None \<Rightarrow> [] | Some p \<Rightarrow> [(''policy_decision'', decision_json p)]) @
     [(''actual_cost'', json_opt JStr (ev_actual_cost e)),
      (''estimated_cost'', json_opt JStr (ev_estimated_cost e))] @
     omit_empty ''pricing_version'' (ev_pricing_version e) @
     omit_empty ''cost_currency'' (ev_cost_currency e) @
     [(''content_capture'', JBool (ev_content_capture e))]"

definition exportable_fields :: "string list" where
  "exportable_fields =
     [''event_id'', ''event_type'', ''schema_version'', ''created_at'', ''organization_id'',
      ''installation_id'', ''project_id'', ''environment'', ''agent_id'', ''run_id'', ''trace_id'',
      ''span_id'', ''provider'', ''requested_model'', ''response_model'', ''input_tokens'',
      ''output_tokens'', ''cached_tokens'', ''usage_source'', ''latency_ms'', ''status'',
      ''error_code'', ''tool_name'', ''policy_decision'', ''actual_cost'', ''estimated_cost'',
      ''pricing_version'', ''cost_currency'', ''content_capture'']"

definition prepare :: "event \<Rightarrow> event res" where
  "prepare e = rbind (validate_event e) (\<lambda>_. Inr e)"

definition validate_fields :: "string list \<Rightarrow> unit res" where
  "validate_fields allowed =
     (if allowed = [] then Inl (Errorf ''export field allowlist is required'')
      else if list_all (\<lambda>f. f \<in> set exportable_fields) allowed then Inr ()
      else Inl (Errorf ''unsupported export field''))"

fun select_fields :: "(string \<times> json) list \<Rightarrow> string list \<Rightarrow> (string \<rightharpoonup> json)" where
  "select_fields obj [] = Map.empty"
| "select_fields obj (f # fs) =
     (case map_of obj f of None \<Rightarrow> select_fields obj fs | Some v \<Rightarrow> (select_fields obj fs)(f \<mapsto> v))"

definition for_export :: "event \<Rightarrow> string list \<Rightarrow> (string \<rightharpoonup> json) res" where
  "for_export e allowed =
     rbind (validate_fields allowed) (\<lambda>_. rbind (prepare e) (\<lambda>p.
       Inr (select_fields (event_json p) allowed)))"

section \<open>Lemmas\<close>

lemma select_fields_eq:
  "select_fields obj fs = (\<lambda>f. if f \<in> set fs then map_of obj f else None)"
  by (induction fs) (auto split: option.splits simp: fun_eq_iff)

lemma dom_map_of_fst: "dom (map_of obj) = fst ` set obj"
  by (rule dom_map_of_conv_image_fst)

lemma dom_select_fields: "dom (select_fields obj fs) = set fs \<inter> fst ` set obj"
  using dom_map_of_fst [of obj] by (auto simp: select_fields_eq dom_def split: if_splits)

lemma prepare_Inr_iff: "prepare e = Inr p \<longleftrightarrow> p = e \<and> validate_event e = Inr ()"
  by (cases "validate_event e") (auto simp: prepare_def)

lemma validate_fields_Inr_iff:
  "validate_fields fs = Inr u \<longleftrightarrow> fs \<noteq> [] \<and> set fs \<subseteq> set exportable_fields"
  by (auto simp: validate_fields_def list_all_iff)

lemma for_export_Inr_iff:
  "for_export e fs = Inr m \<longleftrightarrow> fs \<noteq> [] \<and> set fs \<subseteq> set exportable_fields \<and>
     validate_event e = Inr () \<and> m = select_fields (event_json e) fs"
  by (auto simp: for_export_def rbind_Inr_iff prepare_Inr_iff validate_fields_Inr_iff)

text \<open>Every encoded field of an event is on the allow-list of exportable fields.\<close>

lemma event_json_fields: "fst ` set (event_json e) \<subseteq> set exportable_fields"
  by (auto simp: event_json_def exportable_fields_def omit_empty_def split: option.splits)

section \<open>Properties\<close>

text \<open>\<open>ForExport\<close> discloses nothing beyond the configured allow-list. What leaves the machine
  depends only on the allowed fields (two events that agree on them export alike), every
  exported key is allowed and exportable, and each value is the event's own.
\<close>

theorem for_export_only_allowed:
  assumes "for_export e fs = Inr m"
  shows "dom m = set fs \<inter> fst ` set (event_json e) \<and> set fs \<subseteq> set exportable_fields \<and>
    (\<forall>f v. m f = Some v \<longrightarrow> map_of (event_json e) f = Some v) \<and>
    (\<forall>e'. validate_event e' = Inr () \<longrightarrow>
      (\<forall>f \<in> set fs. map_of (event_json e') f = map_of (event_json e) f) \<longrightarrow> for_export e' fs = Inr m)"
proof -
  from assms have m: "m = select_fields (event_json e) fs"
    and ok: "fs \<noteq> []" "set fs \<subseteq> set exportable_fields"
    by (simp_all add: for_export_Inr_iff)
  have "select_fields (event_json e') fs = m"
    if "\<forall>f \<in> set fs. map_of (event_json e') f = map_of (event_json e) f" for e'
    using that by (auto simp: m select_fields_eq fun_eq_iff)
  with ok have "\<forall>e'. validate_event e' = Inr () \<longrightarrow>
      (\<forall>f \<in> set fs. map_of (event_json e') f = map_of (event_json e) f) \<longrightarrow> for_export e' fs = Inr m"
    by (simp add: for_export_Inr_iff)
  moreover have "\<forall>f v. m f = Some v \<longrightarrow> map_of (event_json e) f = Some v"
    by (simp add: m select_fields_eq)
  ultimately show ?thesis
    using ok dom_select_fields [of "event_json e" fs] m by blast
qed

definition example_event :: event where
  "example_event = built_event example_attempt (hex_encode (replicate 16 (CHR ''a'')))"

lemma example_export:
  "for_export example_event [''status'', ''error_code''] =
   Inr (select_fields (event_json example_event) [''status'', ''error_code''])"
proof -
  have "set [''status'', ''error_code''] \<subseteq> set exportable_fields \<and> validate_event example_event = Inr ()"
    by code_simp
  then show ?thesis by (simp add: for_export_Inr_iff)
qed

theorem for_export_only_allowed_witness:
  "select_fields (event_json example_event) [''status'', ''error_code''] ''status'' = Some (JStr ''policy_block'') \<and>
   dom (select_fields (event_json example_event) [''status'', ''error_code'']) =
     {''status'', ''error_code''} \<inter> fst ` set (event_json example_event)"
proof
  show "select_fields (event_json example_event) [''status'', ''error_code''] ''status'' = Some (JStr ''policy_block'')"
    by code_simp
  show "dom (select_fields (event_json example_event) [''status'', ''error_code'']) =
     {''status'', ''error_code''} \<inter> fst ` set (event_json example_event)"
    using for_export_only_allowed [OF example_export] by simp
qed

end
