(* ===== verification/Database.thy ===== *)
theory Database
  imports Redaction
begin

text \<open>
  The SQLite database behind \<open>storage.Journal\<close> (\<open>internal/storage/sqlite.go\<close> and
  \<open>internal/storage/migrations/*.sql\<close>): one record per table, a row list per table, and the
  effect type of the code that talks to it. A statement either fails (a driver error, taken
  from an arbitrary list of faults, or a violated key) or has its relational effect; a
  transaction that does not commit leaves the tables as they were, which is what
  \<open>defer tx.Rollback()\<close> provides. The single write connection (\<open>MaxOpenConns=1\<close>)
  runs transactions one after the other, so an operation is one step.
\<close>

section \<open>Tables\<close>

text \<open>\<open>003_policy_counters.sql\<close>\<close>

record policy_run =
  pr_run_id :: string
  pr_started :: time
  pr_calls :: int
  pr_input :: int
  pr_output :: int
  pr_tools :: int
  pr_cost :: string

record reservation =
  rv_id :: string
  rv_run_id :: string
  rv_input :: int
  rv_output :: int
  rv_tools :: int
  rv_cost :: string
  rv_reconciled :: bool

text \<open>\<open>005_daily_counters.sql\<close>\<close>

record daily_counter =
  dc_day :: string
  dc_calls :: int
  dc_cost :: string

text \<open>\<open>006_repetition_state.sql\<close>; \<open>last_values\<close> is the decoded JSON array.\<close>

record repetition_row =
  rp_run_id :: string
  rp_kind :: string
  rp_count :: int
  rp_values :: "string list"
  rp_updated :: time

text \<open>\<open>004_remote_policy.sql\<close>, with \<open>controlplane.PolicyEnvelope\<close> as its payload.\<close>

record cp_limits =
  cp_max_calls :: int
  cp_max_cost :: string
  cp_max_input :: int
  cp_max_output :: int
  cp_max_total :: int
  cp_max_duration :: int
  cp_max_tools :: int
  cp_providers :: "string list"
  cp_models :: "string list"
  cp_tools :: "string list"

record policy_envelope =
  pe_version :: int
  pe_etag :: string
  pe_limits :: cp_limits

text \<open>\<open>001_init.sql\<close>, \<open>002_outbox.sql\<close> and \<open>007_event_content.sql\<close>.\<close>

record event_row =
  er_event_id :: string
  er_installation_id :: string
  er_created :: time
  er_status :: string
  er_payload :: event

datatype outbox_state = Pending | Sending | Delivered | Retryable | DeadLettered

record outbox_row =
  ob_destination :: string
  ob_event_id :: string
  ob_idem_key :: string
  ob_state :: outbox_state
  ob_attempts :: int
  ob_next :: time
  ob_lease :: "time option"
  ob_error :: "string option"

record content_row =
  ct_event_id :: string
  ct_prompt :: string
  ct_response :: string
  ct_error :: string
  ct_created :: time

text \<open>\<open>008_executions.sql\<close>; states and termination statuses of \<open>executions/types.go\<close>.\<close>

datatype exec_state =
    StateStarting | StateRunning | StateCompleted | StateFailed | StateBlocked
  | StateDeadline | StateInterrupted | StateGatewayFailed | StateTerminationFailed

datatype term_status = TerminationNotRequired | TerminationSucceeded | TerminationFailed

record execution =
  ex_run_id :: string
  ex_state :: exec_state
  ex_started :: time
  ex_ended :: "time option"
  ex_exit_code :: "int option"
  ex_stop_reason :: "string option"
  ex_policy :: "string option"
  ex_policy_reason :: "string option"
  ex_policy_attempt :: "int option"
  ex_policy_threshold :: "int option"
  ex_blocked_estimate :: "string option"
  ex_term_status :: "term_status option"
  ex_term_code :: "string option"

record tables =
  t_runs :: "policy_run list"
  t_reservations :: "reservation list"
  t_daily :: "daily_counter list"
  t_repetition :: "repetition_row list"
  t_remote :: "(int \<times> policy_envelope) option"
  t_events :: "event_row list"
  t_outbox :: "outbox_row list"
  t_contents :: "content_row list"
  t_executions :: "execution list"

definition empty_tables :: tables where
  "empty_tables = \<lparr>t_runs = [], t_reservations = [], t_daily = [], t_repetition = [], t_remote = None,
     t_events = [], t_outbox = [], t_contents = [], t_executions = []\<rparr>"

text \<open>
  The \<open>Journal\<close>: its tables, its installation identifier and closed flag, and the outcomes
  of the statements to come (\<open>True\<close> is a driver error; an exhausted list means no more).
\<close>

record journal =
  tbl :: tables
  j_installation_id :: string
  j_closed :: bool
  faults :: "bool list"

definition new_journal :: "string \<Rightarrow> journal" where
  "new_journal iid = \<lparr>tbl = empty_tables, j_installation_id = iid, j_closed = False, faults = []\<rparr>"

section \<open>Statements and transactions\<close>

type_synonym 'a sql = "journal \<Rightarrow> 'a res \<times> journal"

definition ret :: "'a \<Rightarrow> 'a sql" where
  "ret x j = (Inr x, j)"

definition fail :: "goerr \<Rightarrow> 'a sql" where
  "fail e j = (Inl e, j)"

definition of_res :: "'a res \<Rightarrow> 'a sql" where
  "of_res r j = (r, j)"

definition bindE :: "'a sql \<Rightarrow> ('a \<Rightarrow> 'b sql) \<Rightarrow> 'b sql" where
  "bindE m k j = (case m j of (Inl e, j') \<Rightarrow> (Inl e, j') | (Inr x, j') \<Rightarrow> k x j')"

definition fault :: "unit sql" where
  "fault j = (case faults j of [] \<Rightarrow> (Inr (), j)
     | b # bs \<Rightarrow> (if b then Inl ErrDriver else Inr (), j\<lparr>faults := bs\<rparr>))"

definition query :: "(tables \<Rightarrow> 'a) \<Rightarrow> 'a sql" where
  "query f = bindE fault (\<lambda>_ j. (Inr (f (tbl j)), j))"

text \<open>A query for one row: \<open>sql.ErrNoRows\<close> when there is none.\<close>

definition query_row :: "(tables \<Rightarrow> 'a option) \<Rightarrow> 'a sql" where
  "query_row f = bindE (query f) (\<lambda>r. case r of None \<Rightarrow> fail ErrNoRows | Some x \<Rightarrow> ret x)"

definition exec_stmt :: "(tables \<Rightarrow> ('a \<times> tables) res) \<Rightarrow> 'a sql" where
  "exec_stmt f = bindE fault (\<lambda>_ j. case f (tbl j) of Inl e \<Rightarrow> (Inl e, j)
     | Inr (x, t) \<Rightarrow> (Inr x, j\<lparr>tbl := t\<rparr>))"

text \<open>
  \<open>BeginTx\<close>, the body, then \<open>Commit\<close> when the body says so; every other way out rolls
  back.
\<close>

definition tx :: "(bool \<times> 'a) sql \<Rightarrow> 'a sql" where
  "tx body j = (case fault j of (Inl e, j1) \<Rightarrow> (Inl e, j1) | (Inr _, j1) \<Rightarrow>
     (case body j1 of (Inl e, j2) \<Rightarrow> (Inl e, j2\<lparr>tbl := tbl j1\<rparr>)
      | (Inr (commit, x), j2) \<Rightarrow>
         (if commit then (case fault j2 of (Inl e, j3) \<Rightarrow> (Inl e, j3\<lparr>tbl := tbl j1\<rparr>)
                          | (Inr _, j3) \<Rightarrow> (Inr x, j3))
          else (Inr x, j2\<lparr>tbl := tbl j1\<rparr>))))"

fun for_each :: "('a \<Rightarrow> unit sql) \<Rightarrow> 'a list \<Rightarrow> unit sql" where
  "for_each f [] = ret ()"
| "for_each f (x # xs) = bindE (f x) (\<lambda>_. for_each f xs)"

section \<open>Running them\<close>

named_theorems run_simps \<open>inversion of a successful run\<close>

lemma ret_run [run_simps]: "ret x j = (Inr y, j') \<longleftrightarrow> y = x \<and> j' = j"
  and fail_run [run_simps]: "fail e j = (Inr y, j') \<longleftrightarrow> False"
  and of_res_run [run_simps]: "of_res r j = (Inr y, j') \<longleftrightarrow> r = Inr y \<and> j' = j"
  and bindE_run [run_simps]:
    "bindE m k j = (Inr z, j'') \<longleftrightarrow> (\<exists>x j'. m j = (Inr x, j') \<and> k x j' = (Inr z, j''))"
  by (auto simp: ret_def fail_def of_res_def bindE_def split: prod.splits sum.splits)

lemma bindE_okE:
  assumes "bindE m k j = (Inr z, j'')"
  obtains x j' where "m j = (Inr x, j')" and "k x j' = (Inr z, j'')"
  using assms unfolding bindE_run by blast

lemma fault_run: "fault j = (r, j') \<Longrightarrow> tbl j' = tbl j \<and> j_installation_id j' = j_installation_id j
    \<and> j_closed j' = j_closed j"
  by (auto simp: fault_def split: list.splits if_splits)

lemma query_run:
  "query f j = (Inr x, j') \<Longrightarrow> x = f (tbl j) \<and> tbl j' = tbl j"
  by (auto simp: query_def run_simps dest!: fault_run)

lemma query_row_run:
  "query_row f j = (Inr x, j') \<Longrightarrow> f (tbl j) = Some x \<and> tbl j' = tbl j"
  by (auto simp: query_row_def run_simps dest!: query_run split: option.splits)

lemma fault_tbl: "fault j = (r, j') \<Longrightarrow> tbl j' = tbl j"
  by (simp add: fault_run)

lemma exec_stmt_run:
  assumes "exec_stmt f j = (Inr x, j')"
  shows "f (tbl j) = Inr (x, tbl j')"
proof -
  obtain j1 where "fault j = (Inr (), j1)"
    and e: "(case f (tbl j1) of Inl e \<Rightarrow> (Inl e, j1) | Inr (x, t) \<Rightarrow> (Inr x, j1\<lparr>tbl := t\<rparr>)) = (Inr x, j')"
    using assms unfolding exec_stmt_def bindE_run by auto
  then have "tbl j1 = tbl j" by (blast dest: fault_tbl)
  with e show ?thesis by (auto split: sum.splits)
qed

lemma tx_run:
  assumes "tx body j = (Inr x, j')"
  shows "\<exists>j1 commit j2. tbl j1 = tbl j \<and> body j1 = (Inr (commit, x), j2) \<and>
     tbl j' = (if commit then tbl j2 else tbl j)"
proof -
  obtain j1 where f: "fault j = (Inr (), j1)"
    using assms by (cases "fault j") (auto simp: tx_def split: sum.splits)
  then have t: "tbl j1 = tbl j" by (rule fault_tbl)
  obtain commit y j2 where b: "body j1 = (Inr (commit, y), j2)"
    using assms f by (cases "body j1") (auto simp: tx_def split: sum.splits)
  show ?thesis
  proof (cases commit)
    case True
    then obtain j3 where "fault j2 = (Inr (), j3)" "y = x" "j' = j3"
      using assms f b by (cases "fault j2") (auto simp: tx_def split: sum.splits)
    moreover from this have "tbl j3 = tbl j2" by (simp add: fault_tbl)
    ultimately show ?thesis using True t b by auto
  next
    case False
    with assms f b have "y = x" "j' = j2\<lparr>tbl := tbl j1\<rparr>" by (auto simp: tx_def)
    with False b t show ?thesis
      by (intro exI [of _ j1] exI [of _ False] exI [of _ j2]) simp
  qed
qed

text \<open>A transaction that fails leaves no trace.\<close>

lemma tx_error_rolls_back: "tx body j = (Inl e, j') \<Longrightarrow> tbl j' = tbl j"
  by (auto simp: tx_def split: prod.splits sum.splits if_splits dest!: fault_tbl)

text \<open>With no faults ahead, statements only have their relational effect.\<close>

lemma fault_none [simp]: "faults j = [] \<Longrightarrow> fault j = (Inr (), j)"
  by (simp add: fault_def)

lemma ret_simp [simp]: "ret x j = (Inr x, j)"
  by (simp add: ret_def)

lemma fail_simp [simp]: "fail e j = (Inl e, j)"
  by (simp add: fail_def)

lemma of_res_simp [simp]: "of_res r j = (r, j)"
  by (simp add: of_res_def)

lemma bindE_Inl: "m j = (Inl e, j') \<Longrightarrow> bindE m k j = (Inl e, j')"
  and bindE_Inr: "m j = (Inr x, j') \<Longrightarrow> bindE m k j = k x j'"
  by (simp_all add: bindE_def)

lemma query_none [simp]: "faults j = [] \<Longrightarrow> query f j = (Inr (f (tbl j)), j)"
  by (simp add: query_def bindE_def)

lemma query_row_none [simp]:
  "faults j = [] \<Longrightarrow> query_row f j = (case f (tbl j) of None \<Rightarrow> (Inl ErrNoRows, j) | Some x \<Rightarrow> (Inr x, j))"
  by (simp add: query_row_def bindE_def split: option.split)

lemma exec_stmt_none [simp]:
  "faults j = [] \<Longrightarrow> exec_stmt f j = (case f (tbl j) of Inl e \<Rightarrow> (Inl e, j)
     | Inr (x, t) \<Rightarrow> (Inr x, j\<lparr>tbl := t\<rparr>))"
  by (simp add: exec_stmt_def bindE_def)

lemma tx_none:
  "faults j = [] \<Longrightarrow> tx body j =
     (case body j of (Inl e, j2) \<Rightarrow> (Inl e, j2\<lparr>tbl := tbl j\<rparr>)
      | (Inr (commit, x), j2) \<Rightarrow>
         (if commit then (case fault j2 of (Inl e, j3) \<Rightarrow> (Inl e, j3\<lparr>tbl := tbl j\<rparr>)
                          | (Inr _, j3) \<Rightarrow> (Inr x, j3))
          else (Inr x, j2\<lparr>tbl := tbl j\<rparr>)))"
  by (simp add: tx_def)

text \<open>
  A predicate on tables that a statement keeps. \<open>keeps P m\<close>: whatever happens, a run of
  \<open>m\<close> from tables in \<open>P\<close> ends in tables in \<open>P\<close>.
\<close>

definition keeps :: "(tables \<Rightarrow> bool) \<Rightarrow> 'a sql \<Rightarrow> bool" where
  "keeps P m \<longleftrightarrow> (\<forall>j r j'. P (tbl j) \<longrightarrow> m j = (r, j') \<longrightarrow> P (tbl j'))"

named_theorems keeps_intros \<open>compositional rules for keeps\<close>

lemma keepsD: "keeps P m \<Longrightarrow> m j = (r, j') \<Longrightarrow> P (tbl j) \<Longrightarrow> P (tbl j')"
  by (auto simp: keeps_def)

lemma keeps_ret [keeps_intros]: "keeps P (ret x)"
  and keeps_fail [keeps_intros]: "keeps P (fail e)"
  and keeps_of_res [keeps_intros]: "keeps P (of_res r)"
  by (simp_all add: keeps_def)

lemma keeps_fault: "keeps P fault"
  by (auto simp: keeps_def dest: fault_tbl)

lemma keeps_bindE [keeps_intros]:
  assumes m: "keeps P m" and k: "\<And>x. keeps P (k x)"
  shows "keeps P (bindE m k)"
proof -
  have "P (tbl j')" if "P (tbl j)" and r: "bindE m k j = (r, j')" for j r j'
  proof (cases "m j")
    case (Pair r1 j1)
    then have p: "P (tbl j1)" by (rule keepsD [OF m]) fact
    show ?thesis
    proof (cases r1)
      case (Inl e)
      with Pair r p show ?thesis by (simp add: bindE_def)
    next
      case (Inr x)
      with Pair r have "k x j1 = (r, j')" by (simp add: bindE_def)
      then show ?thesis using p by (rule keepsD [OF k])
    qed
  qed
  then show ?thesis by (auto simp: keeps_def)
qed

lemma keeps_query [keeps_intros]: "keeps P (query f)"
  unfolding query_def by (rule keeps_bindE [OF keeps_fault]) (simp add: keeps_def)

lemma keeps_query_row [keeps_intros]: "keeps P (query_row f)"
  unfolding query_row_def by (rule keeps_bindE [OF keeps_query]) (auto simp: keeps_def split: option.split)

lemma keeps_exec [keeps_intros]:
  "(\<And>t x t'. P t \<Longrightarrow> f t = Inr (x, t') \<Longrightarrow> P t') \<Longrightarrow> keeps P (exec_stmt f)"
  unfolding exec_stmt_def
  by (rule keeps_bindE [OF keeps_fault]) (auto simp: keeps_def split: sum.splits)

lemma keeps_for_each [keeps_intros]: "(\<And>x. keeps P (f x)) \<Longrightarrow> keeps P (for_each f xs)"
  by (induction xs) (auto intro: keeps_intros)

lemma keeps_tx:
  assumes "\<And>j1 x j2. P (tbl j1) \<Longrightarrow> body j1 = (Inr (True, x), j2) \<Longrightarrow> P (tbl j2)"
  shows "keeps P (tx body)"
proof -
  have "P (tbl j')" if P: "P (tbl j)" and r: "tx body j = (r, j')" for j r j'
  proof (cases r)
    case (Inl e)
    with r P show ?thesis using tx_error_rolls_back by metis
  next
    case (Inr x)
    with r obtain j1 commit j2 where "tbl j1 = tbl j" "body j1 = (Inr (commit, x), j2)"
      "tbl j' = (if commit then tbl j2 else tbl j)" by (blast dest: tx_run)
    with P assms [of j1 x j2] show ?thesis by (cases commit) simp_all
  qed
  then show ?thesis by (auto simp: keeps_def)
qed

end
