(* ===== verification/Policy_Counters.thy ===== *)
theory Policy_Counters
  imports Database
begin

text \<open>
  \<open>internal/storage/policy_counters.go\<close>: the per-run ledger of calls, tokens, tool calls and
  cost (\<open>ReservePolicy\<close>, \<open>ReconcilePolicy\<close>) and the installation-wide daily counters. The
  ledger invariant says that the totals of a run are the sums over its reservations; every
  operation keeps it, and with it the caps that \<open>ReservePolicy\<close> enforces are caps on what
  was really reserved.
\<close>

section \<open>Checked arithmetic\<close>

fun checked_add_from :: "int \<Rightarrow> int list \<Rightarrow> int res" where
  "checked_add_from acc [] = Inr acc"
| "checked_add_from acc (v # vs) =
     (if v < 0 \<or> acc > wrap64 (max_int64 - v)
      then Inl (Errorf ''policy counter overflow or negative usage'')
      else checked_add_from (wrap64 (acc + v)) vs)"

definition checked_add :: "int list \<Rightarrow> int res" where
  "checked_add vs = checked_add_from 0 vs"

section \<open>Requests and results\<close>

record policy_reserve =
  rs_run_id :: string
  rs_reservation_id :: string
  rs_started :: time
  rs_input :: int
  rs_output :: int
  rs_tools :: int
  rs_cost :: string
  rs_max_calls :: int
  rs_max_input :: int
  rs_max_output :: int
  rs_max_total :: int
  rs_max_tools :: int
  rs_max_duration :: int
  rs_max_cost :: string

record reserve_result =
  rr_reason :: string
  rr_policy :: string
  rr_attempt :: int
  rr_threshold :: int

record policy_outcome =
  oc_run_id :: string
  oc_reservation_id :: string
  oc_input :: int
  oc_output :: int
  oc_tools :: int
  oc_cost :: string

definition block_result :: "string \<Rightarrow> string \<Rightarrow> int \<Rightarrow> int \<Rightarrow> reserve_result" where
  "block_result reason pol attempt threshold =
     \<lparr>rr_reason = reason, rr_policy = pol, rr_attempt = attempt, rr_threshold = threshold\<rparr>"

section \<open>Statements\<close>

definition insert_or_ignore_run :: "string \<Rightarrow> time \<Rightarrow> tables \<Rightarrow> tables" where
  "insert_or_ignore_run rid started t =
     (if \<exists>r \<in> set (t_runs t). pr_run_id r = rid then t
      else t\<lparr>t_runs := t_runs t @ [\<lparr>pr_run_id = rid, pr_started = started, pr_calls = 0, pr_input = 0,
             pr_output = 0, pr_tools = 0, pr_cost = ''0''\<rparr>]\<rparr>)"

definition select_run :: "string \<Rightarrow> tables \<Rightarrow> policy_run option" where
  "select_run rid t = first_row (\<lambda>r. pr_run_id r = rid) (t_runs t)"

definition charge_run :: "policy_reserve \<Rightarrow> string \<Rightarrow> tables \<Rightarrow> tables" where
  "charge_run r cost t = t\<lparr>t_runs := update_where (\<lambda>x. pr_run_id x = rs_run_id r)
     (\<lambda>x. x\<lparr>pr_calls := pr_calls x + 1, pr_input := pr_input x + rs_input r,
            pr_output := pr_output x + rs_output r, pr_tools := pr_tools x + rs_tools r,
            pr_cost := cost\<rparr>) (t_runs t)\<rparr>"

definition insert_reservation :: "policy_reserve \<Rightarrow> string \<Rightarrow> tables \<Rightarrow> (unit \<times> tables) res" where
  "insert_reservation r cost t =
     (if \<exists>v \<in> set (t_reservations t). rv_id v = rs_reservation_id r then Inl ErrDriver
      else Inr ((), t\<lparr>t_reservations := t_reservations t @
        [\<lparr>rv_id = rs_reservation_id r, rv_run_id = rs_run_id r, rv_input = rs_input r,
          rv_output = rs_output r, rv_tools = rs_tools r, rv_cost = cost, rv_reconciled = False\<rparr>]\<rparr>))"

definition select_reservation :: "string \<Rightarrow> string \<Rightarrow> tables \<Rightarrow> reservation option" where
  "select_reservation vid rid t =
     first_row (\<lambda>v. rv_id v = vid \<and> rv_run_id v = rid) (t_reservations t)"

definition set_run_totals :: "string \<Rightarrow> int \<Rightarrow> int \<Rightarrow> int \<Rightarrow> string \<Rightarrow> tables \<Rightarrow> tables" where
  "set_run_totals rid inp outp tools cost t = t\<lparr>t_runs := update_where (\<lambda>x. pr_run_id x = rid)
     (\<lambda>x. x\<lparr>pr_input := inp, pr_output := outp, pr_tools := tools, pr_cost := cost\<rparr>) (t_runs t)\<rparr>"

definition set_reconciled :: "string \<Rightarrow> int \<Rightarrow> int \<Rightarrow> int \<Rightarrow> string \<Rightarrow> tables \<Rightarrow> tables" where
  "set_reconciled vid inp outp tools cost t = t\<lparr>t_reservations := update_where (\<lambda>v. rv_id v = vid)
     (\<lambda>v. v\<lparr>rv_reconciled := True, rv_input := inp, rv_output := outp, rv_tools := tools,
            rv_cost := cost\<rparr>) (t_reservations t)\<rparr>"

section \<open>ReservePolicy\<close>

text \<open>
  \<open>time.Since(first)\<close> saturates; \<open>time.Duration(n) * time.Second\<close> is an \<open>int64\<close> product.
\<close>

definition since :: "time \<Rightarrow> time \<Rightarrow> int" where
  "since now first = max min_int64 (min max_int64 (now - first))"

definition duration_of_seconds :: "int \<Rightarrow> int" where
  "duration_of_seconds n = wrap64 (n * 1000000000)"

text \<open>The limit checks, in the order of the code; \<open>None\<close> lets the call through.\<close>

definition limit_check ::
  "time \<Rightarrow> policy_reserve \<Rightarrow> policy_run \<Rightarrow> int \<Rightarrow> int \<Rightarrow> int \<Rightarrow> int \<Rightarrow> rat \<Rightarrow> rat \<Rightarrow> reserve_result option" where
  "limit_check now r row next_in next_out next_tools next_total next_cost cap_cost =
     (if rs_max_duration r > 0 \<and> since now (pr_started row) > duration_of_seconds (rs_max_duration r)
        then Some (block_result ''duration_limit'' ''max_duration_seconds'' (pr_calls row + 1) (rs_max_duration r))
      else if rs_max_calls r > 0 \<and> pr_calls row \<ge> rs_max_calls r
        then Some (block_result ''call_limit'' ''max_requests_per_run'' (pr_calls row + 1) (rs_max_calls r))
      else if rs_max_input r > 0 \<and> next_in > rs_max_input r
        then Some (block_result ''input_token_limit'' ''max_input_tokens_per_run'' (pr_calls row + 1) (rs_max_input r))
      else if rs_max_output r > 0 \<and> next_out > rs_max_output r
        then Some (block_result ''output_token_limit'' ''max_output_tokens_per_run'' (pr_calls row + 1) (rs_max_output r))
      else if rs_max_total r > 0 \<and> next_total > rs_max_total r
        then Some (block_result ''total_token_limit'' ''max_total_tokens_per_run'' (pr_calls row + 1) (rs_max_total r))
      else if rs_max_tools r > 0 \<and> next_tools > rs_max_tools r
        then Some (block_result ''tool_call_limit'' ''max_tool_calls_per_run'' (pr_calls row + 1) (rs_max_tools r))
      else if rs_max_cost r \<noteq> [] \<and> next_cost > cap_cost
        then Some (block_result ''cost_limit'' ''max_cost_per_run_usd'' (pr_calls row + 1) 0)
      else None)"

definition reserve_body :: "time \<Rightarrow> policy_reserve \<Rightarrow> rat \<Rightarrow> rat \<Rightarrow> (bool \<times> reserve_result) sql" where
  "reserve_body now r est_cost cap_cost =
     bindE (exec_stmt (\<lambda>t. Inr ((), insert_or_ignore_run (rs_run_id r) (rs_started r) t))) (\<lambda>_.
     bindE (query_row (select_run (rs_run_id r))) (\<lambda>row.
     bindE (of_res (policy_decimal (pr_cost row))) (\<lambda>current_cost.
     bindE (of_res (checked_add [pr_input row, rs_input r])) (\<lambda>next_in.
     bindE (of_res (checked_add [pr_output row, rs_output r])) (\<lambda>next_out.
     bindE (of_res (checked_add [pr_tools row, rs_tools r])) (\<lambda>next_tools.
     bindE (of_res (checked_add [next_in, next_out])) (\<lambda>next_total.
     if pr_calls row = max_int64 then fail (Errorf ''policy call counter overflow'')
     else (case limit_check now r row next_in next_out next_tools next_total
                  (current_cost + est_cost) cap_cost of
       Some b \<Rightarrow> ret (False, b)
     | None \<Rightarrow>
         bindE (exec_stmt (\<lambda>t. Inr ((), charge_run r (rat_string (current_cost + est_cost)) t))) (\<lambda>_.
         bindE (exec_stmt (insert_reservation r (rat_string est_cost))) (\<lambda>_.
         ret (True, block_result [] [] (pr_calls row + 1) 0)))))))))))"

definition reserve_policy :: "time \<Rightarrow> policy_reserve \<Rightarrow> reserve_result sql" where
  "reserve_policy now r =
     (if rs_run_id r = [] \<or> rs_reservation_id r = []
        then fail (Errorf ''run and reservation IDs are required'')
      else bindE (of_res (checked_add [rs_input r, rs_output r])) (\<lambda>_.
        if rs_tools r < 0 then fail (Errorf ''negative tool calls'')
        else bindE (of_res (policy_decimal (rs_cost r))) (\<lambda>est_cost.
          bindE (of_res (policy_decimal (rs_max_cost r))) (\<lambda>cap_cost.
          tx (reserve_body now r est_cost cap_cost)))))"

section \<open>ReconcilePolicy\<close>

text \<open>A reported value of -1 (empty for the cost) keeps the reserved estimate.\<close>

definition reported :: "int \<Rightarrow> int \<Rightarrow> int" where
  "reported old actual = (if actual \<ge> 0 then actual else old)"

definition reconcile_policy_tx :: "policy_outcome \<Rightarrow> unit sql" where
  "reconcile_policy_tx oc = (\<lambda>j.
     case query_row (select_reservation (oc_reservation_id oc) (oc_run_id oc)) j of
       (Inl e, j') \<Rightarrow> (Inl (if errors_is e ErrNoRows then Wrapf ''unknown policy reservation'' e else e), j')
     | (Inr old, j') \<Rightarrow>
        (if rv_reconciled old then ret () else
         bindE (query_row (select_run (oc_run_id oc))) (\<lambda>row.
         bindE (of_res (policy_decimal (pr_cost row))) (\<lambda>current_cost.
         bindE (of_res (policy_decimal (rv_cost old))) (\<lambda>old_cost.
         bindE (of_res (if oc_cost oc \<noteq> [] then policy_decimal (oc_cost oc) else Inr old_cost)) (\<lambda>actual_cost.
         let inp = reported (rv_input old) (oc_input oc);
             outp = reported (rv_output old) (oc_output oc);
             tools = reported (rv_tools old) (oc_tools oc) in
         bindE (of_res (checked_add [inp, outp])) (\<lambda>_.
         if tools < 0 then fail (Errorf ''negative tool calls'')
         else if pr_input row < rv_input old \<or> pr_output row < rv_output old \<or> pr_tools row < rv_tools old
           then fail (Errorf ''policy counter underflow'')
         else
         bindE (of_res (checked_add [pr_input row - rv_input old, inp])) (\<lambda>next_in.
         bindE (of_res (checked_add [pr_output row - rv_output old, outp])) (\<lambda>next_out.
         bindE (of_res (checked_add [pr_tools row - rv_tools old, tools])) (\<lambda>next_tools.
         bindE (of_res (checked_add [next_in, next_out])) (\<lambda>_.
         bindE (exec_stmt (\<lambda>t. Inr ((), set_run_totals (oc_run_id oc) next_in next_out next_tools
                   (rat_string (current_cost - old_cost + actual_cost)) t))) (\<lambda>_.
         exec_stmt (\<lambda>t. Inr ((), set_reconciled (oc_reservation_id oc) inp outp tools
                   (rat_string actual_cost) t))))))))))))) j')"

definition reconcile_policy :: "policy_outcome \<Rightarrow> unit sql" where
  "reconcile_policy oc =
     (if oc_reservation_id oc = [] \<or> oc_run_id oc = []
        then fail (Errorf ''run and reservation IDs are required'')
      else tx (bindE (reconcile_policy_tx oc) (\<lambda>_. ret (True, ()))))"

section \<open>Daily counters\<close>

text \<open>
  \<open>time.Now().UTC().Format("2006-01-02")\<close>: the proleptic Gregorian date of an instant.
\<close>

definition civil_date :: "time \<Rightarrow> int \<times> int \<times> int" where
  "civil_date now =
     (let z = now div 86400000000000 + 719468;
          era = z div 146097;
          doe = z mod 146097;
          yoe = (doe - doe div 1460 + doe div 36524 - doe div 146096) div 365;
          doy = doe - (365 * yoe + yoe div 4 - yoe div 100);
          mp = (5 * doy + 2) div 153;
          d = doy - (153 * mp + 2) div 5 + 1;
          m = (if mp < 10 then mp + 3 else mp - 9)
      in (yoe + era * 400 + (if m \<le> 2 then 1 else 0), m, d))"

definition utc_day :: "time \<Rightarrow> string" where
  "utc_day now = (let (y, m, d) = civil_date now in
     pad_left 4 (show_int y) @ ''-'' @ pad_left 2 (show_int m) @ ''-'' @ pad_left 2 (show_int d))"

definition select_daily :: "string \<Rightarrow> tables \<Rightarrow> daily_counter option" where
  "select_daily day t = first_row (\<lambda>d. dc_day d = day) (t_daily t)"

definition read_daily_counters :: "time \<Rightarrow> (int \<times> rat) sql" where
  "read_daily_counters now =
     bindE (query (select_daily (utc_day now))) (\<lambda>row. case row of
       None \<Rightarrow> ret (0, 0)
     | Some d \<Rightarrow> bindE (of_res (policy_decimal (dc_cost d))) (\<lambda>cost. ret (dc_calls d, cost)))"

definition insert_daily :: "string \<Rightarrow> string \<Rightarrow> tables \<Rightarrow> tables" where
  "insert_daily day cost t = t\<lparr>t_daily := t_daily t @ [\<lparr>dc_day = day, dc_calls = 1, dc_cost = cost\<rparr>]\<rparr>"

definition update_daily :: "string \<Rightarrow> string \<Rightarrow> tables \<Rightarrow> tables" where
  "update_daily day cost t = t\<lparr>t_daily := update_where (\<lambda>d. dc_day d = day)
     (\<lambda>d. d\<lparr>dc_calls := dc_calls d + 1, dc_cost := cost\<rparr>) (t_daily t)\<rparr>"

definition increment_daily_counters_tx :: "time \<Rightarrow> string \<Rightarrow> unit sql" where
  "increment_daily_counters_tx now cost_usd =
     bindE (of_res (policy_decimal cost_usd)) (\<lambda>cost.
     bindE (query (select_daily (utc_day now))) (\<lambda>row. case row of
       None \<Rightarrow> exec_stmt (\<lambda>t. Inr ((), insert_daily (utc_day now) (rat_string cost) t))
     | Some d \<Rightarrow> bindE (of_res (policy_decimal (dc_cost d))) (\<lambda>existing.
         exec_stmt (\<lambda>t. Inr ((), update_daily (utc_day now) (rat_string (existing + cost)) t)))))"

definition increment_daily_counters :: "time \<Rightarrow> string \<Rightarrow> unit sql" where
  "increment_daily_counters now cost_usd =
     tx (bindE (increment_daily_counters_tx now cost_usd) (\<lambda>_. ret (True, ())))"


section \<open>Lemmas on the arithmetic\<close>

lemma checked_add_from_iff:
  assumes "0 \<le> acc" "acc \<le> max_int64" "\<forall>v \<in> set vs. v \<le> max_int64"
  shows "checked_add_from acc vs = Inr t \<longleftrightarrow>
    (\<forall>v \<in> set vs. 0 \<le> v) \<and> acc + sum_list vs \<le> max_int64 \<and> t = acc + sum_list vs"
  using assms
proof (induction vs arbitrary: acc)
  case Nil
  then show ?case by auto
next
  case (Cons v vs)
  show ?case
  proof (cases "0 \<le> v")
    case False
    then show ?thesis by simp
  next
    case True
    with Cons.prems have w: "wrap64 (max_int64 - v) = max_int64 - v"
      by (intro wrap64_nonneg_id) auto
    show ?thesis
    proof (cases "acc > max_int64 - v")
      case True
      have "sum_list vs \<ge> 0" if "\<forall>x \<in> set vs. 0 \<le> x" using that by (simp add: sum_list_nonneg)
      with True w show ?thesis by auto
    next
      case False
      with \<open>0 \<le> v\<close> Cons.prems have "wrap64 (acc + v) = acc + v"
        by (intro wrap64_nonneg_id) auto
      with False w \<open>0 \<le> v\<close> Cons.IH [of "acc + v"] Cons.prems show ?thesis
        by (auto simp: add.assoc)
    qed
  qed
qed

lemma checked_add_iff:
  "\<forall>v \<in> set vs. v \<le> max_int64 \<Longrightarrow>
   checked_add vs = Inr t \<longleftrightarrow> (\<forall>v \<in> set vs. 0 \<le> v) \<and> sum_list vs \<le> max_int64 \<and> t = sum_list vs"
  unfolding checked_add_def by (subst checked_add_from_iff) (simp_all add: max_int64_def)

lemma checked_add2:
  "a \<le> max_int64 \<Longrightarrow> b \<le> max_int64 \<Longrightarrow>
   checked_add [a, b] = Inr t \<longleftrightarrow> 0 \<le> a \<and> 0 \<le> b \<and> a + b \<le> max_int64 \<and> t = a + b"
  by (subst checked_add_iff) auto

section \<open>The ledger invariant\<close>

definition cost_val :: "string \<Rightarrow> rat" where
  "cost_val s = (case policy_decimal s of Inl _ \<Rightarrow> 0 | Inr q \<Rightarrow> q)"

definition of_run :: "string \<Rightarrow> tables \<Rightarrow> reservation list" where
  "of_run rid t = filter (\<lambda>v. rv_run_id v = rid) (t_reservations t)"

definition run_balanced :: "tables \<Rightarrow> policy_run \<Rightarrow> bool" where
  "run_balanced t r \<longleftrightarrow>
     pr_calls r = int (length (of_run (pr_run_id r) t)) \<and>
     pr_input r = sum_list (map rv_input (of_run (pr_run_id r) t)) \<and>
     pr_output r = sum_list (map rv_output (of_run (pr_run_id r) t)) \<and>
     pr_tools r = sum_list (map rv_tools (of_run (pr_run_id r) t)) \<and>
     policy_decimal (pr_cost r) = Inr (sum_list (map (\<lambda>v. cost_val (rv_cost v)) (of_run (pr_run_id r) t))) \<and>
     pr_input r + pr_output r \<le> max_int64 \<and> pr_tools r \<le> max_int64 \<and> pr_calls r \<le> max_int64"

definition reservation_ok :: "tables \<Rightarrow> reservation \<Rightarrow> bool" where
  "reservation_ok t v \<longleftrightarrow> 0 \<le> rv_input v \<and> 0 \<le> rv_output v \<and> 0 \<le> rv_tools v \<and>
     policy_decimal (rv_cost v) = Inr (cost_val (rv_cost v)) \<and>
     rv_run_id v \<in> pr_run_id ` set (t_runs t)"

definition ledger_ok :: "tables \<Rightarrow> bool" where
  "ledger_ok t \<longleftrightarrow> distinct_on pr_run_id (t_runs t) \<and> distinct_on rv_id (t_reservations t) \<and>
     (\<forall>r \<in> set (t_runs t). run_balanced t r) \<and> (\<forall>v \<in> set (t_reservations t). reservation_ok t v)"

lemma cost_val_rat_string: "0 \<le> q \<Longrightarrow> cost_val (rat_string q) = q"
  by (simp add: cost_val_def policy_decimal_rat_string)

lemma cost_val_nonneg: "0 \<le> cost_val s"
  by (auto simp: cost_val_def dest: policy_decimal_nonneg split: sum.split)

lemma cost_val_eq: "policy_decimal s = Inr q \<Longrightarrow> cost_val s = q"
  by (simp add: cost_val_def)

lemma of_run_empty:
  "ledger_ok t \<Longrightarrow> rid \<notin> pr_run_id ` set (t_runs t) \<Longrightarrow> of_run rid t = []"
  by (auto simp: ledger_ok_def reservation_ok_def of_run_def filter_empty_conv)

lemma t_reservations_empty: "t_reservations empty_tables = []"
  by (simp add: empty_tables_def)

lemma ledger_ok_empty: "ledger_ok empty_tables"
  by (simp add: ledger_ok_def empty_tables_def)

lemma run_balanced_bounds:
  assumes "run_balanced t r" "\<forall>v \<in> set (t_reservations t). reservation_ok t v"
  shows "0 \<le> pr_input r" "0 \<le> pr_output r" "0 \<le> pr_tools r"
    "pr_input r \<le> max_int64" "pr_output r \<le> max_int64"
proof -
  have i: "0 \<le> sum_list (map rv_input (of_run rid t))"
    and o': "0 \<le> sum_list (map rv_output (of_run rid t))"
    and u: "0 \<le> sum_list (map rv_tools (of_run rid t))" for rid
    using assms(2) by (auto intro!: sum_list_nonneg simp: of_run_def reservation_ok_def)
  then show "0 \<le> pr_input r" "0 \<le> pr_output r" "0 \<le> pr_tools r"
    using assms(1) by (simp_all add: run_balanced_def)
  with assms(1) show "pr_input r \<le> max_int64" "pr_output r \<le> max_int64"
    unfolding run_balanced_def by linarith+
qed

lemma policy_decimal_0: "policy_decimal ''0'' = Inr 0"
  by code_simp

lemma ledger_insert_or_ignore:
  assumes "ledger_ok t"
  shows "ledger_ok (insert_or_ignore_run rid started t)"
proof (cases "rid \<in> pr_run_id ` set (t_runs t)")
  case True
  with assms show ?thesis by (auto simp: insert_or_ignore_run_def)
next
  case False
  with assms have e: "of_run rid t = []" by (rule of_run_empty)
  have same: "of_run x (t\<lparr>t_runs := rs\<rparr>) = of_run x t" for x rs by (simp add: of_run_def)
  from False assms e show ?thesis
    by (auto simp: insert_or_ignore_run_def ledger_ok_def distinct_on_append_one run_balanced_def
        reservation_ok_def same policy_decimal_0 max_int64_def)
qed

lemma select_run_Some:
  "select_run rid t = Some row \<Longrightarrow> row \<in> set (t_runs t) \<and> pr_run_id row = rid"
  unfolding select_run_def by (drule first_row_Some) simp

lemma select_reservation_Some:
  "select_reservation vid rid t = Some v \<Longrightarrow> v \<in> set (t_reservations t) \<and> rv_id v = vid \<and> rv_run_id v = rid"
  unfolding select_reservation_def by (drule first_row_Some) simp

text \<open>The effect of an admitted call on the ledger.\<close>

lemma of_run_charge [simp]: "of_run rid (charge_run r c t) = of_run rid t"
  by (simp add: of_run_def charge_run_def)

lemma ledger_charge_insert:
  assumes ok: "ledger_ok t"
    and row: "select_run (rs_run_id r) t = Some row"
    and ins: "insert_reservation r (rat_string est) (charge_run r (rat_string (cur + est)) t) = Inr ((), t')"
    and est: "0 \<le> est" and cur: "policy_decimal (pr_cost row) = Inr cur"
    and nn: "0 \<le> rs_input r" "0 \<le> rs_output r" "0 \<le> rs_tools r"
    and bnd: "pr_input row + rs_input r + (pr_output row + rs_output r) \<le> max_int64"
      "pr_tools row + rs_tools r \<le> max_int64" "pr_calls row < max_int64"
  shows "ledger_ok t'"
proof -
  define v where "v = \<lparr>rv_id = rs_reservation_id r, rv_run_id = rs_run_id r, rv_input = rs_input r,
     rv_output = rs_output r, rv_tools = rs_tools r, rv_cost = rat_string est, rv_reconciled = False\<rparr>"
  define ch where "ch = (\<lambda>x :: policy_run. x\<lparr>pr_calls := pr_calls x + 1, pr_input := pr_input x + rs_input r,
            pr_output := pr_output x + rs_output r, pr_tools := pr_tools x + rs_tools r,
            pr_cost := rat_string (cur + est)\<rparr>)"
  have fresh: "rv_id v \<notin> rv_id ` set (t_reservations t)"
    and rv': "t_reservations t' = t_reservations t @ [v]"
    and ru': "t_runs t' = update_where (\<lambda>x. pr_run_id x = rs_run_id r) ch (t_runs t)"
    using ins by (auto simp: insert_reservation_def charge_run_def v_def ch_def split: if_splits)
  from row have mem: "row \<in> set (t_runs t)" and id: "pr_run_id row = rs_run_id r"
    by (simp_all add: select_run_Some)
  have d: "distinct_on pr_run_id (t_runs t)" "distinct_on rv_id (t_reservations t)"
    and bal: "\<forall>x \<in> set (t_runs t). run_balanced t x"
    and rok: "\<forall>x \<in> set (t_reservations t). reservation_ok t x"
    using ok by (simp_all add: ledger_ok_def)
  have ofr: "of_run rid t' = of_run rid t @ (if rid = rs_run_id r then [v] else [])" for rid
    by (simp add: of_run_def rv' v_def)
  have ids: "pr_run_id ` set (t_runs t') = pr_run_id ` set (t_runs t)"
    unfolding ru' by (rule image_update_where) (simp add: ch_def)
  have c: "cost_val (rat_string est) = est" using est by (rule cost_val_rat_string)
  have cur0: "0 \<le> cur" using cur by (rule policy_decimal_nonneg)
  have "run_balanced t' x" if "x \<in> set (t_runs t')" for x
  proof -
    from that consider (other) "x \<in> set (t_runs t)" "pr_run_id x \<noteq> rs_run_id r"
      | (charged) y where "y \<in> set (t_runs t)" "pr_run_id y = rs_run_id r" "x = ch y"
      unfolding ru' set_update_where by blast
    then show ?thesis
    proof cases
      case other
      then have same: "of_run (pr_run_id x) t' = of_run (pr_run_id x) t" by (simp add: ofr)
      from bal other(1) have "run_balanced t x" by blast
      then show ?thesis unfolding run_balanced_def same .
    next
      case charged
      with mem id d have "y = row" by (auto intro: distinct_on_unique)
      with charged bal mem have b: "run_balanced t row" and x: "x = ch row" by simp_all
      from b cur have "cur = sum_list (map (\<lambda>v. cost_val (rv_cost v)) (of_run (rs_run_id r) t))"
        by (simp add: run_balanced_def id)
      with b x id c cur0 est bnd show ?thesis
        by (simp add: run_balanced_def ofr ch_def v_def policy_decimal_rat_string)
    qed
  qed
  moreover have "distinct_on pr_run_id (t_runs t')"
    unfolding ru' using d(1) by (rule distinct_on_update) (simp add: ch_def)
  moreover have "distinct_on rv_id (t_reservations t')"
    unfolding rv' using d(2) fresh by (simp add: distinct_on_append_one)
  moreover have "reservation_ok t' x" if "x \<in> set (t_reservations t')" for x
  proof (cases "x = v")
    case True
    with nn c mem id est show ?thesis
      unfolding reservation_ok_def ids by (auto simp: v_def policy_decimal_rat_string intro: rev_image_eqI)
  next
    case False
    with that rok show ?thesis unfolding reservation_ok_def ids by (auto simp: rv')
  qed
  ultimately show ?thesis by (simp add: ledger_ok_def)
qed

definition reserve_int64 :: "policy_reserve \<Rightarrow> bool" where
  "reserve_int64 r \<longleftrightarrow> is_int64 (rs_input r) \<and> is_int64 (rs_output r) \<and> is_int64 (rs_tools r)"

definition outcome_int64 :: "policy_outcome \<Rightarrow> bool" where
  "outcome_int64 oc \<longleftrightarrow> is_int64 (oc_input oc) \<and> is_int64 (oc_output oc) \<and> is_int64 (oc_tools oc)"

lemma ledger_row_bounds:
  assumes "ledger_ok t" "select_run rid t = Some row"
  shows "run_balanced t row" "0 \<le> pr_input row" "0 \<le> pr_output row" "0 \<le> pr_tools row"
    "pr_input row \<le> max_int64" "pr_output row \<le> max_int64" "pr_tools row \<le> max_int64"
    "pr_calls row \<le> max_int64"
proof -
  from assms show b: "run_balanced t row"
    by (auto simp: ledger_ok_def dest: select_run_Some)
  moreover from assms(1) have "\<forall>v \<in> set (t_reservations t). reservation_ok t v"
    by (simp add: ledger_ok_def)
  ultimately show "0 \<le> pr_input row" "0 \<le> pr_output row" "0 \<le> pr_tools row"
    "pr_input row \<le> max_int64" "pr_output row \<le> max_int64"
    by (rule run_balanced_bounds)+
  from b show "pr_tools row \<le> max_int64" "pr_calls row \<le> max_int64"
    by (simp_all add: run_balanced_def)
qed

text \<open>
  What a committed reservation did: the run row it saw, the room left under every cap, and
  the two statements it ran.
\<close>

definition admitted :: "time \<Rightarrow> policy_reserve \<Rightarrow> rat \<Rightarrow> rat \<Rightarrow> tables \<Rightarrow> reserve_result \<Rightarrow> tables \<Rightarrow> bool" where
  "admitted now r est cap t x t' \<longleftrightarrow>
     (\<exists>row cur ni no nt tot.
        select_run (rs_run_id r) (insert_or_ignore_run (rs_run_id r) (rs_started r) t) = Some row \<and>
        policy_decimal (pr_cost row) = Inr cur \<and>
        checked_add [pr_input row, rs_input r] = Inr ni \<and>
        checked_add [pr_output row, rs_output r] = Inr no \<and>
        checked_add [pr_tools row, rs_tools r] = Inr nt \<and>
        checked_add [ni, no] = Inr tot \<and> pr_calls row \<noteq> max_int64 \<and>
        limit_check now r row ni no nt tot (cur + est) cap = None \<and>
        insert_reservation r (rat_string est) (charge_run r (rat_string (cur + est))
          (insert_or_ignore_run (rs_run_id r) (rs_started r) t)) = Inr ((), t') \<and>
        x = block_result [] [] (pr_calls row + 1) 0)"

lemma reserve_body_committed:
  assumes "reserve_body now r est cap j = (Inr (True, x), j')"
  shows "admitted now r est cap (tbl j) x (tbl j')"
proof -
  let ?t1 = "insert_or_ignore_run (rs_run_id r) (rs_started r) (tbl j)"
  obtain j1 row j2 cur ni no nt tot j3 where
    1: "exec_stmt (\<lambda>t. Inr ((), insert_or_ignore_run (rs_run_id r) (rs_started r) t)) j = (Inr (), j1)"
    and 2: "query_row (select_run (rs_run_id r)) j1 = (Inr row, j2)"
    and 3: "policy_decimal (pr_cost row) = Inr cur"
      "checked_add [pr_input row, rs_input r] = Inr ni"
      "checked_add [pr_output row, rs_output r] = Inr no"
      "checked_add [pr_tools row, rs_tools r] = Inr nt"
      "checked_add [ni, no] = Inr tot"
    and 4: "pr_calls row \<noteq> max_int64"
      "limit_check now r row ni no nt tot (cur + est) cap = None"
    and 5: "exec_stmt (\<lambda>t. Inr ((), charge_run r (rat_string (cur + est)) t)) j2 = (Inr (), j3)"
    and 6: "exec_stmt (insert_reservation r (rat_string est)) j3 = (Inr (), j')"
    and 7: "x = block_result [] [] (pr_calls row + 1) 0"
    using assms unfolding reserve_body_def
    by (elim bindE_okE) (auto simp: of_res_run elim!: bindE_okE split: if_splits option.splits)
  from exec_stmt_run [OF 1] have t1: "tbl j1 = ?t1" by simp
  from query_row_run [OF 2] t1 have row: "select_run (rs_run_id r) ?t1 = Some row" "tbl j2 = ?t1" by simp_all
  from exec_stmt_run [OF 5] row(2) have t3: "tbl j3 = charge_run r (rat_string (cur + est)) ?t1" by simp
  from exec_stmt_run [OF 6] t3
  have ins: "insert_reservation r (rat_string est) (charge_run r (rat_string (cur + est)) ?t1) = Inr ((), tbl j')"
    by simp
  show ?thesis
    unfolding admitted_def by (intro exI conjI) (rule row(1) 3 4 ins 7)+
qed

lemma admitted_ledger:
  assumes ok: "ledger_ok t" and i64: "reserve_int64 r" and est: "0 \<le> est"
    and adm: "admitted now r est cap t x t'"
  shows "ledger_ok t'"
proof -
  let ?t1 = "insert_or_ignore_run (rs_run_id r) (rs_started r) t"
  have ok1: "ledger_ok ?t1" using ok by (rule ledger_insert_or_ignore)
  from adm obtain row cur ni no nt tot where
    row: "select_run (rs_run_id r) ?t1 = Some row" and cur: "policy_decimal (pr_cost row) = Inr cur"
    and add: "checked_add [pr_input row, rs_input r] = Inr ni" "checked_add [pr_output row, rs_output r] = Inr no"
      "checked_add [pr_tools row, rs_tools r] = Inr nt" "checked_add [ni, no] = Inr tot"
    and calls: "pr_calls row \<noteq> max_int64"
    and ins: "insert_reservation r (rat_string est) (charge_run r (rat_string (cur + est)) ?t1) = Inr ((), t')"
    unfolding admitted_def by blast
  note b = ledger_row_bounds [OF ok1 row]
  from i64 have r: "rs_input r \<le> max_int64" "rs_output r \<le> max_int64" "rs_tools r \<le> max_int64"
    by (simp_all add: reserve_int64_def is_int64_def)
  from add b r have n: "0 \<le> rs_input r" "0 \<le> rs_output r" "0 \<le> rs_tools r"
    "ni = pr_input row + rs_input r" "no = pr_output row + rs_output r"
    "ni \<le> max_int64" "no \<le> max_int64" "pr_tools row + rs_tools r \<le> max_int64"
    by (auto simp: checked_add2)
  with add(4) have "pr_input row + rs_input r + (pr_output row + rs_output r) \<le> max_int64"
    by (simp add: checked_add2)
  moreover from calls b(8) have "pr_calls row < max_int64" by linarith
  ultimately show ?thesis
    using n(1-3,8) by (intro ledger_charge_insert [OF ok1 row ins est cur])
qed

lemma reserve_policy_ledger:
  assumes "reserve_int64 r"
  shows "keeps ledger_ok (reserve_policy now r)"
proof -
  have "keeps ledger_ok (tx (reserve_body now r est cap))" if "0 \<le> est" for est cap
    by (rule keeps_tx) (meson admitted_ledger assms reserve_body_committed that)
  then have "keeps ledger_ok (bindE (of_res (policy_decimal (rs_cost r))) (\<lambda>est.
      bindE (of_res (policy_decimal (rs_max_cost r))) (\<lambda>cap. tx (reserve_body now r est cap))))"
    by (cases "policy_decimal (rs_cost r)")
      (auto simp: keeps_def bindE_def dest: policy_decimal_nonneg split: sum.splits)
  then show ?thesis
    unfolding reserve_policy_def by (auto intro!: keeps_intros)
qed

section \<open>Reconciliation keeps the ledger\<close>

text \<open>What a successful first reconciliation did.\<close>

definition settled :: "policy_outcome \<Rightarrow> tables \<Rightarrow> tables \<Rightarrow> bool" where
  "settled oc t t' \<longleftrightarrow>
     (\<exists>old row cur oldc act inp outp tools ni no nt.
        select_reservation (oc_reservation_id oc) (oc_run_id oc) t = Some old \<and> \<not> rv_reconciled old \<and>
        select_run (oc_run_id oc) t = Some row \<and>
        policy_decimal (pr_cost row) = Inr cur \<and> policy_decimal (rv_cost old) = Inr oldc \<and>
        (if oc_cost oc \<noteq> [] then policy_decimal (oc_cost oc) else Inr oldc) = Inr act \<and>
        inp = reported (rv_input old) (oc_input oc) \<and> outp = reported (rv_output old) (oc_output oc) \<and>
        tools = reported (rv_tools old) (oc_tools oc) \<and> 0 \<le> tools \<and>
        rv_input old \<le> pr_input row \<and> rv_output old \<le> pr_output row \<and> rv_tools old \<le> pr_tools row \<and>
        checked_add [pr_input row - rv_input old, inp] = Inr ni \<and>
        checked_add [pr_output row - rv_output old, outp] = Inr no \<and>
        checked_add [pr_tools row - rv_tools old, tools] = Inr nt \<and>
        is_ok (checked_add [ni, no]) \<and>
        t' = set_reconciled (oc_reservation_id oc) inp outp tools (rat_string act)
               (set_run_totals (oc_run_id oc) ni no nt (rat_string (cur - oldc + act)) t))"

lemma reconcile_tx_run:
  assumes "reconcile_policy_tx oc j = (Inr (), j')"
  shows "(tbl j' = tbl j \<and> (\<exists>old. select_reservation (oc_reservation_id oc) (oc_run_id oc) (tbl j) = Some old
            \<and> rv_reconciled old)) \<or> settled oc (tbl j) (tbl j')"
proof -
  obtain old j1 where q: "query_row (select_reservation (oc_reservation_id oc) (oc_run_id oc)) j = (Inr old, j1)"
    using assms unfolding reconcile_policy_tx_def by (auto split: prod.splits sum.splits)
  note old = query_row_run [OF q]
  show ?thesis
  proof (cases "rv_reconciled old")
    case True
    with assms q have "j' = j1" by (simp add: reconcile_policy_tx_def)
    with old True show ?thesis by simp
  next
    case False
    define inp outp tools where d: "inp = reported (rv_input old) (oc_input oc)"
      "outp = reported (rv_output old) (oc_output oc)" "tools = reported (rv_tools old) (oc_tools oc)"
    obtain row j2 cur oldc act ni no nt tot j3 where
      2: "query_row (select_run (oc_run_id oc)) j1 = (Inr row, j2)"
      and 3: "policy_decimal (pr_cost row) = Inr cur" "policy_decimal (rv_cost old) = Inr oldc"
        "(if oc_cost oc \<noteq> [] then policy_decimal (oc_cost oc) else Inr oldc) = Inr act"
        "0 \<le> tools" "rv_input old \<le> pr_input row" "rv_output old \<le> pr_output row"
        "rv_tools old \<le> pr_tools row"
        "checked_add [pr_input row - rv_input old, inp] = Inr ni"
        "checked_add [pr_output row - rv_output old, outp] = Inr no"
        "checked_add [pr_tools row - rv_tools old, tools] = Inr nt"
        "checked_add [ni, no] = Inr tot"
      and 4: "exec_stmt (\<lambda>t. Inr ((), set_run_totals (oc_run_id oc) ni no nt
                (rat_string (cur - oldc + act)) t)) j2 = (Inr (), j3)"
      and 5: "exec_stmt (\<lambda>t. Inr ((), set_reconciled (oc_reservation_id oc) inp outp tools
                (rat_string act) t)) j3 = (Inr (), j')"
      using assms False unfolding reconcile_policy_tx_def q d Let_def
      by (auto simp: of_res_run elim!: bindE_okE split: if_split_asm)
    from query_row_run [OF 2] old have t2: "tbl j2 = tbl j" and row: "select_run (oc_run_id oc) (tbl j) = Some row"
      by simp_all
    from exec_stmt_run [OF 4] exec_stmt_run [OF 5] t2
    have t': "tbl j' = set_reconciled (oc_reservation_id oc) inp outp tools (rat_string act)
      (set_run_totals (oc_run_id oc) ni no nt (rat_string (cur - oldc + act)) (tbl j))" by simp
    have tot: "is_ok (checked_add [ni, no])" by (simp add: 3)
    have "settled oc (tbl j) (tbl j')"
      unfolding settled_def by (intro exI conjI) (rule conjunct1 [OF old] False row 3(1-10) d tot t')+
    then show ?thesis ..
  qed
qed

lemma set_reconciled_runs [simp]: "t_runs (set_reconciled v i out u c t) = t_runs t"
  and set_run_totals_reservations [simp]: "t_reservations (set_run_totals rid i out u c t) = t_reservations t"
  by (simp_all add: set_reconciled_def set_run_totals_def)

lemma of_run_set_run_totals [simp]: "of_run x (set_run_totals rid i out u c t) = of_run x t"
  by (simp add: of_run_def)

lemma of_run_set_reconciled:
  "of_run x (set_reconciled vid i out u c t) = update_where (\<lambda>v. rv_id v = vid)
     (\<lambda>v. v\<lparr>rv_reconciled := True, rv_input := i, rv_output := out, rv_tools := u, rv_cost := c\<rparr>) (of_run x t)"
proof -
  have "filter (\<lambda>v. rv_run_id v = x) (update_where (\<lambda>v. rv_id v = vid)
     (\<lambda>v. v\<lparr>rv_reconciled := True, rv_input := i, rv_output := out, rv_tools := u, rv_cost := c\<rparr>) vs)
   = update_where (\<lambda>v. rv_id v = vid)
     (\<lambda>v. v\<lparr>rv_reconciled := True, rv_input := i, rv_output := out, rv_tools := u, rv_cost := c\<rparr>)
     (filter (\<lambda>v. rv_run_id v = x) vs)" for vs :: "reservation list"
    by (induction vs) auto
  then show ?thesis by (simp add: of_run_def set_reconciled_def)
qed

text \<open>Replacing one reservation moves the sums of its own run only.\<close>

lemma sum_of_run_set_reconciled:
  fixes g :: "reservation \<Rightarrow> 'b::ab_group_add"
  assumes d: "distinct_on rv_id (t_reservations t)" and v: "v \<in> set (t_reservations t)"
  shows "sum_list (map g (of_run x (set_reconciled (rv_id v) i out u c t))) =
    (if x = rv_run_id v
     then sum_list (map g (of_run x t)) - g v
          + g (v\<lparr>rv_reconciled := True, rv_input := i, rv_output := out, rv_tools := u, rv_cost := c\<rparr>)
     else sum_list (map g (of_run x t)))"
proof (cases "x = rv_run_id v")
  case True
  with v have "v \<in> set (of_run x t)" by (simp add: of_run_def)
  moreover have "distinct_on rv_id (of_run x t)" unfolding of_run_def using d by (rule distinct_on_filter)
  ultimately show ?thesis
    using True by (simp add: of_run_set_reconciled sum_list_update_where_key)
next
  case False
  then have "\<forall>w \<in> set (of_run x t). rv_id w \<noteq> rv_id v"
    using d v by (auto simp: of_run_def dest: distinct_on_unique)
  then show ?thesis using False by (simp add: of_run_set_reconciled update_where_none)
qed

lemma length_of_run_set_reconciled [simp]:
  "length (of_run x (set_reconciled vid i out u c t)) = length (of_run x t)"
  by (simp add: of_run_set_reconciled)

lemma of_run_member_le:
  fixes g :: "reservation \<Rightarrow> 'b::ordered_comm_monoid_add"
  assumes "v \<in> set (t_reservations t)" "\<And>w. 0 \<le> g w"
  shows "g v \<le> sum_list (map g (of_run (rv_run_id v) t))"
proof -
  from assms(1) have "v \<in> set (of_run (rv_run_id v) t)" by (simp add: of_run_def)
  then have "g v \<in> set (map g (of_run (rv_run_id v) t))" by simp
  then show ?thesis by (rule member_le_sum_list) (auto simp: assms(2))
qed

lemma settled_ledger:
  assumes ok: "ledger_ok t" and i64: "outcome_int64 oc" and st: "settled oc t t'"
  shows "ledger_ok t'"
proof -
  from st obtain old row cur oldc act inp outp tools ni no nt where
    old: "select_reservation (oc_reservation_id oc) (oc_run_id oc) t = Some old" and
    row: "select_run (oc_run_id oc) t = Some row" and
    cur: "policy_decimal (pr_cost row) = Inr cur" and oldc: "policy_decimal (rv_cost old) = Inr oldc" and
    act: "(if oc_cost oc \<noteq> [] then policy_decimal (oc_cost oc) else Inr oldc) = Inr act" and
    rep: "inp = reported (rv_input old) (oc_input oc)" "outp = reported (rv_output old) (oc_output oc)"
      "tools = reported (rv_tools old) (oc_tools oc)" "0 \<le> tools" and
    le: "rv_input old \<le> pr_input row" "rv_output old \<le> pr_output row" "rv_tools old \<le> pr_tools row" and
    add: "checked_add [pr_input row - rv_input old, inp] = Inr ni"
      "checked_add [pr_output row - rv_output old, outp] = Inr no"
      "checked_add [pr_tools row - rv_tools old, tools] = Inr nt" "is_ok (checked_add [ni, no])" and
    t': "t' = set_reconciled (oc_reservation_id oc) inp outp tools (rat_string act)
        (set_run_totals (oc_run_id oc) ni no nt (rat_string (cur - oldc + act)) t)"
    unfolding settled_def by blast
  note rb = ledger_row_bounds [OF ok row]
  from select_reservation_Some [OF old] have mem: "old \<in> set (t_reservations t)"
    and ids: "oc_reservation_id oc = rv_id old" "oc_run_id oc = rv_run_id old" by simp_all
  from select_run_Some [OF row] have rmem: "row \<in> set (t_runs t)" "pr_run_id row = oc_run_id oc" by simp_all
  from ok have d: "distinct_on pr_run_id (t_runs t)" "distinct_on rv_id (t_reservations t)"
    and bal: "\<forall>x \<in> set (t_runs t). run_balanced t x"
    and rok: "\<forall>x \<in> set (t_reservations t). reservation_ok t x" by (simp_all add: ledger_ok_def)
  from rok mem have o: "0 \<le> rv_input old" "0 \<le> rv_output old" "0 \<le> rv_tools old"
    "cost_val (rv_cost old) = oldc" using oldc by (auto simp: reservation_ok_def)
  from i64 rb le o have small: "inp \<le> max_int64" "outp \<le> max_int64" "tools \<le> max_int64"
    by (auto simp: rep reported_def outcome_int64_def is_int64_def)
  from add small rb le o have n: "0 \<le> inp" "0 \<le> outp" "ni = pr_input row - rv_input old + inp"
    "no = pr_output row - rv_output old + outp" "nt = pr_tools row - rv_tools old + tools"
    "ni \<le> max_int64" "no \<le> max_int64" "nt \<le> max_int64" by (auto simp: checked_add2)
  with add(4) have tot: "ni + no \<le> max_int64" by (auto simp: is_ok_iff checked_add2)
  have act0: "0 \<le> act" using act oldc by (auto split: if_splits dest: policy_decimal_nonneg)
  have c: "cost_val (rat_string act) = act" using act0 by (rule cost_val_rat_string)
  from rb(1) cur have cs: "cur = sum_list (map (\<lambda>v. cost_val (rv_cost v)) (of_run (rv_run_id old) t))"
    by (simp add: run_balanced_def rmem(2) ids)
  have "oldc \<le> cur" unfolding cs o(4) [symmetric] using mem
    by (rule of_run_member_le [where g = "\<lambda>v. cost_val (rv_cost v)"]) (rule cost_val_nonneg)
  with act0 have newc: "policy_decimal (rat_string (cur - oldc + act)) = Inr (cur - oldc + act)"
    by (intro policy_decimal_rat_string) simp
  let ?m = "set_run_totals (oc_run_id oc) ni no nt (rat_string (cur - oldc + act)) t"
  note sums = sum_of_run_set_reconciled [of "set_run_totals rid a b e f t" for rid a b e f, simplified, OF d(2) mem]
  have runs': "t_runs t' = t_runs ?m" by (simp add: t')
  have rids: "pr_run_id ` set (t_runs t') = pr_run_id ` set (t_runs t)"
    unfolding runs' set_run_totals_def by (simp add: image_update_where)
  have "run_balanced t' x" if "x \<in> set (t_runs t')" for x
  proof -
    from that consider (other) "x \<in> set (t_runs t)" "pr_run_id x \<noteq> oc_run_id oc"
      | (changed) y where "y \<in> set (t_runs t)" "pr_run_id y = oc_run_id oc"
          "x = y\<lparr>pr_input := ni, pr_output := no, pr_tools := nt, pr_cost := rat_string (cur - oldc + act)\<rparr>"
      unfolding runs' set_run_totals_def by (auto simp: set_update_where)
    then show ?thesis
    proof cases
      case other
      with bal have "run_balanced t x" by blast
      with other(2) show ?thesis unfolding run_balanced_def t' ids by (simp add: sums)
    next
      case changed
      with rmem d have y: "y = row" by (auto intro: distinct_on_unique)
      note b = rb(1) [unfolded run_balanced_def rmem(2) ids]
      from b n tot newc cs o c show ?thesis
        unfolding run_balanced_def t' ids changed(3) y by (simp add: sums rmem(2) ids)
    qed
  qed
  moreover have "distinct_on pr_run_id (t_runs t')"
    unfolding runs' set_run_totals_def using d(1) by (simp add: distinct_on_update)
  moreover have "distinct_on rv_id (t_reservations t')"
    unfolding t' set_reconciled_def using d(2) by (simp add: distinct_on_update)
  moreover have "reservation_ok t' v" if "v \<in> set (t_reservations t')" for v
    using that rok n rep(4) c act0 unfolding reservation_ok_def rids
    by (auto simp: t' set_reconciled_def set_update_where policy_decimal_rat_string)
  ultimately show ?thesis by (simp add: ledger_ok_def)
qed

lemma reconcile_policy_keeps:
  assumes "\<And>t t'. P t \<Longrightarrow> settled oc t t' \<Longrightarrow> P t'"
  shows "keeps P (reconcile_policy oc)"
proof -
  have "keeps P (tx (bindE (reconcile_policy_tx oc) (\<lambda>_. ret (True, ()))))"
  proof (rule keeps_tx)
    fix j1 x j2
    assume P: "P (tbl j1)"
      and r: "bindE (reconcile_policy_tx oc) (\<lambda>_. ret (True, ())) j1 = (Inr (True, x), j2)"
    then have "reconcile_policy_tx oc j1 = (Inr (), j2)" by (auto simp: bindE_run)
    from reconcile_tx_run [OF this] P assms show "P (tbl j2)" by auto
  qed
  then show ?thesis
    unfolding reconcile_policy_def by (auto intro!: keeps_intros)
qed

lemma reconcile_policy_ledger:
  assumes "outcome_int64 oc"
  shows "keeps ledger_ok (reconcile_policy oc)"
proof (rule reconcile_policy_keeps)
  show "ledger_ok t'" if "ledger_ok t" "settled oc t t'" for t t'
    using that(1) assms that(2) by (rule settled_ledger)
qed

section \<open>Sequences of ledger operations\<close>

datatype ledger_op = Reserve time policy_reserve | Reconcile policy_outcome

fun run_ledger :: "ledger_op list \<Rightarrow> journal \<Rightarrow> journal" where
  "run_ledger [] j = j"
| "run_ledger (Reserve now r # ops) j = run_ledger ops (snd (reserve_policy now r j))"
| "run_ledger (Reconcile oc # ops) j = run_ledger ops (snd (reconcile_policy oc j))"

fun op_int64 :: "ledger_op \<Rightarrow> bool" where
  "op_int64 (Reserve now r) = reserve_int64 r"
| "op_int64 (Reconcile oc) = outcome_int64 oc"

lemma run_ledger_keeps:
  assumes "\<And>now r. Reserve now r \<in> set ops \<Longrightarrow> keeps P (reserve_policy now r)"
    and "\<And>oc. Reconcile oc \<in> set ops \<Longrightarrow> keeps P (reconcile_policy oc)"
    and "P (tbl j)"
  shows "P (tbl (run_ledger ops j))"
  using assms
proof (induction ops arbitrary: j)
  case Nil
  then show ?case by simp
next
  case (Cons a ops)
  show ?case
  proof (cases a)
    case (Reserve now r)
    then have "keeps P (reserve_policy now r)" using Cons.prems(1) by simp
    then have "P (tbl (snd (reserve_policy now r j)))"
      using Cons.prems(3) by (metis keepsD prod.collapse)
    then have "P (tbl (run_ledger ops (snd (reserve_policy now r j))))"
      by (rule Cons.IH [rotated 2]) (simp_all add: Cons.prems)
    with Reserve show ?thesis by simp
  next
    case (Reconcile oc)
    then have "keeps P (reconcile_policy oc)" using Cons.prems(2) by simp
    then have "P (tbl (snd (reconcile_policy oc j)))"
      using Cons.prems(3) by (metis keepsD prod.collapse)
    then have "P (tbl (run_ledger ops (snd (reconcile_policy oc j))))"
      by (rule Cons.IH [rotated 2]) (simp_all add: Cons.prems)
    with Reconcile show ?thesis by simp
  qed
qed

text \<open>What an inserted reservation adds to the rows of its run.\<close>

lemma admitted_of_run:
  assumes "admitted now r est cap t x t'"
  shows "of_run rid t' = of_run rid t @ (if rid = rs_run_id r then
     [\<lparr>rv_id = rs_reservation_id r, rv_run_id = rs_run_id r, rv_input = rs_input r,
       rv_output = rs_output r, rv_tools = rs_tools r, rv_cost = rat_string est, rv_reconciled = False\<rparr>]
     else [])"
proof -
  have "t_reservations (insert_or_ignore_run a b t) = t_reservations t" for a b
    by (simp add: insert_or_ignore_run_def)
  with assms show ?thesis
    by (auto simp: admitted_def insert_reservation_def charge_run_def of_run_def split: if_splits)
qed

lemma insert_or_ignore_balanced:
  assumes "ledger_ok t" "select_run rid (insert_or_ignore_run rid started t) = Some row"
  shows "run_balanced t row" "pr_run_id row = rid"
proof -
  have ok: "ledger_ok (insert_or_ignore_run rid started t)"
    using assms(1) by (rule ledger_insert_or_ignore)
  have same: "of_run x (insert_or_ignore_run rid started t) = of_run x t" for x
    by (simp add: of_run_def insert_or_ignore_run_def)
  from ledger_row_bounds(1) [OF ok assms(2)] show "run_balanced t row"
    by (simp add: run_balanced_def same)
  from assms(2) show "pr_run_id row = rid" by (simp add: select_run_Some)
qed

lemma settled_length: "settled oc t t' \<Longrightarrow> length (of_run rid t') = length (of_run rid t)"
  by (auto simp: settled_def)

text \<open>The number of calls of a run.\<close>

definition calls_of :: "string \<Rightarrow> tables \<Rightarrow> int" where
  "calls_of rid t = int (length (of_run rid t))"

lemma reconcile_policy_calls: "keeps (\<lambda>t. calls_of rid t \<le> n) (reconcile_policy oc)"
  by (rule reconcile_policy_keeps) (simp add: calls_of_def settled_length)

fun caps_calls :: "string \<Rightarrow> int \<Rightarrow> ledger_op \<Rightarrow> bool" where
  "caps_calls rid n (Reserve now r) = (rs_run_id r = rid \<longrightarrow> 0 < rs_max_calls r \<and> rs_max_calls r \<le> n)"
| "caps_calls rid n (Reconcile oc) = True"

lemma admitted_calls:
  assumes "ledger_ok t" "admitted now r est cap t x t'" "calls_of rid t \<le> n"
    "caps_calls rid n (Reserve now r)"
  shows "calls_of rid t' \<le> n"
proof (cases "rid = rs_run_id r")
  case False
  with assms admitted_of_run [OF assms(2)] show ?thesis by (simp add: calls_of_def)
next
  case True
  from assms(2) obtain row ni no nt tot nc where
    row: "select_run (rs_run_id r) (insert_or_ignore_run (rs_run_id r) (rs_started r) t) = Some row"
    and lim: "limit_check now r row ni no nt tot nc cap = None"
    unfolding admitted_def by blast
  from insert_or_ignore_balanced [OF assms(1) row] True have "pr_calls row = calls_of rid t"
    by (simp add: run_balanced_def calls_of_def)
  with lim assms(4) True have "calls_of rid t < n"
    by (auto simp: limit_check_def split: if_splits)
  with admitted_of_run [OF assms(2)] True show ?thesis by (simp add: calls_of_def)
qed

section \<open>The guarantees of the ledger\<close>

lemma limit_check_reason: "limit_check now r row ni no nt tot nc cap = Some b \<Longrightarrow> rr_reason b \<noteq> []"
  by (auto simp: limit_check_def block_result_def split: if_splits)

lemma reserve_body_blocked:
  assumes "reserve_body now r est cap j = (Inr (False, x), j')"
  shows "rr_reason x \<noteq> []"
proof -
  obtain row ni no nt tot nc where "limit_check now r row ni no nt tot nc cap = Some x"
    using assms unfolding reserve_body_def
    by (elim bindE_okE) (auto simp: of_res_run elim!: bindE_okE split: if_splits option.splits)
  then show ?thesis by (rule limit_check_reason)
qed

lemma reserve_policy_run:
  assumes "reserve_policy now r j = (Inr x, j')"
  obtains (blocked) "tbl j' = tbl j" "rr_reason x \<noteq> []"
  | (admitted) est cap where "policy_decimal (rs_cost r) = Inr est" "policy_decimal (rs_max_cost r) = Inr cap"
      "admitted now r est cap (tbl j) x (tbl j')"
proof -
  obtain est cap where dec: "policy_decimal (rs_cost r) = Inr est" "policy_decimal (rs_max_cost r) = Inr cap"
    and t: "tx (reserve_body now r est cap) j = (Inr x, j')"
    using assms unfolding reserve_policy_def by (auto simp: run_simps split: if_splits)
  from tx_run [OF t] obtain j1 commit j2 where b: "tbl j1 = tbl j"
    "reserve_body now r est cap j1 = (Inr (commit, x), j2)" "tbl j' = (if commit then tbl j2 else tbl j)"
    by blast
  show ?thesis
  proof (cases commit)
    case True
    with b have "admitted now r est cap (tbl j) x (tbl j')"
      using reserve_body_committed [of now r est cap j1 x j2] by simp
    with dec show ?thesis by (rule admitted)
  next
    case False
    with b have "tbl j' = tbl j" "rr_reason x \<noteq> []" by (auto dest: reserve_body_blocked)
    then show ?thesis by (rule blocked)
  qed
qed

lemma reserve_policy_error:
  assumes "reserve_policy now r j = (Inl e, j')"
  shows "tbl j' = tbl j"
proof -
  consider "tbl j' = tbl j" | est cap where "tx (reserve_body now r est cap) j = (Inl e, j')"
    using assms unfolding reserve_policy_def
    by (auto simp: bindE_def fail_def of_res_def split: if_splits sum.splits)
  then show ?thesis by cases (auto dest: tx_error_rolls_back)
qed

text \<open>The reservations of a run, summed, against every cap of a request.\<close>

definition within_caps :: "policy_reserve \<Rightarrow> tables \<Rightarrow> bool" where
  "within_caps r t \<longleftrightarrow> (let vs = of_run (rs_run_id r) t in
     (rs_max_calls r > 0 \<longrightarrow> int (length vs) \<le> rs_max_calls r) \<and>
     (rs_max_input r > 0 \<longrightarrow> sum_list (map rv_input vs) \<le> rs_max_input r) \<and>
     (rs_max_output r > 0 \<longrightarrow> sum_list (map rv_output vs) \<le> rs_max_output r) \<and>
     (rs_max_total r > 0 \<longrightarrow> sum_list (map rv_input vs) + sum_list (map rv_output vs) \<le> rs_max_total r) \<and>
     (rs_max_tools r > 0 \<longrightarrow> sum_list (map rv_tools vs) \<le> rs_max_tools r) \<and>
     (rs_max_cost r \<noteq> [] \<longrightarrow>
        sum_list (map (\<lambda>v. cost_val (rv_cost v)) vs) \<le> cost_val (rs_max_cost r)))"

lemma admitted_within_caps:
  assumes ok: "ledger_ok t" and i64: "reserve_int64 r" and est: "0 \<le> est"
    and cap: "policy_decimal (rs_max_cost r) = Inr cap" and adm: "admitted now r est cap t x t'"
  shows "within_caps r t'"
proof -
  let ?t1 = "insert_or_ignore_run (rs_run_id r) (rs_started r) t"
  have ok1: "ledger_ok ?t1" using ok by (rule ledger_insert_or_ignore)
  from adm obtain row cur ni no nt tot where
    row: "select_run (rs_run_id r) ?t1 = Some row" and cur: "policy_decimal (pr_cost row) = Inr cur"
    and add: "checked_add [pr_input row, rs_input r] = Inr ni" "checked_add [pr_output row, rs_output r] = Inr no"
      "checked_add [pr_tools row, rs_tools r] = Inr nt" "checked_add [ni, no] = Inr tot"
    and lim: "limit_check now r row ni no nt tot (cur + est) cap = None"
    unfolding admitted_def by blast
  note b = ledger_row_bounds [OF ok1 row]
  from i64 have r: "rs_input r \<le> max_int64" "rs_output r \<le> max_int64" "rs_tools r \<le> max_int64"
    by (simp_all add: reserve_int64_def is_int64_def)
  from add b r have n: "ni = pr_input row + rs_input r" "no = pr_output row + rs_output r"
    "nt = pr_tools row + rs_tools r" "ni \<le> max_int64" "no \<le> max_int64"
    by (auto simp: checked_add2)
  with add(4) have tot: "tot = ni + no" by (simp add: checked_add2)
  from insert_or_ignore_balanced [OF ok row]
  have bal: "pr_calls row = int (length (of_run (rs_run_id r) t))"
     "pr_input row = sum_list (map rv_input (of_run (rs_run_id r) t))"
     "pr_output row = sum_list (map rv_output (of_run (rs_run_id r) t))"
     "pr_tools row = sum_list (map rv_tools (of_run (rs_run_id r) t))"
     "cur = sum_list (map (\<lambda>v. cost_val (rv_cost v)) (of_run (rs_run_id r) t))"
    using cur by (simp_all add: run_balanced_def)
  have lim': "\<not> (rs_max_calls r > 0 \<and> pr_calls row \<ge> rs_max_calls r)"
    "\<not> (rs_max_input r > 0 \<and> ni > rs_max_input r)" "\<not> (rs_max_output r > 0 \<and> no > rs_max_output r)"
    "\<not> (rs_max_total r > 0 \<and> tot > rs_max_total r)" "\<not> (rs_max_tools r > 0 \<and> nt > rs_max_tools r)"
    "\<not> (rs_max_cost r \<noteq> [] \<and> cur + est > cap)"
    using lim unfolding limit_check_def by (auto split: if_splits)
  have "cost_val (rat_string est) = est" using est by (rule cost_val_rat_string)
  then show ?thesis
    using lim' unfolding within_caps_def Let_def n(1-3) tot bal cost_val_eq [OF cap]
    by (simp add: admitted_of_run [OF adm] not_less) linarith
qed

text \<open>C1: The run ledger is exact. Whatever sequence of reservations and reconciliations runs, and
  wherever the driver fails in between, the totals stored for each run stay equal to the number
  of its reservations and to the sums of their tokens, tool calls and costs, with no int64
  overflow and at most one row per run and per reservation.\<close>

theorem ledger_exact:
  assumes "list_all op_int64 ops" "ledger_ok (tbl j)"
  shows "ledger_ok (tbl (run_ledger ops j))"
proof (rule run_ledger_keeps)
  show "keeps ledger_ok (reserve_policy now r)" if "Reserve now r \<in> set ops" for now r
    using that assms(1) by (intro reserve_policy_ledger) (force simp: list_all_iff)
  show "keeps ledger_ok (reconcile_policy oc)" if "Reconcile oc \<in> set ops" for oc
    using that assms(1) by (intro reconcile_policy_ledger) (force simp: list_all_iff)
qed (rule assms(2))

definition sample_reserve :: "string \<Rightarrow> policy_reserve" where
  "sample_reserve vid = \<lparr>rs_run_id = ''r'', rs_reservation_id = vid, rs_started = 0, rs_input = 10,
     rs_output = 20, rs_tools = 1, rs_cost = ''0.5'', rs_max_calls = 2, rs_max_input = 0, rs_max_output = 0,
     rs_max_total = 100, rs_max_tools = 0, rs_max_duration = 60, rs_max_cost = ''1.25''\<rparr>"

definition sample_outcome :: "string \<Rightarrow> policy_outcome" where
  "sample_outcome vid = \<lparr>oc_run_id = ''r'', oc_reservation_id = vid, oc_input = 12, oc_output = 7,
     oc_tools = -1, oc_cost = []\<rparr>"

definition sample_ops :: "ledger_op list" where
  "sample_ops = [Reserve 5 (sample_reserve ''a''), Reserve 6 (sample_reserve ''b''),
     Reconcile (sample_outcome ''a''), Reserve 7 (sample_reserve ''c'')]"

lemma ledger_exact_witness:
  "ledger_ok (tbl (run_ledger sample_ops (new_journal ''i'')))"
  by (rule ledger_exact)
    (simp_all add: sample_ops_def sample_reserve_def sample_outcome_def reserve_int64_def outcome_int64_def
      is_int64_def min_int64_def max_int64_def new_journal_def ledger_ok_empty)

text \<open>C2: The call cap holds for the life of a run: as long as every request of a run is made under
  a positive cap of at most n calls, no sequence of reservations, blocks, failures and
  reconciliations ever leaves more than n calls in its ledger.\<close>

theorem call_cap_never_exceeded:
  assumes "list_all op_int64 ops" "list_all (caps_calls rid n) ops"
    and "ledger_ok (tbl j)" "calls_of rid (tbl j) \<le> n"
  shows "calls_of rid (tbl (run_ledger ops j)) \<le> n"
proof -
  let ?P = "\<lambda>t. ledger_ok t \<and> calls_of rid t \<le> n"
  have res: "keeps ?P (reserve_policy now r)" if mem: "Reserve now r \<in> set ops" for now r
  proof -
    from mem assms(1,2) have i: "reserve_int64 r" "caps_calls rid n (Reserve now r)"
      by (force simp: list_all_iff)+
    have "?P (tbl j')" if "?P (tbl j)" "reserve_policy now r j = (x, j')" for j x j'
    proof (cases x)
      case (Inl e)
      with that show ?thesis by (auto dest: reserve_policy_error)
    next
      case (Inr y)
      with that have run: "reserve_policy now r j = (Inr y, j')" by simp
      from that i have "ledger_ok (tbl j')" by (meson keepsD reserve_policy_ledger)
      moreover from run that i have "calls_of rid (tbl j') \<le> n"
        by (cases rule: reserve_policy_run) (auto intro: admitted_calls)
      ultimately show ?thesis ..
    qed
    then show ?thesis unfolding keeps_def by blast
  qed
  have rec: "keeps ?P (reconcile_policy oc)" if mem: "Reconcile oc \<in> set ops" for oc
  proof -
    from mem assms(1) have "outcome_int64 oc" by (force simp: list_all_iff)
    then have "keeps ledger_ok (reconcile_policy oc)" by (rule reconcile_policy_ledger)
    moreover have "keeps (\<lambda>t. calls_of rid t \<le> n) (reconcile_policy oc)"
      by (rule reconcile_policy_calls)
    ultimately show ?thesis unfolding keeps_def by blast
  qed
  have "?P (tbl (run_ledger ops j))"
    using res rec conjI [OF assms(3,4)] by (rule run_ledger_keeps)
  then show ?thesis ..
qed

lemma call_cap_never_exceeded_witness:
  "calls_of ''r'' (tbl (run_ledger sample_ops (new_journal ''i''))) \<le> 2"
  by (rule call_cap_never_exceeded)
    (simp_all add: sample_ops_def sample_reserve_def sample_outcome_def reserve_int64_def outcome_int64_def
      is_int64_def min_int64_def max_int64_def new_journal_def ledger_ok_empty calls_of_def of_run_def
      t_reservations_empty)

text \<open>An admitted call fits: when \<open>ReservePolicy\<close> lets a call through, the reservations of
  its run, the new one included, are within every configured cap on calls, input tokens, output
  tokens, total tokens, tool calls and cost.\<close>

theorem admitted_call_within_caps:
  assumes "reserve_policy now r j = (Inr x, j')" "rr_reason x = []" "ledger_ok (tbl j)" "reserve_int64 r"
  shows "within_caps r (tbl j')"
  using assms(1)
proof (cases rule: reserve_policy_run)
  case blocked
  with assms(2) show ?thesis by simp
next
  case (admitted est cap)
  with assms(3,4) show ?thesis by (auto intro: admitted_within_caps dest: policy_decimal_nonneg)
qed

lemma sample_reserve_admitted:
  "fst (reserve_policy 5 (sample_reserve ''a'') (new_journal ''i'')) = Inr (block_result [] [] 1 0)"
  by code_simp

lemma admitted_call_within_caps_witness:
  "within_caps (sample_reserve ''a'') (tbl (snd (reserve_policy 5 (sample_reserve ''a'') (new_journal ''i''))))"
proof (rule admitted_call_within_caps)
  show "reserve_policy 5 (sample_reserve ''a'') (new_journal ''i'') =
    (Inr (block_result [] [] 1 0), snd (reserve_policy 5 (sample_reserve ''a'') (new_journal ''i'')))"
    using sample_reserve_admitted by (simp add: prod_eq_iff)
qed (simp_all add: block_result_def new_journal_def ledger_ok_empty sample_reserve_def reserve_int64_def
      is_int64_def min_int64_def max_int64_def)

text \<open>A blocked or failed reservation is free: unless \<open>ReservePolicy\<close> returns an empty reason
  without error, every table is exactly as it was, wherever the driver failed.\<close>

theorem refused_call_leaves_no_trace:
  assumes "reserve_policy now r j = (x, j')" "\<not> (is_ok x \<and> rr_reason (projr x) = [])"
  shows "tbl j' = tbl j"
proof (cases x)
  case (Inl e)
  with assms(1) show ?thesis by (auto dest: reserve_policy_error)
next
  case (Inr y)
  with assms have "reserve_policy now r j = (Inr y, j')" "rr_reason y \<noteq> []" by simp_all
  then show ?thesis
    by (cases rule: reserve_policy_run) (auto simp: admitted_def block_result_def)
qed

lemma sample_block:
  "rr_reason (projr (fst (reserve_policy 99000000000 (sample_reserve ''a'') (new_journal ''i'')))) = ''duration_limit''"
  by code_simp

lemma refused_call_leaves_no_trace_witness:
  "tbl (snd (reserve_policy 99000000000 (sample_reserve ''a'') (new_journal ''i''))) = tbl (new_journal ''i'')"
  by (rule refused_call_leaves_no_trace [OF surjective_pairing]) (simp add: sample_block)

text \<open>Reconciliation settles a reservation once.\<close>

lemma reconcile_policy_run:
  assumes "reconcile_policy oc j = (Inr (), j')"
  shows "(tbl j' = tbl j \<and> (\<exists>old. select_reservation (oc_reservation_id oc) (oc_run_id oc) (tbl j) = Some old
            \<and> rv_reconciled old)) \<or> settled oc (tbl j) (tbl j')"
proof -
  have t: "tx (bindE (reconcile_policy_tx oc) (\<lambda>_. ret (True, ()))) j = (Inr (), j')"
    using assms unfolding reconcile_policy_def by (auto simp: run_simps split: if_splits)
  from tx_run [OF t] obtain j1 j2 where b: "tbl j1 = tbl j" "reconcile_policy_tx oc j1 = (Inr (), j2)"
    "tbl j' = tbl j2" by (auto simp: run_simps)
  from reconcile_tx_run [OF b(2)] b(1,3) show ?thesis by simp
qed

lemma first_row_update_where:
  "(\<And>x. Q (f x) = Q x) \<Longrightarrow>
   first_row Q (update_where P f xs) = map_option (\<lambda>x. if P x then f x else x) (first_row Q xs)"
  by (induction xs) auto

lemma select_set_reconciled:
  "select_reservation vid rid (set_reconciled vid i out u c (set_run_totals rid' a b d e t)) =
   map_option (\<lambda>v. v\<lparr>rv_reconciled := True, rv_input := i, rv_output := out, rv_tools := u, rv_cost := c\<rparr>)
     (select_reservation vid rid t)"
proof -
  have "first_row (\<lambda>v. rv_id v = vid \<and> rv_run_id v = rid)
       (update_where (\<lambda>v. rv_id v = vid) (\<lambda>v. v\<lparr>rv_reconciled := True, rv_input := i, rv_output := out,
          rv_tools := u, rv_cost := c\<rparr>) (t_reservations t))
     = map_option (\<lambda>v. if rv_id v = vid then v\<lparr>rv_reconciled := True, rv_input := i, rv_output := out,
          rv_tools := u, rv_cost := c\<rparr> else v)
        (first_row (\<lambda>v. rv_id v = vid \<and> rv_run_id v = rid) (t_reservations t))"
    by (rule first_row_update_where) simp
  then show ?thesis
    by (auto simp: select_reservation_def set_reconciled_def set_run_totals_def
        dest: first_row_Some split: option.splits intro!: option.map_cong0)
qed

text \<open>Reconciliation is idempotent: once a reservation was reconciled, reconciling it again, with
  whatever usage and cost, changes nothing.\<close>

theorem reconcile_idempotent:
  assumes "reconcile_policy oc j = (Inr (), j1)" "reconcile_policy oc' j1 = (x, j2)"
    and "oc_run_id oc' = oc_run_id oc" "oc_reservation_id oc' = oc_reservation_id oc"
  shows "tbl j2 = tbl j1"
proof (cases x)
  case (Inl e)
  with assms(2) show ?thesis
    unfolding reconcile_policy_def by (auto dest: tx_error_rolls_back split: if_splits)
next
  case (Inr u)
  from reconcile_policy_run [OF assms(1)] obtain v where
    v: "select_reservation (oc_reservation_id oc) (oc_run_id oc) (tbl j1) = Some v" "rv_reconciled v"
    by (auto simp: settled_def select_set_reconciled)
  from Inr assms(2) have "reconcile_policy oc' j1 = (Inr (), j2)" by simp
  from reconcile_policy_run [OF this] v assms(3,4) show ?thesis by (auto simp: settled_def)
qed

definition reserved_journal :: journal where
  "reserved_journal = snd (reserve_policy 5 (sample_reserve ''a'') (new_journal ''i''))"

lemma sample_reconciled:
  "fst (reconcile_policy (sample_outcome ''a'') reserved_journal) = Inr ()"
  by code_simp

lemma reconcile_idempotent_witness:
  "tbl (snd (reconcile_policy (sample_outcome ''a'' \<lparr>oc_input := 99\<rparr>)
      (snd (reconcile_policy (sample_outcome ''a'') reserved_journal))))
   = tbl (snd (reconcile_policy (sample_outcome ''a'') reserved_journal))"
proof (rule reconcile_idempotent)
  show "reconcile_policy (sample_outcome ''a'') reserved_journal
     = (Inr (), snd (reconcile_policy (sample_outcome ''a'') reserved_journal))"
    using sample_reconciled by (simp add: prod_eq_iff)
qed (rule surjective_pairing, simp_all add: sample_outcome_def)

text \<open>Reconciliation replaces the estimate by what the provider reported: afterwards the
  reservation is marked reconciled and holds the reported input tokens, output tokens and tool
  calls, and the reserved estimate wherever the report says -1.\<close>

theorem reconcile_records_usage:
  assumes "reconcile_policy oc j = (Inr (), j')"
    and "select_reservation (oc_reservation_id oc) (oc_run_id oc) (tbl j) = Some old" "\<not> rv_reconciled old"
  shows "\<exists>new. select_reservation (oc_reservation_id oc) (oc_run_id oc) (tbl j') = Some new \<and>
     rv_reconciled new \<and> rv_input new = reported (rv_input old) (oc_input oc) \<and>
     rv_output new = reported (rv_output old) (oc_output oc) \<and>
     rv_tools new = reported (rv_tools old) (oc_tools oc) \<and>
     cost_val (rv_cost new) = (if oc_cost oc = [] then cost_val (rv_cost old) else cost_val (oc_cost oc))"
proof -
  from reconcile_policy_run [OF assms(1)] assms(2,3) have "settled oc (tbl j) (tbl j')" by auto
  then obtain oldc act rid a b c d where dec: "policy_decimal (rv_cost old) = Inr oldc"
    and act: "(if oc_cost oc \<noteq> [] then policy_decimal (oc_cost oc) else Inr oldc) = Inr act"
    and t': "tbl j' = set_reconciled (oc_reservation_id oc) (reported (rv_input old) (oc_input oc))
      (reported (rv_output old) (oc_output oc)) (reported (rv_tools old) (oc_tools oc)) (rat_string act)
      (set_run_totals rid a b c d (tbl j))"
    using assms(2) unfolding settled_def by auto
  have "0 \<le> act" using dec act by (auto dest: policy_decimal_nonneg split: if_splits)
  then have "cost_val (rat_string act) = act" by (rule cost_val_rat_string)
  moreover have "act = (if oc_cost oc = [] then cost_val (rv_cost old) else cost_val (oc_cost oc))"
    using dec act by (auto simp: cost_val_eq split: if_splits)
  ultimately show ?thesis using assms(2) by (simp add: t' select_set_reconciled)
qed

lemma sample_reserved_row:
  "select_reservation ''a'' ''r'' (tbl reserved_journal) =
    Some \<lparr>rv_id = ''a'', rv_run_id = ''r'', rv_input = 10, rv_output = 20, rv_tools = 1,
      rv_cost = ''1/2'', rv_reconciled = False\<rparr>"
  by code_simp

lemma reconcile_records_usage_witness:
  "\<exists>new. select_reservation ''a'' ''r'' (tbl (snd (reconcile_policy (sample_outcome ''a'') reserved_journal)))
       = Some new \<and> rv_input new = 12 \<and> rv_tools new = 1"
proof -
  have "reconcile_policy (sample_outcome ''a'') reserved_journal
     = (Inr (), snd (reconcile_policy (sample_outcome ''a'') reserved_journal))"
    using sample_reconciled by (simp add: prod_eq_iff)
  from reconcile_records_usage [OF this] show ?thesis
    using sample_reserved_row by (auto simp: sample_outcome_def reported_def)
qed

section \<open>Liveness of reservations\<close>

definition first_started :: "policy_reserve \<Rightarrow> tables \<Rightarrow> time" where
  "first_started r t = (case select_run (rs_run_id r) t of Some row \<Rightarrow> pr_started row | None \<Rightarrow> rs_started r)"

text \<open>The headroom a request needs, over the reservations of its run.\<close>

definition has_room :: "time \<Rightarrow> policy_reserve \<Rightarrow> tables \<Rightarrow> bool" where
  "has_room now r t \<longleftrightarrow> (let vs = of_run (rs_run_id r) t;
       i = sum_list (map rv_input vs) + rs_input r; u = sum_list (map rv_output vs) + rs_output r;
       k = sum_list (map rv_tools vs) + rs_tools r in
     rs_run_id r \<noteq> [] \<and> rs_reservation_id r \<noteq> [] \<and>
     0 \<le> rs_input r \<and> 0 \<le> rs_output r \<and> 0 \<le> rs_tools r \<and>
     i + u \<le> max_int64 \<and> k \<le> max_int64 \<and> int (length vs) < max_int64 \<and>
     is_ok (policy_decimal (rs_cost r)) \<and> is_ok (policy_decimal (rs_max_cost r)) \<and>
     (\<forall>v \<in> set (t_reservations t). rv_id v \<noteq> rs_reservation_id r) \<and>
     (rs_max_duration r > 0 \<longrightarrow> since now (first_started r t) \<le> duration_of_seconds (rs_max_duration r)) \<and>
     (rs_max_calls r > 0 \<longrightarrow> int (length vs) < rs_max_calls r) \<and>
     (rs_max_input r > 0 \<longrightarrow> i \<le> rs_max_input r) \<and>
     (rs_max_output r > 0 \<longrightarrow> u \<le> rs_max_output r) \<and>
     (rs_max_total r > 0 \<longrightarrow> i + u \<le> rs_max_total r) \<and>
     (rs_max_tools r > 0 \<longrightarrow> k \<le> rs_max_tools r) \<and>
     (rs_max_cost r \<noteq> [] \<longrightarrow>
        sum_list (map (\<lambda>v. cost_val (rv_cost v)) vs) + cost_val (rs_cost r) \<le> cost_val (rs_max_cost r)))"

lemma select_run_inserted: "\<exists>row. select_run rid (insert_or_ignore_run rid started t) = Some row"
proof (cases "\<exists>r \<in> set (t_runs t). pr_run_id r = rid")
  case True
  then have "select_run rid t \<noteq> None" by (auto simp: select_run_def first_row_None)
  with True show ?thesis by (simp add: insert_or_ignore_run_def)
next
  case False
  then show ?thesis by (simp add: insert_or_ignore_run_def select_run_def first_row_append split: option.split)
qed

lemma limit_check_passes:
  assumes "\<not> (rs_max_duration r > 0 \<and> since now (pr_started row) > duration_of_seconds (rs_max_duration r))"
    "\<not> (rs_max_calls r > 0 \<and> pr_calls row \<ge> rs_max_calls r)"
    "\<not> (rs_max_input r > 0 \<and> ni > rs_max_input r)"
    "\<not> (rs_max_output r > 0 \<and> no > rs_max_output r)"
    "\<not> (rs_max_total r > 0 \<and> tot > rs_max_total r)"
    "\<not> (rs_max_tools r > 0 \<and> nt > rs_max_tools r)"
    "\<not> (rs_max_cost r \<noteq> [] \<and> nc > cap)"
  shows "limit_check now r row ni no nt tot nc cap = None"
  unfolding limit_check_def assms [THEN if_not_P] ..

lemma select_run_first_started:
  "select_run (rs_run_id r) (insert_or_ignore_run (rs_run_id r) (rs_started r) t) = Some row \<Longrightarrow>
   pr_started row = first_started r t"
proof (cases "\<exists>x \<in> set (t_runs t). pr_run_id x = rs_run_id r")
  case True
  moreover assume "select_run (rs_run_id r) (insert_or_ignore_run (rs_run_id r) (rs_started r) t) = Some row"
  ultimately show ?thesis by (simp add: insert_or_ignore_run_def first_started_def)
next
  case False
  then have "select_run (rs_run_id r) t = None" by (simp add: select_run_def first_row_None)
  moreover assume "select_run (rs_run_id r) (insert_or_ignore_run (rs_run_id r) (rs_started r) t) = Some row"
  ultimately show ?thesis
    using False by (auto simp: insert_or_ignore_run_def first_started_def select_run_def first_row_append)
qed

text \<open>A call that fits is let through: with a working driver, a fresh reservation identifier and
  room under every cap, the duration of the run included, \<open>ReservePolicy\<close> admits the call and
  numbers it by its position in the run.\<close>

theorem fitting_call_admitted:
  assumes "faults j = []" "ledger_ok (tbl j)" "has_room now r (tbl j)"
  shows "\<exists>j'. reserve_policy now r j = (Inr (block_result [] [] (calls_of (rs_run_id r) (tbl j) + 1) 0), j')"
proof -
  let ?t1 = "insert_or_ignore_run (rs_run_id r) (rs_started r) (tbl j)"
  let ?vs = "of_run (rs_run_id r) (tbl j)"
  obtain row where row: "select_run (rs_run_id r) ?t1 = Some row" using select_run_inserted by blast
  have ok1: "ledger_ok ?t1" using assms(2) by (rule ledger_insert_or_ignore)
  note b = ledger_row_bounds [OF ok1 row]
  from insert_or_ignore_balanced [OF assms(2) row]
  have bal: "pr_calls row = int (length ?vs)" "pr_input row = sum_list (map rv_input ?vs)"
     "pr_output row = sum_list (map rv_output ?vs)" "pr_tools row = sum_list (map rv_tools ?vs)"
     "policy_decimal (pr_cost row) = Inr (sum_list (map (\<lambda>v. cost_val (rv_cost v)) ?vs))"
    by (simp_all add: run_balanced_def)
  note room = assms(3) [unfolded has_room_def Let_def, folded bal(1-4)]
  have le: "rs_input r \<le> max_int64" "rs_output r \<le> max_int64" "rs_tools r \<le> max_int64"
    "rs_input r + rs_output r \<le> max_int64" "pr_input row + rs_input r \<le> max_int64"
    "pr_output row + rs_output r \<le> max_int64"
    using room b by linarith+
  from room have sums: "pr_input row + rs_input r + (pr_output row + rs_output r) \<le> max_int64"
    "pr_tools row + rs_tools r \<le> max_int64" and nn: "0 \<le> rs_input r" "0 \<le> rs_output r" "0 \<le> rs_tools r"
    by blast+
  have adds: "checked_add [rs_input r, rs_output r] = Inr (rs_input r + rs_output r)"
    "checked_add [pr_input row, rs_input r] = Inr (pr_input row + rs_input r)"
    "checked_add [pr_output row, rs_output r] = Inr (pr_output row + rs_output r)"
    "checked_add [pr_tools row, rs_tools r] = Inr (pr_tools row + rs_tools r)"
    "checked_add [pr_input row + rs_input r, pr_output row + rs_output r]
      = Inr (pr_input row + rs_input r + (pr_output row + rs_output r))"
    using sums nn b(2-) le by (simp_all add: checked_add2)
  obtain est cap where dec: "policy_decimal (rs_cost r) = Inr est" "policy_decimal (rs_max_cost r) = Inr cap"
    using room unfolding is_ok_iff by blast
  have cv: "cost_val (rs_cost r) = est" "cost_val (rs_max_cost r) = cap" using dec by (simp_all add: cost_val_eq)
  have dur: "rs_max_duration r > 0 \<longrightarrow> since now (pr_started row) \<le> duration_of_seconds (rs_max_duration r)"
    using room select_run_first_started [OF row] by simp
  have caps: "rs_max_calls r > 0 \<longrightarrow> pr_calls row < rs_max_calls r"
     "rs_max_input r > 0 \<longrightarrow> pr_input row + rs_input r \<le> rs_max_input r"
     "rs_max_output r > 0 \<longrightarrow> pr_output row + rs_output r \<le> rs_max_output r"
     "rs_max_total r > 0 \<longrightarrow> pr_input row + rs_input r + (pr_output row + rs_output r) \<le> rs_max_total r"
     "rs_max_tools r > 0 \<longrightarrow> pr_tools row + rs_tools r \<le> rs_max_tools r"
     "rs_max_cost r \<noteq> [] \<longrightarrow> sum_list (map (\<lambda>v. cost_val (rv_cost v)) ?vs) + est \<le> cap"
    using room unfolding cv by blast+
  have lim: "limit_check now r row (pr_input row + rs_input r) (pr_output row + rs_output r)
     (pr_tools row + rs_tools r) (pr_input row + rs_input r + (pr_output row + rs_output r))
     (sum_list (map (\<lambda>v. cost_val (rv_cost v)) ?vs) + est) cap = None"
    using dur caps by (intro limit_check_passes) auto
  have new: "\<not> (\<exists>v \<in> set (t_reservations (tbl j)). rv_id v = rs_reservation_id r)"
    and ids: "rs_run_id r \<noteq> []" "rs_reservation_id r \<noteq> []" and calls: "pr_calls row \<noteq> max_int64"
    using room by auto
  have "t_reservations (charge_run r d ?t1) = t_reservations (tbl j)" for d
    by (simp add: charge_run_def insert_or_ignore_run_def)
  with new have fresh: "\<exists>t'. insert_reservation r c (charge_run r d ?t1) = Inr ((), t')" for c d
    by (simp add: insert_reservation_def)
  obtain t' where t': "insert_reservation r (rat_string est) (charge_run r
      (rat_string (sum_list (map (\<lambda>v. cost_val (rv_cost v)) ?vs) + est)) ?t1) = Inr ((), t')"
    using fresh by blast
  have "reserve_body now r est cap j = (Inr (True, block_result [] [] (pr_calls row + 1) 0), j\<lparr>tbl := t'\<rparr>)"
    using assms(1) row bal(5) adds lim calls t' by (simp add: reserve_body_def bindE_def)
  then have "tx (reserve_body now r est cap) j = (Inr (block_result [] [] (pr_calls row + 1) 0), j\<lparr>tbl := t'\<rparr>)"
    using assms(1) by (simp add: tx_none)
  then have "reserve_policy now r j = (Inr (block_result [] [] (pr_calls row + 1) 0), j\<lparr>tbl := t'\<rparr>)"
    using ids nn adds(1) dec by (simp add: reserve_policy_def bindE_def)
  then show ?thesis by (auto simp: bal(1) calls_of_def)
qed

lemma fitting_call_admitted_witness:
  "\<exists>j'. reserve_policy 5 (sample_reserve ''a'') (new_journal ''i'') = (Inr (block_result [] [] 1 0), j')"
proof -
  have "has_room 5 (sample_reserve ''a'') (tbl (new_journal ''i''))" by code_simp
  from fitting_call_admitted [OF _ _ this] show ?thesis
    by (simp add: new_journal_def ledger_ok_empty calls_of_def of_run_def t_reservations_empty)
qed

text \<open>
  The duration cap is an \<open>int64\<close> product of nanoseconds: a cap above 9223372036 seconds wraps
  to a negative duration, and the very first call of such a run is blocked.
\<close>

lemma duration_cap_overflow:
  "rr_reason (projr (fst (reserve_policy 0 (sample_reserve ''a'' \<lparr>rs_max_duration := 9223372037\<rparr>)
     (new_journal ''i'')))) = ''duration_limit''"
  by code_simp

section \<open>Daily counters are exact\<close>

definition daily_ok :: "tables \<Rightarrow> bool" where
  "daily_ok t \<longleftrightarrow> distinct_on dc_day (t_daily t) \<and>
     (\<forall>d \<in> set (t_daily t). 0 \<le> dc_calls d \<and> is_ok (policy_decimal (dc_cost d)))"

definition daily_total :: "string \<Rightarrow> tables \<Rightarrow> int \<times> rat" where
  "daily_total day t = (case select_daily day t of None \<Rightarrow> (0, 0) | Some d \<Rightarrow> (dc_calls d, cost_val (dc_cost d)))"

lemma select_daily_Some: "select_daily day t = Some d \<Longrightarrow> d \<in> set (t_daily t) \<and> dc_day d = day"
  unfolding select_daily_def by (drule first_row_Some) simp

lemma daily_insert:
  assumes "daily_ok t" "select_daily day t = None" "0 \<le> c"
  shows "daily_ok (insert_daily day (rat_string c) t)"
    "daily_total x (insert_daily day (rat_string c) t) = (if x = day then (1, c) else daily_total x t)"
proof -
  have none: "\<forall>d \<in> set (t_daily t). dc_day d \<noteq> day"
    using assms(2) by (simp add: select_daily_def first_row_None)
  with assms show "daily_ok (insert_daily day (rat_string c) t)"
    by (auto simp: daily_ok_def insert_daily_def distinct_on_append_one policy_decimal_rat_string)
  have "select_daily x (insert_daily day (rat_string c) t) = (case select_daily x t of
      None \<Rightarrow> if day = x then Some \<lparr>dc_day = day, dc_calls = 1, dc_cost = rat_string c\<rparr> else None
    | Some d \<Rightarrow> Some d)"
    by (simp add: select_daily_def insert_daily_def first_row_append split: option.split)
  with assms show "daily_total x (insert_daily day (rat_string c) t) = (if x = day then (1, c) else daily_total x t)"
    by (auto simp: daily_total_def cost_val_rat_string split: option.split)
qed

lemma daily_update:
  assumes "daily_ok t" "select_daily day t = Some d" "0 \<le> c"
  shows "daily_ok (update_daily day (rat_string c) t)"
    "daily_total x (update_daily day (rat_string c) t) = (if x = day then (dc_calls d + 1, c) else daily_total x t)"
proof -
  show "daily_ok (update_daily day (rat_string c) t)"
    using assms(1,3) by (auto simp: daily_ok_def update_daily_def set_update_where policy_decimal_rat_string
      intro: distinct_on_update)
  have "select_daily x (update_daily day (rat_string c) t) =
     map_option (\<lambda>d. if dc_day d = day then d\<lparr>dc_calls := dc_calls d + 1, dc_cost := rat_string c\<rparr> else d)
       (select_daily x t)"
    unfolding select_daily_def update_daily_def by (simp add: first_row_update_where)
  with assms(2,3) show "daily_total x (update_daily day (rat_string c) t) =
      (if x = day then (dc_calls d + 1, c) else daily_total x t)"
    by (auto simp: daily_total_def cost_val_rat_string dest: select_daily_Some split: option.splits)
qed

lemma increment_daily_tx_run:
  assumes "increment_daily_counters_tx now c j = (Inr u, j')" "daily_ok (tbl j)"
  shows "daily_ok (tbl j')"
    "daily_total day (tbl j') = (if day = utc_day now
       then (fst (daily_total day (tbl j)) + 1, snd (daily_total day (tbl j)) + cost_val c)
       else daily_total day (tbl j))"
    "\<exists>ds. tbl j' = (tbl j)\<lparr>t_daily := ds\<rparr>"
proof -
  from assms(1) obtain cost row j3 where cost: "policy_decimal c = Inr cost"
    and q: "query (select_daily (utc_day now)) j = (Inr row, j3)"
    and k: "(case row of
       None \<Rightarrow> exec_stmt (\<lambda>t. Inr ((), insert_daily (utc_day now) (rat_string cost) t))
     | Some d \<Rightarrow> bindE (of_res (policy_decimal (dc_cost d))) (\<lambda>existing.
         exec_stmt (\<lambda>t. Inr ((), update_daily (utc_day now) (rat_string (existing + cost)) t)))) j3 = (Inr (), j')"
    by (auto simp: increment_daily_counters_tx_def run_simps)
  from query_run [OF q] have row: "row = select_daily (utc_day now) (tbl j)" "tbl j3 = tbl j" by simp_all
  have c: "cost_val c = cost" "0 \<le> cost" using cost by (auto simp: cost_val_eq dest: policy_decimal_nonneg)
  have "daily_ok (tbl j') \<and> daily_total day (tbl j') = (if day = utc_day now
       then (fst (daily_total day (tbl j)) + 1, snd (daily_total day (tbl j)) + cost_val c)
       else daily_total day (tbl j)) \<and> (\<exists>ds. tbl j' = (tbl j)\<lparr>t_daily := ds\<rparr>)"
  proof (cases row)
    case None
    with k row have t: "tbl j' = insert_daily (utc_day now) (rat_string cost) (tbl j)"
      by (auto dest: exec_stmt_run)
    then have "\<exists>ds. tbl j' = (tbl j)\<lparr>t_daily := ds\<rparr>" by (auto simp: insert_daily_def)
    with t None row c assms(2) show ?thesis
      using daily_insert [of "tbl j" "utc_day now" cost] by (auto simp: daily_total_def [of "utc_day now" "tbl j"])
  next
    case (Some d)
    then obtain e where e: "policy_decimal (dc_cost d) = Inr e"
      and t: "tbl j' = update_daily (utc_day now) (rat_string (e + cost)) (tbl j)"
      using k row by (auto simp: run_simps dest: exec_stmt_run)
    then have "\<exists>ds. tbl j' = (tbl j)\<lparr>t_daily := ds\<rparr>" by (auto simp: update_daily_def)
    moreover have "0 \<le> e" "cost_val (dc_cost d) = e" using e by (auto simp: cost_val_eq dest: policy_decimal_nonneg)
    ultimately show ?thesis using t Some row c assms(2)
      daily_update [of "tbl j" "utc_day now" d "e + cost"] by (auto simp: daily_total_def [of "utc_day now" "tbl j"])
  qed
  then show "daily_ok (tbl j')" "daily_total day (tbl j') = (if day = utc_day now
       then (fst (daily_total day (tbl j)) + 1, snd (daily_total day (tbl j)) + cost_val c)
       else daily_total day (tbl j))" "\<exists>ds. tbl j' = (tbl j)\<lparr>t_daily := ds\<rparr>" by simp_all
qed

lemma increment_daily_run:
  assumes "increment_daily_counters now c j = (Inr (), j')" "daily_ok (tbl j)"
  shows "daily_ok (tbl j')"
    "daily_total day (tbl j') = (if day = utc_day now
       then (fst (daily_total day (tbl j)) + 1, snd (daily_total day (tbl j)) + cost_val c)
       else daily_total day (tbl j))"
proof -
  from tx_run [OF assms(1) [unfolded increment_daily_counters_def]] obtain j1 j2 where
    b: "tbl j1 = tbl j" "increment_daily_counters_tx now c j1 = (Inr (), j2)" "tbl j' = tbl j2"
    by (auto simp: run_simps)
  have ok: "daily_ok (tbl j1)" using assms(2) b(1) by simp
  from increment_daily_tx_run(1,2) [OF b(2) ok] b(1,3)
  show "daily_ok (tbl j')" "daily_total day (tbl j') = (if day = utc_day now
       then (fst (daily_total day (tbl j)) + 1, snd (daily_total day (tbl j)) + cost_val c)
       else daily_total day (tbl j))" by simp_all
qed

lemma increment_daily_error:
  "increment_daily_counters now c j = (Inl e, j') \<Longrightarrow> tbl j' = tbl j"
  unfolding increment_daily_counters_def by (rule tx_error_rolls_back)

text \<open>A sequence of calls, and the increments among them that succeeded on a given day.\<close>

fun run_daily :: "(time \<times> string) list \<Rightarrow> journal \<Rightarrow> journal" where
  "run_daily [] j = j"
| "run_daily ((now, c) # cs) j = run_daily cs (snd (increment_daily_counters now c j))"

fun daily_charges :: "string \<Rightarrow> (time \<times> string) list \<Rightarrow> journal \<Rightarrow> string list" where
  "daily_charges day [] j = []"
| "daily_charges day ((now, c) # cs) j =
     (if is_ok (fst (increment_daily_counters now c j)) \<and> utc_day now = day then [c] else [])
     @ daily_charges day cs (snd (increment_daily_counters now c j))"

text \<open>The daily counter of an installation is exact: after any sequence of increments, with
  driver failures anywhere, the calls and the cost of a UTC day are what they were before plus the
  number and the exact rational sum of the increments that succeeded on that day, and midnight
  starts a new counter.\<close>

theorem daily_counter_exact:
  assumes "daily_ok (tbl j)"
  shows "daily_total day (tbl (run_daily cs j)) =
    (fst (daily_total day (tbl j)) + int (length (daily_charges day cs j)),
     snd (daily_total day (tbl j)) + sum_list (map cost_val (daily_charges day cs j)))"
  using assms
proof (induction cs arbitrary: j)
  case Nil
  then show ?case by simp
next
  case (Cons a cs)
  obtain now c where a: "a = (now, c)" by (cases a) auto
  obtain x j1 where r: "increment_daily_counters now c j = (x, j1)" by (cases "increment_daily_counters now c j") auto
  show ?case
  proof (cases x)
    case (Inl e)
    with r have "tbl j1 = tbl j" by (auto dest: increment_daily_error)
    with Cons Inl a r show ?thesis by simp
  next
    case (Inr u)
    with r have "increment_daily_counters now c j = (Inr (), j1)" by simp
    note s = increment_daily_run [OF this Cons.prems]
    from Cons.IH [OF s(1)] Inr a r s(2) show ?thesis by simp
  qed
qed

lemma daily_counter_exact_witness:
  "daily_total ''1970-01-02'' (tbl (run_daily
     [(86400000000000, ''0.25''), (1, ''7''), (86400000000009, ''0.5'')] (new_journal ''i''))) = (2, 3 / 4)"
proof -
  have "daily_ok (tbl (new_journal ''i''))" by (simp add: daily_ok_def new_journal_def empty_tables_def)
  from daily_counter_exact [OF this] show ?thesis by code_simp
qed

end
