(* ===== verification/Execution_Store.thy ===== *)
theory Execution_Store
  imports Policy_Counters "HOL-Library.Multiset"
begin

text \<open>
  \<open>internal/storage/executions.go\<close>: the durable lifecycle rows of supervised runs. Each
  operation is one guarded \<open>UPDATE\<close> (or \<open>INSERT\<close>) whose \<open>WHERE\<close> clause is the guard of a
  transition; \<open>exec_step\<close> is the state machine those guards are meant to implement, and the
  theorems show that they do, for any sequence of operations and driver failures.
\<close>

section \<open>Requests\<close>

text \<open>\<open>ExecutionResult\<close> and \<open>PolicyBlockNotice\<close> of \<open>executions/types.go\<close>; a state and a termination
  status are strings until the store has checked them.\<close>

record execution_result =
  fr_run_id :: string
  fr_state :: string
  fr_ended :: time
  fr_exit_code :: int
  fr_stop_reason :: string
  fr_term_status :: string
  fr_term_code :: string

record policy_block_notice =
  pb_run_id :: string
  pb_reason :: string
  pb_policy :: string
  pb_attempt :: int
  pb_threshold :: int
  pb_estimate :: string
  pb_occurred :: time
  pb_persistence_failed :: bool

fun state_name :: "exec_state \<Rightarrow> string" where
  "state_name StateStarting = ''starting''"
| "state_name StateRunning = ''running''"
| "state_name StateCompleted = ''completed''"
| "state_name StateFailed = ''failed''"
| "state_name StateBlocked = ''blocked''"
| "state_name StateDeadline = ''deadline''"
| "state_name StateInterrupted = ''interrupted''"
| "state_name StateGatewayFailed = ''gateway_failed''"
| "state_name StateTerminationFailed = ''termination_failed''"

fun term_name :: "term_status \<Rightarrow> string" where
  "term_name TerminationNotRequired = ''not_required''"
| "term_name TerminationSucceeded = ''succeeded''"
| "term_name TerminationFailed = ''failed''"

definition all_states :: "exec_state list" where
  "all_states = [StateStarting, StateRunning, StateCompleted, StateFailed, StateBlocked, StateDeadline,
     StateInterrupted, StateGatewayFailed, StateTerminationFailed]"

definition all_terms :: "term_status list" where
  "all_terms = [TerminationNotRequired, TerminationSucceeded, TerminationFailed]"

definition parse_state :: "string \<Rightarrow> exec_state option" where
  "parse_state s = first_row (\<lambda>x. state_name x = s) all_states"

definition parse_term :: "string \<Rightarrow> term_status option" where
  "parse_term s = first_row (\<lambda>x. term_name x = s) all_terms"

definition valid_termination_status :: "string \<Rightarrow> bool" where
  "valid_termination_status s \<longleftrightarrow> s = [] \<or> parse_term s \<noteq> None"

definition normalized_termination_code :: "string \<Rightarrow> bool" where
  "normalized_termination_code code \<longleftrightarrow> (case code of
     [] \<Rightarrow> False
   | c # cs \<Rightarrow> length code \<le> 64 \<and> is_lower c \<and>
       list_all (\<lambda>d. is_lower d \<or> is_digit d \<or> d = CHR ''_'') cs)"

text \<open>\<open>NULLIF(?, '')\<close>\<close>

definition nullif :: "string \<Rightarrow> string option" where
  "nullif s = (if s = [] then None else Some s)"

section \<open>Operations\<close>

definition execution_update_result :: "string \<Rightarrow> nat sql \<Rightarrow> unit sql" where
  "execution_update_result action m = (\<lambda>j. case m j of
     (Inl e, j') \<Rightarrow> (Inl (Wrapf action e), j')
   | (Inr rows, j') \<Rightarrow> (if rows \<noteq> 1 then Inl (Wrapf action ErrInvalidTransition) else Inr (), j'))"

definition update_executions :: "(execution \<Rightarrow> bool) \<Rightarrow> (execution \<Rightarrow> execution) \<Rightarrow> nat sql" where
  "update_executions P f = exec_stmt (\<lambda>t. Inr (count_where P (t_executions t),
     t\<lparr>t_executions := update_where P f (t_executions t)\<rparr>))"

definition starting_row :: "string \<Rightarrow> time \<Rightarrow> execution" where
  "starting_row rid started = \<lparr>ex_run_id = rid, ex_state = StateStarting, ex_started = started,
     ex_ended = None, ex_exit_code = None, ex_stop_reason = None, ex_policy = None, ex_policy_reason = None,
     ex_policy_attempt = None, ex_policy_threshold = None, ex_blocked_estimate = None,
     ex_term_status = None, ex_term_code = None\<rparr>"

definition insert_execution :: "string \<Rightarrow> time \<Rightarrow> nat sql" where
  "insert_execution rid started = exec_stmt (\<lambda>t.
     if \<exists>x \<in> set (t_executions t). ex_run_id x = rid then Inr (0, t)
     else Inr (1, t\<lparr>t_executions := t_executions t @ [starting_row rid started]\<rparr>))"

definition start_execution :: "string \<Rightarrow> time \<Rightarrow> unit sql" where
  "start_execution rid started =
     (if rid = [] \<or> started = zero_time then fail (Errorf ''start execution: invalid run ID or time'')
      else (\<lambda>j. case insert_execution rid started j of
          (Inl e, j') \<Rightarrow> (Inl (Wrapf ''start execution'' e), j')
        | (Inr rows, j') \<Rightarrow> (if rows = 0 then Inl ErrRunExists else Inr (), j')))"

definition mark_execution_running :: "string \<Rightarrow> unit sql" where
  "mark_execution_running rid = execution_update_result ''mark execution running''
     (update_executions (\<lambda>x. ex_run_id x = rid \<and> ex_state x = StateStarting)
        (\<lambda>x. x\<lparr>ex_state := StateRunning\<rparr>))"

definition invalid_notice :: "policy_block_notice \<Rightarrow> bool" where
  "invalid_notice n \<longleftrightarrow> pb_run_id n = [] \<or> pb_policy n = [] \<or> pb_reason n = [] \<or> pb_attempt n < 0 \<or>
     pb_threshold n < 0 \<or> pb_occurred n = zero_time"

definition set_blocked :: "policy_block_notice \<Rightarrow> execution \<Rightarrow> execution" where
  "set_blocked n x = x\<lparr>ex_state := StateBlocked, ex_policy := Some (pb_policy n),
     ex_policy_reason := Some (pb_reason n), ex_policy_attempt := Some (pb_attempt n),
     ex_policy_threshold := Some (pb_threshold n), ex_blocked_estimate := nullif (pb_estimate n)\<rparr>"

definition block_execution :: "policy_block_notice \<Rightarrow> unit sql" where
  "block_execution n =
     (if invalid_notice n then fail (Errorf ''block execution: invalid policy notice'')
      else execution_update_result ''block execution''
        (update_executions (\<lambda>x. ex_run_id x = pb_run_id n \<and> ex_state x = StateRunning) (set_blocked n)))"

definition set_ended :: "execution_result \<Rightarrow> execution \<Rightarrow> execution" where
  "set_ended r x = x\<lparr>ex_ended := Some (fr_ended r), ex_exit_code := Some (fr_exit_code r),
     ex_stop_reason := nullif (fr_stop_reason r)\<rparr>"

definition finish_update :: "execution_result \<Rightarrow> nat sql res" where
  "finish_update r = (case parse_state (fr_state r) of
     Some StateBlocked \<Rightarrow>
       (if fr_term_status r \<noteq> term_name TerminationSucceeded \<or> fr_term_code r \<noteq> []
        then Inl (Errorf ''finish execution: invalid blocked termination'')
        else Inr (update_executions
          (\<lambda>x. ex_run_id x = fr_run_id r \<and> ex_state x = StateBlocked \<and> ex_term_status x = None)
          (\<lambda>x. (set_ended r x)\<lparr>ex_term_status := Some TerminationSucceeded\<rparr>)))
   | Some StateTerminationFailed \<Rightarrow>
       (if fr_term_status r \<noteq> term_name TerminationFailed \<or> \<not> normalized_termination_code (fr_term_code r)
        then Inl (Errorf ''finish execution: invalid failed termination'')
        else Inr (update_executions
          (\<lambda>x. ex_run_id x = fr_run_id r \<and> ex_state x \<in> {StateStarting, StateBlocked, StateRunning} \<and>
               ex_term_status x = None)
          (\<lambda>x. (set_ended r x)\<lparr>ex_state := StateTerminationFailed, ex_term_status := Some TerminationFailed,
               ex_term_code := Some (fr_term_code r)\<rparr>)))
   | Some s \<Rightarrow>
       (if s \<in> {StateCompleted, StateFailed, StateDeadline, StateInterrupted, StateGatewayFailed} then
          (if fr_term_status r = term_name TerminationFailed \<or> fr_term_code r \<noteq> []
           then Inl (Errorf ''finish execution: failed termination requires termination_failed state'')
           else Inr (update_executions
             (\<lambda>x. ex_run_id x = fr_run_id r \<and>
                (if s = StateFailed then ex_state x \<in> {StateStarting, StateRunning} else ex_state x = StateRunning))
             (\<lambda>x. (set_ended r x)\<lparr>ex_state := s, ex_term_status := parse_term (fr_term_status r),
                ex_term_code := nullif (fr_term_code r)\<rparr>)))
        else Inl (Wrapf ''finish execution'' ErrInvalidTransition))
   | None \<Rightarrow> Inl (Wrapf ''finish execution'' ErrInvalidTransition))"

definition finish_execution :: "execution_result \<Rightarrow> unit sql" where
  "finish_execution r =
     (if fr_run_id r = [] \<or> fr_ended r = zero_time \<or> \<not> valid_termination_status (fr_term_status r)
      then fail (Errorf ''finish execution: invalid result'')
      else (case finish_update r of
          Inl e \<Rightarrow> fail e
        | Inr m \<Rightarrow> execution_update_result ''finish execution'' m))"

definition recover_body :: "time \<Rightarrow> (bool \<times> unit) sql" where
  "recover_body now = bindE (update_executions (\<lambda>x. ex_state x \<in> {StateStarting, StateRunning})
     (\<lambda>x. x\<lparr>ex_state := StateInterrupted, ex_ended := Some now, ex_stop_reason := Some ''virgil_restart''\<rparr>))
     (\<lambda>_. ret (True, ()))"

definition recover_executions :: "time \<Rightarrow> unit sql" where
  "recover_executions now =
     (if now = zero_time then fail (Errorf ''recover executions: invalid time'')
      else (\<lambda>j. case tx (recover_body now) j of
          (Inl e, j') \<Rightarrow> (Inl (Wrapf ''execution recovery'' e), j')
        | (Inr u, j') \<Rightarrow> (Inr u, j')))"

section \<open>Reading executions\<close>

text \<open>What \<open>scanExecution\<close> makes of a row: a NULL text is the empty string.\<close>

record execution_view =
  xv_run_id :: string
  xv_state :: exec_state
  xv_started :: time
  xv_ended :: "time option"
  xv_exit_code :: "int option"
  xv_stop_reason :: string
  xv_policy :: string
  xv_policy_reason :: string
  xv_policy_attempt :: "int option"
  xv_policy_threshold :: "int option"
  xv_blocked_estimate :: string
  xv_term_status :: string
  xv_term_code :: string

definition text_or_empty :: "string option \<Rightarrow> string" where
  "text_or_empty x = (case x of None \<Rightarrow> [] | Some s \<Rightarrow> s)"

definition scan_execution :: "execution \<Rightarrow> execution_view" where
  "scan_execution x = \<lparr>xv_run_id = ex_run_id x, xv_state = ex_state x, xv_started = ex_started x,
     xv_ended = ex_ended x, xv_exit_code = ex_exit_code x, xv_stop_reason = text_or_empty (ex_stop_reason x),
     xv_policy = text_or_empty (ex_policy x), xv_policy_reason = text_or_empty (ex_policy_reason x),
     xv_policy_attempt = ex_policy_attempt x, xv_policy_threshold = ex_policy_threshold x,
     xv_blocked_estimate = text_or_empty (ex_blocked_estimate x),
     xv_term_status = text_or_empty (map_option term_name (ex_term_status x)),
     xv_term_code = text_or_empty (ex_term_code x)\<rparr>"

definition select_execution :: "string \<Rightarrow> tables \<Rightarrow> execution option" where
  "select_execution rid t = first_row (\<lambda>x. ex_run_id x = rid) (t_executions t)"

definition get_execution :: "string \<Rightarrow> execution_view sql" where
  "get_execution rid = (\<lambda>j. case query_row (select_execution rid) j of
     (Inl e, j') \<Rightarrow> (Inl (if errors_is e ErrNoRows then ErrRunNotFound else Wrapf ''get execution'' e), j')
   | (Inr x, j') \<Rightarrow> (Inr (scan_execution x), j'))"

text \<open>
  \<open>ORDER BY started_at_unix_ns DESC, run_id DESC\<close>: the sort key of a row, ordered so that the
  smallest key is the newest row.
\<close>

datatype exec_key = ExecKey time string

fun text_le :: "string \<Rightarrow> string \<Rightarrow> bool" where
  "text_le [] _ = True"
| "text_le (_ # _) [] = False"
| "text_le (a # s) (b # t) = (a < b \<or> (a = b \<and> text_le s t))"

lemma text_le_refl [simp]: "text_le s s"
  by (induction s) simp_all

lemma text_le_antisym: "text_le s t \<Longrightarrow> text_le t s \<Longrightarrow> s = t"
  by (induction s t rule: text_le.induct) (auto elim: text_le.elims)

lemma text_le_trans: "text_le s t \<Longrightarrow> text_le t u \<Longrightarrow> text_le s u"
proof (induction s t arbitrary: u rule: text_le.induct)
  case (3 a s b t)
  then show ?case by (cases u) (auto simp del: less_char_def)
qed auto

lemma text_le_total: "text_le s t \<or> text_le t s"
  by (induction s t rule: text_le.induct) auto

instantiation exec_key :: linorder
begin

fun less_eq_exec_key :: "exec_key \<Rightarrow> exec_key \<Rightarrow> bool" where
  "less_eq_exec_key (ExecKey s r) (ExecKey s' r') = (s' < s \<or> (s' = s \<and> text_le r' r))"

definition less_exec_key :: "exec_key \<Rightarrow> exec_key \<Rightarrow> bool" where
  "less_exec_key a b \<longleftrightarrow> a \<le> b \<and> \<not> b \<le> (a :: exec_key)"

instance
proof
  fix x y z :: exec_key
  show "x < y \<longleftrightarrow> x \<le> y \<and> \<not> y \<le> x" by (rule less_exec_key_def)
  show "x \<le> x" by (cases x) simp
  show "x \<le> y \<Longrightarrow> y \<le> z \<Longrightarrow> x \<le> z"
    by (cases x; cases y; cases z) (auto intro: text_le_trans)
  show "x \<le> y \<Longrightarrow> y \<le> x \<Longrightarrow> x = y"
    by (cases x; cases y) (auto intro: text_le_antisym)
  show "x \<le> y \<or> y \<le> x"
    by (cases x; cases y) (use text_le_total in auto)
qed

end

definition exec_key_of :: "execution \<Rightarrow> exec_key" where
  "exec_key_of x = ExecKey (ex_started x) (ex_run_id x)"

record execution_filter =
  xf_state :: string
  xf_since :: time
  xf_limit :: int

definition matches_filter :: "execution_filter \<Rightarrow> execution \<Rightarrow> bool" where
  "matches_filter f x \<longleftrightarrow> (xf_state f = [] \<or> state_name (ex_state x) = xf_state f) \<and>
     (let since = (if xf_since f = zero_time then 0 else xf_since f) in since = 0 \<or> ex_started x \<ge> since)"

definition select_executions :: "execution_filter \<Rightarrow> tables \<Rightarrow> execution list" where
  "select_executions f t =
     take (nat (xf_limit f)) (sort_key exec_key_of (filter (matches_filter f) (t_executions t)))"

definition list_executions_filtered :: "execution_filter \<Rightarrow> execution_view list sql" where
  "list_executions_filtered f =
     (if xf_limit f \<le> 0 then fail (Errorf ''list executions: limit must be positive'')
      else if xf_state f \<noteq> [] \<and> parse_state (xf_state f) = None
        then fail (Errorf ''list executions: invalid state'')
      else (\<lambda>j. case query (select_executions f) j of
          (Inl e, j') \<Rightarrow> (Inl (Wrapf ''list executions'' e), j')
        | (Inr rows, j') \<Rightarrow> (Inr (map scan_execution rows), j')))"

definition list_executions :: "int \<Rightarrow> execution_view list sql" where
  "list_executions limit = list_executions_filtered \<lparr>xf_state = [], xf_since = zero_time, xf_limit = limit\<rparr>"

section \<open>The lifecycle\<close>

text \<open>
  The lifecycle as a step relation on rows. A row is created starting; it runs; it is blocked at
  most once by the circuit breaker; it ends, by the runner's report or by the recovery after a
  restart. A blocked row takes one more step, the outcome of stopping the process tree.
\<close>

definition ended_with :: "execution \<Rightarrow> exec_state \<Rightarrow> execution \<Rightarrow> bool" where
  "ended_with x s y \<longleftrightarrow> ex_run_id y = ex_run_id x \<and> ex_started y = ex_started x \<and> ex_state y = s \<and>
     ex_ended y \<noteq> None \<and> ex_policy y = ex_policy x \<and> ex_policy_reason y = ex_policy_reason x \<and>
     ex_policy_attempt y = ex_policy_attempt x \<and> ex_policy_threshold y = ex_policy_threshold x \<and>
     ex_blocked_estimate y = ex_blocked_estimate x"

inductive exec_step :: "execution \<Rightarrow> execution \<Rightarrow> bool" where
  run: "ex_state x = StateStarting \<Longrightarrow> exec_step x (x\<lparr>ex_state := StateRunning\<rparr>)"
| block: "ex_state x = StateRunning \<Longrightarrow> \<not> invalid_notice n \<Longrightarrow> exec_step x (set_blocked n x)"
| finish: "ex_state x = StateRunning \<Longrightarrow>
    s \<in> {StateCompleted, StateFailed, StateDeadline, StateInterrupted, StateGatewayFailed} \<Longrightarrow>
    ended_with x s y \<Longrightarrow> ex_term_status y \<noteq> Some TerminationFailed \<Longrightarrow> ex_term_code y = None \<Longrightarrow>
    exec_step x y"
| never_ran: "ex_state x = StateStarting \<Longrightarrow> s \<in> {StateFailed, StateInterrupted} \<Longrightarrow>
    ended_with x s y \<Longrightarrow> ex_term_status y \<noteq> Some TerminationFailed \<Longrightarrow> ex_term_code y = None \<Longrightarrow>
    exec_step x y"
| stopped: "ex_state x = StateBlocked \<Longrightarrow> ex_term_status x = None \<Longrightarrow> ended_with x StateBlocked y \<Longrightarrow>
    ex_term_status y = Some TerminationSucceeded \<Longrightarrow> ex_term_code y = ex_term_code x \<Longrightarrow> exec_step x y"
| stop_failed: "ex_state x \<in> {StateStarting, StateRunning, StateBlocked} \<Longrightarrow> ex_term_status x = None \<Longrightarrow>
    ended_with x StateTerminationFailed y \<Longrightarrow> ex_term_status y = Some TerminationFailed \<Longrightarrow>
    ex_term_code y = Some code \<Longrightarrow> normalized_termination_code code \<Longrightarrow> exec_step x y"

inductive_cases exec_stepE: "exec_step x y"
inductive_simps exec_step_from_running: "exec_step (x\<lparr>ex_state := StateRunning\<rparr>) y"

definition is_final :: "execution \<Rightarrow> bool" where
  "is_final x \<longleftrightarrow> (case ex_state x of StateStarting \<Rightarrow> False | StateRunning \<Rightarrow> False
     | StateBlocked \<Rightarrow> ex_term_status x \<noteq> None | _ \<Rightarrow> True)"

lemma final_no_step: "exec_step x y \<Longrightarrow> \<not> is_final x"
  by (cases rule: exec_step.cases, assumption) (auto simp: is_final_def)

lemma step_key: "exec_step x y \<Longrightarrow> ex_run_id y = ex_run_id x \<and> ex_started y = ex_started x"
  by (cases rule: exec_step.cases, assumption) (auto simp: set_blocked_def ended_with_def)

text \<open>A row is well formed when its fields fit its state.\<close>

definition exec_row_ok :: "execution \<Rightarrow> bool" where
  "exec_row_ok x \<longleftrightarrow> ex_run_id x \<noteq> [] \<and>
     (ex_state x \<in> {StateStarting, StateRunning} \<longrightarrow> ex_ended x = None \<and> ex_exit_code x = None \<and>
        ex_term_status x = None \<and> ex_term_code x = None \<and> ex_policy x = None) \<and>
     (ex_state x = StateBlocked \<longrightarrow> ex_policy x \<noteq> None \<and> ex_policy_reason x \<noteq> None \<and>
        (\<exists>a \<ge> 0. ex_policy_attempt x = Some a) \<and> (\<exists>h \<ge> 0. ex_policy_threshold x = Some h) \<and>
        (ex_ended x = None \<longleftrightarrow> ex_term_status x = None) \<and>
        ex_term_status x \<in> {None, Some TerminationSucceeded} \<and> ex_term_code x = None) \<and>
     (ex_state x = StateTerminationFailed \<longrightarrow> ex_ended x \<noteq> None \<and> ex_term_status x = Some TerminationFailed \<and>
        (\<exists>c. ex_term_code x = Some c \<and> normalized_termination_code c)) \<and>
     (is_final x \<longrightarrow> ex_ended x \<noteq> None) \<and>
     (ex_term_status x = Some TerminationFailed \<longrightarrow> ex_state x = StateTerminationFailed)"

definition executions_ok :: "tables \<Rightarrow> bool" where
  "executions_ok t \<longleftrightarrow> distinct_on ex_run_id (t_executions t) \<and> (\<forall>x \<in> set (t_executions t). exec_row_ok x)"

lemma active_row:
  "exec_row_ok x \<Longrightarrow> ex_state x \<in> {StateStarting, StateRunning} \<Longrightarrow>
   ex_term_status x = None \<and> ex_term_code x = None"
  unfolding exec_row_ok_def by blast

lemma starting_row_ok: "rid \<noteq> [] \<Longrightarrow> exec_row_ok (starting_row rid st)"
  by (simp add: exec_row_ok_def starting_row_def is_final_def)

lemma step_row_ok:
  assumes "exec_step x y" "exec_row_ok x"
  shows "exec_row_ok y"
  using assms(1)
proof cases
  case run
  with assms(2) show ?thesis by (simp add: exec_row_ok_def is_final_def)
next
  case (block n)
  with assms(2) show ?thesis
    by (auto simp: exec_row_ok_def is_final_def set_blocked_def invalid_notice_def)
next
  case (finish s)
  with assms(2) show ?thesis by (auto simp: exec_row_ok_def is_final_def ended_with_def)
next
  case (never_ran s)
  with assms(2) show ?thesis by (auto simp: exec_row_ok_def is_final_def ended_with_def)
next
  case stopped
  with assms(2) show ?thesis by (auto simp: exec_row_ok_def is_final_def ended_with_def)
next
  case (stop_failed code)
  with assms(2) show ?thesis by (auto simp: exec_row_ok_def is_final_def ended_with_def)
qed

text \<open>
  What an operation may do to the table: step some rows, and append at most one starting row
  under a fresh identifier.
\<close>

definition advances :: "tables \<Rightarrow> tables \<Rightarrow> bool" where
  "advances t t' \<longleftrightarrow> (\<exists>ys zs. t_executions t' = ys @ zs \<and>
     list_all2 (\<lambda>x y. y = x \<or> exec_step x y) (t_executions t) ys \<and>
     (zs = [] \<or> (\<exists>rid st. zs = [starting_row rid st] \<and> rid \<noteq> [] \<and> rid \<notin> ex_run_id ` set (t_executions t))))"

lemma advances_refl: "t_executions t' = t_executions t \<Longrightarrow> advances t t'"
  unfolding advances_def by (rule exI [of _ "t_executions t"], rule exI [of _ "[]"]) (simp add: list.rel_refl)

lemma advances_update:
  assumes "\<And>x. x \<in> set (t_executions t) \<Longrightarrow> P x \<Longrightarrow> exec_step x (f x)"
  shows "advances t (t\<lparr>t_executions := update_where P f (t_executions t)\<rparr>)"
proof -
  have "list_all2 (\<lambda>x y. y = x \<or> exec_step x y) xs (update_where P f xs)"
    if "set xs \<subseteq> set (t_executions t)" for xs
    using that assms by (induction xs) auto
  then show ?thesis by (auto simp: advances_def)
qed

lemma advances_ids: "list_all2 (\<lambda>x y. y = x \<or> exec_step x y) xs ys \<Longrightarrow> map ex_run_id ys = map ex_run_id xs"
  by (induction rule: list_all2_induct) (auto simp: step_key)

lemma advances_ok:
  assumes "advances t t'" "executions_ok t"
  shows "executions_ok t'"
proof -
  obtain ys zs where t': "t_executions t' = ys @ zs"
    and l: "list_all2 (\<lambda>x y. y = x \<or> exec_step x y) (t_executions t) ys"
    and zs: "zs = [] \<or> (\<exists>rid st. zs = [starting_row rid st] \<and> rid \<noteq> [] \<and> rid \<notin> ex_run_id ` set (t_executions t))"
    using assms(1) unfolding advances_def by blast
  have ids: "map ex_run_id ys = map ex_run_id (t_executions t)" using l by (rule advances_ids)
  then have sids: "ex_run_id ` set ys = ex_run_id ` set (t_executions t)" by (metis image_set)
  have dys: "distinct_on ex_run_id ys" using ids assms(2) by (simp add: executions_ok_def distinct_on_def)
  have rys: "\<forall>y \<in> set ys. exec_row_ok y"
    using l assms(2) unfolding executions_ok_def
    by (auto simp: list_all2_conv_all_nth in_set_conv_nth) (metis nth_mem step_row_ok)
  show ?thesis
  proof (cases "zs = []")
    case True
    with t' dys rys show ?thesis by (simp add: executions_ok_def)
  next
    case False
    with zs obtain rid st where "zs = [starting_row rid st]" "rid \<noteq> []" "rid \<notin> ex_run_id ` set ys"
      unfolding sids by blast
    with t' dys rys show ?thesis
      by (auto simp: executions_ok_def distinct_on_append_one starting_row_ok)
        (auto simp: starting_row_def)
  qed
qed

lemma advances_select:
  assumes "advances t t'" "select_execution rid t = Some x"
  shows "\<exists>y. select_execution rid t' = Some y \<and> (y = x \<or> exec_step x y)"
proof -
  have "\<exists>y. first_row (\<lambda>x. ex_run_id x = rid) (ys @ zs) = Some y \<and> (y = x \<or> exec_step x y)"
    if "list_all2 (\<lambda>x y. y = x \<or> exec_step x y) xs ys" "first_row (\<lambda>x. ex_run_id x = rid) xs = Some x"
    for xs ys zs
    using that
  proof (induction rule: list_all2_induct)
    case (Cons a xs b ys)
    then have "ex_run_id b = ex_run_id a" by (auto simp: step_key)
    with Cons show ?case by (auto split: if_splits)
  qed simp
  moreover obtain ys zs where "t_executions t' = ys @ zs"
    "list_all2 (\<lambda>x y. y = x \<or> exec_step x y) (t_executions t) ys"
    using assms(1) unfolding advances_def by blast
  ultimately show ?thesis using assms(2) unfolding select_execution_def by simp
qed

section \<open>The operations follow the lifecycle\<close>

lemma update_executions_run:
  "update_executions P f j = (Inr n, j') \<Longrightarrow>
   n = count_where P (t_executions (tbl j)) \<and>
   tbl j' = (tbl j)\<lparr>t_executions := update_where P f (t_executions (tbl j))\<rparr>"
  unfolding update_executions_def by (drule exec_stmt_run) auto

lemma exec_stmt_error: "exec_stmt f j = (Inl e, j') \<Longrightarrow> tbl j' = tbl j"
  by (auto simp: exec_stmt_def bindE_def dest: fault_tbl split: prod.splits sum.splits)

lemma update_executions_error: "update_executions P f j = (Inl e, j') \<Longrightarrow> tbl j' = tbl j"
  unfolding update_executions_def by (rule exec_stmt_error)

text \<open>A guarded update either touches exactly one row, or reports an error.\<close>

lemma update_result_run:
  assumes "execution_update_result a (update_executions P f) j = (r, j')"
  shows "tbl j' = tbl j \<and> \<not> is_ok r \<or>
    tbl j' = (tbl j)\<lparr>t_executions := update_where P f (t_executions (tbl j))\<rparr> \<and>
    (is_ok r \<longleftrightarrow> count_where P (t_executions (tbl j)) = 1)"
proof (cases "update_executions P f j")
  case (Pair x j1)
  show ?thesis
  proof (cases x)
    case (Inl e)
    with Pair assms show ?thesis
      by (auto simp: execution_update_result_def dest: update_executions_error)
  next
    case (Inr n)
    with Pair have run: "update_executions P f j = (Inr n, j1)" by simp
    with assms have "r = (if n \<noteq> 1 then Inl (Wrapf a ErrInvalidTransition) else Inr ())" "j' = j1"
      by (simp_all add: execution_update_result_def)
    with update_executions_run [OF run] show ?thesis by simp
  qed
qed

lemma advances_update_result:
  assumes "execution_update_result a (update_executions P f) j = (r, j')"
    and "\<And>x. x \<in> set (t_executions (tbl j)) \<Longrightarrow> P x \<Longrightarrow> exec_step x (f x)"
  shows "advances (tbl j) (tbl j')"
  using update_result_run [OF assms(1)] advances_update [of "tbl j" P f] assms(2)
  by (auto intro: advances_refl)

lemma mark_advances: "mark_execution_running rid j = (r, j') \<Longrightarrow> advances (tbl j) (tbl j')"
  unfolding mark_execution_running_def by (erule advances_update_result) (auto intro: exec_step.run)

lemma block_advances: "block_execution n j = (r, j') \<Longrightarrow> advances (tbl j) (tbl j')"
  unfolding block_execution_def
  by (auto simp: advances_refl split: if_splits elim!: advances_update_result intro: exec_step.block)

lemma insert_execution_run:
  assumes "insert_execution rid st j = (Inr n, j')"
  shows "rid \<in> ex_run_id ` set (t_executions (tbl j)) \<and> n = 0 \<and> tbl j' = tbl j \<or>
    rid \<notin> ex_run_id ` set (t_executions (tbl j)) \<and> n = 1 \<and>
    tbl j' = (tbl j)\<lparr>t_executions := t_executions (tbl j) @ [starting_row rid st]\<rparr>"
proof (cases "\<exists>x \<in> set (t_executions (tbl j)). ex_run_id x = rid")
  case True
  with exec_stmt_run [OF assms [unfolded insert_execution_def]] have "n = 0 \<and> tbl j' = tbl j" by simp
  with True show ?thesis by blast
next
  case False
  with exec_stmt_run [OF assms [unfolded insert_execution_def]]
  have "n = 1 \<and> tbl j' = (tbl j)\<lparr>t_executions := t_executions (tbl j) @ [starting_row rid st]\<rparr>" by simp
  with False show ?thesis by blast
qed

lemma start_advances:
  assumes "start_execution rid st j = (r, j')"
  shows "advances (tbl j) (tbl j')"
proof (cases "insert_execution rid st j")
  case (Pair x j1)
  show ?thesis
  proof (cases "rid = [] \<or> st = zero_time")
    case True
    with assms show ?thesis by (auto simp: start_execution_def intro: advances_refl)
  next
    case False
    then have rid: "rid \<noteq> []" and j': "j' = j1"
      using assms Pair by (auto simp: start_execution_def split: sum.splits)
    show ?thesis
    proof (cases x)
      case (Inl e)
      with Pair j' show ?thesis by (auto simp: insert_execution_def intro!: advances_refl dest: exec_stmt_error)
    next
      case (Inr n)
      with Pair j' have "insert_execution rid st j = (Inr n, j')" by simp
      then consider "tbl j' = tbl j"
        | "rid \<notin> ex_run_id ` set (t_executions (tbl j))"
          "t_executions (tbl j') = t_executions (tbl j) @ [starting_row rid st]"
        by (auto dest!: insert_execution_run)
      then show ?thesis
      proof cases
        case 1
        then show ?thesis by (simp add: advances_refl)
      next
        case 2
        with rid show ?thesis
          unfolding advances_def
          by (intro exI [of _ "t_executions (tbl j)"] exI [of _ "[starting_row rid st]"])
            (auto simp: list.rel_refl)
      qed
    qed
  qed
qed

text \<open>The update that a valid report selects always steps the rows it touches.\<close>

lemma parse_term_failed: "parse_term s = Some TerminationFailed \<Longrightarrow> s = term_name TerminationFailed"
  unfolding parse_term_def by (drule first_row_Some) simp

lemma parse_state_name: "parse_state s = Some x \<Longrightarrow> s = state_name x"
  unfolding parse_state_def by (drule first_row_Some) simp

lemma set_ended_simps [simp]:
  "ex_run_id (set_ended r x) = ex_run_id x" "ex_started (set_ended r x) = ex_started x"
  "ex_ended (set_ended r x) = Some (fr_ended r)" "ex_policy (set_ended r x) = ex_policy x"
  "ex_policy_reason (set_ended r x) = ex_policy_reason x"
  "ex_policy_attempt (set_ended r x) = ex_policy_attempt x"
  "ex_policy_threshold (set_ended r x) = ex_policy_threshold x"
  "ex_blocked_estimate (set_ended r x) = ex_blocked_estimate x"
  "ex_state (set_ended r x) = ex_state x" "ex_term_code (set_ended r x) = ex_term_code x"
  "ex_exit_code (set_ended r x) = Some (fr_exit_code r)"
  by (simp_all add: set_ended_def)

lemma finish_update_effect:
  assumes "finish_update r = Inr m"
  obtains P f where "m = update_executions P f" "\<And>x. P x \<Longrightarrow> ex_run_id x = fr_run_id r"
    "\<And>x. P x \<Longrightarrow> exec_step x (f x)"
    "\<And>x. P x \<Longrightarrow> ex_ended (f x) = Some (fr_ended r) \<and> state_name (ex_state (f x)) = fr_state r \<and> is_final (f x) \<and>
       ex_exit_code (f x) = Some (fr_exit_code r)"
proof (cases "parse_state (fr_state r)")
  case None
  with assms show ?thesis by (simp add: finish_update_def)
next
  case (Some s)
  then have name: "fr_state r = state_name s" by (rule parse_state_name)
  let ?ended = "{StateCompleted, StateFailed, StateDeadline, StateInterrupted, StateGatewayFailed}"
  consider (blocked) "s = StateBlocked" | (failed) "s = StateTerminationFailed" | (ended) "s \<in> ?ended"
    | (active) "s = StateStarting \<or> s = StateRunning" by (cases s) auto
  then show ?thesis
  proof cases
    case blocked
    with Some assms show ?thesis
      by (auto simp: finish_update_def split: if_splits intro!: that exec_step.stopped simp: ended_with_def is_final_def name)
  next
    case failed
    with Some assms show ?thesis
      by (auto simp: finish_update_def split: if_splits intro!: that exec_step.stop_failed simp: ended_with_def is_final_def name)
  next
    case ended
    let ?P = "\<lambda>x. ex_run_id x = fr_run_id r \<and>
      (if s = StateFailed then ex_state x \<in> {StateStarting, StateRunning} else ex_state x = StateRunning)"
    let ?f = "\<lambda>x. (set_ended r x)\<lparr>ex_state := s, ex_term_status := parse_term (fr_term_status r),
                ex_term_code := nullif (fr_term_code r)\<rparr>"
    from ended Some assms have m: "m = update_executions ?P ?f"
      and t: "fr_term_status r \<noteq> term_name TerminationFailed" "fr_term_code r = []"
      by (auto simp: finish_update_def split: if_splits exec_state.splits)
    have y: "ended_with x s (?f x)" "ex_term_status (?f x) \<noteq> Some TerminationFailed" "ex_term_code (?f x) = None" for x
      using t by (auto simp: ended_with_def nullif_def dest: parse_term_failed)
    have "exec_step x (?f x)" if p: "?P x" for x
    proof (cases "ex_state x = StateRunning")
      case True
      then show ?thesis using ended y by (rule exec_step.finish)
    next
      case False
      with p have "ex_state x = StateStarting" "s \<in> {StateFailed, StateInterrupted}" by (auto split: if_splits)
      then show ?thesis using y by (rule exec_step.never_ran)
    qed
    moreover have "is_final (?f x)" for x using ended by (auto simp: is_final_def)
    ultimately show ?thesis by (intro that [OF m]) (simp_all add: name)
  next
    case active
    with Some assms show ?thesis by (auto simp: finish_update_def)
  qed
qed

lemma finish_advances: "finish_execution r j = (x, j') \<Longrightarrow> advances (tbl j) (tbl j')"
  unfolding finish_execution_def
  by (auto simp: advances_refl split: if_splits sum.splits elim!: advances_update_result elim!: finish_update_effect)

lemma recover_advances:
  assumes "recover_executions now j = (r, j')" "executions_ok (tbl j)"
  shows "advances (tbl j) (tbl j')"
proof (cases "now = zero_time")
  case True
  with assms show ?thesis by (auto simp: recover_executions_def intro: advances_refl)
next
  let ?f = "\<lambda>x. x\<lparr>ex_state := StateInterrupted, ex_ended := Some now, ex_stop_reason := Some ''virgil_restart''\<rparr>"
  case False
  show ?thesis
  proof (cases r)
    case (Inl e)
    with False assms(1) obtain e' where "tx (recover_body now) j = (Inl e', j')"
      by (auto simp: recover_executions_def split: prod.splits sum.splits)
    then have "tbl j' = tbl j" by (rule tx_error_rolls_back)
    then show ?thesis by (simp add: advances_refl)
  next
    case (Inr u)
    with False assms(1) have "tx (recover_body now) j = (Inr u, j')"
      by (auto simp: recover_executions_def split: prod.splits sum.splits)
    from tx_run [OF this] obtain j1 commit j2 where b: "tbl j1 = tbl j" "recover_body now j1 = (Inr (commit, u), j2)"
      "tbl j' = (if commit then tbl j2 else tbl j)" by blast
    then obtain n where c: "commit" and "update_executions (\<lambda>x. ex_state x \<in> {StateStarting, StateRunning})
        (\<lambda>x. x\<lparr>ex_state := StateInterrupted, ex_ended := Some now, ex_stop_reason := Some ''virgil_restart''\<rparr>) j1
        = (Inr n, j2)"
      unfolding recover_body_def by (elim bindE_okE) (simp add: ret_def)
    from update_executions_run [OF this(2)] b(1,3) c
    have t: "tbl j' = (tbl j)\<lparr>t_executions := update_where (\<lambda>x. ex_state x \<in> {StateStarting, StateRunning})
        (\<lambda>x. x\<lparr>ex_state := StateInterrupted, ex_ended := Some now, ex_stop_reason := Some ''virgil_restart''\<rparr>)
        (t_executions (tbl j))\<rparr>" by simp
    show ?thesis unfolding t
    proof (rule advances_update)
      fix x assume x: "x \<in> set (t_executions (tbl j))" "ex_state x \<in> {StateStarting, StateRunning}"
      from assms(2) x(1) have "exec_row_ok x" by (simp add: executions_ok_def)
      from active_row [OF this x(2)] have "ex_term_status x = None" "ex_term_code x = None" by simp_all
      then have y: "ended_with x StateInterrupted (?f x)" "ex_term_status (?f x) \<noteq> Some TerminationFailed"
        "ex_term_code (?f x) = None" by (simp_all add: ended_with_def)
      from x(2) consider "ex_state x = StateRunning" | "ex_state x = StateStarting" by blast
      then show "exec_step x (?f x)"
      proof cases
        case 1
        then show ?thesis by (rule exec_step.finish [OF _ _ y]) simp
      next
        case 2
        then show ?thesis by (rule exec_step.never_ran [OF _ _ y]) simp
      qed
    qed
  qed
qed

section \<open>Sequences of store operations\<close>

datatype exec_op = OpStart string time | OpRunning string | OpBlock policy_block_notice
  | OpFinish execution_result | OpRecover time

fun exec_run :: "exec_op \<Rightarrow> unit sql" where
  "exec_run (OpStart rid st) = start_execution rid st"
| "exec_run (OpRunning rid) = mark_execution_running rid"
| "exec_run (OpBlock n) = block_execution n"
| "exec_run (OpFinish r) = finish_execution r"
| "exec_run (OpRecover now) = recover_executions now"

fun exec_runs :: "exec_op list \<Rightarrow> journal \<Rightarrow> journal" where
  "exec_runs [] j = j"
| "exec_runs (a # as) j = exec_runs as (snd (exec_run a j))"

lemma exec_run_advances:
  "exec_run a j = (r, j') \<Longrightarrow> executions_ok (tbl j) \<Longrightarrow> advances (tbl j) (tbl j')"
  by (cases a) (auto intro: start_advances mark_advances block_advances finish_advances recover_advances)

lemma exec_runs_history:
  "executions_ok (tbl j) \<Longrightarrow> executions_ok (tbl (exec_runs as j)) \<and>
   (\<forall>rid x. select_execution rid (tbl j) = Some x \<longrightarrow>
      (\<exists>y. select_execution rid (tbl (exec_runs as j)) = Some y \<and> exec_step\<^sup>*\<^sup>* x y))"
proof (induction as arbitrary: j)
  case Nil
  then show ?case by simp
next
  case (Cons a as)
  obtain r j1 where r: "exec_run a j = (r, j1)" by (cases "exec_run a j")
  then have adv: "advances (tbl j) (tbl j1)" using Cons.prems by (rule exec_run_advances)
  then have ok: "executions_ok (tbl j1)" using Cons.prems by (rule advances_ok)
  have "\<exists>y. select_execution rid (tbl (exec_runs as j1)) = Some y \<and> exec_step\<^sup>*\<^sup>* x y"
    if sel: "select_execution rid (tbl j) = Some x" for rid x
  proof -
    obtain x1 where x1: "select_execution rid (tbl j1) = Some x1" "x1 = x \<or> exec_step x x1"
      using advances_select [OF adv sel] by blast
    then obtain y where "select_execution rid (tbl (exec_runs as j1)) = Some y" "exec_step\<^sup>*\<^sup>* x1 y"
      using Cons.IH [OF ok] by blast
    with x1(2) show ?thesis by (auto intro: converse_rtranclp_into_rtranclp)
  qed
  with Cons.IH [OF ok] r show ?case by simp
qed

lemma final_stays: "exec_step\<^sup>*\<^sup>* x y \<Longrightarrow> is_final x \<Longrightarrow> y = x"
  by (induction rule: converse_rtranclp_induct) (auto dest: final_no_step)

text \<open>A row that was blocked keeps the policy decision that blocked it.\<close>

definition same_block :: "execution \<Rightarrow> execution \<Rightarrow> bool" where
  "same_block x y \<longleftrightarrow> ex_state y \<in> {StateBlocked, StateTerminationFailed} \<and> ex_policy y = ex_policy x \<and>
     ex_policy_reason y = ex_policy_reason x \<and> ex_policy_attempt y = ex_policy_attempt x \<and>
     ex_policy_threshold y = ex_policy_threshold x \<and> ex_blocked_estimate y = ex_blocked_estimate x"

lemma blocked_step: "exec_step x y \<Longrightarrow> ex_state x \<in> {StateBlocked, StateTerminationFailed} \<Longrightarrow> same_block x y"
  by (cases rule: exec_step.cases, assumption) (auto simp: same_block_def ended_with_def)

lemma blocked_steps: "exec_step\<^sup>*\<^sup>* x y \<Longrightarrow> ex_state x \<in> {StateBlocked, StateTerminationFailed} \<Longrightarrow> same_block x y"
proof (induction rule: rtranclp_induct)
  case base
  then show ?case by (simp add: same_block_def)
next
  case (step y z)
  then have xy: "same_block x y" by blast
  then have "same_block y z" using step(2) by (intro blocked_step) (simp_all add: same_block_def)
  with xy show ?case by (simp add: same_block_def)
qed

text \<open>C9: The store refines the lifecycle: from well-formed rows, any sequence of store operations,
  with any driver failures, leads every run through steps of the lifecycle only; rows are never
  dropped, and every row stays well formed.\<close>

theorem store_refines_lifecycle:
  assumes "executions_ok (tbl j)" "select_execution rid (tbl j) = Some x"
  shows "executions_ok (tbl (exec_runs ops j)) \<and>
    (\<exists>y. select_execution rid (tbl (exec_runs ops j)) = Some y \<and> exec_step\<^sup>*\<^sup>* x y)"
  using exec_runs_history [OF assms(1)] assms(2) by blast

definition sample_result :: "string \<Rightarrow> string \<Rightarrow> execution_result" where
  "sample_result st term = \<lparr>fr_run_id = ''r'', fr_state = st, fr_ended = 9, fr_exit_code = 0,
     fr_stop_reason = [], fr_term_status = term, fr_term_code = []\<rparr>"

definition sample_notice :: policy_block_notice where
  "sample_notice = \<lparr>pb_run_id = ''r'', pb_reason = ''call_limit'', pb_policy = ''max_requests_per_run'',
     pb_attempt = 3, pb_threshold = 2, pb_estimate = [], pb_occurred = 8, pb_persistence_failed = False\<rparr>"

definition started_journal :: journal where
  "started_journal = exec_runs [OpStart ''r'' 1, OpRunning ''r''] (new_journal ''i'')"

definition blocked_journal :: journal where
  "blocked_journal = exec_runs [OpBlock sample_notice] started_journal"

definition finished_journal :: journal where
  "finished_journal = exec_runs [OpFinish (sample_result ''completed'' [])] started_journal"

lemma executions_ok_new: "executions_ok (tbl (new_journal i))"
  by (simp add: executions_ok_def new_journal_def empty_tables_def)

lemma sample_journals_ok:
  "executions_ok (tbl started_journal)" "executions_ok (tbl blocked_journal)" "executions_ok (tbl finished_journal)"
proof -
  have ok: "executions_ok (tbl (exec_runs as j))" if "executions_ok (tbl j)" for as j
    using exec_runs_history [OF that] by blast
  show s: "executions_ok (tbl started_journal)"
    unfolding started_journal_def by (intro ok executions_ok_new)
  show "executions_ok (tbl blocked_journal)" "executions_ok (tbl finished_journal)"
    unfolding blocked_journal_def finished_journal_def by (intro ok s)+
qed

definition started_row :: execution where
  "started_row = (starting_row ''r'' 1)\<lparr>ex_state := StateRunning\<rparr>"

lemma sample_rows:
  "select_execution ''r'' (tbl started_journal) = Some started_row"
  "select_execution ''r'' (tbl blocked_journal) = Some (set_blocked sample_notice started_row)"
  "map_option is_final (select_execution ''r'' (tbl finished_journal)) = Some True"
  by code_simp+

lemma store_refines_lifecycle_witness:
  "\<exists>y. select_execution ''r'' (tbl (exec_runs [OpFinish (sample_result ''failed'' []), OpRecover 5] started_journal))
     = Some y \<and> exec_step\<^sup>*\<^sup>* started_row y"
  using store_refines_lifecycle [OF sample_journals_ok(1) sample_rows(1)] by blast

text \<open>A finished run is immutable: once its row is final (ended, or blocked with the outcome of
  stopping its processes), no later operation on the store, not even the recovery after a restart,
  changes a field of it.\<close>

theorem finished_run_immutable:
  assumes "executions_ok (tbl j)" "select_execution rid (tbl j) = Some x" "is_final x"
  shows "select_execution rid (tbl (exec_runs ops j)) = Some x"
  using exec_runs_history [OF assms(1)] assms(2,3) final_stays by blast

lemma finished_run_immutable_witness:
  "select_execution ''r'' (tbl (exec_runs [OpRecover 99, OpBlock sample_notice, OpStart ''r'' 7] finished_journal))
   = select_execution ''r'' (tbl finished_journal)"
proof -
  obtain x where x: "select_execution ''r'' (tbl finished_journal) = Some x" "is_final x"
    using sample_rows(3) by (cases "select_execution ''r'' (tbl finished_journal)") auto
  show ?thesis unfolding finished_run_immutable [OF sample_journals_ok(3) x] x(1) ..
qed

text \<open>C10: The circuit breaker sticks: once a run is blocked, whatever the runner reports afterwards
  it stays blocked (or becomes a failed termination) and keeps the policy, reason, attempt,
  threshold and cost estimate of the block.\<close>

theorem block_is_sticky:
  assumes "executions_ok (tbl j)" "select_execution rid (tbl j) = Some x" "ex_state x = StateBlocked"
  shows "\<exists>y. select_execution rid (tbl (exec_runs ops j)) = Some y \<and> same_block x y"
  using exec_runs_history [OF assms(1)] assms(2,3) blocked_steps by blast

lemma block_is_sticky_witness:
  "\<exists>y. select_execution ''r'' (tbl (exec_runs [OpFinish (sample_result ''completed'' []), OpRecover 99] blocked_journal))
     = Some y \<and> same_block (set_blocked sample_notice started_row) y"
  by (rule block_is_sticky [OF sample_journals_ok(2) sample_rows(2)]) (simp add: set_blocked_def)

section \<open>Success and refusal\<close>

lemma update_one_row:
  assumes d: "executions_ok t" and c: "count_where P (t_executions t) = 1"
    and P: "\<And>x. P x \<Longrightarrow> ex_run_id x = rid" and f: "\<And>x. P x \<Longrightarrow> ex_run_id (f x) = ex_run_id x"
  shows "\<exists>x. select_execution rid t = Some x \<and> P x \<and>
    select_execution rid (t\<lparr>t_executions := update_where P f (t_executions t)\<rparr>) = Some (f x)"
proof -
  from c obtain x where x: "x \<in> set (t_executions t)" "P x"
    using count_where_0 [of P "t_executions t"] by auto
  have d': "distinct_on ex_run_id (t_executions t)" using d by (simp add: executions_ok_def)
  then have "distinct_on ex_run_id (update_where P f (t_executions t))"
    using f by (rule distinct_on_update)
  moreover have "f x \<in> set (update_where P f (t_executions t))" using x by (auto simp: set_update_where)
  moreover have "ex_run_id x = rid" "ex_run_id (f x) = rid" using x P f by auto
  ultimately show ?thesis
    using d' x first_row_key [of ex_run_id _ x] first_row_key [of ex_run_id _ "f x"]
    by (auto simp: select_execution_def)
qed

lemma accepted_report:
  assumes "finish_execution r j = (Inr (), j')" "executions_ok (tbl j)"
  shows "\<exists>y. select_execution (fr_run_id r) (tbl j') = Some y \<and> is_final y \<and>
    state_name (ex_state y) = fr_state r \<and> ex_ended y = Some (fr_ended r) \<and> ex_exit_code y = Some (fr_exit_code r)"
proof -
  from assms(1) obtain m where m: "finish_update r = Inr m"
    and e: "execution_update_result ''finish execution'' m j = (Inr (), j')"
    unfolding finish_execution_def by (auto split: if_splits sum.splits)
  have "\<exists>P f. m = update_executions P f \<and> (\<forall>x. P x \<longrightarrow> ex_run_id x = fr_run_id r \<and> exec_step x (f x) \<and>
     ex_ended (f x) = Some (fr_ended r) \<and> state_name (ex_state (f x)) = fr_state r \<and> is_final (f x) \<and>
     ex_exit_code (f x) = Some (fr_exit_code r))"
    by (rule finish_update_effect [OF m]) blast
  then obtain P f where pf: "m = update_executions P f" "\<And>x. P x \<Longrightarrow> ex_run_id x = fr_run_id r"
    and step: "\<And>x. P x \<Longrightarrow> exec_step x (f x)"
    and res: "\<And>x. P x \<Longrightarrow> ex_ended (f x) = Some (fr_ended r) \<and> state_name (ex_state (f x)) = fr_state r \<and>
       is_final (f x) \<and> ex_exit_code (f x) = Some (fr_exit_code r)"
    by blast
  from update_result_run [OF e [unfolded pf(1)]]
  have t: "tbl j' = (tbl j)\<lparr>t_executions := update_where P f (t_executions (tbl j))\<rparr>"
    and c: "count_where P (t_executions (tbl j)) = 1" by auto
  obtain x where "P x" "select_execution (fr_run_id r) (tbl j') = Some (f x)"
    using update_one_row [OF assms(2) c pf(2), of f] step_key [OF step] unfolding t by blast
  with res show ?thesis by blast
qed

text \<open>A report that the store accepts is on record: when \<open>FinishExecution\<close> returns without error,
  the run of the report is final, in the reported state, with the reported end time and exit code.\<close>

theorem accepted_report_recorded:
  assumes "finish_execution r j = (Inr (), j')" "executions_ok (tbl j)"
  shows "\<exists>y. select_execution (fr_run_id r) (tbl j') = Some y \<and> is_final y \<and>
    state_name (ex_state y) = fr_state r \<and> ex_ended y = Some (fr_ended r) \<and> ex_exit_code y = Some (fr_exit_code r)"
  using assms by (rule accepted_report)

lemma accepted_report_recorded_witness:
  "\<exists>y. select_execution ''r'' (tbl finished_journal) = Some y \<and> is_final y \<and>
     state_name (ex_state y) = ''completed'' \<and> ex_ended y = Some 9"
proof -
  have "fst (finish_execution (sample_result ''completed'' []) started_journal) = Inr ()" by code_simp
  then have "finish_execution (sample_result ''completed'' []) started_journal = (Inr (), finished_journal)"
    by (simp add: finished_journal_def prod_eq_iff)
  from accepted_report_recorded [OF this sample_journals_ok(1)] show ?thesis
    by (auto simp: sample_result_def)
qed

text \<open>A run is blocked once: after a first block the store refuses every further block of the
  same run with an invalid-transition or driver error and leaves all tables as they are.\<close>

theorem second_block_refused:
  assumes "block_execution n j = (Inr (), j1)" "executions_ok (tbl j)"
    and "pb_run_id n' = pb_run_id n" "block_execution n' j1 = (r, j2)"
  shows "\<not> is_ok r \<and> tbl j2 = tbl j1"
proof (cases "invalid_notice n'")
  case True
  with assms(4) show ?thesis by (auto simp: block_execution_def)
next
  case False
  let ?P = "\<lambda>x. ex_run_id x = pb_run_id n \<and> ex_state x = StateRunning"
  from assms(1) have "execution_update_result ''block execution'' (update_executions ?P (set_blocked n)) j = (Inr (), j1)"
    by (simp add: block_execution_def split: if_splits)
  from update_result_run [OF this]
  have t: "tbl j1 = (tbl j)\<lparr>t_executions := update_where ?P (set_blocked n) (t_executions (tbl j))\<rparr>"
    and c: "count_where ?P (t_executions (tbl j)) = 1" by auto
  have "block_execution n j = (Inr (), j1)" by fact
  then have ok1: "executions_ok (tbl j1)" using assms(2) block_advances advances_ok by blast
  have "ex_run_id (set_blocked n x) = ex_run_id x" for x by (simp add: set_blocked_def)
  with update_one_row [OF assms(2) c, of "pb_run_id n" "set_blocked n"]
  obtain x where "select_execution (pb_run_id n) (tbl j1) = Some (set_blocked n x)" unfolding t by auto
  then have x: "set_blocked n x \<in> set (t_executions (tbl j1))" "ex_run_id (set_blocked n x) = pb_run_id n"
    unfolding select_execution_def by (auto dest: first_row_Some)
  then have none: "\<forall>y \<in> set (t_executions (tbl j1)). \<not> ?P y"
  proof (intro ballI notI)
    fix y assume y: "y \<in> set (t_executions (tbl j1))" "?P y"
    have "distinct_on ex_run_id (t_executions (tbl j1))" using ok1 by (simp add: executions_ok_def)
    then have "y = set_blocked n x" using y x by (auto intro: distinct_on_unique)
    with y(2) show False by (simp add: set_blocked_def)
  qed
  from False assms(3,4) have u: "execution_update_result ''block execution''
      (update_executions ?P (set_blocked n')) j1 = (r, j2)" by (simp add: block_execution_def)
  from none have "count_where ?P (t_executions (tbl j1)) = 0" "update_where ?P f (t_executions (tbl j1)) = t_executions (tbl j1)" for f
    by (simp_all add: count_where_0 update_where_none)
  with update_result_run [OF u] show ?thesis by auto
qed

lemma second_block_refused_witness:
  "tbl (snd (block_execution sample_notice blocked_journal)) = tbl blocked_journal"
proof -
  have "fst (block_execution sample_notice started_journal) = Inr ()" by code_simp
  then have "block_execution sample_notice started_journal = (Inr (), blocked_journal)"
    by (simp add: blocked_journal_def prod_eq_iff)
  from second_block_refused [OF this sample_journals_ok(1) refl surjective_pairing] show ?thesis by blast
qed

text \<open>The history shown is the newest matching runs, in order: \<open>ListExecutionsFiltered\<close> returns
  rows sorted newest first (ties by run identifier, descending), all matching the state and time
  filter, as many as the limit allows, and no matching run it leaves out is newer than one it
  returns.\<close>

theorem history_is_newest_page:
  assumes "list_executions_filtered f j = (Inr vs, j')"
  shows "\<exists>xs ys. vs = map scan_execution xs \<and> sorted (map exec_key_of (xs @ ys)) \<and>
    mset (xs @ ys) = mset (filter (matches_filter f) (t_executions (tbl j))) \<and>
    int (length xs) = min (xf_limit f) (int (length (xs @ ys)))"
proof -
  from assms have pos: "0 < xf_limit f" and q: "\<exists>rows. query (select_executions f) j = (Inr rows, j') \<and> vs = map scan_execution rows"
    by (auto simp: list_executions_filtered_def split: if_splits prod.splits sum.splits)
  let ?all = "sort_key exec_key_of (filter (matches_filter f) (t_executions (tbl j)))"
  let ?n = "nat (xf_limit f)"
  from q have vs: "vs = map scan_execution (take ?n ?all)"
    by (auto simp: select_executions_def dest!: query_run)
  have a: "take ?n ?all @ drop ?n ?all = ?all" by simp
  have "int (length (take ?n ?all)) = min (xf_limit f) (int (length ?all))"
    using pos by (simp add: min_def) linarith
  then have "vs = map scan_execution (take ?n ?all) \<and> sorted (map exec_key_of (take ?n ?all @ drop ?n ?all)) \<and>
    mset (take ?n ?all @ drop ?n ?all) = mset (filter (matches_filter f) (t_executions (tbl j))) \<and>
    int (length (take ?n ?all)) = min (xf_limit f) (int (length (take ?n ?all @ drop ?n ?all)))"
    unfolding a by (simp add: vs)
  then show ?thesis by blast
qed

definition history_journal :: journal where
  "history_journal = exec_runs [OpStart ''a'' 5, OpStart ''b'' 9, OpStart ''c'' 5, OpRunning ''b''] (new_journal ''i'')"

lemma history_is_newest_page_witness:
  "\<exists>xs ys. projr (fst (list_executions 2 history_journal)) = map scan_execution xs \<and>
     sorted (map exec_key_of (xs @ ys)) \<and> length xs = 2"
proof -
  let ?f = "\<lparr>xf_state = [], xf_since = zero_time, xf_limit = 2\<rparr>"
  have "is_ok (fst (list_executions 2 history_journal)) \<and>
    length (filter (matches_filter ?f) (t_executions (tbl history_journal))) = 3" by code_simp
  then obtain vs where v: "fst (list_executions 2 history_journal) = Inr vs"
    and l: "length (filter (matches_filter ?f) (t_executions (tbl history_journal))) = 3"
    by (auto simp: is_ok_iff)
  from v have "list_executions_filtered ?f history_journal = (Inr vs, snd (list_executions 2 history_journal))"
    by (simp add: list_executions_def prod_eq_iff)
  from history_is_newest_page [OF this] obtain xs ys where
    x: "vs = map scan_execution xs" "sorted (map exec_key_of (xs @ ys))"
    "mset (xs @ ys) = mset (filter (matches_filter ?f) (t_executions (tbl history_journal)))"
    "int (length xs) = min 2 (int (length (xs @ ys)))" by auto
  from x(3) l have "length (xs @ ys) = 3" by (metis size_mset)
  with x(4) have "length xs = 2" by simp
  with x(1,2) v show ?thesis by auto
qed

lemma history_order:
  "map xv_run_id (projr (fst (list_executions 2 history_journal))) = [''b'', ''c'']"
  by code_simp

end
