(* ===== verification/Event_Journal.thy ===== *)
theory Event_Journal
  imports Execution_Store
begin

text \<open>
  The event log and its satellites: \<open>internal/storage/sqlite.go\<close> (\<open>Append\<close>,
  \<open>RecordPolicyBlock\<close>, contents, \<open>Get\<close>, \<open>ListRecent\<close>), \<open>postflight.go\<close>,
  \<open>retention.go\<close>, \<open>remote_policy.go\<close>, \<open>repetition.go\<close> and the paged \<open>List\<close> of
  \<open>outbox.go\<close>. A payload is the event it encodes: \<open>json.Marshal\<close> and \<open>DecodeEvent\<close> are
  inverse on the events that \<open>redaction.Prepare\<close> accepts.
\<close>

section \<open>Appending\<close>

definition invalid_for_journal :: "journal \<Rightarrow> event \<Rightarrow> bool" where
  "invalid_for_journal j e \<longleftrightarrow> ev_content_capture e \<or> ev_installation_id e \<noteq> j_installation_id j \<or>
     ev_event_id e = []"

definition event_row_of :: "event \<Rightarrow> event_row" where
  "event_row_of e = \<lparr>er_event_id = ev_event_id e, er_installation_id = ev_installation_id e,
     er_created = ev_created_at e, er_status = ev_status e, er_payload = e\<rparr>"

definition insert_event :: "event \<Rightarrow> unit sql" where
  "insert_event e = exec_stmt (\<lambda>t.
     if \<exists>r \<in> set (t_events t). er_event_id r = ev_event_id e then Inl ErrDriver
     else Inr ((), t\<lparr>t_events := t_events t @ [event_row_of e]\<rparr>))"

definition pending_row :: "time \<Rightarrow> event \<Rightarrow> string \<Rightarrow> outbox_row" where
  "pending_row now e d = \<lparr>ob_destination = d, ob_event_id = ev_event_id e,
     ob_idem_key = ev_installation_id e @ CHR '':'' # ev_event_id e, ob_state = Pending, ob_attempts = 0,
     ob_next = now, ob_lease = None, ob_error = None\<rparr>"

definition insert_outbox :: "time \<Rightarrow> event \<Rightarrow> string \<Rightarrow> unit sql" where
  "insert_outbox now e d =
     (if d = [] \<or> length d > 64 then fail (Errorf ''invalid destination'')
      else exec_stmt (\<lambda>t.
        if \<exists>o' \<in> set (t_outbox t). ob_destination o' = d \<and> ob_event_id o' = ev_event_id e then Inl ErrDriver
        else Inr ((), t\<lparr>t_outbox := t_outbox t @ [pending_row now e d]\<rparr>)))"

definition append_transaction :: "time \<Rightarrow> event \<Rightarrow> string list \<Rightarrow> unit sql" where
  "append_transaction now e dests = (\<lambda>j.
     if invalid_for_journal j e then (Inl (Errorf ''invalid event for journal''), j)
     else (case prepare e of
         Inl err \<Rightarrow> (Inl err, j)
       | Inr _ \<Rightarrow> tx (bindE (insert_event e) (\<lambda>_.
           bindE (for_each (insert_outbox now e) dests) (\<lambda>_. ret (True, ())))) j))"

text \<open>
  \<open>Append\<close> hands the request to the writer goroutine. A context that ends before the request
  is queued has no effect; one that ends while waiting for the reply reports the error although
  the write still happens.
\<close>

datatype append_wait = Waited | CancelledBeforeQueue | CancelledWaiting

definition append :: "append_wait \<Rightarrow> time \<Rightarrow> event \<Rightarrow> string list \<Rightarrow> unit sql" where
  "append w now e dests = (\<lambda>j.
     if j_closed j then (Inl (Errorf ''journal is closed''), j)
     else (case w of
         Waited \<Rightarrow> append_transaction now e dests j
       | CancelledBeforeQueue \<Rightarrow> (Inl ErrContext, j)
       | CancelledWaiting \<Rightarrow> (Inl ErrContext, snd (append_transaction now e dests j))))"

definition record_event :: "append_wait \<Rightarrow> time \<Rightarrow> event \<Rightarrow> unit sql" where
  "record_event w now e = append w now e []"

definition close_journal :: "journal \<Rightarrow> journal" where
  "close_journal j = j\<lparr>j_closed := True\<rparr>"

section \<open>RecordPolicyBlock\<close>

text \<open>The \<open>CHECK\<close> constraints on attempt and threshold apply to a row that is really updated.\<close>

definition update_blocked :: "policy_block_notice \<Rightarrow> nat sql" where
  "update_blocked n = exec_stmt (\<lambda>t.
     let P = (\<lambda>x. ex_run_id x = pb_run_id n \<and> ex_state x = StateRunning) in
     if (\<exists>x \<in> set (t_executions t). P x) \<and> (pb_attempt n < 0 \<or> pb_threshold n < 0) then Inl ErrDriver
     else Inr (count_where P (t_executions t),
            t\<lparr>t_executions := update_where P (set_blocked n) (t_executions t)\<rparr>))"

definition block_conflict :: "policy_block_notice \<Rightarrow> (bool \<times> unit) sql" where
  "block_conflict n = (\<lambda>j.
     case query_row (select_execution (pb_run_id n)) j of
       (Inr x, j') \<Rightarrow> (Inl (if ex_state x = StateBlocked then ErrPolicyBlockRecorded
                           else Wrapf ''record policy block'' ErrInvalidTransition), j')
     | (Inl _, j') \<Rightarrow> (Inl (Wrapf ''record policy block'' ErrInvalidTransition), j'))"

definition record_policy_block :: "event \<Rightarrow> policy_block_notice \<Rightarrow> unit sql" where
  "record_policy_block e n = (\<lambda>j.
     if invalid_for_journal j e \<or> pb_run_id n = [] \<or> pb_policy n = [] \<or> pb_reason n = [] \<or>
        pb_occurred n = zero_time then (Inl (Errorf ''invalid policy block''), j)
     else (case prepare e of
         Inl err \<Rightarrow> (Inl err, j)
       | Inr _ \<Rightarrow>
           if j_closed j then (Inl (Errorf ''journal is closed''), j)
           else tx (bindE (update_blocked n) (\<lambda>rows.
             if rows \<noteq> 1 then block_conflict n
             else bindE (insert_event e) (\<lambda>_. ret (True, ())))) j))"

section \<open>PostflightAndAppend\<close>

definition postflight_and_append ::
  "time \<Rightarrow> policy_outcome \<Rightarrow> event \<Rightarrow> string list \<Rightarrow> string \<Rightarrow> unit sql" where
  "postflight_and_append now oc e dests cost_usd = (\<lambda>j.
     if oc_reservation_id oc = [] \<or> oc_run_id oc = []
       then (Inl (Errorf ''run and reservation IDs are required''), j)
     else if invalid_for_journal j e then (Inl (Errorf ''invalid event for journal''), j)
     else (case prepare e of
         Inl err \<Rightarrow> (Inl err, j)
       | Inr _ \<Rightarrow> tx (bindE (reconcile_policy_tx oc) (\<lambda>_.
           bindE (increment_daily_counters_tx now cost_usd) (\<lambda>_.
           bindE (insert_event e) (\<lambda>_.
           bindE (for_each (insert_outbox now e) dests) (\<lambda>_. ret (True, ())))))) j))"

section \<open>Contents\<close>

definition save_content :: "content_row \<Rightarrow> unit sql" where
  "save_content rec = (\<lambda>j.
     if j_closed j then (Inl (Errorf ''journal is closed''), j)
     else exec_stmt (\<lambda>t. Inr ((), t\<lparr>t_contents :=
       filter (\<lambda>c. ct_event_id c \<noteq> ct_event_id rec) (t_contents t) @ [rec]\<rparr>)) j)"

definition get_content :: "string \<Rightarrow> content_row sql" where
  "get_content eid = query_row (\<lambda>t. first_row (\<lambda>c. ct_event_id c = eid) (t_contents t))"

section \<open>Reading events\<close>

definition select_event :: "string \<Rightarrow> tables \<Rightarrow> event_row option" where
  "select_event eid t = first_row (\<lambda>r. er_event_id r = eid) (t_events t)"

definition get_event :: "string \<Rightarrow> event sql" where
  "get_event eid = bindE (query_row (select_event eid)) (\<lambda>r. ret (er_payload r))"

text \<open>\<open>ORDER BY created_at_unix_ns DESC\<close>; rows of the same instant keep their table order here,
  which SQLite does not promise.\<close>

definition list_recent :: "int \<Rightarrow> event list sql" where
  "list_recent limit = query (\<lambda>t.
     let rows = sort_key (\<lambda>r. - er_created r) (t_events t) in
     map er_payload (if limit < 0 then rows else take (nat limit) rows))"

text \<open>The order of \<open>List\<close>: by creation time, then event identifier.\<close>

datatype event_key = EventKey time string

instantiation event_key :: linorder
begin

fun less_eq_event_key :: "event_key \<Rightarrow> event_key \<Rightarrow> bool" where
  "less_eq_event_key (EventKey s r) (EventKey s' r') = (s < s' \<or> (s = s' \<and> text_le r r'))"

definition less_event_key :: "event_key \<Rightarrow> event_key \<Rightarrow> bool" where
  "less_event_key a b \<longleftrightarrow> a \<le> b \<and> \<not> b \<le> (a :: event_key)"

instance
proof
  fix x y z :: event_key
  show "x < y \<longleftrightarrow> x \<le> y \<and> \<not> y \<le> x" by (rule less_event_key_def)
  show "x \<le> x" by (cases x) simp
  show "x \<le> y \<Longrightarrow> y \<le> z \<Longrightarrow> x \<le> z"
    by (cases x; cases y; cases z) (auto intro: text_le_trans)
  show "x \<le> y \<Longrightarrow> y \<le> x \<Longrightarrow> x = y"
    by (cases x; cases y) (auto intro: text_le_antisym)
  show "x \<le> y \<or> y \<le> x"
    by (cases x; cases y) (use text_le_total in auto)
qed

end

definition event_key_of :: "event_row \<Rightarrow> event_key" where
  "event_key_of r = EventKey (er_created r) (er_event_id r)"

definition rows_after :: "event_key option \<Rightarrow> tables \<Rightarrow> event_row list" where
  "rows_after k t = sort_key event_key_of
     (filter (\<lambda>r. case k of None \<Rightarrow> True | Some a \<Rightarrow> a < event_key_of r) (t_events t))"

definition list_page :: "nat \<Rightarrow> event list \<Rightarrow> event list \<times> string" where
  "list_page limit events =
     (if length events > limit then (take limit events, ev_event_id (events ! (limit - 1)))
      else (events, []))"

definition list_events :: "string \<Rightarrow> int \<Rightarrow> (event list \<times> string) sql" where
  "list_events cursor limit =
     (if limit \<le> 0 \<or> limit > 1000 then fail (Errorf ''limit must be 1-1000'')
      else bindE (if cursor = [] then ret None
          else bindE (query_row (select_event cursor)) (\<lambda>r. ret (Some (EventKey (er_created r) cursor))))
        (\<lambda>after. bindE (query (\<lambda>t. map er_payload (take (nat limit + 1) (rows_after after t)))) (\<lambda>events.
          ret (list_page (nat limit) events))))"

section \<open>Retention\<close>

definition undelivered :: "tables \<Rightarrow> string \<Rightarrow> bool" where
  "undelivered t eid \<longleftrightarrow> (\<exists>o' \<in> set (t_outbox t). ob_event_id o' = eid \<and> ob_state o' \<noteq> Delivered)"

text \<open>Deleting an event deletes its outbox rows (\<open>ON DELETE CASCADE\<close>).\<close>

definition delete_old_events :: "time \<Rightarrow> nat sql" where
  "delete_old_events before = exec_stmt (\<lambda>t.
     let gone = (\<lambda>r. er_created r < before \<and> \<not> undelivered t (er_event_id r)) in
     Inr (count_where gone (t_events t),
       t\<lparr>t_events := filter (\<lambda>r. \<not> gone r) (t_events t),
         t_outbox := filter (\<lambda>o'. \<not> (\<exists>r \<in> set (t_events t). gone r \<and> er_event_id r = ob_event_id o')) (t_outbox t)\<rparr>))"

definition old_run :: "time \<Rightarrow> tables \<Rightarrow> string \<Rightarrow> bool" where
  "old_run before t rid \<longleftrightarrow> (\<exists>r \<in> set (t_runs t). pr_run_id r = rid \<and> pr_started r < before)"

definition delete_old_reservations :: "time \<Rightarrow> unit sql" where
  "delete_old_reservations before = exec_stmt (\<lambda>t. Inr ((),
     t\<lparr>t_reservations := filter (\<lambda>v. \<not> old_run before t (rv_run_id v)) (t_reservations t)\<rparr>))"

definition delete_old_repetition :: "time \<Rightarrow> unit sql" where
  "delete_old_repetition before = exec_stmt (\<lambda>t. Inr ((),
     t\<lparr>t_repetition := filter (\<lambda>v. \<not> old_run before t (rp_run_id v)) (t_repetition t)\<rparr>))"

text \<open>A run that still has reservations cannot be deleted: \<open>REFERENCES policy_runs(run_id)\<close>.\<close>

definition delete_old_runs :: "time \<Rightarrow> unit sql" where
  "delete_old_runs before = exec_stmt (\<lambda>t.
     if \<exists>v \<in> set (t_reservations t). old_run before t (rv_run_id v) then Inl ErrDriver
     else Inr ((), t\<lparr>t_runs := filter (\<lambda>r. \<not> pr_started r < before) (t_runs t)\<rparr>))"

text \<open>\<open>Prune\<close>: four statements, not a transaction; on a late error the count is still returned.\<close>

definition prune :: "time \<Rightarrow> journal \<Rightarrow> (nat \<times> goerr option) \<times> journal" where
  "prune before j = (case delete_old_events before j of
     (Inl e, j') \<Rightarrow> ((0, Some e), j')
   | (Inr n, j') \<Rightarrow>
       (case bindE (delete_old_reservations before) (\<lambda>_. bindE (delete_old_repetition before) (\<lambda>_.
               delete_old_runs before)) j' of
          (Inl e, j'') \<Rightarrow> ((n, Some e), j'')
        | (Inr _, j'') \<Rightarrow> ((n, None), j'')))"

section \<open>The remote policy cache and repetition state\<close>

definition load_remote_policy :: "(int \<times> policy_envelope) option sql" where
  "load_remote_policy = query t_remote"

definition save_remote_policy :: "int \<Rightarrow> policy_envelope \<Rightarrow> unit sql" where
  "save_remote_policy version payload =
     (if version \<le> 0 then fail (Errorf ''valid remote policy version and payload required'')
      else bindE (exec_stmt (\<lambda>t. case t_remote t of
          Some (v, p) \<Rightarrow> if version > v then Inr (1 :: nat, t\<lparr>t_remote := Some (version, payload)\<rparr>) else Inr (0, t)
        | None \<Rightarrow> Inr (1, t\<lparr>t_remote := Some (version, payload)\<rparr>)))
       (\<lambda>rows. if rows = 0 then fail (Errorf ''remote policy version is stale'') else ret ()))"

definition load_repetition_state :: "string \<Rightarrow> string \<Rightarrow> (int \<times> string list) sql" where
  "load_repetition_state rid kind =
     bindE (query (\<lambda>t. first_row (\<lambda>r. rp_run_id r = rid \<and> rp_kind r = kind) (t_repetition t))) (\<lambda>row.
       case row of None \<Rightarrow> ret (0, []) | Some r \<Rightarrow> ret (rp_count r, rp_values r))"

definition save_repetition_state :: "time \<Rightarrow> string \<Rightarrow> string \<Rightarrow> int \<Rightarrow> string list \<Rightarrow> unit sql" where
  "save_repetition_state now rid kind n vs = exec_stmt (\<lambda>t.
     if \<exists>r \<in> set (t_repetition t). rp_run_id r = rid \<and> rp_kind r = kind
     then Inr ((), t\<lparr>t_repetition := update_where (\<lambda>r. rp_run_id r = rid \<and> rp_kind r = kind)
            (\<lambda>r. r\<lparr>rp_count := n, rp_values := vs, rp_updated := now\<rparr>) (t_repetition t)\<rparr>)
     else Inr ((), t\<lparr>t_repetition := t_repetition t @
            [\<lparr>rp_run_id = rid, rp_kind = kind, rp_count = n, rp_values = vs, rp_updated = now\<rparr>]\<rparr>))"

section \<open>What a successful append did\<close>

definition events_ok :: "tables \<Rightarrow> bool" where
  "events_ok t \<longleftrightarrow> distinct_on er_event_id (t_events t) \<and>
     (\<forall>r \<in> set (t_events t). r = event_row_of (er_payload r) \<and> er_event_id r \<noteq> []) \<and>
     distinct_on (\<lambda>o'. (ob_destination o', ob_event_id o')) (t_outbox t) \<and>
     (\<forall>o' \<in> set (t_outbox t). ob_event_id o' \<in> er_event_id ` set (t_events t))"

definition appended :: "time \<Rightarrow> event \<Rightarrow> string list \<Rightarrow> tables \<Rightarrow> tables \<Rightarrow> bool" where
  "appended now e dests t t' \<longleftrightarrow>
     ev_event_id e \<noteq> [] \<and> ev_event_id e \<notin> er_event_id ` set (t_events t) \<and>
     t' = t\<lparr>t_events := t_events t @ [event_row_of e], t_outbox := t_outbox t @ map (pending_row now e) dests\<rparr>"

lemma insert_event_run:
  assumes "insert_event e j = (Inr u, j')"
  shows "ev_event_id e \<notin> er_event_id ` set (t_events (tbl j))"
    "tbl j' = (tbl j)\<lparr>t_events := t_events (tbl j) @ [event_row_of e]\<rparr>"
  using exec_stmt_run [OF assms [unfolded insert_event_def]] by (auto split: if_splits)

lemma insert_outbox_run:
  assumes "insert_outbox now e d j = (Inr u, j')"
  shows "(d, ev_event_id e) \<notin> (\<lambda>o'. (ob_destination o', ob_event_id o')) ` set (t_outbox (tbl j))"
    "tbl j' = (tbl j)\<lparr>t_outbox := t_outbox (tbl j) @ [pending_row now e d]\<rparr>"
    "d \<noteq> []" "length d \<le> 64"
  using assms unfolding insert_outbox_def by (auto split: if_splits dest!: exec_stmt_run)

lemma insert_outboxes_run:
  "for_each (insert_outbox now e) ds j = (Inr u, j') \<Longrightarrow>
   tbl j' = (tbl j)\<lparr>t_outbox := t_outbox (tbl j) @ map (pending_row now e) ds\<rparr> \<and> distinct ds \<and>
   (\<forall>d \<in> set ds. d \<noteq> [] \<and> length d \<le> 64 \<and>
     (d, ev_event_id e) \<notin> (\<lambda>o'. (ob_destination o', ob_event_id o')) ` set (t_outbox (tbl j)))"
proof (induction ds arbitrary: j)
  case Nil
  then show ?case by (simp add: ret_def)
next
  case (Cons d ds)
  then obtain j1 where 1: "insert_outbox now e d j = (Inr (), j1)"
    and 2: "for_each (insert_outbox now e) ds j1 = (Inr u, j')" by (auto simp: bindE_run)
  note i = insert_outbox_run [OF 1]
  from Cons.IH [OF 2] i show ?case
    by (auto simp: pending_row_def image_iff)
qed

lemma distinct_on_append:
  "distinct_on k (xs @ ys) \<longleftrightarrow> distinct_on k xs \<and> distinct_on k ys \<and> k ` set xs \<inter> k ` set ys = {}"
  by (simp add: distinct_on_def)

lemma appended_ok:
  assumes "appended now e dests t t'" "distinct dests" "events_ok t"
  shows "events_ok t'"
proof -
  let ?k = "\<lambda>o'. (ob_destination o', ob_event_id o')"
  have new: "ev_event_id e \<notin> er_event_id ` set (t_events t)" "ev_event_id e \<noteq> []"
    and t': "t' = t\<lparr>t_events := t_events t @ [event_row_of e], t_outbox := t_outbox t @ map (pending_row now e) dests\<rparr>"
    using assms(1) by (simp_all add: appended_def)
  have other: "\<forall>o' \<in> set (t_outbox t). ob_event_id o' \<noteq> ev_event_id e"
    using assms(3) new unfolding events_ok_def by metis
  have ids: "ob_event_id (pending_row now e d) = ev_event_id e" "er_event_id (event_row_of e) = ev_event_id e"
    "er_payload (event_row_of e) = e" for d by (simp_all add: pending_row_def event_row_of_def)
  have "distinct_on ?k (map (pending_row now e) dests)"
    using assms(2) by (simp add: distinct_on_def comp_def pending_row_def distinct_map inj_on_def)
  moreover have "?k ` set (t_outbox t) \<inter> ?k ` set (map (pending_row now e) dests) = {}"
    using other by (auto simp: pending_row_def)
  ultimately have "distinct_on ?k (t_outbox t')"
    using assms(3) by (simp add: t' distinct_on_append events_ok_def)
  moreover have "distinct_on er_event_id (t_events t')"
    using assms(3) new by (auto simp: t' events_ok_def distinct_on_append_one ids)
  ultimately show ?thesis
    using assms(3) new(2) by (auto simp: t' events_ok_def ids)
qed

lemma append_transaction_run:
  assumes "append_transaction now e dests j = (Inr u, j')"
  shows "appended now e dests (tbl j) (tbl j')" "distinct dests" "ev_installation_id e = j_installation_id j"
    "ev_content_capture e = False" "is_ok (prepare e)" "ev_event_id e \<noteq> []"
proof -
  from assms show "ev_installation_id e = j_installation_id j" "ev_content_capture e = False" and p: "is_ok (prepare e)"
    and ne: "ev_event_id e \<noteq> []"
    by (auto simp: append_transaction_def invalid_for_journal_def split: if_splits sum.splits)
  from assms p obtain b where t: "tx (bindE (insert_event e) (\<lambda>_.
           bindE (for_each (insert_outbox now e) dests) (\<lambda>_. ret (True, ())))) j = (Inr b, j')"
    by (auto simp: append_transaction_def split: if_splits sum.splits)
  from tx_run [OF t] obtain j1 j2 j3 where b: "tbl j1 = tbl j" "insert_event e j1 = (Inr (), j2)"
    "for_each (insert_outbox now e) dests j2 = (Inr (), j3)" "tbl j' = tbl j3" by (auto simp: run_simps)
  from insert_event_run [OF b(2)] insert_outboxes_run [OF b(3)] b(1,4) ne
  show "appended now e dests (tbl j) (tbl j')" "distinct dests" by (simp_all add: appended_def)
qed

lemma append_transaction_error:
  "append_transaction now e dests j = (Inl x, j') \<Longrightarrow> tbl j' = tbl j"
  by (auto simp: append_transaction_def dest: tx_error_rolls_back split: if_splits sum.splits)

text \<open>An append is all or nothing: when \<open>Append\<close> reports success the validated event of this
  installation is stored once, with exactly one pending outbox row per destination; when it reports
  an error other than a cancelled context, no table changed.\<close>

theorem append_all_or_nothing:
  assumes "append w now e dests j = (x, j')" "x \<noteq> Inl ErrContext"
  shows "if is_ok x then appended now e dests (tbl j) (tbl j') \<and> distinct dests \<and> is_ok (validate_event e)
           else tbl j' = tbl j"
proof -
  have "if is_ok x then appended now e dests (tbl j) (tbl j') \<and> distinct dests \<and> is_ok (validate_event e)
      else tbl j' = tbl j" if a: "append_transaction now e dests j = (x, j')"
  proof (cases x)
    case (Inl err)
    with a show ?thesis by (auto dest: append_transaction_error)
  next
    case (Inr u)
    with a have r: "append_transaction now e dests j = (Inr u, j')" by simp
    from append_transaction_run [OF r] Inr show ?thesis
      by (auto simp: is_ok_iff prepare_Inr_iff)
  qed
  then show ?thesis
    using assms by (auto simp: append_def split: if_splits append_wait.splits)
qed

definition event_journal :: journal where
  "event_journal = snd (append Waited 7 example_event [''otlp'', ''controlplane''] (new_journal ''install_1''))"

lemma append_all_or_nothing_witness:
  "appended 7 example_event [''otlp'', ''controlplane''] (tbl (new_journal ''install_1'')) (tbl event_journal)"
proof -
  have f: "fst (append Waited 7 example_event [''otlp'', ''controlplane''] (new_journal ''install_1'')) = Inr ()"
    by code_simp
  have "append Waited 7 example_event [''otlp'', ''controlplane''] (new_journal ''install_1'') = (Inr (), event_journal)"
    using f by (simp add: event_journal_def prod_eq_iff)
  from append_all_or_nothing [OF this] show ?thesis by simp
qed

section \<open>Policy blocks\<close>

lemma update_blocked_run:
  assumes "update_blocked n j = (Inr rows, j')"
  defines "P \<equiv> \<lambda>x. ex_run_id x = pb_run_id n \<and> ex_state x = StateRunning"
  shows "rows = count_where P (t_executions (tbl j))"
    "tbl j' = (tbl j)\<lparr>t_executions := update_where P (set_blocked n) (t_executions (tbl j))\<rparr>"
    "rows \<noteq> 0 \<Longrightarrow> 0 \<le> pb_attempt n \<and> 0 \<le> pb_threshold n"
proof -
  note r = exec_stmt_run [OF assms(1) [unfolded update_blocked_def Let_def], folded P_def]
  let ?bad = "(\<exists>x \<in> set (t_executions (tbl j)). P x) \<and> (pb_attempt n < 0 \<or> pb_threshold n < 0)"
  have "\<not> ?bad"
  proof
    assume ?bad
    with r show False by simp
  qed
  with r show c: "rows = count_where P (t_executions (tbl j))"
    and "tbl j' = (tbl j)\<lparr>t_executions := update_where P (set_blocked n) (t_executions (tbl j))\<rparr>"
    by (simp_all only: if_False sum.inject prod.inject)
  show "0 \<le> pb_attempt n \<and> 0 \<le> pb_threshold n" if "rows \<noteq> 0"
    using that c \<open>\<not> ?bad\<close> count_where_0 [of P] by (metis not_le)
qed

lemma block_conflict_fails: "block_conflict n j \<noteq> (Inr x, j')"
  by (auto simp: block_conflict_def split: prod.splits sum.splits)

definition block_recorded :: "event \<Rightarrow> policy_block_notice \<Rightarrow> tables \<Rightarrow> tables \<Rightarrow> bool" where
  "block_recorded e n t t' \<longleftrightarrow>
     count_where (\<lambda>x. ex_run_id x = pb_run_id n \<and> ex_state x = StateRunning) (t_executions t) = 1 \<and>
     ev_event_id e \<notin> er_event_id ` set (t_events t) \<and>
     t' = t\<lparr>t_executions := update_where (\<lambda>x. ex_run_id x = pb_run_id n \<and> ex_state x = StateRunning)
               (set_blocked n) (t_executions t),
            t_events := t_events t @ [event_row_of e]\<rparr>"

lemma record_policy_block_run:
  assumes "record_policy_block e n j = (Inr u, j')"
  shows "block_recorded e n (tbl j) (tbl j')" "\<not> invalid_notice n"
proof -
  from assms have ok: "pb_run_id n \<noteq> []" "pb_policy n \<noteq> []" "pb_reason n \<noteq> []" "pb_occurred n \<noteq> zero_time"
    and "\<exists>v. tx (bindE (update_blocked n) (\<lambda>rows. if rows \<noteq> 1 then block_conflict n
             else bindE (insert_event e) (\<lambda>_. ret (True, ())))) j = (Inr v, j')"
    by (auto simp: record_policy_block_def split: if_splits sum.splits)
  then obtain v where t: "tx (bindE (update_blocked n) (\<lambda>rows. if rows \<noteq> 1 then block_conflict n
             else bindE (insert_event e) (\<lambda>_. ret (True, ())))) j = (Inr v, j')" by blast
  from tx_run [OF t] obtain j1 commit j2 where b: "tbl j1 = tbl j"
    "bindE (update_blocked n) (\<lambda>rows. if rows \<noteq> 1 then block_conflict n
       else bindE (insert_event e) (\<lambda>_. ret (True, ()))) j1 = (Inr (commit, v), j2)"
    "tbl j' = (if commit then tbl j2 else tbl j)" by blast
  then obtain rows j3 where u: "update_blocked n j1 = (Inr rows, j3)" and "rows = 1"
    and "bindE (insert_event e) (\<lambda>_. ret (True, ())) j3 = (Inr (commit, v), j2)"
    by (elim bindE_okE) (auto simp: block_conflict_fails split: if_splits)
  then have i: "insert_event e j3 = (Inr (), j2)" and commit by (auto simp: run_simps)
  note ub = update_blocked_run [OF u] and ie = insert_event_run [OF i]
  show "block_recorded e n (tbl j) (tbl j')"
    using ub(1,2) ie b(1,3) \<open>commit\<close> \<open>rows = 1\<close> by (simp add: block_recorded_def)
  show "\<not> invalid_notice n"
    using ub(3) ok \<open>rows = 1\<close> by (auto simp: invalid_notice_def)
qed

lemma record_policy_block_error:
  "record_policy_block e n j = (Inl x, j') \<Longrightarrow> tbl j' = tbl j"
  by (auto simp: record_policy_block_def dest: tx_error_rolls_back split: if_splits sum.splits)

text \<open>C11: A policy block is recorded atomically: when \<open>RecordPolicyBlock\<close> succeeds the run is in
  state blocked with the policy, reason, attempt and threshold of the notice, and the block event is
  in the log; when it fails, whatever the error, neither the run nor the log changed.\<close>

theorem policy_block_atomic:
  assumes "record_policy_block e n j = (x, j')" "executions_ok (tbl j)"
  shows "(is_ok x \<and> select_event (ev_event_id e) (tbl j') = Some (event_row_of e) \<and>
     (\<exists>y. select_execution (pb_run_id n) (tbl j') = Some y \<and> ex_state y = StateBlocked \<and>
        ex_policy y = Some (pb_policy n) \<and> ex_policy_reason y = Some (pb_reason n) \<and>
        ex_policy_attempt y = Some (pb_attempt n) \<and> ex_policy_threshold y = Some (pb_threshold n))) \<or>
     (\<not> is_ok x \<and> tbl j' = tbl j)"
proof (cases x)
  case (Inl err)
  with assms(1) show ?thesis by (auto dest: record_policy_block_error)
next
  case (Inr u)
  with assms(1) have "record_policy_block e n j = (Inr u, j')" by simp
  from record_policy_block_run(1) [OF this] have r: "block_recorded e n (tbl j) (tbl j')" .
  let ?P = "\<lambda>x. ex_run_id x = pb_run_id n \<and> ex_state x = StateRunning"
  from r have c: "count_where ?P (t_executions (tbl j)) = 1"
    and new: "ev_event_id e \<notin> er_event_id ` set (t_events (tbl j))"
    and t': "tbl j' = (tbl j)\<lparr>t_executions := update_where ?P (set_blocked n) (t_executions (tbl j)),
            t_events := t_events (tbl j) @ [event_row_of e]\<rparr>" by (simp_all add: block_recorded_def)
  have "first_row (\<lambda>r. er_event_id r = ev_event_id e) (t_events (tbl j)) = None"
    using new unfolding first_row_None by force
  then have "select_event (ev_event_id e) (tbl j') = Some (event_row_of e)"
    by (simp add: select_event_def t' first_row_append event_row_of_def)
  moreover have "\<exists>x. select_execution (pb_run_id n) (tbl j') = Some (set_blocked n x)"
    using update_one_row [OF assms(2) c, of "pb_run_id n" "set_blocked n"]
    by (auto simp: select_execution_def t' set_blocked_def)
  ultimately show ?thesis using Inr by (auto simp: set_blocked_def)
qed

definition block_event :: event where
  "block_event = example_event\<lparr>ev_installation_id := ''i''\<rparr>"

lemma policy_block_atomic_witness:
  "ex_state (the (select_execution ''r'' (tbl (snd (record_policy_block block_event sample_notice started_journal)))))
    = StateBlocked"
proof -
  have "is_ok (fst (record_policy_block block_event sample_notice started_journal))" by code_simp
  with policy_block_atomic [OF surjective_pairing sample_journals_ok(1), of block_event sample_notice]
  show ?thesis by (auto simp: sample_notice_def)
qed

text \<open>Losing the race to block is reported as such: with a working driver, a valid block event for
  a run that is already blocked is refused with \<open>ErrPolicyBlockRecorded\<close>, so callers can tell a
  duplicate block from an invalid transition.\<close>

theorem duplicate_block_reported:
  assumes "executions_ok (tbl j)" "select_execution (pb_run_id n) (tbl j) = Some x" "ex_state x = StateBlocked"
    and "faults j = []" "\<not> j_closed j" "\<not> invalid_notice n" "\<not> invalid_for_journal j e" "is_ok (prepare e)"
  shows "\<exists>j'. record_policy_block e n j = (Inl ErrPolicyBlockRecorded, j')"
proof -
  let ?P = "\<lambda>x. ex_run_id x = pb_run_id n \<and> ex_state x = StateRunning"
  from assms(2) have x: "x \<in> set (t_executions (tbl j))" "ex_run_id x = pb_run_id n"
    unfolding select_execution_def by (auto dest: first_row_Some)
  have "\<forall>y \<in> set (t_executions (tbl j)). \<not> ?P y"
  proof (intro ballI notI)
    fix y assume y: "y \<in> set (t_executions (tbl j))" "?P y"
    have "distinct_on ex_run_id (t_executions (tbl j))" using assms(1) by (simp add: executions_ok_def)
    then have "y = x" using y x by (auto intro: distinct_on_unique)
    with y(2) assms(3) show False by simp
  qed
  then have u: "count_where ?P (t_executions (tbl j)) = 0" "\<not> (\<exists>y \<in> set (t_executions (tbl j)). ?P y)"
    "update_where ?P (set_blocked n) (t_executions (tbl j)) = t_executions (tbl j)"
    by (auto simp: count_where_0 intro: update_where_none)
  have "update_blocked n j = (Inr 0, j)"
    using u assms(4) by (simp add: update_blocked_def Let_def)
  then have "tx (bindE (update_blocked n) (\<lambda>rows. if rows \<noteq> 1 then block_conflict n
             else bindE (insert_event e) (\<lambda>_. ret (True, ())))) j = (Inl ErrPolicyBlockRecorded, j)"
    using assms(2-4) by (simp add: tx_none bindE_Inr block_conflict_def)
  moreover obtain p where "prepare e = Inr p" using assms(8) by (auto simp: is_ok_iff)
  ultimately show ?thesis
    using assms(5-7) by (auto simp: record_policy_block_def invalid_notice_def)
qed

lemma duplicate_block_reported_witness:
  "\<exists>j'. record_policy_block block_event sample_notice blocked_journal = (Inl ErrPolicyBlockRecorded, j')"
proof (rule duplicate_block_reported [OF sample_journals_ok(2)])
  show "select_execution (pb_run_id sample_notice) (tbl blocked_journal) = Some (set_blocked sample_notice started_row)"
    using sample_rows(2) by (simp add: sample_notice_def)
  have "faults blocked_journal = [] \<and> \<not> j_closed blocked_journal \<and> \<not> invalid_for_journal blocked_journal block_event
    \<and> is_ok (prepare block_event) \<and> \<not> invalid_notice sample_notice" by code_simp
  then show "faults blocked_journal = []" "\<not> j_closed blocked_journal" "\<not> invalid_notice sample_notice"
    "\<not> invalid_for_journal blocked_journal block_event" "is_ok (prepare block_event)" by simp_all
qed (simp add: set_blocked_def)

section \<open>Retention\<close>

text \<open>What every statement of \<open>Prune\<close> leaves alone.\<close>

definition kept_by_prune :: "time \<Rightarrow> tables \<Rightarrow> tables \<Rightarrow> bool" where
  "kept_by_prune before t t' \<longleftrightarrow>
     (\<forall>r \<in> set (t_events t). er_created r \<ge> before \<or> undelivered t (er_event_id r) \<longrightarrow> r \<in> set (t_events t')) \<and>
     (\<forall>o' \<in> set (t_outbox t). ob_state o' \<noteq> Delivered \<longrightarrow> o' \<in> set (t_outbox t')) \<and>
     set (t_events t') \<subseteq> set (t_events t) \<and> set (t_outbox t') \<subseteq> set (t_outbox t) \<and>
     t_executions t' = t_executions t \<and> t_contents t' = t_contents t \<and> t_daily t' = t_daily t"

lemma kept_refl: "t_events t' = t_events t \<Longrightarrow> t_outbox t' = t_outbox t \<Longrightarrow> t_executions t' = t_executions t \<Longrightarrow>
    t_contents t' = t_contents t \<Longrightarrow> t_daily t' = t_daily t \<Longrightarrow> kept_by_prune b t t'"
  by (simp add: kept_by_prune_def)

lemma delete_old_events_run:
  assumes "delete_old_events before j = (Inr n, j')" "events_ok (tbl j)"
  shows "kept_by_prune before (tbl j) (tbl j')"
    "\<forall>r \<in> set (t_events (tbl j')). er_created r \<ge> before \<or> undelivered (tbl j) (er_event_id r)"
proof -
  note t = exec_stmt_run [OF assms(1) [unfolded delete_old_events_def Let_def]]
  have un: "undelivered (tbl j) (ob_event_id o')" if "o' \<in> set (t_outbox (tbl j))" "ob_state o' \<noteq> Delivered" for o'
    using that by (auto simp: undelivered_def)
  from t un show "kept_by_prune before (tbl j) (tbl j')"
    by (auto simp: kept_by_prune_def dest!: sym [of _ "tbl j'"])
  from t show "\<forall>r \<in> set (t_events (tbl j')). er_created r \<ge> before \<or> undelivered (tbl j) (er_event_id r)"
    by (auto dest!: sym [of _ "tbl j'"])
qed

definition prune_rest :: "time \<Rightarrow> unit sql" where
  "prune_rest before = bindE (delete_old_reservations before) (\<lambda>_.
     bindE (delete_old_repetition before) (\<lambda>_. delete_old_runs before))"

lemma prune_rest_keeps:
  assumes "\<And>t vs. P t \<Longrightarrow> P (t\<lparr>t_reservations := vs\<rparr>)" "\<And>t vs. P t \<Longrightarrow> P (t\<lparr>t_repetition := vs\<rparr>)"
    "\<And>t vs. P t \<Longrightarrow> P (t\<lparr>t_runs := vs\<rparr>)"
  shows "keeps P (prune_rest before)"
  unfolding prune_rest_def delete_old_reservations_def delete_old_repetition_def delete_old_runs_def
  by (intro keeps_intros) (auto intro: assms split: if_splits)

lemma prune_run:
  assumes "prune before j = ((n, err), j')"
  obtains (failed) "tbl j' = tbl j" "err \<noteq> None"
  | (ran) j1 where "delete_old_events before j = (Inr n, j1)"
      "prune_rest before j1 = (case err of None \<Rightarrow> Inr () | Some e \<Rightarrow> Inl e, j')"
proof (cases "delete_old_events before j")
  case (Pair x j1)
  show ?thesis
  proof (cases x)
    case (Inl e)
    with Pair assms have "tbl j' = tbl j" "err \<noteq> None"
      by (auto simp: prune_def delete_old_events_def Let_def dest!: exec_stmt_error)
    then show ?thesis by (rule failed)
  next
    case (Inr m)
    with Pair assms show ?thesis
      by (intro ran) (auto simp: prune_def prune_rest_def split: prod.splits sum.splits)
  qed
qed

text \<open>C20: Retention never loses an undelivered event: however \<open>Prune\<close> ends, every event newer than
  the cutoff, every event with an outbox row that is not delivered, and every such outbox row
  survive; it adds nothing, and executions, contents and daily counters are untouched.\<close>

theorem prune_keeps_undelivered:
  assumes "prune before j = (r, j')" "events_ok (tbl j)"
  shows "kept_by_prune before (tbl j) (tbl j')"
proof -
  obtain n err where r: "r = (n, err)" by (cases r)
  from assms(1) [unfolded r] show ?thesis
  proof (cases rule: prune_run)
    case failed
    then show ?thesis by (simp add: kept_refl)
  next
    case (ran j1)
    have "keeps (kept_by_prune before (tbl j)) (prune_rest before)"
      by (rule prune_rest_keeps) (simp_all add: kept_by_prune_def)
    then show ?thesis using ran(2) delete_old_events_run(1) [OF ran(1) assms(2)] by (rule keepsD)
  qed
qed

lemma events_ok_new: "events_ok (tbl (new_journal i))"
  by (simp add: events_ok_def new_journal_def empty_tables_def)

lemma event_journal_ok: "events_ok (tbl event_journal)"
proof -
  have f: "fst (append_transaction 7 example_event [''otlp'', ''controlplane''] (new_journal ''install_1'')) = Inr ()"
    by code_simp
  have c: "\<not> j_closed (new_journal ''install_1'')" by (simp add: new_journal_def)
  from f c have "append_transaction 7 example_event [''otlp'', ''controlplane''] (new_journal ''install_1'') = (Inr (), event_journal)"
    by (simp add: event_journal_def append_def prod_eq_iff)
  from append_transaction_run [OF this] show ?thesis
    using appended_ok events_ok_new by blast
qed

lemma prune_keeps_undelivered_witness:
  "kept_by_prune 99999 (tbl event_journal) (tbl (snd (prune 99999 event_journal)))"
  by (rule prune_keeps_undelivered [OF surjective_pairing event_journal_ok])

lemma of_run_filter_runs:
  "of_run rid (t\<lparr>t_runs := a, t_reservations := b, t_repetition := c\<rparr>) = filter (\<lambda>v. rv_run_id v = rid) b"
  by (simp add: of_run_def)

text \<open>Retention keeps the ledger consistent: a \<open>Prune\<close> that reports no error removes old runs with
  all their reservations, so the totals of the remaining runs still are the sums of their
  reservations, and every remaining run started at or after the cutoff.\<close>

theorem prune_keeps_ledger:
  assumes "prune before j = ((n, None), j')" "ledger_ok (tbl j)"
  shows "ledger_ok (tbl j') \<and> (\<forall>r \<in> set (t_runs (tbl j')). before \<le> pr_started r)"
  using assms(1)
proof (cases rule: prune_run)
  case failed
  then show ?thesis by simp
next
  case (ran j1)
  let ?t = "tbl j"
  have e: "t_runs (tbl j1) = t_runs ?t" "t_reservations (tbl j1) = t_reservations ?t"
    using exec_stmt_run [OF ran(1) [unfolded delete_old_events_def Let_def]]
    by (auto dest!: sym [of _ "tbl j1"])
  obtain j2 j3 where s: "delete_old_reservations before j1 = (Inr (), j2)"
    "delete_old_repetition before j2 = (Inr (), j3)" "delete_old_runs before j3 = (Inr (), j')"
    using ran(2) by (auto simp: prune_rest_def bindE_run)
  let ?gone = "\<lambda>v. old_run before ?t (rv_run_id v)"
  have og: "old_run before t = old_run before ?t" if "t_runs t = t_runs ?t" for t
    using that by (simp add: old_run_def fun_eq_iff)
  have 2: "t_runs (tbl j2) = t_runs ?t" "t_reservations (tbl j2) = filter (\<lambda>v. \<not> ?gone v) (t_reservations ?t)"
    using exec_stmt_run [OF s(1) [unfolded delete_old_reservations_def]] e og [OF e(1)]
    by (auto dest!: sym [of _ "tbl j2"])
  have 3: "t_runs (tbl j3) = t_runs ?t" "t_reservations (tbl j3) = filter (\<lambda>v. \<not> ?gone v) (t_reservations ?t)"
    using exec_stmt_run [OF s(2) [unfolded delete_old_repetition_def]] 2 by (auto dest!: sym [of _ "tbl j3"])
  have none: "\<not> (\<exists>v \<in> set (t_reservations (tbl j3)). old_run before (tbl j3) (rv_run_id v))"
    unfolding 3 og [OF 3(1)] by simp
  have "tbl j' = (tbl j3)\<lparr>t_runs := filter (\<lambda>r. \<not> pr_started r < before) (t_runs (tbl j3))\<rparr>"
    using exec_stmt_run [OF s(3) [unfolded delete_old_runs_def], unfolded if_not_P [OF none]]
    by (simp only: sum.inject prod.inject)
  then have runs: "t_runs (tbl j') = filter (\<lambda>r. \<not> pr_started r < before) (t_runs ?t)"
    and res: "t_reservations (tbl j') = filter (\<lambda>v. \<not> ?gone v) (t_reservations ?t)"
    using 3 by simp_all
  have ok: "distinct_on pr_run_id (t_runs ?t)" "distinct_on rv_id (t_reservations ?t)"
    "\<forall>r \<in> set (t_runs ?t). run_balanced ?t r" "\<forall>v \<in> set (t_reservations ?t). reservation_ok ?t v"
    using assms(2) by (simp_all add: ledger_ok_def)
  have fresh: "\<not> old_run before ?t (pr_run_id r)" if "r \<in> set (t_runs ?t)" "before \<le> pr_started r" for r
  proof
    assume "old_run before ?t (pr_run_id r)"
    then obtain x where x: "x \<in> set (t_runs ?t)" "pr_run_id x = pr_run_id r" "pr_started x < before"
      unfolding old_run_def by blast
    from ok(1) x(1) that(1) x(2) have "x = r" by (rule distinct_on_unique)
    with x(3) that(2) show False by simp
  qed
  have same: "of_run (pr_run_id r) (tbl j') = of_run (pr_run_id r) ?t"
    if "r \<in> set (t_runs ?t)" "before \<le> pr_started r" for r
    using fresh [OF that] unfolding of_run_def res filter_filter by (intro filter_cong) auto
  have "run_balanced (tbl j') r" if "r \<in> set (t_runs (tbl j'))" for r
    using that ok(3) same unfolding runs by (auto simp: run_balanced_def)
  moreover have "reservation_ok (tbl j') v" if "v \<in> set (t_reservations (tbl j'))" for v
  proof -
    from that res have v: "v \<in> set (t_reservations ?t)" "\<not> ?gone v" by auto
    with ok(4) have r: "reservation_ok ?t v" by blast
    then obtain x where "x \<in> set (t_runs ?t)" "pr_run_id x = rv_run_id v" by (auto simp: reservation_ok_def)
    moreover from this v(2) have "\<not> pr_started x < before" by (auto simp: old_run_def)
    ultimately have "rv_run_id v \<in> pr_run_id ` set (t_runs (tbl j'))" unfolding runs by force
    with r show ?thesis by (simp add: reservation_ok_def)
  qed
  ultimately have "ledger_ok (tbl j')"
    using ok(1,2) by (simp add: ledger_ok_def runs res distinct_on_filter)
  then show ?thesis by (auto simp: runs)
qed

lemma prune_keeps_ledger_witness:
  "ledger_ok (tbl (snd (prune 3 reserved_journal)))"
proof -
  have "keeps ledger_ok (reserve_policy 5 (sample_reserve ''a''))"
    by (rule reserve_policy_ledger)
      (simp add: reserve_int64_def sample_reserve_def is_int64_def min_int64_def max_int64_def)
  then have ok: "ledger_ok (tbl reserved_journal)"
    unfolding reserved_journal_def
    by (rule keepsD [OF _ surjective_pairing]) (simp add: new_journal_def ledger_ok_empty)
  have "fst (prune 3 reserved_journal) = (0, None)" by code_simp
  then have "prune 3 reserved_journal = ((0, None), snd (prune 3 reserved_journal))" by (simp add: prod_eq_iff)
  from prune_keeps_ledger [OF this ok] show ?thesis ..
qed

section \<open>Paging through the log\<close>

lemma event_key_inj: "event_key_of r = event_key_of s \<Longrightarrow> er_event_id r = er_event_id s"
  by (simp add: event_key_of_def)

definition ordered_events :: "tables \<Rightarrow> event_row list" where
  "ordered_events t = sort_key event_key_of (t_events t)"

lemma ordered_events_strict:
  assumes "events_ok t"
  shows "sorted_wrt (\<lambda>r s. event_key_of r < event_key_of s) (ordered_events t)"
proof -
  let ?s = "ordered_events t"
  have "distinct (map er_event_id ?s)"
    using assms by (simp add: events_ok_def distinct_on_def ordered_events_def distinct_map)
  then have "distinct (map event_key_of ?s)"
    by (auto simp: distinct_map inj_on_def dest: event_key_inj)
  moreover have "sorted (map event_key_of ?s)" by (simp add: ordered_events_def)
  ultimately have "sorted_wrt (<) (map event_key_of ?s)" by (simp add: strict_sorted_iff)
  then show ?thesis by (simp add: sorted_wrt_map)
qed

lemma filter_after_nth:
  assumes "sorted_wrt (\<lambda>r s. f r < (f s :: 'k::linorder)) xs" "i < length xs"
  shows "filter (\<lambda>r. f (xs ! i) < f r) xs = drop (Suc i) xs"
  using assms
proof (induction xs arbitrary: i)
  case Nil
  then show ?case by simp
next
  case (Cons x xs)
  show ?case
  proof (cases i)
    case 0
    with Cons.prems show ?thesis by (auto intro: filter_True)
  next
    case (Suc k)
    then have "f x < f (xs ! k)" using Cons.prems by simp
    then have "\<not> f (xs ! k) < f x" by simp
    with Suc Cons show ?thesis by simp
  qed
qed

lemma rows_after_nth:
  assumes "events_ok t" "i < length (ordered_events t)"
  shows "rows_after (Some (event_key_of (ordered_events t ! i))) t = drop (Suc i) (ordered_events t)"
  using filter_after_nth [OF ordered_events_strict [OF assms(1)] assms(2)]
  by (simp add: rows_after_def ordered_events_def filter_sort)

lemma select_event_ordered:
  assumes "events_ok t" "i < length (ordered_events t)"
  shows "select_event (er_event_id (ordered_events t ! i)) t = Some (ordered_events t ! i)"
proof -
  have "ordered_events t ! i \<in> set (t_events t)"
    using nth_mem [OF assms(2)] by (simp add: ordered_events_def)
  with assms(1) show ?thesis
    unfolding select_event_def by (intro first_row_key) (simp_all add: events_ok_def)
qed

text \<open>The cursor after the first \<open>k\<close> events, and the page it leads to.\<close>

definition cursor_at :: "tables \<Rightarrow> nat \<Rightarrow> string" where
  "cursor_at t k = (if k = 0 then [] else er_event_id (ordered_events t ! (k - 1)))"

lemma list_events_page:
  assumes "events_ok (tbl j)" "faults j = []" "0 < limit" "limit \<le> 1000" "k < length (ordered_events (tbl j)) \<or> k = 0"
  defines "S \<equiv> ordered_events (tbl j)"
  shows "list_events (cursor_at (tbl j) k) limit j =
    (Inr (map er_payload (take (nat limit) (drop k S)),
          if length S > k + nat limit then cursor_at (tbl j) (k + nat limit) else []), j)"
proof -
  have "\<exists>after. (if cursor_at (tbl j) k = [] then ret None
          else bindE (query_row (select_event (cursor_at (tbl j) k)))
                (\<lambda>r. ret (Some (EventKey (er_created r) (cursor_at (tbl j) k))))) j = (Inr after, j) \<and>
      rows_after after (tbl j) = drop k S"
  proof (cases k)
    case 0
    then show ?thesis by (simp add: cursor_at_def rows_after_def S_def ordered_events_def)
  next
    case (Suc i)
    with assms(5) have i: "i < length (ordered_events (tbl j))" by simp
    have mem: "ordered_events (tbl j) ! i \<in> set (t_events (tbl j))"
      using nth_mem [OF i] by (simp add: ordered_events_def)
    with assms(1) have "er_event_id (ordered_events (tbl j) ! i) \<noteq> []" by (simp add: events_ok_def)
    with Suc select_event_ordered [OF assms(1) i] rows_after_nth [OF assms(1) i] assms(2) show ?thesis
      by (simp add: cursor_at_def bindE_def S_def event_key_of_def)
  qed
  then obtain after where a: "(if cursor_at (tbl j) k = [] then ret None
          else bindE (query_row (select_event (cursor_at (tbl j) k)))
                (\<lambda>r. ret (Some (EventKey (er_created r) (cursor_at (tbl j) k))))) j = (Inr after, j)"
    and r: "rows_after after (tbl j) = drop k S" by blast
  let ?n = "nat limit"
  have n: "0 < ?n" using assms(3) by simp
  have page: "list_page ?n (map er_payload (take (?n + 1) (drop k S))) =
     (map er_payload (take ?n (drop k S)),
      if length S > k + ?n then cursor_at (tbl j) (k + ?n) else [])"
  proof (cases "length S > k + ?n")
    case True
    have l: "?n - 1 < length (take (?n + 1) (drop k S))" using True n by auto
    have "map er_payload (take (?n + 1) (drop k S)) ! (?n - 1) = er_payload (drop k S ! (?n - 1))"
      using n by (subst nth_map [OF l]) simp
    also have "drop k S ! (?n - 1) = S ! (k + ?n - 1)" using True n by (simp add: add_diff_eq Suc_leI)
    finally have "map er_payload (take (?n + 1) (drop k S)) ! (?n - 1) = er_payload (S ! (k + ?n - 1))" .
    moreover have "ev_event_id (er_payload (S ! (k + ?n - 1))) = er_event_id (S ! (k + ?n - 1))"
    proof -
      have "S ! (k + ?n - 1) \<in> set (t_events (tbl j))"
        using True nth_mem [of "k + ?n - 1" S] by (simp add: S_def ordered_events_def)
      with assms(1) have "S ! (k + ?n - 1) = event_row_of (er_payload (S ! (k + ?n - 1)))"
        by (simp add: events_ok_def)
      then show ?thesis by (metis event_row_of_def event_row.select_convs(1))
    qed
    moreover have "length (map er_payload (take (?n + 1) (drop k S))) > ?n" using True by simp
    ultimately have "list_page ?n (map er_payload (take (?n + 1) (drop k S))) =
        (take ?n (map er_payload (take (?n + 1) (drop k S))), er_event_id (S ! (k + ?n - 1)))"
      by (simp only: list_page_def if_True)
    then show ?thesis using True n by (simp add: cursor_at_def S_def take_map min_def)
  next
    case False
    then have "\<not> ?n < length S - k" by linarith
    with False show ?thesis by (simp add: list_page_def min_def)
  qed
  show ?thesis
    using assms(2-4) a r page by (simp add: list_events_def bindE_def)
qed

section \<open>Postflight\<close>

text \<open>The three effects of a postflight: the reservation settled, the day counted, the event logged.\<close>

definition postflight_done ::
  "time \<Rightarrow> policy_outcome \<Rightarrow> event \<Rightarrow> string list \<Rightarrow> string \<Rightarrow> tables \<Rightarrow> tables \<Rightarrow> bool" where
  "postflight_done now oc e dests cost_usd t t' \<longleftrightarrow>
     (\<exists>t1 ds. (t1 = t \<or> settled oc t t1) \<and>
        daily_total (utc_day now) (t1\<lparr>t_daily := ds\<rparr>) =
          (fst (daily_total (utc_day now) t) + 1, snd (daily_total (utc_day now) t) + cost_val cost_usd) \<and>
        appended now e dests (t1\<lparr>t_daily := ds\<rparr>) t')"

lemma settled_daily: "settled oc t t' \<Longrightarrow> t_daily t' = t_daily t"
  by (auto simp: settled_def set_reconciled_def set_run_totals_def)

lemma daily_cong: "t_daily t' = t_daily t \<Longrightarrow> daily_ok t' = daily_ok t \<and> daily_total day t' = daily_total day t"
  by (simp add: daily_ok_def daily_total_def select_daily_def)

lemma postflight_and_append_run:
  assumes "postflight_and_append now oc e dests cost_usd j = (Inr u, j')"
  obtains j1 j2 j3 j4 j5 where "tbl j1 = tbl j" "reconcile_policy_tx oc j1 = (Inr (), j2)"
    "increment_daily_counters_tx now cost_usd j2 = (Inr (), j3)" "insert_event e j3 = (Inr (), j4)"
    "for_each (insert_outbox now e) dests j4 = (Inr (), j5)" "tbl j' = tbl j5" "ev_event_id e \<noteq> []"
proof -
  let ?body = "bindE (reconcile_policy_tx oc) (\<lambda>_. bindE (increment_daily_counters_tx now cost_usd) (\<lambda>_.
           bindE (insert_event e) (\<lambda>_. bindE (for_each (insert_outbox now e) dests) (\<lambda>_. ret (True, ())))))"
  from assms have t: "tx ?body j = (Inr u, j')" and ne: "ev_event_id e \<noteq> []"
    by (auto simp: postflight_and_append_def invalid_for_journal_def split: if_splits sum.splits)
  from tx_run [OF t] that ne show ?thesis by (auto simp: run_simps)
qed

lemma postflight_and_append_error:
  "postflight_and_append now oc e dests cost_usd j = (Inl err, j') \<Longrightarrow> tbl j' = tbl j"
  by (auto simp: postflight_and_append_def dest: tx_error_rolls_back split: if_splits sum.splits)

text \<open>Postflight is one transaction: when \<open>PostflightAndAppend\<close> succeeds the reservation is settled
  (or already was), the day counter has one more call with the given cost and the event is in the log
  with its outbox rows; when it fails none of the three happened.\<close>

theorem postflight_atomic:
  assumes "postflight_and_append now oc e dests cost_usd j = (x, j')" "daily_ok (tbl j)"
  shows "(is_ok x \<and> postflight_done now oc e dests cost_usd (tbl j) (tbl j')) \<or> (\<not> is_ok x \<and> tbl j' = tbl j)"
proof (cases x)
  case (Inl err)
  with assms(1) have "tbl j' = tbl j" using postflight_and_append_error by metis
  with Inl show ?thesis by simp
next
  case (Inr u)
  from assms(1) Inr obtain j1 j2 j3 j4 j5 where b: "tbl j1 = tbl j" "reconcile_policy_tx oc j1 = (Inr (), j2)"
    "increment_daily_counters_tx now cost_usd j2 = (Inr (), j3)" "insert_event e j3 = (Inr (), j4)"
    "for_each (insert_outbox now e) dests j4 = (Inr (), j5)" "tbl j' = tbl j5" and ne: "ev_event_id e \<noteq> []"
    by (metis postflight_and_append_run)
  from reconcile_tx_run [OF b(2)] b(1) have s: "tbl j2 = tbl j \<or> settled oc (tbl j) (tbl j2)" by auto
  then have "t_daily (tbl j2) = t_daily (tbl j)" by (auto dest: settled_daily)
  note d = daily_cong [OF this]
  have ok: "daily_ok (tbl j2)" using d assms(2) by blast
  note inc = increment_daily_tx_run [OF b(3) ok]
  from inc(3) obtain ds where ds: "tbl j3 = (tbl j2)\<lparr>t_daily := ds\<rparr>" by blast
  have "daily_total (utc_day now) (tbl j3) =
     (fst (daily_total (utc_day now) (tbl j)) + 1, snd (daily_total (utc_day now) (tbl j)) + cost_val cost_usd)"
    using inc(2) [of "utc_day now"] d [of "utc_day now"] by simp
  moreover have "appended now e dests (tbl j3) (tbl j')"
    using insert_event_run [OF b(4)] insert_outboxes_run [OF b(5)] b(6) ne by (simp add: appended_def)
  ultimately have "postflight_done now oc e dests cost_usd (tbl j) (tbl j')"
    using s unfolding postflight_done_def ds by blast
  with Inr show ?thesis by simp
qed

definition postflight_journal :: journal where
  "postflight_journal = reserved_journal\<lparr>j_installation_id := ''install_1''\<rparr>"

lemma postflight_atomic_witness:
  "postflight_done 7 (sample_outcome ''a'') example_event [''otlp''] ''0.4'' (tbl postflight_journal)
     (tbl (snd (postflight_and_append 7 (sample_outcome ''a'') example_event [''otlp''] ''0.4'' postflight_journal)))"
proof -
  have "is_ok (fst (postflight_and_append 7 (sample_outcome ''a'') example_event [''otlp''] ''0.4'' postflight_journal))
     \<and> t_daily (tbl postflight_journal) = []" by code_simp
  then have "is_ok (fst (postflight_and_append 7 (sample_outcome ''a'') example_event [''otlp''] ''0.4'' postflight_journal))"
    and "daily_ok (tbl postflight_journal)" by (simp_all add: daily_ok_def)
  with postflight_atomic [OF surjective_pairing] show ?thesis by blast
qed

section \<open>Small stores\<close>

text \<open>Cached remote policies only move forward.\<close>

definition remote_version :: "tables \<Rightarrow> int" where
  "remote_version t = (case t_remote t of None \<Rightarrow> 0 | Some (v, _) \<Rightarrow> v)"

lemma remote_version_Some: "t_remote t = Some (v, p) \<Longrightarrow> remote_version t = v"
  by (simp add: remote_version_def)

lemma save_remote_policy_monotone:
  assumes "save_remote_policy v p j = (x, j')" "0 \<le> remote_version (tbl j)"
  shows "remote_version (tbl j) \<le> remote_version (tbl j')"
    "x = Inr () \<Longrightarrow> t_remote (tbl j') = Some (v, p) \<and> remote_version (tbl j) < v"
proof -
  let ?f = "\<lambda>t. case t_remote t of
          Some (v', p') \<Rightarrow> if v > v' then Inr (1 :: nat, t\<lparr>t_remote := Some (v, p)\<rparr>) else Inr (0, t)
        | None \<Rightarrow> Inr (1, t\<lparr>t_remote := Some (v, p)\<rparr>)"
  have run: "(v \<le> remote_version (tbl j) \<and> n = 0 \<and> tbl j1 = tbl j) \<or>
     (remote_version (tbl j) < v \<and> n = 1 \<and> t_remote (tbl j1) = Some (v, p))"
    if "exec_stmt ?f j = (Inr n, j1)" "0 < v" for n j1
    using exec_stmt_run [OF that(1)] that(2) assms(2)
    by (auto simp: remote_version_def split: option.splits if_splits dest!: sym [of _ "tbl j1"])
  show "remote_version (tbl j) \<le> remote_version (tbl j')"
    using assms(1)
    by (auto simp: save_remote_policy_def bindE_def remote_version_Some split: if_splits prod.splits sum.splits
        dest!: exec_stmt_error run)
  show "x = Inr () \<Longrightarrow> t_remote (tbl j') = Some (v, p) \<and> remote_version (tbl j) < v"
    using assms(1)
    by (auto simp: save_remote_policy_def bindE_def split: if_splits prod.splits sum.splits dest!: run)
qed

lemma save_load_repetition:
  assumes "save_repetition_state now rid kind n vs j = (Inr (), j1)"
    and "load_repetition_state rid' kind' j1 = (Inr (n', vs'), j2)"
  shows "(rid', kind') = (rid, kind) \<Longrightarrow> (n', vs') = (n, vs)"
proof -
  assume k: "(rid', kind') = (rid, kind)"
  let ?q = "\<lambda>r. rp_run_id r = rid \<and> rp_kind r = kind"
  note s = exec_stmt_run [OF assms(1) [unfolded save_repetition_state_def]]
  have "\<exists>r. first_row ?q (t_repetition (tbl j1)) = Some r \<and> rp_count r = n \<and> rp_values r = vs"
  proof (cases "\<exists>r \<in> set (t_repetition (tbl j)). ?q r")
    case True
    then obtain r0 where "first_row ?q (t_repetition (tbl j)) = Some r0"
      using first_row_None [of ?q "t_repetition (tbl j)"] by (cases "first_row ?q (t_repetition (tbl j))") auto
    with s [unfolded if_P [OF True]] show ?thesis
      by (auto simp: first_row_update_where dest!: sym [of _ "tbl j1"] dest: first_row_Some)
  next
    case False
    then have "first_row ?q (t_repetition (tbl j)) = None" by (auto simp: first_row_None)
    with s [unfolded if_not_P [OF False]] show ?thesis
      by (auto simp: first_row_append dest!: sym [of _ "tbl j1"])
  qed
  with assms(2) k show ?thesis
    by (auto simp: load_repetition_state_def run_simps dest!: query_run)
qed

end
