(* ===== verification/Outbox.thy ===== *)
theory Outbox
  imports Event_Journal
begin

text \<open>
  \<open>internal/storage/outbox.go\<close>: the delivery queue. A row is leased for five minutes, then
  acknowledged, failed with an exponential backoff, or dead-lettered. \<open>outbox_step\<close> is the state
  machine of one row; the operations move rows along it and nowhere else.
\<close>

section \<open>Operations\<close>

definition max_attempts :: int where
  "max_attempts = 10"

definition lease_duration :: int where
  "lease_duration = 5 * 60 * 1000000000"

record delivery =
  dl_destination :: string
  dl_event_id :: string
  dl_idem_key :: string
  dl_event :: event
  dl_attempts :: int

definition due :: "time \<Rightarrow> outbox_row \<Rightarrow> bool" where
  "due now r \<longleftrightarrow> (ob_state r = Pending \<and> ob_next r \<le> now) \<or> (ob_state r = Retryable \<and> ob_next r \<le> now) \<or>
     (ob_state r = Sending \<and> (case ob_lease r of None \<Rightarrow> False | Some u \<Rightarrow> u < now))"

definition limit_rows :: "int \<Rightarrow> 'a list \<Rightarrow> 'a list" where
  "limit_rows limit xs = (if limit < 0 then xs else take (nat limit) xs)"

text \<open>The join with \<open>events\<close>, ordered by the time of the next attempt; rows of equal time in table
  order, which SQLite does not promise.\<close>

definition delivery_of :: "event_row \<Rightarrow> outbox_row \<Rightarrow> delivery" where
  "delivery_of e r = \<lparr>dl_destination = ob_destination r, dl_event_id = ob_event_id r,
     dl_idem_key = ob_idem_key r, dl_event = er_payload e, dl_attempts = ob_attempts r\<rparr>"

fun join_event :: "tables \<Rightarrow> outbox_row \<Rightarrow> delivery list" where
  "join_event t r = (case select_event (ob_event_id r) t of None \<Rightarrow> [] | Some e \<Rightarrow> [delivery_of e r])"

definition select_due :: "string \<Rightarrow> int \<Rightarrow> time \<Rightarrow> tables \<Rightarrow> delivery list" where
  "select_due d limit now t = limit_rows limit (concat (map (join_event t)
     (sort_key ob_next (filter (\<lambda>r. ob_destination r = d \<and> due now r) (t_outbox t)))))"

definition is_delivery :: "string \<Rightarrow> string \<Rightarrow> outbox_row \<Rightarrow> bool" where
  "is_delivery d eid r \<longleftrightarrow> ob_destination r = d \<and> ob_event_id r = eid"

definition update_outbox :: "(outbox_row \<Rightarrow> bool) \<Rightarrow> (outbox_row \<Rightarrow> outbox_row) \<Rightarrow> unit sql" where
  "update_outbox P f = exec_stmt (\<lambda>t. Inr ((), t\<lparr>t_outbox := update_where P f (t_outbox t)\<rparr>))"

definition set_sending :: "time \<Rightarrow> outbox_row \<Rightarrow> outbox_row" where
  "set_sending until r = r\<lparr>ob_state := Sending, ob_lease := Some until\<rparr>"

definition lease :: "string \<Rightarrow> int \<Rightarrow> time \<Rightarrow> delivery list sql" where
  "lease d limit now = tx (bindE (query (select_due d limit now)) (\<lambda>ds.
     bindE (for_each (\<lambda>x. update_outbox (is_delivery d (dl_event_id x)) (set_sending (now + lease_duration))) ds)
       (\<lambda>_. ret (True, ds))))"

definition set_delivered :: "outbox_row \<Rightarrow> outbox_row" where
  "set_delivered r = r\<lparr>ob_state := Delivered, ob_lease := None\<rparr>"

definition ack :: "string \<Rightarrow> string list \<Rightarrow> unit sql" where
  "ack d ids = (if ids = [] then ret ()
     else tx (bindE (for_each (\<lambda>eid. update_outbox (\<lambda>r. is_delivery d eid r \<and> ob_state r = Sending) set_delivered) ids)
       (\<lambda>_. ret (True, ()))))"

definition set_dead :: "int \<Rightarrow> string \<Rightarrow> outbox_row \<Rightarrow> outbox_row" where
  "set_dead attempts code r = r\<lparr>ob_state := DeadLettered, ob_attempts := attempts, ob_error := Some code,
     ob_lease := None\<rparr>"

definition set_retryable :: "int \<Rightarrow> string \<Rightarrow> time \<Rightarrow> outbox_row \<Rightarrow> outbox_row" where
  "set_retryable attempts code next r = r\<lparr>ob_state := Retryable, ob_attempts := attempts, ob_error := Some code,
     ob_next := next, ob_lease := None\<rparr>"

text \<open>\<open>jitter\<close> is the value of \<open>rand.Int64N(30)\<close>.\<close>

definition fail_delivery :: "int \<Rightarrow> string \<Rightarrow> string \<Rightarrow> string \<Rightarrow> time \<Rightarrow> unit sql" where
  "fail_delivery jitter d eid code now =
     (if code = [] \<or> length code > 64 then fail (Errorf ''invalid error code'')
      else bindE (query_row (\<lambda>t. first_row (is_delivery d eid) (t_outbox t))) (\<lambda>r.
        let attempts = ob_attempts r + 1 in
        if attempts \<ge> max_attempts then update_outbox (is_delivery d eid) (set_dead attempts code)
        else update_outbox (is_delivery d eid)
               (set_retryable attempts code (now + (2 ^ nat attempts + jitter) * 1000000000))))"

definition dead_letter :: "string \<Rightarrow> string \<Rightarrow> string \<Rightarrow> unit sql" where
  "dead_letter d eid code =
     (if code = [] \<or> length code > 64 then fail (Errorf ''invalid error code'')
      else update_outbox (\<lambda>r. is_delivery d eid r \<and> ob_state r = Sending)
             (\<lambda>r. set_dead (ob_attempts r + 1) code r))"

definition outbox_stats :: "string \<Rightarrow> (outbox_state \<rightharpoonup> nat) sql" where
  "outbox_stats d = query (\<lambda>t s.
     let n = count_where (\<lambda>r. ob_destination r = d \<and> ob_state r = s) (t_outbox t) in
     if n = 0 then None else Some n)"

section \<open>The life of an outbox row\<close>

inductive outbox_step :: "outbox_row \<Rightarrow> outbox_row \<Rightarrow> bool" where
  leased: "due now r \<Longrightarrow> outbox_step r (set_sending (now + lease_duration) r)"
| acked: "ob_state r = Sending \<Longrightarrow> outbox_step r (set_delivered r)"
| retried: "ob_attempts r + 1 < max_attempts \<Longrightarrow> 0 \<le> jitter \<Longrightarrow> jitter < 30 \<Longrightarrow>
    outbox_step r (set_retryable (ob_attempts r + 1) code (now + (2 ^ nat (ob_attempts r + 1) + jitter) * 1000000000) r)"
| gave_up: "max_attempts \<le> ob_attempts r + 1 \<Longrightarrow> outbox_step r (set_dead (ob_attempts r + 1) code r)"
| rejected: "ob_state r = Sending \<Longrightarrow> outbox_step r (set_dead (ob_attempts r + 1) code r)"

inductive_cases outbox_stepE: "outbox_step r r'"

definition outbox_row_ok :: "outbox_row \<Rightarrow> bool" where
  "outbox_row_ok r \<longleftrightarrow> 0 \<le> ob_attempts r \<and> (ob_state r = Sending \<longleftrightarrow> ob_lease r \<noteq> None) \<and>
     (ob_state r = Retryable \<longrightarrow> ob_attempts r < max_attempts)"

lemma step_row:
  "outbox_step r r' \<Longrightarrow> ob_destination r' = ob_destination r \<and> ob_event_id r' = ob_event_id r \<and>
     ob_idem_key r' = ob_idem_key r"
  by (erule outbox_stepE) (simp_all add: set_sending_def set_delivered_def set_retryable_def set_dead_def)

lemma step_row_outbox_ok: "outbox_step r r' \<Longrightarrow> outbox_row_ok r \<Longrightarrow> outbox_row_ok r'"
  by (erule outbox_stepE)
    (auto simp: outbox_row_ok_def set_sending_def set_delivered_def set_retryable_def set_dead_def)

definition outbox_ok :: "tables \<Rightarrow> bool" where
  "outbox_ok t \<longleftrightarrow> events_ok t \<and> (\<forall>r \<in> set (t_outbox t). outbox_row_ok r)"

text \<open>The rows after an operation are the rows before it, each stepped at most once.\<close>

definition stepped :: "tables \<Rightarrow> tables \<Rightarrow> bool" where
  "stepped t t' \<longleftrightarrow> list_all2 (\<lambda>r r'. r' = r \<or> outbox_step r r') (t_outbox t) (t_outbox t') \<and>
     t' = t\<lparr>t_outbox := t_outbox t'\<rparr>"

lemma stepped_refl: "stepped t t"
  by (simp add: stepped_def list.rel_refl)

lemma stepped_update:
  "(\<And>r. r \<in> set (t_outbox t) \<Longrightarrow> P r \<Longrightarrow> outbox_step r (f r)) \<Longrightarrow>
   stepped t (t\<lparr>t_outbox := update_where P f (t_outbox t)\<rparr>)"
  by (auto simp: stepped_def update_where_def list_all2_map2 intro: list.rel_refl_strong)

lemma stepped_keys:
  "list_all2 (\<lambda>r r'. r' = r \<or> outbox_step r r') xs ys \<Longrightarrow>
   map (\<lambda>r. (ob_destination r, ob_event_id r)) ys = map (\<lambda>r. (ob_destination r, ob_event_id r)) xs"
  by (induction rule: list_all2_induct) (auto simp: step_row)

lemma stepped_ok:
  assumes "stepped t t'" "outbox_ok t"
  shows "outbox_ok t'"
proof -
  let ?k = "\<lambda>r. (ob_destination r, ob_event_id r)"
  from assms(1) have l: "list_all2 (\<lambda>r r'. r' = r \<or> outbox_step r r') (t_outbox t) (t_outbox t')"
    and e: "t_events t' = t_events t" unfolding stepped_def by (blast, metis tables.select_convs(6) tables.surjective tables.update_convs(7))
  have k: "map ?k (t_outbox t') = map ?k (t_outbox t)" using l by (rule stepped_keys)
  then have "?k ` set (t_outbox t') = ?k ` set (t_outbox t)" by (metis image_set)
  then have ids: "ob_event_id ` set (t_outbox t') = ob_event_id ` set (t_outbox t)"
    by (metis (no_types, lifting) image_cong image_image snd_conv)
  have rows: "outbox_row_ok r'" if "r' \<in> set (t_outbox t')" for r'
    using l that assms(2) unfolding outbox_ok_def
    by (auto simp: list_all2_conv_all_nth in_set_conv_nth) (metis nth_mem step_row_outbox_ok)
  have "\<forall>r \<in> set (t_outbox t'). ob_event_id r \<in> er_event_id ` set (t_events t')"
  proof
    fix r assume "r \<in> set (t_outbox t')"
    then have "ob_event_id r \<in> ob_event_id ` set (t_outbox t)" using ids by blast
    then show "ob_event_id r \<in> er_event_id ` set (t_events t')"
      using assms(2) e by (auto simp: outbox_ok_def events_ok_def)
  qed
  then have "events_ok t'"
    using assms(2) k e by (simp add: outbox_ok_def events_ok_def distinct_on_def)
  with rows show ?thesis by (simp add: outbox_ok_def)
qed

section \<open>The operations move rows along their life\<close>

lemma update_outbox_run:
  "update_outbox P f j = (Inr u, j') \<Longrightarrow> tbl j' = (tbl j)\<lparr>t_outbox := update_where P f (t_outbox (tbl j))\<rparr>"
  unfolding update_outbox_def by (drule exec_stmt_run) simp

lemma update_outbox_error: "update_outbox P f j = (Inl e, j') \<Longrightarrow> tbl j' = tbl j"
  unfolding update_outbox_def by (rule exec_stmt_error)

lemma update_where_twice:
  "(\<And>x. P x \<Longrightarrow> f (f x) = f x) \<Longrightarrow> (\<And>x. P (f x) = P x) \<Longrightarrow> (\<And>x. Q (f x) = Q x) \<Longrightarrow> (\<And>x. Q x \<Longrightarrow> f (f x) = f x) \<Longrightarrow>
   update_where Q f (update_where P f xs) = update_where (\<lambda>x. P x \<or> Q x) f xs"
  by (induction xs) auto

lemma query_row_tbl: "query_row f j = (r, j') \<Longrightarrow> tbl j' = tbl j"
  by (auto simp: query_row_def query_def bindE_def ret_def fail_def dest!: fault_tbl split: prod.splits sum.splits option.splits)

text \<open>Marking each selected delivery marks exactly the rows of the selection.\<close>

lemma mark_all_run:
  "for_each (\<lambda>x. update_outbox (is_delivery d (dl_event_id x)) (set_sending u)) ds j = (Inr v, j') \<Longrightarrow>
   tbl j' = (tbl j)\<lparr>t_outbox := update_where (\<lambda>r. ob_destination r = d \<and> ob_event_id r \<in> dl_event_id ` set ds)
      (set_sending u) (t_outbox (tbl j))\<rparr>"
proof (induction ds arbitrary: j)
  case Nil
  then show ?case by (simp add: ret_def update_where_none)
next
  case (Cons x ds)
  then obtain j1 where 1: "update_outbox (is_delivery d (dl_event_id x)) (set_sending u) j = (Inr (), j1)"
    and 2: "for_each (\<lambda>x. update_outbox (is_delivery d (dl_event_id x)) (set_sending u)) ds j1 = (Inr v, j')"
    by (auto simp: bindE_run)
  note r1 = update_outbox_run [OF 1]
  then have t1: "t_outbox (tbl j1) =
      update_where (is_delivery d (dl_event_id x)) (set_sending u) (t_outbox (tbl j))" by simp
  have "tbl j' = (tbl j)\<lparr>t_outbox := update_where (\<lambda>r. ob_destination r = d \<and> ob_event_id r \<in> dl_event_id ` set ds)
      (set_sending u) (t_outbox (tbl j1))\<rparr>"
    unfolding Cons.IH [OF 2] r1 by simp
  also have "update_where (\<lambda>r. ob_destination r = d \<and> ob_event_id r \<in> dl_event_id ` set ds) (set_sending u) (t_outbox (tbl j1))
    = update_where (\<lambda>r. is_delivery d (dl_event_id x) r \<or> ob_destination r = d \<and> ob_event_id r \<in> dl_event_id ` set ds)
        (set_sending u) (t_outbox (tbl j))"
    unfolding t1 by (rule update_where_twice) (auto simp: set_sending_def is_delivery_def)
  also have "\<dots> = update_where (\<lambda>r. ob_destination r = d \<and> ob_event_id r \<in> dl_event_id ` set (x # ds))
        (set_sending u) (t_outbox (tbl j))"
    by (rule arg_cong [where f = "\<lambda>P. update_where P _ _"]) (auto simp: is_delivery_def fun_eq_iff)
  finally show ?case .
qed

lemma set_limit_rows: "set (limit_rows n xs) \<subseteq> set xs"
  by (auto simp: limit_rows_def dest: in_set_takeD)

lemma select_due_rows:
  assumes "x \<in> set (select_due d limit now t)"
  shows "\<exists>r \<in> set (t_outbox t). ob_destination r = d \<and> due now r \<and> ob_event_id r = dl_event_id x \<and>
     dl_destination x = d \<and> dl_attempts x = ob_attempts r"
proof -
  have "x \<in> set (concat (map (join_event t)
     (sort_key ob_next (filter (\<lambda>r. ob_destination r = d \<and> due now r) (t_outbox t)))))"
    by (rule subsetD [OF set_limit_rows assms [unfolded select_due_def]])
  then obtain r where r: "r \<in> set (t_outbox t)" "ob_destination r = d" "due now r" and x: "x \<in> set (join_event t r)"
    by (auto simp del: join_event.simps)
  from x obtain e where "x = delivery_of e r" by (cases "select_event (ob_event_id r) t") auto
  with r show ?thesis by (auto simp: delivery_of_def)
qed

lemma outbox_key_unique:
  "outbox_ok t \<Longrightarrow> r \<in> set (t_outbox t) \<Longrightarrow> s \<in> set (t_outbox t) \<Longrightarrow> ob_destination r = ob_destination s \<Longrightarrow>
   ob_event_id r = ob_event_id s \<Longrightarrow> r = s"
  unfolding outbox_ok_def events_ok_def by (auto dest: distinct_on_unique)

lemma lease_run:
  assumes "lease d limit now j = (Inr ds, j')"
  shows "ds = select_due d limit now (tbl j)"
    "tbl j' = (tbl j)\<lparr>t_outbox := update_where (\<lambda>r. ob_destination r = d \<and> ob_event_id r \<in> dl_event_id ` set ds)
      (set_sending (now + lease_duration)) (t_outbox (tbl j))\<rparr>"
proof -
  from tx_run [OF assms [unfolded lease_def]] obtain j1 j2 j3 where b: "tbl j1 = tbl j"
    "query (select_due d limit now) j1 = (Inr ds, j2)"
    "for_each (\<lambda>x. update_outbox (is_delivery d (dl_event_id x)) (set_sending (now + lease_duration))) ds j2 = (Inr (), j3)"
    "tbl j' = tbl j3" by (auto simp: run_simps)
  from query_run [OF b(2)] b(1) have q: "ds = select_due d limit now (tbl j)" "tbl j2 = tbl j" by simp_all
  from q show "ds = select_due d limit now (tbl j)" by simp
  from mark_all_run [OF b(3)] b(4) q(2) show "tbl j' = (tbl j)\<lparr>t_outbox := update_where
     (\<lambda>r. ob_destination r = d \<and> ob_event_id r \<in> dl_event_id ` set ds)
      (set_sending (now + lease_duration)) (t_outbox (tbl j))\<rparr>" by simp
qed

lemma lease_stepped:
  assumes "lease d limit now j = (x, j')" "outbox_ok (tbl j)"
  shows "stepped (tbl j) (tbl j')"
proof (cases x)
  case (Inl e)
  with assms(1) have "tbl j' = tbl j" unfolding lease_def by (auto dest: tx_error_rolls_back)
  then show ?thesis by (simp add: stepped_refl)
next
  case (Inr ds)
  with assms(1) have r: "lease d limit now j = (Inr ds, j')" by simp
  show ?thesis unfolding lease_run(2) [OF r]
  proof (rule stepped_update)
    fix r assume r1: "r \<in> set (t_outbox (tbl j))" "ob_destination r = d \<and> ob_event_id r \<in> dl_event_id ` set ds"
    then obtain y where "y \<in> set (select_due d limit now (tbl j))" "ob_event_id r = dl_event_id y"
      using lease_run(1) [OF r] by auto
    from select_due_rows [OF this(1)] this(2) obtain s where
      s: "s \<in> set (t_outbox (tbl j))" "ob_destination s = d" "due now s" "ob_event_id s = ob_event_id r" by auto
    then have "s = r" using outbox_key_unique [OF assms(2) s(1) r1(1)] r1(2) by simp
    with s(3) show "outbox_step r (set_sending (now + lease_duration) r)" by (auto intro: outbox_step.leased)
  qed
qed

lemma stepped_delivered:
  assumes "list_all2 (\<lambda>r r'. r' = r \<or> outbox_step r r') xs ys" "r \<in> set xs"
  shows "\<exists>r' \<in> set ys. r' = r \<or> outbox_step r r'"
  using assms by (induction rule: list_all2_induct) auto

lemma for_each_keeps_stepped:
  assumes "\<And>x j u j'. f x j = (Inr u, j') \<Longrightarrow> R (tbl j) (tbl j')"
    and "\<And>t. R t t" "\<And>a b c. R a b \<Longrightarrow> R b c \<Longrightarrow> R a c"
  shows "for_each f xs j = (Inr u, j') \<Longrightarrow> R (tbl j) (tbl j')"
proof (induction xs arbitrary: j)
  case Nil
  then show ?case using assms(2) by (simp add: ret_def)
next
  case (Cons x xs)
  then obtain j1 where "f x j = (Inr (), j1)" "for_each f xs j1 = (Inr u, j')" by (auto simp: bindE_run)
  with Cons.IH assms(1,3) show ?case by blast
qed

text \<open>Sequences of steps of one row.\<close>

definition evolved :: "tables \<Rightarrow> tables \<Rightarrow> bool" where
  "evolved t t' \<longleftrightarrow> list_all2 outbox_step\<^sup>*\<^sup>* (t_outbox t) (t_outbox t') \<and> t' = t\<lparr>t_outbox := t_outbox t'\<rparr>"

lemma evolved_refl: "evolved t t"
  by (simp add: evolved_def list.rel_refl)

lemma evolved_trans: "evolved a b \<Longrightarrow> evolved b c \<Longrightarrow> evolved a c"
  unfolding evolved_def
  by (auto intro: list_all2_trans [OF rtranclp_trans]) (metis tables.surjective tables.update_convs(7))

lemma stepped_evolved: "stepped a b \<Longrightarrow> evolved a b"
  unfolding stepped_def evolved_def by (auto elim: list_all2_mono)

lemma ack_evolved:
  assumes "ack d ids j = (x, j')"
  shows "evolved (tbl j) (tbl j')"
proof (cases "ids = [] \<or> (\<exists>e. x = Inl e)")
  case True
  with assms show ?thesis
    by (auto simp: ack_def evolved_refl ret_def dest: tx_error_rolls_back split: if_splits)
next
  case False
  then obtain u where "x = Inr u" "ids \<noteq> []" by (cases x) auto
  with assms have "tx (bindE (for_each (\<lambda>eid. update_outbox (\<lambda>r. is_delivery d eid r \<and> ob_state r = Sending) set_delivered) ids)
       (\<lambda>_. ret (True, ()))) j = (Inr (), j')" by (simp add: ack_def)
  from tx_run [OF this] obtain j1 j2 where b: "tbl j1 = tbl j"
    "for_each (\<lambda>eid. update_outbox (\<lambda>r. is_delivery d eid r \<and> ob_state r = Sending) set_delivered) ids j1 = (Inr (), j2)"
    "tbl j' = tbl j2" by (auto simp: run_simps)
  have "evolved (tbl j) (tbl j')"
    if "update_outbox (\<lambda>r. is_delivery d eid r \<and> ob_state r = Sending) set_delivered j = (Inr u, j')" for eid j u j'
    unfolding update_outbox_run [OF that]
    by (intro stepped_evolved stepped_update) (auto intro: outbox_step.acked)
  from for_each_keeps_stepped [where R = evolved, OF this evolved_refl evolved_trans b(2)] b(1,3)
  show ?thesis by simp
qed

lemma fail_stepped:
  assumes "fail_delivery jitter d eid code now j = (x, j')" "outbox_ok (tbl j)" "0 \<le> jitter" "jitter < 30"
  shows "stepped (tbl j) (tbl j')"
proof (cases x)
  case (Inl e)
  with assms(1) have "tbl j' = tbl j"
    by (auto simp: fail_delivery_def bindE_def Let_def split: if_splits prod.splits sum.splits
        dest!: query_row_tbl update_outbox_error)
  then show ?thesis by (simp add: stepped_refl)
next
  case (Inr u)
  then obtain r j1 where q: "query_row (\<lambda>t. first_row (is_delivery d eid) (t_outbox t)) j = (Inr r, j1)"
    and k: "(if ob_attempts r + 1 \<ge> max_attempts then update_outbox (is_delivery d eid) (set_dead (ob_attempts r + 1) code)
        else update_outbox (is_delivery d eid) (set_retryable (ob_attempts r + 1) code
           (now + (2 ^ nat (ob_attempts r + 1) + jitter) * 1000000000))) j1 = (Inr (), j')"
    using assms(1) by (auto simp: fail_delivery_def Let_def run_simps split: if_splits)
  from query_row_run [OF q] have f: "first_row (is_delivery d eid) (t_outbox (tbl j)) = Some r" and t1: "tbl j1 = tbl j"
    by simp_all
  from first_row_Some [OF f] have r: "r \<in> set (t_outbox (tbl j))" "is_delivery d eid r" by simp_all
  have same: "s = r" if "s \<in> set (t_outbox (tbl j))" "is_delivery d eid s" for s
    using that r outbox_key_unique [OF assms(2)] by (auto simp: is_delivery_def)
  show ?thesis
  proof (cases "ob_attempts r + 1 \<ge> max_attempts")
    case True
    with k t1 have t: "tbl j' = (tbl j)\<lparr>t_outbox := update_where (is_delivery d eid)
        (set_dead (ob_attempts r + 1) code) (t_outbox (tbl j))\<rparr>" by (auto dest: update_outbox_run)
    show ?thesis unfolding t
      by (rule stepped_update) (use same True outbox_step.gave_up in metis)
  next
    case False
    with k t1 have t: "tbl j' = (tbl j)\<lparr>t_outbox := update_where (is_delivery d eid)
        (set_retryable (ob_attempts r + 1) code (now + (2 ^ nat (ob_attempts r + 1) + jitter) * 1000000000))
        (t_outbox (tbl j))\<rparr>" by (auto dest: update_outbox_run)
    have "outbox_step r (set_retryable (ob_attempts r + 1) code
        (now + (2 ^ nat (ob_attempts r + 1) + jitter) * 1000000000) r)"
      using False assms(3,4) by (intro outbox_step.retried) simp_all
    then show ?thesis unfolding t by (intro stepped_update) (use same in metis)
  qed
qed

lemma dead_letter_stepped:
  "dead_letter d eid code j = (x, j') \<Longrightarrow> stepped (tbl j) (tbl j')"
proof (cases x)
  case (Inl e)
  moreover assume "dead_letter d eid code j = (x, j')"
  ultimately have "tbl j' = tbl j" by (auto simp: dead_letter_def dest: update_outbox_error split: if_splits)
  then show ?thesis by (simp add: stepped_refl)
next
  case (Inr u)
  moreover assume "dead_letter d eid code j = (x, j')"
  ultimately have "update_outbox (\<lambda>r. is_delivery d eid r \<and> ob_state r = Sending)
             (\<lambda>r. set_dead (ob_attempts r + 1) code r) j = (Inr (), j')"
    by (auto simp: dead_letter_def split: if_splits)
  from update_outbox_run [OF this] show ?thesis
    by (elim ssubst, intro stepped_update) (blast intro: outbox_step.rejected)
qed

section \<open>The guarantees of the queue\<close>

datatype outbox_op = OpLease string int time | OpAck string "string list" | OpFail int string string string time
  | OpDead string string string | OpAppend time event "string list"

fun outbox_run :: "outbox_op \<Rightarrow> journal \<Rightarrow> journal" where
  "outbox_run (OpLease d limit now) j = snd (lease d limit now j)"
| "outbox_run (OpAck d ids) j = snd (ack d ids j)"
| "outbox_run (OpFail jitter d eid code now) j = snd (fail_delivery jitter d eid code now j)"
| "outbox_run (OpDead d eid code) j = snd (dead_letter d eid code j)"
| "outbox_run (OpAppend now e ds) j = snd (append_transaction now e ds j)"

fun outbox_runs :: "outbox_op list \<Rightarrow> journal \<Rightarrow> journal" where
  "outbox_runs [] j = j"
| "outbox_runs (a # as) j = outbox_runs as (outbox_run a j)"

fun jitter_ok :: "outbox_op \<Rightarrow> bool" where
  "jitter_ok (OpFail jitter d eid code now) = (0 \<le> jitter \<and> jitter < 30)"
| "jitter_ok _ = True"

text \<open>Every row that was there is still there, evolved.\<close>

definition rows_evolve :: "tables \<Rightarrow> tables \<Rightarrow> bool" where
  "rows_evolve t t' \<longleftrightarrow> (\<exists>ys zs. t_outbox t' = ys @ zs \<and> list_all2 outbox_step\<^sup>*\<^sup>* (t_outbox t) ys)"

lemma evolved_rows_evolve: "evolved t t' \<Longrightarrow> rows_evolve t t'"
  unfolding evolved_def rows_evolve_def by (metis append_Nil2)

lemma rows_evolve_trans:
  assumes "rows_evolve a b" "rows_evolve b c"
  shows "rows_evolve a c"
proof -
  obtain ys zs where b: "t_outbox b = ys @ zs" "list_all2 outbox_step\<^sup>*\<^sup>* (t_outbox a) ys"
    using assms(1) unfolding rows_evolve_def by blast
  obtain us vs where c: "t_outbox c = us @ vs" "list_all2 outbox_step\<^sup>*\<^sup>* (t_outbox b) us"
    using assms(2) unfolding rows_evolve_def by blast
  from c(2) b(1) obtain us1 us2 where u: "us = us1 @ us2" "list_all2 outbox_step\<^sup>*\<^sup>* ys us1"
    by (auto simp: list_all2_append1)
  have "list_all2 outbox_step\<^sup>*\<^sup>* (t_outbox a) us1"
    by (rule list_all2_trans [OF rtranclp_trans b(2) u(2)])
  with c(1) u(1) show ?thesis unfolding rows_evolve_def by auto
qed

lemma steps_row_ok: "outbox_step\<^sup>*\<^sup>* r r' \<Longrightarrow> outbox_row_ok r \<Longrightarrow> outbox_row_ok r'"
  by (induction rule: rtranclp_induct) (auto intro: step_row_outbox_ok)

lemma steps_key: "outbox_step\<^sup>*\<^sup>* r r' \<Longrightarrow>
  ob_destination r' = ob_destination r \<and> ob_event_id r' = ob_event_id r"
  by (induction rule: rtranclp_induct) (auto dest: step_row)

lemma evolved_ok:
  assumes "evolved t t'" "outbox_ok t"
  shows "outbox_ok t'"
proof -
  let ?k = "\<lambda>r. (ob_destination r, ob_event_id r)"
  from assms(1) have l: "list_all2 outbox_step\<^sup>*\<^sup>* (t_outbox t) (t_outbox t')" and u: "t' = t\<lparr>t_outbox := t_outbox t'\<rparr>"
    unfolding evolved_def by blast+
  from u have e: "t_events t' = t_events t" by (metis tables.select_convs(6) tables.surjective tables.update_convs(7))
  have k: "map ?k (t_outbox t') = map ?k (t_outbox t)"
    using l by (induction rule: list_all2_induct) (auto dest: steps_key)
  have "ob_event_id ` set (t_outbox t') = ob_event_id ` set (t_outbox t)"
    using arg_cong [OF k, of "\<lambda>xs. snd ` set xs"] by (simp add: image_image)
  then have ids: "ob_event_id ` set (t_outbox t') = ob_event_id ` set (t_outbox t)" .
  have "\<forall>r \<in> set (t_outbox t'). ob_event_id r \<in> er_event_id ` set (t_events t')"
  proof
    fix r assume "r \<in> set (t_outbox t')"
    then have "ob_event_id r \<in> ob_event_id ` set (t_outbox t)" using ids by blast
    then show "ob_event_id r \<in> er_event_id ` set (t_events t')"
      using assms(2) e by (auto simp: outbox_ok_def events_ok_def)
  qed
  moreover have "outbox_row_ok r'" if "r' \<in> set (t_outbox t')" for r'
    using l that assms(2) unfolding outbox_ok_def
    by (auto simp: list_all2_conv_all_nth in_set_conv_nth) (metis nth_mem steps_row_ok)
  ultimately show ?thesis
    using assms(2) k e by (simp add: outbox_ok_def events_ok_def distinct_on_def)
qed

lemma append_evolves:
  assumes "append_transaction now e ds j = (x, j')" "outbox_ok (tbl j)"
  shows "rows_evolve (tbl j) (tbl j') \<and> outbox_ok (tbl j')"
proof (cases x)
  case (Inl err)
  with assms show ?thesis
    by (auto dest!: append_transaction_error simp: evolved_rows_evolve evolved_refl)
next
  case (Inr u)
  with assms(1) have r: "append_transaction now e ds j = (Inr u, j')" by simp
  note a = append_transaction_run [OF r]
  have "rows_evolve (tbl j) (tbl j')"
    using a(1) unfolding appended_def rows_evolve_def
    by (intro exI [of _ "t_outbox (tbl j)"] exI [of _ "map (pending_row now e) ds"]) (simp add: list.rel_refl)
  moreover have "events_ok (tbl j')"
    using a(1,2) assms(2) by (auto intro: appended_ok simp: outbox_ok_def)
  moreover have "\<forall>r \<in> set (t_outbox (tbl j')). outbox_row_ok r"
    using a(1) assms(2) by (auto simp: appended_def outbox_ok_def outbox_row_ok_def pending_row_def)
  ultimately show ?thesis by (simp add: outbox_ok_def)
qed

lemma outbox_run_evolves:
  assumes "outbox_ok (tbl j)" "jitter_ok a"
  shows "rows_evolve (tbl j) (tbl (outbox_run a j)) \<and> outbox_ok (tbl (outbox_run a j))"
proof (cases a)
  case (OpAppend now e ds)
  with append_evolves [OF surjective_pairing assms(1)] show ?thesis by simp
next
  case (OpLease d limit now)
  with assms(1) lease_stepped [OF surjective_pairing assms(1), of d limit now] show ?thesis
    by (auto intro: evolved_rows_evolve stepped_evolved evolved_ok)
next
  case (OpAck d ids)
  with assms(1) ack_evolved [OF surjective_pairing, where d = d and ids = ids and j = j] show ?thesis
    by (auto intro: evolved_rows_evolve evolved_ok)
next
  case (OpFail jitter d eid code now)
  with assms fail_stepped [OF surjective_pairing assms(1), of jitter d eid code now] show ?thesis
    by (auto intro: evolved_rows_evolve stepped_evolved evolved_ok)
next
  case (OpDead d eid code)
  with assms(1) dead_letter_stepped [OF surjective_pairing, where d = d and eid = eid and code = code and j = j] show ?thesis
    by (auto intro: evolved_rows_evolve stepped_evolved evolved_ok)
qed

text \<open>C13: The queue loses nothing: under any sequence of appends, leases, acknowledgements, failures and
  dead-letterings, with driver failures anywhere, every queued delivery stays in the outbox and moves
  only along the life of a row, and the outbox stays well formed.\<close>

theorem outbox_follows_lifecycle:
  assumes "outbox_ok (tbl j)" "list_all jitter_ok ops"
  shows "rows_evolve (tbl j) (tbl (outbox_runs ops j)) \<and> outbox_ok (tbl (outbox_runs ops j))"
  using assms
proof (induction ops arbitrary: j)
  case Nil
  then show ?case by (simp add: evolved_rows_evolve evolved_refl)
next
  case (Cons a ops)
  from Cons.prems have "rows_evolve (tbl j) (tbl (outbox_run a j))" "outbox_ok (tbl (outbox_run a j))"
    using outbox_run_evolves by auto
  with Cons show ?case by (auto intro: rows_evolve_trans)
qed

lemma event_journal_outbox_ok: "outbox_ok (tbl event_journal)"
proof -
  have "list_all outbox_row_ok (t_outbox (tbl event_journal))" by code_simp
  with event_journal_ok show ?thesis by (simp add: outbox_ok_def list_all_iff)
qed

definition sample_outbox_ops :: "outbox_op list" where
  "sample_outbox_ops = [OpLease ''otlp'' 10 8, OpFail 3 ''otlp'' (ev_event_id example_event) ''http_500'' 9,
     OpLease ''otlp'' 10 6000000000, OpLease ''controlplane'' 5 10, OpDead ''controlplane'' (ev_event_id example_event) ''bad'']"

lemma outbox_follows_lifecycle_witness:
  "rows_evolve (tbl event_journal) (tbl (outbox_runs sample_outbox_ops event_journal))"
  using outbox_follows_lifecycle [OF event_journal_outbox_ok, of sample_outbox_ops]
  by (simp add: sample_outbox_ops_def)

lemma outbox_sample_states:
  "map ob_state (t_outbox (tbl (outbox_runs sample_outbox_ops event_journal))) = [Sending, DeadLettered]"
  by code_simp

text \<open>Leases are exclusive: a delivery leased at some time is not handed out again by any lease taken
  within the following five minutes.\<close>

theorem lease_is_exclusive:
  assumes "lease d limit now j = (Inr ds, j1)" "lease d limit' now' j1 = (Inr ds', j2)"
    and "now' \<le> now + lease_duration" "outbox_ok (tbl j)"
  shows "dl_event_id ` set ds \<inter> dl_event_id ` set ds' = {}"
proof -
  have False if "x \<in> set ds" "y \<in> set ds'" "dl_event_id x = dl_event_id y" for x y
  proof -
    from that(2) have "y \<in> set (select_due d limit' now' (tbl j1))" using lease_run(1) [OF assms(2)] by simp
    from select_due_rows [OF this] obtain r where r: "r \<in> set (t_outbox (tbl j1))"
      "ob_destination r = d" "due now' r" "ob_event_id r = dl_event_id y" by blast
    have eid: "ob_event_id r \<in> dl_event_id ` set ds" by (rule rev_image_eqI [OF that(1)]) (simp add: r(4) that(3))
    have "r \<in> set (update_where (\<lambda>r. ob_destination r = d \<and> ob_event_id r \<in> dl_event_id ` set ds)
        (set_sending (now + lease_duration)) (t_outbox (tbl j)))"
      using r(1) unfolding lease_run(2) [OF assms(1)] by simp
    then have "\<exists>s. r = set_sending (now + lease_duration) s"
      using conjI [OF r(2) eid] unfolding set_update_where by blast
    then have "ob_state r = Sending \<and> ob_lease r = Some (now + lease_duration)"
      by (auto simp: set_sending_def)
    with r(3) assms(3) show False by (simp add: due_def)
  qed
  then show ?thesis by blast
qed

lemma lease_is_exclusive_witness:
  "dl_event_id ` set (projr (fst (lease ''otlp'' 10 8 event_journal))) \<inter>
   dl_event_id ` set (projr (fst (lease ''otlp'' 10 9 (snd (lease ''otlp'' 10 8 event_journal))))) = {}"
proof -
  have "is_ok (fst (lease ''otlp'' 10 8 event_journal)) \<and>
    is_ok (fst (lease ''otlp'' 10 9 (snd (lease ''otlp'' 10 8 event_journal))))" by code_simp
  then obtain ds ds' where "fst (lease ''otlp'' 10 8 event_journal) = Inr ds"
    "fst (lease ''otlp'' 10 9 (snd (lease ''otlp'' 10 8 event_journal))) = Inr ds'" by (auto simp: is_ok_iff)
  moreover from this have "lease ''otlp'' 10 8 event_journal = (Inr ds, snd (lease ''otlp'' 10 8 event_journal))"
    "lease ''otlp'' 10 9 (snd (lease ''otlp'' 10 8 event_journal)) =
      (Inr ds', snd (lease ''otlp'' 10 9 (snd (lease ''otlp'' 10 8 event_journal))))"
    by (simp_all add: prod_eq_iff)
  from lease_is_exclusive [OF this _ event_journal_outbox_ok] have "dl_event_id ` set ds \<inter> dl_event_id ` set ds' = {}"
    by (simp add: lease_duration_def)
  ultimately show ?thesis by simp
qed

text \<open>The time from which a waiting delivery can be leased.\<close>

definition ready_at :: "outbox_row \<Rightarrow> time" where
  "ready_at r = (case ob_lease r of Some u \<Rightarrow> u + 1 | None \<Rightarrow> ob_next r)"

definition waiting :: "outbox_row \<Rightarrow> bool" where
  "waiting r \<longleftrightarrow> ob_state r \<in> {Pending, Retryable, Sending}"

lemma ready_due: "outbox_row_ok r \<Longrightarrow> waiting r \<Longrightarrow> ready_at r \<le> now \<Longrightarrow> due now r"
  by (auto simp: outbox_row_ok_def waiting_def ready_at_def due_def split: option.splits)

lemma for_each_none:
  assumes "\<And>x j. faults j = [] \<Longrightarrow> \<exists>j'. f x j = (Inr (), j') \<and> faults j' = []" "faults j = []"
  shows "\<exists>j'. for_each f xs j = (Inr (), j') \<and> faults j' = []"
  using assms(2)
proof (induction xs arbitrary: j)
  case Nil
  then show ?case by simp
next
  case (Cons x xs)
  obtain j1 where "f x j = (Inr (), j1)" "faults j1 = []" using assms(1) [OF Cons.prems] by blast
  with Cons.IH show ?case by (auto simp: bindE_Inr)
qed

lemma lease_none:
  assumes "faults j = []"
  shows "\<exists>j'. lease d limit now j = (Inr (select_due d limit now (tbl j)), j') \<and> faults j' = []"
proof -
  let ?f = "\<lambda>x. update_outbox (is_delivery d (dl_event_id x)) (set_sending (now + lease_duration))"
  have "\<exists>j'. ?f x j = (Inr (), j') \<and> faults j' = []" if "faults j = []" for x j
    using that by (simp add: update_outbox_def)
  then obtain j' where "for_each ?f (select_due d limit now (tbl j)) j = (Inr (), j')" "faults j' = []"
    using for_each_none [of ?f, OF _ assms] by blast
  with assms show ?thesis unfolding lease_def by (simp add: tx_none bindE_Inr)
qed

text \<open>The rows a lease looks at, in its order. With the events of all rows at hand each gives one delivery.\<close>

definition due_rows :: "string \<Rightarrow> time \<Rightarrow> tables \<Rightarrow> outbox_row list" where
  "due_rows d now t = sort_key ob_next (filter (\<lambda>r. ob_destination r = d \<and> due now r) (t_outbox t))"

lemma limit_rows_map: "limit_rows n (map f xs) = map f (limit_rows n xs)"
  by (simp add: limit_rows_def take_map)

lemma select_due_all:
  assumes "outbox_ok t"
  shows "dl_event_id ` set (select_due d limit now t) = ob_event_id ` set (limit_rows limit (due_rows d now t))"
proof -
  have e: "\<exists>e. join_event t r = [delivery_of e r]" if "r \<in> set (t_outbox t)" for r
  proof -
    have "ob_event_id r \<in> er_event_id ` set (t_events t)" using assms that by (auto simp: outbox_ok_def events_ok_def)
    then obtain e where "select_event (ob_event_id r) t = Some e"
      using first_row_None [of "\<lambda>x. er_event_id x = ob_event_id r" "t_events t"]
      by (cases "select_event (ob_event_id r) t") (auto simp: select_event_def)
    then show ?thesis by (intro exI [of _ e]) simp
  qed
  then have "concat (map (join_event t) rows) = map (\<lambda>r. hd (join_event t r)) rows" if "set rows \<subseteq> set (t_outbox t)" for rows
    using that by (induction rows) (fastforce simp del: join_event.simps)+
  from this [of "due_rows d now t"]
  have "select_due d limit now t = map (\<lambda>r. hd (join_event t r)) (limit_rows limit (due_rows d now t))"
    by (simp add: select_due_def due_rows_def limit_rows_map del: join_event.simps)
  moreover have "dl_event_id (hd (join_event t r)) = ob_event_id r" if "r \<in> set (limit_rows limit (due_rows d now t))" for r
  proof -
    have "r \<in> set (t_outbox t)" using subsetD [OF set_limit_rows that] by (simp add: due_rows_def)
    with e obtain e where "join_event t r = [delivery_of e r]" by blast
    then show ?thesis by (simp add: delivery_of_def del: join_event.simps)
  qed
  ultimately show ?thesis by (auto simp: image_image simp del: join_event.simps intro: image_cong)
qed

text \<open>A row that a sorted prefix leaves out has the whole prefix before it.\<close>

lemma sorted_prefix_before:
  assumes "r \<in> set xs" "r \<notin> set (take n (sort_key f xs))"
  shows "length (take n (sort_key f xs)) = n" and "q \<in> set (take n (sort_key f xs)) \<Longrightarrow> f q \<le> f r"
proof -
  let ?ys = "sort_key f xs"
  have "r \<in> set (take n ?ys @ drop n ?ys)" using assms(1) by simp
  then have d: "r \<in> set (drop n ?ys)" using assms(2) unfolding set_append by blast
  then have "drop n ?ys \<noteq> []" by auto
  then show "length (take n ?ys) = n" by simp
  have "sorted (map f (take n ?ys) @ map f (drop n ?ys))" unfolding map_append [symmetric] append_take_drop_id by simp
  with d show "q \<in> set (take n ?ys) \<Longrightarrow> f q \<le> f r" by (auto simp: sorted_append)
qed

text \<open>The rows in line with a delivery: those of its destination that are due and are not scheduled after it. The order
  among rows of the same time is not promised.\<close>

definition in_line :: "time \<Rightarrow> outbox_row \<Rightarrow> tables \<Rightarrow> outbox_row set" where
  "in_line now r t = {q \<in> set (t_outbox t). ob_destination q = ob_destination r \<and> due now q \<and> ob_next q \<le> ob_next r}"

lemma due_mono: "due now q \<Longrightarrow> now \<le> now' \<Longrightarrow> due now' q"
  by (auto simp: due_def split: option.splits)

text \<open>A lease takes the delivery, or it takes as many of those in line with it as its limit allows.\<close>

lemma lease_takes_in_line:
  assumes ok: "outbox_ok (tbl j)" and l: "lease (ob_destination r) limit now j = (Inr ds, j')" and lim: "0 < limit"
    and r: "r \<in> set (t_outbox (tbl j))" "due now r" "ob_event_id r \<notin> dl_event_id ` set ds"
    and T: "now \<le> T" "T \<le> now + lease_duration"
  shows "r \<in> set (t_outbox (tbl j')) \<and> card (in_line T r (tbl j')) + nat limit \<le> card (in_line T r (tbl j))"
proof -
  let ?d = "ob_destination r"
  let ?xs = "filter (\<lambda>r. ob_destination r = ?d \<and> due now r) (t_outbox (tbl j))"
  let ?taken = "take (nat limit) (sort_key ob_next ?xs)"
  have rows: "limit_rows limit (due_rows ?d now (tbl j)) = ?taken" using lim by (simp add: limit_rows_def due_rows_def)
  have ids: "dl_event_id ` set ds = ob_event_id ` set ?taken"
    unfolding lease_run(1) [OF l] select_due_all [OF ok] rows ..
  have left: "r \<in> set ?xs" "r \<notin> set ?taken" using r ids by auto
  have sub: "set ?taken \<subseteq> in_line T r (tbl j)"
  proof
    fix q assume q: "q \<in> set ?taken"
    then have "q \<in> set ?xs" by (auto dest: in_set_takeD)
    with sorted_prefix_before(2) [OF left q] due_mono [OF _ T(1)] show "q \<in> in_line T r (tbl j)" by (simp add: in_line_def)
  qed
  have dist: "distinct (t_outbox (tbl j))"
    using ok by (auto simp: outbox_ok_def events_ok_def distinct_on_def dest: distinct_map [THEN iffD1])
  then have size: "card (set ?taken) = nat limit" using sorted_prefix_before(1) [OF left] by (simp add: distinct_card)
  have box: "t_outbox (tbl j') = update_where (\<lambda>q. ob_destination q = ?d \<and> ob_event_id q \<in> dl_event_id ` set ds)
      (set_sending (now + lease_duration)) (t_outbox (tbl j))"
    using lease_run(2) [OF l] by simp
  have stay: "in_line T r (tbl j') \<subseteq> in_line T r (tbl j) - set ?taken"
  proof
    fix q assume q: "q \<in> in_line T r (tbl j')"
    then have m: "q \<in> set (t_outbox (tbl j'))" "due T q" "ob_destination q = ?d" "ob_next q \<le> ob_next r" by (simp_all add: in_line_def)
    have "q \<noteq> set_sending (now + lease_duration) p" for p
      using m(2) T by (auto simp: set_sending_def due_def)
    with m(1) have "q \<in> set (t_outbox (tbl j))" "ob_event_id q \<notin> ob_event_id ` set ?taken"
      using m(3) unfolding box ids [symmetric] by (auto simp: set_update_where)
    with m show "q \<in> in_line T r (tbl j) - set ?taken" by (auto simp: in_line_def)
  qed
  have fin: "finite (in_line T r (tbl j))" by (simp add: in_line_def)
  have "card (in_line T r (tbl j')) \<le> card (in_line T r (tbl j) - set ?taken)" using stay fin by (intro card_mono) auto
  moreover have "card (in_line T r (tbl j) - set ?taken) = card (in_line T r (tbl j)) - card (set ?taken)"
    using sub by (intro card_Diff_subset) auto
  ultimately have "card (in_line T r (tbl j')) + nat limit \<le> card (in_line T r (tbl j))"
    using card_mono [OF fin sub] size by simp
  moreover have "r \<in> set (t_outbox (tbl j'))" using r unfolding box by (auto simp: set_update_where)
  ultimately show ?thesis by simp
qed

text \<open>Leases one after another, by one worker or by several.\<close>

fun leases :: "string \<Rightarrow> int \<Rightarrow> time list \<Rightarrow> delivery list list sql" where
  "leases d limit [] = ret []"
| "leases d limit (now # nows) = bindE (lease d limit now) (\<lambda>ds. bindE (leases d limit nows) (\<lambda>dss. ret (ds # dss)))"

lemma leases_none: "faults j = [] \<Longrightarrow> \<exists>dss j'. leases d limit nows j = (Inr dss, j')"
proof (induction nows arbitrary: j)
  case Nil
  then show ?case by (simp add: ret_def)
next
  case (Cons now nows)
  from lease_none [OF Cons.prems] obtain ds j1 where l: "lease d limit now j = (Inr ds, j1)" "faults j1 = []" by blast
  from Cons.IH [OF l(2)] obtain dss j2 where "leases d limit nows j1 = (Inr dss, j2)" by blast
  with l show ?case by (simp add: bindE_Inr ret_def)
qed

text \<open>C14: No delivery gets stuck: with a working driver, a delivery that is neither delivered nor dead-lettered is
  handed out as soon as there is room for it. Once it is ready (its next attempt is due, or the lease of the worker that
  died while sending it has run out), a single lease of its destination takes it if its limit covers the due
  deliveries of that destination that are not scheduled after it; and otherwise each lease works off as many of these
  as its limit allows, so that of \<open>n\<close> leases within five minutes one takes it when \<open>n\<close> times the limit covers them. Other
  destinations, delivered rows and rows that are scheduled later do not count.\<close>

theorem waiting_delivery_is_leased:
  assumes "outbox_ok (tbl j)" "faults j = []" "r \<in> set (t_outbox (tbl j))" "waiting r" "0 < limit"
    and "ready_at r \<le> T" "\<forall>now \<in> set nows. ready_at r \<le> now \<and> now \<le> T \<and> T \<le> now + lease_duration"
    and "card (in_line T r (tbl j)) \<le> length nows * nat limit"
  shows "\<exists>dss j'. leases (ob_destination r) limit nows j = (Inr dss, j') \<and> (\<exists>ds \<in> set dss. ob_event_id r \<in> dl_event_id ` set ds)"
  using assms
proof (induction nows arbitrary: j)
  case Nil
  have "due T r" using Nil by (auto simp: outbox_ok_def intro: ready_due)
  with Nil have "r \<in> in_line T r (tbl j)" "finite (in_line T r (tbl j))" by (simp_all add: in_line_def)
  with Nil show ?case by (auto simp: card_eq_0_iff)
next
  case (Cons now nows)
  from lease_none [OF Cons.prems(2)] obtain ds j1 where
    l: "lease (ob_destination r) limit now j = (Inr ds, j1)" "faults j1 = []" by blast
  show ?case
  proof (cases "ob_event_id r \<in> dl_event_id ` set ds")
    case True
    from leases_none [OF l(2)] obtain dss j2 where "leases (ob_destination r) limit nows j1 = (Inr dss, j2)" by blast
    with l(1) True show ?thesis by (simp add: bindE_Inr ret_def)
  next
    case False
    have "due now r" using Cons.prems by (auto simp: outbox_ok_def intro: ready_due)
    with lease_takes_in_line [OF Cons.prems(1) l(1) Cons.prems(5,3) _ False, of T] Cons.prems(7,8)
    have "r \<in> set (t_outbox (tbl j1))" "card (in_line T r (tbl j1)) \<le> length nows * nat limit" by auto
    moreover have "outbox_ok (tbl j1)" by (rule stepped_ok [OF lease_stepped [OF l(1) Cons.prems(1)] Cons.prems(1)])
    ultimately obtain dss j2 where "leases (ob_destination r) limit nows j1 = (Inr dss, j2)"
      "\<exists>ds \<in> set dss. ob_event_id r \<in> dl_event_id ` set ds"
      using Cons.IH [OF _ l(2)] Cons.prems(4-7) by auto
    with l(1) show ?thesis by (simp add: bindE_Inr ret_def)
  qed
qed

lemma waiting_delivery_is_leased_witness:
  "\<exists>dss j'. leases ''otlp'' 1 [700] event_journal = (Inr dss, j') \<and> (\<exists>ds \<in> set dss. ev_event_id example_event \<in> dl_event_id ` set ds)"
proof -
  let ?r = "pending_row 7 example_event ''otlp''"
  have f: "faults event_journal = [] \<and> t_outbox (tbl event_journal) = [?r, pending_row 7 example_event ''controlplane'']"
    by code_simp
  then have "in_line 700 ?r (tbl event_journal) = {?r}" by (auto simp: in_line_def pending_row_def due_def)
  with f waiting_delivery_is_leased [OF event_journal_outbox_ok, of ?r 1 700 "[700]"] show ?thesis
    by (simp add: pending_row_def waiting_def ready_at_def lease_duration_def)
qed

text \<open>Retries back off and end: a successful \<open>Fail\<close> counts one more attempt; the tenth puts the
  delivery into dead_letter, and the n-th before that schedules the next attempt between \<open>2^n\<close> and
  \<open>2^n + 29\<close> seconds later.\<close>

theorem failure_backs_off:
  assumes "fail_delivery jitter d eid code now j = (Inr (), j')" "outbox_ok (tbl j)" "0 \<le> jitter" "jitter < 30"
    and "r \<in> set (t_outbox (tbl j))" "is_delivery d eid r"
  shows "\<exists>r' \<in> set (t_outbox (tbl j')). is_delivery d eid r' \<and> ob_attempts r' = ob_attempts r + 1 \<and>
    (if ob_attempts r' \<ge> 10 then ob_state r' = DeadLettered
     else ob_state r' = Retryable \<and>
       now + 2 ^ nat (ob_attempts r') * 1000000000 \<le> ob_next r' \<and>
       ob_next r' \<le> now + (2 ^ nat (ob_attempts r') + 29) * 1000000000)"
proof -
  obtain s j1 where q: "query_row (\<lambda>t. first_row (is_delivery d eid) (t_outbox t)) j = (Inr s, j1)"
    and k: "(if ob_attempts s + 1 \<ge> max_attempts then update_outbox (is_delivery d eid) (set_dead (ob_attempts s + 1) code)
        else update_outbox (is_delivery d eid) (set_retryable (ob_attempts s + 1) code
           (now + (2 ^ nat (ob_attempts s + 1) + jitter) * 1000000000))) j1 = (Inr (), j')"
    using assms(1) by (auto simp: fail_delivery_def Let_def run_simps split: if_splits)
  from query_row_run [OF q] have f: "first_row (is_delivery d eid) (t_outbox (tbl j)) = Some s" and t1: "tbl j1 = tbl j"
    by simp_all
  from first_row_Some [OF f] assms(5,6) outbox_key_unique [OF assms(2), of s r] have s: "s = r"
    by (auto simp: is_delivery_def)
  show ?thesis
  proof (cases "ob_attempts r + 1 \<ge> max_attempts")
    case True
    with k s have "update_outbox (is_delivery d eid) (set_dead (ob_attempts r + 1) code) j1 = (Inr (), j')" by simp
    from update_outbox_run [OF this] t1 assms(5,6)
    have "set_dead (ob_attempts r + 1) code r \<in> set (t_outbox (tbl j'))" by (simp add: set_update_where)
    then show ?thesis
      by (rule bexI [rotated]) (use True assms(6) in \<open>simp add: set_dead_def is_delivery_def max_attempts_def\<close>)
  next
    case False
    let ?f = "set_retryable (ob_attempts r + 1) code (now + (2 ^ nat (ob_attempts r + 1) + jitter) * 1000000000)"
    from False k s have "update_outbox (is_delivery d eid) ?f j1 = (Inr (), j')" by simp
    from update_outbox_run [OF this] t1 assms(5,6)
    have "?f r \<in> set (t_outbox (tbl j'))" by (simp add: set_update_where)
    then show ?thesis
      by (rule bexI [rotated]) (use False assms(3,4,6) in \<open>simp add: set_retryable_def is_delivery_def max_attempts_def\<close>)
  qed
qed

lemma failure_backs_off_witness:
  "\<exists>r' \<in> set (t_outbox (tbl (snd (fail_delivery 3 ''otlp'' (ev_event_id example_event) ''http_500'' 9 event_journal)))).
     ob_attempts r' = 1 \<and> ob_state r' = Retryable"
proof -
  let ?r = "pending_row 7 example_event ''otlp''"
  have "fst (fail_delivery 3 ''otlp'' (ev_event_id example_event) ''http_500'' 9 event_journal) = Inr () \<and>
    t_outbox (tbl event_journal) = [?r, pending_row 7 example_event ''controlplane'']" by code_simp
  then have f: "fail_delivery 3 ''otlp'' (ev_event_id example_event) ''http_500'' 9 event_journal =
      (Inr (), snd (fail_delivery 3 ''otlp'' (ev_event_id example_event) ''http_500'' 9 event_journal))"
    and m: "?r \<in> set (t_outbox (tbl event_journal))" by (simp_all add: prod_eq_iff)
  have d: "is_delivery ''otlp'' (ev_event_id example_event) ?r" "ob_attempts ?r = 0"
    by (simp_all add: is_delivery_def pending_row_def)
  from failure_backs_off [OF f event_journal_outbox_ok _ _ m d(1)] d(2) show ?thesis by auto
qed

text \<open>
  \<open>Ack\<close> and \<open>DeadLetter\<close> only touch a row in state sending, \<open>Fail\<close> does not look at the state:
  a late failure report turns a delivered row back into a retryable one, and it is sent again.
\<close>

lemma late_failure_redelivers:
  "map ob_state (t_outbox (tbl (outbox_runs
     [OpLease ''otlp'' 1 8, OpAck ''otlp'' [ev_event_id example_event],
      OpFail 0 ''otlp'' (ev_event_id example_event) ''late'' 9] event_journal))) = [Retryable, Pending]"
  by code_simp

end
