(* ===== verification/Pricing.thy ===== *)
theory Pricing
  imports Telemetry Go_Rat
begin

text \<open>
  \<open>internal/pricing\<close>: the cost of a call as an exact rational, written with ten decimals, and the
  case-insensitive price registry with its provider-agnostic fallback. The theorems bound the
  rounding of the written cost and show that the text is one the policy ledger reads back.
\<close>

section \<open>Calculate\<close>

record price_table =
  pt_version :: string
  pt_currency :: string
  pt_input :: string
  pt_output :: string
  pt_cached :: string

record cost =
  co_actual :: "string option"
  co_estimated :: "string option"

definition no_cost :: cost where
  "no_cost = \<lparr>co_actual = None, co_estimated = None\<rparr>"

definition parse_decimal :: "string \<Rightarrow> rat res" where
  "parse_decimal s = (case set_string s of None \<Rightarrow> Inl (Errorf ''invalid decimal price'') | Some r \<Rightarrow> Inr r)"

definition input_total :: "usage \<Rightarrow> rat \<Rightarrow> rat option \<Rightarrow> rat res" where
  "input_total u in_price cached_price = (case us_input_tokens u of
     None \<Rightarrow> Inr 0
   | Some n \<Rightarrow> (case (us_cached_tokens u, cached_price) of
       (Some c, Some p) \<Rightarrow>
         (if c < 0 \<or> c > n then Inl (Errorf ''invalid cached token count'')
          else Inr (of_int c * p + of_int (n - c) * in_price))
     | _ \<Rightarrow> Inr (of_int n * in_price)))"

definition output_total :: "usage \<Rightarrow> rat \<Rightarrow> rat" where
  "output_total u out_price = (case us_output_tokens u of None \<Rightarrow> 0 | Some n \<Rightarrow> of_int n * out_price)"

definition calculate :: "usage \<Rightarrow> price_table \<Rightarrow> cost res" where
  "calculate u t =
     (if us_source u = ''unknown'' then Inr no_cost
      else if pt_input t = [] \<or> pt_output t = [] then Inr no_cost
      else if us_input_tokens u = None \<and> us_output_tokens u = None then Inr no_cost
      else rbind (parse_decimal (pt_input t)) (\<lambda>in_price.
        rbind (parse_decimal (pt_output t)) (\<lambda>out_price.
        rbind (if pt_cached t \<noteq> [] then rbind (parse_decimal (pt_cached t)) (\<lambda>p. Inr (Some p)) else Inr None)
          (\<lambda>cached_price.
        rbind (input_total u in_price cached_price) (\<lambda>inp.
        let str = float_string10 (inp + output_total u out_price) in
        if us_source u = ''provider'' then Inr \<lparr>co_actual = Some str, co_estimated = None\<rparr>
        else if us_source u = ''estimated'' then Inr \<lparr>co_actual = None, co_estimated = Some str\<rparr>
        else Inr no_cost)))))"

section \<open>The registry\<close>

record price_entry =
  en_provider :: string
  en_model :: string
  en_input :: string
  en_output :: string
  en_cached :: string

type_synonym price_registry = "string \<rightharpoonup> price_entry"

definition new_price_registry :: price_registry where
  "new_price_registry = Map.empty"

definition price_key :: "string \<Rightarrow> string \<Rightarrow> string" where
  "price_key provider model = to_lower (provider @ CHR '':'' # model)"

definition set_price :: "price_entry \<Rightarrow> price_registry \<Rightarrow> price_registry" where
  "set_price e r = r(price_key (en_provider e) (en_model e) \<mapsto> e)"

definition lookup_price :: "price_registry \<Rightarrow> string \<Rightarrow> string \<Rightarrow> price_entry option" where
  "lookup_price r provider model = (case r (price_key provider model) of
     Some e \<Rightarrow> Some e
   | None \<Rightarrow> r (price_key [] model))"

record model_price =
  mp_model :: string
  mp_input :: string
  mp_output :: string
  mp_cached :: string

definition agnostic_entry :: "model_price \<Rightarrow> price_entry" where
  "agnostic_entry e = \<lparr>en_provider = [], en_model = mp_model e, en_input = mp_input e,
     en_output = mp_output e, en_cached = mp_cached e\<rparr>"

definition price_registry_of :: "model_price list \<Rightarrow> price_registry" where
  "price_registry_of es = fold (\<lambda>e r. set_price (agnostic_entry e) r) es new_price_registry"

definition estimate_cost_usd :: "price_registry \<Rightarrow> string \<Rightarrow> string \<Rightarrow> int \<Rightarrow> int \<Rightarrow> string res" where
  "estimate_cost_usd r provider model inp outp = (case lookup_price r provider model of
     None \<Rightarrow> Inl (Errorf ''no pricing'')
   | Some e \<Rightarrow> (case (set_string (en_input e), set_string (en_output e)) of
       (Some i, Some q) \<Rightarrow> Inr (float_string10 (i * of_int inp + q * of_int outp))
     | _ \<Rightarrow> Inl (Errorf ''invalid pricing rates'')))"

section \<open>Reading a written cost\<close>

lemma digits_val_append: "digits_val (s @ t) = digits_val s * 10 ^ length t + digits_val t"
proof (induction t rule: rev_induct)
  case Nil
  then show ?case by (simp add: digits_val_def)
next
  case (snoc c t)
  then show ?case using digits_val_snoc [of "s @ t" c] digits_val_snoc [of t c] by simp
qed

lemma digit_val_zero: "digit_val (CHR ''0'') = 0"
  by code_simp

lemma digits_val_zeros: "digits_val (replicate n (CHR ''0'')) = 0"
proof (induction n)
  case (Suc n)
  then show ?case
    using digits_val_snoc [of "replicate n (CHR ''0'')" "CHR ''0''"] by (simp add: digit_val_zero replicate_append_same)
qed (simp add: digits_val_def)

lemma digits_val_pad: "digits_val (pad_left k s) = digits_val s"
  by (simp add: pad_left_def digits_val_append digits_val_zeros)

lemma length_show_nat: "n < 10 ^ k \<Longrightarrow> 0 < k \<Longrightarrow> length (show_nat n) \<le> k"
proof (induction n arbitrary: k rule: show_nat.induct)
  case (1 n)
  show ?case
  proof (cases "n < 10")
    case True
    with 1 show ?thesis by (simp add: show_nat.simps [of n])
  next
    case False
    with 1 obtain m where k: "k = Suc m" by (cases k) auto
    with 1(2) have "n div 10 < 10 ^ m" by simp
    moreover from False 1(2) k have "0 < m" by (cases m) auto
    ultimately have "length (show_nat (n div 10)) \<le> m" using 1(1) False by simp
    with False k show ?thesis by (simp add: show_nat.simps [of n])
  qed
qed

lemma pad10_digits: "b < 10000000000 \<Longrightarrow>
    list_all is_digit (pad_left 10 (show_nat b)) \<and> length (pad_left 10 (show_nat b)) = 10 \<and>
    digits_val (pad_left 10 (show_nat b)) = b"
proof -
  assume "b < 10000000000"
  then have "length (show_nat b) \<le> 10" by (intro length_show_nat) simp_all
  moreover have "is_digit (CHR ''0'')" by code_simp
  moreover have "list_all is_digit (replicate k (CHR ''0''))" for k
    using \<open>is_digit (CHR ''0'')\<close> by (induction k) simp_all
  ultimately show ?thesis
    by (simp add: digits_val_pad digits_val_show_nat) (simp add: pad_left_def show_nat_digits)
qed

lemma unsigned_float10:
  "unsigned_fraction (show_nat a @ CHR ''.'' # pad_left 10 (show_nat b)) = Some ((of_nat (a * 10000000000 + b)) / 10000000000)"
  if "b < 10000000000"
proof -
  let ?f = "pad_left 10 (show_nat b)"
  from pad10_digits [OF that] have f: "list_all is_digit ?f" "length ?f = 10" "digits_val ?f = b" by simp_all
  have d: "\<not> is_digit c \<Longrightarrow> list_all is_digit s \<Longrightarrow> list_all (\<lambda>x. x \<noteq> c) s" for c s
    by (auto simp: list_all_iff)
  have "cut (CHR ''/'') (show_nat a @ CHR ''.'' # ?f) = (show_nat a @ CHR ''.'' # ?f, [], False)"
    using f(1) show_nat_digits [of a] by (intro cut_none) (simp add: d)
  moreover have "cut (CHR ''.'') (show_nat a @ CHR ''.'' # ?f) = (show_nat a, ?f, True)"
    by (intro cut_append) (simp add: d show_nat_digits)
  ultimately show ?thesis
    using f by (simp add: unsigned_fraction_def show_nat_digits show_nat_nonempty digits_val_append digits_val_show_nat)
qed

lemma set_string_float10:
  assumes "0 \<le> r"
  shows "set_string (float_string10 r) = Some (of_nat (round10 r) / 10000000000)"
proof -
  have "round10 r mod 10000000000 < 10000000000" by simp
  note u = unsigned_float10 [OF this, of "round10 r div 10000000000"]
  have e: "round10 r div 10000000000 * 10000000000 + round10 r mod 10000000000 = round10 r" by simp
  have "float_string10 r = show_nat (round10 r div 10000000000) @ CHR ''.'' #
     pad_left 10 (show_nat (round10 r mod 10000000000))"
    using assms by (simp add: float_string10_def Let_def)
  then show ?thesis using u unfolding e by (simp add: set_string_show_nat_append)
qed

lemma round10_error:
  assumes "0 \<le> r"
  shows "\<bar>of_nat (round10 r) / 10000000000 - r\<bar> \<le> 1 / 20000000000"
proof -
  let ?x = "r * 10000000000 + 1 / 2"
  have "0 \<le> \<lfloor>?x\<rfloor>" using assms by simp
  then have n: "(of_nat (round10 r) :: rat) = of_int \<lfloor>?x\<rfloor>" using assms by (simp add: round10_def)
  have "of_int \<lfloor>?x\<rfloor> \<le> ?x" "?x < of_int \<lfloor>?x\<rfloor> + 1" by linarith+
  then have "\<bar>of_int \<lfloor>?x\<rfloor> - r * 10000000000\<bar> \<le> 1 / 2" by linarith
  then show ?thesis unfolding n by (simp add: abs_le_iff field_simps)
qed

lemma policy_decimal_float10:
  assumes "0 \<le> r"
  shows "policy_decimal (float_string10 r) = Inr (of_nat (round10 r) / 10000000000)"
proof -
  have "float_string10 r \<noteq> []" by (simp add: float_string10_def Let_def show_nat_nonempty)
  then show ?thesis by (simp add: policy_decimal_def set_string_float10 [OF assms])
qed

section \<open>The cost of a call\<close>

text \<open>The billing formula, over exact prices; cached tokens are charged at the cached price when the
  table has one.\<close>

definition billed :: "int \<Rightarrow> int \<Rightarrow> int \<Rightarrow> price_table \<Rightarrow> rat" where
  "billed n c k t = (if pt_cached t = [] then of_int n * the (set_string (pt_input t))
     else of_int c * the (set_string (pt_cached t)) + of_int (n - c) * the (set_string (pt_input t)))
     + of_int k * the (set_string (pt_output t))"

definition price_ok :: "string \<Rightarrow> bool" where
  "price_ok s \<longleftrightarrow> decimal_pattern None s"

definition written_cost :: "cost \<Rightarrow> string option" where
  "written_cost c = (case co_actual c of Some s \<Rightarrow> Some s | None \<Rightarrow> co_estimated c)"

lemma price_ok_value: "price_ok s \<Longrightarrow> \<exists>r \<ge> 0. set_string s = Some r"
  unfolding price_ok_def by (erule decimal_pattern_set_string) blast

lemma price_ok_nonempty: "price_ok s \<Longrightarrow> s \<noteq> []"
  by (auto dest: price_ok_value simp: set_string_def)

text \<open>C21: The written cost is the bill to the last decimal: for reported or estimated usage with cached
  tokens among the input tokens and valid prices, \<open>Calculate\<close> returns exactly one cost text, the one of
  its usage source, and the policy ledger reads that text as a number within half of \<open>10^-10\<close> of the
  exact bill, cached tokens charged once.\<close>

theorem cost_text_is_the_bill:
  assumes "us_source u \<in> {''provider'', ''estimated''}"
    and "us_input_tokens u = Some n" "us_cached_tokens u = Some c" "us_output_tokens u = Some k"
    and "0 \<le> c" "c \<le> n" "0 \<le> k"
    and "price_ok (pt_input t)" "price_ok (pt_output t)" "pt_cached t = [] \<or> price_ok (pt_cached t)"
  shows "\<exists>x s q. calculate u t = Inr x \<and> written_cost x = Some s \<and>
     (co_actual x \<noteq> None \<longleftrightarrow> us_source u = ''provider'') \<and> (co_actual x = None \<or> co_estimated x = None) \<and>
     policy_decimal s = Inr q \<and> \<bar>q - billed n c k t\<bar> \<le> 1 / 20000000000"
proof -
  obtain pi po where p: "set_string (pt_input t) = Some pi" "0 \<le> pi" "set_string (pt_output t) = Some po" "0 \<le> po"
    using assms(8,9) by (auto dest!: price_ok_value)
  obtain pc where pc: "(if pt_cached t \<noteq> [] then rbind (parse_decimal (pt_cached t)) (\<lambda>p. Inr (Some p)) else Inr None) = Inr pc"
    "pt_cached t = [] \<Longrightarrow> pc = None" "pt_cached t \<noteq> [] \<Longrightarrow> \<exists>q \<ge> 0. pc = Some q \<and> set_string (pt_cached t) = Some q"
    using assms(10) by (cases "pt_cached t = []") (auto dest!: price_ok_value simp: parse_decimal_def)
  have ne: "pt_input t \<noteq> []" "pt_output t \<noteq> []" using assms(8,9) by (auto dest: price_ok_nonempty)
  let ?total = "billed n c k t"
  have inp: "\<exists>i. input_total u pi pc = Inr i \<and> i + output_total u po = ?total"
    using assms(2-6) p(1,3) pc(2,3)
    by (cases "pt_cached t = []") (auto simp: input_total_def output_total_def billed_def)
  then obtain i where i: "input_total u pi pc = Inr i" "i + output_total u po = ?total" by blast
  have nn: "0 \<le> ?total"
    using assms(5-7) p pc(3) by (cases "pt_cached t = []") (auto simp: billed_def)
  have src: "us_source u \<noteq> ''unknown''" using assms(1) by auto
  have c: "calculate u t = Inr (if us_source u = ''provider''
     then \<lparr>co_actual = Some (float_string10 ?total), co_estimated = None\<rparr>
     else \<lparr>co_actual = None, co_estimated = Some (float_string10 ?total)\<rparr>)"
    using assms(1,2) src ne p(1,3) pc(1) i by (auto simp: calculate_def parse_decimal_def Let_def)
  let ?x = "if us_source u = ''provider'' then \<lparr>co_actual = Some (float_string10 ?total), co_estimated = None\<rparr>
     else \<lparr>co_actual = None, co_estimated = Some (float_string10 ?total)\<rparr>"
  have "written_cost ?x = Some (float_string10 ?total)" "co_actual ?x \<noteq> None \<longleftrightarrow> us_source u = ''provider''"
    "co_actual ?x = None \<or> co_estimated ?x = None" by (simp_all add: written_cost_def)
  then show ?thesis using c policy_decimal_float10 [OF nn] round10_error [OF nn] by blast
qed

definition sample_usage :: usage where
  "sample_usage = \<lparr>us_source = ''provider'', us_input_tokens = Some 300, us_output_tokens = Some 200,
     us_cached_tokens = Some 100\<rparr>"

definition sample_prices :: price_table where
  "sample_prices = \<lparr>pt_version = ''v'', pt_currency = ''USD'', pt_input = ''0.000003'', pt_output = ''0.000015'',
     pt_cached = ''0.0000015''\<rparr>"

lemma cost_text_is_the_bill_witness:
  "\<exists>x s q. calculate sample_usage sample_prices = Inr x \<and> written_cost x = Some s \<and>
     policy_decimal s = Inr q \<and> \<bar>q - billed 300 100 200 sample_prices\<bar> \<le> 1 / 20000000000"
proof -
  have p: "price_ok (pt_input sample_prices) \<and> price_ok (pt_output sample_prices) \<and> price_ok (pt_cached sample_prices)"
    by code_simp
  have "\<exists>x s q. calculate sample_usage sample_prices = Inr x \<and> written_cost x = Some s \<and>
     (co_actual x \<noteq> None \<longleftrightarrow> us_source sample_usage = ''provider'') \<and> (co_actual x = None \<or> co_estimated x = None) \<and>
     policy_decimal s = Inr q \<and> \<bar>q - billed 300 100 200 sample_prices\<bar> \<le> 1 / 20000000000"
    by (rule cost_text_is_the_bill) (use p in \<open>simp_all add: sample_usage_def\<close>)
  then show ?thesis by blast
qed

lemma sample_bill: "billed 300 100 200 sample_prices = 15 / 4000"
  by code_simp

section \<open>Lookups\<close>

lemma price_key_fold: "price_key provider model = to_lower provider @ CHR '':'' # to_lower model"
  by (simp add: price_key_def to_lower_def) code_simp

lemma lookup_after_set:
  "lookup_price (set_price e r) (en_provider e) (en_model e) = Some e"
  by (simp add: lookup_price_def set_price_def)

lemma lookup_case_insensitive:
  "to_lower p = to_lower p' \<Longrightarrow> to_lower m = to_lower m' \<Longrightarrow> lookup_price r p m = lookup_price r p' m'"
  by (simp only: lookup_price_def price_key_fold)

lemma lookup_falls_back:
  "r (price_key p m) = None \<Longrightarrow> lookup_price r p m = lookup_price r [] m"
  by (simp add: lookup_price_def split: option.split)

end
