(* ===== verification/Policy_Merge.thy ===== *)
theory Policy_Merge
  imports Event_Journal
begin

text \<open>
  \<open>internal/policies/policy.go\<close>: the limits of an installation, the remote policy envelope, and
  \<open>Merge\<close>, which takes the stricter of the two field by field. The specification is that a call is
  permitted by the merged limits exactly when the local limits and the remote ones both permit it.
\<close>

section \<open>Limits\<close>

record limits =
  lm_max_calls :: int
  lm_max_cost :: string
  lm_max_input :: int
  lm_max_output :: int
  lm_max_total :: int
  lm_max_duration :: int
  lm_max_tools :: int
  lm_providers :: "string list"
  lm_models :: "string list"
  lm_tools :: "string list"
  lm_deny_providers :: bool
  lm_deny_models :: bool
  lm_deny_tools :: bool
  lm_max_calls_day :: int
  lm_max_cost_day :: string

definition allowed :: "string list \<Rightarrow> string \<Rightarrow> bool" where
  "allowed xs v \<longleftrightarrow> xs = [] \<or> v \<in> set xs"

definition stricter_int :: "int \<Rightarrow> int \<Rightarrow> int" where
  "stricter_int a b = (if a = 0 then b else if b = 0 then a else if a < b then a else b)"

definition stricter_cost :: "string \<Rightarrow> string \<Rightarrow> string res" where
  "stricter_cost a b =
     (if a = [] then Inr b else if b = [] then Inr a
      else (case (set_string a, set_string b) of
          (Some ra, Some rb) \<Rightarrow> Inr (if ra \<le> rb then a else b)
        | _ \<Rightarrow> Inl (Errorf ''invalid cost string'')))"

definition stricter_list :: "string list \<Rightarrow> string list \<Rightarrow> string list \<times> bool" where
  "stricter_list local remote =
     (if local = [] then (remote, False) else if remote = [] then (local, False)
      else (let out = filter (\<lambda>v. v \<in> set remote) local in (out, out = [])))"

definition merge_limits :: "limits \<Rightarrow> policy_envelope \<Rightarrow> int \<Rightarrow> limits res" where
  "merge_limits local remote last_version = (let r = pe_limits remote in
     if pe_version remote \<le> 0 then Inl (Errorf ''remote policy version must be positive'')
     else if last_version > 0 \<and> pe_version remote \<le> last_version then Inl (Errorf ''stale policy version'')
     else if \<exists>v \<in> set [cp_max_calls r, cp_max_input r, cp_max_output r, cp_max_total r, cp_max_duration r,
                      cp_max_tools r]. v < 0 then Inl (Errorf ''negative remote policy limit'')
     else (case decimal (cp_max_cost r) of Inl e \<Rightarrow> Inl (Wrapf ''invalid remote cost limit'' e) | Inr _ \<Rightarrow>
       (case stricter_cost (lm_max_cost local) (cp_max_cost r) of Inl e \<Rightarrow> Inl (Wrapf ''merge cost'' e)
        | Inr merged \<Rightarrow>
          let (ps, dp) = stricter_list (lm_providers local) (cp_providers r);
              (ms, dm) = stricter_list (lm_models local) (cp_models r);
              (ts, dt) = stricter_list (lm_tools local) (cp_tools r) in
          Inr (local\<lparr>
            lm_max_calls := stricter_int (lm_max_calls local) (cp_max_calls r),
            lm_max_input := stricter_int (lm_max_input local) (cp_max_input r),
            lm_max_output := stricter_int (lm_max_output local) (cp_max_output r),
            lm_max_total := stricter_int (lm_max_total local) (cp_max_total r),
            lm_max_duration := stricter_int (lm_max_duration local) (cp_max_duration r),
            lm_max_tools := stricter_int (lm_max_tools local) (cp_max_tools r),
            lm_max_cost := merged,
            lm_providers := ps, lm_deny_providers := lm_deny_providers local \<or> dp,
            lm_models := ms, lm_deny_models := lm_deny_models local \<or> dm,
            lm_tools := ts, lm_deny_tools := lm_deny_tools local \<or> dt\<rparr>))))"

section \<open>What limits permit\<close>

text \<open>A call as the policies see it: what it asks for and where it would leave the totals of its run.\<close>

record call_view =
  cv_provider :: string
  cv_model :: string
  cv_tools :: "string list"
  cv_calls :: int
  cv_input :: int
  cv_output :: int
  cv_total :: int
  cv_tool_calls :: int
  cv_duration :: int
  cv_cost :: rat

definition fits :: "int \<Rightarrow> int \<Rightarrow> bool" where
  "fits cap v \<longleftrightarrow> cap = 0 \<or> v \<le> cap"

definition fits_cost :: "string \<Rightarrow> rat \<Rightarrow> bool" where
  "fits_cost cap q \<longleftrightarrow> cap = [] \<or> q \<le> cost_val cap"

definition permits :: "limits \<Rightarrow> call_view \<Rightarrow> bool" where
  "permits l c \<longleftrightarrow>
     \<not> lm_deny_providers l \<and> allowed (lm_providers l) (cv_provider c) \<and>
     \<not> lm_deny_models l \<and> allowed (lm_models l) (cv_model c) \<and>
     (\<forall>t \<in> set (cv_tools c). \<not> lm_deny_tools l \<and> allowed (lm_tools l) t) \<and>
     fits (lm_max_calls l) (cv_calls c) \<and> fits (lm_max_input l) (cv_input c) \<and>
     fits (lm_max_output l) (cv_output c) \<and> fits (lm_max_total l) (cv_total c) \<and>
     fits (lm_max_tools l) (cv_tool_calls c) \<and> fits (lm_max_duration l) (cv_duration c) \<and>
     fits_cost (lm_max_cost l) (cv_cost c)"

definition remote_permits :: "cp_limits \<Rightarrow> call_view \<Rightarrow> bool" where
  "remote_permits r c \<longleftrightarrow>
     allowed (cp_providers r) (cv_provider c) \<and> allowed (cp_models r) (cv_model c) \<and>
     (\<forall>t \<in> set (cv_tools c). allowed (cp_tools r) t) \<and>
     fits (cp_max_calls r) (cv_calls c) \<and> fits (cp_max_input r) (cv_input c) \<and>
     fits (cp_max_output r) (cv_output c) \<and> fits (cp_max_total r) (cv_total c) \<and>
     fits (cp_max_tools r) (cv_tool_calls c) \<and> fits (cp_max_duration r) (cv_duration c) \<and>
     fits_cost (cp_max_cost r) (cv_cost c)"

text \<open>The limits that \<open>NewEngine\<close> accepts.\<close>

definition limits_ok :: "limits \<Rightarrow> bool" where
  "limits_ok l \<longleftrightarrow> (\<forall>v \<in> set [lm_max_calls l, lm_max_input l, lm_max_output l, lm_max_total l, lm_max_duration l,
     lm_max_tools l, lm_max_calls_day l]. 0 \<le> v) \<and> is_ok (decimal (lm_max_cost l)) \<and> is_ok (decimal (lm_max_cost_day l))"

lemma stricter_int_fits:
  "0 \<le> a \<Longrightarrow> 0 \<le> b \<Longrightarrow> fits (stricter_int a b) v \<longleftrightarrow> fits a v \<and> fits b v"
  by (auto simp: fits_def stricter_int_def)

lemma stricter_int_nonneg: "0 \<le> a \<Longrightarrow> 0 \<le> b \<Longrightarrow> 0 \<le> stricter_int a b"
  by (simp add: stricter_int_def)

lemma decimal_cost_val:
  "is_ok (decimal s) \<Longrightarrow> s \<noteq> [] \<Longrightarrow> set_string s = Some (cost_val s)"
  by (auto simp: is_ok_iff decimal_def cost_val_def policy_decimal_def split: if_splits option.splits)

lemma stricter_cost_fits:
  assumes "is_ok (decimal a)" "is_ok (decimal b)"
  shows "\<exists>m. stricter_cost a b = Inr m \<and> is_ok (decimal m) \<and>
    (\<forall>q. fits_cost m q \<longleftrightarrow> fits_cost a q \<and> fits_cost b q)"
proof (cases "a = [] \<or> b = []")
  case True
  with assms show ?thesis by (auto simp: stricter_cost_def fits_cost_def)
next
  case False
  with assms have "set_string a = Some (cost_val a)" "set_string b = Some (cost_val b)"
    by (simp_all add: decimal_cost_val)
  with False assms show ?thesis
    by (auto simp: stricter_cost_def fits_cost_def)
qed

lemma stricter_list_allowed:
  "stricter_list a b = (m, deny) \<Longrightarrow> (\<not> deny \<and> allowed m v) \<longleftrightarrow> (allowed a v \<and> allowed b v)"
  by (auto simp: stricter_list_def allowed_def Let_def filter_empty_conv split: if_splits)

lemma stricter_list_deny: "stricter_list a b = (m, deny) \<Longrightarrow> deny \<Longrightarrow> \<not> (allowed a v \<and> allowed b v)"
  by (auto simp: stricter_list_def allowed_def Let_def filter_empty_conv split: if_splits)

text \<open>The fields of a successful merge.\<close>

lemma merge_Inr:
  assumes "merge_limits l e seen = Inr m"
  obtains ps dp ms dm ts dt c where
    "0 < pe_version e" "seen > 0 \<Longrightarrow> seen < pe_version e"
    "\<forall>v \<in> set [cp_max_calls (pe_limits e), cp_max_input (pe_limits e), cp_max_output (pe_limits e),
        cp_max_total (pe_limits e), cp_max_duration (pe_limits e), cp_max_tools (pe_limits e)]. 0 \<le> v"
    "is_ok (decimal (cp_max_cost (pe_limits e)))" "stricter_cost (lm_max_cost l) (cp_max_cost (pe_limits e)) = Inr c"
    "stricter_list (lm_providers l) (cp_providers (pe_limits e)) = (ps, dp)"
    "stricter_list (lm_models l) (cp_models (pe_limits e)) = (ms, dm)"
    "stricter_list (lm_tools l) (cp_tools (pe_limits e)) = (ts, dt)"
    "m = l\<lparr>lm_max_calls := stricter_int (lm_max_calls l) (cp_max_calls (pe_limits e)),
            lm_max_input := stricter_int (lm_max_input l) (cp_max_input (pe_limits e)),
            lm_max_output := stricter_int (lm_max_output l) (cp_max_output (pe_limits e)),
            lm_max_total := stricter_int (lm_max_total l) (cp_max_total (pe_limits e)),
            lm_max_duration := stricter_int (lm_max_duration l) (cp_max_duration (pe_limits e)),
            lm_max_tools := stricter_int (lm_max_tools l) (cp_max_tools (pe_limits e)), lm_max_cost := c,
            lm_providers := ps, lm_deny_providers := lm_deny_providers l \<or> dp,
            lm_models := ms, lm_deny_models := lm_deny_models l \<or> dm,
            lm_tools := ts, lm_deny_tools := lm_deny_tools l \<or> dt\<rparr>"
proof -
  have neg: "\<not> (\<exists>v \<in> set [cp_max_calls (pe_limits e), cp_max_input (pe_limits e), cp_max_output (pe_limits e),
        cp_max_total (pe_limits e), cp_max_duration (pe_limits e), cp_max_tools (pe_limits e)]. v < 0)"
    and v: "\<not> pe_version e \<le> 0" "\<not> (seen > 0 \<and> pe_version e \<le> seen)"
    using assms unfolding merge_limits_def Let_def by (metis Inl_Inr_False)+
  from assms [unfolded merge_limits_def Let_def if_not_P [OF neg] if_not_P [OF v(1)] if_not_P [OF v(2)]]
  obtain c where "is_ok (decimal (cp_max_cost (pe_limits e)))"
    "stricter_cost (lm_max_cost l) (cp_max_cost (pe_limits e)) = Inr c"
    by (auto split: sum.splits)
  with assms [unfolded merge_limits_def Let_def if_not_P [OF neg] if_not_P [OF v(1)] if_not_P [OF v(2)]] neg v
  show ?thesis
    by (cases "stricter_list (lm_providers l) (cp_providers (pe_limits e))";
        cases "stricter_list (lm_models l) (cp_models (pe_limits e))";
        cases "stricter_list (lm_tools l) (cp_tools (pe_limits e))")
      (rule that; auto simp: is_ok_iff not_less)
qed

lemma merge_permits:
  assumes "merge_limits l e seen = Inr m" "limits_ok l"
  shows "permits m c \<longleftrightarrow> permits l c \<and> remote_permits (pe_limits e) c"
  using assms(1)
proof (cases rule: merge_Inr)
  case (1 ps dp ms dm ts dt cost)
  have nn: "0 \<le> lm_max_calls l" "0 \<le> lm_max_input l" "0 \<le> lm_max_output l" "0 \<le> lm_max_total l"
    "0 \<le> lm_max_duration l" "0 \<le> lm_max_tools l" and dec: "is_ok (decimal (lm_max_cost l))"
    using assms(2) by (simp_all add: limits_ok_def)
  have rn: "0 \<le> cp_max_calls (pe_limits e)" "0 \<le> cp_max_input (pe_limits e)" "0 \<le> cp_max_output (pe_limits e)"
    "0 \<le> cp_max_total (pe_limits e)" "0 \<le> cp_max_duration (pe_limits e)" "0 \<le> cp_max_tools (pe_limits e)"
    using 1(3) by simp_all
  from stricter_cost_fits [OF dec 1(4)] 1(5)
  have cost: "fits_cost cost q \<longleftrightarrow> fits_cost (lm_max_cost l) q \<and> fits_cost (cp_max_cost (pe_limits e)) q" for q
    by auto
  have P: "\<not> (lm_deny_providers l \<or> dp) \<and> allowed ps v \<longleftrightarrow>
      (\<not> lm_deny_providers l \<and> allowed (lm_providers l) v) \<and> allowed (cp_providers (pe_limits e)) v" for v
    using stricter_list_allowed [OF 1(6), of v] by blast
  have M: "\<not> (lm_deny_models l \<or> dm) \<and> allowed ms v \<longleftrightarrow>
      (\<not> lm_deny_models l \<and> allowed (lm_models l) v) \<and> allowed (cp_models (pe_limits e)) v" for v
    using stricter_list_allowed [OF 1(7), of v] by blast
  have T: "\<not> (lm_deny_tools l \<or> dt) \<and> allowed ts v \<longleftrightarrow>
      (\<not> lm_deny_tools l \<and> allowed (lm_tools l) v) \<and> allowed (cp_tools (pe_limits e)) v" for v
    using stricter_list_allowed [OF 1(8), of v] by blast
  have tools: "(\<forall>t \<in> set (cv_tools c). \<not> (lm_deny_tools l \<or> dt) \<and> allowed ts t) \<longleftrightarrow>
      (\<forall>t \<in> set (cv_tools c). \<not> lm_deny_tools l \<and> allowed (lm_tools l) t) \<and>
      (\<forall>t \<in> set (cv_tools c). allowed (cp_tools (pe_limits e)) t)"
    unfolding T by blast
  show ?thesis
    unfolding permits_def remote_permits_def 1(9)
    using P [of "cv_provider c"] M [of "cv_model c"] tools
    by (simp add: stricter_int_fits nn rn cost) blast
qed

text \<open>C12: A merge is the conjunction of both policies: for valid local limits, the limits that \<open>Merge\<close>
  returns permit a call exactly when the local limits and the remote envelope both permit it, whatever
  fields either leaves unlimited, disjoint allow-lists included.\<close>

theorem merge_is_conjunction:
  assumes "merge_limits l e seen = Inr m" "limits_ok l"
  shows "permits m c \<longleftrightarrow> permits l c \<and> remote_permits (pe_limits e) c"
  using assms by (rule merge_permits)

lemma merge_keeps_ok:
  assumes "merge_limits l e seen = Inr m" "limits_ok l"
  shows "limits_ok m" "lm_max_calls_day m = lm_max_calls_day l" "lm_max_cost_day m = lm_max_cost_day l"
proof -
  from assms(1) have "limits_ok m \<and> lm_max_calls_day m = lm_max_calls_day l \<and> lm_max_cost_day m = lm_max_cost_day l"
  proof (cases rule: merge_Inr)
    case (1 ps dp ms dm ts dt cost)
    have "is_ok (decimal (lm_max_cost l))" using assms(2) by (simp add: limits_ok_def)
    from stricter_cost_fits [OF this 1(4)] 1(5) have "is_ok (decimal cost)" by auto
    then show ?thesis
      using assms(2) 1(3) unfolding 1(9) by (auto simp: limits_ok_def stricter_int_nonneg)
  qed
  then show "limits_ok m" "lm_max_calls_day m = lm_max_calls_day l" "lm_max_cost_day m = lm_max_cost_day l"
    by simp_all
qed

definition sample_limits :: limits where
  "sample_limits = \<lparr>lm_max_calls = 5, lm_max_cost = ''1.50'', lm_max_input = 0, lm_max_output = 0, lm_max_total = 1000,
     lm_max_duration = 0, lm_max_tools = 0, lm_providers = [''openai'', ''anthropic''], lm_models = [], lm_tools = [],
     lm_deny_providers = False, lm_deny_models = False, lm_deny_tools = False, lm_max_calls_day = 0,
     lm_max_cost_day = []\<rparr>"

definition sample_envelope :: policy_envelope where
  "sample_envelope = \<lparr>pe_version = 3, pe_etag = ''e'', pe_limits = \<lparr>cp_max_calls = 9, cp_max_cost = ''0.75'',
     cp_max_input = 0, cp_max_output = 0, cp_max_total = 0, cp_max_duration = 60, cp_max_tools = 0,
     cp_providers = [''openai''], cp_models = [''gpt-4o''], cp_tools = []\<rparr>\<rparr>"

definition sample_call :: call_view where
  "sample_call = \<lparr>cv_provider = ''anthropic'', cv_model = ''gpt-4o'', cv_tools = [], cv_calls = 1, cv_input = 10,
     cv_output = 10, cv_total = 20, cv_tool_calls = 0, cv_duration = 1, cv_cost = 1 / 2\<rparr>"

lemma merge_is_conjunction_witness:
  "\<not> permits (projr (merge_limits sample_limits sample_envelope 2)) sample_call"
proof -
  have "is_ok (merge_limits sample_limits sample_envelope 2) \<and> limits_ok sample_limits \<and>
    \<not> remote_permits (pe_limits sample_envelope) sample_call" by code_simp
  then obtain m where "merge_limits sample_limits sample_envelope 2 = Inr m" "limits_ok sample_limits"
    "\<not> remote_permits (pe_limits sample_envelope) sample_call" by (auto simp: is_ok_iff)
  with merge_is_conjunction [of sample_limits sample_envelope 2 m sample_call] show ?thesis by simp
qed

end
