(* ===== verification/Repetition.thy ===== *)
theory Repetition
  imports Policy_Merge
begin

text \<open>
  The repetition detector of the policy engine (\<open>internal/policies/repetition.go\<close>): three
  bounded caches, one per kind of repetition, with first-in first-out eviction; the recorders that
  feed them and the checks of \<open>Preflight\<close> that read them, backed by
  \<open>run_repetition_state\<close> in the journal. The caches share one interface, stated as the
  locale \<open>tracker\<close> and interpreted on them. The mutexes make each of the critical sections
  atomic; an operation is one step here. \<open>NewEngine\<close> refuses a nil journal, so the branches for
  one are left out.
\<close>

section \<open>Bounded caches\<close>

text \<open>A Go map beside the slice of its keys in the order of their insertion.\<close>

record 'v cache =
  ca_rows :: "(string \<times> 'v) list"
  ca_order :: "string list"

definition empty_cache :: "'v cache" where
  "empty_cache = \<lparr>ca_rows = [], ca_order = []\<rparr>"

definition cache_get :: "'v cache \<Rightarrow> string \<Rightarrow> 'v option" where
  "cache_get c k = map_of (ca_rows c) k"

text \<open>\<open>order[0]\<close> panics on an empty slice; a full cache has an oldest key (lemma
  \<open>full_cache_has_oldest\<close>).\<close>

definition evict :: "nat \<Rightarrow> 'v cache \<Rightarrow> 'v cache" where
  "evict cap c = (if length (ca_rows c) \<ge> cap then
     (case ca_order c of [] \<Rightarrow> c
      | k # ks \<Rightarrow> \<lparr>ca_rows = filter (\<lambda>r. fst r \<noteq> k) (ca_rows c), ca_order = ks\<rparr>)
     else c)"

definition cache_insert :: "nat \<Rightarrow> string \<Rightarrow> 'v \<Rightarrow> 'v cache \<Rightarrow> 'v cache" where
  "cache_insert cap k v c = (let c1 = evict cap c in
     \<lparr>ca_rows = ca_rows c1 @ [(k, v)], ca_order = ca_order c1 @ [k]\<rparr>)"

definition cache_set :: "string \<Rightarrow> 'v \<Rightarrow> 'v cache \<Rightarrow> 'v cache" where
  "cache_set k v c = c\<lparr>ca_rows := map (\<lambda>r. if fst r = k then (k, v) else r) (ca_rows c)\<rparr>"

text \<open>\<open>state := m[k]; if state == nil { \<dots> }\<close>, then a change through the pointer.\<close>

definition cache_visit :: "nat \<Rightarrow> string \<Rightarrow> 'v \<Rightarrow> ('v \<Rightarrow> 'v) \<Rightarrow> 'v cache \<Rightarrow> 'v cache" where
  "cache_visit cap k fresh f c = (case cache_get c k of
     None \<Rightarrow> cache_insert cap k (f fresh) c
   | Some v \<Rightarrow> cache_set k (f v) c)"

definition max_repetition_runs :: nat where
  "max_repetition_runs = 1024"

definition max_feedback_ids_per_run :: nat where
  "max_feedback_ids_per_run = 256"

section \<open>The engine\<close>

record call_repetition =
  cr_fingerprint :: string
  cr_count :: int

record tool_repetition =
  tr_fingerprint :: string
  tr_count :: int
  tr_seen :: "unit cache"

record engine =
  en_journal :: journal
  en_local :: limits
  en_limits :: limits
  en_remote_version :: int
  en_results :: "tool_repetition cache"
  en_providers :: "call_repetition cache"
  en_calls :: "call_repetition cache"

definition fresh_call :: call_repetition where
  "fresh_call = \<lparr>cr_fingerprint = [], cr_count = 0\<rparr>"

definition zero_fingerprint :: string where
  "zero_fingerprint = replicate 32 (CHR 0x00)"

definition fresh_tool :: tool_repetition where
  "fresh_tool = \<lparr>tr_fingerprint = zero_fingerprint, tr_count = 0, tr_seen = empty_cache\<rparr>"

section \<open>Recording\<close>

definition bump :: "string \<Rightarrow> call_repetition \<Rightarrow> call_repetition" where
  "bump fp s = (if cr_fingerprint s = fp then s\<lparr>cr_count := cr_count s + 1\<rparr>
     else \<lparr>cr_fingerprint = fp, cr_count = 1\<rparr>)"

definition record_tool_calls ::
  "goerr option \<Rightarrow> time \<Rightarrow> string \<Rightarrow> string list \<Rightarrow> engine \<Rightarrow> unit res \<times> engine" where
  "record_tool_calls ctx now rid fps e = (case ctx of Some err \<Rightarrow> (Inl err, e) | None \<Rightarrow>
     if \<not> label_pattern rid then (Inl (Errorf ''invalid run ID''), e)
     else if \<exists>fp \<in> set fps. \<not> hex64_pattern fp then (Inl (Errorf ''invalid tool fingerprint''), e)
     else (let calls = fold (\<lambda>fp. cache_visit max_repetition_runs rid fresh_call (bump fp)) fps (en_calls e);
               e1 = e\<lparr>en_calls := calls\<rparr>;
               (n, fp) = (case cache_get calls rid of Some s \<Rightarrow> (cr_count s, cr_fingerprint s) | None \<Rightarrow> (0, [])) in
           (Inr (), if fp \<noteq> []
              then e1\<lparr>en_journal := snd (save_repetition_state now rid ''tool_call'' n [fp] (en_journal e1))\<rparr>
              else e1)))"

text \<open>\<open>sha\<close> stands for \<open>sha256.Sum256\<close>.\<close>

record tool_result =
  tl_run_id :: string
  tl_call_id :: string
  tl_name :: string
  tl_status :: string
  tl_error_code :: string

definition result_fingerprint :: "(string \<Rightarrow> string) \<Rightarrow> tool_result \<Rightarrow> string" where
  "result_fingerprint sha r = sha (tl_name r @ [CHR 0x00] @ tl_status r @ [CHR 0x00] @ tl_error_code r)"

definition valid_tool_result :: "tool_result \<Rightarrow> bool" where
  "valid_tool_result r \<longleftrightarrow> label_pattern (tl_run_id r) \<and> model_pattern (tl_call_id r) \<and> model_pattern (tl_name r) \<and>
     (tl_status r = ''error'' \<or> tl_status r = ''success'') \<and>
     (tl_status r = ''error'' \<longrightarrow> code_pattern (tl_error_code r)) \<and>
     (tl_status r = ''success'' \<longrightarrow> tl_error_code r = [])"

definition note_result :: "(string \<Rightarrow> string) \<Rightarrow> tool_result \<Rightarrow> tool_repetition \<Rightarrow> tool_repetition" where
  "note_result sha r s =
     \<lparr>tr_fingerprint = result_fingerprint sha r,
      tr_count = (if tl_status r = ''success'' then 0
                  else if tr_fingerprint s = result_fingerprint sha r then tr_count s + 1 else 1),
      tr_seen = cache_insert max_feedback_ids_per_run (tl_call_id r) () (tr_seen s)\<rparr>"

record decision =
  de_decision :: string
  de_reason :: string
  de_policy :: string
  de_attempt :: int
  de_threshold :: int
  de_run_id :: string
  de_reservation_id :: string

definition allow_run :: "string \<Rightarrow> decision" where
  "allow_run rid = \<lparr>de_decision = ''allow'', de_reason = [], de_policy = [], de_attempt = 0, de_threshold = 0,
     de_run_id = rid, de_reservation_id = []\<rparr>"

definition record_tool_result ::
  "(string \<Rightarrow> string) \<Rightarrow> goerr option \<Rightarrow> time \<Rightarrow> tool_result \<Rightarrow> engine \<Rightarrow> decision res \<times> engine" where
  "record_tool_result sha ctx now r e = (case ctx of Some err \<Rightarrow> (Inl err, e) | None \<Rightarrow>
     if \<not> valid_tool_result r then (Inl (Errorf ''invalid tool result metadata''), e)
     else (let rid = tl_run_id r;
               found = cache_visit max_repetition_runs rid fresh_tool (\<lambda>s. s) (en_results e);
               state = (case cache_get found rid of Some s \<Rightarrow> s | None \<Rightarrow> fresh_tool) in
       if cache_get (tr_seen state) (tl_call_id r) \<noteq> None
         then (Inr (allow_run rid), e\<lparr>en_results := found\<rparr>)
       else (let state' = note_result sha r state;
                 e1 = e\<lparr>en_results := cache_set rid state' found\<rparr> in
         (Inr (allow_run rid), e1\<lparr>en_journal := snd (save_repetition_state now rid ''tool_error'' (tr_count state')
            [tl_name r, tl_error_code r] (en_journal e1))\<rparr>))))"

definition note_outcome :: "string \<Rightarrow> string \<Rightarrow> call_repetition \<Rightarrow> call_repetition" where
  "note_outcome status code s =
     (if status = ''success'' then \<lparr>cr_fingerprint = [], cr_count = 0\<rparr>
      else if cr_fingerprint s = code then s\<lparr>cr_count := cr_count s + 1\<rparr>
      else \<lparr>cr_fingerprint = code, cr_count = 1\<rparr>)"

definition record_provider_outcome ::
  "goerr option \<Rightarrow> time \<Rightarrow> string \<Rightarrow> string \<Rightarrow> string \<Rightarrow> engine \<Rightarrow> unit res \<times> engine" where
  "record_provider_outcome ctx now rid status code e = (case ctx of Some err \<Rightarrow> (Inl err, e) | None \<Rightarrow>
     if \<not> label_pattern rid \<or> (status \<noteq> ''success'' \<and> \<not> code_pattern code)
       then (Inl (Errorf ''invalid provider outcome''), e)
     else (let found = cache_visit max_repetition_runs rid fresh_call (note_outcome status code) (en_providers e);
               state = (case cache_get found rid of Some s \<Rightarrow> s | None \<Rightarrow> fresh_call);
               e1 = e\<lparr>en_providers := found\<rparr> in
       (Inr (), e1\<lparr>en_journal := snd (save_repetition_state now rid ''provider_error'' (cr_count state)
          [cr_fingerprint state] (en_journal e1))\<rparr>)))"

section \<open>Checking\<close>

text \<open>
  A cached count decides; on a miss the persisted count does, and it is cached when it is not 0. A
  failed read counts as no repetition.
\<close>

definition lazy_repeated :: "('v \<Rightarrow> int) \<Rightarrow> (int \<Rightarrow> string list \<Rightarrow> 'v) \<Rightarrow> string \<Rightarrow> string \<Rightarrow> 'v cache \<Rightarrow> journal
    \<Rightarrow> bool \<times> 'v cache \<times> journal" where
  "lazy_repeated cnt mk kind rid c j = (case cache_get c rid of
     Some s \<Rightarrow> (cnt s \<ge> 3, c, j)
   | None \<Rightarrow> (case load_repetition_state rid kind j of
         (Inl _, j') \<Rightarrow> (False, c, j')
       | (Inr (n, vals), j') \<Rightarrow>
           if n = 0 then (False, c, j')
           else (n \<ge> 3, cache_insert max_repetition_runs rid (mk n vals) c, j')))"

definition loaded_call :: "int \<Rightarrow> string list \<Rightarrow> call_repetition" where
  "loaded_call n vals = \<lparr>cr_fingerprint = (case vals of [] \<Rightarrow> [] | v # _ \<Rightarrow> v), cr_count = n\<rparr>"

definition loaded_tool :: "int \<Rightarrow> string list \<Rightarrow> tool_repetition" where
  "loaded_tool n vals = fresh_tool\<lparr>tr_count := n\<rparr>"

definition repeated_tool_call :: "string \<Rightarrow> engine \<Rightarrow> bool \<times> engine" where
  "repeated_tool_call rid e =
     (let (b, c, j) = lazy_repeated cr_count loaded_call ''tool_call'' rid (en_calls e) (en_journal e) in
      (b, e\<lparr>en_calls := c, en_journal := j\<rparr>))"

definition repeated_tool_error :: "string \<Rightarrow> engine \<Rightarrow> bool \<times> engine" where
  "repeated_tool_error rid e =
     (let (b, c, j) = lazy_repeated tr_count loaded_tool ''tool_error'' rid (en_results e) (en_journal e) in
      (b, e\<lparr>en_results := c, en_journal := j\<rparr>))"

definition repeated_provider_error :: "string \<Rightarrow> engine \<Rightarrow> bool \<times> engine" where
  "repeated_provider_error rid e =
     (let (b, c, j) = lazy_repeated cr_count loaded_call ''provider_error'' rid (en_providers e) (en_journal e) in
      (b, e\<lparr>en_providers := c, en_journal := j\<rparr>))"

definition repeated_error :: "string \<Rightarrow> engine \<Rightarrow> bool \<times> engine" where
  "repeated_error rid e = (let (b, e1) = repeated_tool_error rid e in
     if b then (True, e1) else repeated_provider_error rid e1)"

section \<open>The interface of a cache\<close>

definition cache_ok :: "nat \<Rightarrow> 'v cache \<Rightarrow> bool" where
  "cache_ok cap c \<longleftrightarrow> map fst (ca_rows c) = ca_order c \<and> distinct (ca_order c) \<and> length (ca_order c) \<le> cap \<and> 0 < cap"

definition cache_keys :: "'v cache \<Rightarrow> string set" where
  "cache_keys c = set (ca_order c)"

locale tracker =
  fixes get :: "'s \<Rightarrow> string \<Rightarrow> 'v option"
    and visit :: "string \<Rightarrow> 'v \<Rightarrow> ('v \<Rightarrow> 'v) \<Rightarrow> 's \<Rightarrow> 's"
    and keys :: "'s \<Rightarrow> string set"
    and ok :: "'s \<Rightarrow> bool"
    and room :: nat
  assumes keys_get: "ok s \<Longrightarrow> k \<in> keys s \<longleftrightarrow> get s k \<noteq> None"
    and finite_keys: "ok s \<Longrightarrow> finite (keys s)"
    and visit_ok: "ok s \<Longrightarrow> ok (visit k d f s)"
    and get_visit_same: "ok s \<Longrightarrow> get (visit k d f s) k = Some (f (case get s k of None \<Rightarrow> d | Some v \<Rightarrow> v))"
    and get_visit_other: "ok s \<Longrightarrow> k' \<noteq> k \<Longrightarrow> card (insert k (keys s)) \<le> room \<Longrightarrow> get (visit k d f s) k' = get s k'"
begin

lemma keys_visit:
  assumes "ok s" "card (insert k (keys s)) \<le> room"
  shows "keys (visit k d f s) = insert k (keys s)"
proof -
  have "x \<in> keys (visit k d f s) \<longleftrightarrow> x \<in> insert k (keys s)" for x
    using assms by (cases "x = k") (simp_all add: keys_get visit_ok get_visit_same get_visit_other)
  then show ?thesis by blast
qed

text \<open>Visits of one key, one after the other.\<close>

lemma fold_visits:
  assumes "ok s" "card (insert k (keys s)) \<le> room" "fs \<noteq> []"
  shows "ok (fold (visit k d) fs s)"
    and "keys (fold (visit k d) fs s) = insert k (keys s)"
    and "get (fold (visit k d) fs s) k = Some (fold (\<lambda>f. f) fs (case get s k of None \<Rightarrow> d | Some v \<Rightarrow> v))"
    and "k' \<noteq> k \<Longrightarrow> get (fold (visit k d) fs s) k' = get s k'"
  using assms
proof (induction fs arbitrary: s)
  case Nil
  { case 1 then show ?case by simp next
    case 2 then show ?case by simp next
    case 3 then show ?case by simp next
    case 4 then show ?case by simp }
next
  case (Cons f fs)
  { fix s assume s: "ok s" "card (insert k (keys s)) \<le> room"
    note v = visit_ok [OF s(1), of k d f] keys_visit [OF s, of d f] get_visit_same [OF s(1), of k d f]
    from s v(2) have r: "card (insert k (keys (visit k d f s))) \<le> room" by simp
    note v r }
  note step = this
  { case 1 with Cons.IH(1) step show ?case by (cases "fs = []") simp_all next
    case 2 with Cons.IH(2) step show ?case by (cases "fs = []") simp_all next
    case 3 with Cons.IH(3) step show ?case by (cases "fs = []") simp_all next
    case 4 with Cons.IH(4) step show ?case by (cases "fs = []") (simp_all add: get_visit_other) }
qed

end

lemma full_cache_has_oldest: "cache_ok cap c \<Longrightarrow> cap \<le> length (ca_rows c) \<Longrightarrow> ca_order c \<noteq> []"
  unfolding cache_ok_def by (metis length_map list.size(3) not_le)

lemma cache_keys_get: "cache_ok cap c \<Longrightarrow> k \<in> cache_keys c \<longleftrightarrow> cache_get c k \<noteq> None"
  unfolding cache_ok_def cache_keys_def cache_get_def by (metis map_of_eq_None_iff set_map)

lemma evict_ok:
  assumes "cache_ok cap c"
  shows "map fst (ca_rows (evict cap c)) = ca_order (evict cap c)"
    and "distinct (ca_order (evict cap c))" and "length (ca_order (evict cap c)) < cap"
    and "set (ca_order (evict cap c)) \<subseteq> set (ca_order c)"
proof -
  have "map fst (ca_rows (evict cap c)) = ca_order (evict cap c) \<and> distinct (ca_order (evict cap c)) \<and>
    length (ca_order (evict cap c)) < cap \<and> set (ca_order (evict cap c)) \<subseteq> set (ca_order c)"
  proof (cases "cap \<le> length (ca_rows c)")
    case True
    with assms obtain k ks where o: "ca_order c = k # ks"
      using full_cache_has_oldest by (cases "ca_order c") auto
    with assms obtain v rs where rows: "ca_rows c = (k, v) # rs" "map fst rs = ks" "k \<notin> set ks" "distinct ks"
      "length ks < cap"
      unfolding cache_ok_def by (cases "ca_rows c") auto
    then have "filter (\<lambda>r. fst r \<noteq> k) rs = rs" by (force simp: filter_id_conv)
    with True o rows show ?thesis by (auto simp: evict_def)
  next
    case False
    with assms show ?thesis by (auto simp: evict_def cache_ok_def not_le) (metis length_map)
  qed
  then show "map fst (ca_rows (evict cap c)) = ca_order (evict cap c)"
    and "distinct (ca_order (evict cap c))" and "length (ca_order (evict cap c)) < cap"
    and "set (ca_order (evict cap c)) \<subseteq> set (ca_order c)" by blast+
qed

lemma cache_insert_ok:
  assumes "cache_ok cap c" "cache_get c k = None"
  shows "cache_ok cap (cache_insert cap k v c)" and "cache_get (cache_insert cap k v c) k = Some v"
proof -
  note e = evict_ok [OF assms(1)]
  from assms have "k \<notin> set (ca_order c)" using cache_keys_get [of cap c k] by (simp add: cache_keys_def)
  with e(4) have k: "k \<notin> set (ca_order (evict cap c))" by blast
  with e show "cache_ok cap (cache_insert cap k v c)"
    by (auto simp: cache_ok_def cache_insert_def Let_def)
  from k e(1) have "map_of (ca_rows (evict cap c)) k = None" by (metis map_of_eq_None_iff set_map)
  then show "cache_get (cache_insert cap k v c) k = Some v"
    by (simp add: cache_get_def cache_insert_def Let_def map_add_def)
qed

lemma cache_set_keys: "map fst (ca_rows (cache_set k v c)) = map fst (ca_rows c)"
proof -
  have "map fst (map (\<lambda>r. if fst r = k then (k, v) else r) xs) = map fst xs" for xs
    by (induction xs) auto
  then show ?thesis by (simp add: cache_set_def del: map_map)
qed

lemma cache_set_ok: "cache_ok cap c \<Longrightarrow> cache_ok cap (cache_set k v c)"
  unfolding cache_ok_def cache_set_keys by (simp add: cache_set_def)

lemma cache_get_set:
  "cache_get (cache_set k v c) k' = (if k' = k then (if cache_get c k = None then None else Some v) else cache_get c k')"
proof -
  have "map_of (map (\<lambda>r. if fst r = k then (k, v) else r) xs) k' =
    (if k' = k then (if map_of xs k = None then None else Some v) else map_of xs k')" for xs
    by (induction xs) auto
  then show ?thesis by (simp add: cache_get_def cache_set_def)
qed

lemma cache_visit_other:
  assumes "cache_ok cap c" "k' \<noteq> k" "card (insert k (cache_keys c)) \<le> cap"
  shows "cache_get (cache_visit cap k d f c) k' = cache_get c k'"
proof (cases "cache_get c k")
  case None
  with assms have "k \<notin> set (ca_order c)" using cache_keys_get [of cap c k] by (simp add: cache_keys_def)
  with assms have "length (ca_order c) < cap"
    by (simp add: cache_ok_def cache_keys_def distinct_card)
  moreover from assms(1) have "length (ca_rows c) = length (ca_order c)"
    unfolding cache_ok_def by (metis length_map)
  ultimately have "evict cap c = c" by (simp add: evict_def)
  with None assms(2) show ?thesis
    by (auto simp: cache_visit_def cache_insert_def cache_get_def Let_def map_add_def split: option.split)
next
  case (Some v)
  with assms(2) show ?thesis by (simp add: cache_visit_def cache_get_set)
qed

interpretation runs: tracker cache_get "cache_visit max_repetition_runs" cache_keys
  "cache_ok max_repetition_runs" max_repetition_runs
proof
  fix c :: "'a cache" and k k' d f
  assume ok: "cache_ok max_repetition_runs c"
  show "k \<in> cache_keys c \<longleftrightarrow> cache_get c k \<noteq> None" using ok by (rule cache_keys_get)
  show "finite (cache_keys c)" by (simp add: cache_keys_def)
  show "cache_ok max_repetition_runs (cache_visit max_repetition_runs k d f c)"
    using ok by (auto simp: cache_visit_def cache_insert_ok cache_set_ok split: option.split)
  show "cache_get (cache_visit max_repetition_runs k d f c) k = Some (f (case cache_get c k of None \<Rightarrow> d | Some v \<Rightarrow> v))"
    using ok by (auto simp: cache_visit_def cache_insert_ok cache_get_set split: option.split)
  show "k' \<noteq> k \<Longrightarrow> card (insert k (cache_keys c)) \<le> max_repetition_runs \<Longrightarrow>
      cache_get (cache_visit max_repetition_runs k d f c) k' = cache_get c k'"
    using ok by (rule cache_visit_other)
qed

section \<open>Three in a row\<close>

text \<open>The reference: how many of the last fingerprints of a history are the same.\<close>

definition trailing :: "string list \<Rightarrow> nat" where
  "trailing xs = length (takeWhile (\<lambda>x. x = last xs) (rev xs))"

lemma trailing_snoc:
  "trailing (xs @ [x]) = (if xs \<noteq> [] \<and> last xs = x then trailing xs + 1 else 1)"
proof (cases xs rule: rev_cases)
  case Nil
  then show ?thesis by (simp add: trailing_def)
next
  case (snoc ys y)
  then show ?thesis by (simp add: trailing_def)
qed

lemma trailing_three: "3 \<le> trailing xs \<longleftrightarrow> (\<exists>h x. xs = h @ [x, x, x])"
proof
  assume t: "3 \<le> trailing xs"
  then have "Suc (Suc (Suc 0)) \<le> length (rev xs)"
    using length_takeWhile_le [of "\<lambda>x. x = last xs" "rev xs"] unfolding trailing_def by linarith
  then obtain x y z r where "rev xs = x # y # z # r"
    unfolding Suc_le_length_iff by blast
  then have xs: "xs = rev r @ [z, y, x]" by (metis append.assoc append_Cons append_Nil rev.simps(2) rev_swap)
  with t have "y = x \<and> z = x" by (auto simp: trailing_def split: if_splits)
  with xs show "\<exists>h x. xs = h @ [x, x, x]" by blast
next
  assume "\<exists>h x. xs = h @ [x, x, x]"
  then show "3 \<le> trailing xs" by (auto simp: trailing_def)
qed

definition streak_of :: "string list \<Rightarrow> call_repetition" where
  "streak_of xs = (if xs = [] then fresh_call else \<lparr>cr_fingerprint = last xs, cr_count = int (trailing xs)\<rparr>)"

lemma bump_streak: "x \<noteq> [] \<Longrightarrow> bump x (streak_of xs) = streak_of (xs @ [x])"
  using trailing_snoc [of "[]" x]
  by (auto simp: bump_def streak_of_def trailing_snoc fresh_call_def)

lemma fold_bump_streak:
  "[] \<notin> set ys \<Longrightarrow> fold (\<lambda>f. f) (map bump ys) (streak_of xs) = streak_of (xs @ ys)"
proof (induction ys arbitrary: xs)
  case Nil
  then show ?case by simp
next
  case (Cons y ys)
  then have "y \<noteq> []" "[] \<notin> set ys" by auto
  with Cons.IH [of "xs @ [y]"] show ?case by (simp add: bump_streak)
qed

lemma fold_map: "fold f (map g xs) s = fold (\<lambda>x. f (g x)) xs s"
  by (induction xs arbitrary: s) simp_all

section \<open>Sequences of operations\<close>

datatype repetition_op =
    NoteCalls "goerr option" time string "string list"
  | NoteResult "goerr option" time tool_result
  | NoteOutcome "goerr option" time string string string
  | CheckRun string

fun run_repetition :: "(string \<Rightarrow> string) \<Rightarrow> repetition_op \<Rightarrow> engine \<Rightarrow> engine" where
  "run_repetition sha (NoteCalls ctx now rid fps) e = snd (record_tool_calls ctx now rid fps e)"
| "run_repetition sha (NoteResult ctx now r) e = snd (record_tool_result sha ctx now r e)"
| "run_repetition sha (NoteOutcome ctx now rid st code) e = snd (record_provider_outcome ctx now rid st code e)"
| "run_repetition sha (CheckRun rid) e = snd (repeated_tool_call rid (snd (repeated_error rid e)))"

fun accepted_calls :: "string \<Rightarrow> repetition_op \<Rightarrow> string list" where
  "accepted_calls rid (NoteCalls ctx now rid' fps) =
     (if ctx = None \<and> rid' = rid \<and> label_pattern rid \<and> list_all hex64_pattern fps then fps else [])"
| "accepted_calls rid _ = []"

definition call_history :: "string \<Rightarrow> repetition_op list \<Rightarrow> string list" where
  "call_history rid ops = concat (map (accepted_calls rid) ops)"

definition persisted :: "journal \<Rightarrow> (string \<times> string) set" where
  "persisted j = (\<lambda>r. (rp_run_id r, rp_kind r)) ` set (t_repetition (tbl j))"

lemma save_repetition_persisted:
  "persisted (snd (save_repetition_state now rid kind n vs j)) \<subseteq> insert (rid, kind) (persisted j)"
proof (cases "save_repetition_state now rid kind n vs j")
  case (Pair x j')
  show ?thesis
  proof (cases x)
    case (Inl e)
    with Pair have "tbl j' = tbl j"
      by (auto simp: save_repetition_state_def dest!: exec_stmt_error)
    with Pair show ?thesis by (auto simp: persisted_def)
  next
    case (Inr u)
    from exec_stmt_run [OF Pair [unfolded save_repetition_state_def Inr]] Pair show ?thesis
      by (auto simp: persisted_def set_update_where dest!: sym [of _ "tbl j'"] split: if_splits)
  qed
qed

lemma load_repetition_tbl: "load_repetition_state rid kind j = (x, j') \<Longrightarrow> tbl j' = tbl j"
proof -
  have "keeps (\<lambda>t. t = tbl j) (load_repetition_state rid kind)"
    unfolding load_repetition_state_def by (auto intro!: keeps_intros split: option.split)
  then show "load_repetition_state rid kind j = (x, j') \<Longrightarrow> tbl j' = tbl j"
    by (blast dest: keepsD)
qed

lemma load_repetition_missing:
  assumes "(rid, kind) \<notin> persisted j" "load_repetition_state rid kind j = (Inr (n, vs), j')"
  shows "n = 0"
proof -
  have "first_row (\<lambda>r. rp_run_id r = rid \<and> rp_kind r = kind) (t_repetition (tbl j)) = None"
    using assms(1) by (auto simp: first_row_None persisted_def)
  with assms(2) show ?thesis
    by (auto simp: load_repetition_state_def run_simps dest!: query_run)
qed

lemma lazy_repeated_journal:
  "lazy_repeated cnt mk kind rid c j = (b, c', j') \<Longrightarrow> tbl j' = tbl j"
  by (auto simp: lazy_repeated_def split: option.splits prod.splits sum.splits if_splits
      dest!: load_repetition_tbl)

lemma persisted_cong: "tbl j' = tbl j \<Longrightarrow> persisted j' = persisted j"
  by (simp add: persisted_def)

lemma repeated_error_frame:
  "en_calls (snd (repeated_error rid e)) = en_calls e"
  "tbl (en_journal (snd (repeated_error rid e))) = tbl (en_journal e)"
  by (auto simp: repeated_error_def repeated_tool_error_def repeated_provider_error_def Let_def
      split: prod.splits dest!: lazy_repeated_journal)

text \<open>What the call cache and the persisted rows are after a history.\<close>

definition tracks_calls :: "(string \<Rightarrow> string list) \<Rightarrow> engine \<Rightarrow> bool" where
  "tracks_calls h e \<longleftrightarrow> cache_ok max_repetition_runs (en_calls e) \<and>
     (\<forall>rid. cache_get (en_calls e) rid = (if h rid = [] then None else Some (streak_of (h rid)))) \<and>
     (\<forall>rid. (rid, ''tool_call'') \<in> persisted (en_journal e) \<longrightarrow> h rid \<noteq> [])"

lemma tracks_keys: "tracks_calls h e \<Longrightarrow> cache_keys (en_calls e) = {rid. h rid \<noteq> []}"
  using cache_keys_get [of max_repetition_runs "en_calls e"] by (auto simp: tracks_calls_def)

lemma tracks_repeated:
  assumes "tracks_calls h e"
  shows "fst (repeated_tool_call rid e) \<longleftrightarrow> 3 \<le> trailing (h rid)"
    and "en_calls (snd (repeated_tool_call rid e)) = en_calls e"
    and "tbl (en_journal (snd (repeated_tool_call rid e))) = tbl (en_journal e)"
proof -
  have "\<exists>j. lazy_repeated cr_count loaded_call ''tool_call'' rid (en_calls e) (en_journal e) =
      (3 \<le> trailing (h rid), en_calls e, j)"
  proof (cases "h rid = []")
    case True
    with assms have miss: "cache_get (en_calls e) rid = None" "(rid, ''tool_call'') \<notin> persisted (en_journal e)"
      unfolding tracks_calls_def by auto
    with True load_repetition_missing [OF miss(2)] show ?thesis
      by (auto simp: lazy_repeated_def trailing_def split: prod.split sum.split)
  next
    case False
    with assms have "cache_get (en_calls e) rid = Some (streak_of (h rid))"
      unfolding tracks_calls_def by simp
    with False show ?thesis by (simp add: lazy_repeated_def streak_of_def)
  qed
  then obtain j where l: "lazy_repeated cr_count loaded_call ''tool_call'' rid (en_calls e) (en_journal e) =
      (3 \<le> trailing (h rid), en_calls e, j)" ..
  from l lazy_repeated_journal [OF l]
  show "fst (repeated_tool_call rid e) \<longleftrightarrow> 3 \<le> trailing (h rid)"
    and "en_calls (snd (repeated_tool_call rid e)) = en_calls e"
    and "tbl (en_journal (snd (repeated_tool_call rid e))) = tbl (en_journal e)"
    by (simp_all add: repeated_tool_call_def)
qed

lemma tracks_frame:
  assumes "tracks_calls h e" "en_calls e' = en_calls e"
    and "persisted (en_journal e') \<subseteq> insert (rid, kind) (persisted (en_journal e))" "kind \<noteq> ''tool_call''"
  shows "tracks_calls h e'"
  using assms unfolding tracks_calls_def by auto


lemma tracks_record:
  assumes t: "tracks_calls h e" and room: "card (insert rid {r. h r \<noteq> []}) \<le> max_repetition_runs"
    and ok: "label_pattern rid" "list_all hex64_pattern fps"
  shows "tracks_calls (h(rid := h rid @ fps)) (snd (record_tool_calls None now rid fps e))"
proof -
  let ?c = "fold (\<lambda>fp. cache_visit max_repetition_runs rid fresh_call (bump fp)) fps (en_calls e)"
  let ?h = "h(rid := h rid @ fps)" and ?r = "snd (record_tool_calls None now rid fps e)"
  have c: "?c = fold (cache_visit max_repetition_runs rid fresh_call) (map bump fps) (en_calls e)"
    by (simp add: fold_map)
  have co: "cache_ok max_repetition_runs (en_calls e)"
    and get: "\<And>r. cache_get (en_calls e) r = (if h r = [] then None else Some (streak_of (h r)))"
    and per: "\<And>r. (r, ''tool_call'') \<in> persisted (en_journal e) \<Longrightarrow> h r \<noteq> []"
    using t unfolding tracks_calls_def by auto
  have keys: "card (insert rid (cache_keys (en_calls e))) \<le> max_repetition_runs"
    using room by (simp add: tracks_keys [OF t])
  have ne: "[] \<notin> set fps" using ok(2) by (auto simp: list_all_iff hex64_pattern_def)
  have cs: "cache_ok max_repetition_runs ?c \<and> (\<forall>r. cache_get ?c r = (if ?h r = [] then None else Some (streak_of (?h r))))"
  proof (cases "fps = []")
    case True
    then show ?thesis using co get by simp
  next
    case False
    then have m: "map bump fps \<noteq> []" by simp
    note f = runs.fold_visits [OF co keys m, where d = fresh_call]
    have "(case cache_get (en_calls e) rid of None \<Rightarrow> fresh_call | Some v \<Rightarrow> v) = streak_of (h rid)"
      by (simp add: get streak_of_def)
    with f(3) have "cache_get ?c rid = Some (streak_of (h rid @ fps))"
      unfolding c by (simp add: fold_bump_streak [OF ne])
    with f(1,4) False get show ?thesis unfolding c by auto
  qed
  have calls: "en_calls ?r = ?c"
    and jour: "en_journal ?r = (if \<exists>s. cache_get ?c rid = Some s \<and> cr_fingerprint s \<noteq> []
       then snd (save_repetition_state now rid ''tool_call'' (cr_count (the (cache_get ?c rid)))
          [cr_fingerprint (the (cache_get ?c rid))] (en_journal e)) else en_journal e)"
    using ok by (auto simp: record_tool_calls_def Let_def list_all_iff split: option.split)
  have "?h r \<noteq> []" if "(r, ''tool_call'') \<in> persisted (en_journal ?r)" for r
  proof (cases "(r, ''tool_call'') \<in> persisted (en_journal e)")
    case True
    with per show ?thesis by auto
  next
    case False
    with that jour save_repetition_persisted [of now rid "''tool_call''"]
    have "r = rid \<and> cache_get ?c rid \<noteq> None" by (auto split: if_splits)
    with cs show ?thesis by (auto split: if_splits)
  qed
  with cs calls show ?thesis unfolding tracks_calls_def by simp
qed

lemma record_other_frame:
  "en_calls (snd (record_tool_result sha ctx now r e)) = en_calls e"
  "en_calls (snd (record_provider_outcome ctx now rid st code e)) = en_calls e"
  "persisted (en_journal (snd (record_tool_result sha ctx now r e)))
     \<subseteq> insert (tl_run_id r, ''tool_error'') (persisted (en_journal e))"
  "persisted (en_journal (snd (record_provider_outcome ctx now rid st code e)))
     \<subseteq> insert (rid, ''provider_error'') (persisted (en_journal e))"
  using save_repetition_persisted
  by (auto simp: record_tool_result_def record_provider_outcome_def Let_def split: option.split dest!: subsetD)

lemma tracks_run:
  assumes t: "tracks_calls h e"
    and room: "card ({r. h r \<noteq> []} \<union> {r. accepted_calls r a \<noteq> []}) \<le> max_repetition_runs"
  shows "tracks_calls (\<lambda>r. h r @ accepted_calls r a) (run_repetition sha a e)"
proof (cases a)
  case (NoteCalls ctx now rid fps)
  show ?thesis
  proof (cases "ctx = None \<and> label_pattern rid \<and> list_all hex64_pattern fps")
    case ok: True
    have h: "(\<lambda>r. h r @ accepted_calls r a) = h(rid := h rid @ fps)"
      using ok NoteCalls by auto
    show ?thesis
    proof (cases "fps = []")
      case False
      with ok NoteCalls have "{r. accepted_calls r a \<noteq> []} = {rid}" by auto
      with room have "card (insert rid {r. h r \<noteq> []}) \<le> max_repetition_runs" by simp
      from tracks_record [OF t this] ok show ?thesis unfolding h by (simp add: NoteCalls)
    next
      case True
      with t ok have "tracks_calls h (snd (record_tool_calls None now rid [] e))"
        using save_repetition_persisted [of now rid "''tool_call''" _ _ "en_journal e"]
        unfolding tracks_calls_def record_tool_calls_def
        by (auto simp: Let_def streak_of_def split: option.split dest!: subsetD split: if_splits)
      with True ok show ?thesis unfolding h by (simp add: NoteCalls)
    qed
  next
    case False
    then have "accepted_calls r a = []" for r by (auto simp: NoteCalls)
    moreover from False have "run_repetition sha a e = e"
      by (auto simp: NoteCalls record_tool_calls_def list_all_iff split: option.split)
    ultimately show ?thesis using t by simp
  qed
next
  case (NoteResult ctx now r)
  with tracks_frame [OF t record_other_frame(1) record_other_frame(3)] show ?thesis by simp
next
  case (NoteOutcome ctx now rid st code)
  with tracks_frame [OF t record_other_frame(2) record_other_frame(4)] show ?thesis by simp
next
  case (CheckRun rid)
  let ?e = "snd (repeated_error rid e)"
  have "tracks_calls h ?e"
    using tracks_frame [OF t, of ?e rid "''x''"] repeated_error_frame [of rid e]
    by (auto simp: persisted_def)
  from this tracks_repeated(2,3) [OF this, of rid] show ?thesis
    unfolding CheckRun tracks_calls_def by (simp add: persisted_def)
qed

lemma tracks_fold:
  assumes "en_calls e = empty_cache" "\<forall>r \<in> set (t_repetition (tbl (en_journal e))). rp_kind r \<noteq> ''tool_call''"
    and "card {r. call_history r ops \<noteq> []} \<le> max_repetition_runs"
  shows "tracks_calls (\<lambda>r. call_history r ops) (fold (run_repetition sha) ops e)"
  using assms(3)
proof (induction ops rule: rev_induct)
  case Nil
  with assms(1,2) show ?case
    by (auto simp: tracks_calls_def call_history_def cache_ok_def empty_cache_def cache_get_def persisted_def
        max_repetition_runs_def)
next
  case (snoc a ops)
  have fin: "finite {r. call_history r os \<noteq> []}" for os
  proof -
    have "{r. accepted_calls r b \<noteq> []} \<subseteq> (case b of NoteCalls c n rid f \<Rightarrow> {rid} | _ \<Rightarrow> {})" for b
      by (cases b) auto
    then have "finite {r. accepted_calls r b \<noteq> []}" for b
      by (rule finite_subset) (simp split: repetition_op.split)
    moreover have "{r. call_history r os \<noteq> []} = (\<Union>b \<in> set os. {r. accepted_calls r b \<noteq> []})"
      by (auto simp: call_history_def)
    ultimately show ?thesis by simp
  qed
  have u: "{r. call_history r (ops @ [a]) \<noteq> []} = {r. call_history r ops \<noteq> []} \<union> {r. accepted_calls r a \<noteq> []}"
    by (auto simp: call_history_def)
  have "card {r. call_history r ops \<noteq> []} \<le> card {r. call_history r (ops @ [a]) \<noteq> []}"
    by (rule card_mono [OF fin]) (auto simp: call_history_def)
  with snoc have "tracks_calls (\<lambda>r. call_history r ops) (fold (run_repetition sha) ops e)" by simp
  from tracks_run [OF this, of a sha] snoc.prems u show ?case by (simp add: call_history_def)
qed

text \<open>C4: The tool-call detector is exact: after any sequence of recordings and checks, with driver
  failures anywhere, on an engine that starts with no record of tool calls and sees at most 1024
  runs, \<open>Preflight\<close> finds a run repeating itself exactly when the last three fingerprints
  recorded for that run are the same.\<close>

theorem third_identical_call_detected:
  assumes "en_calls e = empty_cache" "\<forall>r \<in> set (t_repetition (tbl (en_journal e))). rp_kind r \<noteq> ''tool_call''"
    and "card {r. call_history r ops \<noteq> []} \<le> max_repetition_runs"
  shows "fst (repeated_tool_call rid (fold (run_repetition sha) ops e)) \<longleftrightarrow>
    (\<exists>h fp. call_history rid ops = h @ [fp, fp, fp])"
  using tracks_repeated(1) [OF tracks_fold [OF assms]] by (simp add: trailing_three)

definition sample_engine :: engine where
  "sample_engine = \<lparr>en_journal = (new_journal ''i'')\<lparr>faults := [False, True]\<rparr>, en_local = sample_limits,
     en_limits = sample_limits, en_remote_version = 0, en_results = empty_cache, en_providers = empty_cache,
     en_calls = empty_cache\<rparr>"

definition repeated_ops :: "repetition_op list" where
  "repeated_ops = [NoteCalls None 1 ''r'' [replicate 64 (CHR ''a'')], NoteOutcome None 2 ''r'' ''success'' [],
     NoteCalls None 3 ''r'' [replicate 64 (CHR ''a'')], CheckRun ''r'', NoteCalls None 4 ''s'' [replicate 64 (CHR ''b'')],
     NoteCalls None 5 ''r'' [replicate 64 (CHR ''a'')]]"

lemma repeated_history:
  "call_history r repeated_ops = (if r = ''r'' then replicate 3 (replicate 64 (CHR ''a''))
     else if r = ''s'' then [replicate 64 (CHR ''b'')] else [])"
proof -
  have "label_pattern ''r''" "label_pattern ''s''" "hex64_pattern (replicate 64 (CHR ''a''))"
    "hex64_pattern (replicate 64 (CHR ''b''))"
    by code_simp+
  then show ?thesis by (auto simp: call_history_def repeated_ops_def numeral_3_eq_3)
qed

lemma third_identical_call_detected_witness:
  "fst (repeated_tool_call ''r'' (fold (run_repetition (\<lambda>s. s)) repeated_ops sample_engine))"
proof -
  have "{r. call_history r repeated_ops \<noteq> []} \<subseteq> {''r'', ''s''}" by (auto simp: repeated_history split: if_splits)
  then have "card {r. call_history r repeated_ops \<noteq> []} \<le> card {''r'', ''s''}" by (intro card_mono) simp_all
  then have c: "card {r. call_history r repeated_ops \<noteq> []} \<le> max_repetition_runs"
    by (simp add: max_repetition_runs_def)
  have e: "en_calls sample_engine = empty_cache" "\<forall>r \<in> set (t_repetition (tbl (en_journal sample_engine))). rp_kind r \<noteq> ''tool_call''"
    by (simp_all add: sample_engine_def new_journal_def empty_tables_def)
  have "\<exists>h fp. call_history ''r'' repeated_ops = h @ [fp, fp, fp]"
    by (intro exI [of _ "[]"] exI [of _ "replicate 64 (CHR ''a'')"]) (simp add: repeated_history numeral_3_eq_3)
  then show ?thesis using third_identical_call_detected [OF e c] by simp
qed

end
