(* ===== verification/Policy_Engine.thy ===== *)
theory Policy_Engine
  imports Repetition
begin

text \<open>
  The policy engine (\<open>internal/policies/policy.go\<close>): its construction, \<open>Preflight\<close>, which
  admits or blocks a call before it is sent, \<open>Postflight\<close>, and the application of remote
  policies. It composes the repetition detector, the merged limits and the ledger of the journal.
\<close>

section \<open>Construction\<close>

definition new_engine :: "journal \<Rightarrow> limits \<Rightarrow> engine res" where
  "new_engine j l =
     (if \<exists>v \<in> set [lm_max_calls l, lm_max_input l, lm_max_output l, lm_max_total l, lm_max_duration l,
                   lm_max_tools l, lm_max_calls_day l]. v < 0 then Inl (Errorf ''negative policy limit'')
      else (case decimal (lm_max_cost l) of Inl e \<Rightarrow> Inl (Wrapf ''cost cap'' e) | Inr _ \<Rightarrow>
        (case decimal (lm_max_cost_day l) of Inl e \<Rightarrow> Inl (Wrapf ''daily cost cap'' e) | Inr _ \<Rightarrow>
          Inr \<lparr>en_journal = j, en_local = l, en_limits = l, en_remote_version = 0,
               en_results = empty_cache, en_providers = empty_cache, en_calls = empty_cache\<rparr>)))"

text \<open>An operation of the journal, run by the engine.\<close>

definition on_journal :: "'a sql \<Rightarrow> engine \<Rightarrow> 'a res \<times> engine" where
  "on_journal m e = (case m (en_journal e) of (x, j) \<Rightarrow> (x, e\<lparr>en_journal := j\<rparr>))"

section \<open>Preflight\<close>

record request_facts =
  rf_run_id :: string
  rf_provider :: string
  rf_model :: string
  rf_tools :: "string list"
  rf_started :: time
  rf_cost :: string
  rf_input :: "int option"
  rf_output :: "int option"

text \<open>What \<open>Preflight\<close> takes from outside: the random bytes of the two identifiers and the
  clock at its three readings.\<close>

record surroundings =
  su_run_bytes :: "string option"
  su_reservation_bytes :: "string option"
  su_started :: time
  su_today :: time
  su_now :: time

definition block_run :: "string \<Rightarrow> string \<Rightarrow> string \<Rightarrow> int \<Rightarrow> int \<Rightarrow> decision" where
  "block_run rid reason policy attempt threshold =
     \<lparr>de_decision = ''block'', de_reason = reason, de_policy = policy, de_attempt = attempt,
      de_threshold = threshold, de_run_id = rid, de_reservation_id = []\<rparr>"

definition repetition_block :: "string \<Rightarrow> engine \<Rightarrow> decision option \<times> engine" where
  "repetition_block rid e =
     (let (b1, e1) = repeated_tool_error rid e in
      if b1 then (Some (block_run rid ''repeated_tool_error'' ''repeated_error_limit'' 4 3), e1) else
      let (b2, e2) = repeated_provider_error rid e1 in
      if b2 then (Some (block_run rid ''repeated_provider_error'' ''repeated_error_limit'' 4 3), e2) else
      let (b3, e3) = repeated_tool_call rid e2 in
      if b3 then (Some (block_run rid ''repeated_tool_call'' ''repeated_call_limit'' 4 3), e3) else (None, e3))"

definition list_block :: "limits \<Rightarrow> request_facts \<Rightarrow> string \<Rightarrow> decision option" where
  "list_block l rf rid =
     (if lm_deny_providers l \<or> \<not> allowed (lm_providers l) (rf_provider rf)
        then Some (block_run rid ''provider_not_allowed'' ''allowed_providers'' 0 0)
      else if lm_deny_models l \<or> \<not> allowed (lm_models l) (rf_model rf)
        then Some (block_run rid ''model_not_allowed'' ''allowed_models'' 0 0)
      else if \<exists>name \<in> set (rf_tools rf). lm_deny_tools l \<or> \<not> allowed (lm_tools l) name
        then Some (block_run rid ''tool_not_allowed'' ''allowed_tools'' 0 0)
      else if lm_max_cost l \<noteq> [] \<and> rf_cost rf = []
        then Some (block_run rid ''cost_unavailable'' ''max_cost_per_run_usd'' 0 0)
      else None)"

definition daily_block :: "time \<Rightarrow> limits \<Rightarrow> request_facts \<Rightarrow> string \<Rightarrow> decision option sql" where
  "daily_block today l rf rid = (\<lambda>j.
     if lm_max_calls_day l > 0 \<or> lm_max_cost_day l \<noteq> [] then
       (case read_daily_counters today j of
          (Inl e, j') \<Rightarrow> (Inl (Wrapf ''daily counters'' e), j')
        | (Inr (calls, cost), j') \<Rightarrow>
            (if lm_max_calls_day l > 0 \<and> calls \<ge> lm_max_calls_day l
               then Inr (Some (block_run rid ''daily_call_limit'' ''max_calls_per_day'' (calls + 1) (lm_max_calls_day l)))
             else if lm_max_cost_day l \<noteq> [] then
               rbind (decimal (lm_max_cost_day l)) (\<lambda>cap.
               rbind (decimal (rf_cost rf)) (\<lambda>est.
               Inr (if cap > 0 \<and> cost + est > cap
                 then Some (block_run rid ''daily_cost_limit'' ''max_cost_per_day_usd'' 0 0) else None)))
             else Inr None, j'))
     else (Inr None, j))"

definition tokens_or_0 :: "int option \<Rightarrow> int" where
  "tokens_or_0 x = (case x of Some n \<Rightarrow> n | None \<Rightarrow> 0)"

definition reserve_of :: "time \<Rightarrow> limits \<Rightarrow> request_facts \<Rightarrow> string \<Rightarrow> string \<Rightarrow> policy_reserve" where
  "reserve_of started l rf rid res =
     \<lparr>rs_run_id = rid, rs_reservation_id = res,
      rs_started = (if rf_started rf = zero_time then started else rf_started rf),
      rs_input = tokens_or_0 (rf_input rf), rs_output = tokens_or_0 (rf_output rf),
      rs_tools = (if rf_tools rf \<noteq> [] then 1 else 0), rs_cost = rf_cost rf,
      rs_max_calls = lm_max_calls l, rs_max_input = lm_max_input l, rs_max_output = lm_max_output l,
      rs_max_total = lm_max_total l, rs_max_tools = lm_max_tools l, rs_max_duration = lm_max_duration l,
      rs_max_cost = lm_max_cost l\<rparr>"

definition decide_reservation :: "string \<Rightarrow> string \<Rightarrow> reserve_result \<Rightarrow> decision" where
  "decide_reservation rid res r =
     (if rr_reason r \<noteq> [] then block_run rid (rr_reason r) (rr_policy r) (rr_attempt r) (rr_threshold r)
      else (allow_run rid)\<lparr>de_reservation_id := res, de_attempt := rr_attempt r\<rparr>)"

text \<open>The part of \<open>Preflight\<close> after the repetition checks, as one piece of journal code.\<close>

definition preflight_limits :: "surroundings \<Rightarrow> limits \<Rightarrow> request_facts \<Rightarrow> string \<Rightarrow> decision sql" where
  "preflight_limits su l rf rid = (case list_block l rf rid of Some d \<Rightarrow> ret d | None \<Rightarrow>
     (case decimal (rf_cost rf) of Inl e \<Rightarrow> fail (Wrapf ''cost estimate'' e) | Inr _ \<Rightarrow>
       bindE (daily_block (su_today su) l rf rid) (\<lambda>b. case b of Some d \<Rightarrow> ret d | None \<Rightarrow>
         if tokens_or_0 (rf_input rf) < 0 \<or> tokens_or_0 (rf_output rf) < 0
           then fail (Errorf ''negative token estimate'')
         else bindE (of_res (new_id (su_reservation_bytes su))) (\<lambda>res.
           bindE (reserve_policy (su_now su) (reserve_of (su_started su) l rf rid res)) (\<lambda>r.
           ret (decide_reservation rid res r))))))"

definition preflight :: "surroundings \<Rightarrow> request_facts \<Rightarrow> engine \<Rightarrow> decision res \<times> engine" where
  "preflight su rf e = (case resolve_run_id (su_run_bytes su) (rf_run_id rf) of
     Inl err \<Rightarrow> (Inl err, e)
   | Inr rid \<Rightarrow> (case repetition_block rid e of
       (Some d, e1) \<Rightarrow> (Inr d, e1)
     | (None, e1) \<Rightarrow> on_journal (preflight_limits su (en_limits e) rf rid) e1))"

section \<open>Remote policies\<close>

definition apply_remote_policy :: "policy_envelope \<Rightarrow> engine \<Rightarrow> unit res \<times> engine" where
  "apply_remote_policy remote e =
     (if pe_version remote \<le> 0 then (Inl (Errorf ''remote policy version must be positive''), e)
      else (case merge_limits (en_local e) remote (en_remote_version e) of
        Inl err \<Rightarrow> (Inl err, e)
      | Inr merged \<Rightarrow> (Inr (), e\<lparr>en_limits := merged, en_remote_version := pe_version remote\<rparr>)))"

definition remote_version_of :: "engine \<Rightarrow> int" where
  "remote_version_of e = en_remote_version e"

text \<open>\<open>json.Marshal\<close> of an envelope does not fail; the journal keeps the envelope itself.\<close>

definition cache_and_apply_remote_policy :: "policy_envelope \<Rightarrow> engine \<Rightarrow> unit res \<times> engine" where
  "cache_and_apply_remote_policy remote e =
     (case merge_limits (en_local e) remote (en_remote_version e) of
        Inl err \<Rightarrow> (Inl err, e)
      | Inr merged \<Rightarrow> (case on_journal (save_remote_policy (pe_version remote) remote) e of
          (Inl err, e1) \<Rightarrow> (Inl err, e1)
        | (Inr _, e1) \<Rightarrow> (Inr (), e1\<lparr>en_limits := merged, en_remote_version := pe_version remote\<rparr>)))"

section \<open>Postflight\<close>

record outcome_facts =
  of_run_id :: string
  of_reservation_id :: string
  of_input :: "int option"
  of_output :: "int option"
  of_cost :: string
  of_tool_calls :: "int option"

definition tokens_or_unknown :: "int option \<Rightarrow> int" where
  "tokens_or_unknown x = (case x of Some n \<Rightarrow> n | None \<Rightarrow> - 1)"

definition outcome_of :: "outcome_facts \<Rightarrow> policy_outcome" where
  "outcome_of f = \<lparr>oc_run_id = of_run_id f, oc_reservation_id = of_reservation_id f,
     oc_input = tokens_or_unknown (of_input f), oc_output = tokens_or_unknown (of_output f),
     oc_tools = tokens_or_unknown (of_tool_calls f), oc_cost = of_cost f\<rparr>"

definition postflight :: "time \<Rightarrow> outcome_facts \<Rightarrow> engine \<Rightarrow> unit res \<times> engine" where
  "postflight now f e =
     (if of_reservation_id f = [] then (Inl (Errorf ''reservation ID is required''), e)
      else if oc_input (outcome_of f) < - 1 \<or> oc_output (outcome_of f) < - 1 \<or> oc_tools (outcome_of f) < - 1
        then (Inl (Errorf ''negative actual usage''), e)
      else (case decimal (of_cost f) of Inl err \<Rightarrow> (Inl (Wrapf ''actual cost'' err), e)
        | Inr _ \<Rightarrow> on_journal (bindE (reconcile_policy (outcome_of f)) (\<lambda>_. increment_daily_counters now (of_cost f))) e))"

section \<open>What the parts leave alone\<close>

lemma on_journal_frame:
  "on_journal m e = (x, e') \<Longrightarrow> m (en_journal e) = (x, en_journal e') \<and> e' = e\<lparr>en_journal := en_journal e'\<rparr>"
  by (auto simp: on_journal_def split: prod.splits)

lemma repetition_checks_frame:
  "repeated_tool_error rid e = (b, e') \<Longrightarrow> tbl (en_journal e') = tbl (en_journal e) \<and> en_limits e' = en_limits e
     \<and> en_local e' = en_local e \<and> en_remote_version e' = en_remote_version e"
  "repeated_provider_error rid e = (b, e') \<Longrightarrow> tbl (en_journal e') = tbl (en_journal e) \<and> en_limits e' = en_limits e
     \<and> en_local e' = en_local e \<and> en_remote_version e' = en_remote_version e"
  "repeated_tool_call rid e = (b, e') \<Longrightarrow> tbl (en_journal e') = tbl (en_journal e) \<and> en_limits e' = en_limits e
     \<and> en_local e' = en_local e \<and> en_remote_version e' = en_remote_version e"
  by (auto simp: repeated_tool_error_def repeated_provider_error_def repeated_tool_call_def
      split: prod.splits dest!: lazy_repeated_journal)

lemma repetition_block_frame:
  assumes "repetition_block rid e = (d, e')"
  shows "tbl (en_journal e') = tbl (en_journal e)" "en_limits e' = en_limits e" "en_local e' = en_local e"
    "en_remote_version e' = en_remote_version e" "d \<noteq> None \<Longrightarrow> de_decision (the d) = ''block''"
  using assms unfolding repetition_block_def
  by (auto simp: Let_def block_run_def split: prod.splits if_splits dest!: repetition_checks_frame)

lemma list_block_None:
  "list_block l rf rid = None \<longleftrightarrow> \<not> lm_deny_providers l \<and> allowed (lm_providers l) (rf_provider rf) \<and>
     \<not> lm_deny_models l \<and> allowed (lm_models l) (rf_model rf) \<and>
     (\<forall>t \<in> set (rf_tools rf). \<not> lm_deny_tools l \<and> allowed (lm_tools l) t) \<and> (lm_max_cost l \<noteq> [] \<longrightarrow> rf_cost rf \<noteq> [])"
  by (auto simp: list_block_def)

lemma list_block_blocks: "list_block l rf rid = Some d \<Longrightarrow> de_decision d = ''block''"
  by (auto simp: list_block_def block_run_def split: if_splits)

lemma read_daily_tbl: "read_daily_counters now j = (x, j') \<Longrightarrow> tbl j' = tbl j"
proof -
  have "keeps (\<lambda>t. t = tbl j) (read_daily_counters now)"
    unfolding read_daily_counters_def by (auto intro!: keeps_intros split: option.split)
  then show "read_daily_counters now j = (x, j') \<Longrightarrow> tbl j' = tbl j" by (blast dest: keepsD)
qed

lemma daily_block_tbl: "daily_block today l rf rid j = (x, j') \<Longrightarrow> tbl j' = tbl j"
  by (auto simp: daily_block_def split: if_splits prod.splits sum.splits dest!: read_daily_tbl)

lemma daily_block_blocks:
  assumes "daily_block today l rf rid j = (Inr (Some d), j')"
  shows "de_decision d = ''block''"
proof -
  have "rbind a (\<lambda>cap. rbind b (\<lambda>est. Inr (if P cap est then Some (block_run r x y m n) else None))) = Inr (Some d)
      \<Longrightarrow> de_decision d = ''block''" for a b P r x y m n
    by (auto simp: rbind_Inr_iff block_run_def split: if_splits)
  with assms show ?thesis
    by (auto simp: daily_block_def block_run_def split: if_splits prod.splits sum.splits)
qed

section \<open>What Preflight decides\<close>

lemma preflight_limits_run:
  assumes "preflight_limits su l rf rid j = (Inr d, j')"
  obtains (blocked) "tbl j' = tbl j" "de_decision d = ''block''"
  | (allowed) res r j1 where "list_block l rf rid = None" "daily_block (su_today su) l rf rid j = (Inr None, j1)"
      "tbl j1 = tbl j" "0 \<le> tokens_or_0 (rf_input rf)" "0 \<le> tokens_or_0 (rf_output rf)"
      "reserve_policy (su_now su) (reserve_of (su_started su) l rf rid res) j1 = (Inr r, j')" "rr_reason r = []"
      "d = decide_reservation rid res r" "new_id (su_reservation_bytes su) = Inr res"
proof (cases "list_block l rf rid")
  case (Some d')
  with assms have "tbl j' = tbl j" "de_decision d = ''block''"
    by (auto simp: preflight_limits_def run_simps dest: list_block_blocks)
  then show ?thesis by (rule blocked)
next
  case None
  with assms obtain b j1 where b: "daily_block (su_today su) l rf rid j = (Inr b, j1)"
    and k: "(case b of Some d \<Rightarrow> ret d | None \<Rightarrow>
         if tokens_or_0 (rf_input rf) < 0 \<or> tokens_or_0 (rf_output rf) < 0
           then fail (Errorf ''negative token estimate'')
         else bindE (of_res (new_id (su_reservation_bytes su))) (\<lambda>res.
           bindE (reserve_policy (su_now su) (reserve_of (su_started su) l rf rid res)) (\<lambda>r.
           ret (decide_reservation rid res r)))) j1 = (Inr d, j')"
    by (auto simp: preflight_limits_def fail_run bindE_run split: sum.splits)
  have t: "tbl j1 = tbl j" using b by (rule daily_block_tbl)
  show ?thesis
  proof (cases b)
    case (Some d')
    with k b t have "tbl j' = tbl j" "de_decision d = ''block''" by (auto simp: run_simps dest: daily_block_blocks)
    then show ?thesis by (rule blocked)
  next
    case b: None
    with k obtain res r where nn: "\<not> (tokens_or_0 (rf_input rf) < 0 \<or> tokens_or_0 (rf_output rf) < 0)"
      and r: "reserve_policy (su_now su) (reserve_of (su_started su) l rf rid res) j1 = (Inr r, j')"
      and d: "d = decide_reservation rid res r" and i: "new_id (su_reservation_bytes su) = Inr res"
      by (auto simp: run_simps split: if_splits)
    show ?thesis
    proof (cases "rr_reason r = []")
      case True
      with None b nn r d t i \<open>daily_block (su_today su) l rf rid j = (Inr b, j1)\<close> show ?thesis by (auto intro: allowed)
    next
      case False
      with r t have "tbl j' = tbl j" by (auto elim!: reserve_policy_run simp: admitted_def block_result_def)
      moreover from False d have "de_decision d = ''block''" by (simp add: decide_reservation_def block_run_def)
      ultimately show ?thesis by (rule blocked)
    qed
  qed
qed

lemma preflight_limits_error:
  assumes "preflight_limits su l rf rid j = (Inl err, j')"
  shows "tbl j' = tbl j"
proof (cases "list_block l rf rid")
  case (Some d')
  with assms show ?thesis by (simp add: preflight_limits_def)
next
  case None
  show ?thesis
  proof (cases "daily_block (su_today su) l rf rid j")
    case (Pair b j1)
    then have t: "tbl j1 = tbl j" by (rule daily_block_tbl)
    have "tbl j' = tbl j1 \<or> j' = j"
      using assms Pair None
      by (auto simp: preflight_limits_def bindE_def fail_def ret_def of_res_def
          split: sum.splits option.splits if_splits prod.splits dest!: reserve_policy_error)
    with t show ?thesis by auto
  qed
qed

lemma preflight_run:
  assumes "preflight su rf e = (x, e')"
  obtains (stopped) "tbl (en_journal e') = tbl (en_journal e)" "\<forall>d. x = Inr d \<longrightarrow> de_decision d = ''block''"
  | (limits) rid e1 where "resolve_run_id (su_run_bytes su) (rf_run_id rf) = Inr rid"
      "tbl (en_journal (e1 :: engine)) = tbl (en_journal e)"
      "preflight_limits su (en_limits e) rf rid (en_journal e1) = (x, en_journal e')"
proof (cases "resolve_run_id (su_run_bytes su) (rf_run_id rf)")
  case (Inl err)
  with assms show ?thesis by (intro stopped) (auto simp: preflight_def)
next
  case (Inr rid)
  obtain b e1 where b: "repetition_block rid e = (b, e1)" by (cases "repetition_block rid e")
  note f = repetition_block_frame [OF b]
  show ?thesis
  proof (cases b)
    case (Some d)
    with assms Inr b f show ?thesis by (intro stopped) (auto simp: preflight_def)
  next
    case None
    with assms Inr b have "on_journal (preflight_limits su (en_limits e) rf rid) e1 = (x, e')"
      by (simp add: preflight_def)
    from on_journal_frame [OF this] Inr f(1) show ?thesis by (auto intro: limits)
  qed
qed

lemma preflight_frame:
  "preflight su rf e = (x, e') \<Longrightarrow>
     en_limits e' = en_limits e \<and> en_local e' = en_local e \<and> en_remote_version e' = en_remote_version e"
  by (auto simp: preflight_def on_journal_def split: sum.splits prod.splits option.splits
      dest: repetition_block_frame(2-4))

lemma preflight_refused:
  assumes "preflight su rf e = (x, e')" "\<forall>d. x = Inr d \<longrightarrow> de_decision d \<noteq> ''allow''"
  shows "tbl (en_journal e') = tbl (en_journal e)"
  using assms(1)
proof (cases rule: preflight_run)
  case stopped
  then show ?thesis by simp
next
  case (limits rid e1)
  show ?thesis
  proof (cases x)
    case (Inl err)
    with limits show ?thesis by (auto dest: preflight_limits_error)
  next
    case (Inr d)
    from limits(3) [unfolded Inr] limits(2) assms(2) Inr show ?thesis
      by (cases rule: preflight_limits_run) (simp_all add: decide_reservation_def allow_run_def)
  qed
qed

text \<open>Whatever \<open>Preflight\<close> refuses costs nothing: unless it returns an allow decision, no table
  of the journal changes, wherever the driver fails and whichever check refused the call.\<close>

theorem refused_preflight_leaves_no_trace:
  assumes "preflight su rf e = (x, e')" "\<forall>d. x = Inr d \<longrightarrow> de_decision d \<noteq> ''allow''"
  shows "tbl (en_journal e') = tbl (en_journal e)"
  using assms by (rule preflight_refused)

section \<open>What an allowed call satisfies\<close>

text \<open>The call as the limits see it: what it asks for, and the totals of its run with it included.\<close>

definition call_after :: "time \<Rightarrow> string \<Rightarrow> request_facts \<Rightarrow> tables \<Rightarrow> call_view" where
  "call_after now rid rf t = (let vs = of_run rid t in
     \<lparr>cv_provider = rf_provider rf, cv_model = rf_model rf, cv_tools = rf_tools rf, cv_calls = int (length vs),
      cv_input = sum_list (map rv_input vs), cv_output = sum_list (map rv_output vs),
      cv_total = sum_list (map rv_input vs) + sum_list (map rv_output vs),
      cv_tool_calls = sum_list (map rv_tools vs),
      cv_duration = (case select_run rid t of Some row \<Rightarrow> since now (pr_started row) div 1000000000 | None \<Rightarrow> 0),
      cv_cost = sum_list (map (\<lambda>v. cost_val (rv_cost v)) vs)\<rparr>)"

lemma admitted_started:
  assumes "admitted now r est cap t x t'"
  obtains row row' :: policy_run where "select_run (rs_run_id r) t' = Some row'" "pr_started row' = pr_started row"
    "\<not> (rs_max_duration r > 0 \<and> since now (pr_started row) > duration_of_seconds (rs_max_duration r))"
proof -
  let ?t1 = "insert_or_ignore_run (rs_run_id r) (rs_started r) t"
  from assms obtain row cost ni no nt tot nc where row: "select_run (rs_run_id r) ?t1 = Some row"
    and lim: "limit_check now r row ni no nt tot nc cap = None"
    and t': "t_runs t' = t_runs (charge_run r cost ?t1)"
    by (auto simp: admitted_def insert_reservation_def split: if_splits)
  define f where "f = (\<lambda>x :: policy_run. x\<lparr>pr_calls := pr_calls x + 1, pr_input := pr_input x + rs_input r,
            pr_output := pr_output x + rs_output r, pr_tools := pr_tools x + rs_tools r, pr_cost := cost\<rparr>)"
  have "select_run (rs_run_id r) t' = Some (f row)"
    using row select_run_Some [OF row]
    by (simp add: select_run_def t' charge_run_def f_def first_row_update_where)
  moreover have "pr_started (f row) = pr_started row" by (simp add: f_def)
  moreover from lim have "\<not> (rs_max_duration r > 0 \<and> since now (pr_started row) > duration_of_seconds (rs_max_duration r))"
    by (auto simp: limit_check_def)
  ultimately show ?thesis by (rule that)
qed

lemma duration_of_seconds_le: "0 \<le> n \<Longrightarrow> duration_of_seconds n \<le> n * 1000000000"
proof -
  assume "0 \<le> n"
  then have "(n * 1000000000 + 9223372036854775808) mod 18446744073709551616 \<le> n * 1000000000 + 9223372036854775808"
    by (intro zmod_le_nonneg_dividend) simp
  then show ?thesis by (simp add: duration_of_seconds_def wrap64_def)
qed

lemma reserve_of_sel [simp]:
  "rs_run_id (reserve_of st l rf rid res) = rid" "rs_reservation_id (reserve_of st l rf rid res) = res"
  "rs_max_calls (reserve_of st l rf rid res) = lm_max_calls l" "rs_max_input (reserve_of st l rf rid res) = lm_max_input l"
  "rs_max_output (reserve_of st l rf rid res) = lm_max_output l" "rs_max_total (reserve_of st l rf rid res) = lm_max_total l"
  "rs_max_tools (reserve_of st l rf rid res) = lm_max_tools l" "rs_max_duration (reserve_of st l rf rid res) = lm_max_duration l"
  "rs_max_cost (reserve_of st l rf rid res) = lm_max_cost l" "rs_cost (reserve_of st l rf rid res) = rf_cost rf"
  "rs_input (reserve_of st l rf rid res) = tokens_or_0 (rf_input rf)"
  "rs_output (reserve_of st l rf rid res) = tokens_or_0 (rf_output rf)"
  "rs_tools (reserve_of st l rf rid res) = (if rf_tools rf \<noteq> [] then 1 else 0)"
  by (simp_all add: reserve_of_def)

definition facts_int64 :: "request_facts \<Rightarrow> bool" where
  "facts_int64 rf \<longleftrightarrow> is_int64 (tokens_or_0 (rf_input rf)) \<and> is_int64 (tokens_or_0 (rf_output rf))"

lemma facts_reserve_int64: "facts_int64 rf \<Longrightarrow> reserve_int64 (reserve_of st l rf rid res)"
  by (simp add: facts_int64_def reserve_int64_def is_int64_def min_int64_def max_int64_def)

lemma admitted_permits:
  assumes adm: "admitted now r est cap t x t'" and r: "r = reserve_of st l rf rid res"
    and caps: "within_caps r t'" and ok: "limits_ok l" and lists: "list_block l rf rid = None"
  shows "permits l (call_after now rid rf t')"
proof -
  have nn: "0 \<le> lm_max_calls l" "0 \<le> lm_max_input l" "0 \<le> lm_max_output l" "0 \<le> lm_max_total l"
    "0 \<le> lm_max_duration l" "0 \<le> lm_max_tools l"
    using ok by (simp_all add: limits_ok_def)
  obtain row row' :: policy_run where row: "select_run rid t' = Some row'" "pr_started row' = pr_started row"
    "\<not> (lm_max_duration l > 0 \<and> since now (pr_started row) > duration_of_seconds (lm_max_duration l))"
    by (rule admitted_started [OF adm, unfolded r reserve_of_sel])
  have dur: "fits (lm_max_duration l) (since now (pr_started row') div 1000000000)"
  proof (cases "lm_max_duration l = 0")
    case False
    with nn row have "since now (pr_started row') \<le> lm_max_duration l * 1000000000"
      using duration_of_seconds_le [of "lm_max_duration l"] by auto
    then have "since now (pr_started row') div 1000000000 \<le> (lm_max_duration l * 1000000000) div 1000000000"
      by (rule zdiv_mono1) simp
    then show ?thesis by (simp add: fits_def)
  qed (simp add: fits_def)
  have fit: "0 \<le> c \<Longrightarrow> (c > 0 \<longrightarrow> v \<le> c) \<Longrightarrow> fits c v" for c v by (auto simp: fits_def)
  from caps nn have "fits (lm_max_calls l) (cv_calls (call_after now rid rf t'))"
    "fits (lm_max_input l) (cv_input (call_after now rid rf t'))"
    "fits (lm_max_output l) (cv_output (call_after now rid rf t'))"
    "fits (lm_max_total l) (cv_total (call_after now rid rf t'))"
    "fits (lm_max_tools l) (cv_tool_calls (call_after now rid rf t'))"
    "fits_cost (lm_max_cost l) (cv_cost (call_after now rid rf t'))"
    by (auto simp: within_caps_def r Let_def call_after_def fits_cost_def intro!: fit)
  with lists dur row(1) show ?thesis
    by (simp add: permits_def list_block_None call_after_def Let_def)
qed

lemma daily_room:
  assumes "daily_block today l rf rid j = (Inr None, j')"
  shows "lm_max_calls_day l > 0 \<Longrightarrow> fst (daily_total (utc_day today) (tbl j)) < lm_max_calls_day l"
    and "lm_max_cost_day l \<noteq> [] \<Longrightarrow> decimal (lm_max_cost_day l) = Inr cap \<Longrightarrow> cap > 0 \<Longrightarrow> decimal (rf_cost rf) = Inr est \<Longrightarrow>
      snd (daily_total (utc_day today) (tbl j)) + est \<le> cap"
proof -
  have total: "n = fst (daily_total (utc_day today) (tbl j)) \<and> q = snd (daily_total (utc_day today) (tbl j))"
    if "read_daily_counters today j = (Inr (n, q), j1)" for n q j1
    using that by (auto simp: read_daily_counters_def daily_total_def run_simps dest!: query_run
        cost_val_eq split: option.splits)
  show "lm_max_calls_day l > 0 \<Longrightarrow> fst (daily_total (utc_day today) (tbl j)) < lm_max_calls_day l"
    using assms by (auto simp: daily_block_def not_le split: prod.splits sum.splits if_splits dest!: total)
  show "lm_max_cost_day l \<noteq> [] \<Longrightarrow> decimal (lm_max_cost_day l) = Inr cap \<Longrightarrow> cap > 0 \<Longrightarrow> decimal (rf_cost rf) = Inr est \<Longrightarrow>
      snd (daily_total (utc_day today) (tbl j)) + est \<le> cap"
    using assms by (auto simp: daily_block_def not_less split: prod.splits sum.splits if_splits dest!: total)
qed

lemma admitted_one:
  assumes "admitted now r est cap t x t'"
  shows "\<exists>v. t_reservations t' = t_reservations t @ [v] \<and> rv_id v = rs_reservation_id r \<and>
    rv_run_id v = rs_run_id r \<and> \<not> rv_reconciled v"
proof -
  from assms obtain c1 c2 where i: "insert_reservation r c1 (charge_run r c2
      (insert_or_ignore_run (rs_run_id r) (rs_started r) t)) = Inr ((), t')"
    unfolding admitted_def by blast
  have "t_reservations (charge_run r c2 (insert_or_ignore_run (rs_run_id r) (rs_started r) t)) = t_reservations t"
    by (simp add: charge_run_def insert_or_ignore_run_def)
  with i show ?thesis by (auto simp: insert_reservation_def split: if_splits)
qed

text \<open>An allowed call, taken apart.\<close>

lemma preflight_allowed:
  assumes "preflight su rf e = (Inr d, e')" "de_decision d = ''allow''"
    "ledger_ok (tbl (en_journal e))" "limits_ok (en_limits e)" "facts_int64 rf"
  obtains res est cap r and j1 j2 :: journal where
    "list_block (en_limits e) rf (de_run_id d) = None" "tbl j1 = tbl (en_journal e)"
    "tbl j2 = tbl j1" "daily_block (su_today su) (en_limits e) rf (de_run_id d) j1 = (Inr None, j2)"
    "de_reservation_id d = res"
    "admitted (su_now su) (reserve_of (su_started su) (en_limits e) rf (de_run_id d) res) est cap
       (tbl (en_journal e)) r (tbl (en_journal e'))"
    "permits (en_limits e) (call_after (su_now su) (de_run_id d) rf (tbl (en_journal e')))"
    "new_id (su_reservation_bytes su) = Inr res" "resolve_run_id (su_run_bytes su) (rf_run_id rf) = Inr (de_run_id d)"
  using assms(1)
proof (cases rule: preflight_run)
  case stopped
  with assms(2) show ?thesis by simp
next
  case (limits rid e1)
  from limits(3) show ?thesis
  proof (cases rule: preflight_limits_run)
    case blocked
    with assms(2) show ?thesis by simp
  next
    case (allowed res r j1)
    then have d: "de_run_id d = rid" "de_reservation_id d = res"
      by (simp_all add: decide_reservation_def allow_run_def)
    let ?r = "reserve_of (su_started su) (en_limits e) rf rid res"
    have i64: "reserve_int64 ?r" using assms(5) by (rule facts_reserve_int64)
    from allowed(6) show ?thesis
    proof (cases rule: reserve_policy_run)
      case blocked
      with allowed(7) show ?thesis by simp
    next
      case (admitted est cap)
      have t: "tbl j1 = tbl (en_journal e)" using allowed(3) limits(2) by simp
      have "0 \<le> est" using admitted(1) by (rule policy_decimal_nonneg)
      have ok: "ledger_ok (tbl j1)" using assms(3) t by simp
      have "within_caps ?r (tbl (en_journal e'))"
        by (rule admitted_within_caps [OF ok i64 \<open>0 \<le> est\<close> admitted(2,3)])
      from admitted_permits [OF admitted(3) refl this assms(4) allowed(1)] allowed(1,2,3,9) limits(1,2) d admitted(3) t
      show ?thesis by (simp add: that [of "en_journal e1" j1 res est cap r])
    qed
  qed
qed


text \<open>An allowed call is inside the limits in force. When \<open>Preflight\<close> allows a call, the effective
  limits permit it with everything its run has reserved so far, the call included, today's calls and
  cost leave room for it, and exactly one reservation was added, under the identifier and for the
  run that the decision names.\<close>

theorem allowed_call_within_limits:
  assumes "preflight su rf e = (Inr d, e')" "de_decision d = ''allow''"
    "ledger_ok (tbl (en_journal e))" "limits_ok (en_limits e)" "facts_int64 rf"
  shows "permits (en_limits e) (call_after (su_now su) (de_run_id d) rf (tbl (en_journal e'))) \<and>
    (lm_max_calls_day (en_limits e) > 0 \<longrightarrow>
       fst (daily_total (utc_day (su_today su)) (tbl (en_journal e))) < lm_max_calls_day (en_limits e)) \<and>
    (\<forall>cap est. lm_max_cost_day (en_limits e) \<noteq> [] \<and> decimal (lm_max_cost_day (en_limits e)) = Inr cap \<and> cap > 0 \<and>
       decimal (rf_cost rf) = Inr est \<longrightarrow>
       snd (daily_total (utc_day (su_today su)) (tbl (en_journal e))) + est \<le> cap) \<and>
    (\<exists>v. t_reservations (tbl (en_journal e')) = t_reservations (tbl (en_journal e)) @ [v] \<and>
       rv_id v = de_reservation_id d \<and> rv_run_id v = de_run_id d \<and> \<not> rv_reconciled v)"
proof (rule preflight_allowed [OF assms], goal_cases)
  case (1 res est cap r j1 j2)
  have "\<exists>v. t_reservations (tbl (en_journal e')) = t_reservations (tbl (en_journal e)) @ [v] \<and>
       rv_id v = de_reservation_id d \<and> rv_run_id v = de_run_id d \<and> \<not> rv_reconciled v"
    using admitted_one [OF 1(6)] 1(5) by simp
  moreover have "lm_max_calls_day (en_limits e) > 0 \<Longrightarrow>
       fst (daily_total (utc_day (su_today su)) (tbl (en_journal e))) < lm_max_calls_day (en_limits e)"
    using daily_room(1) [OF 1(4)] 1(2) by simp
  moreover have "lm_max_cost_day (en_limits e) \<noteq> [] \<Longrightarrow> decimal (lm_max_cost_day (en_limits e)) = Inr c \<Longrightarrow> c > 0 \<Longrightarrow>
       decimal (rf_cost rf) = Inr q \<Longrightarrow> snd (daily_total (utc_day (su_today su)) (tbl (en_journal e))) + q \<le> c" for c q
    using daily_room(2) [OF 1(4)] 1(2) by simp
  ultimately show ?case using 1(7) by blast
qed

definition sample_facts :: request_facts where
  "sample_facts = \<lparr>rf_run_id = ''run-1'', rf_provider = ''openai'', rf_model = ''gpt-4o'', rf_tools = [],
     rf_started = 1, rf_cost = ''0.25'', rf_input = Some 10, rf_output = Some 20\<rparr>"

definition sample_surroundings :: surroundings where
  "sample_surroundings = \<lparr>su_run_bytes = None, su_reservation_bytes = Some ''0123456789abcdef'', su_started = 1,
     su_today = 1, su_now = 2\<rparr>"

definition engine_of :: "bool list \<Rightarrow> engine" where
  "engine_of fs = projr (new_engine ((new_journal ''i'')\<lparr>faults := fs\<rparr>) (sample_limits\<lparr>lm_max_calls_day := 4\<rparr>))"

lemma engine_of_sel: "en_journal (engine_of fs) = (new_journal ''i'')\<lparr>faults := fs\<rparr>"
  "en_limits (engine_of fs) = sample_limits\<lparr>lm_max_calls_day := 4\<rparr>"
proof -
  have "is_ok (decimal (lm_max_cost sample_limits))" by code_simp
  moreover have "decimal [] = Inr 0" by (simp add: decimal_def)
  ultimately show "en_journal (engine_of fs) = (new_journal ''i'')\<lparr>faults := fs\<rparr>"
    "en_limits (engine_of fs) = sample_limits\<lparr>lm_max_calls_day := 4\<rparr>"
    by (auto simp: engine_of_def new_engine_def is_ok_iff sample_limits_def)
qed

lemma sample_allowed:
  "map_option de_decision (case fst (preflight sample_surroundings sample_facts (engine_of [])) of Inl _ \<Rightarrow> None | Inr d \<Rightarrow> Some d)
     = Some ''allow''"
  by code_simp

lemma sample_refused:
  "is_ok (fst (preflight sample_surroundings sample_facts (engine_of [False, False, False, False, False, False, True]))) = False"
  by code_simp

lemma refused_preflight_leaves_no_trace_witness:
  "tbl (en_journal (snd (preflight sample_surroundings sample_facts
     (engine_of [False, False, False, False, False, False, True])))) = empty_tables"
  using refused_preflight_leaves_no_trace [OF surjective_pairing, of sample_surroundings sample_facts
      "engine_of [False, False, False, False, False, False, True]"] sample_refused
  by (auto simp: engine_of_sel new_journal_def is_ok_iff)

lemma sample_limits_ok: "limits_ok (sample_limits\<lparr>lm_max_calls_day := 4\<rparr>)"
  by code_simp

lemma allowed_call_within_limits_witness:
  "\<exists>d. fst (preflight sample_surroundings sample_facts (engine_of [])) = Inr d \<and>
    permits (sample_limits\<lparr>lm_max_calls_day := 4\<rparr>) (call_after 2 (de_run_id d) sample_facts
      (tbl (en_journal (snd (preflight sample_surroundings sample_facts (engine_of []))))))"
proof -
  obtain d where d: "preflight sample_surroundings sample_facts (engine_of []) =
      (Inr d, snd (preflight sample_surroundings sample_facts (engine_of [])))" "de_decision d = ''allow''"
    using sample_allowed by (cases "preflight sample_surroundings sample_facts (engine_of [])") (auto split: sum.splits)
  have "ledger_ok (tbl (en_journal (engine_of [])))" "limits_ok (en_limits (engine_of []))" "facts_int64 sample_facts"
    by (simp_all add: engine_of_sel new_journal_def ledger_ok_empty sample_limits_ok facts_int64_def sample_facts_def
        tokens_or_0_def is_int64_def min_int64_def max_int64_def)
  from allowed_call_within_limits [OF d this]
  have "permits (en_limits (engine_of [])) (call_after (su_now sample_surroundings) (de_run_id d) sample_facts
      (tbl (en_journal (snd (preflight sample_surroundings sample_facts (engine_of []))))))" by blast
  moreover have "fst (preflight sample_surroundings sample_facts (engine_of [])) = Inr d"
    using d(1) by (metis fst_conv)
  moreover have "su_now sample_surroundings = 2" by (simp add: sample_surroundings_def)
  ultimately show ?thesis by (auto simp: engine_of_sel)
qed

section \<open>Sequences of engine operations\<close>

datatype engine_op =
    Preflight surroundings request_facts
  | Postflight time outcome_facts
  | ApplyRemote policy_envelope
  | CacheRemote policy_envelope
  | Repetition repetition_op

fun run_engine :: "(string \<Rightarrow> string) \<Rightarrow> engine_op \<Rightarrow> engine \<Rightarrow> engine" where
  "run_engine sha (Preflight su rf) e = snd (preflight su rf e)"
| "run_engine sha (Postflight now f) e = snd (postflight now f e)"
| "run_engine sha (ApplyRemote env) e = snd (apply_remote_policy env e)"
| "run_engine sha (CacheRemote env) e = snd (cache_and_apply_remote_policy env e)"
| "run_engine sha (Repetition r) e = run_repetition sha r e"

fun engine_op_int64 :: "engine_op \<Rightarrow> bool" where
  "engine_op_int64 (Preflight su rf) = facts_int64 rf"
| "engine_op_int64 (Postflight now f) = outcome_int64 (outcome_of f)"
| "engine_op_int64 _ = True"

text \<open>The remote envelope an operation put in force, if it did.\<close>

fun put_in_force :: "engine_op \<Rightarrow> engine \<Rightarrow> policy_envelope option" where
  "put_in_force (ApplyRemote env) e = (if is_ok (fst (apply_remote_policy env e)) then Some env else None)"
| "put_in_force (CacheRemote env) e = (if is_ok (fst (cache_and_apply_remote_policy env e)) then Some env else None)"
| "put_in_force _ e = None"

fun in_force :: "(string \<Rightarrow> string) \<Rightarrow> engine_op list \<Rightarrow> engine \<Rightarrow> policy_envelope option \<Rightarrow> policy_envelope option" where
  "in_force sha [] e r = r"
| "in_force sha (a # ops) e r = in_force sha ops (run_engine sha a e) (case put_in_force a e of None \<Rightarrow> r | Some env \<Rightarrow> Some env)"

definition engine_ok :: "limits \<Rightarrow> policy_envelope option \<Rightarrow> engine \<Rightarrow> bool" where
  "engine_ok l remote e \<longleftrightarrow> limits_ok l \<and> en_local e = l \<and> ledger_ok (tbl (en_journal e)) \<and>
     (case remote of None \<Rightarrow> en_limits e = l
      | Some env \<Rightarrow> (\<exists>seen. merge_limits l env seen = Inr (en_limits e)))"

lemma ledger_cong:
  "t_runs t' = t_runs t \<Longrightarrow> t_reservations t' = t_reservations t \<Longrightarrow> ledger_ok t' = ledger_ok t"
  by (simp add: ledger_ok_def run_balanced_def of_run_def reservation_ok_def)

lemma keeps_tx_body: "keeps P body \<Longrightarrow> keeps P (tx body)"
  by (rule keeps_tx) (blast dest: keepsD)

lemma increment_daily_ledger: "keeps ledger_ok (increment_daily_counters now c)"
  unfolding increment_daily_counters_def increment_daily_counters_tx_def
  by (rule keeps_tx_body) (auto intro!: keeps_intros split: option.split
      simp: insert_daily_def update_daily_def elim!: ledger_cong [THEN iffD2, rotated -1])

lemma save_repetition_ledger: "keeps ledger_ok (save_repetition_state now rid kind n vs)"
  unfolding save_repetition_state_def
  by (rule keeps_exec) (auto split: if_splits elim!: ledger_cong [THEN iffD2, rotated -1])

lemma save_remote_ledger: "keeps ledger_ok (save_remote_policy v p)"
  unfolding save_remote_policy_def
  by (auto intro!: keeps_intros split: option.splits if_splits elim!: ledger_cong [THEN iffD2, rotated -1])

lemma keeps_snd: "keeps P m \<Longrightarrow> P (tbl j) \<Longrightarrow> P (tbl (snd (m j)))"
  by (metis keepsD prod.collapse)

lemma engine_ok_frame:
  assumes "engine_ok l r e" "en_limits e' = en_limits e" "en_local e' = en_local e" "ledger_ok (tbl (en_journal e'))"
  shows "engine_ok l r e'"
  using assms by (cases r) (simp_all add: engine_ok_def)

lemma repetition_checks_snd:
  "tbl (en_journal (snd (repeated_tool_error rid e))) = tbl (en_journal e)"
  "en_limits (snd (repeated_tool_error rid e)) = en_limits e" "en_local (snd (repeated_tool_error rid e)) = en_local e"
  "tbl (en_journal (snd (repeated_provider_error rid e))) = tbl (en_journal e)"
  "en_limits (snd (repeated_provider_error rid e)) = en_limits e"
  "en_local (snd (repeated_provider_error rid e)) = en_local e"
  "tbl (en_journal (snd (repeated_tool_call rid e))) = tbl (en_journal e)"
  "en_limits (snd (repeated_tool_call rid e)) = en_limits e" "en_local (snd (repeated_tool_call rid e)) = en_local e"
  using repetition_checks_frame [OF surjective_pairing] by blast+

lemma run_repetition_frame:
  assumes "ledger_ok (tbl (en_journal e))"
  shows "en_limits (run_repetition sha r e) = en_limits e" "en_local (run_repetition sha r e) = en_local e"
    "ledger_ok (tbl (en_journal (run_repetition sha r e)))"
proof -
  have "en_limits (run_repetition sha r e) = en_limits e \<and> en_local (run_repetition sha r e) = en_local e \<and>
    ledger_ok (tbl (en_journal (run_repetition sha r e)))"
  proof (cases r)
    case (CheckRun rid)
    then show ?thesis
      using assms by (simp add: repeated_error_def Let_def case_prod_beta repetition_checks_snd)
  qed (use assms in \<open>auto simp: record_tool_calls_def record_tool_result_def record_provider_outcome_def Let_def
      intro!: keeps_snd [OF save_repetition_ledger] split: option.split\<close>)
  then show "en_limits (run_repetition sha r e) = en_limits e" "en_local (run_repetition sha r e) = en_local e"
    "ledger_ok (tbl (en_journal (run_repetition sha r e)))" by blast+
qed

lemma run_engine_ok:
  assumes ok: "engine_ok l r e" and i: "engine_op_int64 a"
  shows "engine_ok l (case put_in_force a e of None \<Rightarrow> r | Some env \<Rightarrow> Some env) (run_engine sha a e)"
proof -
  have led: "ledger_ok (tbl (en_journal e))" using ok by (simp add: engine_ok_def)
  show ?thesis
  proof (cases a)
    case (Preflight su rf)
    obtain x e' where p: "preflight su rf e = (x, e')" by (cases "preflight su rf e")
    from p have "ledger_ok (tbl (en_journal e'))"
    proof (cases rule: preflight_run)
      case stopped
      with led show ?thesis by simp
    next
      case (limits rid e1)
      show ?thesis
      proof (cases x)
        case (Inl err)
        with limits led show ?thesis by (auto dest: preflight_limits_error)
      next
        case (Inr d)
        from limits(3) [unfolded Inr] show ?thesis
        proof (cases rule: preflight_limits_run)
          case blocked
          with limits(2) led show ?thesis by simp
        next
          case (allowed res r' j1)
          from i Preflight have "reserve_int64 (reserve_of (su_started su) (en_limits e) rf rid res)"
            by (simp add: facts_reserve_int64)
          from keepsD [OF reserve_policy_ledger [OF this] allowed(6)] allowed(3) limits(2) led show ?thesis by simp
        qed
      qed
    qed
    with engine_ok_frame [OF ok, of e'] preflight_frame [OF p] p Preflight show ?thesis by simp
  next
    case (Postflight now f)
    have "keeps ledger_ok (bindE (reconcile_policy (outcome_of f)) (\<lambda>_. increment_daily_counters now (of_cost f)))"
      using i Postflight by (auto intro!: keeps_intros reconcile_policy_ledger increment_daily_ledger)
    from keeps_snd [OF this led] have "ledger_ok (tbl (en_journal (snd (postflight now f e))))"
      using led by (auto simp: postflight_def on_journal_def split: sum.split prod.split)
    with engine_ok_frame [OF ok, of "snd (postflight now f e)"] Postflight show ?thesis
      by (auto simp: postflight_def on_journal_def split: sum.split prod.split)
  next
    case (ApplyRemote env)
    with ok show ?thesis
      by (cases r) (auto simp: engine_ok_def apply_remote_policy_def split: sum.split)
  next
    case (CacheRemote env)
    obtain x j' where s: "save_remote_policy (pe_version env) env (en_journal e) = (x, j')"
      by (cases "save_remote_policy (pe_version env) env (en_journal e)")
    from keepsD [OF save_remote_ledger this led] have "ledger_ok (tbl j')" .
    with ok s CacheRemote show ?thesis
      by (cases x; cases r) (auto simp: engine_ok_def cache_and_apply_remote_policy_def on_journal_def split: sum.split)
  next
    case (Repetition r')
    with engine_ok_frame [OF ok run_repetition_frame(1,2,3) [OF led]] show ?thesis by simp
  qed
qed

lemma engine_ok_fold:
  assumes "engine_ok l r e" "\<forall>a \<in> set ops. engine_op_int64 a"
  shows "engine_ok l (in_force sha ops e r) (fold (run_engine sha) ops e)"
  using assms
proof (induction ops arbitrary: e r)
  case Nil
  then show ?case by simp
next
  case (Cons a ops)
  from Cons.IH [OF run_engine_ok [OF Cons.prems(1), of a sha]] Cons.prems(2) show ?case by simp
qed

lemma new_engine_ok:
  assumes "new_engine j l = Inr e" "ledger_ok (tbl j)"
  shows "engine_ok l None e"
  using assms by (auto simp: new_engine_def engine_ok_def limits_ok_def not_less is_ok_def split: if_splits sum.splits)

text \<open>C3: A remote policy can only tighten. Whatever sequence of calls, outcomes, repetitions and
  remote policies an engine has seen, with driver failures anywhere, each call that \<open>Preflight\<close>
  then allows is permitted by the local limits the engine was built with, and by the limits of the
  remote policy that was last put in force.\<close>

theorem allowed_calls_obey_both_policies:
  assumes "new_engine j l = Inr e0" "ledger_ok (tbl j)" "\<forall>a \<in> set ops. engine_op_int64 a" "facts_int64 rf"
    and "preflight su rf (fold (run_engine sha) ops e0) = (Inr d, e')" "de_decision d = ''allow''"
  shows "permits l (call_after (su_now su) (de_run_id d) rf (tbl (en_journal e'))) \<and>
    (case in_force sha ops e0 None of None \<Rightarrow> True
     | Some env \<Rightarrow> remote_permits (pe_limits env) (call_after (su_now su) (de_run_id d) rf (tbl (en_journal e'))))"
proof -
  let ?e = "fold (run_engine sha) ops e0"
  have ok: "engine_ok l (in_force sha ops e0 None) ?e"
    using engine_ok_fold [OF new_engine_ok [OF assms(1,2)] assms(3)] .
  have lim: "limits_ok (en_limits ?e)" "ledger_ok (tbl (en_journal ?e))"
    using ok by (auto simp: engine_ok_def split: option.splits intro: merge_keeps_ok(1))
  have p: "permits (en_limits ?e) (call_after (su_now su) (de_run_id d) rf (tbl (en_journal e')))"
    by (rule preflight_allowed [OF assms(5,6) lim(2,1) assms(4)])
  show ?thesis
  proof (cases "in_force sha ops e0 None")
    case None
    with ok p show ?thesis by (simp add: engine_ok_def)
  next
    case (Some env)
    with ok obtain seen where "merge_limits l env seen = Inr (en_limits ?e)" "limits_ok l"
      by (auto simp: engine_ok_def)
    note m = merge_permits [OF this]
    from p Some show ?thesis unfolding m by simp
  qed
qed


definition policy_ops :: "engine_op list" where
  "policy_ops = [Preflight sample_surroundings sample_facts, ApplyRemote sample_envelope]"

definition next_surroundings :: surroundings where
  "next_surroundings = sample_surroundings\<lparr>su_reservation_bytes := Some ''fedcba9876543210''\<rparr>"

lemma policy_ops_run:
  "is_ok (fst (apply_remote_policy sample_envelope (run_engine (\<lambda>s. s) (Preflight sample_surroundings sample_facts) (engine_of []))))"
  "map_option de_decision (case fst (preflight next_surroundings sample_facts
     (fold (run_engine (\<lambda>s. s)) policy_ops (engine_of []))) of Inl _ \<Rightarrow> None | Inr d \<Rightarrow> Some d) = Some ''allow''"
  by code_simp+

lemma engine_of_new: "new_engine ((new_journal ''i'')\<lparr>faults := fs\<rparr>) (sample_limits\<lparr>lm_max_calls_day := 4\<rparr>) = Inr (engine_of fs)"
proof -
  have "is_ok (decimal (lm_max_cost sample_limits))" by code_simp
  moreover have "decimal [] = Inr 0" by (simp add: decimal_def)
  ultimately show ?thesis by (auto simp: engine_of_def new_engine_def is_ok_iff sample_limits_def)
qed

lemma allowed_calls_obey_both_policies_witness:
  "\<exists>d e'. preflight next_surroundings sample_facts (fold (run_engine (\<lambda>s. s)) policy_ops (engine_of [])) = (Inr d, e') \<and>
    permits (sample_limits\<lparr>lm_max_calls_day := 4\<rparr>) (call_after 2 (de_run_id d) sample_facts (tbl (en_journal e'))) \<and>
    remote_permits (pe_limits sample_envelope) (call_after 2 (de_run_id d) sample_facts (tbl (en_journal e')))"
proof -
  obtain d e' where d: "preflight next_surroundings sample_facts (fold (run_engine (\<lambda>s. s)) policy_ops (engine_of [])) = (Inr d, e')"
      "de_decision d = ''allow''"
    using policy_ops_run(2)
    by (cases "preflight next_surroundings sample_facts (fold (run_engine (\<lambda>s. s)) policy_ops (engine_of []))")
      (auto split: sum.splits)
  have "\<forall>a \<in> set policy_ops. engine_op_int64 a" "facts_int64 sample_facts"
      "ledger_ok (tbl ((new_journal ''i'')\<lparr>faults := []\<rparr>))"
    by (simp_all add: policy_ops_def new_journal_def ledger_ok_empty facts_int64_def sample_facts_def
        tokens_or_0_def is_int64_def min_int64_def max_int64_def)
  note a = allowed_calls_obey_both_policies [OF engine_of_new this(3,1,2) d]
  have "in_force (\<lambda>s. s) policy_ops (engine_of []) None = Some sample_envelope"
    using policy_ops_run(1) by (simp add: policy_ops_def)
  moreover have "su_now next_surroundings = 2" by (simp add: next_surroundings_def sample_surroundings_def)
  ultimately show ?thesis using a d(1) by simp
qed

end
