(* ===== verification/Exec_Registry.thy ===== *)
theory Exec_Registry
  imports Event_Journal
begin

text \<open>
  The registry of active runs (\<open>internal/executions/registry.go\<close>): hashed run and signal tokens,
  the one-shot signal channel of each run, and the operations on them. \<open>Register\<close> and \<open>Finish\<close>
  call the store between two critical sections, so the registry is also given as a step relation
  whose steps are the critical sections and the store calls of operations in flight, in any
  interleaving. The store is the interface \<open>executions.Store\<close>: a locale with the laws the registry
  relies on, interpreted on the journal.
\<close>

section \<open>State\<close>

text \<open>
  \<open>activeRun\<close>. Its channel has capacity one and carries one kind of signal, so it is the list of
  the notices in it and whether it was closed. Records live behind pointers: the registry keeps
  them in a heap, since a record that was removed from the map is still reached by the release
  function of its subscriber. A send on a closed channel and a second close are run-time panics,
  kept as a flag.
\<close>

record active_run =
  ar_run_hash :: string
  ar_signal_hash :: string
  ar_buffer :: "policy_block_notice list"
  ar_chan_closed :: bool
  ar_notified :: bool
  ar_ready :: bool
  ar_claimed :: bool
  ar_closed :: bool
  ar_finishing :: bool

record registry =
  rg_runs :: "(string \<times> nat) list"
  rg_heap :: "active_run list"
  rg_panicked :: bool

definition new_registry :: registry where
  "new_registry = \<lparr>rg_runs = [], rg_heap = [], rg_panicked = False\<rparr>"

definition change_run :: "nat \<Rightarrow> (active_run \<Rightarrow> active_run) \<Rightarrow> registry \<Rightarrow> registry" where
  "change_run i f rg = rg\<lparr>rg_heap := (rg_heap rg)[i := f (rg_heap rg ! i)]\<rparr>"

definition delete_run :: "string \<Rightarrow> registry \<Rightarrow> registry" where
  "delete_run rid rg = rg\<lparr>rg_runs := filter (\<lambda>r. fst r \<noteq> rid) (rg_runs rg)\<rparr>"

definition valid_run_id :: "string \<Rightarrow> bool" where
  "valid_run_id rid \<longleftrightarrow> \<not> (length rid = 0 \<or> length rid > 64) \<and>
     list_all (\<lambda>c. (CHR ''A'' \<le> c \<and> c \<le> CHR ''Z'') \<or> (CHR ''a'' \<le> c \<and> c \<le> CHR ''z'') \<or>
       (CHR ''0'' \<le> c \<and> c \<le> CHR ''9'') \<or> c = CHR ''_'' \<or> c = CHR ''.'' \<or> c = CHR ''-'') rid"

text \<open>\<open>base64.RawURLEncoding\<close>: six bits a character, no padding.\<close>

definition base64_digit :: "nat \<Rightarrow> char" where
  "base64_digit n = (if n < 26 then char_of (65 + n) else if n < 52 then char_of (71 + n)
     else if n < 62 then char_of (n - 4) else if n = 62 then CHR ''-'' else CHR ''_'')"

fun base64_url :: "string \<Rightarrow> string" where
  "base64_url [] = []"
| "base64_url [a] = (let n = of_char a * 16 in [base64_digit (n div 64), base64_digit (n mod 64)])"
| "base64_url [a, b] = (let n = (of_char a * 256 + of_char b) * 4 in
     [base64_digit (n div 4096), base64_digit (n div 64 mod 64), base64_digit (n mod 64)])"
| "base64_url (a # b # c # r) = (let n = (of_char a * 256 + of_char b) * 256 + of_char c in
     [base64_digit (n div 262144), base64_digit (n div 4096 mod 64), base64_digit (n div 64 mod 64),
      base64_digit (n mod 64)] @ base64_url r)"

definition random_token :: "string option \<Rightarrow> string res" where
  "random_token raw = (case raw of None \<Rightarrow> Inl (Errorf ''rand'') | Some bs \<Rightarrow> Inr (base64_url bs))"

section \<open>The critical sections\<close>

definition claim_run :: "string \<Rightarrow> string \<Rightarrow> string \<Rightarrow> registry \<Rightarrow> nat res \<times> registry" where
  "claim_run rid run_hash signal_hash rg =
     (if map_of (rg_runs rg) rid \<noteq> None then (Inl ErrRunActive, rg)
      else (Inr (length (rg_heap rg)),
        rg\<lparr>rg_heap := rg_heap rg @ [\<lparr>ar_run_hash = run_hash, ar_signal_hash = signal_hash, ar_buffer = [],
             ar_chan_closed = False, ar_notified = False, ar_ready = False, ar_claimed = False, ar_closed = False,
             ar_finishing = False\<rparr>],
           rg_runs := rg_runs rg @ [(rid, length (rg_heap rg))]\<rparr>))"

definition set_ready :: "nat \<Rightarrow> registry \<Rightarrow> registry" where
  "set_ready i = change_run i (\<lambda>a. a\<lparr>ar_ready := True\<rparr>)"

definition close_signals :: "nat \<Rightarrow> registry \<Rightarrow> registry" where
  "close_signals i rg = (let a = rg_heap rg ! i in
     if ar_closed a then rg
     else if ar_chan_closed a then rg\<lparr>rg_panicked := True\<rparr>
     else change_run i (\<lambda>a. a\<lparr>ar_chan_closed := True, ar_closed := True\<rparr>) rg)"

definition begin_finish :: "string \<Rightarrow> registry \<Rightarrow> nat res \<times> registry" where
  "begin_finish rid rg = (case map_of (rg_runs rg) rid of
     None \<Rightarrow> (Inl ErrRunNotFound, rg)
   | Some i \<Rightarrow> (let a = rg_heap rg ! i in
       if \<not> ar_ready a then (Inl ErrRunNotFound, rg)
       else if ar_finishing a then (Inl ErrInvalidTransition, rg)
       else (Inr i, change_run i (\<lambda>a. a\<lparr>ar_finishing := True\<rparr>) rg)))"

definition undo_finish :: "nat \<Rightarrow> registry \<Rightarrow> registry" where
  "undo_finish i = change_run i (\<lambda>a. a\<lparr>ar_finishing := False\<rparr>)"

definition end_finish :: "string \<Rightarrow> nat \<Rightarrow> registry \<Rightarrow> registry" where
  "end_finish rid i rg = delete_run rid (close_signals i rg)"

section \<open>The operations\<close>

record registration =
  rn_run_id :: string
  rn_run_token :: string
  rn_signal_token :: string

text \<open>\<open>sha\<close> stands for \<open>sha256.Sum256\<close>, \<open>start\<close> and \<open>finish\<close> for the methods of the store; a result
  pairs with the registry and the store.\<close>

definition register ::
  "(string \<Rightarrow> string) \<Rightarrow> (string \<Rightarrow> time \<Rightarrow> 's \<Rightarrow> unit res \<times> 's) \<Rightarrow> time \<Rightarrow> string option \<Rightarrow> string option \<Rightarrow>
   string option \<Rightarrow> string \<Rightarrow> registry \<Rightarrow> 's \<Rightarrow> registration res \<times> registry \<times> 's" where
  "register sha start now raw_id raw_run raw_signal requested rg s =
     (case (if requested = [] then (case raw_id of None \<Rightarrow> Inl (Wrapf ''generate run id'' (Errorf ''rand''))
                                     | Some bs \<Rightarrow> Inr (''run_'' @ hex_encode bs))
            else if \<not> valid_run_id requested then Inl ErrInvalidRunID else Inr requested) of
        Inl e \<Rightarrow> (Inl e, rg, s)
      | Inr rid \<Rightarrow> (case random_token raw_run of
          Inl e \<Rightarrow> (Inl (Wrapf ''generate run token'' e), rg, s)
        | Inr run_token \<Rightarrow> (case random_token raw_signal of
            Inl e \<Rightarrow> (Inl (Wrapf ''generate signal token'' e), rg, s)
          | Inr signal_token \<Rightarrow> (case claim_run rid (sha run_token) (sha signal_token) rg of
              (Inl e, rg1) \<Rightarrow> (Inl e, rg1, s)
            | (Inr i, rg1) \<Rightarrow> (case start rid now s of
                (Inl e, s1) \<Rightarrow> (Inl (Wrapf ''start execution'' e), delete_run rid rg1, s1)
              | (Inr _, s1) \<Rightarrow> (Inr \<lparr>rn_run_id = rid, rn_run_token = run_token, rn_signal_token = signal_token\<rparr>,
                  set_ready i rg1, s1))))))"

text \<open>The map is searched in an order Go does not fix; at most one entry matches when the hashes of
  the active runs differ (\<open>resolve_unique\<close>).\<close>

definition resolve_run_token :: "(string \<Rightarrow> string) \<Rightarrow> string \<Rightarrow> registry \<Rightarrow> string option" where
  "resolve_run_token sha token rg =
     (if token = [] then None
      else map_option fst (first_row (\<lambda>r. let a = rg_heap rg ! snd r in
        ar_ready a \<and> \<not> ar_finishing a \<and> ar_run_hash a = sha token) (rg_runs rg)))"

definition subscribe :: "(string \<Rightarrow> string) \<Rightarrow> string \<Rightarrow> string \<Rightarrow> registry \<Rightarrow> nat res \<times> registry" where
  "subscribe sha rid signal_token rg = (case map_of (rg_runs rg) rid of
     None \<Rightarrow> (Inl ErrRunNotFound, rg)
   | Some i \<Rightarrow> (let a = rg_heap rg ! i in
       if \<not> ar_ready a \<or> ar_finishing a then (Inl ErrRunNotFound, rg)
       else if signal_token = [] \<or> sha signal_token \<noteq> ar_signal_hash a then (Inl ErrSignalTokenInvalid, rg)
       else if ar_claimed a then (Inl ErrSignalAlreadyClaimed, rg)
       else (Inr i, change_run i (\<lambda>a. a\<lparr>ar_claimed := True\<rparr>) rg)))"

text \<open>The function that \<open>Subscribe\<close> returns.\<close>

definition release :: "nat \<Rightarrow> registry \<Rightarrow> registry" where
  "release i = close_signals i"

definition notify_policy_block :: "policy_block_notice \<Rightarrow> registry \<Rightarrow> registry" where
  "notify_policy_block n rg = (case map_of (rg_runs rg) (pb_run_id n) of
     None \<Rightarrow> rg
   | Some i \<Rightarrow> (let a = rg_heap rg ! i in
       if \<not> ar_ready a \<or> ar_closed a \<or> ar_finishing a \<or> ar_notified a then rg
       else if ar_chan_closed a then rg\<lparr>rg_panicked := True\<rparr>
       else change_run i (\<lambda>a. a\<lparr>ar_notified := True,
              ar_buffer := (if length (ar_buffer a) < 1 then ar_buffer a @ [n] else ar_buffer a)\<rparr>) rg))"

text \<open>A receive by the subscriber.\<close>

definition receive :: "nat \<Rightarrow> registry \<Rightarrow> policy_block_notice option \<times> registry" where
  "receive i rg = (case ar_buffer (rg_heap rg ! i) of [] \<Rightarrow> (None, rg)
     | n # ns \<Rightarrow> (Some n, change_run i (\<lambda>a. a\<lparr>ar_buffer := ns\<rparr>) rg))"

definition finish ::
  "(execution_result \<Rightarrow> 's \<Rightarrow> unit res \<times> 's) \<Rightarrow> execution_result \<Rightarrow> registry \<Rightarrow> 's \<Rightarrow> unit res \<times> registry \<times> 's" where
  "finish store_finish r rg s = (case begin_finish (fr_run_id r) rg of
     (Inl e, rg1) \<Rightarrow> (Inl e, rg1, s)
   | (Inr i, rg1) \<Rightarrow> (case store_finish r s of
       (Inl e, s1) \<Rightarrow> (Inl (Wrapf ''finish execution'' e), undo_finish i rg1, s1)
     | (Inr _, s1) \<Rightarrow> (Inr (), end_finish (fr_run_id r) i rg1, s1)))"

section \<open>Interleavings\<close>

text \<open>An operation between two of its critical sections.\<close>

datatype flight =
    Registering string nat
  | Registered string nat
  | NotRegistered string nat
  | Finishing execution_result nat
  | Finished execution_result nat
  | NotFinished execution_result nat

fun flight_run :: "flight \<Rightarrow> nat" where
  "flight_run (Registering rid i) = i"
| "flight_run (Registered rid i) = i"
| "flight_run (NotRegistered rid i) = i"
| "flight_run (Finishing r i) = i"
| "flight_run (Finished r i) = i"
| "flight_run (NotFinished r i) = i"

record 's world =
  wd_registry :: registry
  wd_store :: 's
  wd_flights :: "flight list"
  wd_handles :: "nat list"

inductive registry_step ::
  "(string \<Rightarrow> string) \<Rightarrow> (string \<Rightarrow> time \<Rightarrow> 's \<Rightarrow> unit res \<times> 's) \<Rightarrow> (execution_result \<Rightarrow> 's \<Rightarrow> unit res \<times> 's) \<Rightarrow>
   ('s \<Rightarrow> 's \<Rightarrow> bool) \<Rightarrow> 's world \<Rightarrow> 's world \<Rightarrow> bool"
  for sha start store_finish other where
  claim: "claim_run rid h1 h2 (wd_registry w) = (Inr i, rg) \<Longrightarrow>
    registry_step sha start store_finish other w (w\<lparr>wd_registry := rg, wd_flights := Registering rid i # wd_flights w\<rparr>)"
| started: "wd_flights w = xs @ Registering rid i # ys \<Longrightarrow> start rid now (wd_store w) = (Inr u, s) \<Longrightarrow>
    registry_step sha start store_finish other w (w\<lparr>wd_store := s, wd_flights := xs @ Registered rid i # ys\<rparr>)"
| not_started: "wd_flights w = xs @ Registering rid i # ys \<Longrightarrow> start rid now (wd_store w) = (Inl e, s) \<Longrightarrow>
    registry_step sha start store_finish other w (w\<lparr>wd_store := s, wd_flights := xs @ NotRegistered rid i # ys\<rparr>)"
| ready: "wd_flights w = xs @ Registered rid i # ys \<Longrightarrow>
    registry_step sha start store_finish other w (w\<lparr>wd_registry := set_ready i (wd_registry w), wd_flights := xs @ ys\<rparr>)"
| abort: "wd_flights w = xs @ NotRegistered rid i # ys \<Longrightarrow>
    registry_step sha start store_finish other w (w\<lparr>wd_registry := delete_run rid (wd_registry w), wd_flights := xs @ ys\<rparr>)"
| subscribe: "subscribe sha rid token (wd_registry w) = (Inr i, rg) \<Longrightarrow>
    registry_step sha start store_finish other w (w\<lparr>wd_registry := rg, wd_handles := i # wd_handles w\<rparr>)"
| release: "i \<in> set (wd_handles w) \<Longrightarrow>
    registry_step sha start store_finish other w (w\<lparr>wd_registry := release i (wd_registry w)\<rparr>)"
| receive: "i \<in> set (wd_handles w) \<Longrightarrow> receive i (wd_registry w) = (Some n, rg) \<Longrightarrow>
    registry_step sha start store_finish other w (w\<lparr>wd_registry := rg\<rparr>)"
| notify: "registry_step sha start store_finish other w (w\<lparr>wd_registry := notify_policy_block n (wd_registry w)\<rparr>)"
| begin_finish: "begin_finish (fr_run_id r) (wd_registry w) = (Inr i, rg) \<Longrightarrow>
    registry_step sha start store_finish other w (w\<lparr>wd_registry := rg, wd_flights := Finishing r i # wd_flights w\<rparr>)"
| finished: "wd_flights w = xs @ Finishing r i # ys \<Longrightarrow> store_finish r (wd_store w) = (Inr u, s) \<Longrightarrow>
    registry_step sha start store_finish other w (w\<lparr>wd_store := s, wd_flights := xs @ Finished r i # ys\<rparr>)"
| not_finished: "wd_flights w = xs @ Finishing r i # ys \<Longrightarrow> store_finish r (wd_store w) = (Inl e, s) \<Longrightarrow>
    registry_step sha start store_finish other w (w\<lparr>wd_store := s, wd_flights := xs @ NotFinished r i # ys\<rparr>)"
| end_finish: "wd_flights w = xs @ Finished r i # ys \<Longrightarrow>
    registry_step sha start store_finish other w
      (w\<lparr>wd_registry := end_finish (fr_run_id r) i (wd_registry w), wd_flights := xs @ ys\<rparr>)"
| undo_finish: "wd_flights w = xs @ NotFinished r i # ys \<Longrightarrow>
    registry_step sha start store_finish other w (w\<lparr>wd_registry := undo_finish i (wd_registry w), wd_flights := xs @ ys\<rparr>)"
| other: "other (wd_store w) s \<Longrightarrow> registry_step sha start store_finish other w (w\<lparr>wd_store := s\<rparr>)"

inductive_cases registry_stepE: "registry_step sha start store_finish other w w'"

section \<open>The invariant\<close>

definition run_ok :: "active_run \<Rightarrow> bool" where
  "run_ok a \<longleftrightarrow> ar_closed a = ar_chan_closed a \<and> length (ar_buffer a) \<le> 1 \<and> (\<not> ar_notified a \<longrightarrow> ar_buffer a = [])"

fun flight_ok :: "registry \<Rightarrow> flight \<Rightarrow> bool" where
  "flight_ok rg (Registering rid i) \<longleftrightarrow> (rid, i) \<in> set (rg_runs rg) \<and> \<not> ar_ready (rg_heap rg ! i)"
| "flight_ok rg (Registered rid i) \<longleftrightarrow> (rid, i) \<in> set (rg_runs rg) \<and> \<not> ar_ready (rg_heap rg ! i)"
| "flight_ok rg (NotRegistered rid i) \<longleftrightarrow> (rid, i) \<in> set (rg_runs rg) \<and> \<not> ar_ready (rg_heap rg ! i)"
| "flight_ok rg (Finishing r i) \<longleftrightarrow> (fr_run_id r, i) \<in> set (rg_runs rg) \<and> ar_ready (rg_heap rg ! i) \<and> ar_finishing (rg_heap rg ! i)"
| "flight_ok rg (Finished r i) \<longleftrightarrow> (fr_run_id r, i) \<in> set (rg_runs rg) \<and> ar_ready (rg_heap rg ! i) \<and> ar_finishing (rg_heap rg ! i)"
| "flight_ok rg (NotFinished r i) \<longleftrightarrow> (fr_run_id r, i) \<in> set (rg_runs rg) \<and> ar_ready (rg_heap rg ! i) \<and> ar_finishing (rg_heap rg ! i)"

definition map_ok :: "registry \<Rightarrow> bool" where
  "map_ok rg \<longleftrightarrow> distinct (map fst (rg_runs rg)) \<and> distinct (map snd (rg_runs rg)) \<and>
     (\<forall>r \<in> set (rg_runs rg). snd r < length (rg_heap rg)) \<and> (\<forall>a \<in> set (rg_heap rg). run_ok a) \<and> \<not> rg_panicked rg"

definition flights_ok :: "flight list \<Rightarrow> registry \<Rightarrow> bool" where
  "flights_ok fl rg \<longleftrightarrow> distinct (map flight_run fl) \<and> (\<forall>f \<in> set fl. flight_ok rg f)"

lemma runs_functional:
  assumes "map_ok rg"
  shows "(rid, i) \<in> set (rg_runs rg) \<Longrightarrow> (rid, i') \<in> set (rg_runs rg) \<Longrightarrow> i' = i"
    and "(rid, i) \<in> set (rg_runs rg) \<Longrightarrow> (rid', i) \<in> set (rg_runs rg) \<Longrightarrow> rid' = rid"
    and "map_of (rg_runs rg) rid = Some i \<longleftrightarrow> (rid, i) \<in> set (rg_runs rg)"
proof -
  have d: "distinct (map fst (rg_runs rg))" "inj_on snd (set (rg_runs rg))"
    using assms by (simp_all add: map_ok_def distinct_map)
  show "(rid, i) \<in> set (rg_runs rg) \<Longrightarrow> (rid, i') \<in> set (rg_runs rg) \<Longrightarrow> i' = i"
    using d(1) by (metis eq_key_imp_eq_value)
  show "(rid, i) \<in> set (rg_runs rg) \<Longrightarrow> (rid', i) \<in> set (rg_runs rg) \<Longrightarrow> rid' = rid"
    using inj_onD [OF d(2), of "(rid, i)" "(rid', i)"] by simp
  show "map_of (rg_runs rg) rid = Some i \<longleftrightarrow> (rid, i) \<in> set (rg_runs rg)"
    using d(1) by (rule map_of_eq_Some_iff)
qed

lemma map_ok_change:
  assumes "map_ok rg" "i < length (rg_heap rg) \<Longrightarrow> run_ok (f (rg_heap rg ! i))"
  shows "map_ok (change_run i f rg)"
proof -
  have "\<forall>a \<in> set ((rg_heap rg)[i := f (rg_heap rg ! i)]). run_ok a"
  proof (cases "i < length (rg_heap rg)")
    case True
    with assms show ?thesis by (auto simp: map_ok_def dest!: set_update_subset_insert [THEN subsetD])
  next
    case False
    with assms(1) show ?thesis by (simp add: map_ok_def list_update_beyond)
  qed
  with assms(1) show ?thesis by (simp add: map_ok_def change_run_def)
qed

lemma map_ok_delete: "map_ok rg \<Longrightarrow> map_ok (delete_run rid rg)"
  by (auto simp: map_ok_def delete_run_def distinct_map_filter)

lemma map_ok_nth: "map_ok rg \<Longrightarrow> (rid, i) \<in> set (rg_runs rg) \<Longrightarrow> i < length (rg_heap rg) \<and> run_ok (rg_heap rg ! i)"
  by (auto simp: map_ok_def)

lemma change_run_sel [simp]:
  "rg_runs (change_run i f rg) = rg_runs rg" "length (rg_heap (change_run i f rg)) = length (rg_heap rg)"
  "k \<noteq> i \<Longrightarrow> rg_heap (change_run i f rg) ! k = rg_heap rg ! k"
  "i < length (rg_heap rg) \<Longrightarrow> rg_heap (change_run i f rg) ! i = f (rg_heap rg ! i)"
  by (simp_all add: change_run_def)

lemma delete_run_sel [simp]:
  "rg_heap (delete_run rid rg) = rg_heap rg"
  "r \<in> set (rg_runs (delete_run rid rg)) \<longleftrightarrow> r \<in> set (rg_runs rg) \<and> fst r \<noteq> rid"
  by (auto simp: delete_run_def)

lemma flight_ok_other: "flight_run g \<noteq> i \<Longrightarrow> flight_ok (change_run i f rg) g = flight_ok rg g"
  by (cases g) simp_all

text \<open>Changes that touch neither the ready nor the finishing flag of a record.\<close>

definition quiet :: "registry \<Rightarrow> registry \<Rightarrow> bool" where
  "quiet rg rg' \<longleftrightarrow> rg_runs rg' = rg_runs rg \<and> length (rg_heap rg') = length (rg_heap rg) \<and>
     (\<forall>i < length (rg_heap rg). ar_ready (rg_heap rg' ! i) = ar_ready (rg_heap rg ! i) \<and>
        ar_finishing (rg_heap rg' ! i) = ar_finishing (rg_heap rg ! i) \<and>
        ar_run_hash (rg_heap rg' ! i) = ar_run_hash (rg_heap rg ! i))"

lemma quiet_refl: "quiet rg rg"
  by (simp add: quiet_def)

lemma quiet_change:
  assumes f: "\<And>a. ar_ready (f a) = ar_ready a \<and> ar_finishing (f a) = ar_finishing a \<and> ar_run_hash (f a) = ar_run_hash a"
  shows "quiet rg (change_run i f rg)"
  unfolding quiet_def
proof (intro conjI allI impI)
  fix k assume k: "k < length (rg_heap rg)"
  have "rg_heap (change_run i f rg) ! k = (if k = i then f (rg_heap rg ! k) else rg_heap rg ! k)"
    using k by simp
  then show "ar_ready (rg_heap (change_run i f rg) ! k) = ar_ready (rg_heap rg ! k)"
    "ar_finishing (rg_heap (change_run i f rg) ! k) = ar_finishing (rg_heap rg ! k)"
    "ar_run_hash (rg_heap (change_run i f rg) ! k) = ar_run_hash (rg_heap rg ! k)"
    by (simp_all add: f)
qed simp_all

lemma quiet_flights:
  assumes "quiet rg rg'" "map_ok rg" "flights_ok fl rg"
  shows "flights_ok fl rg'"
proof -
  have "flight_ok rg' f" if "flight_ok rg f" for f
    using that assms(1,2) by (cases f) (auto simp: quiet_def dest: map_ok_nth)
  with assms(3) show ?thesis by (auto simp: flights_ok_def)
qed

lemma close_signals_ok: "map_ok rg \<Longrightarrow> i < length (rg_heap rg) \<Longrightarrow> map_ok (close_signals i rg) \<and> quiet rg (close_signals i rg)"
proof -
  assume ok: "map_ok rg" and i: "i < length (rg_heap rg)"
  then have "run_ok (rg_heap rg ! i)" by (simp add: map_ok_def)
  then show ?thesis
    using ok by (auto simp: close_signals_def Let_def run_ok_def quiet_refl intro!: map_ok_change quiet_change)
qed

lemma notify_ok: "map_ok rg \<Longrightarrow> map_ok (notify_policy_block n rg) \<and> quiet rg (notify_policy_block n rg)"
proof (cases "map_of (rg_runs rg) (pb_run_id n)")
  case None
  then show "map_ok rg \<Longrightarrow> ?thesis" by (simp add: notify_policy_block_def quiet_refl)
next
  case (Some i)
  assume ok: "map_ok rg"
  with Some have "run_ok (rg_heap rg ! i)" by (auto simp: runs_functional dest: map_ok_nth)
  with Some ok show ?thesis
    by (auto simp: notify_policy_block_def Let_def run_ok_def quiet_refl intro!: map_ok_change quiet_change)
qed

lemma subscribe_ok:
  "subscribe sha rid token rg = (Inr i, rg') \<Longrightarrow> map_ok rg \<Longrightarrow>
   map_ok rg' \<and> quiet rg rg' \<and> i < length (rg_heap rg')"
  by (auto simp: subscribe_def Let_def runs_functional run_ok_def split: option.splits if_splits
      intro!: map_ok_change quiet_change dest: map_ok_nth)

lemma receive_ok:
  "receive i rg = (Some n, rg') \<Longrightarrow> map_ok rg \<Longrightarrow> map_ok rg' \<and> quiet rg rg'"
  by (auto simp: receive_def map_ok_def [of rg] run_ok_def split: list.splits
      intro!: map_ok_change quiet_change)
    (use nth_mem in \<open>fastforce simp: run_ok_def\<close>)

section \<open>The contract of the store, and what the registry makes of it\<close>

definition runs_open :: "('s \<Rightarrow> string \<Rightarrow> bool) \<Rightarrow> 's \<Rightarrow> flight list \<Rightarrow> registry \<Rightarrow> bool" where
  "runs_open opened s fl rg \<longleftrightarrow>
     (\<forall>rid i. (rid, i) \<in> set (rg_runs rg) \<and> ar_ready (rg_heap rg ! i) \<and> (\<forall>r. Finished r i \<notin> set fl) \<longrightarrow> opened s rid) \<and>
     (\<forall>rid i. Registered rid i \<in> set fl \<longrightarrow> opened s rid)"

definition world_ok :: "('s \<Rightarrow> string \<Rightarrow> bool) \<Rightarrow> ('s \<Rightarrow> bool) \<Rightarrow> 's world \<Rightarrow> bool" where
  "world_ok opened store_ok w \<longleftrightarrow> store_ok (wd_store w) \<and> map_ok (wd_registry w) \<and>
     flights_ok (wd_flights w) (wd_registry w) \<and> (\<forall>i \<in> set (wd_handles w). i < length (rg_heap (wd_registry w))) \<and>
     runs_open opened (wd_store w) (wd_flights w) (wd_registry w)"

lemma world_ok_quiet:
  assumes "world_ok opened store_ok w" "map_ok rg" "quiet (wd_registry w) rg" "\<forall>i \<in> set hs. i < length (rg_heap rg)"
  shows "world_ok opened store_ok (w\<lparr>wd_registry := rg, wd_handles := hs\<rparr>)"
proof -
  have "ar_ready (rg_heap rg ! i) = ar_ready (rg_heap (wd_registry w) ! i)" if "(rid, i) \<in> set (rg_runs (wd_registry w))" for rid i
    using that assms(1,3) map_ok_nth [of "wd_registry w" rid i] by (simp add: world_ok_def quiet_def)
  then have "runs_open opened (wd_store w) (wd_flights w) rg"
    using assms(1,3) unfolding world_ok_def runs_open_def quiet_def by metis
  with assms quiet_flights [of "wd_registry w" rg "wd_flights w"] show ?thesis
    by (simp add: world_ok_def)
qed

text \<open>A flight between its neighbours.\<close>

lemma flights_split:
  assumes "flights_ok (xs @ f # ys) rg"
  shows "flight_ok rg f" "flights_ok (xs @ ys) rg" "g \<in> set (xs @ ys) \<Longrightarrow> flight_run g \<noteq> flight_run f"
    "flight_run f' = flight_run f \<Longrightarrow> flight_ok rg f' \<Longrightarrow> flights_ok (xs @ f' # ys) rg"
  using assms by (auto simp: flights_ok_def) (metis image_eqI)+

lemma flights_change:
  assumes "flights_ok fl rg" "\<forall>g \<in> set fl. flight_run g \<noteq> i"
  shows "flights_ok fl (change_run i f rg)"
  using assms by (simp add: flights_ok_def flight_ok_other)

lemma flights_delete:
  assumes ok: "flights_ok fl rg" "map_ok rg" "(rid, i) \<in> set (rg_runs rg)" and other: "\<forall>g \<in> set fl. flight_run g \<noteq> i"
  shows "flights_ok fl (delete_run rid rg)"
proof -
  have "flight_ok (delete_run rid rg) g" if "flight_ok rg g" "flight_run g \<noteq> i" for g
    using that runs_functional(1) [OF ok(2,3)] by (cases g) auto
  with ok(1) other show ?thesis by (auto simp: flights_ok_def)
qed

locale execution_contract =
  fixes start :: "string \<Rightarrow> time \<Rightarrow> 's \<Rightarrow> unit res \<times> 's"
    and store_finish :: "execution_result \<Rightarrow> 's \<Rightarrow> unit res \<times> 's"
    and other :: "'s \<Rightarrow> 's \<Rightarrow> bool"
    and opened :: "'s \<Rightarrow> string \<Rightarrow> bool"
    and store_ok :: "'s \<Rightarrow> bool"
  assumes start_law: "store_ok s \<Longrightarrow> start rid t s = (x, s') \<Longrightarrow>
      store_ok s' \<and> (\<forall>r. opened s r \<longrightarrow> opened s' r) \<and> (is_ok x \<longrightarrow> opened s' rid)"
    and finish_law: "store_ok s \<Longrightarrow> store_finish r s = (x, s') \<Longrightarrow>
      store_ok s' \<and> (\<forall>rid. rid \<noteq> fr_run_id r \<or> \<not> is_ok x \<longrightarrow> opened s rid \<longrightarrow> opened s' rid)"
    and other_law: "store_ok s \<Longrightarrow> other s s' \<Longrightarrow> store_ok s' \<and> (\<forall>rid. opened s rid \<longrightarrow> opened s' rid)"
begin

lemma open_mono:
  assumes "runs_open opened s fl rg" "\<forall>rid. opened s rid \<longrightarrow> opened s' rid"
  shows "runs_open opened s' fl rg"
  using assms by (auto simp: runs_open_def)

lemma claim_keeps:
  assumes w: "world_ok opened store_ok w" and c: "claim_run rid h1 h2 (wd_registry w) = (Inr i, rg)"
  shows "world_ok opened store_ok (w\<lparr>wd_registry := rg, wd_flights := Registering rid i # wd_flights w\<rparr>)"
proof -
  let ?rg = "wd_registry w"
  define a where "a = \<lparr>ar_run_hash = h1, ar_signal_hash = h2, ar_buffer = [],
     ar_chan_closed = False, ar_notified = False, ar_ready = False, ar_claimed = False, ar_closed = False,
     ar_finishing = False\<rparr>"
  from c have new: "map_of (rg_runs ?rg) rid = None" and i: "i = length (rg_heap ?rg)"
    and rg: "rg = ?rg\<lparr>rg_heap := rg_heap ?rg @ [a], rg_runs := rg_runs ?rg @ [(rid, i)]\<rparr>"
    by (auto simp: claim_run_def a_def split: if_splits)
  from w have m: "map_ok ?rg" and f: "flights_ok (wd_flights w) ?rg"
    and o': "runs_open opened (wd_store w) (wd_flights w) ?rg"
    by (simp_all add: world_ok_def)
  have lt: "\<forall>r \<in> set (rg_runs ?rg). snd r < i" using m by (simp add: map_ok_def i)
  from new have fst: "rid \<notin> fst ` set (rg_runs ?rg)" by (simp add: map_of_eq_None_iff)
  have ma: "map_ok rg"
    using m fst lt by (auto simp: map_ok_def rg run_ok_def a_def less_Suc_eq i)
  have old: "flight_ok rg g \<and> flight_run g < i" if "flight_ok ?rg g" for g
    using that lt by (cases g) (auto simp: rg nth_append i)
  have "\<forall>g \<in> set (wd_flights w). flight_ok rg g \<and> flight_run g \<noteq> i"
    using f old by (auto simp: flights_ok_def)
  moreover have "flight_ok rg (Registering rid i)" by (simp add: rg nth_append i a_def)
  ultimately have "flights_ok (Registering rid i # wd_flights w) rg"
    using f by (auto simp: flights_ok_def)
  moreover have "runs_open opened (wd_store w) (Registering rid i # wd_flights w) rg"
    using o' lt unfolding runs_open_def by (auto simp: rg nth_append i a_def)
  ultimately show ?thesis using w ma unfolding world_ok_def by (auto simp: rg)
qed

lemma store_call_keeps:
  assumes w: "world_ok opened store_ok w" and fl: "wd_flights w = xs @ f # ys"
    and s: "store_ok s'" and f': "flight_run f' = flight_run f" "flight_ok (wd_registry w) f'"
    and o': "runs_open opened s' (xs @ f' # ys) (wd_registry w)"
  shows "world_ok opened store_ok (w\<lparr>wd_store := s', wd_flights := xs @ f' # ys\<rparr>)"
  using w s o' flights_split(4) [OF _ f', of xs ys] by (simp add: world_ok_def fl)

lemma same_flights_open:
  assumes "runs_open opened s (xs @ f # ys) rg" "\<forall>rid. opened s rid \<longrightarrow> opened s' rid"
    and "\<And>rid i. f' = Registered rid i \<Longrightarrow> opened s' rid" "\<And>r i. f \<noteq> Finished r i"
  shows "runs_open opened s' (xs @ f' # ys) rg"
  using assms unfolding runs_open_def by (auto; metis)

lemma started_keeps:
  assumes w: "world_ok opened store_ok w" and fl: "wd_flights w = xs @ Registering rid i # ys"
    and st: "start rid now (wd_store w) = (x, s)" and f': "f' = (if is_ok x then Registered rid i else NotRegistered rid i)"
  shows "world_ok opened store_ok (w\<lparr>wd_store := s, wd_flights := xs @ f' # ys\<rparr>)"
proof -
  have ok: "store_ok (wd_store w)" "flights_ok (xs @ Registering rid i # ys) (wd_registry w)"
    "runs_open opened (wd_store w) (xs @ Registering rid i # ys) (wd_registry w)"
    using w by (simp_all add: world_ok_def fl)
  note law = start_law [OF ok(1) st]
  have "flight_ok (wd_registry w) f'" "flight_run f' = flight_run (Registering rid i)"
    using flights_split(1) [OF ok(2)] by (simp_all add: f')
  moreover have "runs_open opened s (xs @ f' # ys) (wd_registry w)"
    by (rule same_flights_open [OF ok(3)]) (use law in \<open>auto simp: f' split: if_splits\<close>)
  ultimately show ?thesis using store_call_keeps [OF w fl] law by blast
qed

lemma finished_keeps:
  assumes w: "world_ok opened store_ok w" and fl: "wd_flights w = xs @ Finishing r i # ys"
    and st: "store_finish r (wd_store w) = (x, s)" and f': "f' = (if is_ok x then Finished r i else NotFinished r i)"
  shows "world_ok opened store_ok (w\<lparr>wd_store := s, wd_flights := xs @ f' # ys\<rparr>)"
proof -
  have ok: "store_ok (wd_store w)" "flights_ok (xs @ Finishing r i # ys) (wd_registry w)" "map_ok (wd_registry w)"
    "runs_open opened (wd_store w) (xs @ Finishing r i # ys) (wd_registry w)"
    using w by (simp_all add: world_ok_def fl)
  note law = finish_law [OF ok(1) st] and me = flights_split(1) [OF ok(2)]
  have f: "flight_ok (wd_registry w) f'" "flight_run f' = flight_run (Finishing r i)"
    using me by (simp_all add: f')
  have "runs_open opened s (xs @ f' # ys) (wd_registry w)"
  proof (cases "is_ok x")
    case False
    with law show ?thesis by (intro same_flights_open [OF ok(4)]) (auto simp: f')
  next
    case True
    have "opened s rid" if r: "(rid, k) \<in> set (rg_runs (wd_registry w))" "ar_ready (rg_heap (wd_registry w) ! k)"
      and nf: "\<forall>r'. Finished r' k \<notin> set (xs @ f' # ys)" for rid k
    proof -
      from nf True have "k \<noteq> i" by (auto simp: f')
      with r(1) me runs_functional(1) [OF ok(3)] have "rid \<noteq> fr_run_id r" by auto
      moreover from nf have "\<forall>r'. Finished r' k \<notin> set (xs @ Finishing r i # ys)" by auto
      with ok(4) r have "opened (wd_store w) rid" unfolding runs_open_def by blast
      ultimately show ?thesis using law by blast
    qed
    moreover have "opened s rid" if g: "Registered rid k \<in> set (xs @ f' # ys)" for rid k
    proof -
      from g True have g': "Registered rid k \<in> set (xs @ ys)" by (auto simp: f')
      from flights_split(3) [OF ok(2) g'] have "k \<noteq> i" by simp
      moreover from flights_split(2) [OF ok(2)] g' have "flight_ok (wd_registry w) (Registered rid k)"
        unfolding flights_ok_def by blast
      then have "(rid, k) \<in> set (rg_runs (wd_registry w))" by simp
      ultimately have "rid \<noteq> fr_run_id r" using me runs_functional(1) [OF ok(3)] by auto
      moreover from ok(4) g' have "opened (wd_store w) rid" by (auto simp: runs_open_def)
      ultimately show ?thesis using law by blast
    qed
    ultimately show ?thesis unfolding runs_open_def by blast
  qed
  with store_call_keeps [OF w fl] law f show ?thesis by blast
qed

lemma ready_keeps:
  assumes w: "world_ok opened store_ok w" and fl: "wd_flights w = xs @ Registered rid i # ys"
  shows "world_ok opened store_ok (w\<lparr>wd_registry := set_ready i (wd_registry w), wd_flights := xs @ ys\<rparr>)"
proof -
  have ok: "flights_ok (xs @ Registered rid i # ys) (wd_registry w)" "map_ok (wd_registry w)"
    "runs_open opened (wd_store w) (xs @ Registered rid i # ys) (wd_registry w)"
    using w by (simp_all add: world_ok_def fl)
  have me: "(rid, i) \<in> set (rg_runs (wd_registry w))" using flights_split(1) [OF ok(1)] by simp
  have "map_ok (set_ready i (wd_registry w))"
    unfolding set_ready_def using map_ok_nth [OF ok(2) me] by (intro map_ok_change [OF ok(2)]) (simp add: run_ok_def)
  moreover have "flights_ok (xs @ ys) (set_ready i (wd_registry w))"
    unfolding set_ready_def using flights_split(2,3) [OF ok(1)] by (intro flights_change) auto
  moreover have "runs_open opened (wd_store w) (xs @ ys) (set_ready i (wd_registry w))"
    unfolding runs_open_def
  proof (intro conjI allI impI; (elim conjE exE)?)
    fix r k assume k: "(r, k) \<in> set (rg_runs (set_ready i (wd_registry w)))"
      "ar_ready (rg_heap (set_ready i (wd_registry w)) ! k)" "\<forall>r. Finished r k \<notin> set (xs @ ys)"
    show "opened (wd_store w) r"
    proof (cases "k = i")
      case True
      with k me runs_functional(2) [OF ok(2) me] ok(3) show ?thesis by (auto simp: set_ready_def runs_open_def)
    next
      case False
      with k ok(3) show ?thesis by (auto simp: set_ready_def runs_open_def)
    qed
  next
    fix r k assume "Registered r k \<in> set (xs @ ys)"
    with ok(3) show "opened (wd_store w) r" by (auto simp: runs_open_def)
  qed
  ultimately show ?thesis using w by (simp add: world_ok_def set_ready_def)
qed

lemma removed_keeps:
  assumes w: "world_ok opened store_ok w" and fl: "wd_flights w = xs @ f # ys"
    and me: "(rid, flight_run f) \<in> set (rg_runs (wd_registry w))"
    and rg: "map_ok rg" "quiet (wd_registry w) rg"
  shows "world_ok opened store_ok (w\<lparr>wd_registry := delete_run rid rg, wd_flights := xs @ ys\<rparr>)"
proof -
  have ok: "flights_ok (xs @ f # ys) (wd_registry w)" "map_ok (wd_registry w)"
    "runs_open opened (wd_store w) (xs @ f # ys) (wd_registry w)"
    using w by (simp_all add: world_ok_def fl)
  have rg_eq: "rg_runs rg = rg_runs (wd_registry w)" "length (rg_heap rg) = length (rg_heap (wd_registry w))"
    using rg(2) by (simp_all add: quiet_def)
  have "flights_ok (xs @ ys) rg"
    using quiet_flights [OF rg(2) ok(2)] flights_split(2) [OF ok(1)] by blast
  then have "flights_ok (xs @ ys) (delete_run rid rg)"
    using flights_split(3) [OF ok(1)] me by (intro flights_delete [where i = "flight_run f"]) (auto simp: rg rg_eq)
  moreover have "runs_open opened (wd_store w) (xs @ ys) (delete_run rid rg)"
    unfolding runs_open_def
  proof (intro conjI allI impI; (elim conjE exE)?)
    fix r k assume k: "(r, k) \<in> set (rg_runs (delete_run rid rg))"
      "ar_ready (rg_heap (delete_run rid rg) ! k)" "\<forall>r. Finished r k \<notin> set (xs @ ys)"
    then have rk: "(r, k) \<in> set (rg_runs (wd_registry w))" "r \<noteq> rid" by (auto simp: rg_eq)
    with me runs_functional(2) [OF ok(2)] have "k \<noteq> flight_run f" by blast
    then have "\<forall>r. Finished r k \<notin> set (xs @ f # ys)" using k(3) by auto
    moreover have "ar_ready (rg_heap (wd_registry w) ! k)"
      using k(2) rg(2) map_ok_nth [OF ok(2) rk(1)] by (simp add: quiet_def)
    ultimately show "opened (wd_store w) r" using ok(3) rk(1) unfolding runs_open_def by blast
  next
    fix r k assume "Registered r k \<in> set (xs @ ys)"
    with ok(3) show "opened (wd_store w) r" by (auto simp: runs_open_def)
  qed
  ultimately show ?thesis using w rg map_ok_delete [OF rg(1)] by (simp add: world_ok_def rg_eq)
qed

lemma begin_finish_keeps:
  assumes w: "world_ok opened store_ok w" and b: "begin_finish (fr_run_id r) (wd_registry w) = (Inr i, rg)"
  shows "world_ok opened store_ok (w\<lparr>wd_registry := rg, wd_flights := Finishing r i # wd_flights w\<rparr>)"
proof -
  have ok: "flights_ok (wd_flights w) (wd_registry w)" "map_ok (wd_registry w)"
    "runs_open opened (wd_store w) (wd_flights w) (wd_registry w)"
    using w by (simp_all add: world_ok_def)
  from b have me: "(fr_run_id r, i) \<in> set (rg_runs (wd_registry w))" "ar_ready (rg_heap (wd_registry w) ! i)"
    "\<not> ar_finishing (rg_heap (wd_registry w) ! i)" and rg: "rg = change_run i (\<lambda>a. a\<lparr>ar_finishing := True\<rparr>) (wd_registry w)"
    by (auto simp: begin_finish_def Let_def runs_functional(3) [OF ok(2)] split: option.splits if_splits)
  note i = map_ok_nth [OF ok(2) me(1)]
  have none: "\<forall>g \<in> set (wd_flights w). flight_run g \<noteq> i"
  proof
    fix g assume "g \<in> set (wd_flights w)"
    with ok(1) have "flight_ok (wd_registry w) g" by (simp add: flights_ok_def)
    then show "flight_run g \<noteq> i" using me(2,3) by (cases g) auto
  qed
  have "map_ok rg" unfolding rg using i by (intro map_ok_change [OF ok(2)]) (simp add: run_ok_def)
  moreover have "flights_ok (Finishing r i # wd_flights w) rg"
    using flights_change [OF ok(1) none] none i me unfolding rg by (auto simp: flights_ok_def)
  moreover have "runs_open opened (wd_store w) (Finishing r i # wd_flights w) rg"
    unfolding runs_open_def
  proof (intro conjI allI impI; (elim conjE exE)?)
    fix r' k assume k: "(r', k) \<in> set (rg_runs rg)" "ar_ready (rg_heap rg ! k)" "\<forall>x. Finished x k \<notin> set (Finishing r i # wd_flights w)"
    then have "ar_ready (rg_heap (wd_registry w) ! k)" using i me(2) by (cases "k = i") (auto simp: rg)
    with k ok(3) show "opened (wd_store w) r'" unfolding runs_open_def by (auto simp: rg)
  next
    fix r' k assume "Registered r' k \<in> set (Finishing r i # wd_flights w)"
    with ok(3) show "opened (wd_store w) r'" by (auto simp: runs_open_def)
  qed
  ultimately show ?thesis using w by (simp add: world_ok_def rg)
qed

lemma undo_finish_keeps:
  assumes w: "world_ok opened store_ok w" and fl: "wd_flights w = xs @ NotFinished r i # ys"
  shows "world_ok opened store_ok (w\<lparr>wd_registry := undo_finish i (wd_registry w), wd_flights := xs @ ys\<rparr>)"
proof -
  have ok: "flights_ok (xs @ NotFinished r i # ys) (wd_registry w)" "map_ok (wd_registry w)"
    "runs_open opened (wd_store w) (xs @ NotFinished r i # ys) (wd_registry w)"
    using w by (simp_all add: world_ok_def fl)
  have me: "(fr_run_id r, i) \<in> set (rg_runs (wd_registry w))" using flights_split(1) [OF ok(1)] by simp
  note i = map_ok_nth [OF ok(2) me]
  have "map_ok (undo_finish i (wd_registry w))"
    unfolding undo_finish_def using i by (intro map_ok_change [OF ok(2)]) (simp add: run_ok_def)
  moreover have "flights_ok (xs @ ys) (undo_finish i (wd_registry w))"
    unfolding undo_finish_def using flights_split(2,3) [OF ok(1)] by (intro flights_change) auto
  moreover have "runs_open opened (wd_store w) (xs @ ys) (undo_finish i (wd_registry w))"
    unfolding runs_open_def
  proof (intro conjI allI impI; (elim conjE exE)?)
    fix r' k assume k: "(r', k) \<in> set (rg_runs (undo_finish i (wd_registry w)))"
      "ar_ready (rg_heap (undo_finish i (wd_registry w)) ! k)" "\<forall>x. Finished x k \<notin> set (xs @ ys)"
    then have "ar_ready (rg_heap (wd_registry w) ! k)" using i by (cases "k = i") (auto simp: undo_finish_def)
    moreover from k(3) have "\<forall>x. Finished x k \<notin> set (xs @ NotFinished r i # ys)" by auto
    ultimately show "opened (wd_store w) r'" using k(1) ok(3) unfolding runs_open_def undo_finish_def change_run_sel by blast
  next
    fix r' k assume "Registered r' k \<in> set (xs @ ys)"
    with ok(3) show "opened (wd_store w) r'" by (auto simp: runs_open_def)
  qed
  ultimately show ?thesis using w by (simp add: world_ok_def undo_finish_def)
qed

lemma step_keeps:
  assumes st: "registry_step sha start store_finish other w w'" and w: "world_ok opened store_ok w"
  shows "world_ok opened store_ok w'"
proof -
  have m: "map_ok (wd_registry w)" and h: "\<forall>i \<in> set (wd_handles w). i < length (rg_heap (wd_registry w))"
    and f: "flights_ok (wd_flights w) (wd_registry w)"
    using w by (simp_all add: world_ok_def)
  have len: "quiet (wd_registry w) rg \<Longrightarrow> length (rg_heap rg) = length (rg_heap (wd_registry w))" for rg
    by (simp add: quiet_def)
  show ?thesis
    using st
  proof cases
    case (claim rid h1 h2 i rg)
    with claim_keeps [OF w] show ?thesis by blast
  next
    case (started xs rid i ys now u s)
    from started_keeps [OF w started(2,3) refl] started(1) show ?thesis by simp
  next
    case (not_started xs rid i ys now e s)
    from started_keeps [OF w not_started(2,3) refl] not_started(1) show ?thesis by simp
  next
    case (ready xs rid i ys)
    with ready_keeps [OF w] show ?thesis by blast
  next
    case (abort xs rid i ys)
    from flights_split(1) [OF f [unfolded abort(2)]] removed_keeps [OF w abort(2) _ m quiet_refl, of rid] abort(1)
    show ?thesis by simp
  next
    case (subscribe rid token i rg)
    from subscribe_ok [OF subscribe(2) m] h len [of rg] subscribe(1) world_ok_quiet [OF w, of rg "i # wd_handles w"]
    show ?thesis by simp
  next
    case (release i)
    with h have "i < length (rg_heap (wd_registry w))" by simp
    from close_signals_ok [OF m this] release(1) h len world_ok_quiet [OF w, of "close_signals i (wd_registry w)" "wd_handles w"]
    show ?thesis by (simp add: release_def)
  next
    case (receive i n rg)
    from receive_ok [OF receive(3) m] receive(1) h len [of rg] world_ok_quiet [OF w, of rg "wd_handles w"]
    show ?thesis by simp
  next
    case (notify n)
    from notify_ok [OF m, of n] notify h len world_ok_quiet [OF w, of "notify_policy_block n (wd_registry w)" "wd_handles w"]
    show ?thesis by simp
  next
    case (begin_finish r i rg)
    with begin_finish_keeps [OF w] show ?thesis by blast
  next
    case (finished xs r i ys u s)
    from finished_keeps [OF w finished(2,3) refl] finished(1) show ?thesis by simp
  next
    case (not_finished xs r i ys e s)
    from finished_keeps [OF w not_finished(2,3) refl] not_finished(1) show ?thesis by simp
  next
    case (end_finish xs r i ys)
    from flights_split(1) [OF f [unfolded end_finish(2)]] have me: "(fr_run_id r, i) \<in> set (rg_runs (wd_registry w))" by simp
    then have "i < length (rg_heap (wd_registry w))" using map_ok_nth [OF m] by blast
    from close_signals_ok [OF m this] removed_keeps [OF w end_finish(2), of "fr_run_id r" "close_signals i (wd_registry w)"]
      me end_finish(1)
    show ?thesis by (simp add: end_finish_def)
  next
    case (undo_finish xs r i ys)
    with undo_finish_keeps [OF w] show ?thesis by blast
  next
    case (other s)
    with other_law w have "store_ok s" "\<forall>rid. opened (wd_store w) rid \<longrightarrow> opened s rid"
      by (auto simp: world_ok_def)
    with open_mono [of "wd_store w" "wd_flights w" "wd_registry w" s] w other(1) show ?thesis
      by (simp add: world_ok_def)
  qed
qed

lemma steps_keep:
  "(registry_step sha start store_finish other)\<^sup>*\<^sup>* w w' \<Longrightarrow> world_ok opened store_ok w \<Longrightarrow> world_ok opened store_ok w'"
  by (induction rule: rtranclp_induct) (auto intro: step_keeps)

text \<open>A token resolves to open runs only, and no step panics.\<close>

lemma resolves_open:
  assumes "world_ok opened store_ok w" "resolve_run_token sha token (wd_registry w) = Some rid"
  shows "opened (wd_store w) rid"
proof -
  from assms(2) obtain i where i: "(rid, i) \<in> set (rg_runs (wd_registry w))" "ar_ready (rg_heap (wd_registry w) ! i)"
    "\<not> ar_finishing (rg_heap (wd_registry w) ! i)"
    by (auto simp: resolve_run_token_def Let_def split: if_splits dest!: first_row_Some)
  have "Finished r i \<notin> set (wd_flights w)" for r
    using assms(1) i(3) by (auto simp: world_ok_def flights_ok_def)
  with assms(1) i show ?thesis unfolding world_ok_def runs_open_def by blast
qed

end

section \<open>The journal as the store\<close>

definition open_execution :: "journal \<Rightarrow> string \<Rightarrow> bool" where
  "open_execution j rid \<longleftrightarrow> (case select_execution rid (tbl j) of None \<Rightarrow> False | Some x \<Rightarrow> \<not> is_final x)"

text \<open>The uses of the table beside the registry: the running transition and the circuit breaker.\<close>

definition other_use :: "journal \<Rightarrow> journal \<Rightarrow> bool" where
  "other_use j j' \<longleftrightarrow> (\<exists>rid. j' = snd (mark_execution_running rid j)) \<or> (\<exists>n. j' = snd (block_execution n j)) \<or>
     (\<exists>e n. j' = snd (record_policy_block e n j))"

lemma select_update:
  assumes "\<And>x. ex_run_id (f x) = ex_run_id x"
  shows "select_execution rid (t\<lparr>t_executions := update_where P f (t_executions t)\<rparr>) =
    map_option (\<lambda>x. if P x then f x else x) (select_execution rid t)"
  using assms by (simp add: select_execution_def first_row_update_where)

lemma open_update:
  assumes f: "\<And>x. ex_run_id (f x) = ex_run_id x"
    and op: "\<And>x. x \<in> set (t_executions (tbl j)) \<Longrightarrow> P x \<Longrightarrow> ex_run_id x = rid \<Longrightarrow> \<not> is_final (f x)"
    and t: "t_executions (tbl j') = t_executions (tbl j) \<or> t_executions (tbl j') = update_where P f (t_executions (tbl j))"
    and o': "open_execution j rid"
  shows "open_execution j' rid"
proof -
  obtain x where x: "select_execution rid (tbl j) = Some x" "\<not> is_final x"
    using o' by (auto simp: open_execution_def split: option.splits)
  then have mem: "x \<in> set (t_executions (tbl j))" "ex_run_id x = rid"
    by (auto simp: select_execution_def dest: first_row_Some)
  from t have "select_execution rid (tbl j') = Some x \<or> select_execution rid (tbl j') = Some (if P x then f x else x)"
    using x(1) select_update [where f = f and rid = rid and t = "tbl j" and P = P] f by (auto simp: select_execution_def)
  with x(2) op [OF mem(1) _ mem(2)] show ?thesis by (auto simp: open_execution_def)
qed

lemma record_policy_block_executions:
  assumes "record_policy_block e n j = (x, j')"
  shows "t_executions (tbl j') = t_executions (tbl j) \<or>
    \<not> invalid_notice n \<and> t_executions (tbl j') = update_where (\<lambda>x. ex_run_id x = pb_run_id n \<and> ex_state x = StateRunning)
      (set_blocked n) (t_executions (tbl j))"
proof (cases x)
  case (Inl err)
  with assms record_policy_block_error show ?thesis by auto
next
  case (Inr u)
  with assms record_policy_block_run [of e n j u j'] show ?thesis by (auto simp: block_recorded_def)
qed

lemma other_use_advances:
  assumes "other_use j j'"
  shows "advances (tbl j) (tbl j')"
proof -
  have "advances (tbl j) (tbl (snd (record_policy_block e n j)))" for e n
  proof (cases "record_policy_block e n j")
    case (Pair x j2)
    from record_policy_block_executions [OF Pair] show ?thesis
    proof
      assume "t_executions (tbl j2) = t_executions (tbl j)"
      with Pair show ?thesis by (simp add: advances_refl)
    next
      assume u: "\<not> invalid_notice n \<and> t_executions (tbl j2) = update_where (\<lambda>x. ex_run_id x = pb_run_id n \<and> ex_state x = StateRunning)
        (set_blocked n) (t_executions (tbl j))"
      then have "advances (tbl j) ((tbl j)\<lparr>t_executions := t_executions (tbl j2)\<rparr>)"
        by (auto intro!: advances_update exec_step.block)
      with Pair show ?thesis by (simp add: advances_def)
    qed
  qed
  with assms show ?thesis
    unfolding other_use_def by (metis block_advances mark_advances prod.collapse)
qed

lemma other_use_open:
  assumes "other_use j j'" "open_execution j rid" "executions_ok (tbl j)"
  shows "open_execution j' rid"
proof -
  have b: "ex_run_id (set_blocked n x) = ex_run_id x" for n x by (simp add: set_blocked_def)
  have nf: "\<not> is_final (set_blocked n x)" if "x \<in> set (t_executions (tbl j))" "ex_state x = StateRunning" for n x
    using that assms(3) by (auto simp: set_blocked_def is_final_def executions_ok_def dest!: active_row)
  consider (mark) r where "j' = snd (mark_execution_running r j)" | (block) n where "j' = snd (block_execution n j)"
    | (recorded) e n where "j' = snd (record_policy_block e n j)"
    using assms(1) unfolding other_use_def by blast
  then show ?thesis
  proof cases
    case (mark r)
    let ?f = "\<lambda>x :: execution. x\<lparr>ex_state := StateRunning\<rparr>"
    from mark have "mark_execution_running r j = (fst (mark_execution_running r j), j')" by simp
    from update_result_run [OF this [unfolded mark_execution_running_def]]
    show ?thesis
      by (intro open_update [where f = ?f, OF _ _ _ assms(2)]) (auto simp: is_final_def)
  next
    case (block n)
    show ?thesis
    proof (cases "invalid_notice n")
      case True
      with block assms(2) show ?thesis by (simp add: block_execution_def)
    next
      case False
      from block have "block_execution n j = (fst (block_execution n j), j')" by simp
      from update_result_run [OF this [unfolded block_execution_def if_not_P [OF False]]]
      show ?thesis
        by (intro open_update [where f = "set_blocked n" and P = "\<lambda>x. ex_run_id x = pb_run_id n \<and> ex_state x = StateRunning", OF _ _ _ assms(2)]) (auto simp: b nf)
    qed
  next
    case (recorded e n)
    then have "record_policy_block e n j = (fst (record_policy_block e n j), j')" by simp
    from record_policy_block_executions [OF this] show ?thesis
      by (intro open_update [where f = "set_blocked n" and P = "\<lambda>x. ex_run_id x = pb_run_id n \<and> ex_state x = StateRunning", OF _ _ _ assms(2)]) (auto simp: b nf)
  qed
qed

lemma start_execution_open:
  assumes "start_execution rid t j = (x, j')"
  shows "open_execution j r \<Longrightarrow> open_execution j' r" "is_ok x \<Longrightarrow> open_execution j' rid"
proof -
  show "open_execution j r \<Longrightarrow> open_execution j' r"
  proof -
    assume o': "open_execution j r"
    then obtain y where y: "select_execution r (tbl j) = Some y" "\<not> is_final y"
      by (auto simp: open_execution_def split: option.splits)
    have "t_executions (tbl j') = t_executions (tbl j) \<or> (\<exists>z. t_executions (tbl j') = t_executions (tbl j) @ [z])"
    proof -
      consider "j' = j" | v where "insert_execution rid t j = (v, j')"
        using assms by (auto simp: start_execution_def split: if_splits prod.splits sum.splits)
      then show ?thesis
      proof cases
        case (2 v)
        then show ?thesis
          by (cases v) (auto dest!: insert_execution_run, auto simp: insert_execution_def dest!: exec_stmt_error)
      qed simp
    qed
    with y have "select_execution r (tbl j') = Some y"
      by (auto simp: select_execution_def first_row_append)
    with y(2) show ?thesis by (simp add: open_execution_def)
  qed
  show "is_ok x \<Longrightarrow> open_execution j' rid"
  proof -
    assume "is_ok x"
    with assms obtain n where i: "insert_execution rid t j = (Inr n, j')" and n: "n \<noteq> 0"
      by (auto simp: start_execution_def split: if_splits prod.splits sum.splits)
    from insert_execution_run [OF i] n have new: "rid \<notin> ex_run_id ` set (t_executions (tbl j))"
      "t_executions (tbl j') = t_executions (tbl j) @ [starting_row rid t]" by auto
    from new(1) have "first_row (\<lambda>x. ex_run_id x = rid) (t_executions (tbl j)) = None"
      by (auto simp: first_row_None)
    then have "select_execution rid (tbl j') = Some (starting_row rid t)"
      by (simp add: select_execution_def new(2) first_row_append starting_row_def)
    then show ?thesis by (simp add: open_execution_def is_final_def starting_row_def)
  qed
qed

lemma finish_execution_open:
  assumes fin: "finish_execution r j = (x, j')" and ok: "executions_ok (tbl j)" and o': "open_execution j rid"
    and other: "rid \<noteq> fr_run_id r \<or> \<not> is_ok x"
  shows "open_execution j' rid"
proof -
  consider "tbl j' = tbl j" | m where "finish_update r = Inr m" "execution_update_result ''finish execution'' m j = (x, j')"
    using fin by (auto simp: finish_execution_def split: if_splits sum.splits)
  then show ?thesis
  proof cases
    case 1
    with o' show ?thesis by (simp add: open_execution_def)
  next
    case (2 m)
    have "\<exists>P f. m = update_executions P f \<and> (\<forall>x. P x \<longrightarrow> ex_run_id x = fr_run_id r \<and> exec_step x (f x))"
      by (rule finish_update_effect [OF 2(1)]) blast
    then obtain P f where m: "m = update_executions P f" and P: "\<And>x. P x \<Longrightarrow> ex_run_id x = fr_run_id r"
      and step: "\<And>x. P x \<Longrightarrow> exec_step x (f x)" by blast
    from update_result_run [OF 2(2) [unfolded m]]
    consider "tbl j' = tbl j" | "tbl j' = (tbl j)\<lparr>t_executions := update_where P f (t_executions (tbl j))\<rparr>"
        "is_ok x \<longleftrightarrow> count_where P (t_executions (tbl j)) = 1" by blast
    then show ?thesis
    proof cases
      case 1
      with o' show ?thesis by (simp add: open_execution_def)
    next
      case upd: 2
      show ?thesis
      proof (cases "is_ok x")
        case True
        with other have rid: "rid \<noteq> fr_run_id r" by simp
        have "first_row (\<lambda>x. ex_run_id x = rid) (update_where P f xs) = first_row (\<lambda>x. ex_run_id x = rid) xs" for xs
        proof (induction xs)
          case (Cons y ys)
          then show ?case using rid P [of y] step_key [OF step, of y] by auto
        qed simp
        with upd(1) o' show ?thesis by (simp add: open_execution_def select_execution_def)
      next
        case False
        have "count_where (\<lambda>y. ex_run_id y = fr_run_id r \<and> P y) (t_executions (tbl j)) \<le> 1"
          using ok by (intro count_where_key_le) (simp add: executions_ok_def)
        moreover have "(\<lambda>y. ex_run_id y = fr_run_id r \<and> P y) = P" using P by blast
        ultimately have "count_where P (t_executions (tbl j)) = 0" using False upd(2) by simp
        then have "update_where P f (t_executions (tbl j)) = t_executions (tbl j)"
          by (intro update_where_none) (simp add: count_where_0)
        with upd(1) o' show ?thesis by (simp add: open_execution_def)
      qed
    qed
  qed
qed

interpretation journal_store: execution_contract start_execution finish_execution other_use open_execution
  "\<lambda>j. executions_ok (tbl j)"
proof
  fix j j' rid t x r
  show "executions_ok (tbl j) \<Longrightarrow> start_execution rid t j = (x, j') \<Longrightarrow>
      executions_ok (tbl j') \<and> (\<forall>r. open_execution j r \<longrightarrow> open_execution j' r) \<and> (is_ok x \<longrightarrow> open_execution j' rid)"
    by (blast intro: advances_ok start_advances start_execution_open)
  show "executions_ok (tbl j) \<Longrightarrow> finish_execution r j = (x, j') \<Longrightarrow>
      executions_ok (tbl j') \<and> (\<forall>rid. rid \<noteq> fr_run_id r \<or> \<not> is_ok x \<longrightarrow> open_execution j rid \<longrightarrow> open_execution j' rid)"
    by (blast intro: advances_ok finish_advances finish_execution_open)
  show "executions_ok (tbl j) \<Longrightarrow> other_use j j' \<Longrightarrow>
      executions_ok (tbl j') \<and> (\<forall>rid. open_execution j rid \<longrightarrow> open_execution j' rid)"
    by (blast intro: advances_ok other_use_advances other_use_open)
qed

text \<open>C6: A run token opens a live run only. In every interleaving of registrations, finishes,
  subscriptions, releases, notifications and store calls over the journal, from an empty registry,
  no operation sends on a closed channel or closes one twice, each signal channel holds at most one
  notice, and a token that resolves names a run whose execution row is not final.\<close>

theorem run_tokens_open_live_runs:
  assumes "(registry_step sha start_execution finish_execution other_use)\<^sup>*\<^sup>*
      \<lparr>wd_registry = new_registry, wd_store = j, wd_flights = [], wd_handles = []\<rparr> w" "executions_ok (tbl j)"
  shows "\<not> rg_panicked (wd_registry w) \<and> (\<forall>a \<in> set (rg_heap (wd_registry w)). length (ar_buffer a) \<le> 1) \<and>
    (\<forall>token rid. resolve_run_token sha token (wd_registry w) = Some rid \<longrightarrow>
      (\<exists>x. select_execution rid (tbl (wd_store w)) = Some x \<and> \<not> is_final x))"
proof -
  have "world_ok open_execution (\<lambda>j. executions_ok (tbl j))
      \<lparr>wd_registry = new_registry, wd_store = j, wd_flights = [], wd_handles = []\<rparr>"
    using assms(2) by (simp add: world_ok_def map_ok_def flights_ok_def runs_open_def new_registry_def)
  from journal_store.steps_keep [OF assms(1) this]
  have ok: "world_ok open_execution (\<lambda>j. executions_ok (tbl j)) w" .
  then have "map_ok (wd_registry w)" by (simp add: world_ok_def)
  then have "\<not> rg_panicked (wd_registry w) \<and> (\<forall>a \<in> set (rg_heap (wd_registry w)). length (ar_buffer a) \<le> 1)"
    by (simp add: map_ok_def run_ok_def)
  moreover have "\<exists>x. select_execution rid (tbl (wd_store w)) = Some x \<and> \<not> is_final x"
    if "resolve_run_token sha token (wd_registry w) = Some rid" for token rid
    using journal_store.resolves_open [OF ok that] by (auto simp: open_execution_def split: option.splits)
  ultimately show ?thesis by blast
qed


lemma resolve_unique:
  assumes "distinct_on (\<lambda>r. ar_run_hash (rg_heap rg ! snd r)) (rg_runs rg)" "(rid, i) \<in> set (rg_runs rg)"
    "ar_ready (rg_heap rg ! i)" "\<not> ar_finishing (rg_heap rg ! i)" "ar_run_hash (rg_heap rg ! i) = sha token" "token \<noteq> []"
  shows "resolve_run_token sha token rg = Some rid"
proof -
  let ?P = "\<lambda>r. ar_ready (rg_heap rg ! snd r) \<and> \<not> ar_finishing (rg_heap rg ! snd r) \<and> ar_run_hash (rg_heap rg ! snd r) = sha token"
  have "first_row ?P (rg_runs rg) \<noteq> None" using assms(2-5) unfolding first_row_None by fastforce
  then obtain r where r: "first_row ?P (rg_runs rg) = Some r" by blast
  from first_row_Some [OF r] assms have "r = (rid, i)"
    by (intro distinct_on_unique [OF assms(1)]) simp_all
  with r assms(6) show ?thesis by (simp add: resolve_run_token_def Let_def)
qed

definition claimed_registry :: registry where
  "claimed_registry = snd (claim_run ''r'' ''t'' ''s'' new_registry)"

definition live_world :: "journal world" where
  "live_world = \<lparr>wd_registry = set_ready 0 claimed_registry, wd_store = snd (start_execution ''r'' 5 (new_journal ''i'')),
     wd_flights = [], wd_handles = []\<rparr>"

lemma live_world_reached:
  "(registry_step (\<lambda>s. s) start_execution finish_execution other_use)\<^sup>*\<^sup>*
     \<lparr>wd_registry = new_registry, wd_store = new_journal ''i'', wd_flights = [], wd_handles = []\<rparr> live_world"
proof -
  let ?w0 = "\<lparr>wd_registry = new_registry, wd_store = new_journal ''i'', wd_flights = [], wd_handles = []\<rparr>"
  let ?w1 = "?w0\<lparr>wd_registry := claimed_registry, wd_flights := [Registering ''r'' 0]\<rparr>"
  let ?w2 = "?w1\<lparr>wd_store := snd (start_execution ''r'' 5 (new_journal ''i'')), wd_flights := [Registered ''r'' 0]\<rparr>"
  have "claim_run ''r'' ''t'' ''s'' (wd_registry ?w0) = (Inr 0, claimed_registry)"
    by (simp add: claimed_registry_def claim_run_def new_registry_def)
  from registry_step.claim [OF this, of "\<lambda>s. s" start_execution finish_execution other_use]
  have 1: "registry_step (\<lambda>s. s) start_execution finish_execution other_use ?w0 ?w1" by simp
  have "fst (start_execution ''r'' 5 (new_journal ''i'')) = Inr ()" by code_simp
  then have "start_execution ''r'' 5 (wd_store ?w1) = (Inr (), snd (start_execution ''r'' 5 (new_journal ''i'')))"
    by (simp add: prod_eq_iff)
  with registry_step.started [where w = ?w1 and xs = "[]" and rid = "''r''" and i = 0 and ys = "[]" and start = start_execution
      and now = 5 and u = "()" and s = "snd (start_execution ''r'' 5 (new_journal ''i''))" and sha = "\<lambda>s. s"
      and store_finish = finish_execution and other = other_use]
  have 2: "registry_step (\<lambda>s. s) start_execution finish_execution other_use ?w1 ?w2" by simp
  from registry_step.ready [of ?w2 "[]" "''r''" 0 "[]" "\<lambda>s. s" start_execution finish_execution other_use]
  have 3: "registry_step (\<lambda>s. s) start_execution finish_execution other_use ?w2 live_world"
    by (simp add: live_world_def)
  from 1 2 3 show ?thesis by (meson converse_rtranclp_into_rtranclp rtranclp.rtrancl_refl)
qed

lemma run_tokens_open_live_runs_witness:
  "\<exists>x. select_execution ''r'' (tbl (snd (start_execution ''r'' 5 (new_journal ''i'')))) = Some x \<and> \<not> is_final x"
proof -
  have "resolve_run_token (\<lambda>s. s) ''t'' (wd_registry live_world) = Some ''r''" by code_simp
  moreover have "wd_store live_world = snd (start_execution ''r'' 5 (new_journal ''i''))" by (simp add: live_world_def)
  ultimately show ?thesis
    using run_tokens_open_live_runs [OF live_world_reached executions_ok_new] by metis
qed

end
