(* ===== verification/Exec_Http.thy ===== *)
theory Exec_Http
  imports Exec_Registry
begin

text \<open>
  The installation-local control protocol (\<open>internal/executions/http.go\<close>): authentication,
  request decoding, and the handlers that register a run, mark it running, finish it and stream its
  signal. A handler is a function of the request, the registry and the journal to a response. The
  JSON decoder is represented by what it returns for the body.
\<close>

section \<open>Requests and responses\<close>

datatype decode_error = TooLarge | Malformed

text \<open>The outcome of the first \<open>Decode\<close>, and of the second, which must report the end of the body.\<close>

datatype body_rest = BodyEnd | ExtraValue | RestError decode_error

record 'a control_body =
  bd_first :: "decode_error + 'a"
  bd_rest :: body_rest

record finish_request =
  fq_state :: string
  fq_exit_code :: int
  fq_stop_reason :: string
  fq_term_status :: string
  fq_term_code :: string

text \<open>The fields of \<open>executionSummary\<close>.\<close>

record execution_summary =
  sm_run_id :: string
  sm_state :: exec_state
  sm_started :: time
  sm_ended :: "time option"
  sm_exit_code :: "int option"
  sm_stop_reason :: string
  sm_policy :: string
  sm_policy_reason :: string
  sm_term_status :: string
  sm_term_code :: string

datatype control_body_out =
    ErrorText string
  | RegistrationBody registration
  | SummaryBody execution_summary
  | EmptyBody

record control_response =
  hr_status :: nat
  hr_body :: control_body_out

definition http_error :: "string \<Rightarrow> nat \<Rightarrow> control_response" where
  "http_error msg status = \<lparr>hr_status = status, hr_body = ErrorText msg\<rparr>"

section \<open>Authentication and decoding\<close>

text \<open>\<open>controlauth.Credential\<close>: the value and its hash.\<close>

record credential =
  cd_value :: string
  cd_hash :: string

definition new_credential :: "(string \<Rightarrow> string) \<Rightarrow> string \<Rightarrow> credential" where
  "new_credential sha value = \<lparr>cd_value = value, cd_hash = sha value\<rparr>"

definition verify_credential :: "(string \<Rightarrow> string) \<Rightarrow> credential \<Rightarrow> string \<Rightarrow> bool" where
  "verify_credential sha c candidate = (if candidate = [] \<or> cd_value c = [] then False else sha candidate = cd_hash c)"

definition authenticate :: "(string \<Rightarrow> string) \<Rightarrow> credential \<Rightarrow> string \<Rightarrow> bool" where
  "authenticate sha c header = (case cut (CHR '' '') header of (scheme, token, ok) \<Rightarrow>
     ok \<and> scheme = ''Bearer'' \<and> verify_credential sha c token)"

definition write_decode_error :: "decode_error option \<Rightarrow> control_response" where
  "write_decode_error e = (if e = Some TooLarge then http_error ''request body too large'' 413
     else http_error ''invalid request body'' 400)"

definition decode_control_json :: "'a control_body \<Rightarrow> control_response + 'a" where
  "decode_control_json b = (case bd_first b of Inl e \<Rightarrow> Inl (write_decode_error (Some e))
     | Inr x \<Rightarrow> (case bd_rest b of BodyEnd \<Rightarrow> Inr x
         | ExtraValue \<Rightarrow> Inl (write_decode_error None)
         | RestError e \<Rightarrow> Inl (write_decode_error (Some e))))"

section \<open>Register and Running\<close>

definition register_status :: "goerr \<Rightarrow> control_response" where
  "register_status e =
     (if errors_is e ErrInvalidRunID then http_error ''invalid run id'' 400
      else if errors_is e ErrRunActive then http_error ''run already active'' 409
      else if errors_is e ErrRunExists then http_error ''run id already exists'' 409
      else http_error ''registration failed'' 500)"

definition register_handler ::
  "(string \<Rightarrow> string) \<Rightarrow> credential \<Rightarrow> time \<Rightarrow> string option \<Rightarrow> string option \<Rightarrow> string option \<Rightarrow> string \<Rightarrow>
   string control_body \<Rightarrow> registry \<Rightarrow> journal \<Rightarrow> control_response \<times> registry \<times> journal" where
  "register_handler sha c now raw_id raw_run raw_signal header body rg j =
     (if \<not> authenticate sha c header then (http_error ''unauthorized'' 401, rg, j)
      else (case decode_control_json body of Inl resp \<Rightarrow> (resp, rg, j)
        | Inr requested \<Rightarrow> (case register sha start_execution now raw_id raw_run raw_signal requested rg j of
            (Inl e, rg1, j1) \<Rightarrow> (register_status e, rg1, j1)
          | (Inr reg, rg1, j1) \<Rightarrow> (\<lparr>hr_status = 201, hr_body = RegistrationBody reg\<rparr>, rg1, j1))))"

definition running_handler ::
  "(string \<Rightarrow> string) \<Rightarrow> credential \<Rightarrow> string \<Rightarrow> unit control_body \<Rightarrow> string \<Rightarrow> journal \<Rightarrow> control_response \<times> journal" where
  "running_handler sha c header body rid j =
     (if \<not> authenticate sha c header then (http_error ''unauthorized'' 401, j)
      else (case decode_control_json body of Inl resp \<Rightarrow> (resp, j)
        | Inr _ \<Rightarrow> (case mark_execution_running rid j of
            (Inl e, j1) \<Rightarrow> (if errors_is e ErrInvalidTransition then http_error ''invalid transition'' 409
                            else http_error ''running transition failed'' 500, j1)
          | (Inr _, j1) \<Rightarrow> (\<lparr>hr_status = 204, hr_body = EmptyBody\<rparr>, j1))))"

section \<open>Finish\<close>

definition runner_terminal_state :: "string \<Rightarrow> bool" where
  "runner_terminal_state s \<longleftrightarrow> s \<in> set (map state_name [StateCompleted, StateFailed, StateDeadline, StateInterrupted,
     StateGatewayFailed, StateTerminationFailed])"

text \<open>\<open>blockedFinishResult\<close>: the result it rewrites, or \<open>None\<close> when it refuses.\<close>

definition blocked_finish_result :: "finish_request \<Rightarrow> execution_result \<Rightarrow> execution_result option" where
  "blocked_finish_result input r =
     (if fq_term_status input = term_name TerminationSucceeded then
        (if fq_term_code input \<noteq> [] then None else Some (r\<lparr>fr_state := state_name StateBlocked\<rparr>))
      else if fq_term_status input = term_name TerminationFailed then
        (if fq_term_code input = [] then None else Some (r\<lparr>fr_state := state_name StateTerminationFailed\<rparr>))
      else None)"

definition execution_summary_of :: "execution_view \<Rightarrow> execution_summary" where
  "execution_summary_of e = \<lparr>sm_run_id = xv_run_id e, sm_state = xv_state e, sm_started = xv_started e,
     sm_ended = xv_ended e, sm_exit_code = xv_exit_code e, sm_stop_reason = xv_stop_reason e,
     sm_policy = xv_policy e, sm_policy_reason = xv_policy_reason e, sm_term_status = xv_term_status e,
     sm_term_code = xv_term_code e\<rparr>"

definition result_of :: "time \<Rightarrow> string \<Rightarrow> finish_request \<Rightarrow> execution_result" where
  "result_of now rid input = \<lparr>fr_run_id = rid, fr_state = fq_state input, fr_ended = now,
     fr_exit_code = fq_exit_code input, fr_stop_reason = fq_stop_reason input,
     fr_term_status = fq_term_status input, fr_term_code = fq_term_code input\<rparr>"

text \<open>The checks between the first read of the run and the call of the registry.\<close>

definition finish_result :: "exec_state \<Rightarrow> finish_request \<Rightarrow> execution_result \<Rightarrow> control_response + execution_result" where
  "finish_result before input r =
     (if before = StateBlocked then
        (case blocked_finish_result input r of None \<Rightarrow> Inl (http_error ''invalid termination result'' 400) | Some r' \<Rightarrow> Inr r')
      else if fq_state input = state_name StateTerminationFailed then
        (if fq_term_status input \<noteq> term_name TerminationFailed \<or> fq_term_code input = []
         then Inl (http_error ''invalid failed termination'' 400) else Inr r)
      else if fq_term_status input = term_name TerminationFailed \<or> fq_term_code input \<noteq> []
        then Inl (http_error ''invalid termination result'' 400)
      else Inr r)"

definition finish_status :: "goerr \<Rightarrow> control_response" where
  "finish_status e = (if errors_is e ErrInvalidTransition \<or> errors_is e ErrRunNotFound
     then http_error ''invalid transition'' 409 else http_error ''finish failed'' 500)"

text \<open>A run that was blocked between the first read and the update is read and finished again.\<close>

definition finish_again ::
  "exec_state \<Rightarrow> finish_request \<Rightarrow> execution_result \<Rightarrow> goerr \<Rightarrow> registry \<Rightarrow> journal \<Rightarrow>
   (control_response + unit res) \<times> registry \<times> journal" where
  "finish_again before input r e rg j =
     (if errors_is e ErrInvalidTransition \<and> before \<noteq> StateBlocked then
        (case get_execution (fr_run_id r) j of
           (Inl e2, j1) \<Rightarrow> (if errors_is e2 ErrRunNotFound then (Inr (Inl e), rg, j1)
                            else (Inl (http_error ''execution read failed'' 500), rg, j1))
         | (Inr current, j1) \<Rightarrow>
             (if xv_state current = StateBlocked then
                (case blocked_finish_result input r of
                   None \<Rightarrow> (Inl (http_error ''invalid termination result'' 400), rg, j1)
                 | Some r' \<Rightarrow> (case finish finish_execution r' rg j1 of (x, rg1, j2) \<Rightarrow> (Inr x, rg1, j2)))
              else (Inr (Inl e), rg, j1)))
      else (Inr (Inl e), rg, j))"

definition finish_run ::
  "time \<Rightarrow> finish_request \<Rightarrow> string \<Rightarrow> registry \<Rightarrow> journal \<Rightarrow> control_response \<times> registry \<times> journal" where
  "finish_run now input rid rg j =
     (if \<not> runner_terminal_state (fq_state input) then (http_error ''invalid terminal state'' 400, rg, j)
      else if \<not> valid_termination_status (fq_term_status input) then (http_error ''invalid termination status'' 400, rg, j)
      else (case get_execution rid j of
          (Inl e, j1) \<Rightarrow> (if errors_is e ErrRunNotFound then http_error ''run not found'' 404
                          else http_error ''execution read failed'' 500, rg, j1)
        | (Inr before, j1) \<Rightarrow> (case finish_result (xv_state before) input (result_of now rid input) of
            Inl resp \<Rightarrow> (resp, rg, j1)
          | Inr r \<Rightarrow> (case (case finish finish_execution r rg j1 of
                (Inl e, rg1, j2) \<Rightarrow> finish_again (xv_state before) input r e rg1 j2
              | (Inr u, rg1, j2) \<Rightarrow> (Inr (Inr u), rg1, j2)) of
              (Inl resp, rg2, j3) \<Rightarrow> (resp, rg2, j3)
            | (Inr (Inl e), rg2, j3) \<Rightarrow> (finish_status e, rg2, j3)
            | (Inr (Inr _), rg2, j3) \<Rightarrow> (case get_execution rid j3 of
                (Inl e, j4) \<Rightarrow> (http_error ''execution read failed'' 500, rg2, j4)
              | (Inr stored, j4) \<Rightarrow> (\<lparr>hr_status = 200, hr_body = SummaryBody (execution_summary_of stored)\<rparr>, rg2, j4))))))"

definition finish_handler ::
  "(string \<Rightarrow> string) \<Rightarrow> credential \<Rightarrow> time \<Rightarrow> string \<Rightarrow> finish_request control_body \<Rightarrow> string \<Rightarrow> registry \<Rightarrow> journal \<Rightarrow>
   control_response \<times> registry \<times> journal" where
  "finish_handler sha c now header body rid rg j =
     (if \<not> authenticate sha c header then (http_error ''unauthorized'' 401, rg, j)
      else (case decode_control_json body of Inl resp \<Rightarrow> (resp, rg, j)
        | Inr input \<Rightarrow> finish_run now input rid rg j))"

section \<open>Signals\<close>

text \<open>What the stream's select loop sees; a closed channel is \<open>FromChannel None\<close>. \<open>marshal\<close> stands for
  \<open>json.Marshal\<close> of a notice.\<close>

datatype stream_input = ContextDone | FromChannel "policy_block_notice option" | HeartbeatTick

definition newline :: char where
  "newline = CHR 0x0A"

definition heartbeat_frame :: string where
  "heartbeat_frame = '': heartbeat'' @ [newline, newline]"

definition circuit_break_frame :: "string \<Rightarrow> string" where
  "circuit_break_frame payload = ''event: circuit_break'' @ [newline] @ ''data: '' @ payload @ [newline, newline]"

definition ready_frame :: string where
  "ready_frame = ''event: ready'' @ [newline, newline]"

fun stream_signals :: "(policy_block_notice \<Rightarrow> string option) \<Rightarrow> stream_input list \<Rightarrow> string" where
  "stream_signals marshal [] = []"
| "stream_signals marshal (ContextDone # _) = []"
| "stream_signals marshal (FromChannel None # _) = []"
| "stream_signals marshal (FromChannel (Some n) # _) = (case marshal n of None \<Rightarrow> [] | Some data \<Rightarrow> circuit_break_frame data)"
| "stream_signals marshal (HeartbeatTick # xs) = heartbeat_frame @ stream_signals marshal xs"

definition signals_handler ::
  "(string \<Rightarrow> string) \<Rightarrow> credential \<Rightarrow> (policy_block_notice \<Rightarrow> string option) \<Rightarrow> string \<Rightarrow> string \<Rightarrow> string \<Rightarrow>
   stream_input list \<Rightarrow> registry \<Rightarrow> (control_response + string) \<times> registry" where
  "signals_handler sha c marshal header rid signal_token inputs rg =
     (if \<not> authenticate sha c header then (Inl (http_error ''unauthorized'' 401), rg)
      else (case subscribe sha rid signal_token rg of
          (Inl e, rg1) \<Rightarrow> (Inl (if errors_is e ErrSignalTokenInvalid then http_error ''unauthorized'' 401
                                else http_error ''signal unavailable'' 409), rg1)
        | (Inr i, rg1) \<Rightarrow> (Inr (ready_frame @ stream_signals marshal inputs), release i rg1)))"

section \<open>Reports the store accepts\<close>

text \<open>What the state of a row asks of a report.\<close>

definition acceptable :: "execution \<Rightarrow> finish_request \<Rightarrow> bool" where
  "acceptable x q \<longleftrightarrow> runner_terminal_state (fq_state q) \<and> valid_termination_status (fq_term_status q) \<and>
     (case ex_state x of
        StateBlocked \<Rightarrow> fq_term_status q = term_name TerminationSucceeded \<and> fq_term_code q = [] \<or>
          fq_term_status q = term_name TerminationFailed \<and> normalized_termination_code (fq_term_code q)
      | _ \<Rightarrow> (if fq_state q = state_name StateTerminationFailed
            then fq_term_status q = term_name TerminationFailed \<and> normalized_termination_code (fq_term_code q)
            else fq_term_status q \<noteq> term_name TerminationFailed \<and> fq_term_code q = [] \<and>
              (ex_state x = StateStarting \<longrightarrow> fq_state q = state_name StateFailed)))"

lemma parse_state_name_inv [simp]: "parse_state (state_name s) = Some s"
  by (cases s) (simp_all add: parse_state_def all_states_def)

lemma state_name_inj [simp]: "state_name s = state_name t \<longleftrightarrow> s = t"
  using parse_state_name_inv by (metis option.inject)

lemma count_one:
  assumes "executions_ok t" "select_execution rid t = Some x" "P x" "\<And>y. P y \<Longrightarrow> ex_run_id y = rid"
  shows "count_where P (t_executions t) = 1"
proof -
  have x: "x \<in> set (t_executions t)" "ex_run_id x = rid"
    using assms(2) by (auto simp: select_execution_def dest: first_row_Some)
  have d: "distinct_on ex_run_id (t_executions t)" using assms(1) by (simp add: executions_ok_def)
  have "(\<lambda>y. ex_run_id y = rid \<and> P y) = P" using assms(4) by blast
  then have "count_where P (t_executions t) \<le> 1" using count_where_key_le [OF d, of rid P] by simp
  moreover have "count_where P (t_executions t) \<noteq> 0" using x assms(3) by (auto simp: count_where_0)
  ultimately show ?thesis by simp
qed

text \<open>What makes a result take a row, and the update it selects then.\<close>

definition takes_row :: "execution \<Rightarrow> execution_result \<Rightarrow> bool" where
  "takes_row x r \<longleftrightarrow>
     (ex_state x = StateBlocked \<and>
        (fr_state r = state_name StateBlocked \<and> fr_term_status r = term_name TerminationSucceeded \<and> fr_term_code r = [] \<or>
         fr_state r = state_name StateTerminationFailed \<and> fr_term_status r = term_name TerminationFailed \<and>
           normalized_termination_code (fr_term_code r))) \<or>
     (ex_state x \<noteq> StateBlocked \<and> fr_state r = state_name StateTerminationFailed \<and>
        fr_term_status r = term_name TerminationFailed \<and> normalized_termination_code (fr_term_code r)) \<or>
     (ex_state x \<noteq> StateBlocked \<and> fr_term_status r \<noteq> term_name TerminationFailed \<and> fr_term_code r = [] \<and>
        (\<exists>s \<in> {StateCompleted, StateFailed, StateDeadline, StateInterrupted, StateGatewayFailed}.
           fr_state r = state_name s \<and> (ex_state x = StateStarting \<longrightarrow> s = StateFailed)))"

lemma finish_update_takes:
  assumes "executions_ok (tbl j)" "select_execution (fr_run_id r) (tbl j) = Some x" "\<not> is_final x" "takes_row x r"
  shows "\<exists>P f. finish_update r = Inr (update_executions P f) \<and> P x \<and> (\<forall>y. P y \<longrightarrow> ex_run_id y = fr_run_id r)"
proof -
  have id: "ex_run_id x = fr_run_id r" and row: "exec_row_ok x"
    using assms(1,2) by (auto simp: select_execution_def executions_ok_def dest: first_row_Some)
  have t: "ex_state x \<in> {StateStarting, StateRunning} \<Longrightarrow> ex_term_status x = None"
    using active_row [OF row] by simp
  have b: "ex_state x = StateBlocked \<Longrightarrow> ex_term_status x = None"
    using assms(3) by (simp add: is_final_def)
  have st: "ex_state x \<in> {StateStarting, StateRunning, StateBlocked}"
    using assms(3) by (cases "ex_state x") (simp_all add: is_final_def)
  have p: "parse_state (fr_state r) = Some q" if "fr_state r = state_name q" for q
    using that by (simp del: state_name.simps)
  let ?B = "\<lambda>y. ex_run_id y = fr_run_id r \<and> ex_state y = StateBlocked \<and> ex_term_status y = None"
  let ?T = "\<lambda>y. ex_run_id y = fr_run_id r \<and> ex_state y \<in> {StateStarting, StateBlocked, StateRunning} \<and> ex_term_status y = None"
  from assms(4) [unfolded takes_row_def] show ?thesis
  proof (elim disjE conjE)
    assume a: "ex_state x = StateBlocked" "fr_state r = state_name StateBlocked"
      "fr_term_status r = term_name TerminationSucceeded" "fr_term_code r = []"
    have "\<exists>f. finish_update r = Inr (update_executions ?B f)"
      using a(3,4) by (auto simp: finish_update_def p [OF a(2)])
    moreover from a id b have "?B x" by simp
    ultimately show ?thesis by blast
  next
    assume a: "ex_state x = StateBlocked" "fr_state r = state_name StateTerminationFailed"
      "fr_term_status r = term_name TerminationFailed" "normalized_termination_code (fr_term_code r)"
    have "\<exists>f. finish_update r = Inr (update_executions ?T f)"
      using a(3,4) by (auto simp: finish_update_def p [OF a(2)])
    moreover from a id b have "?T x" by simp
    ultimately show ?thesis by blast
  next
    assume a: "ex_state x \<noteq> StateBlocked" "fr_state r = state_name StateTerminationFailed"
      "fr_term_status r = term_name TerminationFailed" "normalized_termination_code (fr_term_code r)"
    have "\<exists>f. finish_update r = Inr (update_executions ?T f)"
      using a(3,4) by (auto simp: finish_update_def p [OF a(2)])
    moreover from a id t st have "?T x" by auto
    ultimately show ?thesis by blast
  next
    assume a: "ex_state x \<noteq> StateBlocked" "fr_term_status r \<noteq> term_name TerminationFailed" "fr_term_code r = []"
      "\<exists>s \<in> {StateCompleted, StateFailed, StateDeadline, StateInterrupted, StateGatewayFailed}.
         fr_state r = state_name s \<and> (ex_state x = StateStarting \<longrightarrow> s = StateFailed)"
    then obtain s where s: "s \<in> {StateCompleted, StateFailed, StateDeadline, StateInterrupted, StateGatewayFailed}"
      "fr_state r = state_name s" "ex_state x = StateStarting \<longrightarrow> s = StateFailed" by blast
    let ?P = "\<lambda>x. ex_run_id x = fr_run_id r \<and> (if s = StateFailed then ex_state x \<in> {StateStarting, StateRunning} else ex_state x = StateRunning)"
    let ?f = "\<lambda>x. (set_ended r x)\<lparr>ex_state := s, ex_term_status := parse_term (fr_term_status r), ex_term_code := nullif (fr_term_code r)\<rparr>"
    have u: "finish_update r = Inr (update_executions ?P ?f)"
      using s(1) a(2,3) by (auto simp: finish_update_def p [OF s(2)])
    have x: "?P x" using id st a(1) s(3) by auto
    show ?thesis by (rule exI [of _ ?P], rule exI [of _ ?f]) (use u x in blast)
  qed
qed

lemma finish_execution_takes:
  assumes j: "faults j = []" "executions_ok (tbl j)" and u: "finish_update r = Inr (update_executions P f)"
    and x: "select_execution (fr_run_id r) (tbl j) = Some x" "P x" "\<forall>y. P y \<longrightarrow> ex_run_id y = fr_run_id r"
    and r: "fr_run_id r \<noteq> []" "fr_ended r \<noteq> zero_time" "valid_termination_status (fr_term_status r)"
  shows "\<exists>j'. finish_execution r j = (Inr (), j') \<and> faults j' = []"
proof -
  have "count_where P (t_executions (tbl j)) = 1" using j(2) x by (intro count_one) auto
  then show ?thesis
    using u r j(1) by (simp add: finish_execution_def execution_update_result_def update_executions_def)
qed

lemma normalized_nonempty: "normalized_termination_code c \<Longrightarrow> c \<noteq> []"
  by (auto simp: normalized_termination_code_def)

lemma get_execution_found:
  "faults j = [] \<Longrightarrow> select_execution rid (tbl j) = Some x \<Longrightarrow> get_execution rid j = (Inr (scan_execution x), j)"
  by (simp add: get_execution_def)

lemma scan_state [simp]: "xv_state (scan_execution x) = ex_state x"
  by (simp add: scan_execution_def)

lemma result_of_sel [simp]:
  "fr_run_id (result_of now rid q) = rid" "fr_state (result_of now rid q) = fq_state q" "fr_ended (result_of now rid q) = now"
  "fr_term_status (result_of now rid q) = fq_term_status q" "fr_term_code (result_of now rid q) = fq_term_code q"
  "fr_exit_code (result_of now rid q) = fq_exit_code q"
  by (simp_all add: result_of_def)

lemma term_names_differ [simp]:
  "term_name TerminationSucceeded \<noteq> term_name TerminationFailed" "term_name TerminationFailed \<noteq> term_name TerminationSucceeded"
  by simp_all

text \<open>The state a report puts on record: a blocked row stays blocked or becomes a failed termination.\<close>

definition closing_state :: "execution \<Rightarrow> finish_request \<Rightarrow> string" where
  "closing_state x q = (if ex_state x \<noteq> StateBlocked then fq_state q
     else if fq_term_status q = term_name TerminationFailed then state_name StateTerminationFailed else state_name StateBlocked)"

text \<open>An acceptable report passes the checks, as a result that takes the row.\<close>

lemma acceptable_result:
  assumes "acceptable x q" "\<not> is_final x" "executions_ok (tbl j)" "select_execution rid (tbl j) = Some x"
  shows "\<exists>r P f. finish_result (ex_state x) q (result_of now rid q) = Inr r \<and> fr_run_id r = rid \<and> fr_ended r = now \<and>
    fr_term_status r = fq_term_status q \<and> fr_exit_code r = fq_exit_code q \<and> fr_state r = closing_state x q \<and>
    finish_update r = Inr (update_executions P f) \<and> P x \<and> (\<forall>y. P y \<longrightarrow> ex_run_id y = rid)"
proof -
  have st: "ex_state x \<in> {StateStarting, StateRunning, StateBlocked}"
    using assms(2) by (cases "ex_state x") (simp_all add: is_final_def)
  have "\<exists>r. finish_result (ex_state x) q (result_of now rid q) = Inr r \<and> fr_run_id r = rid \<and> fr_ended r = now \<and>
    fr_term_status r = fq_term_status q \<and> fr_exit_code r = fq_exit_code q \<and> fr_state r = closing_state x q \<and> takes_row x r"
  proof (cases "ex_state x = StateBlocked")
    case True
    then have "fq_term_status q = term_name TerminationSucceeded \<and> fq_term_code q = [] \<or>
        fq_term_status q = term_name TerminationFailed \<and> normalized_termination_code (fq_term_code q)"
      using assms(1) by (simp add: acceptable_def del: term_name.simps)
    then show ?thesis
    proof
      assume "fq_term_status q = term_name TerminationSucceeded \<and> fq_term_code q = []"
      with True show ?thesis
        by (intro exI [of _ "(result_of now rid q)\<lparr>fr_state := state_name StateBlocked\<rparr>"])
          (simp add: finish_result_def blocked_finish_result_def takes_row_def closing_state_def)
    next
      assume "fq_term_status q = term_name TerminationFailed \<and> normalized_termination_code (fq_term_code q)"
      with True show ?thesis
        by (intro exI [of _ "(result_of now rid q)\<lparr>fr_state := state_name StateTerminationFailed\<rparr>"])
          (auto simp: finish_result_def blocked_finish_result_def takes_row_def closing_state_def dest: normalized_nonempty)
    qed
  next
    case False
    note acc = assms(1) [unfolded acceptable_def]
    have rt: "runner_terminal_state (fq_state q)" using assms(1) by (simp add: acceptable_def)
    show ?thesis
    proof (cases "fq_state q = state_name StateTerminationFailed")
      case True
      with acc False st have t: "fq_term_status q = term_name TerminationFailed" "normalized_termination_code (fq_term_code q)"
        by (auto split: exec_state.splits)
      with True False show ?thesis
        by (intro exI [of _ "result_of now rid q"]) (auto simp: finish_result_def takes_row_def closing_state_def dest: normalized_nonempty)
    next
      case nt: False
      with acc False st have t: "fq_term_status q \<noteq> term_name TerminationFailed" "fq_term_code q = []"
        "ex_state x = StateStarting \<longrightarrow> fq_state q = state_name StateFailed"
        by (auto simp del: state_name.simps term_name.simps split: exec_state.splits)
      moreover obtain s where s: "s \<in> {StateCompleted, StateFailed, StateDeadline, StateInterrupted, StateGatewayFailed}"
        "fq_state q = state_name s"
        using rt nt by (auto simp: runner_terminal_state_def simp del: state_name.simps)
      ultimately have "\<exists>s \<in> {StateCompleted, StateFailed, StateDeadline, StateInterrupted, StateGatewayFailed}.
               fq_state q = state_name s \<and> (ex_state x = StateStarting \<longrightarrow> s = StateFailed)"
        by (intro bexI [OF _ s(1)]) (auto simp del: state_name.simps)
      with t(1,2) nt False show ?thesis
        by (intro exI [of _ "result_of now rid q"]) (simp add: finish_result_def takes_row_def closing_state_def del: state_name.simps term_name.simps)
    qed
  qed
  then obtain r where r: "finish_result (ex_state x) q (result_of now rid q) = Inr r" "fr_run_id r = rid" "fr_ended r = now"
    "fr_term_status r = fq_term_status q" "fr_exit_code r = fq_exit_code q" "fr_state r = closing_state x q" and c: "takes_row x r" by blast
  have sel: "select_execution (fr_run_id r) (tbl j) = Some x" using assms(4) r(2) by simp
  obtain P f where "finish_update r = Inr (update_executions P f)" "P x" "\<forall>y. P y \<longrightarrow> ex_run_id y = rid"
    using finish_update_takes [OF assms(3) sel assms(2) c] unfolding r(2) by blast
  then show ?thesis using r by (intro exI [of _ r] exI [of _ P] exI [of _ f]) simp
qed

lemma finish_run_accepts:
  assumes j: "faults j = []" "executions_ok (tbl j)" and rg: "map_ok rg" "map_of (rg_runs rg) rid = Some i"
      "ar_ready (rg_heap rg ! i)" "\<not> ar_finishing (rg_heap rg ! i)"
    and x: "select_execution rid (tbl j) = Some x" "\<not> is_final x" and q: "acceptable x q"
    and n: "rid \<noteq> []" "now \<noteq> zero_time"
  shows "\<exists>rg' j' y. finish_run now q rid rg j =
      (\<lparr>hr_status = 200, hr_body = SummaryBody (execution_summary_of (scan_execution y))\<rparr>, rg', j') \<and>
    ex_exit_code y \<noteq> None \<and> map_of (rg_runs rg') rid = None \<and> select_execution rid (tbl j') = Some y \<and> is_final y \<and>
    state_name (ex_state y) = closing_state x q \<and> ex_exit_code y = Some (fq_exit_code q) \<and>
    (ex_state x = StateBlocked \<longrightarrow> same_block x y)"
proof -
  from acceptable_result [OF q x(2) j(2) x(1), of now] obtain r P f where
    r: "finish_result (ex_state x) q (result_of now rid q) = Inr r" "fr_run_id r = rid" "fr_ended r = now"
      "fr_term_status r = fq_term_status q"
      "fr_exit_code r = fq_exit_code q" "fr_state r = closing_state x q"
    and u: "finish_update r = Inr (update_executions P f)" "P x" "\<forall>y. P y \<longrightarrow> ex_run_id y = rid" by metis
  have v: "runner_terminal_state (fq_state q)" "valid_termination_status (fq_term_status q)"
    using q by (simp_all add: acceptable_def)
  obtain j' where f: "finish_execution r j = (Inr (), j')" and fj: "faults j' = []"
    using finish_execution_takes [OF j u(1), of x] x(1) u(2,3) r n v by auto
  obtain y where y: "select_execution rid (tbl j') = Some y" "is_final y" "state_name (ex_state y) = fr_state r"
      "ex_exit_code y = Some (fr_exit_code r)"
    using accepted_report [OF f j(2)] r(2) by auto
  have b: "begin_finish rid rg = (Inr i, change_run i (\<lambda>a. a\<lparr>ar_finishing := True\<rparr>) rg)"
    using rg by (simp add: begin_finish_def Let_def)
  let ?rg = "end_finish rid i (change_run i (\<lambda>a. a\<lparr>ar_finishing := True\<rparr>) rg)"
  have fin: "finish finish_execution r rg j = (Inr (), ?rg, j')"
    using b f r(2) by (simp add: finish_def)
  have "finish_run now q rid rg j = (\<lparr>hr_status = 200, hr_body = SummaryBody (execution_summary_of (scan_execution y))\<rparr>, ?rg, j')"
    using v r(1) fin get_execution_found [OF j(1) x(1)] get_execution_found [OF fj y(1)] by (simp add: finish_run_def)
  moreover have "map_of (rg_runs ?rg) rid = None"
    by (auto simp: end_finish_def delete_run_def map_of_eq_None_iff)
  moreover have "same_block x y" if "ex_state x = StateBlocked"
  proof -
    have "tbl (exec_runs [OpFinish r] j) = tbl j'" using f by simp
    with exec_runs_history [OF j(2), of "[OpFinish r]"] x(1) y(1) have "exec_step\<^sup>*\<^sup>* x y" by fastforce
    then show ?thesis by (rule blocked_steps) (simp add: that)
  qed
  ultimately show ?thesis using y r by auto
qed

text \<open>A report that is answered with a summary is on record: the row is final, with the exit code and the state of the
  report, unless a block was stored before it.\<close>

definition closes_row :: "execution \<Rightarrow> int \<Rightarrow> string \<Rightarrow> bool" where
  "closes_row y code state \<longleftrightarrow> is_final y \<and> ex_exit_code y = Some code \<and>
     state_name (ex_state y) \<in> {state, state_name StateBlocked, state_name StateTerminationFailed}"

lemma finish_keeps_rows: "finish finish_execution r rg j = (x, rg', j') \<Longrightarrow> executions_ok (tbl j) \<Longrightarrow> executions_ok (tbl j')"
  by (auto simp: finish_def intro: advances_ok dest: finish_advances split: sum.splits prod.splits)

lemma finish_answered:
  assumes "finish finish_execution r rg j = (Inr u, rg', j')" "executions_ok (tbl j)"
  shows "\<exists>y. select_execution (fr_run_id r) (tbl j') = Some y \<and> closes_row y (fr_exit_code r) (fr_state r)"
proof -
  have "finish_execution r j = (Inr (), j')" using assms(1) by (auto simp: finish_def split: sum.splits prod.splits)
  from accepted_report [OF this assms(2)] show ?thesis unfolding closes_row_def by blast
qed

lemma finish_result_keeps:
  "blocked_finish_result q r = Some r' \<Longrightarrow> fr_run_id r' = fr_run_id r \<and> fr_exit_code r' = fr_exit_code r \<and> fr_state r' \<in> {fr_state r, state_name StateBlocked, state_name StateTerminationFailed}"
  "finish_result before q r = Inr r' \<Longrightarrow> fr_run_id r' = fr_run_id r \<and> fr_exit_code r' = fr_exit_code r \<and> fr_state r' \<in> {fr_state r, state_name StateBlocked, state_name StateTerminationFailed}"
proof -
  show b: "blocked_finish_result q r = Some r' \<Longrightarrow> fr_run_id r' = fr_run_id r \<and> fr_exit_code r' = fr_exit_code r \<and> fr_state r' \<in> {fr_state r, state_name StateBlocked, state_name StateTerminationFailed}" for r'
    by (auto simp: blocked_finish_result_def split: if_splits)
  show "finish_result before q r = Inr r' \<Longrightarrow> fr_run_id r' = fr_run_id r \<and> fr_exit_code r' = fr_exit_code r \<and> fr_state r' \<in> {fr_state r, state_name StateBlocked, state_name StateTerminationFailed}"
    by (auto simp: finish_result_def dest: b split: if_splits option.splits)
qed

lemma get_execution_reads:
  assumes "get_execution rid j = (x, j')"
  shows "tbl j' = tbl j" and "x = Inr v \<Longrightarrow> \<exists>y. select_execution rid (tbl j) = Some y \<and> v = scan_execution y"
  using assms by (auto simp: get_execution_def query_row_def query_def bindE_def run_simps fault_run split: sum.splits prod.splits option.splits if_splits)

lemma closes_row_mono:
  "closes_row y c s' \<Longrightarrow> s' \<in> {s, state_name StateBlocked, state_name StateTerminationFailed} \<Longrightarrow> closes_row y c s"
  by (auto simp: closes_row_def)

lemma finish_again_recorded:
  assumes "finish_again before q r e rg j = (x, rg', j')" "executions_ok (tbl j)"
  shows "executions_ok (tbl j') \<and> (x = Inr (Inr ()) \<longrightarrow>
    (\<exists>y. select_execution (fr_run_id r) (tbl j') = Some y \<and> closes_row y (fr_exit_code r) (fr_state r))) \<and>
    (\<forall>resp sm. x = Inl resp \<longrightarrow> hr_body resp \<noteq> SummaryBody sm)"
proof (cases "errors_is e ErrInvalidTransition \<and> before \<noteq> StateBlocked")
  case True
  obtain v j1 where g: "get_execution (fr_run_id r) j = (v, j1)" by (cases "get_execution (fr_run_id r) j")
  have ok: "executions_ok (tbl j1)" using get_execution_reads(1) [OF g] assms(2) by simp
  show ?thesis
  proof (cases "\<exists>c r'. v = Inr c \<and> xv_state c = StateBlocked \<and> blocked_finish_result q r = Some r'")
    case True
    then obtain r' where r': "blocked_finish_result q r = Some r'" "\<exists>c. v = Inr c \<and> xv_state c = StateBlocked" by blast
    obtain z rg2 j2 where f: "finish finish_execution r' rg j1 = (z, rg2, j2)" by (cases "finish finish_execution r' rg j1")
    have "x = Inr z" "j' = j2" using \<open>errors_is e ErrInvalidTransition \<and> before \<noteq> StateBlocked\<close> assms(1) g r' f
      by (auto simp: finish_again_def)
    moreover have "closes_row y (fr_exit_code r) (fr_state r)" if "closes_row y (fr_exit_code r') (fr_state r')" for y
      using closes_row_mono [OF that] finish_result_keeps(1) [OF r'(1)] by simp
    ultimately show ?thesis
      using finish_keeps_rows [OF f ok] finish_answered [of r' rg j1 "()" rg2 j2] f ok finish_result_keeps(1) [OF r'(1)] by fastforce
  next
    case False
    with True assms(1) g ok show ?thesis by (auto simp: finish_again_def http_error_def split: sum.splits if_splits option.splits)
  qed
qed (use assms in \<open>auto simp: finish_again_def\<close>)

lemma finish_run_recorded:
  assumes "finish_run now q rid rg j = (resp, rg', j')" "executions_ok (tbl j)"
  shows "executions_ok (tbl j') \<and> (\<forall>sm. hr_body resp = SummaryBody sm \<longrightarrow>
    (\<exists>y. select_execution rid (tbl j') = Some y \<and> sm = execution_summary_of (scan_execution y) \<and> closes_row y (fq_exit_code q) (fq_state q)))"
proof (cases "runner_terminal_state (fq_state q) \<and> valid_termination_status (fq_term_status q)")
  case True
  obtain v j1 where g: "get_execution rid j = (v, j1)" by (cases "get_execution rid j")
  have ok: "executions_ok (tbl j1)" using get_execution_reads(1) [OF g] assms(2) by simp
  show ?thesis
  proof (cases "\<exists>c r. v = Inr c \<and> finish_result (xv_state c) q (result_of now rid q) = Inr r")
    case False
    with True assms(1) g ok show ?thesis
      by (auto simp: finish_run_def http_error_def finish_result_def split: sum.splits if_splits option.splits)
  next
    case ex: True
    then obtain c r where v: "v = Inr c" and r: "finish_result (xv_state c) q (result_of now rid q) = Inr r" by blast
    have keep: "fr_run_id r = rid" "fr_exit_code r = fq_exit_code q" using finish_result_keeps(2) [OF r] by simp_all
    have row: "closes_row y (fq_exit_code q) (fq_state q)" if "closes_row y (fr_exit_code r) (fr_state r)" for y
      using closes_row_mono [OF that] finish_result_keeps(2) [OF r] by simp
    obtain z rg2 j2 where f: "finish finish_execution r rg j1 = (z, rg2, j2)" by (cases "finish finish_execution r rg j1")
    have ok2: "executions_ok (tbl j2)" using finish_keeps_rows [OF f ok] .
    define step where "step = (case z of Inl e \<Rightarrow> finish_again (xv_state c) q r e rg2 j2 | Inr u \<Rightarrow> (Inr (Inr u), rg2, j2))"
    obtain x rg3 j3 where s: "step = (x, rg3, j3)" by (cases step)
    have st: "executions_ok (tbl j3) \<and> (x = Inr (Inr ()) \<longrightarrow>
       (\<exists>y. select_execution rid (tbl j3) = Some y \<and> closes_row y (fq_exit_code q) (fq_state q))) \<and>
       (\<forall>resp sm. x = Inl resp \<longrightarrow> hr_body resp \<noteq> SummaryBody sm)"
    proof (cases z)
      case (Inl e)
      then have "finish_again (xv_state c) q r e rg2 j2 = (x, rg3, j3)" using s by (simp add: step_def)
      from finish_again_recorded [OF this ok2] row show ?thesis unfolding keep(1) by blast
    next
      case (Inr u)
      with s f ok ok2 finish_answered [of r rg j1 u rg2 j2] keep row show ?thesis by (auto simp: step_def)
    qed
    obtain w j4 where g3: "get_execution rid j3 = (w, j4)" by (cases "get_execution rid j3")
    have ok3: "executions_ok (tbl j4)" using st get_execution_reads(1) [OF g3] by simp
    have res: "(resp, rg', j') = (case x of Inl resp \<Rightarrow> (resp, rg3, j3) | Inr (Inl e) \<Rightarrow> (finish_status e, rg3, j3)
       | Inr (Inr u) \<Rightarrow> (case w of Inl e \<Rightarrow> (http_error ''execution read failed'' 500, rg3, j4)
          | Inr stored \<Rightarrow> (\<lparr>hr_status = 200, hr_body = SummaryBody (execution_summary_of stored)\<rparr>, rg3, j4)))"
      using assms(1) True g v r f s g3 unfolding finish_run_def step_def by (cases x) (auto split: sum.splits)
    show ?thesis
    proof (cases "\<exists>stored. x = Inr (Inr ()) \<and> w = Inr stored")
      case False
      with res st ok3 show ?thesis by (auto simp: finish_status_def http_error_def split: sum.splits if_splits)
    next
      case True
      then obtain stored where sd: "x = Inr (Inr ())" "w = Inr stored" by blast
      with get_execution_reads(2) [OF g3] obtain y where "select_execution rid (tbl j3) = Some y" "stored = scan_execution y" by blast
      with res st sd ok3 get_execution_reads(1) [OF g3] show ?thesis by auto
    qed
  qed
qed (use assms in \<open>auto simp: finish_run_def http_error_def split: if_splits\<close>)

lemma finish_run_blocked_refuses:
  assumes "faults j = []" "select_execution rid (tbl j) = Some x" "ex_state x = StateBlocked"
    "runner_terminal_state (fq_state q)" "fq_term_status q = term_name TerminationNotRequired"
  shows "finish_run now q rid rg j = (http_error ''invalid termination result'' 400, rg, j)"
proof -
  have "valid_termination_status (term_name TerminationNotRequired)"
    by (simp add: valid_termination_status_def parse_term_def all_terms_def)
  with assms get_execution_found [OF assms(1,2)] show ?thesis
    by (simp add: finish_run_def finish_result_def blocked_finish_result_def)
qed

end
