(* ===== verification/Runner.thy ===== *)
theory Runner
  imports Exec_Http
begin

text \<open>
  The runner (\<open>internal/runner\<close>): the environment of the supervised child, the select loop that
  watches the child, the signal stream, the deadline and the core, the report it makes when the
  child has stopped, and the parser of the signal stream. Channels that become ready are the events
  of a list, in the order the loop selects them. Starting, waiting for and terminating the process
  are the operating system's: parameters.
\<close>

section \<open>Specifications\<close>

record process_result =
  ps_exit_code :: int
  ps_failed :: bool

record run_spec =
  sp_command :: "string list"
  sp_env :: "(string \<times> string) list"
  sp_provider_env :: "string list"
  sp_run_id :: string
  sp_gateway_url :: string
  sp_deadline :: int

section \<open>The environment of the child\<close>

definition credential_env_key :: "string \<Rightarrow> bool" where
  "credential_env_key key = (let upper = to_upper key in
     list_ex (contains upper) [''TOKEN'', ''SECRET'', ''PASSWORD'', ''CREDENTIAL''] \<or>
     has_suffix upper ''_KEY'' \<or> contains upper ''_KEY_'' \<or> upper = ''KEY'')"

definition reserved_child_env_key :: "string \<Rightarrow> bool" where
  "reserved_child_env_key key \<longleftrightarrow> to_upper key \<in> set [''VIRGIL_RUN_ID'', ''VIRGIL_GATEWAY_URL'', ''OPENAI_BASE_URL'',
     ''OPENAI_API_BASE'', ''ANTHROPIC_BASE_URL'', ''ANTHROPIC_AUTH_TOKEN'']"

definition env_key :: "string \<Rightarrow> string" where
  "env_key kv = fst (cut (CHR ''='') kv)"

definition inherited_env :: "run_spec \<Rightarrow> string list \<Rightarrow> string list" where
  "inherited_env spec raw = filter (\<lambda>kv. \<not> (credential_env_key (env_key kv) \<or>
     list_ex (equal_fold (env_key kv)) (sp_provider_env spec))) raw"

text \<open>\<open>raw\<close> is \<open>os.Environ()\<close>; \<open>entries\<close> are the entries of \<open>spec.Env\<close> in the order the map is ranged over.\<close>

definition child_environment :: "string list \<Rightarrow> (string \<times> string) list \<Rightarrow> run_spec \<Rightarrow> string \<Rightarrow> string list" where
  "child_environment raw entries spec run_id = inherited_env spec raw @ [''VIRGIL_RUN_ID='' @ run_id] @
     (if sp_gateway_url spec \<noteq> []
      then [''VIRGIL_GATEWAY_URL='' @ sp_gateway_url spec, ''OPENAI_BASE_URL='' @ sp_gateway_url spec @ ''/v1'',
            ''OPENAI_API_BASE='' @ sp_gateway_url spec @ ''/v1'', ''ANTHROPIC_BASE_URL='' @ sp_gateway_url spec]
      else []) @ map (\<lambda>(k, v). k @ ''='' @ v) entries"

text \<open>\<open>os/exec\<close> hands the child the last value of a duplicated key.\<close>

definition env_value :: "string \<Rightarrow> string list \<Rightarrow> string option" where
  "env_value k env = map_of (rev (map (\<lambda>kv. (env_key kv, fst (snd (cut (CHR ''='') kv)))) env)) k"

text \<open>\<open>Start\<close> up to the call of the operating system: the command line and the environment.\<close>

definition start_child :: "goerr option \<Rightarrow> string option \<Rightarrow> string list \<Rightarrow> (string \<times> string) list \<Rightarrow> run_spec \<Rightarrow>
    (string list \<times> string list) res" where
  "start_child ctx raw_id raw entries spec = (case ctx of Some e \<Rightarrow> Inl e | None \<Rightarrow>
     if sp_command spec = [] then Inl (Errorf ''runner: command is required'')
     else rbind (if sp_run_id spec = [] then rbind (new_id raw_id) (\<lambda>i. Inr (''run_'' @ i)) else Inr (sp_run_id spec)) (\<lambda>rid.
       Inr (sp_command spec, child_environment raw entries spec rid)))"

text \<open>A Go map with string keys, written to: \<open>m[k] = v\<close>.\<close>

definition map_put :: "string \<Rightarrow> string \<Rightarrow> (string \<times> string) list \<Rightarrow> (string \<times> string) list" where
  "map_put k v m = filter (\<lambda>r. fst r \<noteq> k) m @ [(k, v)]"

definition supervised_spec :: "run_spec \<Rightarrow> registration \<Rightarrow> run_spec" where
  "supervised_spec spec reg = spec\<lparr>sp_run_id := rn_run_id reg,
     sp_env := map_put ''ANTHROPIC_AUTH_TOKEN'' (rn_run_token reg) (map_put ''VIRGIL_RUN_TOKEN'' (rn_run_token reg)
       (map_put ''OPENAI_API_KEY'' (rn_run_token reg) (sp_env spec)))\<rparr>"

section \<open>Run\<close>

text \<open>The unsupervised runner (\<open>runner.go\<close>): what its select picks first decides.\<close>

datatype stop_reason = StopNone | StopDeadline | StopPolicyBlock | StopContext

datatype run_event = RunExited process_result | TimerFired | PolicyStopped | RunCancelled

record run_result =
  ro_run_id :: string
  ro_exit_code :: int
  ro_stopped :: stop_reason

definition supervise_run :: "string \<Rightarrow> run_event \<Rightarrow> goerr option \<Rightarrow> process_result \<Rightarrow> run_result \<times> goerr option" where
  "supervise_run rid ev term_err waited = (case ev of
     RunExited p \<Rightarrow> (\<lparr>ro_run_id = rid, ro_exit_code = ps_exit_code p, ro_stopped = StopNone\<rparr>, None)
   | _ \<Rightarrow> (let why = (case ev of TimerFired \<Rightarrow> StopDeadline | PolicyStopped \<Rightarrow> StopPolicyBlock | _ \<Rightarrow> StopContext) in
       case term_err of
         Some e \<Rightarrow> (\<lparr>ro_run_id = rid, ro_exit_code = - 1, ro_stopped = why\<rparr>, Some e)
       | None \<Rightarrow> (\<lparr>ro_run_id = rid, ro_exit_code = ps_exit_code waited, ro_stopped = why\<rparr>, None)))"

definition run_child :: "string option \<Rightarrow> (run_spec \<Rightarrow> goerr option) \<Rightarrow> run_event \<Rightarrow> goerr option \<Rightarrow> process_result \<Rightarrow> run_spec \<Rightarrow>
    run_result option \<times> goerr option" where
  "run_child raw_id start ev term_err waited spec =
     (case (if sp_run_id spec = [] then rbind (new_id raw_id) (\<lambda>i. Inr (''run_'' @ i)) else Inr (sp_run_id spec)) of
        Inl e \<Rightarrow> (None, Some e)
      | Inr rid \<Rightarrow> (let none = \<lparr>ro_run_id = rid, ro_exit_code = 0, ro_stopped = StopNone\<rparr> in
          if sp_command spec = [] then (Some none, None)
          else (case start (spec\<lparr>sp_run_id := rid\<rparr>) of Some e \<Rightarrow> (Some none, Some e)
            | None \<Rightarrow> (case supervise_run rid ev term_err waited of (r, e) \<Rightarrow> (Some r, e)))))"

section \<open>The supervision loop\<close>

text \<open>\<open>MarkDone\<close> carries the error of \<open>MarkRunning\<close> and whether the context and the deadline are ready
  when it is handled.\<close>

datatype supervisor_event =
    ProcessDone process_result
  | SignalReceived "policy_block_notice option"
  | SignalFailure
  | DeadlineReached
  | ContextEnded
  | MarkDone "goerr option" bool bool

record supervision =
  sv_report :: finish_request
  sv_process :: "process_result option"
  sv_mark_pending :: bool
  sv_error :: "goerr option"

definition first_report :: finish_request where
  "first_report = \<lparr>fq_state = [], fq_exit_code = - 1, fq_stop_reason = [],
     fq_term_status = term_name TerminationNotRequired, fq_term_code = []\<rparr>"

definition start_supervision :: supervision where
  "start_supervision = \<lparr>sv_report = first_report, sv_process = None, sv_mark_pending = True, sv_error = None\<rparr>"

definition exited :: "process_result \<Rightarrow> finish_request \<Rightarrow> finish_request" where
  "exited p r = r\<lparr>fq_exit_code := ps_exit_code p,
     fq_state := (if ps_exit_code p = 0 \<and> \<not> ps_failed p then state_name StateCompleted else state_name StateFailed)\<rparr>"

definition stop_for :: "exec_state \<Rightarrow> string \<Rightarrow> supervision \<Rightarrow> supervision" where
  "stop_for state reason s = s\<lparr>sv_report := (sv_report s)\<lparr>fq_state := state_name state, fq_stop_reason := reason\<rparr>\<rparr>"

definition control_loss_state :: "bool \<Rightarrow> exec_state" where
  "control_loss_state pending = (if pending then StateFailed else StateGatewayFailed)"

fun handle_event :: "supervisor_event \<Rightarrow> supervision \<Rightarrow> supervision" where
  "handle_event (ProcessDone p) s =
     (if sv_process s \<noteq> None then s
      else if \<not> sv_mark_pending s then s\<lparr>sv_process := Some p, sv_report := exited p (sv_report s)\<rparr>
      else s\<lparr>sv_process := Some p\<rparr>)"
| "handle_event (SignalReceived n) s = (case n of
       Some _ \<Rightarrow> stop_for StateFailed ''policy_block'' s
     | None \<Rightarrow> stop_for (control_loss_state (sv_mark_pending s)) ''signal_lost'' s)"
| "handle_event SignalFailure s = stop_for (control_loss_state (sv_mark_pending s)) ''signal_lost'' s"
| "handle_event DeadlineReached s = stop_for (if sv_mark_pending s then StateFailed else StateDeadline) ''deadline'' s"
| "handle_event ContextEnded s = stop_for (if sv_mark_pending s then StateFailed else StateInterrupted) ''interrupted'' s"
| "handle_event (MarkDone e cancelled late) s =
     (if \<not> sv_mark_pending s then s else
      let s1 = s\<lparr>sv_mark_pending := False\<rparr> in
      case e of
        Some err \<Rightarrow>
          (let s2 = (stop_for StateFailed ''control_unavailable'' s1)\<lparr>sv_error := Some (Wrapf ''mark execution running'' err)\<rparr>;
               s3 = (if cancelled then (stop_for StateFailed ''interrupted'' s2)\<lparr>sv_error := None\<rparr> else s2) in
           if late then (stop_for StateFailed ''deadline'' s3)\<lparr>sv_error := None\<rparr> else s3)
      | None \<Rightarrow> (case sv_process s1 of None \<Rightarrow> s1
          | Some p \<Rightarrow> s1\<lparr>sv_report := exited p (sv_report s1)\<rparr>))"

text \<open>The loop ends when the report has a state; \<open>None\<close> when the events run out before.\<close>

fun supervise_loop :: "supervisor_event list \<Rightarrow> supervision \<Rightarrow> supervision option" where
  "supervise_loop es s = (if fq_state (sv_report s) \<noteq> [] then Some s
     else (case es of [] \<Rightarrow> None | e # rest \<Rightarrow> supervise_loop rest (handle_event e s)))"

declare supervise_loop.simps [simp del]

section \<open>The report\<close>

text \<open>\<open>term_err\<close> is the error of \<open>proc.Terminate\<close>, \<open>waited\<close> the result of the wait after it.\<close>

definition stop_child :: "goerr option \<Rightarrow> process_result \<Rightarrow> supervision \<Rightarrow> supervision" where
  "stop_child term_err waited s =
     (if fq_stop_reason (sv_report s) = [] then s
      else (case (if sv_process s = None then term_err else None) of
          Some err \<Rightarrow> s\<lparr>sv_report := (sv_report s)\<lparr>fq_state := state_name StateTerminationFailed,
              fq_term_status := term_name TerminationFailed, fq_term_code := ''process_termination_failed''\<rparr>,
            sv_error := Some (case sv_error s of None \<Rightarrow> Wrapf ''terminate child process'' err
              | Some e \<Rightarrow> Joined e (Wrapf ''terminate child process'' err))\<rparr>
        | None \<Rightarrow> s\<lparr>sv_report := (sv_report s)\<lparr>fq_term_status := term_name TerminationSucceeded,
            fq_exit_code := ps_exit_code (case sv_process s of Some p \<Rightarrow> p | None \<Rightarrow> waited)\<rparr>\<rparr>))"

text \<open>An error of the control client: a status other than the expected one, or any other.\<close>

datatype control_error = StatusError nat | OtherControlError goerr

definition finish_with_retry ::
  "(finish_request \<Rightarrow> 'w \<Rightarrow> (control_error + execution_summary) \<times> 'w) \<Rightarrow> supervision \<Rightarrow> 'w \<Rightarrow>
   (control_error + execution_summary) \<times> 'w" where
  "finish_with_retry send s w = (case send (sv_report s) w of
     (Inl (StatusError status), w1) \<Rightarrow>
       (if fq_term_status (sv_report s) = term_name TerminationNotRequired \<and> sv_process s \<noteq> None \<and> status = 400
        then send ((sv_report s)\<lparr>fq_term_status := term_name TerminationSucceeded, fq_stop_reason := ''policy_block''\<rparr>) w1
        else (Inl (StatusError status), w1))
   | r \<Rightarrow> r)"

section \<open>Supervise\<close>

record 'w control_client =
  cl_register :: "string \<Rightarrow> 'w \<Rightarrow> registration res \<times> 'w"
  cl_signals :: "registration \<Rightarrow> 'w \<Rightarrow> goerr option \<times> 'w"
  cl_finish :: "string \<Rightarrow> finish_request \<Rightarrow> 'w \<Rightarrow> (control_error + execution_summary) \<times> 'w"

definition control_error_of :: "control_error \<Rightarrow> goerr" where
  "control_error_of e = (case e of StatusError n \<Rightarrow> Errorf ''local core returned status'' | OtherControlError err \<Rightarrow> err)"

definition join_finish :: "goerr \<Rightarrow> (control_error + execution_summary) \<Rightarrow> goerr" where
  "join_finish e r = (case r of Inl f \<Rightarrow> Joined e (control_error_of f) | Inr _ \<Rightarrow> e)"

text \<open>\<open>start\<close> starts the child with its specification, \<open>meanwhile\<close> is what the core and the gateway do
  while the child runs. \<open>None\<close>: the loop still waits.\<close>

definition supervise ::
  "'w control_client \<Rightarrow> (run_spec \<Rightarrow> goerr option) \<Rightarrow> supervisor_event list \<Rightarrow> goerr option \<Rightarrow> process_result \<Rightarrow>
   ('w \<Rightarrow> 'w) \<Rightarrow> run_spec \<Rightarrow> 'w \<Rightarrow> ((execution_summary option \<times> goerr option) \<times> 'w) option" where
  "supervise cl start events term_err waited meanwhile spec w =
     (if sp_command spec = [] then Some ((None, Some (Errorf ''child command is required'')), w)
      else if \<exists>r \<in> set (sp_env spec). reserved_child_env_key (fst r)
        then Some ((None, Some (Errorf ''child environment cannot set protected variable'')), w)
      else (case cl_register cl (sp_run_id spec) w of
        (Inl e, w1) \<Rightarrow> Some ((None, Some (Wrapf ''register execution'' e)), w1)
      | (Inr reg, w1) \<Rightarrow> (case cl_signals cl reg w1 of
          (Some e, w2) \<Rightarrow> (case cl_finish cl (rn_run_id reg) (first_report\<lparr>fq_state := state_name StateFailed,
                fq_stop_reason := ''signal_unavailable''\<rparr>) w2 of
              (f, w3) \<Rightarrow> Some ((None, Some (join_finish (Wrapf ''open signal stream'' e) f)), w3))
        | (None, w2) \<Rightarrow> (case start (supervised_spec spec reg) of
            Some e \<Rightarrow> (case cl_finish cl (rn_run_id reg) (first_report\<lparr>fq_state := state_name StateFailed,
                  fq_stop_reason := ''start_failed''\<rparr>) w2 of
                (f, w3) \<Rightarrow> Some ((None, Some (join_finish (Wrapf ''start child'' e) f)), w3))
          | None \<Rightarrow> (case supervise_loop events start_supervision of
              None \<Rightarrow> None
            | Some s \<Rightarrow> (let s1 = stop_child term_err waited s in
                case finish_with_retry (cl_finish cl (rn_run_id reg)) s1 (meanwhile w2) of
                  (Inr summary, w3) \<Rightarrow> Some ((Some summary, sv_error s1), w3)
                | (Inl f, w3) \<Rightarrow> Some ((None, Some (case sv_error s1 of
                      None \<Rightarrow> Wrapf ''finish execution'' (control_error_of f)
                    | Some e \<Rightarrow> Joined e (Wrapf ''finish execution'' (control_error_of f)))), w3)))))))"

section \<open>The signal stream, read\<close>

datatype line_error = EndOfStream | LineTooLong | MalformedLine | DuplicateEvent | DuplicateData | UnknownField

text \<open>The scanner over the stream. Its tokens are those of \<open>bufio.ScanLines\<close>: lines without their end, a
  trailing carriage return dropped; no token after a final newline. Its buffer holds \<open>max_signal_line\<close>
  bytes: a line that fills it before its end is seen stops the scanner with \<open>bufio.ErrTooLong\<close>. The result is the
  lines it delivers and how it ends after them.\<close>

definition max_signal_line :: nat where
  "max_signal_line = 16384"

definition drop_cr :: "string \<Rightarrow> string" where
  "drop_cr l = (if l \<noteq> [] \<and> last l = CHR 0x0D then butlast l else l)"

definition scan_lines :: "string \<Rightarrow> string list \<times> line_error" where
  "scan_lines t = (let ls = split_on newline t; raw = (if last ls = [] then butlast ls else ls);
     fit = takeWhile (\<lambda>l. length l < max_signal_line) raw in
     (map drop_cr fit, if fit = raw then EndOfStream else LineTooLong))"

text \<open>\<open>stop\<close> is how the scanner ends.\<close>

fun read_signal_event :: "line_error \<Rightarrow> string list \<Rightarrow> string \<Rightarrow> string \<Rightarrow> (line_error + (string \<times> string)) \<times> string list" where
  "read_signal_event stop [] event data = (Inl stop, [])"
| "read_signal_event stop (line # rest) event data =
     (if line = [] then (if event = [] \<and> data = [] then read_signal_event stop rest event data else (Inr (event, data), rest))
      else if has_prefix line '':'' then read_signal_event stop rest event data
      else (case cut (CHR '':'') line of (field, v, ok) \<Rightarrow>
        if \<not> ok then (Inl MalformedLine, rest)
        else let val = trim_prefix v '' '' in
          if field = ''event'' then (if event \<noteq> [] then (Inl DuplicateEvent, rest) else read_signal_event stop rest val data)
          else if field = ''data'' then (if data \<noteq> [] then (Inl DuplicateData, rest) else read_signal_event stop rest event val)
          else (Inl UnknownField, rest)))"

text \<open>What the reading goroutine of \<open>Signals\<close> does with the events after \<open>ready\<close>: \<open>unmarshal\<close> stands for
  \<open>json.Unmarshal\<close>.\<close>

datatype stream_output = Delivered_signal policy_block_notice | Stream_failure

fun read_signals :: "nat \<Rightarrow> line_error \<Rightarrow> (string \<Rightarrow> policy_block_notice option) \<Rightarrow> string \<Rightarrow> bool \<Rightarrow> bool \<Rightarrow> string list \<Rightarrow>
    stream_output list" where
  "read_signals 0 stop unmarshal rid cancelled seen lines = []"
| "read_signals (Suc k) stop unmarshal rid cancelled seen lines = (case read_signal_event stop lines [] [] of
     (Inl e, _) \<Rightarrow> (if \<not> cancelled \<and> \<not> seen then [Stream_failure] else [])
   | (Inr (event, data), rest) \<Rightarrow>
       (if event \<noteq> ''circuit_break'' \<or> seen then [Stream_failure]
        else (case unmarshal data of None \<Rightarrow> [Stream_failure]
          | Some n \<Rightarrow> (if pb_run_id n \<noteq> rid then [Stream_failure]
              else Delivered_signal n # read_signals k stop unmarshal rid cancelled True rest))))"

text \<open>\<open>Signals\<close> accepts a stream whose first event is \<open>ready\<close> with no data.\<close>

definition open_signals :: "nat \<Rightarrow> (string \<Rightarrow> policy_block_notice option) \<Rightarrow> string \<Rightarrow> bool \<Rightarrow> string list \<times> line_error \<Rightarrow>
    stream_output list option" where
  "open_signals k unmarshal rid cancelled scanned = (case read_signal_event (snd scanned) (fst scanned) [] [] of
     (Inr (event, data), rest) \<Rightarrow>
       (if event = ''ready'' \<and> data = [] then Some (read_signals k (snd scanned) unmarshal rid cancelled False rest) else None)
   | (Inl _, _) \<Rightarrow> None)"

section \<open>What the loop reports\<close>

definition loop_ok :: "supervision \<Rightarrow> bool" where
  "loop_ok s \<longleftrightarrow> (let q = sv_report s in
     fq_term_status q = term_name TerminationNotRequired \<and> fq_term_code q = [] \<and>
     fq_state q \<in> {[], state_name StateCompleted, state_name StateFailed, state_name StateDeadline,
       state_name StateInterrupted, state_name StateGatewayFailed} \<and>
     (fq_state q = [] \<longrightarrow> fq_stop_reason q = []) \<and>
     (fq_state q \<noteq> [] \<and> fq_stop_reason q = [] \<longrightarrow> sv_process s \<noteq> None))"

text \<open>While the running transition is not known to have succeeded, the only outcome is a failure with a reason.\<close>

definition unmarked :: "supervision \<Rightarrow> bool" where
  "unmarked s \<longleftrightarrow> (let q = sv_report s in
     (fq_state q = [] \<and> sv_mark_pending s) \<or> (fq_state q = state_name StateFailed \<and> fq_stop_reason q \<noteq> []))"

lemma handle_event_ok: "loop_ok s \<Longrightarrow> fq_state (sv_report s) = [] \<Longrightarrow> loop_ok (handle_event e s)"
  by (cases e) (auto simp: loop_ok_def stop_for_def exited_def control_loss_state_def Let_def split: option.split)

lemma handle_event_unmarked:
  "unmarked s \<Longrightarrow> fq_state (sv_report s) = [] \<Longrightarrow> (\<And>c l. e \<noteq> MarkDone None c l) \<Longrightarrow> unmarked (handle_event e s)"
  by (cases e) (auto simp: unmarked_def stop_for_def control_loss_state_def Let_def split: option.split)

lemma supervise_loop_Nil: "supervise_loop [] s = (if fq_state (sv_report s) \<noteq> [] then Some s else None)"
  and supervise_loop_Cons: "supervise_loop (e # es) s =
    (if fq_state (sv_report s) \<noteq> [] then Some s else supervise_loop es (handle_event e s))"
  by (subst supervise_loop.simps, simp)+

text \<open>What every event keeps holds of the state the loop ends in.\<close>

lemma supervise_loop_keeps:
  assumes "supervise_loop es s = Some s'" "P s"
    and "\<And>e t. e \<in> set es \<Longrightarrow> P t \<Longrightarrow> fq_state (sv_report t) = [] \<Longrightarrow> P (handle_event e t)"
  shows "P s' \<and> fq_state (sv_report s') \<noteq> []"
  using assms
proof (induction es arbitrary: s)
  case Nil
  then show ?case by (simp add: supervise_loop_Nil split: if_splits)
next
  case (Cons e es)
  show ?case
  proof (cases "fq_state (sv_report s) = []")
    case True
    with Cons.prems(1) have "supervise_loop es (handle_event e s) = Some s'" by (simp add: supervise_loop_Cons)
    moreover have "P (handle_event e s)" by (rule Cons.prems(3) [OF _ Cons.prems(2) True]) simp
    moreover have "P (handle_event e' t)" if "e' \<in> set es" "P t" "fq_state (sv_report t) = []" for e' t
      by (rule Cons.prems(3) [OF _ that(2,3)]) (simp add: that(1))
    ultimately show ?thesis by (rule Cons.IH)
  next
    case False
    with Cons.prems(1,2) show ?thesis by (simp add: supervise_loop_Cons)
  qed
qed

lemma supervise_loop_ok:
  "supervise_loop es s = Some s' \<Longrightarrow> loop_ok s \<Longrightarrow> loop_ok s' \<and> fq_state (sv_report s') \<noteq> []"
  by (rule supervise_loop_keeps) (auto intro: handle_event_ok)

lemma supervise_loop_unmarked:
  assumes "supervise_loop es s = Some s'" "unmarked s" "\<forall>c l. MarkDone None c l \<notin> set es"
  shows "unmarked s'"
proof -
  have "unmarked (handle_event e t)" if "e \<in> set es" "unmarked t" "fq_state (sv_report t) = []" for e t
  proof (rule handle_event_unmarked [OF that(2,3)])
    fix c l
    have "MarkDone None c l \<notin> set es" using assms(3) by blast
    with that(1) show "e \<noteq> MarkDone None c l" by metis
  qed
  then have "unmarked s' \<and> fq_state (sv_report s') \<noteq> []"
    by (rule supervise_loop_keeps [where P = unmarked, OF assms(1,2)])
  then show ?thesis ..
qed

lemma start_supervision_ok: "loop_ok start_supervision" "unmarked start_supervision"
  by (simp_all add: loop_ok_def unmarked_def start_supervision_def first_report_def)

text \<open>The report that is sent, against the row it meets.\<close>

lemma report_acceptable:
  fixes term_err :: "goerr option" and waited :: process_result
  assumes loop: "supervise_loop events start_supervision = Some s" and x: "\<not> is_final x"
    and mark: "ex_state x = StateStarting \<Longrightarrow> \<forall>c l. MarkDone None c l \<notin> set events"
  defines "s1 \<equiv> stop_child term_err waited s"
  shows "acceptable x (sv_report s1) \<or>
    ex_state x = StateBlocked \<and> fq_term_status (sv_report s1) = term_name TerminationNotRequired \<and> sv_process s1 \<noteq> None \<and>
      runner_terminal_state (fq_state (sv_report s1)) \<and>
      acceptable x ((sv_report s1)\<lparr>fq_term_status := term_name TerminationSucceeded, fq_stop_reason := ''policy_block''\<rparr>)"
proof -
  have ok: "loop_ok s" "fq_state (sv_report s) \<noteq> []"
    using supervise_loop_ok [OF loop start_supervision_ok(1)] by simp_all
  have st: "ex_state x \<in> {StateStarting, StateRunning, StateBlocked}"
    using x by (cases "ex_state x") (simp_all add: is_final_def)
  have start: "fq_state (sv_report s) = state_name StateFailed \<and> fq_stop_reason (sv_report s) \<noteq> []" if "ex_state x = StateStarting"
    using supervise_loop_unmarked [OF loop start_supervision_ok(2) mark [OF that]] ok(2) by (simp add: unmarked_def Let_def)
  have v: "valid_termination_status ''not_required''" "valid_termination_status ''succeeded''" "valid_termination_status ''failed''"
    by code_simp+
  have code: "normalized_termination_code ''process_termination_failed''" by code_simp
  have rt: "runner_terminal_state (fq_state (sv_report s))"
    using ok unfolding loop_ok_def runner_terminal_state_def Let_def by auto
  have nf: "fq_state (sv_report s) \<noteq> state_name StateTerminationFailed"
    using ok unfolding loop_ok_def Let_def by auto
  have rtf: "runner_terminal_state (state_name StateTerminationFailed)" by (simp add: runner_terminal_state_def)
  have t: "fq_term_status (sv_report s) = term_name TerminationNotRequired" "fq_term_code (sv_report s) = []"
    using ok(1) by (simp_all add: loop_ok_def Let_def)
  show ?thesis
  proof (cases "fq_stop_reason (sv_report s) = []")
    case True
    then have s1: "s1 = s" by (simp add: s1_def stop_child_def)
    have p: "sv_process s \<noteq> None" using ok True by (simp add: loop_ok_def Let_def)
    have "ex_state x \<noteq> StateStarting" using start True by blast
    then show ?thesis
      using st rt v t nf p unfolding s1 acceptable_def by (auto simp del: state_name.simps)
  next
    case False
    show ?thesis
    proof (cases "if sv_process s = None then term_err else None")
      case None
      with False have "sv_report s1 = (sv_report s)\<lparr>fq_term_status := term_name TerminationSucceeded,
            fq_exit_code := ps_exit_code (case sv_process s of Some p \<Rightarrow> p | None \<Rightarrow> waited)\<rparr>"
        by (simp add: s1_def stop_child_def)
      then show ?thesis using st rt v t nf start unfolding acceptable_def by (auto simp del: state_name.simps)
    next
      case (Some err)
      with False have "sv_report s1 = (sv_report s)\<lparr>fq_state := state_name StateTerminationFailed,
              fq_term_status := term_name TerminationFailed, fq_term_code := ''process_termination_failed''\<rparr>"
        by (simp add: s1_def stop_child_def)
      then show ?thesis using st rtf v code unfolding acceptable_def by (auto simp del: state_name.simps)
    qed
  qed
qed

section \<open>The runner against the core\<close>

text \<open>\<open>ControlClient.Register\<close> over the handler of the core. The request carries the credential of the client.\<close>

definition control_header :: "string \<Rightarrow> string" where
  "control_header cred = ''Bearer '' @ cred"

definition core_register ::
  "(string \<Rightarrow> string) \<Rightarrow> credential \<Rightarrow> time \<Rightarrow> string option \<Rightarrow> string option \<Rightarrow> string option \<Rightarrow> string \<Rightarrow> string \<Rightarrow>
   registry \<times> journal \<Rightarrow> registration res \<times> (registry \<times> journal)" where
  "core_register sha c now raw_id raw_run raw_signal cred rid w =
     (case register_handler sha c now raw_id raw_run raw_signal (control_header cred) \<lparr>bd_first = Inr rid, bd_rest = BodyEnd\<rparr> (fst w) (snd w) of
        (resp, w1) \<Rightarrow>
       (if hr_status resp \<noteq> 201 then Inl (Errorf ''local core returned status'')
        else (case hr_body resp of
            RegistrationBody reg \<Rightarrow>
              (if rn_run_id reg = [] \<or> rn_run_token reg = [] \<or> rn_signal_token reg = [] \<or> rid \<noteq> [] \<and> rn_run_id reg \<noteq> rid
               then Inl (Errorf ''invalid registration from local core'') else Inr reg)
          | _ \<Rightarrow> Inl (Errorf ''invalid local core response'')), w1))"

text \<open>\<open>ControlClient.Signals\<close> up to its return: the stream stays open while the child runs. \<open>lost\<close> is the error of a
  connection or of a first event that is not \<open>ready\<close>, or that comes too late.\<close>

definition core_signals ::
  "(string \<Rightarrow> string) \<Rightarrow> credential \<Rightarrow> goerr option \<Rightarrow> string \<Rightarrow> registration \<Rightarrow> registry \<times> journal \<Rightarrow>
   goerr option \<times> (registry \<times> journal)" where
  "core_signals sha c lost cred reg w =
     (if \<not> authenticate sha c (control_header cred) then (Some (Errorf ''local core signal stream returned status''), w)
      else (case subscribe sha (rn_run_id reg) (rn_signal_token reg) (fst w) of
          (Inl e, rg1) \<Rightarrow> (Some (Errorf ''local core signal stream returned status''), (rg1, snd w))
        | (Inr i, rg1) \<Rightarrow> (lost, (rg1, snd w))))"

text \<open>\<open>ControlClient.Finish\<close> over the handler of the core, both ends speaking for the same run.\<close>

definition core_finish :: "time \<Rightarrow> string \<Rightarrow> finish_request \<Rightarrow> registry \<times> journal \<Rightarrow>
    (control_error + execution_summary) \<times> (registry \<times> journal)" where
  "core_finish now rid q w = (case finish_run now q rid (fst w) (snd w) of (resp, rg, j) \<Rightarrow>
     (if hr_status resp \<noteq> 200 then Inl (StatusError (hr_status resp))
      else (case hr_body resp of
          SummaryBody sm \<Rightarrow> (if sm_run_id sm \<noteq> rid \<or> sm_exit_code sm = None
            then Inl (OtherControlError (Errorf ''invalid execution summary from local core'')) else Inr sm)
        | _ \<Rightarrow> Inl (OtherControlError (Errorf ''invalid local core response''))), (rg, j)))"

text \<open>\<open>Finish\<close> with the credential of the client.\<close>

definition core_report ::
  "(string \<Rightarrow> string) \<Rightarrow> credential \<Rightarrow> time \<Rightarrow> string \<Rightarrow> string \<Rightarrow> finish_request \<Rightarrow> registry \<times> journal \<Rightarrow>
   (control_error + execution_summary) \<times> (registry \<times> journal)" where
  "core_report sha c now cred rid q w =
     (if authenticate sha c (control_header cred) then core_finish now rid q w else (Inl (StatusError 401), w))"

text \<open>The control client with a credential, over a core.\<close>

definition core_client ::
  "(string \<Rightarrow> string) \<Rightarrow> credential \<Rightarrow> time \<Rightarrow> time \<Rightarrow> string option \<Rightarrow> string option \<Rightarrow> string option \<Rightarrow> goerr option \<Rightarrow>
   string \<Rightarrow> (registry \<times> journal) control_client" where
  "core_client sha c started now raw_id raw_run raw_signal lost cred =
     \<lparr>cl_register = core_register sha c started raw_id raw_run raw_signal cred,
      cl_signals = core_signals sha c lost cred,
      cl_finish = core_report sha c now cred\<rparr>"

lemma core_finish_accepts:
  assumes j: "faults j = []" "executions_ok (tbl j)" and rg: "map_ok rg" "map_of (rg_runs rg) rid = Some i"
      "ar_ready (rg_heap rg ! i)" "\<not> ar_finishing (rg_heap rg ! i)"
    and x: "select_execution rid (tbl j) = Some x" "\<not> is_final x" and q: "acceptable x q"
    and n: "rid \<noteq> []" "now \<noteq> zero_time"
  shows "\<exists>sm rg' j' y. core_finish now rid q (rg, j) = (Inr sm, (rg', j')) \<and>
    map_of (rg_runs rg') rid = None \<and> select_execution rid (tbl j') = Some y \<and> is_final y \<and>
    sm = execution_summary_of (scan_execution y) \<and> state_name (ex_state y) = closing_state x q \<and>
    ex_exit_code y = Some (fq_exit_code q) \<and> (ex_state x = StateBlocked \<longrightarrow> same_block x y)"
proof -
  from finish_run_accepts [OF assms] obtain rg' j' y where
    f: "finish_run now q rid rg j = (\<lparr>hr_status = 200, hr_body = SummaryBody (execution_summary_of (scan_execution y))\<rparr>, rg', j')"
    and y: "ex_exit_code y \<noteq> None" "map_of (rg_runs rg') rid = None" "select_execution rid (tbl j') = Some y" "is_final y"
      "state_name (ex_state y) = closing_state x q" "ex_exit_code y = Some (fq_exit_code q)" "ex_state x = StateBlocked \<longrightarrow> same_block x y"
    by blast
  have "ex_run_id y = rid" using y(3) by (auto simp: select_execution_def dest: first_row_Some)
  with f y(1) have "core_finish now rid q (rg, j) = (Inr (execution_summary_of (scan_execution y)), (rg', j'))"
    by (auto simp: core_finish_def execution_summary_of_def scan_execution_def)
  with y show ?thesis by blast
qed

text \<open>Whether the report tells a child that could not be stopped.\<close>

definition not_stopped :: "goerr option \<Rightarrow> supervision \<Rightarrow> bool" where
  "not_stopped term_err s \<longleftrightarrow> fq_stop_reason (sv_report s) \<noteq> [] \<and> sv_process s = None \<and> term_err \<noteq> None"

lemma closing_state_stopped:
  "loop_ok s \<Longrightarrow> closing_state x (sv_report (stop_child term_err waited s)) =
     (if not_stopped term_err s then state_name StateTerminationFailed
      else if ex_state x = StateBlocked then state_name StateBlocked else fq_state (sv_report s))"
  by (cases term_err) (auto simp: closing_state_def stop_child_def not_stopped_def loop_ok_def Let_def)

lemma not_stopped_status:
  "loop_ok s \<Longrightarrow> not_stopped term_err s \<longleftrightarrow> fq_term_status (sv_report (stop_child term_err waited s)) = term_name TerminationFailed"
  by (cases term_err) (auto simp: stop_child_def not_stopped_def loop_ok_def Let_def)

text \<open>C5: A supervised run is always closed. Whatever order the child's exit, the signal stream, the
  deadline, the cancellation and the answer to the running transition are selected in, and whatever
  stopping the child returns, the report that \<open>Supervise\<close> makes is accepted by a core whose database
  works, at the first try or at the retry after a status 400: the execution row becomes final, the
  credentials of the run are revoked, and the row has the exit code of the report. Its state is a failed
  termination when the child had to be stopped and could not be; otherwise a blocked run stays blocked,
  and any other run gets the state the loop ended in. A blocked run keeps its policy decision either
  way. The core must know the run, with a row that is still open and that has left the starting state
  if the running transition succeeded.\<close>

theorem supervised_run_is_closed:
  assumes loop: "supervise_loop events start_supervision = Some s"
    and mark: "ex_state x = StateStarting \<Longrightarrow> \<forall>c l. MarkDone None c l \<notin> set events"
    and x: "select_execution rid (tbl j) = Some x" "\<not> is_final x"
    and j: "faults j = []" "executions_ok (tbl j)"
    and rg: "map_ok rg" "map_of (rg_runs rg) rid = Some i" "ar_ready (rg_heap rg ! i)" "\<not> ar_finishing (rg_heap rg ! i)"
    and n: "rid \<noteq> []" "now \<noteq> zero_time"
  shows "\<exists>sm rg' j' y. finish_with_retry (core_finish now rid) (stop_child term_err waited s) (rg, j) = (Inr sm, (rg', j')) \<and>
    map_of (rg_runs rg') rid = None \<and> select_execution rid (tbl j') = Some y \<and> is_final y \<and>
    sm = execution_summary_of (scan_execution y) \<and>
    ex_exit_code y = Some (fq_exit_code (sv_report (stop_child term_err waited s))) \<and>
    state_name (ex_state y) = (if not_stopped term_err s then state_name StateTerminationFailed
      else if ex_state x = StateBlocked then state_name StateBlocked else fq_state (sv_report s)) \<and>
    (ex_state x = StateBlocked \<longrightarrow> same_block x y)"
proof -
  let ?s = "stop_child term_err waited s"
  let ?again = "(sv_report ?s)\<lparr>fq_term_status := term_name TerminationSucceeded, fq_stop_reason := ''policy_block''\<rparr>"
  have ok: "loop_ok s" using supervise_loop_ok [OF loop start_supervision_ok(1)] by simp
  from report_acceptable [OF loop x(2) mark, of term_err waited]
  consider (first) "acceptable x (sv_report ?s)"
    | (retry) "ex_state x = StateBlocked" "fq_term_status (sv_report ?s) = term_name TerminationNotRequired"
        "sv_process ?s \<noteq> None" "runner_terminal_state (fq_state (sv_report ?s))" "acceptable x ?again"
    by blast
  then show ?thesis
  proof cases
    case first
    from core_finish_accepts [OF j rg x first n] show ?thesis
      unfolding closing_state_stopped [OF ok] by (auto simp: finish_with_retry_def)
  next
    case retry
    have "core_finish now rid (sv_report ?s) (rg, j) = (Inl (StatusError 400), (rg, j))"
      using finish_run_blocked_refuses [OF j(1) x(1) retry(1,4,2), of now rg] by (simp add: core_finish_def http_error_def)
    then have "finish_with_retry (core_finish now rid) ?s (rg, j) = core_finish now rid ?again (rg, j)"
      using retry(2,3) by (simp add: finish_with_retry_def)
    moreover have "\<not> not_stopped term_err s" using not_stopped_status [OF ok, of term_err waited] retry(2) by simp
    moreover have "closing_state x ?again = state_name StateBlocked" using retry(1) by (simp add: closing_state_def)
    moreover have "fq_exit_code ?again = fq_exit_code (sv_report ?s)" by simp
    ultimately show ?thesis using core_finish_accepts [OF j rg x retry(5) n] retry(1) by metis
  qed
qed

text \<open>A run that was blocked while its child exited by itself: refused first, then closed as blocked.\<close>

definition blocked_world :: "registry \<times> journal" where
  "blocked_world = (set_ready 0 claimed_registry, blocked_journal)"

definition exit_events :: "supervisor_event list" where
  "exit_events = [MarkDone None False False, ProcessDone \<lparr>ps_exit_code = 0, ps_failed = False\<rparr>]"

lemma exit_supervised:
  "\<exists>s. supervise_loop exit_events start_supervision = Some s"
  by (simp add: exit_events_def supervise_loop_Cons supervise_loop_Nil start_supervision_def first_report_def exited_def Let_def)

lemma blocked_world_facts:
  "ex_state (the (select_execution ''r'' (tbl blocked_journal))) = StateBlocked"
  "\<not> is_final (the (select_execution ''r'' (tbl blocked_journal)))" "select_execution ''r'' (tbl blocked_journal) \<noteq> None"
  "faults blocked_journal = []" "map_ok (fst blocked_world)" "map_of (rg_runs (fst blocked_world)) ''r'' = Some 0"
  "ar_ready (rg_heap (fst blocked_world) ! 0)" "\<not> ar_finishing (rg_heap (fst blocked_world) ! 0)"
  by code_simp+

lemma supervised_run_is_closed_witness:
  "\<exists>s sm rg' j' y. supervise_loop exit_events start_supervision = Some s \<and>
    finish_with_retry (core_finish 9 ''r'') (stop_child None \<lparr>ps_exit_code = 0, ps_failed = False\<rparr> s) blocked_world = (Inr sm, (rg', j')) \<and>
    map_of (rg_runs rg') ''r'' = None \<and> select_execution ''r'' (tbl j') = Some y \<and>
    ex_state y = StateBlocked \<and> ex_exit_code y = Some (fq_exit_code (sv_report s))"
proof -
  obtain s where s: "supervise_loop exit_events start_supervision = Some s" using exit_supervised ..
  obtain x where x: "select_execution ''r'' (tbl blocked_journal) = Some x" "ex_state x = StateBlocked" "\<not> is_final x"
    using blocked_world_facts(1-3) by auto
  have n: "''r'' \<noteq> []" "9 \<noteq> zero_time" by (simp_all add: zero_time_def)
  have mark: "ex_state x = StateStarting \<Longrightarrow> \<forall>c l. MarkDone None c l \<notin> set exit_events" using x(2) by simp
  have ns: "\<not> not_stopped None s" by (simp add: not_stopped_def)
  have rep: "sv_report s = sv_report (stop_child None \<lparr>ps_exit_code = 0, ps_failed = False\<rparr> s)"
    using s by (auto simp: exit_events_def supervise_loop_Cons supervise_loop_Nil start_supervision_def first_report_def exited_def
      stop_child_def Let_def)
  from ns rep supervised_run_is_closed [OF s mark x(1,3) blocked_world_facts(4) sample_journals_ok(2) blocked_world_facts(5-8) n,
      of None "\<lparr>ps_exit_code = 0, ps_failed = False\<rparr>"] s x(2)
  show ?thesis by (auto simp: blocked_world_def simp del: state_name.simps)
qed


section \<open>What a completed run means\<close>

text \<open>The loop reports a completed run only of a child that exited by itself with zero, after the core
  had confirmed the running transition.\<close>

definition exit_on_record :: "supervisor_event set \<Rightarrow> supervision \<Rightarrow> bool" where
  "exit_on_record es s \<longleftrightarrow> loop_ok s \<and> (\<forall>p. sv_process s = Some p \<longrightarrow> ProcessDone p \<in> es) \<and>
     (\<not> sv_mark_pending s \<and> fq_state (sv_report s) = [] \<longrightarrow> (\<exists>c l. MarkDone None c l \<in> es)) \<and>
     (fq_state (sv_report s) = state_name StateCompleted \<longrightarrow> fq_stop_reason (sv_report s) = [] \<and> (\<exists>c l. MarkDone None c l \<in> es) \<and>
        (\<exists>p. sv_process s = Some p \<and> ps_exit_code p = 0 \<and> \<not> ps_failed p))"

lemma handle_event_records:
  assumes "exit_on_record es s" "fq_state (sv_report s) = []" "e \<in> es"
  shows "exit_on_record es (handle_event e s)"
  using assms handle_event_ok [of s e]
  by (cases e) (auto simp: exit_on_record_def loop_ok_def stop_for_def exited_def control_loss_state_def Let_def split: option.split)

lemma completed_by_exit:
  assumes "supervise_loop events start_supervision = Some s" "fq_state (sv_report s) = state_name StateCompleted"
  shows "\<exists>p. ProcessDone p \<in> set events \<and> ps_exit_code p = 0 \<and> \<not> ps_failed p \<and> (\<exists>c l. MarkDone None c l \<in> set events)"
proof -
  have "exit_on_record (set events) start_supervision"
    by (simp add: exit_on_record_def start_supervision_ok(1)) (simp add: start_supervision_def first_report_def)
  then have "exit_on_record (set events) s"
    using supervise_loop_keeps [where P = "exit_on_record (set events)", OF assms(1)] handle_event_records by blast
  with assms(2) show ?thesis by (auto simp: exit_on_record_def)
qed

lemma stop_child_completed:
  "loop_ok s \<Longrightarrow> fq_state (sv_report (stop_child term_err waited s)) = state_name StateCompleted \<Longrightarrow>
   fq_state (sv_report s) = state_name StateCompleted"
  by (auto simp: stop_child_def split: option.splits if_splits)

text \<open>What the core answers to a report is the row that is on record afterwards.\<close>

lemma core_finish_recorded:
  assumes "core_finish now rid q w = (r, w')" "executions_ok (tbl (snd w))"
  shows "executions_ok (tbl (snd w'))"
    and "r = Inr sm \<Longrightarrow> sm_run_id sm = rid \<and> (\<exists>y. select_execution rid (tbl (snd w')) = Some y \<and>
      sm = execution_summary_of (scan_execution y) \<and> closes_row y (fq_exit_code q) (fq_state q))"
proof -
  obtain resp rg' j' where f: "finish_run now q rid (fst w) (snd w) = (resp, rg', j')" by (cases "finish_run now q rid (fst w) (snd w)")
  note rec = finish_run_recorded [OF f assms(2)]
  have w': "w' = (rg', j')" using assms(1) f by (simp add: core_finish_def)
  with rec show "executions_ok (tbl (snd w'))" by simp
  assume "r = Inr sm"
  then have "hr_body resp = SummaryBody sm" "sm_run_id sm = rid"
    using assms(1) f by (auto simp: core_finish_def split: if_splits control_body_out.splits)
  with rec show "sm_run_id sm = rid \<and> (\<exists>y. select_execution rid (tbl (snd w')) = Some y \<and>
      sm = execution_summary_of (scan_execution y) \<and> closes_row y (fq_exit_code q) (fq_state q))" by (simp add: w')
qed

lemma core_retry_recorded:
  assumes "finish_with_retry (cl_finish (core_client sha c started now raw_id raw_run raw_signal lost cred) rid) s w = (Inr sm, w')"
    and "executions_ok (tbl (snd w))"
  shows "sm_run_id sm = rid \<and> (\<exists>y. select_execution rid (tbl (snd w')) = Some y \<and> sm = execution_summary_of (scan_execution y) \<and>
    closes_row y (fq_exit_code (sv_report s)) (fq_state (sv_report s)))"
proof (cases "authenticate sha c (control_header cred)")
  case True
  then have fin: "cl_finish (core_client sha c started now raw_id raw_run raw_signal lost cred) rid = core_finish now rid"
    by (simp add: core_client_def core_report_def fun_eq_iff)
  obtain r w1 where f: "core_finish now rid (sv_report s) w = (r, w1)" by (cases "core_finish now rid (sv_report s) w")
  have ok: "executions_ok (tbl (snd w1))" using core_finish_recorded(1) [OF f assms(2)] .
  let ?again = "(sv_report s)\<lparr>fq_term_status := term_name TerminationSucceeded, fq_stop_reason := ''policy_block''\<rparr>"
  from assms(1) f consider "r = Inr sm" "w1 = w'" | "core_finish now rid ?again w1 = (Inr sm, w')"
    unfolding fin finish_with_retry_def by (auto split: sum.splits control_error.splits if_splits)
  then show ?thesis
  proof cases
    case 1
    with core_finish_recorded(2) [OF f assms(2)] show ?thesis by simp
  next
    case 2
    from core_finish_recorded(2) [OF this ok] show ?thesis by simp
  qed
next
  case False
  with assms(1) show ?thesis by (simp add: core_client_def core_report_def finish_with_retry_def split: if_splits)
qed

lemma register_keeps:
  "register sha start_execution now raw_id raw_run raw_signal requested rg j = (r, rg', j') \<Longrightarrow> executions_ok (tbl j) \<Longrightarrow> executions_ok (tbl j')"
  by (auto simp: register_def intro: advances_ok dest: start_advances split: prod.splits sum.splits option.splits if_splits)

lemma core_register_keeps:
  assumes "core_register sha c now raw_id raw_run raw_signal cred rid w = (r, w')"
  shows "executions_ok (tbl (snd w)) \<Longrightarrow> executions_ok (tbl (snd w'))" and "r = Inr reg \<Longrightarrow> rid \<noteq> [] \<Longrightarrow> rn_run_id reg = rid"
proof -
  show "r = Inr reg \<Longrightarrow> rid \<noteq> [] \<Longrightarrow> rn_run_id reg = rid"
    using assms by (auto simp: core_register_def split: prod.splits if_splits control_body_out.splits)
  have "executions_ok (tbl (snd (snd (register_handler sha c now raw_id raw_run raw_signal h b rg j))))" if "executions_ok (tbl j)" for h b rg j
    using that register_keeps [OF _ that] by (auto simp: register_handler_def split: sum.split prod.split)
  then show "executions_ok (tbl (snd w)) \<Longrightarrow> executions_ok (tbl (snd w'))"
    using assms by (auto simp: core_register_def split: prod.splits) (metis snd_conv)
qed

lemma core_signals_keeps: "core_signals sha c lost cred reg w = (r, w') \<Longrightarrow> snd w' = snd w"
  by (auto simp: core_signals_def split: prod.splits sum.splits if_splits)

section \<open>The signal stream, end to end\<close>

lemma split_line: "newline \<notin> set l \<Longrightarrow> split_on newline (l @ newline # t) = l # split_on newline t"
  by (induction l) auto

lemma scan_lines_line:
  assumes "newline \<notin> set l"
  shows "length l < max_signal_line \<Longrightarrow> scan_lines (l @ newline # t) = (drop_cr l # fst (scan_lines t), snd (scan_lines t))"
    and "\<not> length l < max_signal_line \<Longrightarrow> scan_lines (l @ newline # t) = ([], LineTooLong)"
  using split_on_nonempty [of newline t] split_line [OF assms] by (simp_all add: scan_lines_def Let_def)

lemma scan_lines_Nil: "scan_lines [] = ([], EndOfStream)"
  by (simp add: scan_lines_def)

definition first_signal :: "stream_input list \<Rightarrow> policy_block_notice option" where
  "first_signal xs = (case dropWhile (\<lambda>x. x = HeartbeatTick) xs of FromChannel (Some n) # _ \<Rightarrow> Some n | _ \<Rightarrow> None)"

lemma heartbeat_lines: "scan_lines (heartbeat_frame @ t) = ('': heartbeat'' # [] # fst (scan_lines t), snd (scan_lines t))"
  using scan_lines_line(1) [of "'': heartbeat''" "newline # t"] scan_lines_line(1) [of "[]" t]
  by (simp add: heartbeat_frame_def newline_def drop_cr_def max_signal_line_def)

lemma ready_lines: "scan_lines (ready_frame @ t) = (''event: ready'' # [] # fst (scan_lines t), snd (scan_lines t))"
  using scan_lines_line(1) [of "''event: ready''" "newline # t"] scan_lines_line(1) [of "[]" t]
  by (simp add: ready_frame_def newline_def drop_cr_def max_signal_line_def)

lemma circuit_break_lines:
  assumes "newline \<notin> set d" "CHR 0x0D \<notin> set d"
  shows "scan_lines (circuit_break_frame d) =
    (if length d + 6 < max_signal_line then ([''event: circuit_break'', ''data: '' @ d, []], EndOfStream)
     else ([''event: circuit_break''], LineTooLong))"
proof -
  have "drop_cr (''data: '' @ d) = ''data: '' @ d"
  proof (cases "d = []")
    case False
    with assms(2) last_in_set [OF False] have "last d \<noteq> CHR 0x0D" by fastforce
    with False show ?thesis by (simp add: drop_cr_def)
  qed (simp add: drop_cr_def)
  moreover have nl: "newline \<notin> set (''data: '' @ d)" using assms(1) by (simp add: newline_def)
  moreover have "length (''data: '' @ d) = length d + 6" by simp
  ultimately show ?thesis
    using scan_lines_line(1) [of "''event: circuit_break''" "''data: '' @ d @ [newline, newline]"]
      scan_lines_line [OF nl, of "[newline]"] scan_lines_line(1) [of "[]" "[]"]
    by (auto simp: circuit_break_frame_def newline_def drop_cr_def scan_lines_Nil max_signal_line_def)
qed

lemma read_heartbeat: "read_signal_event stop ('': heartbeat'' # [] # ls) [] [] = read_signal_event stop ls [] []"
  by (simp add: has_prefix_def)

lemma read_ready: "read_signal_event stop (''event: ready'' # [] # ls) [] [] = (Inr (''ready'', []), ls)"
  by (simp add: has_prefix_def cut_def trim_prefix_def)

text \<open>The next event of what the scanner delivers.\<close>

definition next_event :: "string list \<times> line_error \<Rightarrow> (line_error + (string \<times> string)) \<times> string list" where
  "next_event scanned = read_signal_event (snd scanned) (fst scanned) [] []"

lemma read_circuit_break:
  "d \<noteq> [] \<Longrightarrow> newline \<notin> set d \<Longrightarrow> CHR 0x0D \<notin> set d \<Longrightarrow>
   next_event (scan_lines (circuit_break_frame d)) =
     (if length d + 6 < max_signal_line then Inr (''circuit_break'', d) else Inl LineTooLong, [])"
  unfolding circuit_break_lines by (simp add: next_event_def has_prefix_def cut_def trim_prefix_def)

text \<open>The first event after \<open>ready\<close> is the first signal of the stream, if it fits, or the end.\<close>

lemma read_stream:
  assumes "\<forall>n. first_signal xs = Some n \<longrightarrow> (\<exists>d. marshal n = Some d \<and> d \<noteq> [] \<and> newline \<notin> set d \<and> CHR 0x0D \<notin> set d)"
  shows "next_event (scan_lines (stream_signals marshal xs)) = (case first_signal xs of
      None \<Rightarrow> Inl EndOfStream
    | Some n \<Rightarrow> if length (the (marshal n)) + 6 < max_signal_line then Inr (''circuit_break'', the (marshal n)) else Inl LineTooLong, [])"
  using assms
proof (induction marshal xs rule: stream_signals.induct)
  case (4 marshal n xs)
  then obtain d where "marshal n = Some d" "d \<noteq> []" "newline \<notin> set d" "CHR 0x0D \<notin> set d" by (auto simp: first_signal_def)
  then show ?case by (simp add: first_signal_def read_circuit_break)
next
  case (5 marshal xs)
  then have "first_signal (HeartbeatTick # xs) = first_signal xs" by (simp add: first_signal_def)
  with 5 show ?case by (simp add: next_event_def heartbeat_lines read_heartbeat del: read_signal_event.simps(2))
qed (simp_all add: first_signal_def next_event_def scan_lines_Nil)

text \<open>C7: The circuit breaker's signal survives the wire, up to the size of the reader's buffer. Whatever
  heartbeats the core interleaves, the runner that reads the text the core writes opens the stream. If
  the core took a notice from the channel and its data line is shorter than the 16 KiB the reader
  accepts, exactly that notice, the first, is delivered. If the line is longer, or the stream ends without a notice, no
  notice is delivered and the stream is reported lost, unless the run was cancelled. The JSON encoding of the notice is assumed to be non-empty text without line ends that decodes
  to the same notice, as \<open>encoding/json\<close> documents, and the notice to be the run's.\<close>

theorem signal_stream_roundtrip:
  assumes "\<forall>n. first_signal xs = Some n \<longrightarrow> pb_run_id n = rid \<and>
      (\<exists>d. marshal n = Some d \<and> d \<noteq> [] \<and> newline \<notin> set d \<and> CHR 0x0D \<notin> set d \<and> unmarshal d = Some n)"
  shows "open_signals (Suc (Suc k)) unmarshal rid cancelled (scan_lines (ready_frame @ stream_signals marshal xs)) =
    Some (case first_signal xs of
        Some n \<Rightarrow> if length ''data: '' + length (the (marshal n)) < max_signal_line then [Delivered_signal n]
          else if cancelled then [] else [Stream_failure]
      | None \<Rightarrow> if cancelled then [] else [Stream_failure])"
proof -
  define stop where "stop = snd (scan_lines (stream_signals marshal xs))"
  define ls where "ls = fst (scan_lines (stream_signals marshal xs))"
  have r: "read_signal_event stop ls [] [] = (case first_signal xs of
      None \<Rightarrow> Inl EndOfStream
    | Some n \<Rightarrow> if length (the (marshal n)) + 6 < max_signal_line then Inr (''circuit_break'', the (marshal n)) else Inl LineTooLong, [])"
    using assms read_stream [of xs marshal] unfolding next_event_def stop_def ls_def by blast
  have o: "open_signals (Suc (Suc k)) unmarshal rid cancelled (scan_lines (ready_frame @ stream_signals marshal xs)) =
    Some (read_signals (Suc (Suc k)) stop unmarshal rid cancelled False ls)"
    by (simp add: open_signals_def ready_lines read_ready stop_def ls_def del: read_signal_event.simps(2) read_signals.simps)
  show ?thesis
  proof (cases "first_signal xs")
    case None
    with r show ?thesis unfolding o by simp
  next
    case (Some n)
    with assms obtain d where "marshal n = Some d" "unmarshal d = Some n" "pb_run_id n = rid" by blast
    with r Some show ?thesis unfolding o by simp
  qed
qed

lemma signal_stream_roundtrip_witness:
  "open_signals 2 (\<lambda>_. Some sample_notice) ''r'' False
     (scan_lines (ready_frame @ stream_signals (\<lambda>_. Some ''{}'') [HeartbeatTick, HeartbeatTick, FromChannel (Some sample_notice)])) =
   Some [Delivered_signal sample_notice]"
proof -
  have "first_signal [HeartbeatTick, HeartbeatTick, FromChannel (Some sample_notice)] = Some sample_notice"
    by (simp add: first_signal_def)
  with signal_stream_roundtrip [of "[HeartbeatTick, HeartbeatTick, FromChannel (Some sample_notice)]" "''r''" "\<lambda>_. Some ''{}''"
      "\<lambda>_. Some sample_notice" 0 False]
  show ?thesis by (simp add: sample_notice_def newline_def numeral_2_eq_2 max_signal_line_def)
qed

section \<open>What the child is given\<close>

lemma env_entry:
  assumes "CHR ''='' \<notin> set k"
  shows "env_key (k @ ''='' @ v) = k" "fst (snd (cut (CHR ''='') (k @ ''='' @ v))) = v"
proof -
  have "takeWhile (\<lambda>c. c \<noteq> CHR ''='') (k @ ''='' @ v) = k" "dropWhile (\<lambda>c. c \<noteq> CHR ''='') (k @ ''='' @ v) = CHR ''='' # v"
    using assms by (induction k) auto
  then show "env_key (k @ ''='' @ v) = k" "fst (snd (cut (CHR ''='') (k @ ''='' @ v))) = v" by (simp_all add: env_key_def cut_def)
qed

lemma map_put_mem: "(x, y) \<in> set (map_put k v m) \<longleftrightarrow> (if x = k then y = v else (x, y) \<in> set m)"
  by (auto simp: map_put_def)

lemma env_value_append:
  "env_value k (xs @ ys) = (case env_value k ys of Some v \<Rightarrow> Some v | None \<Rightarrow> env_value k xs)"
  by (simp add: env_value_def map_add_def split: option.split)

lemma map_of_rev_distinct: "distinct (map fst es) \<Longrightarrow> map_of (rev es) = map_of es"
proof (induction es)
  case (Cons e es)
  then have "map_of es (fst e) = None" by (simp add: map_of_eq_None_iff)
  with Cons show ?case by (cases e) (auto simp: map_add_def fun_eq_iff split: option.split)
qed simp

lemma env_value_entries:
  assumes "distinct (map fst es)" "\<forall>(k, v) \<in> set es. CHR ''='' \<notin> set k"
  shows "env_value k (map (\<lambda>(k, v). k @ ''='' @ v) es) = map_of es k"
proof -
  have "map (\<lambda>kv. (env_key kv, fst (snd (cut (CHR ''='') kv)))) (map (\<lambda>(k, v). k @ ''='' @ v) es) = es"
    using assms(2) by (induction es) (auto simp del: append.simps simp: env_entry)
  then show ?thesis using map_of_rev_distinct [OF assms(1)] by (simp add: env_value_def)
qed

lemma env_value_SomeD: "env_value k env = Some v \<Longrightarrow> \<exists>kv \<in> set env. env_key kv = k"
  by (auto simp: env_value_def dest!: map_of_SomeD)

text \<open>The variables of the runner itself, before those of the specification.\<close>

definition own_env :: "run_spec \<Rightarrow> string \<Rightarrow> string list" where
  "own_env spec run_id = [''VIRGIL_RUN_ID='' @ run_id] @
     (if sp_gateway_url spec \<noteq> []
      then [''VIRGIL_GATEWAY_URL='' @ sp_gateway_url spec, ''OPENAI_BASE_URL='' @ sp_gateway_url spec @ ''/v1'',
            ''OPENAI_API_BASE='' @ sp_gateway_url spec @ ''/v1'', ''ANTHROPIC_BASE_URL='' @ sp_gateway_url spec]
      else [])"

lemma own_env_keys:
  "kv \<in> set (own_env spec rid) \<Longrightarrow>
   env_key kv \<in> {''VIRGIL_RUN_ID'', ''VIRGIL_GATEWAY_URL'', ''OPENAI_BASE_URL'', ''OPENAI_API_BASE'', ''ANTHROPIC_BASE_URL''}"
  by (auto simp: own_env_def env_key_def cut_def split: if_splits)

lemma own_env_supervised: "own_env (supervised_spec spec reg) rid = own_env spec rid"
  by (simp add: own_env_def supervised_spec_def)

lemma own_env_run_id: "env_value ''VIRGIL_RUN_ID'' (own_env spec rid) = Some rid"
  by (simp add: own_env_def env_value_def env_key_def cut_def)

lemma own_env_not_credential: "kv \<in> set (own_env spec rid) \<Longrightarrow> \<not> credential_env_key (env_key kv)"
proof -
  have "\<not> credential_env_key ''VIRGIL_RUN_ID''" "\<not> credential_env_key ''VIRGIL_GATEWAY_URL''" "\<not> credential_env_key ''OPENAI_BASE_URL''"
    "\<not> credential_env_key ''OPENAI_API_BASE''" "\<not> credential_env_key ''ANTHROPIC_BASE_URL''" by code_simp+
  then show "kv \<in> set (own_env spec rid) \<Longrightarrow> \<not> credential_env_key (env_key kv)" using own_env_keys by fastforce
qed

lemma child_environment_value:
  assumes "distinct (map fst es)" "\<forall>(k, v) \<in> set es. CHR ''='' \<notin> set k"
  shows "env_value k (child_environment raw es spec rid) = (case map_of es k of Some v \<Rightarrow> Some v
    | None \<Rightarrow> env_value k (inherited_env spec raw @ own_env spec rid))"
proof -
  have "child_environment raw es spec rid = (inherited_env spec raw @ own_env spec rid) @ map (\<lambda>(k, v). k @ ''='' @ v) es"
    by (simp add: child_environment_def own_env_def)
  then show ?thesis using env_value_append env_value_entries [OF assms, of k] by metis
qed

text \<open>What the child must not inherit: variables that look like credentials, and those the configuration names
  for the keys of the providers, in any case of letters.\<close>

definition withheld_key :: "run_spec \<Rightarrow> string \<Rightarrow> bool" where
  "withheld_key spec k \<longleftrightarrow> credential_env_key k \<or> (\<exists>p \<in> set (sp_provider_env spec). equal_fold k p)"

lemma inherited_not_withheld: "kv \<in> set (inherited_env spec raw) \<Longrightarrow> \<not> withheld_key spec (env_key kv)"
  by (auto simp: inherited_env_def withheld_key_def list_ex_iff)

text \<open>C8: The supervised child is given its run's token as the key of every provider client it may use,
  learns its run's id, and inherits no credential of the core's environment. The value of a variable whose name
  looks like a credential is such a token or was put into the specification on purpose; the value of a variable
  that the configuration names as the key of a provider is one of these, or the value the runner itself sets for
  its own variables (the run's id and the gateway's addresses), never the inherited one. The names in the specification
  hold no equals sign and none is reserved, which \<open>Supervise\<close> checks before it starts the child.\<close>

theorem supervised_child_sees_run_token:
  assumes start: "start_child None raw_id raw entries (supervised_spec spec reg) = Inr (cmd, env)" "rn_run_id reg \<noteq> []"
    and es: "distinct (map fst entries)" "set entries = set (sp_env (supervised_spec spec reg))"
    and ok: "\<forall>(k, v) \<in> set (sp_env spec). CHR ''='' \<notin> set k \<and> \<not> reserved_child_env_key k"
  shows "(\<forall>k \<in> {''OPENAI_API_KEY'', ''VIRGIL_RUN_TOKEN'', ''ANTHROPIC_AUTH_TOKEN''}. env_value k env = Some (rn_run_token reg)) \<and>
    env_value ''VIRGIL_RUN_ID'' env = Some (rn_run_id reg) \<and>
    (\<forall>k v. credential_env_key k \<and> env_value k env = Some v \<longrightarrow> v = rn_run_token reg \<or> (k, v) \<in> set (sp_env spec)) \<and>
    (\<forall>k v. (\<exists>p \<in> set (sp_provider_env spec). equal_fold k p) \<and> env_value k env = Some v \<longrightarrow>
       v = rn_run_token reg \<or> (k, v) \<in> set (sp_env spec) \<or> env_value k (own_env spec (rn_run_id reg)) = Some v)"
proof -
  let ?t = "{''OPENAI_API_KEY'', ''VIRGIL_RUN_TOKEN'', ''ANTHROPIC_AUTH_TOKEN''}"
  have mem: "(k, v) \<in> set entries \<longleftrightarrow> (if k \<in> ?t then v = rn_run_token reg else (k, v) \<in> set (sp_env spec))" for k v
    by (simp add: es(2) supervised_spec_def map_put_mem)
  have eq: "\<forall>(k, v) \<in> set entries. CHR ''='' \<notin> set k"
  proof (clarify)
    fix k v assume "(k, v) \<in> set entries" "CHR ''='' \<in> set k"
    then show False using mem [of k v] ok by (auto split: if_splits)
  qed
  have env: "env = child_environment raw entries (supervised_spec spec reg) (rn_run_id reg)"
    using start by (auto simp: start_child_def supervised_spec_def split: if_splits)
  note val = child_environment_value [OF es(1) eq, of _ raw "supervised_spec spec reg" "rn_run_id reg", folded env]
  have "env_value k env = Some (rn_run_token reg)" if "k \<in> ?t" for k
  proof -
    have "map_of entries k = Some (rn_run_token reg)" using mem [of k "rn_run_token reg"] that es(1) by simp
    then show ?thesis by (simp add: val)
  qed
  moreover have "map_of entries ''VIRGIL_RUN_ID'' = None"
  proof (rule ccontr)
    assume "map_of entries ''VIRGIL_RUN_ID'' \<noteq> None"
    then obtain v where "(''VIRGIL_RUN_ID'', v) \<in> set (sp_env spec)" using mem by (fastforce dest: map_of_SomeD)
    with ok have "\<not> reserved_child_env_key ''VIRGIL_RUN_ID''" by blast
    moreover have "reserved_child_env_key ''VIRGIL_RUN_ID''" by code_simp
    ultimately show False by simp
  qed
  then have "env_value ''VIRGIL_RUN_ID'' env = Some (rn_run_id reg)" by (simp add: val env_value_append own_env_run_id)
  moreover have src: "v = rn_run_token reg \<or> (k, v) \<in> set (sp_env spec) \<or> env_value k (own_env spec (rn_run_id reg)) = Some v"
    if k: "withheld_key spec k" "env_value k env = Some v" for k v
  proof (cases "map_of entries k")
    case None
    have "env_value k (inherited_env (supervised_spec spec reg) raw) = None"
    proof (rule ccontr)
      assume "env_value k (inherited_env (supervised_spec spec reg) raw) \<noteq> None"
      then obtain kv where "kv \<in> set (inherited_env (supervised_spec spec reg) raw)" "env_key kv = k" using env_value_SomeD by blast
      with k(1) inherited_not_withheld show False by (fastforce simp: withheld_key_def supervised_spec_def)
    qed
    with None k(2) show ?thesis by (auto simp: val env_value_append own_env_supervised split: option.splits)
  next
    case (Some u)
    with k(2) have "(k, v) \<in> set entries" by (simp add: val map_of_SomeD)
    with mem show ?thesis by (auto split: if_splits)
  qed
  moreover have "env_value k (own_env spec (rn_run_id reg)) = None" if "credential_env_key k" for k
    using that own_env_not_credential env_value_SomeD [of k "own_env spec (rn_run_id reg)"] by (cases "env_value k (own_env spec (rn_run_id reg))") fastforce+
  ultimately show ?thesis unfolding withheld_key_def by (metis option.distinct(1))
qed

definition sample_registration :: registration where
  "sample_registration = \<lparr>rn_run_id = ''r'', rn_run_token = ''tok'', rn_signal_token = ''sig''\<rparr>"

definition sample_run :: run_spec where
  "sample_run = \<lparr>sp_command = [''agent''], sp_env = [(''OPENAI_API_KEY'', ''mine''), (''DEBUG'', ''1'')], sp_provider_env = [''GROQ''],
     sp_run_id = [], sp_gateway_url = ''http://core'', sp_deadline = 0\<rparr>"

lemma supervised_child_sees_run_token_witness:
  "\<exists>env. start_child None None [''PATH=/bin'', ''AWS_SECRET=s'', ''groq=g''] (sp_env (supervised_spec sample_run sample_registration))
      (supervised_spec sample_run sample_registration) = Inr ([''agent''], env) \<and>
    env_value ''OPENAI_API_KEY'' env = Some ''tok'' \<and> env_value ''VIRGIL_RUN_ID'' env = Some ''r'' \<and> env_value ''groq'' env \<noteq> Some ''g''"
proof -
  let ?s = "supervised_spec sample_run sample_registration" and ?raw = "[''PATH=/bin'', ''AWS_SECRET=s'', ''groq=g'']"
  have st: "start_child None None ?raw (sp_env ?s) ?s = Inr ([''agent''], child_environment ?raw (sp_env ?s) ?s ''r'')"
    by (simp add: start_child_def supervised_spec_def sample_run_def sample_registration_def)
  have "rn_run_id sample_registration \<noteq> []" "distinct (map fst (sp_env ?s))" "set (sp_env ?s) = set (sp_env ?s)"
    "\<forall>(k, v) \<in> set (sp_env sample_run). CHR ''='' \<notin> set k \<and> \<not> reserved_child_env_key k" by code_simp+
  note main = supervised_child_sees_run_token [OF st this]
  have facts: "\<exists>p \<in> set (sp_provider_env sample_run). equal_fold ''groq'' p" "''g'' \<noteq> rn_run_token sample_registration"
    "(''groq'', ''g'') \<notin> set (sp_env sample_run)" "env_value ''groq'' (own_env sample_run (rn_run_id sample_registration)) \<noteq> Some ''g''"
    by code_simp+
  with main have "env_value ''groq'' (child_environment ?raw (sp_env ?s) ?s ''r'') \<noteq> Some ''g''" by blast
  with main st show ?thesis by (simp add: sample_registration_def)
qed

end
