(* ===== verification/Export.thy ===== *)
theory Export
  imports Outbox
begin

text \<open>
  \<open>internal/export\<close>: the JSON lines file of all events, the three loops that drain the outbox of a
  destination, and the spans an OTLP collector is sent. The writer of the file, the collector and the
  control plane are parameters; a drain leaves the queue in the state the answers call for.
\<close>

section \<open>JSON lines\<close>

definition jsonl_page_size :: int where
  "jsonl_page_size = 200"

text \<open>\<open>marshal\<close> is \<open>json.Marshal\<close> of the selected fields; \<open>wr\<close> answers a write after the lines already written.\<close>

fun write_events :: "((string \<rightharpoonup> json) \<Rightarrow> 'l res) \<Rightarrow> ('l list \<Rightarrow> goerr option) \<Rightarrow> string list \<Rightarrow> event list \<Rightarrow> 'l list \<Rightarrow>
    'l list \<times> goerr option" where
  "write_events marshal wr allowed [] out = (out, None)"
| "write_events marshal wr allowed (ev # evs) out =
     (case rbind (for_export ev allowed) marshal of
        Inl e \<Rightarrow> (out, Some e)
      | Inr line \<Rightarrow> (case wr out of Some e \<Rightarrow> (out, Some e)
          | None \<Rightarrow> write_events marshal wr allowed evs (out @ [line])))"

text \<open>The loop over the pages; \<open>None\<close> when the fuel runs out.\<close>

fun jsonl_pages :: "nat \<Rightarrow> ((string \<rightharpoonup> json) \<Rightarrow> 'l res) \<Rightarrow> ('l list \<Rightarrow> goerr option) \<Rightarrow> string list \<Rightarrow> string \<Rightarrow> 'l list \<Rightarrow> journal \<Rightarrow>
    (('l list \<times> goerr option) \<times> journal) option" where
  "jsonl_pages 0 marshal wr allowed cursor out j = None"
| "jsonl_pages (Suc k) marshal wr allowed cursor out j =
     (case list_events cursor jsonl_page_size j of
        (Inl e, j1) \<Rightarrow> Some ((out, Some e), j1)
      | (Inr (events, next), j1) \<Rightarrow> (case write_events marshal wr allowed events out of
          (out1, Some e) \<Rightarrow> Some ((out1, Some e), j1)
        | (out1, None) \<Rightarrow> (if next = [] then Some ((out1, None), j1)
            else jsonl_pages k marshal wr allowed next out1 j1)))"

text \<open>\<open>create\<close> and \<open>flush\<close> are the errors of \<open>os.Create\<close> and of the final \<open>Flush\<close>.\<close>

definition jsonl :: "nat \<Rightarrow> ((string \<rightharpoonup> json) \<Rightarrow> 'l res) \<Rightarrow> goerr option \<Rightarrow> ('l list \<Rightarrow> goerr option) \<Rightarrow> goerr option \<Rightarrow>
    string \<Rightarrow> string list \<Rightarrow> journal \<Rightarrow> (('l list \<times> goerr option) \<times> journal) option" where
  "jsonl fuel marshal create wr flush path allowed j =
     (if path = [] then Some (([], Some (Errorf ''output path is required'')), j)
      else if allowed = [] then Some (([], Some (Errorf ''allowlist is required'')), j)
      else case create of Some e \<Rightarrow> Some (([], Some e), j)
      | None \<Rightarrow> (case jsonl_pages fuel marshal wr allowed [] [] j of
          Some ((out, None), j1) \<Rightarrow> Some ((out, flush), j1)
        | r \<Rightarrow> r))"

section \<open>Draining the outbox\<close>

text \<open>\<open>jitter eid n\<close> is the value the random generator gives the n-th failure of the delivery; errors of
  \<open>Fail\<close> are dropped where the code drops them.\<close>

fun fail_times :: "nat \<Rightarrow> (nat \<Rightarrow> int) \<Rightarrow> string \<Rightarrow> string \<Rightarrow> string \<Rightarrow> time \<Rightarrow> journal \<Rightarrow> journal" where
  "fail_times 0 jitter d eid code now j = j"
| "fail_times (Suc n) jitter d eid code now j =
     fail_times n jitter d eid code now (snd (fail_delivery (jitter n) d eid code now j))"

fun fail_unacked :: "nat \<Rightarrow> (string \<Rightarrow> nat \<Rightarrow> int) \<Rightarrow> string \<Rightarrow> string list \<Rightarrow> string \<Rightarrow> time \<Rightarrow> delivery list \<Rightarrow> journal \<Rightarrow> journal" where
  "fail_unacked n jitter d acked code now [] j = j"
| "fail_unacked n jitter d acked code now (x # ds) j = fail_unacked n jitter d acked code now ds
     (if dl_event_id x \<in> set acked then j else fail_times n (jitter (dl_event_id x)) d (dl_event_id x) code now j)"

definition drain_once :: "(delivery list \<Rightarrow> string list \<Rightarrow> string list \<times> goerr option) \<Rightarrow> (string \<Rightarrow> nat \<Rightarrow> int) \<Rightarrow>
    string \<Rightarrow> string list \<Rightarrow> int \<Rightarrow> time \<Rightarrow> journal \<Rightarrow> (nat \<times> goerr option) \<times> journal" where
  "drain_once send jitter d allowed limit now j = (case lease d limit now j of
     (Inl e, j1) \<Rightarrow> ((0, Some e), j1)
   | (Inr ds, j1) \<Rightarrow> (if ds = [] then ((0, None), j1)
       else (case send ds allowed of (acked, send_err) \<Rightarrow>
         (case (if acked \<noteq> [] then ack d acked j1 else (Inr (), j1)) of
           (Inl e, j2) \<Rightarrow> ((0, Some e), j2)
         | (Inr _, j2) \<Rightarrow> ((length acked, send_err),
             fail_unacked 1 jitter d acked (if send_err \<noteq> None then ''send_error'' else ''send_failed'') now ds j2)))))"

text \<open>The control plane's answer: the identifiers it accepted and the reasons it rejected others for.\<close>

record batch_ack =
  ba_accepted :: "string list"
  ba_rejections :: "(string \<times> string) list"

definition no_ack :: batch_ack where
  "no_ack = \<lparr>ba_accepted = [], ba_rejections = []\<rparr>"

fun settle_deliveries :: "batch_ack \<Rightarrow> goerr option \<Rightarrow> (string \<Rightarrow> int) \<Rightarrow> string \<Rightarrow> time \<Rightarrow> delivery list \<Rightarrow> nat \<Rightarrow> journal \<Rightarrow>
    (nat \<times> goerr option) \<times> journal" where
  "settle_deliveries a send_err jitter d now [] n j = ((n, send_err), j)"
| "settle_deliveries a send_err jitter d now (x # ds) n j =
     (let eid = dl_event_id x in
      if eid \<in> set (ba_accepted a) then (case ack d [eid] j of
          (Inl e, j1) \<Rightarrow> ((n, Some e), j1)
        | (Inr _, j1) \<Rightarrow> settle_deliveries a send_err jitter d now ds (n + 1) j1)
      else if map_of (ba_rejections a) eid = Some ''invalid_event'' then (case dead_letter d eid ''invalid_event'' j of
          (Inl e, j1) \<Rightarrow> ((n, Some e), j1)
        | (Inr _, j1) \<Rightarrow> settle_deliveries a send_err jitter d now ds n j1)
      else (case fail_delivery (jitter eid) d eid (if send_err \<noteq> None then ''send_error'' else ''send_failed'') now j of
          (Inl e, j1) \<Rightarrow> ((n, Some e), j1)
        | (Inr _, j1) \<Rightarrow> settle_deliveries a send_err jitter d now ds n j1))"

text \<open>\<open>send\<close> is \<open>Client.SendBatch\<close> with the client in its state \<open>c\<close>.\<close>

definition drain_control_plane :: "('c \<Rightarrow> delivery list \<Rightarrow> string list \<Rightarrow> (batch_ack \<times> goerr option) \<times> 'c) \<Rightarrow>
    (string \<Rightarrow> int) \<Rightarrow> string \<Rightarrow> string list \<Rightarrow> int \<Rightarrow> time \<Rightarrow> 'c \<Rightarrow> journal \<Rightarrow> (nat \<times> goerr option) \<times> ('c \<times> journal)" where
  "drain_control_plane send jitter d allowed limit now c j =
     (if allowed = [] then ((0, Some (Errorf ''export field allowlist is required'')), (c, j))
      else (case lease d limit now j of
        (Inl e, j1) \<Rightarrow> ((0, Some e), (c, j1))
      | (Inr ds, j1) \<Rightarrow> (if ds = [] then ((0, None), (c, j1))
          else (case send c ds allowed of ((a, send_err), c1) \<Rightarrow>
            (case settle_deliveries a send_err jitter d now ds 0 j1 of (r, j2) \<Rightarrow> (r, (c1, j2)))))))"

section \<open>OTLP\<close>

datatype otlp_error = HttpError nat int | OtherError goerr

definition is_retryable :: "nat \<Rightarrow> bool" where
  "is_retryable status \<longleftrightarrow> status \<in> set [429, 502, 503, 504]"

definition is_permanent :: "nat \<Rightarrow> bool" where
  "is_permanent status \<longleftrightarrow> 400 \<le> status \<and> status < 500 \<and> status \<noteq> 429"

text \<open>\<open>Retry-After\<close> as a number of seconds, or as a time (\<open>http.ParseTime\<close> a parameter).\<close>

definition parse_retry_after :: "(string \<Rightarrow> int option) \<Rightarrow> (string \<Rightarrow> time option) \<Rightarrow> time \<Rightarrow> string \<Rightarrow> int" where
  "parse_retry_after atoi parse_time now header =
     (if header = [] then 0
      else case atoi header of Some secs \<Rightarrow> wrap64 (secs * 1000000000)
      | None \<Rightarrow> (case parse_time header of
          Some t \<Rightarrow> (let d = t - now in if d > 0 then d else 0)
        | None \<Rightarrow> 0))"

text \<open>What the collector answers: no response, or a status with its \<open>Retry-After\<close> delay.\<close>

datatype collector_reply = NoResponse goerr | Status nat int

datatype any_value = StringValue string | IntValue int

record otel_status =
  os_ok :: bool
  os_message :: string

record span =
  sn_trace_id :: "nat list"
  sn_span_id :: "nat list"
  sn_name :: string
  sn_start :: int
  sn_end :: int
  sn_attributes :: "(string \<times> any_value) list"
  sn_status :: "otel_status option"

definition hex_val :: "char \<Rightarrow> nat option" where
  "hex_val c = (if is_digit c then Some (digit_val c)
     else if CHR ''a'' \<le> c \<and> c \<le> CHR ''f'' then Some (of_char c - 87)
     else if CHR ''A'' \<le> c \<and> c \<le> CHR ''F'' then Some (of_char c - 55) else None)"

fun hex_bytes :: "string \<Rightarrow> nat list option" where
  "hex_bytes (a # b # s) = (case (hex_val a, hex_val b, hex_bytes s) of
     (Some x, Some y, Some r) \<Rightarrow> Some ((16 * x + y) # r) | _ \<Rightarrow> None)"
| "hex_bytes _ = Some []"

definition hex_to_bytes :: "string \<Rightarrow> nat \<Rightarrow> nat list option" where
  "hex_to_bytes hex want = (if length hex \<noteq> want * 2 then None else hex_bytes hex)"

text \<open>\<open>uint64\<close> of an \<open>int64\<close>.\<close>

definition to_uint64 :: "int \<Rightarrow> int" where
  "to_uint64 x = x mod 18446744073709551616"

definition may :: "string list \<Rightarrow> string \<Rightarrow> bool" where
  "may allowed field \<longleftrightarrow> field \<in> set allowed \<or> ''*'' \<in> set allowed"

definition add_attr :: "string list \<Rightarrow> string \<Rightarrow> string \<Rightarrow> string \<Rightarrow> (string \<times> any_value) list" where
  "add_attr allowed key field v = (if may allowed field then [(key, StringValue v)] else [])"

definition add_int :: "string list \<Rightarrow> string \<Rightarrow> string \<Rightarrow> int \<Rightarrow> (string \<times> any_value) list" where
  "add_int allowed key field v = (if may allowed field then [(key, IntValue v)] else [])"

definition span_attributes :: "string list \<Rightarrow> event \<Rightarrow> (string \<times> any_value) list" where
  "span_attributes al e =
     add_attr al ''virgil.provider'' ''provider'' (ev_provider e) @
     add_attr al ''virgil.requested_model'' ''requested_model'' (ev_requested_model e) @
     add_attr al ''virgil.response_model'' ''response_model'' (ev_response_model e) @
     add_attr al ''virgil.usage_source'' ''usage_source'' (ev_usage_source e) @
     add_attr al ''virgil.run_id'' ''run_id'' (ev_run_id e) @
     add_attr al ''virgil.installation_id'' ''installation_id'' (ev_installation_id e) @
     add_attr al ''virgil.status'' ''status'' (ev_status e) @
     add_attr al ''virgil.error_code'' ''error_code'' (ev_error_code e) @
     (case ev_input_tokens e of None \<Rightarrow> [] | Some n \<Rightarrow> add_int al ''virgil.input_tokens'' ''input_tokens'' n) @
     (case ev_output_tokens e of None \<Rightarrow> [] | Some n \<Rightarrow> add_int al ''virgil.output_tokens'' ''output_tokens'' n) @
     (case ev_cached_tokens e of None \<Rightarrow> [] | Some n \<Rightarrow> add_int al ''virgil.cached_tokens'' ''cached_tokens'' n) @
     add_int al ''virgil.latency_ms'' ''latency_ms'' (ev_latency_ms e) @
     (case ev_actual_cost e of None \<Rightarrow> [] | Some c \<Rightarrow> add_attr al ''virgil.actual_cost'' ''actual_cost'' c) @
     (case ev_estimated_cost e of None \<Rightarrow> [] | Some c \<Rightarrow> add_attr al ''virgil.estimated_cost'' ''estimated_cost'' c) @
     (if ev_pricing_version e \<noteq> [] then add_attr al ''virgil.pricing_version'' ''pricing_version'' (ev_pricing_version e) else []) @
     (case ev_policy_decision e of None \<Rightarrow> [] | Some p \<Rightarrow>
        if may al ''policy_decision'' then [(''virgil.policy.decision'', StringValue (pd_decision p)),
          (''virgil.policy.reason'', StringValue (pd_reason p))] else [])"

text \<open>\<open>rand\<close> gives the random identifiers of a hidden trace and span, \<open>None\<close> when the generator fails.\<close>

definition event_to_span :: "(nat list option \<times> nat list option) \<Rightarrow> event \<Rightarrow> string list \<Rightarrow> span option" where
  "event_to_span rand e al =
     (case (hex_to_bytes (ev_trace_id e) 16, hex_to_bytes (ev_span_id e) 8) of
        (Some tid, Some sid) \<Rightarrow>
          (case (if may al ''trace_id'' then Some tid else fst rand) of None \<Rightarrow> None
           | Some tid' \<Rightarrow> (case (if may al ''span_id'' then Some sid else snd rand) of None \<Rightarrow> None
             | Some sid' \<Rightarrow>
               (let end_ns = (if may al ''created_at'' then to_uint64 (ev_created_at e) else 0);
                    start_ns = (if may al ''created_at'' then (if may al ''latency_ms''
                        then to_uint64 (ev_created_at e + wrap64 (wrap64 (- ev_latency_ms e) * 1000000)) else end_ns) else 0)
                in Some \<lparr>sn_trace_id = tid', sn_span_id = sid',
                     sn_name = (if may al ''event_type'' then ev_event_type e else ''virgil.event''),
                     sn_start = start_ns, sn_end = end_ns, sn_attributes = span_attributes al e,
                     sn_status = (if may al ''status'' then Some (if ev_status e \<noteq> ''success''
                         then \<lparr>os_ok = False, os_message = ev_status e\<rparr> else \<lparr>os_ok = True, os_message = []\<rparr>)
                       else None)\<rparr>)))
      | _ \<Rightarrow> None)"

text \<open>The resource spans of a batch: its spans, nothing when there are none.\<close>

definition deliveries_to_spans :: "(string \<Rightarrow> nat list option \<times> nat list option) \<Rightarrow> delivery list \<Rightarrow> string list \<Rightarrow> span list" where
  "deliveries_to_spans rand ds al =
     concat (map (\<lambda>d. case event_to_span (rand (dl_event_id d)) (dl_event d) al of None \<Rightarrow> [] | Some s \<Rightarrow> [s]) ds)"

definition otlp_send :: "(span list \<Rightarrow> string res) \<Rightarrow> (string \<Rightarrow> collector_reply) \<Rightarrow> (string \<Rightarrow> nat list option \<times> nat list option) \<Rightarrow>
    delivery list \<Rightarrow> string list \<Rightarrow> string list \<times> otlp_error option" where
  "otlp_send encode post rand ds al =
     (if ds = [] then ([], None)
      else if al = [] then ([], Some (OtherError (Errorf ''export field allowlist is required'')))
      else (case encode (deliveries_to_spans rand ds al) of
        Inl e \<Rightarrow> ([], Some (OtherError (Wrapf ''marshal OTLP'' e)))
      | Inr body \<Rightarrow> (case post body of
          NoResponse e \<Rightarrow> ([], Some (OtherError (Wrapf ''otlp send'' e)))
        | Status n retry \<Rightarrow> (if n = 200 \<or> n = 204 then (map dl_event_id ds, None)
            else ([], Some (HttpError n retry))))))"

definition drain_otlp :: "(delivery list \<Rightarrow> string list \<Rightarrow> string list \<times> otlp_error option) \<Rightarrow> (string \<Rightarrow> nat \<Rightarrow> int) \<Rightarrow>
    string \<Rightarrow> string list \<Rightarrow> int \<Rightarrow> time \<Rightarrow> journal \<Rightarrow> (nat \<times> (goerr + otlp_error) option) \<times> journal" where
  "drain_otlp send jitter d allowed limit now j =
     (if allowed = [] then ((0, Some (Inl (Errorf ''export field allowlist is required''))), j)
      else (case lease d limit now j of
        (Inl e, j1) \<Rightarrow> ((0, Some (Inl e)), j1)
      | (Inr ds, j1) \<Rightarrow> (if ds = [] then ((0, None), j1)
          else (case send ds allowed of (acked, send_err) \<Rightarrow>
            (case (if acked \<noteq> [] then ack d acked j1 else (Inr (), j1)) of
              (Inl e, j2) \<Rightarrow> ((0, Some (Inl e)), j2)
            | (Inr _, j2) \<Rightarrow> ((length acked, map_option Inr send_err),
                (case send_err of
                   Some (HttpError status _) \<Rightarrow> fail_unacked (if is_permanent status then 10 else 1) jitter d acked
                     (''otlp_http_'' @ show_nat status) now ds j2
                 | Some (OtherError _) \<Rightarrow> fail_unacked 1 jitter d acked ''otlp_send_error'' now ds j2
                 | None \<Rightarrow> j2)))))))"

section \<open>The file holds every event once\<close>

lemma write_events_all:
  assumes "\<forall>ev \<in> set evs. for_export ev allowed = Inr (sel ev)" "\<forall>m. marshal m = Inr (txt m)"
  shows "write_events marshal (\<lambda>_. None) allowed evs out = (out @ map (\<lambda>ev. txt (sel ev)) evs, None)"
  using assms(1) by (induction evs arbitrary: out) (simp_all add: assms(2))

lemma jsonl_pages_all:
  assumes "events_ok (tbl j)" "faults j = []" "k < length (ordered_events (tbl j)) \<or> k = 0"
    and "length (ordered_events (tbl j)) \<le> k + 200 * fuel" "0 < fuel"
    and ok: "\<forall>r \<in> set (t_events (tbl j)). for_export (er_payload r) allowed = Inr (sel (er_payload r))" "\<forall>m. marshal m = Inr (txt m)"
  shows "jsonl_pages fuel marshal (\<lambda>_. None) allowed (cursor_at (tbl j) k) out j =
    Some ((out @ map (\<lambda>r. txt (sel (er_payload r))) (drop k (ordered_events (tbl j))), None), j)"
  using assms(3-5)
proof (induction fuel arbitrary: k out)
  case 0
  then show ?case by simp
next
  case (Suc fuel)
  let ?S = "ordered_events (tbl j)"
  have page: "list_events (cursor_at (tbl j) k) jsonl_page_size j =
    (Inr (map er_payload (take 200 (drop k ?S)), if length ?S > k + 200 then cursor_at (tbl j) (k + 200) else []), j)"
    using list_events_page [OF assms(1,2) _ _ Suc.prems(1), of jsonl_page_size] by (simp add: jsonl_page_size_def)
  have "set ?S = set (t_events (tbl j))" by (simp add: ordered_events_def)
  then have "\<forall>ev \<in> set (map er_payload (take 200 (drop k ?S))). for_export ev allowed = Inr (sel ev)"
    using ok(1) by (auto dest!: in_set_takeD in_set_dropD)
  note w = write_events_all [OF this ok(2)]
  show ?case
  proof (cases "length ?S > k + 200")
    case True
    then have "?S ! (k + 199) \<in> set (t_events (tbl j))" using nth_mem [of "k + 199" ?S] by (simp add: ordered_events_def)
    then have "er_event_id (?S ! (k + 199)) \<noteq> []" using assms(1) unfolding events_ok_def by blast
    then have ne: "cursor_at (tbl j) (k + 200) \<noteq> []" by (simp add: cursor_at_def add.commute)
    have "0 < fuel" using True Suc.prems(2) by (cases fuel) simp_all
    moreover have "length ?S \<le> k + 200 + 200 * fuel" using Suc.prems(2) by simp
    ultimately have rest: "jsonl_pages fuel marshal (\<lambda>_. None) allowed (cursor_at (tbl j) (k + 200)) out' j =
        Some ((out' @ map (\<lambda>r. txt (sel (er_payload r))) (drop (k + 200) ?S), None), j)" for out'
      using True by (intro Suc.IH) simp_all
    have "drop k ?S = take 200 (drop k ?S) @ drop (k + 200) ?S"
      using append_take_drop_id [of 200 "drop k ?S"] by (simp add: add.commute)
    then have "map (\<lambda>r. txt (sel (er_payload r))) (drop k ?S) =
        map (\<lambda>r. txt (sel (er_payload r))) (take 200 (drop k ?S)) @ map (\<lambda>r. txt (sel (er_payload r))) (drop (k + 200) ?S)"
      by (metis map_append)
    then show ?thesis using True ne by (simp add: page w rest o_def)
  next
    case False
    then have "take 200 (drop k ?S) = drop k ?S" by simp
    with False page w show ?thesis by simp
  qed
qed

text \<open>C16: The export writes every event of the journal exactly once, in the order of their times, each
  reduced to the allowed fields, and ends after one page per 200 events.\<close>

theorem jsonl_writes_each_event_once:
  assumes "events_ok (tbl j)" "faults j = []" "\<forall>r \<in> set (t_events (tbl j)). validate_event (er_payload r) = Inr ()"
    and "allowed \<noteq> []" "set allowed \<subseteq> set exportable_fields" "path \<noteq> []" "\<forall>m. marshal m = Inr (txt m)"
    and "length (t_events (tbl j)) div 200 < fuel"
  shows "\<exists>rows. mset rows = mset (t_events (tbl j)) \<and> distinct (map er_event_id rows) \<and>
    sorted (map event_key_of rows) \<and>
    jsonl fuel marshal None (\<lambda>_. None) flush path allowed j =
      Some ((map (\<lambda>r. txt (\<lambda>f. if f \<in> set allowed then map_of (event_json (er_payload r)) f else None)) rows, flush), j)"
proof (intro exI conjI)
  let ?S = "ordered_events (tbl j)"
  show "mset ?S = mset (t_events (tbl j))" "sorted (map event_key_of ?S)" by (simp_all add: ordered_events_def)
  show "distinct (map er_event_id ?S)" using assms(1) by (simp add: events_ok_def distinct_on_def ordered_events_def distinct_map)
  have len: "length ?S = length (t_events (tbl j))" by (simp add: ordered_events_def)
  have "length ?S \<le> 0 + 200 * fuel" unfolding len using assms(8) by linarith
  moreover have "0 < fuel" using assms(8) by simp
  moreover have "\<forall>r \<in> set (t_events (tbl j)). for_export (er_payload r) allowed =
      Inr (\<lambda>f. if f \<in> set allowed then map_of (event_json (er_payload r)) f else None)"
    using assms(3-5) by (simp add: for_export_Inr_iff select_fields_eq)
  ultimately have "jsonl_pages fuel marshal (\<lambda>_. None) allowed (cursor_at (tbl j) 0) [] j =
    Some (([] @ map (\<lambda>r. txt (\<lambda>f. if f \<in> set allowed then map_of (event_json (er_payload r)) f else None)) (drop 0 ?S), None), j)"
    by (intro jsonl_pages_all [where sel = "\<lambda>ev f. if f \<in> set allowed then map_of (event_json ev) f else None", OF assms(1,2)])
      (simp_all add: assms(7))
  then show "jsonl fuel marshal None (\<lambda>_. None) flush path allowed j =
      Some ((map (\<lambda>r. txt (\<lambda>f. if f \<in> set allowed then map_of (event_json (er_payload r)) f else None)) ?S, flush), j)"
    using assms(4,6) by (simp add: jsonl_def cursor_at_def)
qed

lemma jsonl_writes_each_event_once_witness:
  "\<exists>line. jsonl 1 (\<lambda>m. Inr (m ''status'')) None (\<lambda>_. None) None ''out'' [''status''] event_journal =
    Some (([line], None), event_journal) \<and> line = Some (JStr ''policy_block'')"
proof -
  have f: "faults event_journal = []" "t_events (tbl event_journal) = [event_row_of example_event]"
    "validate_event example_event = Inr ()" "er_payload (event_row_of example_event) = example_event"
    "map_of (event_json example_event) ''status'' = Some (JStr ''policy_block'')" by code_simp+
  have a: "[''status''] \<noteq> []" "set [''status''] \<subseteq> set exportable_fields" "''out'' \<noteq> []" by (simp_all add: exportable_fields_def)
  have "\<forall>r \<in> set (t_events (tbl event_journal)). validate_event (er_payload r) = Inr ()" by (simp add: f)
  note all = jsonl_writes_each_event_once [OF event_journal_ok f(1) this a, of "\<lambda>m. Inr (m ''status'')" "\<lambda>m. m ''status''" 1 None]
  from all obtain rows where "mset rows = mset (t_events (tbl event_journal))"
    "jsonl 1 (\<lambda>m. Inr (m ''status'')) None (\<lambda>_. None) None ''out'' [''status''] event_journal =
      Some ((map (\<lambda>r. map_of (event_json (er_payload r)) ''status'') rows, None), event_journal)"
    by (auto simp: f(2))
  moreover from this(1) have "rows = [event_row_of example_event]" by (simp add: f(2))
  ultimately show ?thesis using f(4,5) by simp
qed

section \<open>A drain settles what it leased\<close>

lemma update_outbox_none:
  "faults j = [] \<Longrightarrow> update_outbox P f j = (Inr (), j\<lparr>tbl := (tbl j)\<lparr>t_outbox := update_where P f (t_outbox (tbl j))\<rparr>\<rparr>)"
  by (simp add: update_outbox_def)

lemma for_each_done:
  assumes "\<And>x j. faults j = [] \<Longrightarrow> \<exists>t. f x j = (Inr (), j\<lparr>tbl := t\<rparr>)"
  shows "faults j = [] \<Longrightarrow> \<exists>t. for_each f xs j = (Inr (), j\<lparr>tbl := t\<rparr>)"
proof (induction xs arbitrary: j)
  case Nil
  then show ?case by (intro exI [of _ "tbl j"]) simp
next
  case (Cons x xs)
  obtain t where t: "f x j = (Inr (), j\<lparr>tbl := t\<rparr>)" using assms [OF Cons.prems] ..
  obtain t' where "for_each f xs (j\<lparr>tbl := t\<rparr>) = (Inr (), j\<lparr>tbl := t, tbl := t'\<rparr>)"
    using Cons.IH [of "j\<lparr>tbl := t\<rparr>"] Cons.prems by auto
  with t show ?case by (auto simp: bindE_def)
qed

lemma lease_done:
  assumes "faults j = []"
  shows "lease d limit now j = (Inr (select_due d limit now (tbl j)), j\<lparr>tbl := (tbl j)\<lparr>t_outbox :=
    update_where (\<lambda>r. ob_destination r = d \<and> ob_event_id r \<in> dl_event_id ` set (select_due d limit now (tbl j)))
      (set_sending (now + lease_duration)) (t_outbox (tbl j))\<rparr>\<rparr>)"
proof -
  let ?ds = "select_due d limit now (tbl j)"
  obtain t where "for_each (\<lambda>x. update_outbox (is_delivery d (dl_event_id x)) (set_sending (now + lease_duration))) ?ds j =
      (Inr (), j\<lparr>tbl := t\<rparr>)"
    using for_each_done [of "\<lambda>x. update_outbox (is_delivery d (dl_event_id x)) (set_sending (now + lease_duration))" j ?ds]
      update_outbox_none assms by blast
  then have l: "lease d limit now j = (Inr ?ds, j\<lparr>tbl := t\<rparr>)" using assms by (simp add: lease_def tx_none bindE_def)
  from lease_run(2) [OF l] show ?thesis using l by simp
qed

lemma update_where_fuse:
  assumes "\<And>x. P x \<Longrightarrow> \<not> Q x" "\<And>x. P x \<Longrightarrow> \<not> Q (f x)" "\<And>x. x \<in> set xs \<Longrightarrow> P x \<Longrightarrow> f x = g x"
  shows "update_where Q g (update_where P f xs) = update_where (\<lambda>x. P x \<or> Q x) g xs"
  using assms(3)
proof (induction xs)
  case (Cons x xs)
  then show ?case using assms(1,2) [of x] by (cases "P x") simp_all
qed simp

lemma update_where_cong:
  "(\<And>x. x \<in> set xs \<Longrightarrow> P x = Q x) \<Longrightarrow> (\<And>x. x \<in> set xs \<Longrightarrow> Q x \<Longrightarrow> f x = g x) \<Longrightarrow> update_where P f xs = update_where Q g xs"
  by (induction xs) auto

text \<open>What each answer makes of a row.\<close>

definition failed_row :: "int \<Rightarrow> string \<Rightarrow> time \<Rightarrow> outbox_row \<Rightarrow> outbox_row" where
  "failed_row jitter code now r = (let attempts = ob_attempts r + 1 in
     if attempts \<ge> max_attempts then set_dead attempts code r
     else set_retryable attempts code (now + (2 ^ nat attempts + jitter) * 1000000000) r)"

definition settled_row :: "batch_ack \<Rightarrow> goerr option \<Rightarrow> (string \<Rightarrow> int) \<Rightarrow> time \<Rightarrow> outbox_row \<Rightarrow> outbox_row" where
  "settled_row a send_err jitter now r =
     (if ob_event_id r \<in> set (ba_accepted a) then set_delivered r
      else if map_of (ba_rejections a) (ob_event_id r) = Some ''invalid_event'' then set_dead (ob_attempts r + 1) ''invalid_event'' r
      else failed_row (jitter (ob_event_id r)) (if send_err \<noteq> None then ''send_error'' else ''send_failed'') now r)"

lemma ack_none:
  "faults j = [] \<Longrightarrow> ack d [eid] j = (Inr (), j\<lparr>tbl := (tbl j)\<lparr>t_outbox :=
     update_where (\<lambda>r. is_delivery d eid r \<and> ob_state r = Sending) set_delivered (t_outbox (tbl j))\<rparr>\<rparr>)"
  by (simp add: ack_def tx_none bindE_def update_outbox_none)

lemma dead_letter_none:
  "faults j = [] \<Longrightarrow> code \<noteq> [] \<Longrightarrow> length code \<le> 64 \<Longrightarrow> dead_letter d eid code j = (Inr (), j\<lparr>tbl := (tbl j)\<lparr>t_outbox :=
     update_where (\<lambda>r. is_delivery d eid r \<and> ob_state r = Sending) (\<lambda>r. set_dead (ob_attempts r + 1) code r) (t_outbox (tbl j))\<rparr>\<rparr>)"
  by (simp add: dead_letter_def update_outbox_none)

lemma fail_none:
  assumes "faults j = []" "code \<noteq> []" "length code \<le> 64" "r \<in> set (t_outbox (tbl j))" "is_delivery d eid r"
    and key: "distinct_on (\<lambda>r. (ob_destination r, ob_event_id r)) (t_outbox (tbl j))"
  shows "fail_delivery jitter d eid code now j = (Inr (), j\<lparr>tbl := (tbl j)\<lparr>t_outbox :=
     update_where (is_delivery d eid) (failed_row jitter code now) (t_outbox (tbl j))\<rparr>\<rparr>)"
proof -
  have same: "s = r" if "s \<in> set (t_outbox (tbl j))" "is_delivery d eid s" for s
    using that assms(4,5) distinct_on_unique [OF key] by (auto simp: is_delivery_def)
  have "first_row (is_delivery d eid) (t_outbox (tbl j)) = Some r"
    using first_row_key [OF key assms(4)] assms(5) by (simp add: is_delivery_def [abs_def])
  moreover have rows: "update_where (is_delivery d eid) f (t_outbox (tbl j)) = update_where (is_delivery d eid) g (t_outbox (tbl j))"
    if "f r = g r" for f g using same that by (intro update_where_cong) auto
  ultimately have "fail_delivery jitter d eid code now j =
      (if ob_attempts r + 1 \<ge> max_attempts then update_outbox (is_delivery d eid) (set_dead (ob_attempts r + 1) code)
       else update_outbox (is_delivery d eid)
         (set_retryable (ob_attempts r + 1) code (now + (2 ^ nat (ob_attempts r + 1) + jitter) * 1000000000))) j"
    using assms(1-3) by (simp add: fail_delivery_def bindE_def Let_def)
  also have "\<dots> = update_outbox (is_delivery d eid) (failed_row jitter code now) j"
  proof (cases "ob_attempts r + 1 \<ge> max_attempts")
    case True
    then have "failed_row jitter code now r = set_dead (ob_attempts r + 1) code r" by (simp add: failed_row_def)
    from rows [where f = "failed_row jitter code now" and g = "set_dead (ob_attempts r + 1) code", OF this] True show ?thesis by (simp add: update_outbox_none [OF assms(1)])
  next
    case False
    then have "failed_row jitter code now r =
        set_retryable (ob_attempts r + 1) code (now + (2 ^ nat (ob_attempts r + 1) + jitter) * 1000000000) r"
      by (simp add: failed_row_def Let_def)
    from rows [where f = "failed_row jitter code now" and g = "set_retryable (ob_attempts r + 1) code
        (now + (2 ^ nat (ob_attempts r + 1) + jitter) * 1000000000)", OF this] False show ?thesis by (simp add: update_outbox_none [OF assms(1)])
  qed
  finally show ?thesis by (simp add: update_outbox_none [OF assms(1)])
qed

lemma row_keys: "ob_destination (failed_row i c now r) = ob_destination r \<and> ob_event_id (failed_row i c now r) = ob_event_id r"
  "ob_destination (settled_row a e jitter now r) = ob_destination r \<and> ob_event_id (settled_row a e jitter now r) = ob_event_id r"
  by (simp_all add: failed_row_def settled_row_def set_dead_def set_retryable_def set_delivered_def Let_def)

text \<open>One leased delivery.\<close>

definition in_flight :: "string \<Rightarrow> string \<Rightarrow> tables \<Rightarrow> bool" where
  "in_flight d eid t \<longleftrightarrow> (\<exists>r \<in> set (t_outbox t). is_delivery d eid r \<and> ob_state r = Sending)"

lemma settle_one:
  assumes "faults j = []" "in_flight d (dl_event_id x) (tbl j)"
    and key: "distinct_on (\<lambda>r. (ob_destination r, ob_event_id r)) (t_outbox (tbl j))"
  shows "settle_deliveries a e jitter d now (x # ds) n j = settle_deliveries a e jitter d now ds
    (if dl_event_id x \<in> set (ba_accepted a) then n + 1 else n)
    (j\<lparr>tbl := (tbl j)\<lparr>t_outbox := update_where (is_delivery d (dl_event_id x)) (settled_row a e jitter now) (t_outbox (tbl j))\<rparr>\<rparr>)"
proof -
  obtain r where r: "r \<in> set (t_outbox (tbl j))" "is_delivery d (dl_event_id x) r" "ob_state r = Sending"
    using assms(2) by (auto simp: in_flight_def)
  have same: "s = r" if "s \<in> set (t_outbox (tbl j))" "is_delivery d (dl_event_id x) s" for s
    using that r distinct_on_unique [OF key] by (auto simp: is_delivery_def)
  have id: "ob_event_id r = dl_event_id x" using r(2) by (simp add: is_delivery_def)
  consider (acc) "dl_event_id x \<in> set (ba_accepted a)"
    | (rej) "dl_event_id x \<notin> set (ba_accepted a)" "map_of (ba_rejections a) (dl_event_id x) = Some ''invalid_event''"
    | (fail) "dl_event_id x \<notin> set (ba_accepted a)" "map_of (ba_rejections a) (dl_event_id x) \<noteq> Some ''invalid_event''" by blast
  then show ?thesis
  proof cases
    case acc
    have "update_where (\<lambda>r. is_delivery d (dl_event_id x) r \<and> ob_state r = Sending) set_delivered (t_outbox (tbl j)) =
      update_where (is_delivery d (dl_event_id x)) (settled_row a e jitter now) (t_outbox (tbl j))"
      using same r(3) id acc by (intro update_where_cong) (auto simp: settled_row_def)
    with acc assms(1) show ?thesis by (simp add: ack_none)
  next
    case rej
    have "update_where (\<lambda>r. is_delivery d (dl_event_id x) r \<and> ob_state r = Sending)
        (\<lambda>r. set_dead (ob_attempts r + 1) ''invalid_event'' r) (t_outbox (tbl j)) =
      update_where (is_delivery d (dl_event_id x)) (settled_row a e jitter now) (t_outbox (tbl j))"
      using same r(3) id rej by (intro update_where_cong) (auto simp: settled_row_def)
    with rej assms(1) show ?thesis by (simp add: dead_letter_none)
  next
    case fail
    have "update_where (is_delivery d (dl_event_id x)) (failed_row (jitter (dl_event_id x))
          (if e \<noteq> None then ''send_error'' else ''send_failed'') now) (t_outbox (tbl j)) =
      update_where (is_delivery d (dl_event_id x)) (settled_row a e jitter now) (t_outbox (tbl j))"
      using same id fail by (intro update_where_cong) (auto simp: settled_row_def)
    with fail fail_none [OF assms(1) _ _ r(1,2) key, of "if e \<noteq> None then ''send_error'' else ''send_failed''"] show ?thesis
      by simp
  qed
qed

lemma settle_all:
  assumes "faults j = []" "distinct (map dl_event_id ds)" "\<forall>x \<in> set ds. in_flight d (dl_event_id x) (tbl j)"
    and "distinct_on (\<lambda>r. (ob_destination r, ob_event_id r)) (t_outbox (tbl j))"
  shows "settle_deliveries a e jitter d now ds n j =
    ((n + length (filter (\<lambda>x. dl_event_id x \<in> set (ba_accepted a)) ds), e),
     j\<lparr>tbl := (tbl j)\<lparr>t_outbox := update_where (\<lambda>r. ob_destination r = d \<and> ob_event_id r \<in> dl_event_id ` set ds)
       (settled_row a e jitter now) (t_outbox (tbl j))\<rparr>\<rparr>)"
  using assms
proof (induction ds arbitrary: n j)
  case Nil
  then show ?case by (simp add: update_where_none)
next
  case (Cons x ds)
  let ?f = "settled_row a e jitter now"
  let ?j = "j\<lparr>tbl := (tbl j)\<lparr>t_outbox := update_where (is_delivery d (dl_event_id x)) ?f (t_outbox (tbl j))\<rparr>\<rparr>"
  have flight: "in_flight d (dl_event_id y) (tbl ?j)" if y: "y \<in> set ds" for y
  proof -
    obtain r where r: "r \<in> set (t_outbox (tbl j))" "is_delivery d (dl_event_id y) r" "ob_state r = Sending"
      using Cons.prems(3) y by (auto simp: in_flight_def)
    moreover have "dl_event_id y \<noteq> dl_event_id x" using Cons.prems(2) y by (metis distinct.simps(2) image_eqI image_set list.simps(9))
    ultimately have "r \<in> set (t_outbox (tbl ?j))" by (auto simp: set_update_where is_delivery_def)
    with r show ?thesis unfolding in_flight_def by blast
  qed
  have key: "distinct_on (\<lambda>r. (ob_destination r, ob_event_id r)) (t_outbox (tbl ?j))"
    using Cons.prems(4) by (simp add: distinct_on_update row_keys)
  have "update_where (\<lambda>r. ob_destination r = d \<and> ob_event_id r \<in> dl_event_id ` set ds) ?f (t_outbox (tbl ?j)) =
    update_where (\<lambda>r. is_delivery d (dl_event_id x) r \<or> ob_destination r = d \<and> ob_event_id r \<in> dl_event_id ` set ds) ?f (t_outbox (tbl j))"
    using Cons.prems(2) by (simp, intro update_where_fuse) (auto simp: is_delivery_def row_keys)
  also have "\<dots> = update_where (\<lambda>r. ob_destination r = d \<and> ob_event_id r \<in> dl_event_id ` set (x # ds)) ?f (t_outbox (tbl j))"
    by (rule update_where_cong) (auto simp: is_delivery_def)
  finally have rows: "update_where (\<lambda>r. ob_destination r = d \<and> ob_event_id r \<in> dl_event_id ` set ds) ?f (t_outbox (tbl ?j)) = \<dots>" .
  have "in_flight d (dl_event_id x) (tbl j)" using Cons.prems(3) by simp
  note one = settle_one [OF Cons.prems(1) this Cons.prems(4), of a e jitter now ds n]
  have "faults ?j = []" "distinct (map dl_event_id ds)" "\<forall>y \<in> set ds. in_flight d (dl_event_id y) (tbl ?j)"
    using Cons.prems(1,2) flight by simp_all
  note rest = Cons.IH [OF this key, of "if dl_event_id x \<in> set (ba_accepted a) then n + 1 else n"]
  show ?case unfolding one rest using rows by simp
qed

lemma distinct_on_destination:
  "distinct_on (\<lambda>r. (ob_destination r, ob_event_id r)) rs \<Longrightarrow>
   distinct_on ob_event_id (filter (\<lambda>r. ob_destination r = d \<and> due now r) rs)"
  by (induction rs) (auto simp: distinct_on_def image_iff)

lemma select_due_distinct:
  assumes "outbox_ok t"
  shows "distinct (map dl_event_id (select_due d limit now t))"
proof -
  let ?rows = "sort_key ob_next (filter (\<lambda>r. ob_destination r = d \<and> due now r) (t_outbox t))"
  have "map dl_event_id (concat (map (join_event t) rs)) = map ob_event_id rs" if "set rs \<subseteq> set (t_outbox t)" for rs
    using that
  proof (induction rs)
    case (Cons r rs)
    then have "ob_event_id r \<in> er_event_id ` set (t_events t)"
      using assms unfolding outbox_ok_def events_ok_def by auto
    then obtain e where "select_event (ob_event_id r) t = Some e"
      using first_row_None [of "\<lambda>x. er_event_id x = ob_event_id r" "t_events t"]
      by (cases "select_event (ob_event_id r) t") (auto simp: select_event_def)
    with Cons show ?case by (simp add: delivery_of_def)
  qed simp
  then have m: "map dl_event_id (concat (map (join_event t) ?rows)) = map ob_event_id ?rows" by auto
  have "distinct_on (\<lambda>r. (ob_destination r, ob_event_id r)) (t_outbox t)"
    using assms by (simp add: outbox_ok_def events_ok_def)
  then have "distinct_on ob_event_id (filter (\<lambda>r. ob_destination r = d \<and> due now r) (t_outbox t))"
    by (rule distinct_on_destination)
  then have "distinct (map ob_event_id ?rows)" by (simp add: distinct_on_def distinct_map)
  with m have "distinct (map dl_event_id (concat (map (join_event t) ?rows)))" by simp
  then show ?thesis unfolding select_due_def limit_rows_def take_map [symmetric]
    by (auto simp: take_map [symmetric] simp del: map_concat intro: distinct_take)
qed

text \<open>The deliveries a working lease hands out are in flight.\<close>

lemma leased_in_flight:
  assumes "outbox_ok (tbl j)" "faults j = []" "lease d limit now j = (Inr ds, j1)" "x \<in> set ds"
  shows "in_flight d (dl_event_id x) (tbl j1)"
proof -
  have j1: "tbl j1 = (tbl j)\<lparr>t_outbox := update_where (\<lambda>r. ob_destination r = d \<and> ob_event_id r \<in> dl_event_id ` set ds)
      (set_sending (now + lease_duration)) (t_outbox (tbl j))\<rparr>" and ds: "ds = select_due d limit now (tbl j)"
    using lease_run [OF assms(3)] by simp_all
  obtain r where r: "r \<in> set (t_outbox (tbl j))" "ob_destination r = d" "ob_event_id r = dl_event_id x"
    using select_due_rows assms(4) ds by blast
  then have "set_sending (now + lease_duration) r \<in> set (t_outbox (tbl j1))"
    using assms(4) by (simp add: j1 set_update_where)
  then show ?thesis unfolding in_flight_def
    by (rule bexI [rotated]) (simp add: r set_sending_def is_delivery_def)
qed

lemma settled_sending: "settled_row a e jitter now (set_sending u r) = settled_row a e jitter now r"
  by (simp add: settled_row_def failed_row_def set_sending_def set_delivered_def set_dead_def set_retryable_def Let_def)

lemma update_where_over:
  assumes "\<And>r. P (f r) = P r" "\<And>r. g (f r) = g r"
  shows "update_where P g (update_where P f xs) = update_where P g xs"
  using assms by (induction xs) auto

text \<open>C15: One drain settles everything it leased and touches nothing else. With a working database
  \<open>DrainControlPlane\<close> sends exactly the due deliveries of its destination; each one the control plane
  accepts is delivered, each one it rejects as invalid is dead-lettered, every other one counts a failed
  attempt, and the number returned is that of the accepted ones. No row is left in flight.\<close>

theorem drain_settles_every_delivery:
  assumes "outbox_ok (tbl j)" "faults j = []" "allowed \<noteq> []" "select_due d limit now (tbl j) \<noteq> []"
    and "send c (select_due d limit now (tbl j)) allowed = ((a, e), c')"
  shows "drain_control_plane send jitter d allowed limit now c j =
    ((length (filter (\<lambda>x. dl_event_id x \<in> set (ba_accepted a)) (select_due d limit now (tbl j))), e), (c',
     j\<lparr>tbl := (tbl j)\<lparr>t_outbox := update_where
        (\<lambda>r. ob_destination r = d \<and> ob_event_id r \<in> dl_event_id ` set (select_due d limit now (tbl j)))
        (settled_row a e jitter now) (t_outbox (tbl j))\<rparr>\<rparr>))"
proof -
  let ?ds = "select_due d limit now (tbl j)"
  let ?P = "\<lambda>r. ob_destination r = d \<and> ob_event_id r \<in> dl_event_id ` set ?ds"
  note l = lease_done [OF assms(2), of d limit now]
  let ?j1 = "j\<lparr>tbl := (tbl j)\<lparr>t_outbox := update_where ?P (set_sending (now + lease_duration)) (t_outbox (tbl j))\<rparr>\<rparr>"
  have "distinct_on (\<lambda>r. (ob_destination r, ob_event_id r)) (t_outbox (tbl ?j1))"
    using assms(1) by (simp add: outbox_ok_def events_ok_def distinct_on_update set_sending_def)
  moreover have "\<forall>x \<in> set ?ds. in_flight d (dl_event_id x) (tbl ?j1)"
    using leased_in_flight [OF assms(1,2) l] by blast
  ultimately have "settle_deliveries a e jitter d now ?ds 0 ?j1 = ((0 + length (filter (\<lambda>x. dl_event_id x \<in> set (ba_accepted a)) ?ds), e),
     ?j1\<lparr>tbl := (tbl ?j1)\<lparr>t_outbox := update_where ?P (settled_row a e jitter now) (t_outbox (tbl ?j1))\<rparr>\<rparr>)"
    using assms(2) by (intro settle_all select_due_distinct assms(1)) simp_all
  moreover have "update_where ?P (settled_row a e jitter now) (t_outbox (tbl ?j1)) =
      update_where ?P (settled_row a e jitter now) (t_outbox (tbl j))"
    by (simp, rule update_where_over) (simp_all add: set_sending_def settled_sending [unfolded set_sending_def])
  ultimately show ?thesis using assms(3-5) by (simp add: drain_control_plane_def l)
qed

lemma drain_settles_every_delivery_witness:
  "map ob_state (t_outbox (tbl (snd (snd (drain_control_plane (\<lambda>c ds al. ((\<lparr>ba_accepted = map dl_event_id ds, ba_rejections = []\<rparr>, None), c))
     (\<lambda>_. 0) ''otlp'' [''status''] 10 9 () event_journal))))) = [Delivered, Pending]"
proof -
  have f: "faults event_journal = []" "[''status''] \<noteq> []" "select_due ''otlp'' 10 9 (tbl event_journal) \<noteq> []" by code_simp+
  have "map ob_state (update_where
        (\<lambda>r. ob_destination r = ''otlp'' \<and> ob_event_id r \<in> dl_event_id ` set (select_due ''otlp'' 10 9 (tbl event_journal)))
        (settled_row \<lparr>ba_accepted = map dl_event_id (select_due ''otlp'' 10 9 (tbl event_journal)), ba_rejections = []\<rparr> None (\<lambda>_. 0) 9)
        (t_outbox (tbl event_journal))) = [Delivered, Pending]" by code_simp
  then show ?thesis
    by (subst drain_settles_every_delivery [OF event_journal_outbox_ok f,
        of "\<lambda>c ds al. ((\<lparr>ba_accepted = map dl_event_id ds, ba_rejections = []\<rparr>, None), c)"]) simp_all
qed

section \<open>The collector's answer decides\<close>

text \<open>\<open>n\<close> failures in a row.\<close>

fun row_fails :: "nat \<Rightarrow> (nat \<Rightarrow> int) \<Rightarrow> string \<Rightarrow> time \<Rightarrow> outbox_row \<Rightarrow> outbox_row" where
  "row_fails 0 jitter code now r = r"
| "row_fails (Suc n) jitter code now r = row_fails n jitter code now (failed_row (jitter n) code now r)"

lemma failed_row_attempts: "ob_attempts (failed_row i code now r) = ob_attempts r + 1"
  by (simp add: failed_row_def set_dead_def set_retryable_def Let_def)

lemma row_fails_keys:
  "ob_destination (row_fails n jitter code now r) = ob_destination r \<and> ob_event_id (row_fails n jitter code now r) = ob_event_id r"
  by (induction n arbitrary: r) (simp_all add: row_keys)

lemma row_fails_last: "\<exists>s. row_fails (Suc n) jitter code now r = failed_row (jitter 0) code now s \<and> ob_attempts s = ob_attempts r + int n"
proof (induction n arbitrary: r)
  case (Suc n)
  from Suc [of "failed_row (jitter (Suc n)) code now r"] show ?case by (auto simp: failed_row_attempts)
qed (intro exI, auto)

lemma ten_failures: "0 \<le> ob_attempts r \<Longrightarrow> ob_state (row_fails 10 jitter code now r) = DeadLettered"
  using row_fails_last [of 9 jitter code now r]
  by (auto simp: failed_row_def max_attempts_def set_dead_def Let_def)

lemma update_where_comp:
  "(\<And>r. P (f r) = P r) \<Longrightarrow> update_where P g (update_where P f xs) = update_where P (\<lambda>r. g (f r)) xs"
  by (induction xs) auto

lemma fail_times_none:
  assumes "faults j = []" "code \<noteq> []" "length code \<le> 64" "r \<in> set (t_outbox (tbl j))" "is_delivery d eid r"
    and "distinct_on (\<lambda>r. (ob_destination r, ob_event_id r)) (t_outbox (tbl j))"
  shows "fail_times n jitter d eid code now j = j\<lparr>tbl := (tbl j)\<lparr>t_outbox :=
     update_where (is_delivery d eid) (row_fails n jitter code now) (t_outbox (tbl j))\<rparr>\<rparr>"
  using assms
proof (induction n arbitrary: j r)
  case 0
  have "update_where (is_delivery d eid) (\<lambda>r. r) xs = xs" for xs by (induction xs) simp_all
  then show ?case by simp
next
  case (Suc n)
  let ?j = "j\<lparr>tbl := (tbl j)\<lparr>t_outbox := update_where (is_delivery d eid) (failed_row (jitter n) code now) (t_outbox (tbl j))\<rparr>\<rparr>"
  have "failed_row (jitter n) code now r \<in> set (t_outbox (tbl ?j))" "is_delivery d eid (failed_row (jitter n) code now r)"
    using Suc.prems(4,5) by (simp_all add: set_update_where is_delivery_def row_keys)
  moreover have "distinct_on (\<lambda>r. (ob_destination r, ob_event_id r)) (t_outbox (tbl ?j))"
    using Suc.prems(6) by (simp add: distinct_on_update row_keys)
  moreover have "faults ?j = []" using Suc.prems(1) by simp
  ultimately have "fail_times n jitter d eid code now ?j = ?j\<lparr>tbl := (tbl ?j)\<lparr>t_outbox :=
     update_where (is_delivery d eid) (row_fails n jitter code now) (t_outbox (tbl ?j))\<rparr>\<rparr>"
    using Suc.IH Suc.prems(2,3) by blast
  moreover have "is_delivery d eid (failed_row i code now s) = is_delivery d eid s" for i s
    by (simp add: is_delivery_def row_keys)
  ultimately show ?case by (simp add: fail_none [OF Suc.prems] update_where_comp)
qed

lemma fail_unacked_all:
  assumes "faults j = []" "code \<noteq> []" "length code \<le> 64" "distinct (map dl_event_id ds)"
    and "\<forall>x \<in> set ds. \<exists>r \<in> set (t_outbox (tbl j)). is_delivery d (dl_event_id x) r"
    and "distinct_on (\<lambda>r. (ob_destination r, ob_event_id r)) (t_outbox (tbl j))"
  shows "fail_unacked n jitter d [] code now ds j = j\<lparr>tbl := (tbl j)\<lparr>t_outbox :=
     update_where (\<lambda>r. ob_destination r = d \<and> ob_event_id r \<in> dl_event_id ` set ds)
       (\<lambda>r. row_fails n (jitter (ob_event_id r)) code now r) (t_outbox (tbl j))\<rparr>\<rparr>"
  using assms
proof (induction ds arbitrary: j)
  case Nil
  then show ?case by (simp add: update_where_none)
next
  case (Cons x ds)
  let ?f = "\<lambda>r. row_fails n (jitter (ob_event_id r)) code now r"
  let ?j = "j\<lparr>tbl := (tbl j)\<lparr>t_outbox := update_where (is_delivery d (dl_event_id x)) ?f (t_outbox (tbl j))\<rparr>\<rparr>"
  obtain r where r: "r \<in> set (t_outbox (tbl j))" "is_delivery d (dl_event_id x) r" using Cons.prems(5) by auto
  have "update_where (is_delivery d (dl_event_id x)) (row_fails n (jitter (dl_event_id x)) code now) (t_outbox (tbl j)) =
    update_where (is_delivery d (dl_event_id x)) ?f (t_outbox (tbl j))"
    by (rule update_where_cong) (auto simp: is_delivery_def)
  then have one: "fail_times n (jitter (dl_event_id x)) d (dl_event_id x) code now j = ?j"
    using fail_times_none [OF Cons.prems(1-3) r Cons.prems(6)] by simp
  have "\<exists>s \<in> set (t_outbox (tbl ?j)). is_delivery d (dl_event_id y) s" if y: "y \<in> set ds" for y
  proof -
    obtain s where s: "s \<in> set (t_outbox (tbl j))" "is_delivery d (dl_event_id y) s" using Cons.prems(5) y by auto
    moreover have "dl_event_id y \<noteq> dl_event_id x" using Cons.prems(4) y by (metis distinct.simps(2) image_eqI image_set list.simps(9))
    ultimately have "s \<in> set (t_outbox (tbl ?j))" by (auto simp: set_update_where is_delivery_def)
    with s show ?thesis by blast
  qed
  moreover have "distinct_on (\<lambda>r. (ob_destination r, ob_event_id r)) (t_outbox (tbl ?j))"
    using Cons.prems(6) by (simp add: distinct_on_update row_fails_keys)
  ultimately have rest: "fail_unacked n jitter d [] code now ds ?j = ?j\<lparr>tbl := (tbl ?j)\<lparr>t_outbox :=
     update_where (\<lambda>r. ob_destination r = d \<and> ob_event_id r \<in> dl_event_id ` set ds) ?f (t_outbox (tbl ?j))\<rparr>\<rparr>"
    using Cons.prems(1-4) by (intro Cons.IH) simp_all
  have "update_where (\<lambda>r. ob_destination r = d \<and> ob_event_id r \<in> dl_event_id ` set ds) ?f (t_outbox (tbl ?j)) =
    update_where (\<lambda>r. is_delivery d (dl_event_id x) r \<or> ob_destination r = d \<and> ob_event_id r \<in> dl_event_id ` set ds) ?f (t_outbox (tbl j))"
    using Cons.prems(4) by (simp, intro update_where_fuse) (auto simp: is_delivery_def row_fails_keys)
  also have "\<dots> = update_where (\<lambda>r. ob_destination r = d \<and> ob_event_id r \<in> dl_event_id ` set (x # ds)) ?f (t_outbox (tbl j))"
    by (rule update_where_cong) (auto simp: is_delivery_def)
  finally show ?case using rest by (simp add: one)
qed

lemma show_nat_status: "n < 1000 \<Longrightarrow> length (show_nat n) \<le> 3"
  by (subst show_nat.simps, simp, subst show_nat.simps, simp, subst show_nat.simps, simp)

lemma ack_all_none:
  assumes "faults j = []" "ids \<noteq> []"
  shows "\<exists>t. ack d ids j = (Inr (), j\<lparr>tbl := t\<rparr>)"
proof -
  obtain t where "for_each (\<lambda>eid. update_outbox (\<lambda>r. is_delivery d eid r \<and> ob_state r = Sending) set_delivered) ids j =
      (Inr (), j\<lparr>tbl := t\<rparr>)"
    using for_each_done [of "\<lambda>eid. update_outbox (\<lambda>r. is_delivery d eid r \<and> ob_state r = Sending) set_delivered" j ids]
      update_outbox_none assms(1) by blast
  with assms show ?thesis by (auto simp: ack_def tx_none bindE_def)
qed

text \<open>What the collector's answer makes of each delivery of the batch.\<close>

definition answered_row :: "nat \<Rightarrow> (string \<Rightarrow> nat \<Rightarrow> int) \<Rightarrow> time \<Rightarrow> outbox_row \<Rightarrow> outbox_row" where
  "answered_row status jitter now r =
     row_fails (if is_permanent status then 10 else 1) (jitter (ob_event_id r)) (''otlp_http_'' @ show_nat status) now r"

text \<open>An answer of the collector that refuses a batch settles it: a permanent refusal dead-letters every
  delivery of the batch, any other counts one failed attempt for each, and no row outside the batch
  changes.\<close>

theorem otlp_refusal_settles_batch:
  assumes "outbox_ok (tbl j)" "faults j = []" "al \<noteq> []" "select_due d limit now (tbl j) \<noteq> []"
    and "encode (deliveries_to_spans rand (select_due d limit now (tbl j)) al) = Inr body"
    and "post body = Status status retry" "status \<notin> {200, 204}" "status < 1000"
  defines "P \<equiv> \<lambda>r. ob_destination r = d \<and> ob_event_id r \<in> dl_event_id ` set (select_due d limit now (tbl j))"
  shows "drain_otlp (otlp_send encode post rand) jitter d al limit now j =
    ((0, Some (Inr (HttpError status retry))),
     j\<lparr>tbl := (tbl j)\<lparr>t_outbox := update_where P (\<lambda>r. answered_row status jitter now (set_sending (now + lease_duration) r)) (t_outbox (tbl j))\<rparr>\<rparr>) \<and>
    (\<forall>r \<in> set (t_outbox (tbl j)). is_permanent status \<longrightarrow> ob_state (answered_row status jitter now (set_sending (now + lease_duration) r)) = DeadLettered) \<and>
    (\<forall>r. \<not> is_permanent status \<longrightarrow> ob_attempts (answered_row status jitter now (set_sending (now + lease_duration) r)) = ob_attempts r + 1)"
proof (intro conjI ballI allI impI)
  let ?ds = "select_due d limit now (tbl j)" and ?n = "if is_permanent status then 10 else 1 :: nat"
  let ?code = "''otlp_http_'' @ show_nat status"
  note l = lease_done [OF assms(2), of d limit now, folded P_def]
  let ?j1 = "j\<lparr>tbl := (tbl j)\<lparr>t_outbox := update_where P (set_sending (now + lease_duration)) (t_outbox (tbl j))\<rparr>\<rparr>"
  have key: "distinct_on (\<lambda>r. (ob_destination r, ob_event_id r)) (t_outbox (tbl ?j1))"
    using assms(1) by (simp add: outbox_ok_def events_ok_def distinct_on_update set_sending_def)
  have rows: "\<forall>x \<in> set ?ds. \<exists>r \<in> set (t_outbox (tbl ?j1)). is_delivery d (dl_event_id x) r"
    using leased_in_flight [OF assms(1,2) l] unfolding in_flight_def by blast
  have code: "?code \<noteq> []" "length ?code \<le> 64" using show_nat_status [OF assms(8)] by simp_all
  have "faults ?j1 = []" using assms(2) by simp
  note un = fail_unacked_all [OF this code select_due_distinct [OF assms(1)] rows key, of ?n jitter now, folded P_def]
  have t1: "t_outbox (tbl ?j1) = update_where P (set_sending (now + lease_duration)) (t_outbox (tbl j))" by simp
  have "update_where P (\<lambda>r. row_fails ?n (jitter (ob_event_id r)) ?code now r) (t_outbox (tbl ?j1)) =
    update_where P (\<lambda>r. answered_row status jitter now (set_sending (now + lease_duration) r)) (t_outbox (tbl j))"
    unfolding answered_row_def t1 by (rule update_where_comp) (simp add: P_def set_sending_def)
  with un have "fail_unacked ?n jitter d [] ?code now ?ds ?j1 =
      j\<lparr>tbl := (tbl j)\<lparr>t_outbox := update_where P (\<lambda>r. answered_row status jitter now (set_sending (now + lease_duration) r)) (t_outbox (tbl j))\<rparr>\<rparr>"
    by simp
  then show "drain_otlp (otlp_send encode post rand) jitter d al limit now j =
    ((0, Some (Inr (HttpError status retry))),
     j\<lparr>tbl := (tbl j)\<lparr>t_outbox := update_where P (\<lambda>r. answered_row status jitter now (set_sending (now + lease_duration) r)) (t_outbox (tbl j))\<rparr>\<rparr>)"
    using assms(3-7) by (simp add: drain_otlp_def l otlp_send_def)
next
  fix r assume "r \<in> set (t_outbox (tbl j))" "is_permanent status"
  then show "ob_state (answered_row status jitter now (set_sending (now + lease_duration) r)) = DeadLettered"
    using assms(1) by (simp add: answered_row_def) (rule ten_failures, simp add: outbox_ok_def outbox_row_ok_def set_sending_def)
next
  fix r assume "\<not> is_permanent status"
  then show "ob_attempts (answered_row status jitter now (set_sending (now + lease_duration) r)) = ob_attempts r + 1"
    by (simp add: answered_row_def failed_row_attempts set_sending_def)
qed

lemma outbox_after: "t_outbox (tbl (j\<lparr>tbl := t\<lparr>t_outbox := xs\<rparr>\<rparr>)) = xs"
  by simp

lemma otlp_refusal_settles_batch_witness:
  "map ob_state (t_outbox (tbl (snd (drain_otlp (otlp_send (\<lambda>_. Inr []) (\<lambda>_. Status 400 0) (\<lambda>_. (None, None))) (\<lambda>_ _. 0)
     ''otlp'' [''status''] 10 9 event_journal)))) = [DeadLettered, Pending]"
proof -
  have f: "faults event_journal = []" "[''status''] \<noteq> []" "select_due ''otlp'' 10 9 (tbl event_journal) \<noteq> []" by code_simp+
  have s: "(400 :: nat) \<notin> {200, 204}" "(400 :: nat) < 1000" by simp_all
  have rows: "t_outbox (tbl event_journal) = [pending_row 7 example_event ''otlp'', pending_row 7 example_event ''controlplane'']"
    "map dl_event_id (select_due ''otlp'' 10 9 (tbl event_journal)) = [ev_event_id example_event]" by code_simp+
  from arg_cong [OF rows(2), of set] have ids: "dl_event_id ` set (select_due ''otlp'' 10 9 (tbl event_journal)) = {ev_event_id example_event}" by simp
  have "ob_destination (pending_row 7 example_event x) = x" "ob_event_id (pending_row 7 example_event x) = ev_event_id example_event"
    "ob_state (pending_row 7 example_event x) = Pending" for x by (simp_all add: pending_row_def)
  with ids rows(1) have upd: "map ob_state (update_where
      (\<lambda>r. ob_destination r = ''otlp'' \<and> ob_event_id r \<in> dl_event_id ` set (select_due ''otlp'' 10 9 (tbl event_journal)))
      f (t_outbox (tbl event_journal))) = [ob_state (f (pending_row 7 example_event ''otlp'')), Pending]" for f by simp
  note all = otlp_refusal_settles_batch [OF event_journal_outbox_ok f, of "\<lambda>_. Inr []" "\<lambda>_. (None, None)" "[]" "\<lambda>_. Status 400 0" 400 0
      "\<lambda>_ _. 0", OF refl refl s]
  have "is_permanent 400" by (simp add: is_permanent_def)
  moreover have "pending_row 7 example_event ''otlp'' \<in> set (t_outbox (tbl event_journal))" unfolding rows(1) by simp
  ultimately have "ob_state (answered_row 400 (\<lambda>_ _. 0) 9 (set_sending (9 + lease_duration) (pending_row 7 example_event ''otlp''))) = DeadLettered"
    using conjunct1 [OF conjunct2 [OF all]] by blast
  with upd conjunct1 [OF all] show ?thesis by (simp only: snd_conv outbox_after)
qed

section \<open>What a span discloses\<close>

text \<open>The value of an allowed field determines every part of the span it feeds.\<close>

lemma json_field:
  "map_of (event_json e) ''trace_id'' = Some (JStr (ev_trace_id e))"
  "map_of (event_json e) ''span_id'' = Some (JStr (ev_span_id e))"
  "map_of (event_json e) ''created_at'' = Some (JTime (ev_created_at e))"
  "map_of (event_json e) ''latency_ms'' = Some (JNum (ev_latency_ms e))"
  "map_of (event_json e) ''status'' = Some (JStr (ev_status e))"
  "map_of (event_json e) ''event_type'' = Some (JStr (ev_event_type e))"
  "map_of (event_json e) ''provider'' = Some (JStr (ev_provider e))"
  "map_of (event_json e) ''requested_model'' = Some (JStr (ev_requested_model e))"
  "map_of (event_json e) ''usage_source'' = Some (JStr (ev_usage_source e))"
  "map_of (event_json e) ''run_id'' = Some (JStr (ev_run_id e))"
  "map_of (event_json e) ''installation_id'' = Some (JStr (ev_installation_id e))"
  "map_of (event_json e) ''input_tokens'' = Some (json_opt JNum (ev_input_tokens e))"
  "map_of (event_json e) ''output_tokens'' = Some (json_opt JNum (ev_output_tokens e))"
  "map_of (event_json e) ''cached_tokens'' = Some (json_opt JNum (ev_cached_tokens e))"
  "map_of (event_json e) ''actual_cost'' = Some (json_opt JStr (ev_actual_cost e))"
  "map_of (event_json e) ''estimated_cost'' = Some (json_opt JStr (ev_estimated_cost e))"
  "map_of (event_json e) ''response_model'' = (if ev_response_model e = [] then None else Some (JStr (ev_response_model e)))"
  "map_of (event_json e) ''error_code'' = (if ev_error_code e = [] then None else Some (JStr (ev_error_code e)))"
  "map_of (event_json e) ''pricing_version'' = (if ev_pricing_version e = [] then None else Some (JStr (ev_pricing_version e)))"
  "map_of (event_json e) ''policy_decision'' = map_option decision_json (ev_policy_decision e)"
  unfolding event_json_def omit_empty_def by (simp_all add: map_add_def split: option.split)

lemma json_opt_inj: "json_opt JNum a = json_opt JNum b \<longleftrightarrow> a = b" "json_opt JStr c = json_opt JStr d \<longleftrightarrow> c = d"
  by (simp_all add: json_opt_def split: option.split)

lemma decision_json_inj: "decision_json p = decision_json q \<Longrightarrow> pd_decision p = pd_decision q \<and> pd_reason p = pd_reason q"
  by (simp add: decision_json_def)

definition agree_on :: "string list \<Rightarrow> event \<Rightarrow> event \<Rightarrow> bool" where
  "agree_on al e e' \<longleftrightarrow> (\<forall>f. may al f \<longrightarrow> map_of (event_json e) f = map_of (event_json e') f)"

lemma agree_onD: "agree_on al e e' \<Longrightarrow> may al f \<Longrightarrow> map_of (event_json e) f = map_of (event_json e') f"
  by (simp add: agree_on_def)

lemma agree_fields:
  assumes "agree_on al e e'"
  shows "may al ''trace_id'' \<Longrightarrow> ev_trace_id e = ev_trace_id e'" "may al ''span_id'' \<Longrightarrow> ev_span_id e = ev_span_id e'"
    "may al ''created_at'' \<Longrightarrow> ev_created_at e = ev_created_at e'" "may al ''latency_ms'' \<Longrightarrow> ev_latency_ms e = ev_latency_ms e'"
    "may al ''status'' \<Longrightarrow> ev_status e = ev_status e'" "may al ''event_type'' \<Longrightarrow> ev_event_type e = ev_event_type e'"
    "may al ''provider'' \<Longrightarrow> ev_provider e = ev_provider e'" "may al ''requested_model'' \<Longrightarrow> ev_requested_model e = ev_requested_model e'"
    "may al ''usage_source'' \<Longrightarrow> ev_usage_source e = ev_usage_source e'" "may al ''run_id'' \<Longrightarrow> ev_run_id e = ev_run_id e'"
    "may al ''installation_id'' \<Longrightarrow> ev_installation_id e = ev_installation_id e'"
    "may al ''input_tokens'' \<Longrightarrow> ev_input_tokens e = ev_input_tokens e'" "may al ''output_tokens'' \<Longrightarrow> ev_output_tokens e = ev_output_tokens e'"
    "may al ''cached_tokens'' \<Longrightarrow> ev_cached_tokens e = ev_cached_tokens e'"
    "may al ''actual_cost'' \<Longrightarrow> ev_actual_cost e = ev_actual_cost e'" "may al ''estimated_cost'' \<Longrightarrow> ev_estimated_cost e = ev_estimated_cost e'"
    "may al ''response_model'' \<Longrightarrow> ev_response_model e = ev_response_model e'" "may al ''error_code'' \<Longrightarrow> ev_error_code e = ev_error_code e'"
    "may al ''pricing_version'' \<Longrightarrow> ev_pricing_version e = ev_pricing_version e'"
    "may al ''policy_decision'' \<Longrightarrow> map_option decision_json (ev_policy_decision e) = map_option decision_json (ev_policy_decision e')"
  by (drule agree_onD [OF assms], simp add: json_field json_opt_inj split: if_splits)+

lemma add_eq:
  "(may al f \<Longrightarrow> v = w) \<Longrightarrow> add_attr al k f v = add_attr al k f w"
  "(may al f \<Longrightarrow> x = y) \<Longrightarrow> add_int al k f x = add_int al k f y"
  "(may al f \<Longrightarrow> a = b) \<Longrightarrow> (case a of None \<Rightarrow> [] | Some v \<Rightarrow> add_attr al k f v) = (case b of None \<Rightarrow> [] | Some v \<Rightarrow> add_attr al k f v)"
  "(may al f \<Longrightarrow> c = d) \<Longrightarrow> (case c of None \<Rightarrow> [] | Some x \<Rightarrow> add_int al k f x) = (case d of None \<Rightarrow> [] | Some x \<Rightarrow> add_int al k f x)"
  "(may al f \<Longrightarrow> v = w) \<Longrightarrow> (if v \<noteq> [] then add_attr al k f v else []) = (if w \<noteq> [] then add_attr al k f w else [])"
  by (simp_all add: add_attr_def add_int_def split: option.split)

lemma span_attributes_agree:
  assumes "agree_on al e e'"
  shows "span_attributes al e = span_attributes al e'"
proof -
  note f = agree_fields [OF assms]
  have "(case ev_policy_decision e of None \<Rightarrow> [] | Some p \<Rightarrow>
        if may al ''policy_decision'' then [(''virgil.policy.decision'', StringValue (pd_decision p)),
          (''virgil.policy.reason'', StringValue (pd_reason p))] else []) =
    (case ev_policy_decision e' of None \<Rightarrow> [] | Some p \<Rightarrow>
        if may al ''policy_decision'' then [(''virgil.policy.decision'', StringValue (pd_decision p)),
          (''virgil.policy.reason'', StringValue (pd_reason p))] else [])"
    using f(20) by (cases "ev_policy_decision e"; cases "ev_policy_decision e'") (auto dest: decision_json_inj)
  then show ?thesis unfolding span_attributes_def by (intro arg_cong2 [where f = "(@)"] add_eq f)
qed

text \<open>C17: The spans sent to the collector disclose the allowed fields only: two events with well-formed
  identifiers that agree on the allowed fields become the same span, so nothing about the other fields
  can be read from it.\<close>

theorem span_discloses_allowed_fields_only:
  assumes "agree_on al e e'"
    and "hex_to_bytes (ev_trace_id e) 16 \<noteq> None" "hex_to_bytes (ev_span_id e) 8 \<noteq> None"
    and "hex_to_bytes (ev_trace_id e') 16 \<noteq> None" "hex_to_bytes (ev_span_id e') 8 \<noteq> None"
  shows "event_to_span rand e al = event_to_span rand e' al"
proof -
  note f = agree_fields [OF assms(1)] and a = span_attributes_agree [OF assms(1)]
  obtain t s t' s' where ids: "hex_to_bytes (ev_trace_id e) 16 = Some t" "hex_to_bytes (ev_span_id e) 8 = Some s"
    "hex_to_bytes (ev_trace_id e') 16 = Some t'" "hex_to_bytes (ev_span_id e') 8 = Some s'" using assms(2-5) by auto
  have eqs: "(if may al ''trace_id'' then Some t else fst rand) = (if may al ''trace_id'' then Some t' else fst rand)"
    "(if may al ''span_id'' then Some s else snd rand) = (if may al ''span_id'' then Some s' else snd rand)"
    using f(1,2) ids by auto
  have more: "(if may al ''event_type'' then ev_event_type e else ''virgil.event'') = (if may al ''event_type'' then ev_event_type e' else ''virgil.event'')"
    "(if may al ''status'' then Some (if ev_status e \<noteq> ''success''
                         then \<lparr>os_ok = False, os_message = ev_status e\<rparr> else \<lparr>os_ok = True, os_message = []\<rparr>)
                       else None) = (if may al ''status'' then Some (if ev_status e' \<noteq> ''success''
                         then \<lparr>os_ok = False, os_message = ev_status e'\<rparr> else \<lparr>os_ok = True, os_message = []\<rparr>)
                       else None)"
    "(if may al ''created_at'' then to_uint64 (ev_created_at e) else 0) = (if may al ''created_at'' then to_uint64 (ev_created_at e') else 0)"
    using f(3,5,6) by auto
  have start: "(if may al ''created_at'' then (if may al ''latency_ms''
        then to_uint64 (ev_created_at e + wrap64 (wrap64 (- ev_latency_ms e) * 1000000)) else if may al ''created_at'' then to_uint64 (ev_created_at e') else 0) else 0) =
      (if may al ''created_at'' then (if may al ''latency_ms''
        then to_uint64 (ev_created_at e' + wrap64 (wrap64 (- ev_latency_ms e') * 1000000)) else if may al ''created_at'' then to_uint64 (ev_created_at e') else 0) else 0)"
    using f(3,4) by simp
  show ?thesis unfolding event_to_span_def ids a Let_def option.case prod.case eqs start more ..
qed

lemma span_discloses_allowed_fields_only_witness:
  "event_to_span (None, Some [1]) example_event [''status'', ''trace_id''] =
   event_to_span (None, Some [1]) (example_event\<lparr>ev_run_id := ''other'', ev_provider := ''hidden''\<rparr>) [''status'', ''trace_id'']"
proof (rule span_discloses_allowed_fields_only)
  show "agree_on [''status'', ''trace_id''] example_event (example_event\<lparr>ev_run_id := ''other'', ev_provider := ''hidden''\<rparr>)"
    by (auto simp: agree_on_def may_def json_field)
qed code_simp+

end
