(* ===== verification/Control_Plane.thy ===== *)
theory Control_Plane
  imports Export Policy_Engine
begin

text \<open>
  \<open>internal/controlplane/client.go\<close> and the delivery loop of \<open>cmd/virgil/controlplane.go\<close>: enrolment, batches
  of events, the policy with its last known value, the revocation of the credential, and the rounds in
  which the core fetches its policy and drains its outbox. The server is a function of the request on a
  state of its own, so that a request that is not made leaves that state as it was.
\<close>

section \<open>The client\<close>

record cp_client =
  cc_credential :: string
  cc_revoked :: bool
  cc_policy :: policy_envelope

definition zero_envelope :: policy_envelope where
  "zero_envelope = \<lparr>pe_version = 0, pe_etag = [], pe_limits = \<lparr>cp_max_calls = 0, cp_max_cost = [], cp_max_input = 0,
     cp_max_output = 0, cp_max_total = 0, cp_max_duration = 0, cp_max_tools = 0, cp_providers = [], cp_models = [], cp_tools = []\<rparr>\<rparr>"

definition new_client :: "string \<Rightarrow> cp_client" where
  "new_client credential = \<lparr>cc_credential = credential, cc_revoked = False, cc_policy = zero_envelope\<rparr>"

definition set_credential :: "string \<Rightarrow> cp_client \<Rightarrow> cp_client" where
  "set_credential credential c = c\<lparr>cc_credential := credential, cc_revoked := False\<rparr>"

definition mark_revoked :: "cp_client \<Rightarrow> cp_client" where
  "mark_revoked c = c\<lparr>cc_revoked := True\<rparr>"

definition revoked_error :: goerr where
  "revoked_error = Errorf ''control plane credential revoked''"

text \<open>No response at all, or a status with the decoded body (\<open>None\<close> when it does not decode).\<close>

datatype 'a http_reply = NoReply goerr | Reply nat "'a option"

record enrollment =
  el_installation_id :: string
  el_credential :: string

definition enroll :: "(string \<Rightarrow> 'w \<Rightarrow> enrollment http_reply \<times> 'w) \<Rightarrow> string \<Rightarrow> 'w \<Rightarrow> enrollment res \<times> 'w" where
  "enroll post one_time_token w = (case post one_time_token w of
     (NoReply e, w1) \<Rightarrow> (Inl (Wrapf ''enroll'' e), w1)
   | (Reply status body, w1) \<Rightarrow>
       (if status \<noteq> 200 \<and> status \<noteq> 201 then Inl (Errorf ''enroll: server returned'')
        else (case body of None \<Rightarrow> Inl (Errorf ''enroll: decode'')
          | Some en \<Rightarrow> if el_credential en = [] then Inl (Errorf ''enroll: empty credential in response'') else Inr en), w1))"

text \<open>The events of a batch: identifier and allowed fields.\<close>

fun batch_events :: "delivery list \<Rightarrow> string list \<Rightarrow> (string \<times> (string \<rightharpoonup> json)) list res" where
  "batch_events [] al = Inr []"
| "batch_events (d # ds) al = (case for_export (dl_event d) al of
     Inl e \<Rightarrow> Inl (Wrapf ''select event'' e)
   | Inr m \<Rightarrow> rbind (batch_events ds al) (\<lambda>evs. Inr ((dl_event_id d, m) # evs)))"

definition send_batch :: "(string \<Rightarrow> (string \<times> (string \<rightharpoonup> json)) list \<Rightarrow> 'w \<Rightarrow> batch_ack http_reply \<times> 'w) \<Rightarrow>
    cp_client \<times> 'w \<Rightarrow> delivery list \<Rightarrow> string list \<Rightarrow> (batch_ack \<times> goerr option) \<times> (cp_client \<times> 'w)" where
  "send_batch post cw ds al = (case cw of (c, w) \<Rightarrow>
     if al = [] then ((no_ack, Some (Errorf ''export field allowlist is required'')), cw)
     else if cc_revoked c then ((no_ack, Some revoked_error), cw)
     else (case batch_events ds al of
       Inl e \<Rightarrow> ((no_ack, Some e), cw)
     | Inr evs \<Rightarrow> (case post (cc_credential c) evs w of
         (NoReply e, w1) \<Rightarrow> ((no_ack, Some (Wrapf ''send batch'' e)), (c, w1))
       | (Reply status body, w1) \<Rightarrow>
           (if status = 401 \<or> status = 403 then ((no_ack, Some revoked_error), (mark_revoked c, w1))
            else if status \<noteq> 200 \<and> status \<noteq> 202 then ((no_ack, Some (Errorf ''send batch: server returned'')), (c, w1))
            else (case body of None \<Rightarrow> ((no_ack, Some (Errorf ''send batch: decode'')), (c, w1))
              | Some a \<Rightarrow> ((a, None), (c, w1)))))))"

text \<open>The envelope of the answer carries the \<open>ETag\<close> of its header.\<close>

definition current_policy :: "(string \<Rightarrow> string \<Rightarrow> 'w \<Rightarrow> policy_envelope http_reply \<times> 'w) \<Rightarrow> cp_client \<times> 'w \<Rightarrow> string \<Rightarrow>
    (policy_envelope \<times> goerr option) \<times> (cp_client \<times> 'w)" where
  "current_policy get cw etag = (case cw of (c, w) \<Rightarrow>
     if cc_revoked c then ((zero_envelope, Some revoked_error), cw)
     else (case get (cc_credential c) etag w of
       (NoReply e, w1) \<Rightarrow> ((cc_policy c, None), (c, w1))
     | (Reply status body, w1) \<Rightarrow>
         (if status = 401 \<or> status = 403 then ((zero_envelope, Some revoked_error), (mark_revoked c, w1))
          else if status = 304 then ((zero_envelope, None), (c, w1))
          else if status \<noteq> 200 then ((zero_envelope, Some (Errorf ''current policy: server returned'')), (c, w1))
          else (case body of None \<Rightarrow> ((zero_envelope, Some (Errorf ''current policy: decode'')), (c, w1))
            | Some env \<Rightarrow> ((env, None), (c\<lparr>cc_policy := env\<rparr>, w1))))))"

section \<open>The delivery loop\<close>

definition load_cached_policy :: "engine \<Rightarrow> unit res \<times> engine" where
  "load_cached_policy e = (case on_journal load_remote_policy e of
     (Inl err, e1) \<Rightarrow> (Inl err, e1)
   | (Inr None, e1) \<Rightarrow> (Inr (), e1)
   | (Inr (Some (version, policy)), e1) \<Rightarrow>
       (if pe_version policy \<noteq> version then (Inl (Errorf ''cached policy version mismatch''), e1)
        else apply_remote_policy policy e1))"

definition sync_policy :: "(string \<Rightarrow> string \<Rightarrow> 'w \<Rightarrow> policy_envelope http_reply \<times> 'w) \<Rightarrow> string \<Rightarrow> engine \<Rightarrow> cp_client \<times> 'w \<Rightarrow>
    goerr option \<times> string \<times> engine \<times> (cp_client \<times> 'w)" where
  "sync_policy get etag e cw = (case current_policy get cw etag of ((policy, err), cw1) \<Rightarrow>
     if err \<noteq> None \<or> pe_version policy = 0 then (err, etag, e, cw1)
     else if pe_version policy \<le> remote_version_of e then (None, etag, e, cw1)
     else (case cache_and_apply_remote_policy policy e of
         (Inl err, e1) \<Rightarrow> (Some err, etag, e1, cw1)
       | (Inr _, e1) \<Rightarrow> (None, pe_etag policy, e1, cw1)))"

text \<open>The wait after an idle round, in nanoseconds: \<open>time.Duration(5*(1<<idleStreak)) * time.Second\<close>, at
  most two minutes. Shifts and products wrap at 64 bits.\<close>

definition base_interval :: int where
  "base_interval = 5 * 1000000000"

definition max_interval :: int where
  "max_interval = 120 * 1000000000"

definition idle_interval :: "nat \<Rightarrow> int" where
  "idle_interval streak = (let next = wrap64 (wrap64 (5 * wrap64 (2 ^ streak)) * 1000000000) in
     if next > max_interval then max_interval else next)"

record 'w delivery_loop =
  lp_etag :: string
  lp_idle :: nat
  lp_interval :: int
  lp_engine :: engine
  lp_client :: "cp_client \<times> 'w"

definition drain_engine :: "('c \<Rightarrow> delivery list \<Rightarrow> string list \<Rightarrow> (batch_ack \<times> goerr option) \<times> 'c) \<Rightarrow>
    (string \<Rightarrow> int) \<Rightarrow> string list \<Rightarrow> time \<Rightarrow> 'c \<Rightarrow> engine \<Rightarrow> (nat \<times> goerr option) \<times> ('c \<times> engine)" where
  "drain_engine send jitter al now c e =
     (case drain_control_plane send jitter ''controlplane'' al 100 now c (en_journal e) of
        (r, (c1, j)) \<Rightarrow> (r, (c1, e\<lparr>en_journal := j\<rparr>)))"

text \<open>One round; \<open>None\<close>: the loop returns because the credential is revoked.\<close>

definition delivery_round :: "(string \<Rightarrow> string \<Rightarrow> 'w \<Rightarrow> policy_envelope http_reply \<times> 'w) \<Rightarrow>
    (string \<Rightarrow> (string \<times> (string \<rightharpoonup> json)) list \<Rightarrow> 'w \<Rightarrow> batch_ack http_reply \<times> 'w) \<Rightarrow>
    (string \<Rightarrow> int) \<Rightarrow> string list \<Rightarrow> time \<Rightarrow> 'w delivery_loop \<Rightarrow> 'w delivery_loop option" where
  "delivery_round get post jitter al now l =
     (case sync_policy get (lp_etag l) (lp_engine l) (lp_client l) of (err, etag, e, cw) \<Rightarrow>
        (case (case err of Some _ \<Rightarrow> ((0, err), (cw, e))
               | None \<Rightarrow> drain_engine (send_batch post) jitter al now cw e) of ((drained, err1), (cw1, e1)) \<Rightarrow>
          if (case err1 of None \<Rightarrow> False | Some x \<Rightarrow> errors_is x revoked_error) then None
          else if drained = 0 \<and> etag = lp_etag l
            then Some \<lparr>lp_etag = etag, lp_idle = lp_idle l + 1, lp_interval = idle_interval (lp_idle l + 1),
              lp_engine = e1, lp_client = cw1\<rparr>
            else Some \<lparr>lp_etag = etag, lp_idle = 0, lp_interval = base_interval, lp_engine = e1, lp_client = cw1\<rparr>))"

section \<open>The wait between idle rounds\<close>

lemma wrap64_cong: "x mod 18446744073709551616 = y mod 18446744073709551616 \<Longrightarrow> wrap64 x = wrap64 y"
  unfolding wrap64_def by (rule arg_cong [where f = "\<lambda>z. z - 9223372036854775808"], rule mod_add_cong) simp_all

lemma wrap64_mod: "wrap64 x mod 18446744073709551616 = x mod 18446744073709551616"
  unfolding wrap64_def by (simp add: mod_diff_left_eq)

lemma wrap64_mult_left: "wrap64 (wrap64 x * y) = wrap64 (x * y)"
  by (rule wrap64_cong, rule mod_mult_cong [OF wrap64_mod refl])

lemma wrap64_mult_right: "wrap64 (y * wrap64 x) = wrap64 (y * x)"
  by (rule wrap64_cong, rule mod_mult_cong [OF refl wrap64_mod])

lemma idle_interval_eq: "idle_interval n = (let next = wrap64 (5000000000 * 2 ^ n) in if next > max_interval then max_interval else next)"
proof -
  have "wrap64 (wrap64 (5 * wrap64 (2 ^ n)) * 1000000000) = wrap64 (5000000000 * 2 ^ n)"
    by (simp add: wrap64_mult_right wrap64_mult_left mult.commute)
  then show ?thesis by (simp add: idle_interval_def)
qed

lemma wrap64_late: "55 \<le> n \<Longrightarrow> wrap64 (5000000000 * 2 ^ n) = 0"
proof -
  assume "55 \<le> n"
  then obtain k where n: "n = 55 + k" using le_iff_add by blast
  have "(5000000000 :: int) * 2 ^ n = 18446744073709551616 * (9765625 * 2 ^ k)"
    by (simp add: n power_add)
  then have "(5000000000 * 2 ^ n) mod 18446744073709551616 = (0 :: int)" by simp
  then have "wrap64 (5000000000 * 2 ^ n) = wrap64 0" by (intro wrap64_cong) simp
  then show ?thesis by (simp add: wrap64_def)
qed

text \<open>C19: The back-off of the idle delivery loop works for about an hour and then breaks. After one to thirty
  idle rounds in a row the wait is between ten seconds and two minutes, growing with the rounds; after the
  31st the product has wrapped to a negative duration, and from the 55th on it is zero for good, so the
  loop asks the server again without any pause.\<close>

theorem idle_wait_bounds_and_overflow:
  "(\<forall>n \<in> {1..30}. 2 * base_interval \<le> idle_interval n \<and> idle_interval n \<le> max_interval) \<and>
   (\<forall>n \<in> {1..30}. \<forall>m \<in> {n..30}. idle_interval n \<le> idle_interval m) \<and>
   idle_interval 31 < 0 \<and> (\<forall>n \<ge> 55. idle_interval n = 0)"
proof (intro conjI ballI allI impI)
  have small: "idle_interval n = min max_interval (5000000000 * 2 ^ n)" if "n \<le> 30" for n
  proof -
    have "(2 :: int) ^ n \<le> 2 ^ 30" using that by (intro power_increasing) simp_all
    then have "(5000000000 :: int) * 2 ^ n \<le> max_int64" by (simp add: max_int64_def)
    then show ?thesis by (simp add: idle_interval_eq wrap64_nonneg_id min_def Let_def)
  qed
  fix n :: nat assume n: "n \<in> {1..30}"
  have two: "(2 :: int) ^ 1 \<le> 2 ^ n" using n by (intro power_increasing) simp_all
  show "2 * base_interval \<le> idle_interval n" "idle_interval n \<le> max_interval"
    using n two by (simp_all add: small base_interval_def max_interval_def)
  fix m assume m: "m \<in> {n..30}"
  then have "(2 :: int) ^ n \<le> 2 ^ m" by (intro power_increasing) simp_all
  then show "idle_interval n \<le> idle_interval m" using n m by (simp add: small min.coboundedI2)
next
  show "idle_interval 31 < 0" by (simp add: idle_interval_eq wrap64_def max_interval_def)
next
  fix n :: nat assume "55 \<le> n"
  then show "idle_interval n = 0" by (simp add: idle_interval_eq wrap64_late max_interval_def)
qed

lemma idle_wait_bounds_and_overflow_witness:
  "2 * base_interval \<le> idle_interval 7 \<and> idle_interval 7 \<le> max_interval \<and> idle_interval 60 = 0"
proof -
  have "(7 :: nat) \<in> {1..30}" "(55 :: nat) \<le> 60" by simp_all
  with idle_wait_bounds_and_overflow show ?thesis by blast
qed

section \<open>A policy, once synchronised\<close>

lemma merge_first_time: "merge_limits l env seen = Inr m \<Longrightarrow> merge_limits l env 0 = Inr m \<and> 0 < pe_version env"
  by (simp add: merge_limits_def Let_def split: if_splits)

text \<open>With a working driver a policy that merges and is newer than the stored one is stored and put in force.\<close>

lemma cache_and_apply_newer:
  assumes "merge_limits (en_local e) env (en_remote_version e) = Inr m" "faults (en_journal e) = []"
    and "0 \<le> remote_version (tbl (en_journal e))" "remote_version (tbl (en_journal e)) < pe_version env"
  shows "\<exists>e'. cache_and_apply_remote_policy env e = (Inr (), e') \<and> en_limits e' = m \<and> en_remote_version e' = pe_version env \<and>
    en_local e' = en_local e \<and> t_remote (tbl (en_journal e')) = Some (pe_version env, env) \<and> faults (en_journal e') = []"
proof -
  have "\<exists>j'. save_remote_policy (pe_version env) env (en_journal e) = (Inr (), j') \<and>
      t_remote (tbl j') = Some (pe_version env, env) \<and> faults j' = []"
    using assms(2-4) by (auto simp: save_remote_policy_def remote_version_def bindE_Inr split: option.splits)
  with assms(1) show ?thesis by (auto simp: cache_and_apply_remote_policy_def on_journal_def)
qed

text \<open>An engine started on a journal loads the policy the journal stores.\<close>

lemma restart_loads_policy:
  assumes "new_engine j0 l = Inr e0" "t_remote (tbl j) = Some (pe_version env, env)" "faults j = []"
    and "merge_limits l env seen = Inr m"
  shows "\<exists>e1 e2. new_engine j l = Inr e1 \<and> load_cached_policy e1 = (Inr (), e2) \<and> en_limits e2 = m \<and>
    en_remote_version e2 = pe_version env"
proof -
  from assms(1) have n: "new_engine j l = Inr (e0\<lparr>en_journal := j\<rparr>)" and e0: "en_local e0 = l" "en_remote_version e0 = 0"
    by (auto simp: new_engine_def split: if_splits sum.splits)
  from merge_first_time [OF assms(4)] have m: "merge_limits l env 0 = Inr m" "0 < pe_version env" by simp_all
  have "on_journal load_remote_policy (e0\<lparr>en_journal := j\<rparr>) = (Inr (Some (pe_version env, env)), e0\<lparr>en_journal := j\<rparr>)"
    using assms(2,3) by (simp add: on_journal_def load_remote_policy_def)
  with n m e0 show ?thesis by (simp add: load_cached_policy_def apply_remote_policy_def)
qed

text \<open>C18: What the core fetches from its control plane decides what is in force. The envelope is the one the server
  answers with, if it answers. A failed fetch, an empty answer and a version that is not newer than the one in
  force change nothing of the engine, and neither does a policy that does not merge with the local limits. A newer one that
  merges is put in force by the merge with the local limits, is stored under its version, becomes the tag of the next
  request, and is in force again, with the same limits and version, in an engine started on the same journal. The database
  works, and the version in force is at least the stored one, as it is once the cached policy has been loaded.\<close>

theorem synced_policy_survives_restart:
  assumes fetch: "current_policy get (c, w) etag = ((policy, err), cw1)"
    and db: "faults (en_journal e) = []" "0 \<le> remote_version (tbl (en_journal e))"
      "remote_version (tbl (en_journal e)) \<le> en_remote_version e"
    and loc: "new_engine j0 (en_local e) = Inr e0"
  shows "(\<forall>env w1. \<not> cc_revoked c \<and> get (cc_credential c) etag w = (Reply 200 (Some env), w1) \<longrightarrow> policy = env \<and> err = None) \<and>
    (if err \<noteq> None \<or> pe_version policy = 0 \<or> pe_version policy \<le> en_remote_version e
     then sync_policy get etag e (c, w) = (err, etag, e, cw1)
     else (case merge_limits (en_local e) policy (en_remote_version e) of
         Inl x \<Rightarrow> sync_policy get etag e (c, w) = (Some x, etag, e, cw1)
       | Inr m \<Rightarrow> \<exists>e'. sync_policy get etag e (c, w) = (None, pe_etag policy, e', cw1) \<and>
           en_limits e' = m \<and> en_remote_version e' = pe_version policy \<and>
           t_remote (tbl (en_journal e')) = Some (pe_version policy, policy) \<and>
           (\<exists>e1 e2. new_engine (en_journal e') (en_local e) = Inr e1 \<and> load_cached_policy e1 = (Inr (), e2) \<and>
              en_limits e2 = m \<and> en_remote_version e2 = pe_version policy)))"
proof -
  have reply: "policy = env \<and> err = None" if "\<not> cc_revoked c" "get (cc_credential c) etag w = (Reply 200 (Some env), w1)" for env w1
    using fetch that by (simp add: current_policy_def)
  have idle: "sync_policy get etag e (c, w) = (err, etag, e, cw1)"
    if "err \<noteq> None \<or> pe_version policy = 0 \<or> pe_version policy \<le> en_remote_version e"
    using that by (auto simp: sync_policy_def fetch remote_version_of_def)
  have run: "sync_policy get etag e (c, w) = (case cache_and_apply_remote_policy policy e of
       (Inl x, e1) \<Rightarrow> (Some x, etag, e1, cw1) | (Inr _, e1) \<Rightarrow> (None, pe_etag policy, e1, cw1))"
    if "\<not> (err \<noteq> None \<or> pe_version policy = 0 \<or> pe_version policy \<le> en_remote_version e)"
    using that by (auto simp: sync_policy_def fetch remote_version_of_def split: sum.split prod.split)
  show ?thesis
  proof (cases "err \<noteq> None \<or> pe_version policy = 0 \<or> pe_version policy \<le> en_remote_version e")
    case True
    with idle reply show ?thesis by auto
  next
    case newer: False
    show ?thesis
    proof (cases "merge_limits (en_local e) policy (en_remote_version e)")
      case (Inl x)
      with newer run [OF newer] reply show ?thesis by (simp add: cache_and_apply_remote_policy_def)
    next
      case (Inr m)
      from cache_and_apply_newer [OF Inr db(1,2)] db(3) newer obtain e' where
        e': "cache_and_apply_remote_policy policy e = (Inr (), e')" "en_limits e' = m" "en_remote_version e' = pe_version policy"
          "t_remote (tbl (en_journal e')) = Some (pe_version policy, policy)" "faults (en_journal e') = []" by auto
      from restart_loads_policy [OF loc e'(4,5) Inr] e'(1-4) Inr newer run [OF newer] reply show ?thesis by auto
    qed
  qed
qed

text \<open>A first policy of the server, fetched by an engine with local limits.\<close>

definition first_engine :: engine where
  "first_engine = (case new_engine (new_journal ''i'') sample_limits of Inr e \<Rightarrow> e)"

lemma synced_policy_survives_restart_witness:
  "\<exists>e' e1 e2. sync_policy (\<lambda>_ _ w. (Reply 200 (Some sample_envelope), w)) [] first_engine (new_client ''key'', ()) =
       (None, pe_etag sample_envelope, e', (\<lparr>cc_credential = ''key'', cc_revoked = False, cc_policy = sample_envelope\<rparr>, ())) \<and>
     new_engine (en_journal e') (en_local first_engine) = Inr e1 \<and>
     load_cached_policy e1 = (Inr (), e2) \<and> lm_max_duration (en_limits e2) = 60 \<and> en_remote_version e2 = 3"
proof -
  let ?get = "\<lambda>_ _ w. (Reply 200 (Some sample_envelope), w)"
  have f: "current_policy ?get (new_client ''key'', ()) [] =
      ((sample_envelope, None), (\<lparr>cc_credential = ''key'', cc_revoked = False, cc_policy = sample_envelope\<rparr>, ()))"
    by (simp add: current_policy_def new_client_def)
  have db: "faults (en_journal first_engine) = []" "0 \<le> remote_version (tbl (en_journal first_engine))"
    "remote_version (tbl (en_journal first_engine)) \<le> en_remote_version first_engine" by code_simp+
  have "is_ok (new_engine (new_journal ''i'') (en_local first_engine))" by code_simp
  then obtain e0 where n: "new_engine (new_journal ''i'') (en_local first_engine) = Inr e0" unfolding is_ok_iff by blast
  have "pe_version sample_envelope = 3" "en_remote_version first_engine = 0"
    "map_sum id lm_max_duration (merge_limits (en_local first_engine) sample_envelope (en_remote_version first_engine)) = Inr 60"
    by code_simp+
  with synced_policy_survives_restart [OF f db n]
  show ?thesis by (cases "merge_limits (en_local first_engine) sample_envelope (en_remote_version first_engine)") auto
qed

end
