(* ===== verification/Tool_Stream.thy ===== *)
theory Tool_Stream
  imports Telemetry "HOL-Library.Product_Lexorder"
begin

text \<open>
  \<open>internal/providers/tool_fingerprint.go\<close> and the parts of \<open>adapter.go\<close> and \<open>openai_compatible.go\<close> every
  adapter shares: the result of a call, its usage, and the fingerprints of the tool calls of a stream.
  The name and the arguments of a call arrive in pieces; \<open>accumulator\<close> is the contract a store of pieces
  keeps, and the fingerprints are shown not to depend on how a call was cut.
\<close>

section \<open>Results\<close>

record tool_fingerprint =
  tf_name :: string
  tf_args :: string

record result =
  re_model :: string
  re_input :: "int option"
  re_output :: "int option"
  re_cached :: "int option"
  re_usage_source :: string
  re_error_code :: string
  re_status :: string
  re_fingerprints :: "string list"
  re_streams :: "((int \<times> int) \<times> tool_fingerprint) list"
  re_text :: string
  re_error_body :: string
  re_content :: string

definition zero_result :: result where
  "zero_result = \<lparr>re_model = [], re_input = None, re_output = None, re_cached = None, re_usage_source = [], re_error_code = [],
     re_status = [], re_fingerprints = [], re_streams = [], re_text = [], re_error_body = [], re_content = []\<rparr>"

definition start_result :: result where
  "start_result = zero_result\<lparr>re_status := ''success'', re_usage_source := ''unknown''\<rparr>"

section \<open>Usage\<close>

record openai_usage =
  ou_prompt :: int
  ou_completion :: int
  ou_cached :: "int option"

definition apply_usage :: "openai_usage option \<Rightarrow> result \<Rightarrow> unit res \<times> result" where
  "apply_usage usage r = (case usage of None \<Rightarrow> (Inr (), r)
   | Some u \<Rightarrow> (if ou_prompt u < 0 \<or> ou_completion u < 0 then (Inl (Errorf ''invalid provider usage''), r)
      else (let r1 = r\<lparr>re_input := Some (ou_prompt u), re_output := Some (ou_completion u)\<rparr> in
        case ou_cached u of
          None \<Rightarrow> (Inr (), r1\<lparr>re_usage_source := ''provider''\<rparr>)
        | Some c \<Rightarrow> (if c < 0 \<or> c > ou_prompt u then (Inl (Errorf ''invalid cached usage''), r1)
            else (Inr (), r1\<lparr>re_cached := Some c, re_usage_source := ''provider''\<rparr>)))))"

record anthropic_usage =
  au_input :: "int option"
  au_output :: "int option"
  au_cache_read :: "int option"
  au_cache_creation :: "int option"

text \<open>The input tokens with the cached ones, refused when the sum passes \<open>MaxInt64\<close>.\<close>

fun add_extra :: "int \<Rightarrow> int option list \<Rightarrow> int option" where
  "add_extra acc [] = Some acc"
| "add_extra acc (None # es) = add_extra acc es"
| "add_extra acc (Some e # es) = (if e > wrap64 (max_int64 - acc) then None else add_extra (wrap64 (acc + e)) es)"

definition apply_anthropic_usage :: "anthropic_usage option \<Rightarrow> result \<Rightarrow> unit res \<times> result" where
  "apply_anthropic_usage usage r = (case usage of None \<Rightarrow> (Inr (), r)
   | Some u \<Rightarrow> (if \<exists>n \<in> set [au_input u, au_output u, au_cache_read u, au_cache_creation u]. (case n of None \<Rightarrow> False | Some v \<Rightarrow> v < 0)
        then (Inl (Errorf ''invalid provider usage''), r)
      else (case (case au_input u of None \<Rightarrow> Some r
            | Some n \<Rightarrow> (case add_extra n [au_cache_read u, au_cache_creation u] of
                None \<Rightarrow> None
              | Some acc \<Rightarrow> Some (r\<lparr>re_input := Some acc, re_usage_source := ''provider''\<rparr>))) of
          None \<Rightarrow> (Inl (Errorf ''invalid provider usage''), r)
        | Some r1 \<Rightarrow>
            (let r2 = (case au_output u of None \<Rightarrow> r1
                 | Some n \<Rightarrow> r1\<lparr>re_output := Some n, re_usage_source := ''provider''\<rparr>) in
             (Inr (), case au_cache_read u of None \<Rightarrow> r2 | Some n \<Rightarrow> r2\<lparr>re_cached := Some n\<rparr>)))))"

section \<open>Fingerprints\<close>

text \<open>\<open>sha\<close> is \<open>sha256.Sum256\<close>; a hash written to in pieces hashes their concatenation.\<close>

definition fingerprint_sum :: "(string \<Rightarrow> string) \<Rightarrow> tool_fingerprint \<Rightarrow> string" where
  "fingerprint_sum sha f = hex_encode (sha (sha (tf_name f) @ sha (tf_args f)))"

definition fingerprint_add :: "string \<Rightarrow> string \<Rightarrow> tool_fingerprint \<Rightarrow> tool_fingerprint" where
  "fingerprint_add name args f = \<lparr>tf_name = tf_name f @ name, tf_args = tf_args f @ args\<rparr>"

definition new_fingerprint :: tool_fingerprint where
  "new_fingerprint = \<lparr>tf_name = [], tf_args = []\<rparr>"

definition call_fingerprint :: "(string \<Rightarrow> string) \<Rightarrow> string \<Rightarrow> string \<Rightarrow> string" where
  "call_fingerprint sha name args = fingerprint_sum sha (fingerprint_add name args new_fingerprint)"

definition add_tool_delta :: "int \<Rightarrow> int \<Rightarrow> string \<Rightarrow> string \<Rightarrow> result \<Rightarrow> unit res \<times> result" where
  "add_tool_delta choice tool name args r =
     (if choice < 0 \<or> choice \<ge> 256 \<or> tool < 0 \<or> tool \<ge> 256 then (Inl (Errorf ''tool call index exceeds limit''), r)
      else (case map_of (re_streams r) (choice, tool) of
        None \<Rightarrow> (if length (re_streams r) \<ge> 256 then (Inl (Errorf ''too many tool calls''), r)
          else (Inr (), r\<lparr>re_streams := re_streams r @ [((choice, tool), fingerprint_add name args new_fingerprint)]\<rparr>))
      | Some f \<Rightarrow> (Inr (), r\<lparr>re_streams :=
            update_where (\<lambda>e. fst e = (choice, tool)) (\<lambda>e. (fst e, fingerprint_add name args (snd e))) (re_streams r)\<rparr>)))"

definition finish_tool_deltas :: "(string \<Rightarrow> string) \<Rightarrow> result \<Rightarrow> result" where
  "finish_tool_deltas sha r = r\<lparr>re_fingerprints := re_fingerprints r @
       map (\<lambda>e. fingerprint_sum sha (snd e)) (sort_key fst (re_streams r)),
     re_streams := []\<rparr>"

section \<open>Calls that arrive in pieces\<close>

text \<open>A piece: the key of its call, and what it adds to the name and to the arguments.\<close>

type_synonym 'k piece = "'k \<times> string \<times> string"

definition pieces_of :: "'k \<Rightarrow> 'k piece list \<Rightarrow> (string \<times> string) option" where
  "pieces_of k ps = (case filter (\<lambda>p. fst p = k) ps of [] \<Rightarrow> None
     | qs \<Rightarrow> Some (concat (map (fst \<circ> snd) qs), concat (map (snd \<circ> snd) qs)))"

fun add_pieces :: "('k piece \<Rightarrow> 's \<Rightarrow> 's res) \<Rightarrow> 'k piece list \<Rightarrow> 's \<Rightarrow> 's res" where
  "add_pieces add [] s = Inr s"
| "add_pieces add (p # ps) s = rbind (add p s) (add_pieces add ps)"

locale accumulator =
  fixes add :: "'k piece \<Rightarrow> 's \<Rightarrow> 's res"
    and content :: "'s \<Rightarrow> 'k \<Rightarrow> (string \<times> string) option"
    and well :: "'s \<Rightarrow> bool"
  assumes add_content: "well s \<Longrightarrow> add (k, n, a) s = Inr s' \<Longrightarrow> content s' i =
      (if i = k then Some (case content s k of None \<Rightarrow> (n, a) | Some (n0, a0) \<Rightarrow> (n0 @ n, a0 @ a)) else content s i)"
    and add_well: "well s \<Longrightarrow> add p s = Inr s' \<Longrightarrow> well s'"
begin

text \<open>What a store holds after a sequence of pieces is the concatenation of the pieces of each call.\<close>

lemma contents:
  "well s \<Longrightarrow> add_pieces add ps s = Inr s' \<Longrightarrow> well s' \<and> content s' i =
     (case (content s i, pieces_of i ps) of (None, q) \<Rightarrow> q | (Some x, None) \<Rightarrow> Some x
      | (Some (n, a), Some (n', a')) \<Rightarrow> Some (n @ n', a @ a'))"
proof (induction ps arbitrary: s)
  case Nil
  then show ?case by (simp add: pieces_of_def split: option.split)
next
  case (Cons p ps)
  obtain k n a where p: "p = (k, n, a)" by (cases p)
  from Cons.prems(2) obtain s1 where s1: "add p s = Inr s1" "add_pieces add ps s1 = Inr s'"
    by (cases "add p s") simp_all
  note one = add_content [OF Cons.prems(1) s1(1) [unfolded p], of i] and IH = Cons.IH [OF add_well [OF Cons.prems(1) s1(1)] s1(2)]
  have "pieces_of i (p # ps) = (if i = k then Some (case pieces_of i ps of None \<Rightarrow> (n, a) | Some (n', a') \<Rightarrow> (n @ n', a @ a'))
      else pieces_of i ps)"
    by (auto simp: pieces_of_def p split: list.split)
  then show ?case using IH one by (auto split: option.splits if_splits)
qed

end

text \<open>The streams of a result are such a store.\<close>

definition add_piece :: "(int \<times> int) piece \<Rightarrow> result \<Rightarrow> result res" where
  "add_piece p r = (case p of ((choice, tool), name, args) \<Rightarrow> (case add_tool_delta choice tool name args r of
     (Inl e, _) \<Rightarrow> Inl e | (Inr _, r1) \<Rightarrow> Inr r1))"

definition stream_content :: "result \<Rightarrow> int \<times> int \<Rightarrow> (string \<times> string) option" where
  "stream_content r k = map_option (\<lambda>f. (tf_name f, tf_args f)) (map_of (re_streams r) k)"

definition streams_ok :: "result \<Rightarrow> bool" where
  "streams_ok r \<longleftrightarrow> distinct (map fst (re_streams r)) \<and> length (re_streams r) \<le> 256 \<and>
     (\<forall>k \<in> fst ` set (re_streams r). 0 \<le> fst k \<and> fst k < 256 \<and> 0 \<le> snd k \<and> snd k < 256)"

lemma map_of_update_value:
  "map_of (update_where (\<lambda>e. fst e = k) (\<lambda>e. (fst e, g (snd e))) xs) i = (if i = k then map_option g (map_of xs i) else map_of xs i)"
  by (induction xs) auto

lemma add_piece_cases:
  assumes "add_piece ((c, t), n, a) r = Inr r'"
  shows "0 \<le> c \<and> c < 256 \<and> 0 \<le> t \<and> t < 256 \<and>
    (map_of (re_streams r) (c, t) = None \<and> length (re_streams r) < 256 \<and>
       r' = r\<lparr>re_streams := re_streams r @ [((c, t), fingerprint_add n a new_fingerprint)]\<rparr> \<or>
     map_of (re_streams r) (c, t) \<noteq> None \<and> r' = r\<lparr>re_streams :=
       update_where (\<lambda>e. fst e = (c, t)) (\<lambda>e. (fst e, fingerprint_add n a (snd e))) (re_streams r)\<rparr>)"
  using assms by (auto simp: add_piece_def add_tool_delta_def split: if_splits option.splits)

interpretation streams: accumulator add_piece stream_content streams_ok
proof
  fix r r' :: result and k i :: "int \<times> int" and n a
  assume "add_piece (k, n, a) r = Inr r'"
  then consider "map_of (re_streams r) k = None" "r' = r\<lparr>re_streams := re_streams r @ [(k, fingerprint_add n a new_fingerprint)]\<rparr>"
    | f where "map_of (re_streams r) k = Some f" "r' = r\<lparr>re_streams :=
       update_where (\<lambda>e. fst e = k) (\<lambda>e. (fst e, fingerprint_add n a (snd e))) (re_streams r)\<rparr>"
    using add_piece_cases [of "fst k" "snd k" n a r r'] by auto
  then show "stream_content r' i =
      (if i = k then Some (case stream_content r k of None \<Rightarrow> (n, a) | Some (n0, a0) \<Rightarrow> (n0 @ n, a0 @ a)) else stream_content r i)"
  proof cases
    case 1
    then show ?thesis by (simp add: stream_content_def map_add_def fingerprint_add_def new_fingerprint_def split: option.split)
  next
    case (2 f)
    then have "re_streams r' = update_where (\<lambda>e. fst e = k) (\<lambda>e. (fst e, fingerprint_add n a (snd e))) (re_streams r)" by simp
    then have "stream_content r' i = map_option (\<lambda>f. (tf_name f, tf_args f))
        (if i = k then map_option (fingerprint_add n a) (map_of (re_streams r) i) else map_of (re_streams r) i)"
      by (simp only: stream_content_def map_of_update_value)
    with 2(1) show ?thesis by (simp add: stream_content_def fingerprint_add_def)
  qed
next
  fix r r' :: result and p :: "(int \<times> int) piece"
  assume ok: "streams_ok r" and "add_piece p r = Inr r'"
  moreover obtain c t n a where p: "p = ((c, t), n, a)" by (metis prod.exhaust)
  ultimately have "add_piece ((c, t), n, a) r = Inr r'" by simp
  note c = add_piece_cases [OF this]
  show "streams_ok r'"
  proof (cases "map_of (re_streams r) (c, t) = None")
    case True
    with c have "r' = r\<lparr>re_streams := re_streams r @ [((c, t), fingerprint_add n a new_fingerprint)]\<rparr>" "length (re_streams r) < 256" by auto
    with c ok True show ?thesis by (auto simp: streams_ok_def map_of_eq_None_iff)
  next
    case False
    with c have "re_streams r' = update_where (\<lambda>e. fst e = (c, t)) (\<lambda>e. (fst e, fingerprint_add n a (snd e))) (re_streams r)" by auto
    then have "map fst (re_streams r') = map fst (re_streams r)" by (simp add: map_update_where)
    with ok show ?thesis unfolding streams_ok_def by (metis image_set length_map)
  qed
qed

section \<open>Fingerprints do not depend on how a call is cut\<close>

lemma sorted_streams:
  assumes "streams_ok r"
  shows "map snd (sort_key fst (re_streams r)) = map (\<lambda>k. the (map_of (re_streams r) k)) (sorted_list_of_set (fst ` set (re_streams r)))"
proof -
  let ?s = "sort_key fst (re_streams r)"
  have d: "distinct (map fst (re_streams r))" using assms by (simp add: streams_ok_def)
  have "sorted (map fst ?s)" "distinct (map fst ?s)" "set (map fst ?s) = fst ` set (re_streams r)"
    using d by (simp_all add: distinct_map)
  then have k: "sorted_list_of_set (fst ` set (re_streams r)) = map fst ?s"
    by (metis sorted_list_of_set.idem_if_sorted_distinct)
  have "snd e = the (map_of (re_streams r) (fst e))" if "e \<in> set ?s" for e
    using that d by (metis map_of_eq_Some_iff option.sel prod.collapse set_sort)
  then show ?thesis unfolding k by simp
qed

lemma stream_content_dom: "stream_content r k \<noteq> None \<longleftrightarrow> k \<in> fst ` set (re_streams r)"
  by (simp add: stream_content_def map_of_eq_None_iff)

text \<open>A result without streams that took in pieces has the fingerprints of the calls the pieces make up,
  in the order of their keys.\<close>

lemma finished_pieces:
  assumes "add_pieces add_piece ps r = Inr r'" "re_streams r = []"
  shows "re_fingerprints (finish_tool_deltas sha r') = re_fingerprints r' @
    map (\<lambda>k. case pieces_of k ps of Some (n, a) \<Rightarrow> call_fingerprint sha n a) (sorted_list_of_set (fst ` set ps))"
proof -
  have "streams_ok r" by (simp add: streams_ok_def assms(2))
  note c = streams.contents [OF this assms(1)]
  have "stream_content r k = None" for k by (simp add: stream_content_def assms(2))
  with c have c': "streams_ok r'" "stream_content r' k = pieces_of k ps" for k by simp_all
  have keys: "fst ` set (re_streams r') = fst ` set ps"
  proof -
    have "k \<in> fst ` set (re_streams r') \<longleftrightarrow> pieces_of k ps \<noteq> None" for k
      using stream_content_dom [of r' k] c'(2) by simp
    moreover have "pieces_of k ps = None \<longleftrightarrow> filter (\<lambda>p. fst p = k) ps = []" for k
      by (simp add: pieces_of_def split: list.split)
    ultimately have "k \<in> fst ` set (re_streams r') \<longleftrightarrow> (\<exists>p \<in> set ps. fst p = k)" for k
      unfolding filter_empty_conv by blast
    then show ?thesis unfolding set_eq_iff image_iff by metis
  qed
  have "map (\<lambda>e. fingerprint_sum sha (snd e)) (sort_key fst (re_streams r')) =
      map (fingerprint_sum sha) (map snd (sort_key fst (re_streams r')))" by simp
  also have "\<dots> = map (\<lambda>k. fingerprint_sum sha (the (map_of (re_streams r') k))) (sorted_list_of_set (fst ` set ps))"
    unfolding sorted_streams [OF c'(1)] keys by simp
  also have "\<dots> = map (\<lambda>k. case pieces_of k ps of Some (n, a) \<Rightarrow> call_fingerprint sha n a) (sorted_list_of_set (fst ` set ps))"
  proof (rule map_cong [OF refl])
    fix k assume "k \<in> set (sorted_list_of_set (fst ` set ps))"
    then have "map_of (re_streams r') k \<noteq> None" using keys by (simp add: map_of_eq_None_iff)
    then obtain f where f: "map_of (re_streams r') k = Some f" by blast
    then have "pieces_of k ps = Some (tf_name f, tf_args f)" using c'(2) [of k] by (simp add: stream_content_def)
    with f show "fingerprint_sum sha (the (map_of (re_streams r') k)) = (case pieces_of k ps of Some (n, a) \<Rightarrow> call_fingerprint sha n a)"
      by (simp add: call_fingerprint_def fingerprint_add_def new_fingerprint_def fingerprint_sum_def)
  qed
  finally show ?thesis by (simp add: finish_tool_deltas_def)
qed

lemma add_piece_fingerprints: "add_piece p s = Inr s' \<Longrightarrow> re_fingerprints s' = re_fingerprints s"
  using add_piece_cases [of "fst (fst p)" "snd (fst p)" "fst (snd p)" "snd (snd p)" s s'] by auto

lemma add_pieces_fingerprints: "add_pieces add_piece ps s = Inr s' \<Longrightarrow> re_fingerprints s' = re_fingerprints s"
proof (induction ps arbitrary: s)
  case (Cons p ps)
  then obtain s1 where "add_piece p s = Inr s1" "add_pieces add_piece ps s1 = Inr s'" by (cases "add_piece p s") simp_all
  with Cons.IH add_piece_fingerprints show ?case by metis
qed simp

text \<open>A tool call has one fingerprint, however its stream was cut. When the pieces of a stream, in any
  interleaving, make up the calls of a complete answer, finishing the stream leaves exactly the
  fingerprints the complete answer would have, in the order of the calls, so the repetition detector
  sees the same call in both.\<close>

theorem streamed_calls_fingerprint_as_whole:
  assumes "add_pieces add_piece ps start_result = Inr r"
    and "fst ` set ps = (\<lambda>i. (0, int i)) ` {..< length calls}"
    and "\<forall>i < length calls. pieces_of (0, int i) ps = Some (calls ! i)"
  shows "re_fingerprints (finish_tool_deltas sha r) = map (\<lambda>(n, a). call_fingerprint sha n a) calls"
proof -
  have "re_fingerprints r = []" using add_pieces_fingerprints [OF assms(1)] by (simp add: start_result_def zero_result_def)
  moreover have "sorted_list_of_set (fst ` set ps) = map (\<lambda>i. (0, int i)) [0 ..< length calls]"
  proof -
    have "sorted (map (\<lambda>i. (0 :: int, int i)) [0 ..< length calls])" "distinct (map (\<lambda>i. (0 :: int, int i)) [0 ..< length calls])"
      by (simp_all add: sorted_iff_nth_mono distinct_map inj_on_def)
    then have "sorted_list_of_set (set (map (\<lambda>i. (0 :: int, int i)) [0 ..< length calls])) = map (\<lambda>i. (0, int i)) [0 ..< length calls]"
      by (rule sorted_list_of_set.idem_if_sorted_distinct)
    then show ?thesis by (simp add: assms(2) atLeast0LessThan)
  qed
  moreover have "map (\<lambda>i. case pieces_of (0, int i) ps of Some (n, a) \<Rightarrow> call_fingerprint sha n a) [0 ..< length calls] =
      map (\<lambda>i. case calls ! i of (n, a) \<Rightarrow> call_fingerprint sha n a) [0 ..< length calls]"
    using assms(3) by (intro map_cong [OF refl]) (simp add: case_prod_beta)
  moreover have "\<dots> = map (\<lambda>(n, a). call_fingerprint sha n a) calls" by (rule nth_equalityI) simp_all
  ultimately show ?thesis
    using finished_pieces [OF assms(1), of sha] by (simp add: start_result_def zero_result_def o_def)
qed

text \<open>Two calls cut into five interleaved pieces.\<close>

definition sample_pieces :: "(int \<times> int) piece list" where
  "sample_pieces = [((0, 0), ''ls'', []), ((0, 1), ''cat'', ''{''), ((0, 0), [], ''{}''), ((0, 1), [], ''f''), ((0, 1), [], ''}'')]"

lemma streamed_calls_fingerprint_as_whole_witness:
  "\<exists>r. add_pieces add_piece sample_pieces start_result = Inr r \<and>
     re_fingerprints (finish_tool_deltas (\<lambda>s. s) r) = [call_fingerprint (\<lambda>s. s) ''ls'' ''{}'', call_fingerprint (\<lambda>s. s) ''cat'' ''{f}'']"
proof -
  have "is_ok (add_pieces add_piece sample_pieces start_result)" by code_simp
  then obtain r where r: "add_pieces add_piece sample_pieces start_result = Inr r" unfolding is_ok_iff by blast
  let ?calls = "[(''ls'', ''{}''), (''cat'', ''{f}'')]"
  have p: "pieces_of (0, 0) sample_pieces = Some (''ls'', ''{}'')" "pieces_of (0, 1) sample_pieces = Some (''cat'', ''{f}'')"
    by code_simp+
  have two: "{..< length ?calls} = {0, 1}" by auto
  have "fst ` set sample_pieces = (\<lambda>i. (0, int i)) ` {..< length ?calls}"
    unfolding two by (simp add: sample_pieces_def insert_commute)
  moreover have "\<forall>i < length ?calls. pieces_of (0, int i) sample_pieces = Some (?calls ! i)"
  proof (intro allI impI)
    fix i assume "i < length ?calls"
    then have "i = 0 \<or> i = 1" by auto
    then show "pieces_of (0, int i) sample_pieces = Some (?calls ! i)" using p by auto
  qed
  ultimately have "re_fingerprints (finish_tool_deltas (\<lambda>s. s) r) = map (\<lambda>(n, a). call_fingerprint (\<lambda>s. s) n a) ?calls"
    by (rule streamed_calls_fingerprint_as_whole [OF r])
  with r show ?thesis by simp
qed

end
