(* ===== verification/Sse.thy ===== *)
theory Sse
  imports Tool_Stream "HOL-Library.Sublist"
begin

text \<open>
  \<open>internal/providers/sse.go\<close> and \<open>Translate\<close> of \<open>openai_compatible.go\<close>: the relay of an OpenAI-compatible
  answer. The body is a list of reads, each a list of slices as \<open>bufio\<close> returns them; \<open>encoding/json\<close> and
  the writer of the client are parameters. What is written is the list of the pieces that were written.
\<close>

section \<open>Lines\<close>

definition max_sse_frame :: nat where
  "max_sse_frame = 1048576"

datatype slice_end = SliceLine | SliceFull | SliceError goerr | SliceEof

definition slice_error :: "slice_end \<Rightarrow> goerr option" where
  "slice_error x = (case x of SliceLine \<Rightarrow> None | SliceFull \<Rightarrow> Some (Errorf ''bufio: buffer full'')
     | SliceError e \<Rightarrow> Some e | SliceEof \<Rightarrow> Some (Errorf ''EOF''))"

text \<open>A read that has no more slices has not returned: \<open>None\<close>. The flag tells the end of the input.\<close>

fun read_line_bounded :: "(string \<times> slice_end) list \<Rightarrow> string \<Rightarrow> (string \<times> goerr option \<times> bool) option" where
  "read_line_bounded [] line = None"
| "read_line_bounded ((part, x) # xs) line =
     (if length line + length part > max_sse_frame then Some ([], Some (Errorf ''SSE line exceeds limit''), False)
      else if x = SliceFull then read_line_bounded xs (line @ part)
      else Some (line @ part, slice_error x, x = SliceEof))"

section \<open>Frames\<close>

record sse_call =
  sc_index :: int
  sc_name :: string
  sc_args :: string

record sse_choice =
  so_index :: int
  so_content :: string
  so_calls :: "sse_call list"

text \<open>\<open>ck_error\<close>: the field \<open>error\<close> is there and not null.\<close>

record sse_chunk =
  ck_model :: string
  ck_error :: bool
  ck_usage :: "openai_usage option"
  ck_choices :: "sse_choice list"

definition lf :: char where
  "lf = CHR 0x0A"

fun frame_fields :: "string list \<Rightarrow> bool \<Rightarrow> string \<Rightarrow> bool \<times> string" where
  "frame_fields [] failed data = (failed, data)"
| "frame_fields (l # ls) failed data =
     (let line = trim_suffix l [CHR 0x0D];
          failed1 = (failed \<or> trim_space line = ''event: error'') in
      frame_fields ls failed1
        (if has_prefix line ''data:'' then (if data \<noteq> [] then data @ [lf] else data) @ trim_space (trim_prefix line ''data:'') else data))"

fun add_calls :: "int \<Rightarrow> sse_call list \<Rightarrow> result \<Rightarrow> unit res \<times> result" where
  "add_calls choice [] r = (Inr (), r)"
| "add_calls choice (c # cs) r = (case add_tool_delta choice (sc_index c) (sc_name c) (sc_args c) r of
     (Inl e, r1) \<Rightarrow> (Inl e, r1) | (Inr _, r1) \<Rightarrow> add_calls choice cs r1)"

fun add_choices :: "sse_choice list \<Rightarrow> result \<Rightarrow> unit res \<times> result" where
  "add_choices [] r = (Inr (), r)"
| "add_choices (c # cs) r = (case add_calls (so_index c) (so_calls c) (r\<lparr>re_content := re_content r @ so_content c\<rparr>) of
     (Inl e, r1) \<Rightarrow> (Inl e, r1) | (Inr _, r1) \<Rightarrow> add_choices cs r1)"

definition inspect_sse_frame :: "(string \<Rightarrow> sse_chunk option) \<Rightarrow> (string \<Rightarrow> string) \<Rightarrow> string \<Rightarrow> result \<Rightarrow> bool res \<times> result" where
  "inspect_sse_frame unmarshal sha frame r = (case frame_fields (split_on lf frame) False [] of (failed, payload) \<Rightarrow>
     if failed then (Inl (Errorf ''provider stream error event''), r)
     else if payload = ''[DONE]'' then (Inr True, finish_tool_deltas sha r)
     else if payload = [] then (Inr False, r)
     else (case unmarshal payload of
       None \<Rightarrow> (Inl (Errorf ''invalid provider SSE data''), r)
     | Some chunk \<Rightarrow> (if ck_error chunk then (Inl (Errorf ''provider stream error payload''), r)
         else (case add_choices (ck_choices chunk) (if ck_model chunk \<noteq> [] then r\<lparr>re_model := ck_model chunk\<rparr> else r) of
             (Inl e, r1) \<Rightarrow> (Inl e, r1)
           | (Inr _, r1) \<Rightarrow> (case apply_usage (ck_usage chunk) r1 of
               (Inl e, r2) \<Rightarrow> (Inl e, r2)
             | (Inr _, r2) \<Rightarrow> (Inr False, r2))))))"

section \<open>The relay\<close>

definition error_event :: "string \<Rightarrow> string" where
  "error_event code = ''event: error'' @ [lf] @ ''data: {\"error\":{\"type\":\"provider_error\",\"code\":\"'' @ code @
     ''\",\"message\":\"provider stream failed\"}}'' @ [lf, lf]"

text \<open>\<open>wr\<close> answers a write after what has been written; the error event ignores it.\<close>

definition stream_error :: "(string list \<Rightarrow> goerr option) \<Rightarrow> string \<Rightarrow> string list \<Rightarrow> string list" where
  "stream_error wr code out = (case wr out of None \<Rightarrow> out @ [error_event code] | Some _ \<Rightarrow> out)"

text \<open>One turn of a read loop: whether the context has ended before the read, the slices of the read, and
  whether it has ended after it.\<close>

record line_read =
  lr_gone :: bool
  lr_slices :: "(string \<times> slice_end) list"
  lr_gone_after :: bool

type_synonym stream_end = "(result \<times> goerr option) \<times> string list"

text \<open>What follows a line: the end of the stream, or the frame that is left with the result and the output.\<close>

definition openai_line :: "(string \<Rightarrow> sse_chunk option) \<Rightarrow> (string \<Rightarrow> string) \<Rightarrow> (string list \<Rightarrow> goerr option) \<Rightarrow> string \<Rightarrow>
    string \<times> result \<times> string list \<Rightarrow> stream_end + (string \<times> result \<times> string list)" where
  "openai_line unmarshal sha wr line s = (case s of (frame, r, out) \<Rightarrow>
     if line = [] then Inr (frame, r, out)
     else if length frame + length line > max_sse_frame
       then Inl ((r\<lparr>re_status := ''provider_error''\<rparr>, Some (Errorf ''SSE frame exceeds limit'')), stream_error wr ''stream_frame_too_large'' out)
     else if trim_space line \<noteq> [] then Inr (frame @ line, r, out)
     else (case inspect_sse_frame unmarshal sha (frame @ line) r of
         (Inl e, r1) \<Rightarrow> Inl ((r1\<lparr>re_status := ''provider_error''\<rparr>, Some e), stream_error wr ''provider_stream_error'' out)
       | (Inr done, r1) \<Rightarrow> (case wr out of
           Some e \<Rightarrow> Inl ((r1\<lparr>re_status := ''client_cancelled''\<rparr>, Some e), out)
         | None \<Rightarrow> (if done then Inl ((r1\<lparr>re_text := re_content r1\<rparr>, None), out @ [frame @ line])
             else Inr ([], r1, out @ [frame @ line])))))"

fun openai_stream :: "(string \<Rightarrow> sse_chunk option) \<Rightarrow> (string \<Rightarrow> string) \<Rightarrow> (string list \<Rightarrow> goerr option) \<Rightarrow> line_read list \<Rightarrow>
    string \<times> result \<times> string list \<Rightarrow> stream_end option" where
  "openai_stream unmarshal sha wr [] s = None"
| "openai_stream unmarshal sha wr (x # xs) s = (case s of (frame, r, out) \<Rightarrow>
     if lr_gone x then Some ((r\<lparr>re_status := ''client_cancelled''\<rparr>, Some ErrContext), out)
     else (case read_line_bounded (lr_slices x) [] of
       None \<Rightarrow> None
     | Some (line, err, eof) \<Rightarrow> (case openai_line unmarshal sha wr line s of
         Inl done \<Rightarrow> Some done
       | Inr (frame1, r1, out1) \<Rightarrow> (case err of
           None \<Rightarrow> openai_stream unmarshal sha wr xs (frame1, r1, out1)
         | Some e \<Rightarrow> (if lr_gone_after x then Some ((r1\<lparr>re_status := ''client_cancelled''\<rparr>, Some ErrContext), out1)
             else Some ((r1\<lparr>re_status := ''transport_error''\<rparr>,
                 Some (if eof then Errorf ''provider stream ended before DONE'' else Wrapf ''provider stream interrupted'' e)),
               stream_error wr ''provider_stream_interrupted'' out1))))))"

definition stream :: "(string \<Rightarrow> sse_chunk option) \<Rightarrow> (string \<Rightarrow> string) \<Rightarrow> (string list \<Rightarrow> goerr option) \<Rightarrow> line_read list \<Rightarrow>
    stream_end option" where
  "stream unmarshal sha wr xs = openai_stream unmarshal sha wr xs ([], start_result, [])"

section \<open>Complete answers\<close>

definition max_provider_response :: nat where
  "max_provider_response = 16777216"

record full_choice =
  fc_content :: string
  fc_calls :: "(string \<times> string) list"

record full_answer =
  fa_model :: string
  fa_usage :: "openai_usage option"
  fa_choices :: "full_choice list"

text \<open>The answer of the provider: its status, the bytes of its body that were read, and the error reading them met.\<close>

record provider_response =
  pv_status :: nat
  pv_body :: string
  pv_error :: "goerr option"

text \<open>What the client gets: a status and a body, as far as the adapter wrote them.\<close>

datatype downstream = Unwritten | ErrorDocument nat string | Document nat string

definition error_code_of :: "nat \<Rightarrow> string" where
  "error_code_of status = ''provider_http_'' @ show_nat status"

fun take_choices :: "(string \<Rightarrow> string) \<Rightarrow> full_choice list \<Rightarrow> result \<Rightarrow> result" where
  "take_choices sha [] r = r"
| "take_choices sha (c # cs) r = take_choices sha cs
     (r\<lparr>re_text := (if fc_content c \<noteq> [] then fc_content c else re_text r),
        re_fingerprints := re_fingerprints r @ map (\<lambda>(n, a). call_fingerprint sha n a) (fc_calls c)\<rparr>)"

definition openai_translate :: "(string \<Rightarrow> full_answer option) \<Rightarrow> (string \<Rightarrow> string) \<Rightarrow> provider_response \<Rightarrow>
    (result \<times> goerr option) \<times> downstream" where
  "openai_translate unmarshal sha resp =
     (if pv_status resp < 200 \<or> pv_status resp \<ge> 300
      then ((zero_result\<lparr>re_error_code := error_code_of (pv_status resp), re_status := ''provider_error'',
            re_usage_source := ''unknown'', re_error_body := take 4096 (pv_body resp)\<rparr>, None),
          ErrorDocument (pv_status resp) (error_code_of (pv_status resp)))
      else (case pv_error resp of
        Some e \<Rightarrow> ((zero_result, Some (Wrapf ''read provider response'' e)), Unwritten)
      | None \<Rightarrow> (if length (pv_body resp) > max_provider_response
          then ((zero_result, Some (Errorf ''provider response exceeds limit'')), Unwritten)
          else (case unmarshal (pv_body resp) of
            None \<Rightarrow> ((zero_result, Some (Errorf ''invalid provider JSON'')), Unwritten)
          | Some a \<Rightarrow> (case apply_usage (fa_usage a) (take_choices sha (fa_choices a) (start_result\<lparr>re_model := fa_model a\<rparr>)) of
              (Inl e, _) \<Rightarrow> ((zero_result, Some e), Unwritten)
            | (Inr _, r) \<Rightarrow> ((r, None), Document (pv_status resp) (pv_body resp)))))))"

section \<open>The relay is transparent\<close>

lemma apply_usage_status: "apply_usage u r = (x, r') \<Longrightarrow> re_status r' = re_status r"
  by (auto simp: apply_usage_def Let_def split: option.splits if_splits)

lemma add_tool_delta_status: "add_tool_delta c t n a r = (x, r') \<Longrightarrow> re_status r' = re_status r"
  by (auto simp: add_tool_delta_def split: option.splits if_splits)

lemma add_calls_status: "add_calls c cs r = (x, r') \<Longrightarrow> re_status r' = re_status r"
  by (induction cs arbitrary: r) (auto split: prod.splits sum.splits dest: add_tool_delta_status)

lemma add_choices_status: "add_choices cs r = (x, r') \<Longrightarrow> re_status r' = re_status r"
proof (induction cs arbitrary: r)
  case (Cons c cs)
  obtain y r1 where y: "add_calls (so_index c) (so_calls c) (r\<lparr>re_content := re_content r @ so_content c\<rparr>) = (y, r1)" by fastforce
  from add_calls_status [OF this] have "re_status r1 = re_status r" by simp
  with y Cons show ?case by (cases y) auto
qed simp

lemma inspect_status: "inspect_sse_frame unmarshal sha frame r = (x, r') \<Longrightarrow> re_status r' = re_status r"
proof -
  obtain failed payload where f: "frame_fields (split_on lf frame) False [] = (failed, payload)" by fastforce
  assume i: "inspect_sse_frame unmarshal sha frame r = (x, r')"
  show ?thesis
  proof (cases "failed \<or> payload = ''[DONE]'' \<or> payload = [] \<or> unmarshal payload = None \<or> ck_error (the (unmarshal payload))")
    case True
    with i show ?thesis by (auto simp: inspect_sse_frame_def f finish_tool_deltas_def split: if_splits option.splits)
  next
    case False
    then obtain chunk where c: "unmarshal payload = Some chunk" "\<not> ck_error chunk" by auto
    let ?r = "if ck_model chunk \<noteq> [] then r\<lparr>re_model := ck_model chunk\<rparr> else r"
    obtain y r1 where y: "add_choices (ck_choices chunk) ?r = (y, r1)" by fastforce
    obtain z r2 where z: "apply_usage (ck_usage chunk) r1 = (z, r2)" by fastforce
    have "re_status r1 = re_status r" "re_status r2 = re_status r1"
      using add_choices_status [OF y] apply_usage_status [OF z] by (simp_all split: if_splits)
    with i False c show ?thesis by (cases y; cases z) (simp_all add: inspect_sse_frame_def f y z)
  qed
qed

definition done_frame :: "string \<Rightarrow> bool" where
  "done_frame frame \<longleftrightarrow> frame_fields (split_on lf frame) False [] = (False, ''[DONE]'')"

lemma inspect_done: "inspect_sse_frame unmarshal sha frame r = (Inr True, r') \<Longrightarrow> done_frame frame"
  by (auto simp: inspect_sse_frame_def done_frame_def split: prod.splits if_splits option.splits sum.splits)

text \<open>The line a turn reads.\<close>

definition line_of :: "line_read \<Rightarrow> string" where
  "line_of x = (case read_line_bounded (lr_slices x) [] of None \<Rightarrow> [] | Some (line, _) \<Rightarrow> line)"

definition lines_of :: "line_read list \<Rightarrow> string list" where
  "lines_of xs = filter (\<lambda>l. l \<noteq> []) (map line_of xs)"

text \<open>The lines of a frame: text and then one blank line, within the limit.\<close>

definition complete_frame :: "string list \<Rightarrow> bool" where
  "complete_frame ls \<longleftrightarrow> ls \<noteq> [] \<and> trim_space (last ls) = [] \<and> (\<forall>l \<in> set (butlast ls). trim_space l \<noteq> []) \<and>
     length (concat ls) \<le> max_sse_frame"

text \<open>\<open>told\<close>: what has been written, the complete frames at the start of the input and at most one error event.\<close>

definition told :: "string list \<Rightarrow> string list \<Rightarrow> result \<Rightarrow> goerr option \<Rightarrow> string list \<Rightarrow> bool" where
  "told out input r e out' \<longleftrightarrow> (\<exists>frames tail. out' = out @ map concat frames @ tail \<and> prefix (concat frames) input \<and>
     (\<forall>ls \<in> set frames. complete_frame ls) \<and> (tail = [] \<or> (\<exists>code. tail = [error_event code])) \<and>
     (if e = None then tail = [] \<and> concat frames = input \<and> re_status r = ''success'' \<and> frames \<noteq> [] \<and>
        done_frame (concat (last frames)) \<and> re_text r = re_content r
      else re_status r \<noteq> ''success''))"

lemma told_error: "e \<noteq> None \<Longrightarrow> re_status r \<noteq> ''success'' \<Longrightarrow> told out input r e out"
  unfolding told_def by (intro exI [of _ "[]"]) simp

lemma told_error_event: "e \<noteq> None \<Longrightarrow> re_status r \<noteq> ''success'' \<Longrightarrow> told out input r e (stream_error wr code out)"
  unfolding stream_error_def told_def
  by (cases "wr out", simp_all) (intro exI [of _ "[]"] exI [of _ "[error_event code]"], auto)+

lemma told_more:
  assumes "told (out @ [concat ls]) input r e out'" "complete_frame ls"
  shows "told out (ls @ input) r e out'"
proof -
  from assms(1) obtain frames tail where "out' = (out @ [concat ls]) @ map concat frames @ tail" "prefix (concat frames) input"
     "\<forall>ls \<in> set frames. complete_frame ls" "tail = [] \<or> (\<exists>code. tail = [error_event code])"
     "if e = None then tail = [] \<and> concat frames = input \<and> re_status r = ''success'' \<and> frames \<noteq> [] \<and>
        done_frame (concat (last frames)) \<and> re_text r = re_content r
      else re_status r \<noteq> ''success''" unfolding told_def by blast
  with assms(2) show ?thesis unfolding told_def
    by (intro exI [of _ "ls # frames"] exI [of _ tail]) (auto split: if_splits)
qed

lemma openai_line_end:
  assumes "openai_line unmarshal sha wr line (concat ls, r, out) = Inl ((r', e), out')" "re_status r = ''success''"
    and "\<forall>l \<in> set ls. trim_space l \<noteq> []"
  shows "told out (ls @ [line]) r' e out'"
proof -
  have ne: "line \<noteq> []" using assms(1) by (auto simp: openai_line_def)
  show ?thesis
  proof (cases "length (concat ls) + length line > max_sse_frame")
    case True
    with assms(1) ne have "r' = r\<lparr>re_status := ''provider_error''\<rparr>" "e \<noteq> None" "out' = stream_error wr ''stream_frame_too_large'' out"
      by (auto simp: openai_line_def)
    then show ?thesis by (auto intro!: told_error_event)
  next
    case False
    with assms(1) ne have t: "trim_space line = []" by (auto simp: openai_line_def split: if_splits)
    obtain x r1 where i: "inspect_sse_frame unmarshal sha (concat ls @ line) r = (x, r1)" by fastforce
    show ?thesis
    proof (cases x)
      case (Inl err)
      with assms(1) ne False t i have "r' = r1\<lparr>re_status := ''provider_error''\<rparr>" "e \<noteq> None"
          "out' = stream_error wr ''provider_stream_error'' out" by (auto simp: openai_line_def)
      then show ?thesis by (auto intro!: told_error_event)
    next
      case (Inr finished)
      show ?thesis
      proof (cases "wr out")
        case (Some err)
        with assms(1) ne False t i Inr have "r' = r1\<lparr>re_status := ''client_cancelled''\<rparr>" "e = Some err" "out' = out"
          by (auto simp: openai_line_def)
        then show ?thesis by (auto intro!: told_error)
      next
        case None
        with assms(1) ne False t i Inr have f: "finished" "r' = r1\<lparr>re_text := re_content r1\<rparr>" "e = None" "out' = out @ [concat ls @ line]"
          by (auto simp: openai_line_def split: if_splits)
        with i Inr have i': "inspect_sse_frame unmarshal sha (concat ls @ line) r = (Inr True, r1)" by simp
        have "complete_frame (ls @ [line])" using assms(3) t False by (simp add: complete_frame_def)
        with inspect_status [OF i'] inspect_done [OF i'] assms(2) f show ?thesis
          unfolding told_def by (intro exI [of _ "[ls @ [line]]"] exI [of _ "[]"]) simp
      qed
    qed
  qed
qed

lemma openai_line_more:
  assumes "openai_line unmarshal sha wr line (frame, r, out) = Inr (frame', r', out')" "re_status r = ''success''"
  shows "re_status r' = ''success'' \<and> (out' = out \<and> frame' = frame @ line \<and> (line = [] \<or> trim_space line \<noteq> []) \<or>
    out' = out @ [frame @ line] \<and> frame' = [] \<and> line \<noteq> [] \<and> trim_space line = [] \<and> length frame + length line \<le> max_sse_frame)"
  using assms by (auto simp: openai_line_def dest: inspect_status split: if_splits prod.splits sum.splits option.splits)

lemma openai_stream_told:
  "openai_stream unmarshal sha wr xs (concat ls, r, out) = Some ((r', e), out') \<Longrightarrow> re_status r = ''success'' \<Longrightarrow>
   \<forall>l \<in> set ls. trim_space l \<noteq> [] \<Longrightarrow> \<exists>k \<le> length xs. told out (ls @ lines_of (take k xs)) r' e out'"
proof (induction xs arbitrary: ls r out)
  case (Cons x xs)
  show ?case
  proof (cases "lr_gone x")
    case True
    with Cons.prems have "re_status r' \<noteq> ''success''" "e \<noteq> None" "out' = out" by auto
    then show ?thesis using told_error by blast
  next
    case False
    then obtain line err eof where l: "read_line_bounded (lr_slices x) [] = Some (line, err, eof)"
      using Cons.prems(1) by (auto split: option.splits)
    then have lo: "line_of x = line" by (simp add: line_of_def)
    show ?thesis
    proof (cases "openai_line unmarshal sha wr line (concat ls, r, out)")
      case (Inl d)
      with Cons.prems(1) False l have "d = ((r', e), out')" by simp
      with Inl have "told out (ls @ [line]) r' e out'" using openai_line_end Cons.prems(2,3) by blast
      moreover have "line \<noteq> []" using Inl by (auto simp: openai_line_def)
      ultimately show ?thesis by (intro exI [of _ 1]) (simp add: lo lines_of_def)
    next
      case (Inr s)
      obtain frame1 r1 out1 where s: "s = (frame1, r1, out1)" by (cases s)
      with Inr have m: "openai_line unmarshal sha wr line (concat ls, r, out) = Inr (frame1, r1, out1)" by simp
      note more = openai_line_more [OF m Cons.prems(2)]
      obtain ls1 where ls1: "frame1 = concat ls1" "\<forall>l \<in> set ls1. trim_space l \<noteq> []"
        and step: "\<And>t. told out1 (ls1 @ t) r' e out' \<Longrightarrow> told out (ls @ lines_of [x] @ t) r' e out'"
      proof (cases "out1 = out \<and> frame1 = concat ls @ line \<and> (line = [] \<or> trim_space line \<noteq> [])")
        case True
        then show ?thesis using Cons.prems(3) by (intro that [of "ls @ lines_of [x]"]) (auto simp: lines_of_def lo)
      next
        case False
        with more have f: "out1 = out @ [concat (ls @ [line])]" "frame1 = []" "line \<noteq> []" "complete_frame (ls @ [line])"
          using Cons.prems(3) by (auto simp: complete_frame_def)
        show ?thesis using told_more [OF _ f(4)] f(1-3) by (intro that [of "[]"]) (auto simp: lines_of_def lo)
      qed
      show ?thesis
      proof (cases err)
        case None
        with Cons.prems(1) False l m ls1(1) have "openai_stream unmarshal sha wr xs (concat ls1, r1, out1) = Some ((r', e), out')" by simp
        with Cons.IH more ls1(2) obtain k where k: "k \<le> length xs" "told out1 (ls1 @ lines_of (take k xs)) r' e out'" by blast
        have "lines_of (take (Suc k) (x # xs)) = lines_of [x] @ lines_of (take k xs)" by (simp add: lines_of_def)
        with k(1) step [OF k(2)] show ?thesis by (intro exI [of _ "Suc k"]) simp
      next
        case (Some y)
        with Cons.prems(1) False l m have "re_status r' \<noteq> ''success''" "e \<noteq> None"
            "out' = out1 \<or> out' = stream_error wr ''provider_stream_interrupted'' out1"
          by (auto split: if_splits)
        then have "told out1 (ls1 @ []) r' e out'" by (auto intro: told_error told_error_event)
        from step [OF this] show ?thesis by (intro exI [of _ 1]) simp
      qed
    qed
  qed
qed simp

text \<open>C22: The relay of an OpenAI-compatible stream is transparent and knows when it is complete. What the client is
  sent is cut at frame ends: each piece is one complete frame of the provider, its lines up to and with the blank
  line that ends it, the pieces together are the first lines that were read, unchanged and in order, and after them
  comes at most one error event, never a part of a frame. The stream is a success exactly when everything read was
  relayed and the last frame is the end marker, and then the recorded answer is the text of the relayed
  chunks.\<close>

theorem stream_relays_frames:
  assumes "stream unmarshal sha wr xs = Some ((r, e), out)"
  shows "\<exists>k frames tail. k \<le> length xs \<and> out = map concat frames @ tail \<and>
    (\<forall>ls \<in> set frames. complete_frame ls) \<and> prefix (concat frames) (lines_of (take k xs)) \<and>
    (tail = [] \<or> (\<exists>code. tail = [error_event code])) \<and>
    (if e = None then tail = [] \<and> concat frames = lines_of (take k xs) \<and> re_status r = ''success'' \<and>
       frames \<noteq> [] \<and> done_frame (concat (last frames)) \<and> re_text r = re_content r
     else re_status r \<noteq> ''success'')"
proof -
  have st: "re_status start_result = ''success''" by (simp add: start_result_def)
  have "openai_stream unmarshal sha wr xs (concat [], start_result, []) = Some ((r, e), out)"
    using assms by (simp add: stream_def)
  from openai_stream_told [OF this st] obtain k
    where "k \<le> length xs" "told [] (lines_of (take k xs)) r e out" by auto
  then show ?thesis unfolding told_def append_Nil by blast
qed

definition sample_reads :: "line_read list" where
  "sample_reads = map (\<lambda>l. \<lparr>lr_gone = False, lr_slices = [(l, SliceLine)], lr_gone_after = False\<rparr>)
     [''data: [DONE]'' @ [lf], [lf]]"

lemma stream_relays_frames_witness:
  "\<exists>r out. stream (\<lambda>_. None) (\<lambda>s. s) (\<lambda>_. None) sample_reads = Some ((r, None), out) \<and> re_status r = ''success'' \<and> done_frame (last out)"
proof -
  let ?l = "''data: [DONE]'' @ [lf]"
  have f: "trim_space ?l \<noteq> []" "trim_space [lf] = []" "length ?l = 13" "?l \<noteq> []"
    "frame_fields (split_on lf (?l @ [lf])) False [] = (False, ''[DONE]'')" by code_simp+
  have "openai_line (\<lambda>_. None) (\<lambda>s. s) (\<lambda>_. None) ?l ([], start_result, []) = Inr (?l, start_result, [])"
    unfolding openai_line_def prod.case using f(1,3,4) by (simp del: append_Cons append.simps add: max_sse_frame_def)
  moreover have "openai_line (\<lambda>_. None) (\<lambda>s. s) (\<lambda>_. None) [lf] (?l, start_result, []) =
      Inl ((finish_tool_deltas (\<lambda>s. s) start_result\<lparr>re_text := re_content (finish_tool_deltas (\<lambda>s. s) start_result)\<rparr>, None), [?l @ [lf]])"
    unfolding openai_line_def inspect_sse_frame_def prod.case f(5) using f(2,3) by (simp del: append_Cons append.simps add: max_sse_frame_def)
  moreover have "read_line_bounded [(?l, SliceLine)] [] = Some (?l, None, False)" "read_line_bounded [([lf], SliceLine)] [] = Some ([lf], None, False)"
    using f(3) by (simp_all add: max_sse_frame_def slice_error_def)
  ultimately obtain r out where s: "stream (\<lambda>_. None) (\<lambda>s. s) (\<lambda>_. None) sample_reads = Some ((r, None), out)"
    by (simp del: append_Cons append.simps add: stream_def sample_reads_def)
  from stream_relays_frames [OF s] s show ?thesis by (auto simp: last_map)
qed

end
