(* ===== verification/Chat_Request.thy ===== *)
theory Chat_Request
  imports Go_Strings
begin

text \<open>
  Chat requests: \<open>Validate\<close> and \<open>Build\<close> of both adapters (\<open>internal/providers/openai_compatible.go\<close>,
  \<open>anthropic.go\<close>) and the translation of a chat request into one for the Anthropic API. A request is
  what \<open>encoding/json\<close> makes of the body: a field the code decodes in a second step is a datatype of the
  outcomes of that step. Numbers the code only copies are texts.
\<close>

section \<open>Requests\<close>

datatype text_field = NoText | Text string | NotText

datatype opts_field = NoOpts | Opts bool | BadOpts

datatype stop_field = NoStop | StopOne string | StopMany "string list" | BadStop

record call_in =
  ci_id :: string
  ci_type :: string
  ci_name :: string
  ci_args :: string

datatype calls_field = NoCalls | Calls "call_in list" | BadCalls

record message_in =
  mi_role :: string
  mi_content :: text_field
  mi_calls :: calls_field
  mi_call_id :: string

datatype 'j schema_field = NoSchema | Schema 'j | BadSchema

record 'j tool_in =
  ti_type :: string
  ti_name :: string
  ti_description :: string
  ti_strict :: "bool option"
  ti_schema :: "'j schema_field"

datatype 'j tools_field = NoTools | ToolList "'j tool_in list" | BadTools

datatype choice_field = NoChoice | ChoiceText string | ChoiceNamed string string | BadChoice

text \<open>A message that does not decode strictly is \<open>None\<close>.\<close>

record 'j chat_request =
  cr_model :: string
  cr_messages :: "message_in option list"
  cr_stream :: bool
  cr_opts :: opts_field
  cr_tools :: "'j tools_field"
  cr_choice :: choice_field
  cr_temperature :: "string option"
  cr_top_p :: "string option"
  cr_max_tokens :: "int option"
  cr_stop :: stop_field

section \<open>The OpenAI-compatible adapter\<close>

fun validate_messages :: "message_in option list \<Rightarrow> unit res" where
  "validate_messages [] = Inr ()"
| "validate_messages (None # ms) = Inl (Errorf ''unsupported message'')"
| "validate_messages (Some m # ms) =
     (if mi_role m \<notin> set [''system'', ''developer'', ''user'', ''assistant'', ''tool''] then Inl (Errorf ''unsupported message role'')
      else if mi_content m = NotText then Inl (Errorf ''only text message content is supported'')
      else validate_messages ms)"

definition openai_validate :: "'j chat_request res \<Rightarrow> unit res" where
  "openai_validate body = (case body of Inl e \<Rightarrow> Inl (Wrapf ''invalid chat request'' e)
   | Inr req \<Rightarrow> (if cr_model req = [] \<or> cr_messages req = [] then Inl (Errorf ''model and messages are required'')
      else if cr_opts req \<noteq> NoOpts \<and> \<not> cr_stream req then Inl (Errorf ''stream_options requires streaming'')
      else if cr_opts req = BadOpts then Inl (Errorf ''unsupported stream_options'')
      else validate_messages (cr_messages req)))"

text \<open>A request to a provider: path, credential headers and body. \<open>base\<close> is the path of the parsed base
  URL, \<open>None\<close> when it is not an absolute HTTP URL without user information.\<close>

record 'b provider_request =
  pq_path :: string
  pq_key :: string
  pq_include_usage :: bool
  pq_body :: 'b

definition trim_right_slashes :: "string \<Rightarrow> string" where
  "trim_right_slashes s = rev (dropWhile (\<lambda>c. c = CHR ''/'') (rev s))"

definition openai_build :: "string option \<Rightarrow> 'j chat_request res \<Rightarrow> 'raw \<Rightarrow> string \<Rightarrow> 'raw provider_request res" where
  "openai_build base body raw key = rbind (openai_validate body) (\<lambda>_.
     if key = [] then Inl (Errorf ''provider key is required'')
     else (case base of None \<Rightarrow> Inl (Errorf ''invalid provider base URL'')
       | Some path \<Rightarrow> Inr \<lparr>pq_path = trim_right_slashes path @ ''/chat/completions'', pq_key = key,
           pq_include_usage = False, pq_body = raw\<rparr>))"

section \<open>The translation to the Anthropic API\<close>

datatype 'j block = TextBlock string | ToolUse string string 'j

datatype 'j turn = UserText string | AssistantBlocks "'j block list" | ToolResultOf string string

record 'j an_tool =
  an_name :: string
  an_description :: string
  an_schema :: 'j

datatype an_choice = AutoChoice | AnyChoice | NamedChoice string

record 'j anthropic_request =
  ar_model :: string
  ar_turns :: "'j turn list"
  ar_system :: string
  ar_max_tokens :: int
  ar_stream :: bool
  ar_temperature :: "string option"
  ar_top_p :: "string option"
  ar_stop_sequences :: "string list"
  ar_tools :: "'j an_tool list"
  ar_choice :: "an_choice option"

text \<open>What the arguments of a tool call decode to.\<close>

datatype 'j args_value = BadArgs | NotObject | ObjectArgs 'j

fun translate_calls :: "(string \<Rightarrow> 'j args_value) \<Rightarrow> call_in list \<Rightarrow> string set \<Rightarrow> ('j block list \<times> string set) res" where
  "translate_calls unmarshal [] known = Inr ([], known)"
| "translate_calls unmarshal (c # cs) known =
     (if ci_type c \<noteq> ''function'' \<or> ci_id c = [] \<or> ci_name c = [] \<or> ci_id c \<in> known then Inl (Errorf ''unsupported tool call'')
      else (case unmarshal (ci_args c) of
        BadArgs \<Rightarrow> Inl (Errorf ''invalid tool arguments'')
      | NotObject \<Rightarrow> Inl (Errorf ''tool arguments must be an object'')
      | ObjectArgs a \<Rightarrow> rbind (translate_calls unmarshal cs (insert (ci_id c) known))
          (\<lambda>(bs, known'). Inr (ToolUse (ci_id c) (ci_name c) a # bs, known'))))"

definition content_of :: "message_in \<Rightarrow> string" where
  "content_of m = (case mi_content m of Text s \<Rightarrow> s | _ \<Rightarrow> [])"

definition has_calls :: "message_in \<Rightarrow> bool" where
  "has_calls m \<longleftrightarrow> mi_calls m \<noteq> NoCalls"

text \<open>The loop over the messages: the system text so far, whether the conversation has begun, the tool
  calls seen, and the turns so far.\<close>

fun translate_messages :: "(string \<Rightarrow> 'j args_value) \<Rightarrow> message_in option list \<Rightarrow> string \<Rightarrow> bool \<Rightarrow> string set \<Rightarrow> 'j turn list \<Rightarrow>
    (string \<times> 'j turn list) res" where
  "translate_messages unmarshal [] system seen known turns = Inr (system, turns)"
| "translate_messages unmarshal (None # ms) system seen known turns = Inl (Errorf ''unsupported message'')"
| "translate_messages unmarshal (Some m # ms) system seen known turns =
     (if mi_content m = NotText then Inl (Errorf ''only text message content is supported'')
      else if mi_role m = ''system'' then
        (if seen \<or> has_calls m \<or> mi_call_id m \<noteq> [] then Inl (Errorf ''unsupported system message'')
         else translate_messages unmarshal ms ((if system \<noteq> [] then system @ [CHR 0x0A] else []) @ content_of m) seen known turns)
      else if mi_role m = ''user'' then
        (if has_calls m \<or> mi_call_id m \<noteq> [] then Inl (Errorf ''unsupported user message'')
         else translate_messages unmarshal ms system True known (turns @ [UserText (content_of m)]))
      else if mi_role m = ''assistant'' then
        (if mi_call_id m \<noteq> [] then Inl (Errorf ''unsupported assistant message'')
         else rbind (case mi_calls m of NoCalls \<Rightarrow> Inr ([], known)
             | BadCalls \<Rightarrow> Inl (Errorf ''invalid tool calls'')
             | Calls cs \<Rightarrow> if cs = [] then Inl (Errorf ''invalid tool calls'') else translate_calls unmarshal cs known)
           (\<lambda>(uses, known'). let blocks = (if content_of m \<noteq> [] then [TextBlock (content_of m)] else []) @ uses in
             if blocks = [] then Inl (Errorf ''empty assistant message'')
             else translate_messages unmarshal ms system True known' (turns @ [AssistantBlocks blocks])))
      else if mi_role m = ''tool'' then
        (if mi_call_id m = [] \<or> mi_call_id m \<notin> known \<or> has_calls m then Inl (Errorf ''unmatched tool result'')
         else translate_messages unmarshal ms system True known (turns @ [ToolResultOf (mi_call_id m) (content_of m)]))
      else Inl (Errorf ''unsupported message role''))"

text \<open>\<open>object\<close> is the schema of a tool that gives none.\<close>

fun translate_tools :: "'j \<Rightarrow> 'j tool_in list \<Rightarrow> 'j an_tool list res" where
  "translate_tools object [] = Inr []"
| "translate_tools object (t # ts) =
     (if ti_type t \<noteq> ''function'' \<or> ti_name t = [] then Inl (Errorf ''unsupported tool'')
      else if ti_strict t = Some True then Inl (Errorf ''strict tool schemas are unsupported'')
      else (case ti_schema t of BadSchema \<Rightarrow> Inl (Errorf ''invalid tool schema'')
        | s \<Rightarrow> rbind (translate_tools object ts) (\<lambda>rest. Inr (\<lparr>an_name = ti_name t, an_description = ti_description t,
            an_schema = (case s of Schema j \<Rightarrow> j | _ \<Rightarrow> object)\<rparr> # rest))))"

definition translate_choice :: "choice_field \<Rightarrow> 'j an_tool list \<Rightarrow> an_choice option res" where
  "translate_choice c tools = (case c of
     NoChoice \<Rightarrow> Inr None
   | ChoiceText s \<Rightarrow> (if s = ''auto'' then Inr (Some AutoChoice) else if s = ''required'' then Inr (Some AnyChoice)
       else if s = ''none'' then (if tools \<noteq> [] then Inl (Errorf ''tool_choice none is unsupported with tools'') else Inr None)
       else Inl (Errorf ''unsupported tool_choice''))
   | ChoiceNamed ty name \<Rightarrow> (if ty \<noteq> ''function'' \<or> name = [] then Inl (Errorf ''unsupported tool_choice'')
       else if list_ex (\<lambda>t. an_name t = name) tools then Inr (Some (NamedChoice name))
       else Inl (Errorf ''tool_choice names an undefined tool''))
   | BadChoice \<Rightarrow> Inl (Errorf ''unsupported tool_choice''))"

definition translate_anthropic_request :: "(string \<Rightarrow> 'j args_value) \<Rightarrow> 'j \<Rightarrow> 'j chat_request res \<Rightarrow> 'j anthropic_request res" where
  "translate_anthropic_request unmarshal object body = (case body of Inl e \<Rightarrow> Inl (Wrapf ''invalid chat request'' e)
   | Inr req \<Rightarrow>
     (if cr_model req = [] \<or> cr_messages req = [] then Inl (Errorf ''model and messages are required'')
      else (case cr_max_tokens req of None \<Rightarrow> Inl (Errorf ''max_tokens is required and must be positive'')
      | Some m \<Rightarrow> (if m \<le> 0 then Inl (Errorf ''max_tokens is required and must be positive'')
        else if cr_opts req \<noteq> NoOpts \<and> (\<not> cr_stream req \<or> cr_opts req = BadOpts) then Inl (Errorf ''unsupported stream_options'')
        else if cr_stop req = BadStop then Inl (Errorf ''unsupported stop'')
        else rbind (translate_messages unmarshal (cr_messages req) [] False {} []) (\<lambda>(system, turns).
          if turns = [] then Inl (Errorf ''at least one non-system message is required'')
          else rbind (case cr_tools req of NoTools \<Rightarrow> Inr [] | BadTools \<Rightarrow> Inl (Errorf ''invalid tools'')
              | ToolList ts \<Rightarrow> translate_tools object ts) (\<lambda>tools.
            rbind (translate_choice (cr_choice req) tools) (\<lambda>choice.
              Inr \<lparr>ar_model = cr_model req, ar_turns = turns, ar_system = system, ar_max_tokens = m, ar_stream = cr_stream req,
                ar_temperature = cr_temperature req, ar_top_p = cr_top_p req,
                ar_stop_sequences = (case cr_stop req of StopOne s \<Rightarrow> [s] | StopMany ss \<Rightarrow> ss | _ \<Rightarrow> []),
                ar_tools = tools, ar_choice = choice\<rparr>)))))))"

definition anthropic_validate :: "(string \<Rightarrow> 'j args_value) \<Rightarrow> 'j \<Rightarrow> 'j chat_request res \<Rightarrow> unit res" where
  "anthropic_validate unmarshal object body = rbind (translate_anthropic_request unmarshal object body) (\<lambda>_. Inr ())"

definition anthropic_build :: "(string \<Rightarrow> 'j args_value) \<Rightarrow> 'j \<Rightarrow> string option \<Rightarrow> 'j chat_request res \<Rightarrow> string \<Rightarrow>
    'j anthropic_request provider_request res" where
  "anthropic_build unmarshal object base body key = rbind (translate_anthropic_request unmarshal object body) (\<lambda>out.
     if key = [] then Inl (Errorf ''provider key is required'')
     else (case base of None \<Rightarrow> Inl (Errorf ''invalid provider base URL'')
       | Some path \<Rightarrow> Inr \<lparr>pq_path = trim_right_slashes path @ ''/messages'', pq_key = key,
           pq_include_usage = (case body of Inr req \<Rightarrow> cr_opts req = Opts True | Inl _ \<Rightarrow> False), pq_body = out\<rparr>))"

section \<open>The translation keeps the conversation\<close>

fun tool_ids :: "'j block list \<Rightarrow> string list" where
  "tool_ids [] = []"
| "tool_ids (ToolUse i n a # bs) = i # tool_ids bs"
| "tool_ids (TextBlock t # bs) = tool_ids bs"

lemma tool_ids_append: "tool_ids (xs @ ys) = tool_ids xs @ tool_ids ys"
  by (induction xs rule: tool_ids.induct) simp_all

text \<open>A conversation is well formed when no tool call repeats an identifier and every tool result answers an
  earlier call.\<close>

fun turns_ok :: "string set \<Rightarrow> 'j turn list \<Rightarrow> bool" where
  "turns_ok known [] = True"
| "turns_ok known (UserText t # ts) = turns_ok known ts"
| "turns_ok known (AssistantBlocks bs # ts) = (bs \<noteq> [] \<and> distinct (tool_ids bs) \<and> set (tool_ids bs) \<inter> known = {} \<and>
     turns_ok (known \<union> set (tool_ids bs)) ts)"
| "turns_ok known (ToolResultOf i c # ts) = (i \<in> known \<and> turns_ok known ts)"

text \<open>What a message of the request has become.\<close>

definition same_calls :: "(string \<Rightarrow> 'j args_value) \<Rightarrow> call_in list \<Rightarrow> 'j block list \<Rightarrow> bool" where
  "same_calls unmarshal = list_all2 (\<lambda>c b. \<exists>a. unmarshal (ci_args c) = ObjectArgs a \<and> b = ToolUse (ci_id c) (ci_name c) a)"

definition says :: "(string \<Rightarrow> 'j args_value) \<Rightarrow> message_in \<Rightarrow> 'j turn \<Rightarrow> bool" where
  "says unmarshal m t \<longleftrightarrow>
     mi_role m = ''user'' \<and> t = UserText (content_of m) \<or>
     mi_role m = ''tool'' \<and> t = ToolResultOf (mi_call_id m) (content_of m) \<or>
     mi_role m = ''assistant'' \<and> (\<exists>uses. t = AssistantBlocks ((if content_of m \<noteq> [] then [TextBlock (content_of m)] else []) @ uses) \<and>
       (case mi_calls m of NoCalls \<Rightarrow> uses = [] | Calls cs \<Rightarrow> same_calls unmarshal cs uses | BadCalls \<Rightarrow> False))"

definition join_system :: "string \<Rightarrow> message_in list \<Rightarrow> string" where
  "join_system = foldl (\<lambda>s m. (if s \<noteq> [] then s @ [CHR 0x0A] else []) @ content_of m)"

lemma translate_calls_run:
  "translate_calls unmarshal cs known = Inr (bs, known') \<Longrightarrow> same_calls unmarshal cs bs \<and> known' = known \<union> set (tool_ids bs) \<and>
     distinct (tool_ids bs) \<and> set (tool_ids bs) \<inter> known = {}"
proof (induction cs arbitrary: known bs known')
  case Nil
  then show ?case by (simp add: same_calls_def)
next
  case (Cons c cs)
  then obtain a bs' where a: "unmarshal (ci_args c) = ObjectArgs a" and n: "ci_id c \<notin> known"
    and r: "translate_calls unmarshal cs (insert (ci_id c) known) = Inr (bs', known')" and b: "bs = ToolUse (ci_id c) (ci_name c) a # bs'"
    by (auto simp: rbind_Inr_iff split: if_splits args_value.splits)
  from Cons.IH [OF r] a n show ?case by (auto simp: b same_calls_def)
qed

text \<open>One message, and what the rest of the loop makes of the others.\<close>

lemma translate_step:
  assumes "translate_messages unmarshal (Some m # ms) system seen known turns = Inr (system', turns')"
  shows "mi_role m = ''system'' \<and>
      translate_messages unmarshal ms (join_system system [m]) seen known turns = Inr (system', turns') \<or>
    mi_role m \<noteq> ''system'' \<and> (\<exists>t known1. says unmarshal m t \<and> (\<forall>ts. turns_ok known1 ts \<longrightarrow> turns_ok known (t # ts)) \<and>
      translate_messages unmarshal ms system True known1 (turns @ [t]) = Inr (system', turns'))"
proof -
  have role: "mi_role m \<in> {''system'', ''user'', ''assistant'', ''tool''}" and plain: "mi_content m \<noteq> NotText"
    using assms by (auto split: if_splits)
  show ?thesis
  proof (cases "mi_role m = ''assistant''")
    case False
    with assms role plain show ?thesis
      by (auto simp: says_def join_system_def split: if_splits)
  next
    case True
    with assms plain obtain uses known1 where u: "(case mi_calls m of NoCalls \<Rightarrow> Inr ([], known)
             | BadCalls \<Rightarrow> Inl (Errorf ''invalid tool calls'')
             | Calls cs \<Rightarrow> if cs = [] then Inl (Errorf ''invalid tool calls'') else translate_calls unmarshal cs known) = Inr (uses, known1)"
      and ne: "(if content_of m \<noteq> [] then [TextBlock (content_of m)] else []) @ uses \<noteq> []"
      and rest: "translate_messages unmarshal ms system True known1
        (turns @ [AssistantBlocks ((if content_of m \<noteq> [] then [TextBlock (content_of m)] else []) @ uses)]) = Inr (system', turns')"
      by (auto simp: rbind_Inr_iff Let_def split: if_splits)
    have k: "known1 = known \<union> set (tool_ids uses)" "distinct (tool_ids uses)" "set (tool_ids uses) \<inter> known = {}"
      and c: "case mi_calls m of NoCalls \<Rightarrow> uses = [] | Calls cs \<Rightarrow> same_calls unmarshal cs uses | BadCalls \<Rightarrow> False"
      using u translate_calls_run by (cases "mi_calls m"; fastforce split: if_splits)+
    have "tool_ids ((if content_of m \<noteq> [] then [TextBlock (content_of m)] else []) @ uses) = tool_ids uses" by simp
    with True k c ne rest show ?thesis
      by (intro disjI2 conjI exI [of _ "AssistantBlocks ((if content_of m \<noteq> [] then [TextBlock (content_of m)] else []) @ uses)"]
          exI [of _ known1]) (auto simp: says_def)
  qed
qed

lemma translate_messages_run:
  "translate_messages unmarshal raws system seen known turns = Inr (system', turns') \<Longrightarrow>
   \<exists>ms new. raws = map Some ms \<and> turns' = turns @ new \<and> turns_ok known new \<and>
     list_all2 (says unmarshal) (filter (\<lambda>m. mi_role m \<noteq> ''system'') ms) new \<and>
     system' = join_system system (filter (\<lambda>m. mi_role m = ''system'') ms)"
proof (induction raws arbitrary: system seen known turns)
  case Nil
  then show ?case by (intro exI [of _ "[]"]) (simp add: join_system_def)
next
  case (Cons raw raws)
  then obtain m where m: "raw = Some m" by (cases raw) simp_all
  from translate_step [OF Cons.prems [unfolded m]] show ?case
  proof (elim disjE conjE exE)
    assume s: "mi_role m = ''system''"
      and r: "translate_messages unmarshal raws (join_system system [m]) seen known turns = Inr (system', turns')"
    from Cons.IH [OF r] obtain ms new where "raws = map Some ms" "turns' = turns @ new" "turns_ok known new"
      "list_all2 (says unmarshal) (filter (\<lambda>m. mi_role m \<noteq> ''system'') ms) new"
      "system' = join_system (join_system system [m]) (filter (\<lambda>m. mi_role m = ''system'') ms)" by blast
    with s m show ?thesis by (intro exI [of _ "m # ms"] exI [of _ new]) (simp add: join_system_def)
  next
    fix t known1
    assume s: "mi_role m \<noteq> ''system''" "says unmarshal m t" "\<forall>ts. turns_ok known1 ts \<longrightarrow> turns_ok known (t # ts)"
      and r: "translate_messages unmarshal raws system True known1 (turns @ [t]) = Inr (system', turns')"
    from Cons.IH [OF r] obtain ms new where "raws = map Some ms" "turns' = (turns @ [t]) @ new" "turns_ok known1 new"
      "list_all2 (says unmarshal) (filter (\<lambda>m. mi_role m \<noteq> ''system'') ms) new"
      "system' = join_system system (filter (\<lambda>m. mi_role m = ''system'') ms)" by blast
    with s m show ?thesis by (intro exI [of _ "m # ms"] exI [of _ "t # new"]) simp
  qed
qed

text \<open>C23: A chat request that the translation accepts becomes the same conversation for the Anthropic API: one
  turn for each message that is not a system message, in order and with the same text and tool calls, the
  system messages joined by line ends, identifiers of tool calls unique and every tool result an answer to
  an earlier call, as that API requires; a tool that is chosen by name is one of the tools.\<close>

theorem translation_keeps_conversation:
  assumes "translate_anthropic_request unmarshal object (Inr req) = Inr out"
  shows "(\<exists>ms. cr_messages req = map Some ms \<and>
      list_all2 (says unmarshal) (filter (\<lambda>m. mi_role m \<noteq> ''system'') ms) (ar_turns out) \<and>
      ar_system out = join_system [] (filter (\<lambda>m. mi_role m = ''system'') ms)) \<and>
    ar_turns out \<noteq> [] \<and> turns_ok {} (ar_turns out) \<and> 0 < ar_max_tokens out \<and>
    (\<forall>name. ar_choice out = Some (NamedChoice name) \<longrightarrow> name \<in> an_name ` set (ar_tools out))"
proof -
  obtain m where m: "cr_max_tokens req = Some m" "0 < m"
    using assms by (auto simp: translate_anthropic_request_def split: if_splits option.splits)
  obtain system turns tools choice where t: "translate_messages unmarshal (cr_messages req) [] False {} [] = Inr (system, turns)"
      "turns \<noteq> []" "translate_choice (cr_choice req) tools = Inr choice"
    and out: "ar_turns out = turns" "ar_system out = system" "ar_max_tokens out = m" "ar_tools out = tools" "ar_choice out = choice"
    using assms m by (auto simp: translate_anthropic_request_def rbind_Inr_iff split: if_splits)
  have "name \<in> an_name ` set tools" if "choice = Some (NamedChoice name)" for name
    using t(3) that by (auto simp: translate_choice_def list_ex_iff split: choice_field.splits if_splits)
  with translate_messages_run [OF t(1)] t(2) m out show ?thesis by auto
qed

definition sample_chat :: "unit chat_request" where
  "sample_chat = \<lparr>cr_model = ''claude'', cr_messages =
     [Some \<lparr>mi_role = ''system'', mi_content = Text ''be brief'', mi_calls = NoCalls, mi_call_id = []\<rparr>,
      Some \<lparr>mi_role = ''user'', mi_content = Text ''list'', mi_calls = NoCalls, mi_call_id = []\<rparr>,
      Some \<lparr>mi_role = ''assistant'', mi_content = NoText, mi_calls = Calls [\<lparr>ci_id = ''c1'', ci_type = ''function'', ci_name = ''ls'', ci_args = ''{}''\<rparr>],
        mi_call_id = []\<rparr>,
      Some \<lparr>mi_role = ''tool'', mi_content = Text ''a b'', mi_calls = NoCalls, mi_call_id = ''c1''\<rparr>],
     cr_stream = False, cr_opts = NoOpts, cr_tools = NoTools, cr_choice = NoChoice, cr_temperature = None, cr_top_p = None,
     cr_max_tokens = Some 100, cr_stop = NoStop\<rparr>"

lemma translation_keeps_conversation_witness:
  "\<exists>out. translate_anthropic_request (\<lambda>_. ObjectArgs ()) () (Inr sample_chat) = Inr out \<and> length (ar_turns out) = 3 \<and>
     turns_ok {} (ar_turns out)"
proof -
  have "is_ok (translate_anthropic_request (\<lambda>_. ObjectArgs ()) () (Inr sample_chat)) \<and>
    length (ar_turns (projr (translate_anthropic_request (\<lambda>_. ObjectArgs ()) () (Inr sample_chat)))) = 3" by code_simp
  then obtain out where "translate_anthropic_request (\<lambda>_. ObjectArgs ()) () (Inr sample_chat) = Inr out" "length (ar_turns out) = 3"
    by (auto simp: is_ok_iff)
  with translation_keeps_conversation [OF this(1)] show ?thesis by blast
qed

end
