(* ===== verification/Anthropic_Stream.thy ===== *)
theory Anthropic_Stream
  imports Sse
begin

text \<open>
  \<open>Translate\<close> and \<open>Stream\<close> of \<open>internal/providers/anthropic.go\<close>: answers of the Anthropic API turned into
  chat completions. The events of a stream are decoded by a parameter; what the client is sent is a list
  of chunks, usage, end markers and error events, each written in one call.
\<close>

section \<open>Complete answers\<close>

datatype content_in = TextIn string | ToolUseIn string string string bool | OtherIn

text \<open>The last field of \<open>ToolUseIn\<close> tells whether the input is valid JSON; the third is its text.\<close>

record an_answer =
  aw_id :: string
  aw_model :: string
  aw_content :: "content_in list"
  aw_stop_reason :: string
  aw_usage :: "anthropic_usage option"

definition anthropic_finish :: "string \<Rightarrow> string option" where
  "anthropic_finish reason = (if reason = ''end_turn'' \<or> reason = ''stop_sequence'' then Some ''stop''
     else if reason = ''max_tokens'' then Some ''length'' else if reason = ''tool_use'' then Some ''tool_calls'' else None)"

record usage_out =
  uo_prompt :: int
  uo_completion :: int
  uo_total :: int
  uo_cached :: "int option"

record completion =
  co_id :: string
  co_model :: string
  co_content :: string
  co_calls :: "(string \<times> string \<times> string) list"
  co_finish :: "string option"
  co_usage :: "usage_out option"

fun take_content :: "(string \<Rightarrow> string) \<Rightarrow> content_in list \<Rightarrow> string \<Rightarrow> (string \<times> string \<times> string) list \<Rightarrow> string list \<Rightarrow>
    (string \<times> (string \<times> string \<times> string) list \<times> string list) res" where
  "take_content sha [] content calls fps = Inr (content, calls, fps)"
| "take_content sha (TextIn t # bs) content calls fps = take_content sha bs (content @ t) calls fps"
| "take_content sha (ToolUseIn i n input valid # bs) content calls fps =
     (if i = [] \<or> n = [] \<or> \<not> valid then Inl (Errorf ''invalid provider tool use'')
      else take_content sha bs content (calls @ [(i, n, input)]) (fps @ [call_fingerprint sha n input]))"
| "take_content sha (OtherIn # bs) content calls fps = Inl (Errorf ''unsupported provider content'')"

datatype an_downstream = NothingSent | ErrorSent nat string | CompletionSent completion

text \<open>\<open>encode_error\<close> is the error of writing the completion.\<close>

definition anthropic_translate :: "(string \<Rightarrow> an_answer option) \<Rightarrow> (string \<Rightarrow> string) \<Rightarrow> goerr option \<Rightarrow> provider_response \<Rightarrow>
    (result \<times> goerr option) \<times> an_downstream" where
  "anthropic_translate unmarshal sha encode_error resp =
     (if pv_status resp < 200 \<or> pv_status resp \<ge> 300
      then ((zero_result\<lparr>re_error_code := error_code_of (pv_status resp), re_status := ''provider_error'',
            re_usage_source := ''unknown''\<rparr>, None), ErrorSent (pv_status resp) (error_code_of (pv_status resp)))
      else (case pv_error resp of
        Some e \<Rightarrow> ((zero_result, Some (Wrapf ''read provider response'' e)), NothingSent)
      | None \<Rightarrow> (if length (pv_body resp) > max_provider_response
          then ((zero_result, Some (Errorf ''provider response exceeds limit'')), NothingSent)
          else (case unmarshal (pv_body resp) of
            None \<Rightarrow> ((zero_result, Some (Errorf ''invalid provider JSON'')), NothingSent)
          | Some msg \<Rightarrow> (if aw_id msg = [] then ((zero_result, Some (Errorf ''invalid provider JSON'')), NothingSent)
              else (case apply_anthropic_usage (aw_usage msg) (start_result\<lparr>re_model := aw_model msg\<rparr>) of
                (Inl e, _) \<Rightarrow> ((zero_result, Some e), NothingSent)
              | (Inr _, r) \<Rightarrow> (case take_content sha (aw_content msg) [] [] [] of
                  Inl e \<Rightarrow> ((zero_result, Some e), NothingSent)
                | Inr (content, calls, fps) \<Rightarrow>
                    (let r1 = r\<lparr>re_fingerprints := fps\<rparr>;
                         out = \<lparr>co_id = aw_id msg, co_model = aw_model msg, co_content = content, co_calls = calls,
                           co_finish = anthropic_finish (aw_stop_reason msg), co_usage = None\<rparr> in
                     case (aw_usage msg, re_input r1, re_output r1) of
                       (Some _, Some i, Some n) \<Rightarrow>
                         (if n > wrap64 (max_int64 - i) then ((zero_result, Some (Errorf ''usage overflow'')), NothingSent)
                          else ((r1, encode_error), CompletionSent (out\<lparr>co_usage := Some \<lparr>uo_prompt = i, uo_completion = n,
                              uo_total = wrap64 (i + n), uo_cached = re_cached r1\<rparr>\<rparr>)))
                     | _ \<Rightarrow> ((r1, encode_error), CompletionSent out)))))))))"

section \<open>Streams\<close>

datatype an_event =
    MessageStart string string "anthropic_usage option"
  | BlockStart int string string string string string
  | BlockDelta int string string string
  | MessageDelta string "anthropic_usage option"
  | MessageStop
  | BlockStop
  | Ping
  | ErrorEvent
  | OtherEvent

text \<open>\<open>BlockStart index type id name text input\<close>, the input empty when it is absent or null;
  \<open>BlockDelta index type text partial_json\<close>.\<close>

datatype an_delta = NoDelta | RoleDelta | ContentDelta string | ToolStart nat string string string | ToolArgs nat string

datatype an_out =
    Chunk string string an_delta "string option"
  | UsageChunk string string usage_out
  | DoneMarker
  | ErrorOut string

record an_stream =
  as_id :: string
  as_model :: string
  as_tools :: "(int \<times> nat) list"
  as_result :: result
  as_out :: "an_out list"

definition start_stream :: an_stream where
  "start_stream = \<lparr>as_id = [], as_model = [], as_tools = [], as_result = start_result, as_out = []\<rparr>"

text \<open>How a turn ends the stream: the state it leaves and the error; \<open>Inr\<close> carries the chunk to write.\<close>

type_synonym an_end = "an_stream \<times> goerr option"

definition fails :: "an_stream \<Rightarrow> string \<Rightarrow> an_end + 'a" where
  "fails s msg = Inl (s, Some (Errorf msg))"

definition fails_with :: "an_stream \<Rightarrow> string \<Rightarrow> string \<Rightarrow> an_end + 'a" where
  "fails_with s status msg = Inl (s\<lparr>as_result := (as_result s)\<lparr>re_status := status\<rparr>\<rparr>, Some (Errorf msg))"

definition with_result :: "an_stream \<Rightarrow> unit res \<times> result \<Rightarrow> (an_stream \<Rightarrow> an_end + 'a) \<Rightarrow> an_end + 'a" where
  "with_result s x k = (case x of (Inl e, r) \<Rightarrow> Inl (s\<lparr>as_result := r\<rparr>, Some e) | (Inr _, r) \<Rightarrow> k (s\<lparr>as_result := r\<rparr>))"

text \<open>A map index is overwritten in place; the next index is the size of the map.\<close>

definition put_index :: "int \<Rightarrow> nat \<Rightarrow> (int \<times> nat) list \<Rightarrow> (int \<times> nat) list" where
  "put_index k v m = (k, v) # filter (\<lambda>e. fst e \<noteq> k) m"

definition usage_of :: "result \<Rightarrow> usage_out option" where
  "usage_of r = (case (re_input r, re_output r) of
     (Some i, Some n) \<Rightarrow> Some \<lparr>uo_prompt = i, uo_completion = n, uo_total = wrap64 (i + n), uo_cached = re_cached r\<rparr> | _ \<Rightarrow> None)"

text \<open>Writes of the end of a message; a failed write cancels.\<close>

fun write_all :: "(an_out list \<Rightarrow> goerr option) \<Rightarrow> an_out list \<Rightarrow> an_stream \<Rightarrow> an_end" where
  "write_all wr [] s = (s, None)"
| "write_all wr (o' # os) s = (case wr (as_out s) of
     Some e \<Rightarrow> (s\<lparr>as_result := (as_result s)\<lparr>re_status := ''client_cancelled''\<rparr>\<rparr>, Some e)
   | None \<Rightarrow> write_all wr os (s\<lparr>as_out := as_out s @ [o']\<rparr>))"

fun anthropic_event :: "(string \<Rightarrow> string) \<Rightarrow> (an_out list \<Rightarrow> goerr option) \<Rightarrow> bool \<Rightarrow> an_event \<Rightarrow> an_stream \<Rightarrow>
    an_end + (an_stream \<times> (an_delta \<times> string option) option)" where
  "anthropic_event sha wr include_usage (MessageStart i m u) s =
     with_result (s\<lparr>as_id := i, as_model := m\<rparr>) (apply_anthropic_usage u ((as_result s)\<lparr>re_model := m\<rparr>))
       (\<lambda>s1. Inr (s1, Some (RoleDelta, None)))"
| "anthropic_event sha wr include_usage (BlockStart index ty i name t input) s =
     (if ty = ''tool_use'' then
        (let idx = length (as_tools s); s1 = s\<lparr>as_tools := put_index index idx (as_tools s)\<rparr> in
         with_result s1 (add_tool_delta 0 (int idx) name input (as_result s1))
           (\<lambda>s2. Inr (s2, Some (ToolStart idx i name input, None))))
      else if ty = ''text'' \<and> t \<noteq> [] then Inr (s, Some (ContentDelta t, None))
      else if ty \<noteq> ''text'' then fails s ''unsupported provider content''
      else Inr (s, None))"
| "anthropic_event sha wr include_usage (BlockDelta index ty t partial) s =
     (if ty = ''text_delta'' then Inr (s, Some (ContentDelta t, None))
      else if ty = ''input_json_delta'' then (case map_of (as_tools s) index of
          None \<Rightarrow> fails s ''unknown provider tool block''
        | Some idx \<Rightarrow> with_result s (add_tool_delta 0 (int idx) [] partial (as_result s))
            (\<lambda>s1. Inr (s1, Some (ToolArgs idx partial, None))))
      else fails s ''unsupported provider delta'')"
| "anthropic_event sha wr include_usage (MessageDelta reason u) s =
     with_result s (apply_anthropic_usage u (as_result s)) (\<lambda>s1.
       if (case (re_input (as_result s1), re_output (as_result s1)) of (Some i, Some n) \<Rightarrow> n > wrap64 (max_int64 - i) | _ \<Rightarrow> False)
       then fails_with s1 ''provider_error'' ''usage overflow''
       else Inr (s1, Some (NoDelta, anthropic_finish reason)))"
| "anthropic_event sha wr include_usage MessageStop s =
     (let s1 = s\<lparr>as_result := finish_tool_deltas sha (as_result s)\<rparr> in
      Inl (write_all wr ((case (if include_usage then usage_of (as_result s1) else None) of
          None \<Rightarrow> [] | Some u \<Rightarrow> [UsageChunk (as_id s1) (as_model s1) u]) @ [DoneMarker]) s1))"
| "anthropic_event sha wr include_usage BlockStop s = Inr (s, None)"
| "anthropic_event sha wr include_usage Ping s = Inr (s, None)"
| "anthropic_event sha wr include_usage ErrorEvent s = fails_with s ''provider_error'' ''provider stream error''"
| "anthropic_event sha wr include_usage OtherEvent s = fails_with s ''provider_error'' ''unsupported provider event''"

text \<open>An event and the chunk it causes.\<close>

definition anthropic_step :: "(string \<Rightarrow> string) \<Rightarrow> (an_out list \<Rightarrow> goerr option) \<Rightarrow> bool \<Rightarrow> an_event \<Rightarrow> an_stream \<Rightarrow> an_end + an_stream" where
  "anthropic_step sha wr include_usage ev s = (case anthropic_event sha wr include_usage ev s of
     Inl e \<Rightarrow> Inl e
   | Inr (s1, None) \<Rightarrow> Inr s1
   | Inr (s1, Some (delta, finish)) \<Rightarrow> (case write_all wr [Chunk (as_id s1) (as_model s1) delta finish] s1 of
       (s2, Some e) \<Rightarrow> Inl (s2, Some e) | (s2, None) \<Rightarrow> Inr s2))"

fun frame_data :: "string list \<Rightarrow> string" where
  "frame_data [] = []"
| "frame_data (l # ls) = (let part = trim_suffix l [CHR 0x0D] in
     if has_prefix part ''data:'' then trim_space (trim_prefix part ''data:'') else []) @ frame_data ls"

text \<open>What follows a line: the frame that is left and the state.\<close>

definition anthropic_line :: "(string \<Rightarrow> an_event option) \<Rightarrow> (string \<Rightarrow> string) \<Rightarrow> (an_out list \<Rightarrow> goerr option) \<Rightarrow> bool \<Rightarrow> string \<Rightarrow>
    string \<Rightarrow> an_stream \<Rightarrow> an_end + (string \<times> an_stream)" where
  "anthropic_line unmarshal sha wr include_usage line frame s =
     (if length frame + length line > max_sse_frame then fails_with s ''provider_error'' ''SSE frame exceeds limit''
      else if trim_space line = [] \<and> frame @ line \<noteq> [] then
        (case frame_data (split_on lf (frame @ line)) of
           [] \<Rightarrow> Inr ([], s)
         | data \<Rightarrow> (case unmarshal data of
             None \<Rightarrow> fails_with s ''provider_error'' ''invalid provider SSE data''
           | Some ev \<Rightarrow> (case anthropic_step sha wr include_usage ev s of Inl e \<Rightarrow> Inl e | Inr s1 \<Rightarrow> Inr ([], s1))))
      else Inr (frame @ line, s))"

fun anthropic_reads :: "(string \<Rightarrow> an_event option) \<Rightarrow> (string \<Rightarrow> string) \<Rightarrow> (an_out list \<Rightarrow> goerr option) \<Rightarrow> bool \<Rightarrow> line_read list \<Rightarrow>
    string \<Rightarrow> an_stream \<Rightarrow> an_end option" where
  "anthropic_reads unmarshal sha wr include_usage [] frame s = None"
| "anthropic_reads unmarshal sha wr include_usage (x # xs) frame s =
     (let cancelled = (s\<lparr>as_result := (as_result s)\<lparr>re_status := ''client_cancelled''\<rparr>\<rparr>, Some ErrContext) in
      if lr_gone x then Some cancelled
      else (case read_line_bounded (lr_slices x) [] of
        None \<Rightarrow> None
      | Some (line, err, eof) \<Rightarrow> (case anthropic_line unmarshal sha wr include_usage line frame s of
          Inl e \<Rightarrow> Some e
        | Inr (frame1, s1) \<Rightarrow> (case err of
            None \<Rightarrow> anthropic_reads unmarshal sha wr include_usage xs frame1 s1
          | Some e \<Rightarrow> Some (if lr_gone_after x
              then (s1\<lparr>as_result := (as_result s1)\<lparr>re_status := ''client_cancelled''\<rparr>\<rparr>, Some ErrContext)
              else (s1\<lparr>as_result := (as_result s1)\<lparr>re_status := ''transport_error''\<rparr>\<rparr>,
                Some (if eof then Errorf ''provider stream ended before message_stop'' else Wrapf ''provider stream interrupted'' e)))))))"

text \<open>The deferred function of \<open>Stream\<close>: the error code and the error event.\<close>

definition anthropic_deferred :: "(an_out list \<Rightarrow> goerr option) \<Rightarrow> an_end \<Rightarrow> an_end" where
  "anthropic_deferred wr x = (case x of (s, err) \<Rightarrow>
     if err = None \<or> re_status (as_result s) = ''client_cancelled'' then x
     else (let transport = (re_status (as_result s) = ''transport_error'');
               code = (if transport then ''provider_stream_interrupted'' else ''provider_stream_error'');
               r = (as_result s)\<lparr>re_status := (if transport then ''transport_error'' else ''provider_error''), re_error_code := code\<rparr> in
           (s\<lparr>as_result := r, as_out := (case wr (as_out s) of None \<Rightarrow> as_out s @ [ErrorOut code] | Some _ \<Rightarrow> as_out s)\<rparr>, err)))"

definition anthropic_stream :: "(string \<Rightarrow> an_event option) \<Rightarrow> (string \<Rightarrow> string) \<Rightarrow> (an_out list \<Rightarrow> goerr option) \<Rightarrow> bool \<Rightarrow>
    line_read list \<Rightarrow> an_end option" where
  "anthropic_stream unmarshal sha wr include_usage xs =
     map_option (anthropic_deferred wr) (anthropic_reads unmarshal sha wr include_usage xs [] start_stream)"

section \<open>What is recorded is what the client was sent\<close>

text \<open>The tool calls a client reads from the chunks.\<close>

fun delta_pieces :: "an_delta \<Rightarrow> (int \<times> int) piece list" where
  "delta_pieces (ToolStart idx i name args) = [((0, int idx), name, args)]"
| "delta_pieces (ToolArgs idx partial) = [((0, int idx), [], partial)]"
| "delta_pieces d = []"

fun out_pieces :: "an_out \<Rightarrow> (int \<times> int) piece list" where
  "out_pieces (Chunk i m d f) = delta_pieces d"
| "out_pieces x = []"

definition sent_pieces :: "an_out list \<Rightarrow> (int \<times> int) piece list" where
  "sent_pieces out = concat (map out_pieces out)"

definition sent_state :: "an_stream \<Rightarrow> bool" where
  "sent_state s \<longleftrightarrow> re_status (as_result s) = ''success'' \<and> re_fingerprints (as_result s) = [] \<and> DoneMarker \<notin> set (as_out s) \<and>
     (\<exists>q. add_pieces add_piece (sent_pieces (as_out s)) start_result = Inr q \<and> re_streams q = re_streams (as_result s))"

lemma add_piece_cong:
  assumes "add_piece p r = Inr r1" "re_streams q = re_streams r"
  obtains q1 where "add_piece p q = Inr q1" "re_streams q1 = re_streams r1"
  using assms by (auto simp: add_piece_def add_tool_delta_def split: prod.splits option.splits if_splits)

lemma apply_anthropic_usage_keeps:
  "apply_anthropic_usage u r = (x, r') \<Longrightarrow> re_status r' = re_status r \<and> re_fingerprints r' = re_fingerprints r \<and> re_streams r' = re_streams r"
  by (auto simp: apply_anthropic_usage_def Let_def split: option.splits if_splits)

lemma add_tool_delta_keeps:
  "add_tool_delta c t n a r = (x, r') \<Longrightarrow> re_status r' = re_status r \<and> re_fingerprints r' = re_fingerprints r"
  by (auto simp: add_tool_delta_def split: option.splits if_splits)

lemma with_result_eq:
  assumes "with_result s x k = y"
  obtains e r where "x = (Inl e, r)" "y = Inl (s\<lparr>as_result := r\<rparr>, Some e)" | r where "x = (Inr (), r)" "k (s\<lparr>as_result := r\<rparr>) = y"
  using assms by (cases x; cases "fst x") (auto simp: with_result_def)

text \<open>What an event does before anything is written.\<close>

lemma event_goes_on:
  assumes "anthropic_event sha wr iu ev s = Inr (s1, d)"
  shows "as_out s1 = as_out s \<and> re_status (as_result s1) = re_status (as_result s) \<and>
    re_fingerprints (as_result s1) = re_fingerprints (as_result s) \<and>
    (case d of None \<Rightarrow> re_streams (as_result s1) = re_streams (as_result s)
     | Some (delta, finish) \<Rightarrow> delta_pieces delta = [] \<and> re_streams (as_result s1) = re_streams (as_result s) \<or>
         (\<exists>p. delta_pieces delta = [p] \<and> add_piece p (as_result s) = Inr (as_result s1)))"
proof (cases ev)
  case (MessageStart i m u)
  with assms have "with_result (s\<lparr>as_id := i, as_model := m\<rparr>) (apply_anthropic_usage u ((as_result s)\<lparr>re_model := m\<rparr>))
       (\<lambda>s1. Inr (s1, Some (RoleDelta, None))) = Inr (s1, d)" by simp
  then show ?thesis by (rule with_result_eq) (auto dest: apply_anthropic_usage_keeps)
next
  case (BlockStart index ty i name t input)
  show ?thesis
  proof (cases "ty = ''tool_use''")
    case True
    let ?idx = "length (as_tools s)"
    from assms BlockStart True have "with_result (s\<lparr>as_tools := put_index index ?idx (as_tools s)\<rparr>)
        (add_tool_delta 0 (int ?idx) name input (as_result s)) (\<lambda>s2. Inr (s2, Some (ToolStart ?idx i name input, None))) = Inr (s1, d)"
      by (simp add: Let_def)
    then show ?thesis by (rule with_result_eq) (auto simp: add_piece_def dest: add_tool_delta_keeps)
  next
    case False
    with assms BlockStart show ?thesis by (auto simp: fails_def split: if_splits)
  qed
next
  case (BlockDelta index ty t partial)
  show ?thesis
  proof (cases "ty = ''input_json_delta'' \<and> map_of (as_tools s) index \<noteq> None")
    case True
    then obtain idx where i: "map_of (as_tools s) index = Some idx" by auto
    with assms BlockDelta True have "with_result s (add_tool_delta 0 (int idx) [] partial (as_result s))
        (\<lambda>s1. Inr (s1, Some (ToolArgs idx partial, None))) = Inr (s1, d)" by simp
    then show ?thesis by (rule with_result_eq) (auto simp: add_piece_def dest: add_tool_delta_keeps)
  next
    case False
    with assms BlockDelta show ?thesis by (auto simp: fails_def split: if_splits)
  qed
next
  case (MessageDelta reason u)
  then show ?thesis using assms
    by (auto simp: fails_with_def with_result_def dest!: apply_anthropic_usage_keeps split: prod.splits sum.splits if_splits)
qed (use assms in \<open>simp_all add: fails_with_def Let_def\<close>)

lemma write_all_one: "write_all wr [x] s = (case wr (as_out s) of
    Some e \<Rightarrow> (s\<lparr>as_result := (as_result s)\<lparr>re_status := ''client_cancelled''\<rparr>\<rparr>, Some e) | None \<Rightarrow> (s\<lparr>as_out := as_out s @ [x]\<rparr>, None))"
  by (simp split: option.split)

lemma add_pieces_append: "add_pieces add (ps @ qs) s = rbind (add_pieces add ps s) (add_pieces add qs)"
  by (induction ps arbitrary: s) (auto simp: rbind_def split: sum.splits)

lemma sent_state_step:
  assumes "anthropic_step sha wr iu ev s = Inr s'" "sent_state s"
  shows "sent_state s'"
proof -
  obtain s1 d where e: "anthropic_event sha wr iu ev s = Inr (s1, d)"
    using assms(1) by (cases "anthropic_event sha wr iu ev s") (auto simp: anthropic_step_def)
  note g = event_goes_on [OF e]
  obtain q where q: "add_pieces add_piece (sent_pieces (as_out s)) start_result = Inr q" "re_streams q = re_streams (as_result s)"
    using assms(2) by (auto simp: sent_state_def)
  show ?thesis
  proof (cases d)
    case None
    with e assms(1) have "s' = s1" by (simp add: anthropic_step_def)
    with g None assms(2) show ?thesis by (simp add: sent_state_def)
  next
    case (Some x)
    obtain delta finish where x: "x = (delta, finish)" by (cases x)
    with e assms(1) Some have s': "s' = s1\<lparr>as_out := as_out s1 @ [Chunk (as_id s1) (as_model s1) delta finish]\<rparr>"
      by (auto simp: anthropic_step_def write_all_one split: option.splits)
    then have out: "sent_pieces (as_out s') = sent_pieces (as_out s) @ delta_pieces delta" using g by (simp add: sent_pieces_def)
    have "\<exists>q1. add_pieces add_piece (delta_pieces delta) q = Inr q1 \<and> re_streams q1 = re_streams (as_result s1)"
    proof (cases "delta_pieces delta = []")
      case True
      with g Some x q show ?thesis by auto
    next
      case False
      with g Some x obtain p where p: "delta_pieces delta = [p]" "add_piece p (as_result s) = Inr (as_result s1)" by auto
      from add_piece_cong [OF p(2) q(2)] p(1) show ?thesis by (metis add_pieces.simps rbind_simps(2))
    qed
    with q(1) out s' g assms(2) show ?thesis by (auto simp: sent_state_def add_pieces_append)
  qed
qed


text \<open>How an event ends the stream.\<close>

lemma event_ends:
  assumes "anthropic_event sha wr iu ev s = Inl (s1, err)" "sent_state s"
  shows "if err = None then (\<exists>extra. as_out s1 = as_out s @ extra @ [DoneMarker] \<and> sent_pieces extra = [] \<and> DoneMarker \<notin> set extra) \<and>
      as_result s1 = finish_tool_deltas sha (as_result s)
    else DoneMarker \<notin> set (as_out s1)"
proof (cases "ev = MessageStop")
  case True
  let ?s = "s\<lparr>as_result := finish_tool_deltas sha (as_result s)\<rparr>"
  from assms(1) True have w: "write_all wr ((case (if iu then usage_of (as_result ?s) else None) of
      None \<Rightarrow> [] | Some u \<Rightarrow> [UsageChunk (as_id ?s) (as_model ?s) u]) @ [DoneMarker]) ?s = (s1, err)"
    by (simp only: anthropic_event.simps Let_def sum.inject)
  show ?thesis
  proof (cases "if iu then usage_of (as_result ?s) else None")
    case None
    with w assms(2) show ?thesis
      by (auto simp: sent_state_def sent_pieces_def split: option.splits if_splits intro!: exI [of _ "[]"])
  next
    case (Some u)
    from w assms(2) show ?thesis unfolding Some
      by (auto simp: sent_state_def sent_pieces_def split: option.splits intro!: exI [of _ "[UsageChunk (as_id s) (as_model s) u]"])
  qed
next
  case False
  have "DoneMarker \<notin> set (as_out s)" using assms(2) by (simp add: sent_state_def)
  moreover have "err \<noteq> None \<and> as_out s1 = as_out s"
    using assms(1) False by (cases ev) (auto simp: fails_def fails_with_def with_result_def Let_def split: prod.splits sum.splits if_splits option.splits)
  ultimately show ?thesis by auto
qed

definition told_calls :: "(string \<Rightarrow> string) \<Rightarrow> an_end \<Rightarrow> bool" where
  "told_calls sha x \<longleftrightarrow> (case x of (s, err) \<Rightarrow>
     if err = None then re_status (as_result s) = ''success'' \<and> as_out s \<noteq> [] \<and> last (as_out s) = DoneMarker \<and>
       DoneMarker \<notin> set (butlast (as_out s)) \<and>
       re_fingerprints (as_result s) = map (\<lambda>k. case pieces_of k (sent_pieces (as_out s)) of Some (n, a) \<Rightarrow> call_fingerprint sha n a)
         (sorted_list_of_set (fst ` set (sent_pieces (as_out s))))
     else DoneMarker \<notin> set (as_out s))"

lemma step_ends:
  assumes "anthropic_step sha wr iu ev s = Inl x" "sent_state s"
  shows "told_calls sha x"
proof (cases "anthropic_event sha wr iu ev s")
  case (Inl y)
  obtain s1 err where y: "y = (s1, err)" by (cases y)
  from Inl assms(1) have "x = y" by (simp add: anthropic_step_def)
  note ends = event_ends [OF Inl [unfolded y] assms(2)]
  show ?thesis
  proof (cases err)
    case None
    with ends obtain extra where o': "as_out s1 = as_out s @ extra @ [DoneMarker]" "sent_pieces extra = []" "DoneMarker \<notin> set extra"
        and r: "as_result s1 = finish_tool_deltas sha (as_result s)" by auto
    from assms(2) obtain q where q: "add_pieces add_piece (sent_pieces (as_out s)) start_result = Inr q" "re_streams q = re_streams (as_result s)"
        and st: "re_status (as_result s) = ''success''" "re_fingerprints (as_result s) = []" "DoneMarker \<notin> set (as_out s)"
      by (auto simp: sent_state_def)
    have "re_streams start_result = []" by (simp add: start_result_def zero_result_def)
    note f = finished_pieces [OF q(1) this, of sha]
    have "sent_pieces (as_out s1) = sent_pieces (as_out s)" using o' by (simp add: sent_pieces_def)
    moreover have "re_fingerprints (finish_tool_deltas sha q) = re_fingerprints q @ re_fingerprints (as_result s1)"
      by (simp add: r finish_tool_deltas_def q(2) st(2))
    ultimately show ?thesis using f o' st None
      by (simp add: told_calls_def \<open>x = y\<close> y r finish_tool_deltas_def butlast_append)
  next
    case (Some e)
    with ends show ?thesis by (simp add: told_calls_def \<open>x = y\<close> y)
  qed
next
  case (Inr y)
  obtain s1 d where y: "y = (s1, d)" by (cases y)
  note g = event_goes_on [OF Inr [unfolded y]]
  obtain delta finish where d: "d = Some (delta, finish)" using Inr y assms(1) by (cases d) (auto simp: anthropic_step_def)
  with Inr y assms(1) obtain e where "x = (s1\<lparr>as_result := (as_result s1)\<lparr>re_status := ''client_cancelled''\<rparr>\<rparr>, Some e)"
    by (auto simp: anthropic_step_def write_all_one split: option.splits)
  then show ?thesis using g assms(2) by (simp add: told_calls_def sent_state_def)
qed

lemma fails_told: "sent_state s \<Longrightarrow> told_calls sha (s\<lparr>as_result := r\<rparr>, Some e)"
  by (simp add: told_calls_def sent_state_def)

lemma line_ends:
  assumes "anthropic_line unmarshal sha wr iu line frame s = Inl x" "sent_state s"
  shows "told_calls sha x"
  using assms step_ends [of sha wr iu _ s x] fails_told [of s sha]
  by (auto simp: anthropic_line_def fails_with_def split: if_splits list.splits option.splits sum.splits)

lemma line_goes_on:
  assumes "anthropic_line unmarshal sha wr iu line frame s = Inr (frame', s')" "sent_state s"
  shows "sent_state s'"
  using assms sent_state_step [of sha wr iu _ s s']
  by (auto simp: anthropic_line_def fails_with_def split: if_splits list.splits option.splits sum.splits)

lemma reads_told:
  "anthropic_reads unmarshal sha wr iu xs frame s = Some x \<Longrightarrow> sent_state s \<Longrightarrow> told_calls sha x"
proof (induction xs arbitrary: frame s)
  case (Cons l xs)
  show ?case
  proof (cases "lr_gone l")
    case True
    with Cons.prems fails_told show ?thesis by auto
  next
    case False
    then obtain line err eof where l: "read_line_bounded (lr_slices l) [] = Some (line, err, eof)"
      using Cons.prems(1) by (auto split: option.splits)
    show ?thesis
    proof (cases "anthropic_line unmarshal sha wr iu line frame s")
      case (Inl y)
      with Cons.prems(1) False l line_ends [OF Inl Cons.prems(2)] show ?thesis by simp
    next
      case (Inr y)
      obtain frame1 s1 where y: "y = (frame1, s1)" by (cases y)
      note ok = line_goes_on [OF Inr [unfolded y] Cons.prems(2)]
      from Cons.prems(1) False l Inr y Cons.IH [OF _ ok] fails_told [OF ok] show ?thesis
        by (auto simp: Let_def split: option.splits if_splits)
    qed
  qed
qed simp

text \<open>C24: The Anthropic stream records the tool calls it relayed. A stream that ends without an error has
  sent one end marker, last, and the fingerprints of its result are those of the tool calls the client puts
  together from the chunks it was sent; a stream that ends with an error has sent no end marker and is not recorded
  as a success.\<close>

theorem anthropic_stream_records_what_it_sent:
  assumes "anthropic_stream unmarshal sha wr iu xs = Some (s, err)"
  shows "if err = None then re_status (as_result s) = ''success'' \<and> as_out s \<noteq> [] \<and> last (as_out s) = DoneMarker \<and>
       DoneMarker \<notin> set (butlast (as_out s)) \<and>
       re_fingerprints (as_result s) = map (\<lambda>k. case pieces_of k (sent_pieces (as_out s)) of Some (n, a) \<Rightarrow> call_fingerprint sha n a)
         (sorted_list_of_set (fst ` set (sent_pieces (as_out s))))
     else DoneMarker \<notin> set (as_out s) \<and> re_status (as_result s) \<noteq> ''success''"
proof -
  have "sent_state start_stream" by (simp add: sent_state_def start_stream_def start_result_def zero_result_def sent_pieces_def)
  moreover obtain x where "anthropic_reads unmarshal sha wr iu xs [] start_stream = Some x" "(s, err) = anthropic_deferred wr x"
    using assms by (auto simp: anthropic_stream_def)
  ultimately have "told_calls sha x" and d: "(s, err) = anthropic_deferred wr x" using reads_told by blast+
  then show ?thesis
    by (auto simp: told_calls_def anthropic_deferred_def Let_def split: prod.splits if_splits option.splits)
qed

definition sample_events :: "string \<Rightarrow> an_event option" where
  "sample_events data = (if data = ''a'' then Some (MessageStart ''m1'' ''claude'' None)
     else if data = ''b'' then Some (BlockStart 0 ''tool_use'' ''t1'' ''f'' [] [])
     else if data = ''c'' then Some (BlockDelta 0 ''input_json_delta'' [] ''{}'') else Some MessageStop)"

definition reads_of :: "string \<Rightarrow> line_read list" where
  "reads_of d = map (\<lambda>l. \<lparr>lr_gone = False, lr_slices = [(l, SliceLine)], lr_gone_after = False\<rparr>) [''data: '' @ d @ [lf], [lf]]"

definition sample_lines :: "line_read list" where
  "sample_lines = reads_of ''a'' @ reads_of ''b'' @ reads_of ''c'' @ reads_of ''d''"

lemma sample_texts:
  "\<forall>d \<in> set [''a'', ''b'', ''c'', ''d'']. trim_space (''data: '' @ d @ [lf]) \<noteq> []"
  "\<forall>d \<in> set [''a'', ''b'', ''c'', ''d'']. frame_data (split_on lf ((''data: '' @ d @ [lf]) @ [lf])) = d"
  "\<forall>d \<in> set [''a'', ''b'', ''c'', ''d'']. length (''data: '' @ d @ [lf]) = 8 \<and> d \<noteq> []"
  "trim_space [lf] = []"
  by code_simp+

text \<open>The two reads of a sample event.\<close>

lemma sample_frame:
  assumes "d \<in> set [''a'', ''b'', ''c'', ''d'']"
  shows "anthropic_reads u sha wr iu (reads_of d @ xs) [] s =
    (case u d of None \<Rightarrow> Some (s\<lparr>as_result := (as_result s)\<lparr>re_status := ''provider_error''\<rparr>\<rparr>, Some (Errorf ''invalid provider SSE data''))
     | Some ev \<Rightarrow> (case anthropic_step sha wr iu ev s of Inl e \<Rightarrow> Some e | Inr s1 \<Rightarrow> anthropic_reads u sha wr iu xs [] s1))"
proof -
  define l where "l = ''data: '' @ d @ [lf]"
  from bspec [OF sample_texts(1) assms] bspec [OF sample_texts(2) assms] bspec [OF sample_texts(3) assms]
  have f: "trim_space l \<noteq> []" "frame_data (split_on lf (l @ [lf])) = d" "length l = 8" "d \<noteq> []" unfolding l_def by blast+
  have "read_line_bounded [(l, SliceLine)] [] = Some (l, None, False)" "read_line_bounded [([lf], SliceLine)] [] = Some ([lf], None, False)"
    using f(3) by (simp_all add: max_sse_frame_def slice_error_def)
  moreover have "anthropic_line u sha wr iu l [] s = Inr (l, s)"
    using f(1,3) by (simp add: anthropic_line_def max_sse_frame_def)
  moreover have "anthropic_line u sha wr iu [lf] l s = (case u d of None \<Rightarrow> fails_with s ''provider_error'' ''invalid provider SSE data''
           | Some ev \<Rightarrow> (case anthropic_step sha wr iu ev s of Inl e \<Rightarrow> Inl e | Inr s1 \<Rightarrow> Inr ([], s1)))"
    unfolding anthropic_line_def f(2) using f(3,4) sample_texts(4) by (cases d) (simp_all add: max_sse_frame_def)
  ultimately show ?thesis unfolding reads_of_def l_def [symmetric] by (simp add: fails_with_def split: option.split sum.split)
qed

lemma anthropic_stream_records_what_it_sent_witness:
  "\<exists>s. anthropic_stream sample_events (\<lambda>x. x) (\<lambda>_. None) False sample_lines = Some (s, None) \<and>
     sent_pieces (as_out s) = [((0, 0), ''f'', []), ((0, 0), [], ''{}'')] \<and>
     re_fingerprints (as_result s) = [call_fingerprint (\<lambda>x. x) ''f'' ''{}'']"
proof -
  note parts = anthropic_step_def with_result_def apply_anthropic_usage_def add_tool_delta_def put_index_def usage_of_def
  have "\<exists>s. anthropic_stream sample_events (\<lambda>x. x) (\<lambda>_. None) False sample_lines = Some (s, None) \<and>
     sent_pieces (as_out s) = [((0, 0), ''f'', []), ((0, 0), [], ''{}'')]"
    unfolding anthropic_stream_def sample_lines_def
    by (simp add: sample_frame sample_frame [where xs = "[]", unfolded append_Nil2] sample_events_def parts start_stream_def start_result_def zero_result_def
        anthropic_deferred_def sent_pieces_def finish_tool_deltas_def)
  then obtain s where s: "anthropic_stream sample_events (\<lambda>x. x) (\<lambda>_. None) False sample_lines = Some (s, None)"
      and p: "sent_pieces (as_out s) = [((0, 0), ''f'', []), ((0, 0), [], ''{}'')]" by blast
  from anthropic_stream_records_what_it_sent [OF s] p have "re_fingerprints (as_result s) = [call_fingerprint (\<lambda>x. x) ''f'' ''{}'']"
    by (simp add: pieces_of_def)
  with s p show ?thesis by blast
qed

end
