(* ===== verification/Config.thy ===== *)
theory Config
  imports Policy_Engine
begin

text \<open>
  The configuration (\<open>internal/config/config.go\<close>): what \<open>Load\<close> makes of a decoded file, check by check, and
  the limits \<open>internal/app/core.go\<close> hands to the policy engine. The TOML decoder, the file system and the
  parsers of the packages \<open>net\<close> and \<open>net/url\<close> are parameters; what the code asks of an address is defined here.
\<close>

section \<open>Addresses\<close>

datatype ip = V4 nat nat nat nat | V6 "nat list"

definition is_loopback :: "ip \<Rightarrow> bool" where
  "is_loopback i = (case i of V4 a _ _ _ \<Rightarrow> a = 127 | V6 bs \<Rightarrow> bs = replicate 15 0 @ [1])"

definition is_link_local_unicast :: "ip \<Rightarrow> bool" where
  "is_link_local_unicast i = (case i of V4 a b _ _ \<Rightarrow> a = 169 \<and> b = 254
     | V6 bs \<Rightarrow> length bs = 16 \<and> bs ! 0 = 0xFE \<and> 0x80 \<le> bs ! 1 \<and> bs ! 1 < 0xC0)"

definition is_link_local_multicast :: "ip \<Rightarrow> bool" where
  "is_link_local_multicast i = (case i of V4 a b c _ \<Rightarrow> a = 224 \<and> b = 0 \<and> c = 0
     | V6 bs \<Rightarrow> length bs = 16 \<and> bs ! 0 = 0xFF \<and> bs ! 1 mod 16 = 2)"

record url =
  ur_scheme :: string
  ur_host :: string
  ur_hostname :: string
  ur_user :: bool
  ur_query :: string
  ur_fragment :: string

section \<open>The file\<close>

record server_config =
  sc_listen :: string
  sc_log_level :: string

record storage_config =
  st_path :: string
  st_retention_days :: int

record control_plane_config =
  cc_enabled :: bool
  cc_endpoint :: string
  cc_credential_path :: string
  cc_allowed_fields :: "string list"

record privacy_config =
  pv_prompts :: bool
  pv_responses :: bool
  pv_tool_arguments :: bool

record guardrails_config =
  gr_max_requests :: int
  gr_max_cost :: string
  gr_max_input :: int
  gr_max_output :: int
  gr_max_total :: int
  gr_max_duration :: int
  gr_max_tools :: int
  gr_providers :: "string list"
  gr_models :: "string list"
  gr_tools :: "string list"
  gr_est_cost :: string
  gr_est_input :: int
  gr_est_output :: int
  gr_max_calls_day :: int
  gr_max_cost_day :: string

record provider_config =
  pc_type :: string
  pc_backend :: string
  pc_base_url :: string
  pc_model :: string
  pc_api_key :: string
  pc_key_env :: string
  pc_capabilities :: "string list option"
  pc_local :: bool

record model_price_entry =
  me_input :: string
  me_output :: string
  me_cached :: string

record pricing_config =
  pg_version :: string
  pg_currency :: string
  pg_models :: "(string \<times> model_price_entry) list"

text \<open>The maps of the file are lists of entries with distinct keys, in the order the code ranges over them.\<close>

record config =
  cf_server :: server_config
  cf_storage :: storage_config
  cf_control_plane :: control_plane_config
  cf_privacy :: privacy_config
  cf_guardrails :: guardrails_config
  cf_providers :: "(string \<times> provider_config) list"
  cf_pricing :: pricing_config
  cf_password :: string

section \<open>Load\<close>

text \<open>\<open>^\$\{([A-Za-z_][A-Za-z0-9_]*)\}$\<close>\<close>

definition env_reference :: "string \<Rightarrow> string option" where
  "env_reference s = (let name = butlast (drop 2 s) in
     if has_prefix s ''${'' \<and> 4 \<le> length s \<and> last s = CHR ''}'' \<and>
        (case name of [] \<Rightarrow> False | c # cs \<Rightarrow> (is_upper c \<or> is_lower c \<or> c = CHR ''_'') \<and> list_all (\<lambda>x. is_alnum x \<or> x = CHR ''_'') cs)
     then Some name else None)"

record config_world =
  cw_split_host :: "string \<Rightarrow> string res"
  cw_parse_ip :: "string \<Rightarrow> ip option"
  cw_parse_url :: "string \<Rightarrow> url option"
  cw_dir :: "string res"
  cw_is_abs :: "string \<Rightarrow> bool"
  cw_join :: "string \<Rightarrow> string \<Rightarrow> string"
  cw_getenv :: "string \<Rightarrow> string"

definition loopback_text :: "config_world \<Rightarrow> string \<Rightarrow> bool" where
  "loopback_text w s = (case cw_parse_ip w s of None \<Rightarrow> False | Some i \<Rightarrow> is_loopback i)"

definition check_control_plane :: "config_world \<Rightarrow> control_plane_config \<Rightarrow> unit res" where
  "check_control_plane w c =
     (if \<not> cc_enabled c then Inr ()
      else if cc_credential_path c = [] \<or> validate_fields (cc_allowed_fields c) \<noteq> Inr ()
        then Inl (Errorf ''control plane requires credential_path and safe allowed_fields'')
      else (case cw_parse_url w (cc_endpoint c) of None \<Rightarrow> Inl (Errorf ''invalid control plane endpoint'')
        | Some u \<Rightarrow>
            (if ur_host u = [] \<or> ur_user u \<or> ur_query u \<noteq> [] \<or> ur_fragment u \<noteq> [] \<or>
                (ur_scheme u \<noteq> ''https'' \<and> ur_scheme u \<noteq> ''http'') then Inl (Errorf ''invalid control plane endpoint'')
             else if ur_scheme u = ''http'' \<and> \<not> loopback_text w (ur_hostname u)
               then Inl (Errorf ''control plane HTTP endpoint must be loopback'')
             else Inr ())))"

definition check_guardrails :: "guardrails_config \<Rightarrow> unit res" where
  "check_guardrails g =
     (if \<exists>n \<in> set [gr_max_requests g, gr_max_input g, gr_max_output g, gr_max_total g, gr_max_duration g, gr_max_tools g,
                   gr_est_input g, gr_est_output g, gr_max_calls_day g]. n < 0
        then Inl (Errorf ''guardrail counts cannot be negative'')
      else if \<exists>a \<in> set [gr_max_cost g, gr_est_cost g, gr_max_cost_day g]. a \<noteq> [] \<and> \<not> decimal_pattern (Some 9) a
        then Inl (Errorf ''invalid guardrail cost'')
      else if \<exists>l \<in> set (gr_providers g @ gr_models g @ gr_tools g). \<not> model_pattern l
        then Inl (Errorf ''invalid guardrail allowlist entry'')
      else Inr ())"

definition check_pricing :: "pricing_config \<Rightarrow> unit res" where
  "check_pricing p =
     (if pg_currency p \<noteq> [] \<and> \<not> currency_pattern (pg_currency p) then Inl (Errorf ''invalid pricing currency'')
      else if \<exists>(m, e) \<in> set (pg_models p). \<exists>x \<in> set [me_input e, me_output e, me_cached e]. x \<noteq> [] \<and> \<not> decimal_pattern None x
        then Inl (Errorf ''invalid pricing decimal'')
      else Inr ())"

definition capabilities_ok :: "provider_config \<Rightarrow> bool" where
  "capabilities_ok p = (case pc_capabilities p of None \<Rightarrow> True
     | Some cs \<Rightarrow> list_all (\<lambda>c. c = ''stream'' \<or> c = ''tools'') cs \<and> distinct cs)"

fun load_providers :: "(string \<times> provider_config) list \<Rightarrow> (string \<times> provider_config) list res" where
  "load_providers [] = Inr []"
| "load_providers ((n, p) # ps) =
     (if \<not> capabilities_ok p then Inl (Errorf ''provider has invalid capability'')
      else if pc_api_key p = [] then rbind (load_providers ps) (\<lambda>rest. Inr ((n, p) # rest))
      else (case env_reference (pc_api_key p) of
          None \<Rightarrow> Inl (Errorf ''provider api_key must reference an environment variable'')
        | Some v \<Rightarrow> rbind (load_providers ps) (\<lambda>rest. Inr ((n, p\<lparr>pc_key_env := v, pc_api_key := []\<rparr>) # rest))))"

definition absolute :: "config_world \<Rightarrow> string \<Rightarrow> string \<Rightarrow> string" where
  "absolute w dir path = (if cw_is_abs w path then path else cw_join w dir path)"

text \<open>\<open>decoded\<close>: the file read over the defaults, or the error of reading or parsing it.\<close>

definition load :: "config_world \<Rightarrow> config res \<Rightarrow> config res" where
  "load w decoded = (case decoded of Inl e \<Rightarrow> Inl (Wrapf ''parse config'' e)
   | Inr c \<Rightarrow>
     (if pv_tool_arguments (cf_privacy c) then Inl (Errorf ''tool argument capture is unsupported'')
      else if sc_log_level (cf_server c) \<notin> set [''debug'', ''info'', ''warn'', ''error''] then Inl (Errorf ''unsupported log level'')
      else (case cw_split_host w (sc_listen (cf_server c)) of Inl e \<Rightarrow> Inl (Wrapf ''invalid server listen address'' e)
       | Inr host \<Rightarrow>
      (if \<not> loopback_text w host then Inl (Errorf ''server listen address must be loopback'')
       else if st_path (cf_storage c) = [] then Inl (Errorf ''storage path is required'')
       else (case cw_dir w of Inl e \<Rightarrow> Inl (Wrapf ''resolve config directory'' e)
        | Inr dir \<Rightarrow>
          (let cred = cc_credential_path (cf_control_plane c);
               c1 = c\<lparr>cf_storage := (cf_storage c)\<lparr>st_path := absolute w dir (st_path (cf_storage c))\<rparr>,
                      cf_control_plane := (cf_control_plane c)\<lparr>cc_credential_path := (if cred = [] then [] else absolute w dir cred)\<rparr>\<rparr> in
           if st_retention_days (cf_storage c1) < 0 then Inl (Errorf ''retention_days cannot be negative'')
           else rbind (check_control_plane w (cf_control_plane c1)) (\<lambda>_.
             rbind (check_guardrails (cf_guardrails c1)) (\<lambda>_.
             rbind (check_pricing (cf_pricing c1)) (\<lambda>_.
             rbind (load_providers (cf_providers c1)) (\<lambda>ps.
               Inr (c1\<lparr>cf_password := (case env_reference (cf_password c1) of None \<Rightarrow> cf_password c1 | Some v \<Rightarrow> cw_getenv w v),
                       cf_providers := ps\<rparr>)))))))))))"

section \<open>The limits of the engine\<close>

definition limits_of :: "guardrails_config \<Rightarrow> limits" where
  "limits_of g = \<lparr>lm_max_calls = gr_max_requests g, lm_max_cost = gr_max_cost g, lm_max_input = gr_max_input g,
     lm_max_output = gr_max_output g, lm_max_total = gr_max_total g, lm_max_duration = gr_max_duration g,
     lm_max_tools = gr_max_tools g, lm_providers = gr_providers g, lm_models = gr_models g, lm_tools = gr_tools g,
     lm_deny_providers = False, lm_deny_models = False, lm_deny_tools = False,
     lm_max_calls_day = gr_max_calls_day g, lm_max_cost_day = gr_max_cost_day g\<rparr>"

text \<open>\<open>hasGuardrails\<close> of the gateway, which refuses to start without an engine when there are any.\<close>

definition has_guardrails :: "guardrails_config \<Rightarrow> bool" where
  "has_guardrails g \<longleftrightarrow> gr_max_requests g \<noteq> 0 \<or> gr_max_cost g \<noteq> [] \<or> gr_max_input g \<noteq> 0 \<or> gr_max_output g \<noteq> 0 \<or>
     gr_max_total g \<noteq> 0 \<or> gr_max_duration g \<noteq> 0 \<or> gr_max_tools g \<noteq> 0 \<or> gr_providers g \<noteq> [] \<or> gr_models g \<noteq> [] \<or> gr_tools g \<noteq> []"

section \<open>What a loaded configuration guarantees\<close>

lemma load_providers_keys:
  "load_providers ps = Inr qs \<Longrightarrow> map fst qs = map fst ps \<and> (\<forall>(n, p) \<in> set qs. pc_api_key p = [] \<and> capabilities_ok p)"
proof (induction ps arbitrary: qs rule: load_providers.induct)
  case (2 n p ps)
  then obtain rest p' where "load_providers ps = Inr rest" "qs = (n, p') # rest" "pc_api_key p' = []" "capabilities_ok p'"
    by (auto simp: rbind_Inr_iff capabilities_ok_def split: if_splits option.splits)
  with 2 show ?case by (auto split: if_splits option.splits)
qed simp

lemma decimal_pattern_more: "decimal_pattern (Some m) s \<Longrightarrow> m \<le> n \<Longrightarrow> decimal_pattern (Some n) s"
  by (auto simp: decimal_pattern_def split: prod.splits)

lemma loadD:
  assumes "load w decoded = Inr c"
  obtains d host dir ps where "decoded = Inr d" "cw_split_host w (sc_listen (cf_server d)) = Inr host" "loopback_text w host"
    "check_control_plane w (cf_control_plane c) = Inr ()" "check_guardrails (cf_guardrails d) = Inr ()"
    "check_pricing (cf_pricing d) = Inr ()" "load_providers (cf_providers d) = Inr ps" "cf_providers c = ps"
    "cf_server c = cf_server d" "cf_guardrails c = cf_guardrails d" "cf_pricing c = cf_pricing d"
    "cw_dir w = Inr dir" "st_path (cf_storage d) \<noteq> []" "st_path (cf_storage c) = absolute w dir (st_path (cf_storage d))"
    "cc_credential_path (cf_control_plane c) = (if cc_credential_path (cf_control_plane d) = [] then []
       else absolute w dir (cc_credential_path (cf_control_plane d)))"
  using assms by (auto simp: load_def Let_def rbind_Inr_iff split: sum.splits if_splits)

lemma guardrails_start_engine:
  assumes "check_guardrails g = Inr ()"
  shows "is_ok (new_engine j (limits_of g)) \<and> limits_ok (limits_of g)"
proof -
  have ok: "\<And>a. a \<in> set [gr_max_cost g, gr_est_cost g, gr_max_cost_day g] \<Longrightarrow> a \<noteq> [] \<Longrightarrow> decimal_pattern (Some 9) a"
    using assms by (auto simp: check_guardrails_def split: if_splits)
  have "is_ok (decimal a)" if "a \<in> set [gr_max_cost g, gr_est_cost g, gr_max_cost_day g]" for a
    using ok [OF that] decimal_pattern_more [of 9 a 10] by (auto simp: decimal_ok_iff)
  then have d: "is_ok (decimal (gr_max_cost g))" "is_ok (decimal (gr_max_cost_day g))" by simp_all
  moreover have "\<not> (\<exists>n \<in> set [gr_max_requests g, gr_max_input g, gr_max_output g, gr_max_total g, gr_max_duration g, gr_max_tools g,
                   gr_max_calls_day g]. n < 0)"
    using assms by (auto simp: check_guardrails_def split: if_splits)
  ultimately show ?thesis
    by (auto simp: new_engine_def limits_of_def limits_ok_def is_ok_iff not_less split: sum.splits if_splits)
qed

lemma control_plane_checked:
  assumes "check_control_plane w c = Inr ()" "cc_enabled c"
  shows "set (cc_allowed_fields c) \<subseteq> set exportable_fields \<and> (\<exists>u. cw_parse_url w (cc_endpoint c) = Some u \<and> \<not> ur_user u \<and>
    (ur_scheme u = ''https'' \<or> ur_scheme u = ''http'' \<and> loopback_text w (ur_hostname u)))"
  using assms by (auto simp: check_control_plane_def validate_fields_Inr_iff split: if_splits option.splits)

text \<open>C29: A configuration that loads is one the core can run and keep its promises with: the policy engine
  accepts its guardrails, the server listens on a loopback address only, no provider entry holds a key
  (only the name of a variable), and a control plane is given exportable fields only, over HTTPS or to a
  loopback address. The path of the database and that of the control plane's credential are absolute: as
  written when they are, and otherwise joined to the directory of the configuration file, so that they do not depend on
  where the program is started. An enabled control plane has a credential path. \<open>filepath.Abs\<close> answers an absolute
  path, and \<open>filepath.Join\<close> to one is absolute.\<close>

theorem loaded_config_is_safe:
  assumes "load w decoded = Inr c" and join: "\<forall>dir p. cw_dir w = Inr dir \<longrightarrow> cw_is_abs w (cw_join w dir p)"
  shows "is_ok (new_engine j (limits_of (cf_guardrails c))) \<and> limits_ok (limits_of (cf_guardrails c)) \<and>
    (\<exists>host. cw_split_host w (sc_listen (cf_server c)) = Inr host \<and> loopback_text w host) \<and>
    (\<forall>(n, p) \<in> set (cf_providers c). pc_api_key p = []) \<and>
    (cc_enabled (cf_control_plane c) \<longrightarrow> set (cc_allowed_fields (cf_control_plane c)) \<subseteq> set exportable_fields \<and>
      cc_credential_path (cf_control_plane c) \<noteq> [] \<and>
      (\<exists>u. cw_parse_url w (cc_endpoint (cf_control_plane c)) = Some u \<and> \<not> ur_user u \<and>
        (ur_scheme u = ''https'' \<or> ur_scheme u = ''http'' \<and> loopback_text w (ur_hostname u)))) \<and>
    cw_is_abs w (st_path (cf_storage c)) \<and>
    (cc_credential_path (cf_control_plane c) = [] \<or> cw_is_abs w (cc_credential_path (cf_control_plane c))) \<and>
    (\<exists>d dir. decoded = Inr d \<and> cw_dir w = Inr dir \<and>
      (let written = st_path (cf_storage d) in
         written \<noteq> [] \<and> st_path (cf_storage c) = (if cw_is_abs w written then written else cw_join w dir written)) \<and>
      (let written = cc_credential_path (cf_control_plane d) in
         cc_credential_path (cf_control_plane c) = (if written = [] \<or> cw_is_abs w written then written else cw_join w dir written)))"
proof -
  obtain d :: config and host dir ps where l: "cw_split_host w (sc_listen (cf_server d)) = Inr host" "loopback_text w host"
    "check_control_plane w (cf_control_plane c) = Inr ()" "check_guardrails (cf_guardrails d) = Inr ()"
    "load_providers (cf_providers d) = Inr ps" "cf_providers c = ps"
    "cf_server c = cf_server d" "cf_guardrails c = cf_guardrails d"
    and p: "decoded = Inr d" "cw_dir w = Inr dir" "st_path (cf_storage d) \<noteq> []"
      "st_path (cf_storage c) = absolute w dir (st_path (cf_storage d))"
      "cc_credential_path (cf_control_plane c) = (if cc_credential_path (cf_control_plane d) = [] then []
         else absolute w dir (cc_credential_path (cf_control_plane d)))"
    by (rule loadD [OF assms(1)]) blast
  have abs: "cw_is_abs w (cw_join w dir x)" for x using join p(2) by blast
  from load_providers_keys [OF l(5)] l(6) have "\<forall>(n, p) \<in> set (cf_providers c). pc_api_key p = []" by auto
  moreover have "cc_credential_path (cf_control_plane c) \<noteq> []" if "cc_enabled (cf_control_plane c)"
    using l(3) that by (auto simp: check_control_plane_def split: if_splits)
  ultimately show ?thesis
    using l guardrails_start_engine [of "cf_guardrails c" j] control_plane_checked [OF l(3)] abs p
    unfolding Let_def by (auto simp: absolute_def)
qed

definition sample_world :: config_world where
  "sample_world = \<lparr>cw_split_host = (\<lambda>_. Inr ''127.0.0.1''), cw_parse_ip = (\<lambda>_. Some (V4 127 0 0 1)),
     cw_parse_url = (\<lambda>_. Some \<lparr>ur_scheme = ''https'', ur_host = ''cp'', ur_hostname = ''cp'', ur_user = False, ur_query = [], ur_fragment = []\<rparr>),
     cw_dir = Inr ''/c'', cw_is_abs = (\<lambda>_. True), cw_join = (\<lambda>a b. a @ b), cw_getenv = (\<lambda>_. [])\<rparr>"

definition sample_config :: config where
  "sample_config = \<lparr>cf_server = \<lparr>sc_listen = ''127.0.0.1:8787'', sc_log_level = ''info''\<rparr>,
     cf_storage = \<lparr>st_path = ''/v.db'', st_retention_days = 30\<rparr>,
     cf_control_plane = \<lparr>cc_enabled = True, cc_endpoint = ''https://cp'', cc_credential_path = ''/cred'', cc_allowed_fields = [''status'']\<rparr>,
     cf_privacy = \<lparr>pv_prompts = False, pv_responses = False, pv_tool_arguments = False\<rparr>,
     cf_guardrails = \<lparr>gr_max_requests = 5, gr_max_cost = ''1.5'', gr_max_input = 0, gr_max_output = 0, gr_max_total = 0,
       gr_max_duration = 0, gr_max_tools = 0, gr_providers = [], gr_models = [], gr_tools = [], gr_est_cost = ''0.1'',
       gr_est_input = 0, gr_est_output = 0, gr_max_calls_day = 0, gr_max_cost_day = []\<rparr>,
     cf_providers = [(''p'', \<lparr>pc_type = ''openai'', pc_backend = [], pc_base_url = ''https://p'', pc_model = ''m'',
       pc_api_key = ''${KEY}'', pc_key_env = [], pc_capabilities = None, pc_local = False\<rparr>)],
     cf_pricing = \<lparr>pg_version = [], pg_currency = [], pg_models = []\<rparr>, cf_password = []\<rparr>"

text \<open>The same with relative paths.\<close>

definition relative_world :: config_world where
  "relative_world = sample_world\<lparr>cw_is_abs := (\<lambda>p. has_prefix p ''/''), cw_join := (\<lambda>a b. a @ ''/'' @ b)\<rparr>"

definition relative_config :: config where
  "relative_config = sample_config\<lparr>cf_storage := \<lparr>st_path = ''data/v.db'', st_retention_days = 30\<rparr>\<rparr>"

lemma loaded_config_is_safe_witness:
  "\<exists>c. load relative_world (Inr relative_config) = Inr c \<and> map (\<lambda>(n, p). (pc_api_key p, pc_key_env p)) (cf_providers c) = [([], ''KEY'')] \<and>
     is_ok (new_engine (new_journal ''i'') (limits_of (cf_guardrails c))) \<and> st_path (cf_storage c) = ''/c/data/v.db'' \<and>
     cw_is_abs relative_world (st_path (cf_storage c))"
proof -
  have "is_ok (load relative_world (Inr relative_config))" by code_simp
  then obtain c where c: "load relative_world (Inr relative_config) = Inr c" unfolding is_ok_iff by blast
  have "(case load relative_world (Inr relative_config) of Inl _ \<Rightarrow> False
     | Inr c \<Rightarrow> map (\<lambda>(n, p). (pc_api_key p, pc_key_env p)) (cf_providers c) = [([], ''KEY'')] \<and> st_path (cf_storage c) = ''/c/data/v.db'')"
    by code_simp
  moreover have "\<forall>dir p. cw_dir relative_world = Inr dir \<longrightarrow> cw_is_abs relative_world (cw_join relative_world dir p)"
    by (auto simp: relative_world_def sample_world_def has_prefix_def)
  ultimately show ?thesis using c loaded_config_is_safe [OF c] by auto
qed

end
