(* ===== verification/Provider_Registry.thy ===== *)
theory Provider_Registry
  imports Config Chat_Request
begin

text \<open>
  The registry of providers (\<open>internal/providers/registry.go\<close>, \<open>validate.go\<close>): which adapter answers for a
  model name, which base URLs are refused, and the capabilities a provider may be restricted to. Name resolution
  is a parameter.
\<close>

section \<open>Base URLs\<close>

record net_world =
  nw_parse_url :: "string \<Rightarrow> url option"
  nw_parse_ip :: "string \<Rightarrow> ip option"
  nw_lookup :: "string \<Rightarrow> string list option"

definition http_url :: "url \<Rightarrow> bool" where
  "http_url u \<longleftrightarrow> ur_host u \<noteq> [] \<and> \<not> ur_user u \<and> (ur_scheme u = ''http'' \<or> ur_scheme u = ''https'')"

definition validate_local_base_url :: "net_world \<Rightarrow> string \<Rightarrow> unit res" where
  "validate_local_base_url w raw = (case nw_parse_url w raw of None \<Rightarrow> Inl (Errorf ''invalid local base_url'')
   | Some u \<Rightarrow>
     (if \<not> http_url u then Inl (Errorf ''invalid local base_url'')
      else if ur_hostname u = ''localhost'' then Inr ()
      else (case nw_parse_ip w (ur_hostname u) of
          None \<Rightarrow> Inl (Errorf ''local base_url must use a loopback address'')
        | Some i \<Rightarrow> (if is_loopback i then Inr () else Inl (Errorf ''local base_url must use a loopback address'')))))"

fun check_addresses :: "net_world \<Rightarrow> string list \<Rightarrow> unit res" where
  "check_addresses w [] = Inr ()"
| "check_addresses w (a # as) = (case nw_parse_ip w a of None \<Rightarrow> check_addresses w as
   | Some i \<Rightarrow> (if is_loopback i then Inl (Errorf ''base_url resolves to loopback address'')
       else if is_link_local_unicast i \<or> is_link_local_multicast i then Inl (Errorf ''base_url resolves to link-local address'')
       else check_addresses w as))"

definition validate_base_url :: "net_world \<Rightarrow> string \<Rightarrow> unit res" where
  "validate_base_url w raw = (case nw_parse_url w raw of None \<Rightarrow> Inl (Errorf ''invalid base_url'')
   | Some u \<Rightarrow>
     (if ur_hostname u = ''localhost'' then Inl (Errorf ''base_url must not use loopback address'')
      else (case nw_lookup w (ur_hostname u) of None \<Rightarrow> Inr () | Some as \<Rightarrow> check_addresses w as)))"

section \<open>The registry\<close>

datatype adapter_kind = OpenAICompatible string | AnthropicAdapter string

record provider_registration =
  pn_adapter :: adapter_kind
  pn_provider :: string
  pn_key_env :: string
  pn_capabilities :: "string list option"

definition adapter_of :: "provider_config \<Rightarrow> adapter_kind option" where
  "adapter_of p = (if pc_type p \<in> set [''openai'', ''kimi'', ''openai-compatible'', ''ollama''] then Some (OpenAICompatible (pc_base_url p))
     else if pc_type p = ''anthropic'' then Some (AnthropicAdapter (pc_base_url p)) else None)"

definition register_provider :: "net_world \<Rightarrow> string \<Rightarrow> provider_config \<Rightarrow> provider_registration res" where
  "register_provider w name p =
     (if pc_backend p \<noteq> [] \<and> (pc_backend p \<noteq> ''chat-completions'' \<or> pc_type p \<noteq> ''openai-compatible'')
        then Inl (Errorf ''unsupported responses backend'')
      else if CHR '':'' \<in> set name then Inl (Errorf ''provider name must not contain a colon'')
      else if \<exists>c \<in> set (case pc_capabilities p of None \<Rightarrow> [] | Some cs \<Rightarrow> cs). c \<noteq> ''stream'' \<and> c \<noteq> ''tools''
        then Inl (Errorf ''unsupported provider capability'')
      else if pc_model p = [] \<or> pc_base_url p = [] then Inl (Errorf ''provider model and base_url are required'')
      else if (case nw_parse_url w (pc_base_url p) of None \<Rightarrow> True | Some u \<Rightarrow> \<not> http_url u)
        then Inl (Errorf ''invalid provider base URL'')
      else rbind (if pc_local p then validate_local_base_url w (pc_base_url p) else validate_base_url w (pc_base_url p)) (\<lambda>_.
        (case adapter_of p of None \<Rightarrow> Inl (Errorf ''unsupported provider type'')
         | Some a \<Rightarrow> Inr \<lparr>pn_adapter = a, pn_provider = name, pn_key_env = pc_key_env p, pn_capabilities = pc_capabilities p\<rparr>)))"

definition composite :: "string \<Rightarrow> string \<Rightarrow> string" where
  "composite name model = name @ CHR '':'' # model"

definition model_count :: "(string \<times> provider_config) list \<Rightarrow> string \<Rightarrow> nat" where
  "model_count ps m = length (filter (\<lambda>(n, p). pc_model p = m) ps)"

fun fill_registry :: "net_world \<Rightarrow> (string \<Rightarrow> nat) \<Rightarrow> (string \<times> provider_config) list \<Rightarrow> (string \<rightharpoonup> provider_registration) \<Rightarrow>
    (string \<rightharpoonup> provider_registration) res" where
  "fill_registry w cnt [] reg = Inr reg"
| "fill_registry w cnt ((n, p) # ps) reg = rbind (register_provider w n p) (\<lambda>r.
     let reg1 = reg(composite n (pc_model p) \<mapsto> r) in
     fill_registry w cnt ps (if cnt (pc_model p) = 1 then reg1(pc_model p \<mapsto> r) else reg1))"

definition new_provider_registry :: "net_world \<Rightarrow> config \<Rightarrow> (string \<rightharpoonup> provider_registration) res" where
  "new_provider_registry w cfg = fill_registry w (model_count (cf_providers cfg)) (cf_providers cfg) Map.empty"

definition validate_config :: "net_world \<Rightarrow> config \<Rightarrow> unit res" where
  "validate_config w cfg = rbind (new_provider_registry w cfg) (\<lambda>_. Inr ())"

section \<open>Capabilities\<close>

text \<open>What \<open>Registration.Validate\<close> decodes of a body: fields that are present are not empty.\<close>

record capability_request =
  cq_stream :: bool
  cq_tools :: bool
  cq_choice :: bool
  cq_messages :: "(string \<times> bool) list"

definition uses_tools :: "capability_request \<Rightarrow> bool" where
  "uses_tools q \<longleftrightarrow> cq_tools q \<or> cq_choice q \<or> (\<exists>(role, calls) \<in> set (cq_messages q). role = ''tool'' \<or> calls)"

definition registration_validate :: "provider_registration \<Rightarrow> unit res \<Rightarrow> capability_request res \<Rightarrow> unit res" where
  "registration_validate r adapter_result decoded = rbind adapter_result (\<lambda>_. case pn_capabilities r of None \<Rightarrow> Inr ()
   | Some cs \<Rightarrow> rbind decoded (\<lambda>q.
       if cq_stream q \<and> ''stream'' \<notin> set cs then Inl (Errorf ''provider streaming capability disabled'')
       else if uses_tools q \<and> ''tools'' \<notin> set cs then Inl (Errorf ''provider tool capability disabled'')
       else Inr ()))"

section \<open>Routing\<close>

lemma composite_inj:
  assumes "CHR '':'' \<notin> set a" "CHR '':'' \<notin> set b" "composite a m = composite b n"
  shows "a = b \<and> m = n"
proof -
  have "takeWhile (\<lambda>c. c \<noteq> CHR '':'') (composite a m) = a" "takeWhile (\<lambda>c. c \<noteq> CHR '':'') (composite b n) = b"
    using assms(1,2) by (auto simp: composite_def takeWhile_tail takeWhile_eq_all_conv [THEN iffD2])
  with assms(3) have "a = b" by simp
  with assms(3) show ?thesis by (simp add: composite_def)
qed

text \<open>The entries the loop writes, the last one first.\<close>

fun routes :: "net_world \<Rightarrow> (string \<Rightarrow> nat) \<Rightarrow> (string \<times> provider_config) list \<Rightarrow> (string \<times> provider_registration) list" where
  "routes w cnt [] = []"
| "routes w cnt ((n, p) # ps) = routes w cnt ps @ (case register_provider w n p of Inl _ \<Rightarrow> []
     | Inr r \<Rightarrow> (if cnt (pc_model p) = 1 then [(pc_model p, r)] else []) @ [(composite n (pc_model p), r)])"

lemma fill_registry_routes:
  "fill_registry w cnt ps reg = Inr reg' \<Longrightarrow>
   reg' = reg ++ map_of (routes w cnt ps) \<and> (\<forall>(n, p) \<in> set ps. is_ok (register_provider w n p))"
proof (induction ps arbitrary: reg rule: routes.induct)
  case (2 w cnt n p ps)
  then obtain r where r: "register_provider w n p = Inr r" by (auto simp: rbind_Inr_iff)
  let ?reg = "if cnt (pc_model p) = 1 then reg(composite n (pc_model p) \<mapsto> r, pc_model p \<mapsto> r) else reg(composite n (pc_model p) \<mapsto> r)"
  from 2(2) r have f: "fill_registry w cnt ps ?reg = Inr reg'" by (simp add: Let_def)
  from 2(1) [OF f] r show ?case by (auto simp: is_ok_def)
qed simp

lemma routes_mem:
  "(k, r) \<in> set (routes w cnt ps) \<longleftrightarrow> (\<exists>(n, p) \<in> set ps. register_provider w n p = Inr r \<and>
     (k = composite n (pc_model p) \<or> k = pc_model p \<and> cnt (pc_model p) = 1))"
  by (induction w cnt ps rule: routes.induct) (auto split: sum.splits)

lemma register_provider_InrD:
  assumes "register_provider w n p = Inr r"
  shows "CHR '':'' \<notin> set n" "pn_provider r = n" "pn_key_env r = pc_key_env p" "adapter_of p = Some (pn_adapter r)"
    "if pc_local p then validate_local_base_url w (pc_base_url p) = Inr () else validate_base_url w (pc_base_url p) = Inr ()"
  using assms by (auto simp: register_provider_def rbind_Inr_iff split: if_splits option.splits)

lemma count_one_same:
  assumes "model_count ps m = 1" "(a, p) \<in> set ps" "(b, q) \<in> set ps" "pc_model p = m" "pc_model q = m"
  shows "(a, p) = (b, q)"
proof -
  from assms(1) obtain x where "filter (\<lambda>(n, p). pc_model p = m) ps = [x]" by (auto simp: model_count_def length_Suc_conv)
  moreover have "(a, p) \<in> set (filter (\<lambda>(n, p). pc_model p = m) ps)" "(b, q) \<in> set (filter (\<lambda>(n, p). pc_model p = m) ps)"
    using assms by simp_all
  ultimately show ?thesis by simp
qed

lemma checked_addresses:
  "check_addresses w as = Inr () \<Longrightarrow> a \<in> set as \<Longrightarrow> nw_parse_ip w a = Some i \<Longrightarrow>
   \<not> is_loopback i \<and> \<not> is_link_local_unicast i \<and> \<not> is_link_local_multicast i"
  by (induction as) (auto split: option.splits if_splits)

text \<open>Where a provider may send its requests, as far as the names resolved when it was registered.\<close>

definition reachable_safely :: "net_world \<Rightarrow> provider_config \<Rightarrow> bool" where
  "reachable_safely w p \<longleftrightarrow> (\<exists>u. nw_parse_url w (pc_base_url p) = Some u \<and>
     (if pc_local p then ur_hostname u = ''localhost'' \<or> (\<exists>i. nw_parse_ip w (ur_hostname u) = Some i \<and> is_loopback i)
      else ur_hostname u \<noteq> ''localhost'' \<and> (\<forall>as. nw_lookup w (ur_hostname u) = Some as \<longrightarrow>
        (\<forall>a \<in> set as. \<forall>i. nw_parse_ip w a = Some i \<longrightarrow> \<not> is_loopback i \<and> \<not> is_link_local_unicast i \<and> \<not> is_link_local_multicast i))))"

lemma registered_safely:
  assumes "register_provider w n p = Inr r"
  shows "reachable_safely w p"
proof (cases "pc_local p")
  case True
  with register_provider_InrD(5) [OF assms] show ?thesis
    by (auto simp: validate_local_base_url_def reachable_safely_def split: option.splits if_splits)
next
  case False
  with register_provider_InrD(5) [OF assms] show ?thesis
    by (auto simp: validate_base_url_def reachable_safely_def dest: checked_addresses split: option.splits if_splits)
qed

text \<open>C28: Requests go where the configuration says. When no plain model name looks like the composite name of
  another provider, the registry holds exactly the composite name of every provider and the plain name of
  every model only one provider has, whatever order the providers are visited in, each with the adapter and
  the key variable of its own entry; and no provider that is not marked local has a base URL whose name resolves to a
  loopback or link-local address.\<close>

theorem routing_is_exact:
  assumes "new_provider_registry w cfg = Inr reg" "distinct (map fst (cf_providers cfg))"
    and "\<forall>(n, p) \<in> set (cf_providers cfg). \<forall>(m, q) \<in> set (cf_providers cfg). pc_model q \<noteq> composite n (pc_model p)"
  shows "(\<forall>key r. reg key = Some r \<longleftrightarrow> (\<exists>(n, p) \<in> set (cf_providers cfg). register_provider w n p = Inr r \<and>
      (key = composite n (pc_model p) \<or> key = pc_model p \<and> model_count (cf_providers cfg) (pc_model p) = 1))) \<and>
    (\<forall>(n, p) \<in> set (cf_providers cfg). reachable_safely w p \<and> (\<exists>r. reg (composite n (pc_model p)) = Some r \<and>
      pn_provider r = n \<and> pn_key_env r = pc_key_env p \<and> adapter_of p = Some (pn_adapter r)))"
proof -
  let ?ps = "cf_providers cfg" and ?cnt = "model_count (cf_providers cfg)"
  from fill_registry_routes [OF assms(1) [unfolded new_provider_registry_def]]
  have reg: "reg = map_of (routes w ?cnt ?ps)" and ok: "\<And>n p. (n, p) \<in> set ?ps \<Longrightarrow> is_ok (register_provider w n p)" by auto
  have same: "r1 = r2" if m: "(k, r1) \<in> set (routes w ?cnt ?ps)" "(k, r2) \<in> set (routes w ?cnt ?ps)" for k r1 r2
  proof -
    from m obtain n1 p1 n2 p2 where x: "(n1, p1) \<in> set ?ps" "register_provider w n1 p1 = Inr r1"
        "k = composite n1 (pc_model p1) \<or> k = pc_model p1 \<and> ?cnt (pc_model p1) = 1"
      and y: "(n2, p2) \<in> set ?ps" "register_provider w n2 p2 = Inr r2"
        "k = composite n2 (pc_model p2) \<or> k = pc_model p2 \<and> ?cnt (pc_model p2) = 1" unfolding routes_mem by blast
    have no: "pc_model p1 \<noteq> composite n2 (pc_model p2)" "pc_model p2 \<noteq> composite n1 (pc_model p1)"
      using assms(3) x(1) y(1) by blast+
    have "(n1, p1) = (n2, p2)"
    proof (cases "k = composite n1 (pc_model p1)")
      case True
      with y(3) no(2) have "composite n1 (pc_model p1) = composite n2 (pc_model p2)" by auto
      then have "n1 = n2" using composite_inj register_provider_InrD(1) x(2) y(2) by blast
      with assms(2) x(1) y(1) show ?thesis by (metis eq_key_imp_eq_value)
    next
      case False
      with x(3) y(3) no(1) have "pc_model p1 = pc_model p2" "?cnt (pc_model p1) = 1" by auto
      then show ?thesis using count_one_same x(1) y(1) by metis
    qed
    with x(2) y(2) show ?thesis by simp
  qed
  have exact: "reg key = Some r \<longleftrightarrow> (key, r) \<in> set (routes w ?cnt ?ps)" for key r
    unfolding reg using same map_of_SomeD by (metis map_of_eq_None_iff not_None_eq fst_conv image_eqI)
  have "reachable_safely w p \<and> (\<exists>r. reg (composite n (pc_model p)) = Some r \<and>
      pn_provider r = n \<and> pn_key_env r = pc_key_env p \<and> adapter_of p = Some (pn_adapter r))" if "(n, p) \<in> set ?ps" for n p
  proof -
    from ok [OF that] obtain r where r: "register_provider w n p = Inr r" unfolding is_ok_iff by blast
    then have "reg (composite n (pc_model p)) = Some r" unfolding exact routes_mem using that by blast
    with registered_safely [OF r] register_provider_InrD [OF r] show ?thesis by blast
  qed
  then show ?thesis unfolding exact routes_mem by blast
qed

definition sample_net :: net_world where
  "sample_net = \<lparr>nw_parse_url = (\<lambda>_. Some \<lparr>ur_scheme = ''https'', ur_host = ''h'', ur_hostname = ''h'', ur_user = False,
     ur_query = [], ur_fragment = []\<rparr>), nw_parse_ip = (\<lambda>_. Some (V4 9 9 9 9)), nw_lookup = (\<lambda>_. Some [''9.9.9.9''])\<rparr>"

definition two_providers :: config where
  "two_providers = sample_config\<lparr>cf_providers := map (\<lambda>(n, m). (n, \<lparr>pc_type = ''openai'', pc_backend = [], pc_base_url = ''u'',
     pc_model = m, pc_api_key = [], pc_key_env = n, pc_capabilities = None, pc_local = False\<rparr>))
     [(''a'', ''gpt''), (''b'', ''gpt''), (''c'', ''kimi'')]\<rparr>"

lemma routing_is_exact_witness:
  "\<exists>reg. new_provider_registry sample_net two_providers = Inr reg \<and> 
     ''gpt'' \<notin> dom reg \<and> ''kimi'' \<in> dom reg \<and> ''b:gpt'' \<in> dom reg"
proof -
  have "is_ok (new_provider_registry sample_net two_providers)" by code_simp
  then obtain reg where r: "new_provider_registry sample_net two_providers = Inr reg" unfolding is_ok_iff by blast
  have d: "distinct (map fst (cf_providers two_providers))"
    "\<forall>(n, p) \<in> set (cf_providers two_providers). \<forall>(m, q) \<in> set (cf_providers two_providers). pc_model q \<noteq> composite n (pc_model p)"
    by code_simp+
  have k: "map (\<lambda>k. filter (\<lambda>(n, p). k = composite n (pc_model p) \<or> k = pc_model p \<and> model_count (cf_providers two_providers) (pc_model p) = 1)
      (cf_providers two_providers) = []) [''gpt'', ''kimi'', ''b:gpt''] = [True, False, False]" by code_simp
  have ok: "\<forall>(n, p) \<in> set (cf_providers two_providers). is_ok (register_provider sample_net n p)" by code_simp
  have "key \<in> dom reg \<longleftrightarrow> (\<exists>(n, p) \<in> set (cf_providers two_providers). key = composite n (pc_model p) \<or>
      key = pc_model p \<and> model_count (cf_providers two_providers) (pc_model p) = 1)" for key
    using routing_is_exact [OF r d] ok unfolding is_ok_iff dom_def by fastforce
  moreover have "(\<exists>(n, p) \<in> set ps. P n p) \<longleftrightarrow> filter (\<lambda>(n, p). P n p) ps \<noteq> []" for P and ps :: "(string \<times> provider_config) list"
    by (auto simp: filter_empty_conv)
  ultimately show ?thesis using r k by simp
qed

end
