(* ===== verification/Gateway_Auth.thy ===== *)
theory Gateway_Auth
  imports Exec_Registry Policy_Engine
begin

text \<open>
  Who a request to the gateway speaks for (\<open>internal/gateway/execution_auth.go\<close>, \<open>tool_results.go\<close>, and the key and
  run of a call in \<open>chat.go\<close> and \<open>messages.go\<close>): the token of a supervised run, the token of the desktop
  application, or the key of the caller. \<open>sha\<close> is \<open>sha256.Sum256\<close>.
\<close>

section \<open>Requests\<close>

record http_request =
  hq_path :: string
  hq_authorization :: string
  hq_api_key :: string
  hq_app_token :: string
  hq_run_id :: string
  hq_session :: string
  hq_traceparent :: string

record request_identity =
  ri_run_id :: string
  ri_configured_key :: bool
  ri_supervised :: bool

definition no_identity :: request_identity where
  "no_identity = \<lparr>ri_run_id = [], ri_configured_key = False, ri_supervised = False\<rparr>"

text \<open>An error of the API: its status and code.\<close>

type_synonym api_error = "nat \<times> string"

definition session_char :: "char \<Rightarrow> bool" where
  "session_char c \<longleftrightarrow> is_lower c \<or> is_upper c \<or> is_digit c \<or> c = CHR ''_'' \<or> c = CHR ''-'' \<or> c = CHR ''.''"

definition desktop_session_run_id :: "(string \<Rightarrow> string) \<Rightarrow> string \<Rightarrow> string \<Rightarrow> string" where
  "desktop_session_run_id sha kind session = (let base = ''desktop_'' @ kind in
     if session = [] \<or> length session > 256 \<or> \<not> list_all session_char session then base
     else base @ ''_'' @ hex_encode (take 12 (sha session)))"

definition desktop_identity :: "(string \<Rightarrow> string) \<Rightarrow> (string \<Rightarrow> string) \<Rightarrow> http_request \<Rightarrow> string \<Rightarrow> request_identity option" where
  "desktop_identity sha getenv rq token = (let secret = getenv ''VIRGIL_DESKTOP_TOKEN'' in
     if length secret < 32 \<or> token = [] \<or> token \<noteq> secret then None
     else Some \<lparr>ri_run_id = desktop_session_run_id sha (if hq_path rq = ''/v1/messages'' then ''claude'' else ''codex'') (hq_session rq),
            ri_configured_key = True, ri_supervised = False\<rparr>)"

text \<open>\<open>Authorization: Bearer token\<close>.\<close>

definition bearer :: "string \<Rightarrow> string option" where
  "bearer header = (case Go_Strings.fields header of [scheme, token] \<Rightarrow> if equal_fold scheme ''Bearer'' then Some token else None | _ \<Rightarrow> None)"

datatype token_header = Authorization | AppToken

definition presented_token :: "token_header \<Rightarrow> http_request \<Rightarrow> string option" where
  "presented_token h rq = (case h of Authorization \<Rightarrow> bearer (hq_authorization rq) | AppToken \<Rightarrow> Some (hq_app_token rq))"

text \<open>
  \<open>authenticateExecution\<close>: the request the handler sees, with the identity of its context. \<open>auth\<close> is the registry
  of the runs, \<open>None\<close> for a gateway without one; such a gateway without a desktop token lets every request through.
\<close>

definition authenticate_execution :: "(string \<Rightarrow> string) \<Rightarrow> (string \<Rightarrow> string) \<Rightarrow> registry option \<Rightarrow> token_header \<Rightarrow> http_request \<Rightarrow>
    api_error + (http_request \<times> request_identity)" where
  "authenticate_execution sha getenv auth h rq =
     (if auth = None \<and> getenv ''VIRGIL_DESKTOP_TOKEN'' = [] then Inr (rq, no_identity)
      else (case presented_token h rq of None \<Rightarrow> Inl (401, ''invalid_execution_token'')
       | Some token \<Rightarrow> (case (case auth of None \<Rightarrow> None | Some rg \<Rightarrow> resolve_run_token sha token rg) of
           Some rid \<Rightarrow> (if rid \<noteq> [] then Inr (rq\<lparr>hq_run_id := rid\<rparr>, \<lparr>ri_run_id = rid, ri_configured_key = True, ri_supervised = True\<rparr>)
             else (case desktop_identity sha getenv rq token of None \<Rightarrow> Inl (401, ''invalid_execution_token'')
               | Some i \<Rightarrow> Inr (rq\<lparr>hq_run_id := ri_run_id i\<rparr>, i)))
         | None \<Rightarrow> (case desktop_identity sha getenv rq token of None \<Rightarrow> Inl (401, ''invalid_execution_token'')
             | Some i \<Rightarrow> Inr (rq\<lparr>hq_run_id := ri_run_id i\<rparr>, i)))))"

text \<open>\<open>authenticateMessages\<close>: a key in \<open>x-api-key\<close> stands for a bearer token.\<close>

definition authenticate_messages :: "(string \<Rightarrow> string) \<Rightarrow> (string \<Rightarrow> string) \<Rightarrow> registry option \<Rightarrow> http_request \<Rightarrow>
    api_error + (http_request \<times> request_identity)" where
  "authenticate_messages sha getenv auth rq =
     (if hq_api_key rq \<noteq> [] \<and> hq_authorization rq \<noteq> [] then Inl (400, ''invalid_request'')
      else authenticate_execution sha getenv auth Authorization
        (if hq_api_key rq \<noteq> [] then rq\<lparr>hq_authorization := ''Bearer '' @ hq_api_key rq\<rparr> else rq))"

section \<open>The key and the run of a call\<close>

definition resolve_key :: "(string \<Rightarrow> string) \<Rightarrow> string \<Rightarrow> string \<Rightarrow> string option" where
  "resolve_key getenv header key_env = (case bearer header of None \<Rightarrow> None
   | Some presented \<Rightarrow>
     (let provider_key = (if key_env \<noteq> [] then getenv key_env else []); local_token = getenv ''VIRGIL_LOCAL_APP_TOKEN'' in
      if provider_key \<noteq> [] \<and> (local_token = [] \<or> presented = local_token) then Some provider_key else Some presented))"

definition key_of :: "(string \<Rightarrow> string) \<Rightarrow> request_identity \<Rightarrow> http_request \<Rightarrow> string \<Rightarrow> string option" where
  "key_of getenv i rq key_env =
     (if ri_configured_key i then (if key_env \<noteq> [] \<and> getenv key_env \<noteq> [] then Some (getenv key_env) else None)
      else resolve_key getenv (hq_authorization rq) key_env)"

definition run_of :: "string option \<Rightarrow> request_identity \<Rightarrow> http_request \<Rightarrow> string res" where
  "run_of raw i rq = (if ri_run_id i \<noteq> [] then Inr (ri_run_id i) else resolve_run_id raw (hq_run_id rq))"

section \<open>Tool results\<close>

text \<open>What decoding a body of at most 4096 bytes gives, and what follows the value.\<close>

datatype body_tail = TailEnd | TailExtra | TailTooLarge

datatype tool_body = ToolBodyTooLarge | ToolBodyInvalid | ToolBody tool_result body_tail

datatype tool_reply = ToolNotFound | ToolError nat string | ToolNoContent

definition tool_results :: "(string \<Rightarrow> string) \<Rightarrow> (string \<Rightarrow> string) \<Rightarrow> bool \<Rightarrow> goerr option \<Rightarrow> time \<Rightarrow> request_identity \<Rightarrow> http_request \<Rightarrow>
    tool_body \<Rightarrow> engine \<Rightarrow> tool_reply \<times> engine" where
  "tool_results sha getenv has_policy ctx now i rq body e = (let token = getenv ''VIRGIL_LOCAL_APP_TOKEN'' in
     if \<not> has_policy \<or> (\<not> ri_supervised i \<and> token = []) then (ToolNotFound, e)
     else if \<not> ri_supervised i \<and> hq_app_token rq \<noteq> token then (ToolError 401 ''invalid_app_token'', e)
     else (case body of
         ToolBodyTooLarge \<Rightarrow> (ToolError 413 ''request_too_large'', e)
       | ToolBodyInvalid \<Rightarrow> (ToolError 400 ''invalid_tool_result'', e)
       | ToolBody r tail \<Rightarrow>
           (if tail = TailTooLarge then (ToolError 413 ''request_too_large'', e)
            else if tail = TailExtra then (ToolError 400 ''invalid_tool_result'', e)
            else (let r1 = (if ri_supervised i then r\<lparr>tl_run_id := ri_run_id i\<rparr> else r) in
              case record_tool_result sha ctx now r1 e of
                (Inl _, e1) \<Rightarrow> (ToolError 400 ''invalid_tool_result'', e1)
              | (Inr _, e1) \<Rightarrow> (ToolNoContent, e1)))))"

section \<open>An identity is bound to a token\<close>

lemma desktop_identity_SomeD:
  assumes "desktop_identity sha getenv rq token = Some i"
  shows "token = getenv ''VIRGIL_DESKTOP_TOKEN'' \<and> 32 \<le> length token \<and> ri_configured_key i \<and> \<not> ri_supervised i \<and>
    has_prefix (ri_run_id i) ''desktop_'' \<and> ri_run_id i \<noteq> []"
  using assms
  by (auto simp: desktop_identity_def desktop_session_run_id_def Let_def has_prefix_def split: if_splits)

lemma authenticateD:
  assumes "authenticate_execution sha getenv (Some rg) h rq = Inr (rq', i)"
  obtains token where "presented_token h rq = Some token" "rq' = rq\<lparr>hq_run_id := ri_run_id i\<rparr>" "ri_configured_key i" "ri_run_id i \<noteq> []"
    "if ri_supervised i then resolve_run_token sha token rg = Some (ri_run_id i) else desktop_identity sha getenv rq token = Some i"
proof (cases "presented_token h rq")
  case None
  with assms show ?thesis by (simp add: authenticate_execution_def)
next
  case (Some token)
  with assms have "desktop_identity sha getenv rq token = Some i \<and> rq' = rq\<lparr>hq_run_id := ri_run_id i\<rparr> \<or>
      (\<exists>rid. resolve_run_token sha token rg = Some rid \<and> rid \<noteq> [] \<and> rq' = rq\<lparr>hq_run_id := rid\<rparr> \<and>
        i = \<lparr>ri_run_id = rid, ri_configured_key = True, ri_supervised = True\<rparr>)"
    by (auto simp: authenticate_execution_def split: option.splits if_splits)
  with that [OF Some] desktop_identity_SomeD [of sha getenv rq token i] show ?thesis by auto
qed

text \<open>C27: No request chooses its run. Behind a registry, whatever its history, a request that is let through
  presents a token: the token of a supervised run, whose execution row is then not final, or the desktop
  token of at least 32 bytes. Its run is the one the token stands for, never the run header of the client, and the
  key of its calls is the configured one, never a key of the client.\<close>

theorem identity_is_bound_to_token:
  assumes "(registry_step sha start_execution finish_execution other_use)\<^sup>*\<^sup>*
      \<lparr>wd_registry = new_registry, wd_store = j, wd_flights = [], wd_handles = []\<rparr> w" "executions_ok (tbl j)"
    and "authenticate_execution sha getenv (Some (wd_registry w)) h rq = Inr (rq', i)"
  shows "\<exists>token. presented_token h rq = Some token \<and>
    (if ri_supervised i then resolve_run_token sha token (wd_registry w) = Some (ri_run_id i) \<and>
       (\<exists>x. select_execution (ri_run_id i) (tbl (wd_store w)) = Some x \<and> \<not> is_final x)
     else token = getenv ''VIRGIL_DESKTOP_TOKEN'' \<and> 32 \<le> length token \<and> has_prefix (ri_run_id i) ''desktop_'') \<and>
    run_of raw i rq' = Inr (ri_run_id i) \<and> hq_run_id rq' = ri_run_id i \<and>
    key_of getenv i rq' key_env = (if key_env \<noteq> [] \<and> getenv key_env \<noteq> [] then Some (getenv key_env) else None)"
proof -
  obtain token where t: "presented_token h rq = Some token" "rq' = rq\<lparr>hq_run_id := ri_run_id i\<rparr>" "ri_configured_key i" "ri_run_id i \<noteq> []"
    "if ri_supervised i then resolve_run_token sha token (wd_registry w) = Some (ri_run_id i) else desktop_identity sha getenv rq token = Some i"
    using assms(3) by (rule authenticateD)
  have "world_ok open_execution (\<lambda>j. executions_ok (tbl j))
      \<lparr>wd_registry = new_registry, wd_store = j, wd_flights = [], wd_handles = []\<rparr>"
    using assms(2) by (simp add: world_ok_def map_ok_def flights_ok_def runs_open_def new_registry_def)
  note ok = journal_store.steps_keep [OF assms(1) this]
  have "\<exists>x. select_execution (ri_run_id i) (tbl (wd_store w)) = Some x \<and> \<not> is_final x" if "ri_supervised i"
    using journal_store.resolves_open [OF ok, of sha token "ri_run_id i"] t(5) that by (simp add: open_execution_def split: option.splits)
  with t show ?thesis by (auto simp: run_of_def key_of_def dest!: desktop_identity_SomeD)
qed

definition sample_request :: http_request where
  "sample_request = \<lparr>hq_path = ''/v1/chat/completions'', hq_authorization = ''Bearer t'', hq_api_key = [], hq_app_token = [],
     hq_run_id = ''other'', hq_session = [], hq_traceparent = []\<rparr>"

lemma identity_is_bound_to_token_witness:
  "\<exists>rq i. authenticate_execution (\<lambda>s. s) (\<lambda>_. []) (Some (wd_registry live_world)) Authorization sample_request = Inr (rq, i) \<and>
     ri_supervised i \<and> run_of None i rq = Inr ''r''"
proof -
  let ?x = "authenticate_execution (\<lambda>s. s) (\<lambda>_. []) (Some (wd_registry live_world)) Authorization sample_request"
  have "case ?x of Inl _ \<Rightarrow> False | Inr (rq, i) \<Rightarrow> ri_supervised i \<and> ri_run_id i = ''r''" by code_simp
  then obtain rq i where i: "?x = Inr (rq, i)" "ri_supervised i" "ri_run_id i = ''r''" by (auto split: sum.splits prod.splits)
  from identity_is_bound_to_token [OF live_world_reached executions_ok_new i(1), of None "[]"] i show ?thesis by auto
qed

end
