(* ===== verification/Gateway_Call.thy ===== *)
theory Gateway_Call
  imports Gateway_Auth Provider_Registry Tool_Stream Pricing
begin

text \<open>
  A model call through the gateway (\<open>internal/gateway/chat.go\<close>): the policy decides before anything is sent, a
  block is recorded and announced, the provider is asked, and what came of it is settled with the policy and
  written to the journal. The policy engine and the recorder work on the same journal
  (\<open>internal/app/core.go\<close>), which the engine record holds. Every settlement works by the contract
  \<open>settlement\<close>, so that what is shown of a guarded call holds for all three kinds of calls.
\<close>

section \<open>The router\<close>

record route =
  rt_adapter :: adapter_kind
  rt_key_env :: string
  rt_provider :: string
  rt_capabilities :: "string list option"
  rt_base_url :: string
  rt_type :: string
  rt_backend :: string

text \<open>The recorder of \<open>core.go\<close>: the journal, or the journal with a delivery for the control plane. Only the
  journal itself implements \<open>PostflightRecorder\<close> and \<open>ContentSaver\<close>.\<close>

datatype recorder = NoRecorder | JournalRecorder | DestinationRecorder string

record router =
  gw_models :: "string \<rightharpoonup> route"
  gw_getenv :: "string \<Rightarrow> string"
  gw_recorder :: recorder
  gw_installation :: string
  gw_has_policy :: bool
  gw_guardrails :: guardrails_config
  gw_privacy :: privacy_config
  gw_pricing :: pricing_config
  gw_prices :: price_registry
  gw_policy_blocks :: bool
  gw_notifier :: bool

definition route_of :: "config \<Rightarrow> provider_registration \<Rightarrow> route" where
  "route_of cfg r = (let p = map_of (cf_providers cfg) (pn_provider r) in
     \<lparr>rt_adapter = pn_adapter r, rt_key_env = pn_key_env r, rt_provider = pn_provider r, rt_capabilities = pn_capabilities r,
      rt_base_url = (case p of None \<Rightarrow> [] | Some p \<Rightarrow> pc_base_url p), rt_type = (case p of None \<Rightarrow> [] | Some p \<Rightarrow> pc_type p),
      rt_backend = (case p of None \<Rightarrow> [] | Some p \<Rightarrow> pc_backend p)\<rparr>)"

text \<open>\<open>newRouter\<close>; the caller fills in the recorder, the policy and the notifier.\<close>

definition new_router :: "net_world \<Rightarrow> config \<Rightarrow> (string \<Rightarrow> string) \<Rightarrow> router res" where
  "new_router w cfg getenv = rbind (new_provider_registry w cfg) (\<lambda>reg.
     Inr \<lparr>gw_models = (\<lambda>m. map_option (route_of cfg) (reg m)), gw_getenv = getenv, gw_recorder = NoRecorder, gw_installation = [],
       gw_has_policy = False, gw_guardrails = cf_guardrails cfg, gw_privacy = cf_privacy cfg, gw_pricing = cf_pricing cfg,
       gw_prices = price_registry_of (map (\<lambda>(m, e). \<lparr>mp_model = m, mp_input = me_input e, mp_output = me_output e, mp_cached = me_cached e\<rparr>)
         (pg_models (cf_pricing cfg))),
       gw_policy_blocks = False, gw_notifier = False\<rparr>)"

text \<open>The wiring of \<open>buildHandlerWithControl\<close> for a core with a control credential.\<close>

definition core_router :: "net_world \<Rightarrow> config \<Rightarrow> (string \<Rightarrow> string) \<Rightarrow> string \<Rightarrow> router res" where
  "core_router w cfg getenv installation = rbind (new_router w cfg getenv) (\<lambda>gw.
     Inr (gw\<lparr>gw_recorder := (if cc_enabled (cf_control_plane cfg) then DestinationRecorder ''controlplane'' else JournalRecorder),
       gw_installation := installation, gw_has_policy := True, gw_policy_blocks := True, gw_notifier := True\<rparr>))"

section \<open>State\<close>

text \<open>The engine with the journal, the registry of the runs, and the codes of the errors that were logged.\<close>

record core =
  cs_engine :: engine
  cs_registry :: registry
  cs_log :: "string list"

definition log_error :: "string \<Rightarrow> core \<Rightarrow> core" where
  "log_error code s = s\<lparr>cs_log := cs_log s @ [code]\<rparr>"

text \<open>An operation of the engine whose error is only logged.\<close>

definition attempt_op :: "string \<Rightarrow> (engine \<Rightarrow> 'a res \<times> engine) \<Rightarrow> core \<Rightarrow> core" where
  "attempt_op code m s = (case m (cs_engine s) of
     (Inl _, e) \<Rightarrow> log_error code (s\<lparr>cs_engine := e\<rparr>) | (Inr _, e) \<Rightarrow> s\<lparr>cs_engine := e\<rparr>)"

text \<open>A call: what the handler has found out before it asks the policy. \<open>mc_prompt\<close> is the text of the
  messages of the body, empty when it has none.\<close>

record model_call =
  mc_run_id :: string
  mc_trace :: trace_context
  mc_provider :: string
  mc_model :: string
  mc_tools :: "string list"
  mc_started :: time
  mc_supervised :: bool
  mc_prompt :: string

text \<open>What the end of a call takes from outside: the contexts, the clock and the random bytes of the event.\<close>

record ending =
  nd_ctx_calls :: "goerr option"
  nd_now_calls :: time
  nd_ctx_outcome :: "goerr option"
  nd_now_outcome :: time
  nd_now_day :: time
  nd_ended :: time
  nd_event_bytes :: "string option"
  nd_now_append :: time
  nd_wait :: append_wait

section \<open>Recording\<close>

definition price_table_of :: "router \<Rightarrow> string \<Rightarrow> string \<Rightarrow> string \<Rightarrow> price_table" where
  "price_table_of gw inp outp cached = \<lparr>pt_version = pg_version (gw_pricing gw), pt_currency = pg_currency (gw_pricing gw),
     pt_input = inp, pt_output = outp, pt_cached = cached\<rparr>"

text \<open>Actual cost, estimated cost, pricing version and currency.\<close>

type_synonym priced = "string option \<times> string option \<times> string \<times> string"

definition unpriced :: priced where
  "unpriced = (None, None, [], [])"

definition priced_by :: "router \<Rightarrow> usage \<Rightarrow> price_table \<Rightarrow> priced" where
  "priced_by gw u t = (case calculate u t of Inl _ \<Rightarrow> unpriced
   | Inr c \<Rightarrow> (co_actual c, co_estimated c, pg_version (gw_pricing gw), pg_currency (gw_pricing gw)))"

definition chat_cost :: "router \<Rightarrow> string \<Rightarrow> result \<Rightarrow> priced" where
  "chat_cost gw provider r = (let u = from_result (re_usage_source r) (re_input r) (re_output r) (re_cached r) in
     case (case map_of (pg_models (gw_pricing gw)) (re_model r) of None \<Rightarrow> None | Some e \<Rightarrow> if me_input e \<noteq> [] then Some e else None) of
       Some e \<Rightarrow> priced_by gw u (price_table_of gw (me_input e) (me_output e) (me_cached e))
     | None \<Rightarrow> (case lookup_price (gw_prices gw) provider (re_model r) of
         Some p \<Rightarrow> (if en_input p \<noteq> [] then priced_by gw u (price_table_of gw (en_input p) (en_output p) (en_cached p)) else unpriced)
       | None \<Rightarrow> unpriced))"

definition cost_text :: "priced \<Rightarrow> string" where
  "cost_text p = (case p of (Some a, _) \<Rightarrow> a | (None, Some e, _) \<Rightarrow> e | _ \<Rightarrow> [])"

definition attempt_of :: "router \<Rightarrow> model_call \<Rightarrow> result \<Rightarrow> policy_decision option \<Rightarrow> priced \<Rightarrow> time \<Rightarrow> attempt" where
  "attempt_of gw c r pd pc ended = (case pc of (actual, estimated, version, currency) \<Rightarrow>
     \<lparr>at_organization_id = [], at_installation_id = gw_installation gw, at_project_id = [], at_environment = [], at_agent_id = [],
      at_run_id = mc_run_id c, at_trace_id = tc_trace_id (mc_trace c), at_span_id = tc_span_id (mc_trace c),
      at_provider = mc_provider c, at_requested_model = mc_model c, at_response_model = re_model r,
      at_input_tokens = re_input r, at_output_tokens = re_output r, at_cached_tokens = re_cached r,
      at_usage_source = re_usage_source r, at_status = re_status r, at_error_code = re_error_code r, at_tool_name = [],
      at_policy_decision = pd, at_actual_cost = actual, at_estimated_cost = estimated, at_pricing_version = version,
      at_cost_currency = currency, at_started_at = mc_started c, at_ended_at = ended\<rparr>)"

definition outcome_facts_of :: "model_call \<Rightarrow> string \<Rightarrow> result \<Rightarrow> string \<Rightarrow> outcome_facts" where
  "outcome_facts_of c res r cost = \<lparr>of_run_id = mc_run_id c, of_reservation_id = res, of_input = re_input r, of_output = re_output r,
     of_cost = cost, of_tool_calls = Some (int (length (re_fingerprints r)))\<rparr>"

text \<open>\<open>Record\<close> of the two recorders.\<close>

definition record_by :: "recorder \<Rightarrow> append_wait \<Rightarrow> time \<Rightarrow> event \<Rightarrow> engine \<Rightarrow> unit res \<times> engine" where
  "record_by rc w now ev e = (case rc of NoRecorder \<Rightarrow> (Inr (), e)
   | JournalRecorder \<Rightarrow> on_journal (record_event w now ev) e
   | DestinationRecorder d \<Rightarrow> on_journal (append w now ev [d]) e)"

section \<open>The end of a chat call\<close>

text \<open>\<open>Postflight\<close>, as the ways out that do not write the event use it.\<close>

definition settle_postflight :: "router \<Rightarrow> ending \<Rightarrow> model_call \<Rightarrow> string \<Rightarrow> result \<Rightarrow> string \<Rightarrow> core \<Rightarrow> core" where
  "settle_postflight gw nd c res r cost s = (if gw_has_policy gw \<and> res \<noteq> []
     then attempt_op ''policy_postflight_failed'' (postflight (nd_now_day nd) (outcome_facts_of c res r cost)) s else s)"

definition save_contents :: "router \<Rightarrow> model_call \<Rightarrow> result \<Rightarrow> event \<Rightarrow> core \<Rightarrow> core" where
  "save_contents gw c r ev s = (let prompts = pv_prompts (gw_privacy gw); responses = pv_responses (gw_privacy gw) in
     if gw_recorder gw = JournalRecorder \<and> (prompts \<or> responses)
     then s\<lparr>cs_engine := snd (on_journal (save_content
        \<lparr>ct_event_id = ev_event_id ev, ct_prompt = (if prompts then mc_prompt c else []),
         ct_response = (if responses then re_text r else []), ct_error = (if responses then re_error_body r else []),
         ct_created = ev_created_at ev\<rparr>) (cs_engine s))\<rparr>
     else s)"

text \<open>Before the settlement proper, the repetition counters of the call are saved.\<close>

definition chat_counted :: "router \<Rightarrow> ending \<Rightarrow> model_call \<Rightarrow> string \<Rightarrow> result \<Rightarrow> core \<Rightarrow> core" where
  "chat_counted gw nd c res r s = (let held = (gw_has_policy gw \<and> res \<noteq> []);
     s1 = (if held \<and> re_fingerprints r \<noteq> []
       then attempt_op ''tool_repetition_failed'' (record_tool_calls (nd_ctx_calls nd) (nd_now_calls nd) (mc_run_id c) (re_fingerprints r)) s
       else s) in
     if held \<and> re_status r \<in> set [''provider_error'', ''transport_error'', ''success'']
     then attempt_op ''provider_repetition_failed''
       (record_provider_outcome (nd_ctx_outcome nd) (nd_now_outcome nd) (mc_run_id c) (re_status r) (re_error_code r)) s1
     else s1)"

definition settle_chat :: "router \<Rightarrow> ending \<Rightarrow> model_call \<Rightarrow> string \<Rightarrow> result \<Rightarrow> core \<Rightarrow> core" where
  "settle_chat gw nd c res r s =
     (let pc = chat_cost gw (mc_provider c) r; cost = cost_text pc; s2 = chat_counted gw nd c res r s in
      if gw_recorder gw = NoRecorder then settle_postflight gw nd c res r cost s2
      else (case build (nd_event_bytes nd) (attempt_of gw c r None pc (nd_ended nd)) of
          Inl _ \<Rightarrow> settle_postflight gw nd c res r cost (log_error ''event_build_failed'' s2)
        | Inr ev0 \<Rightarrow> (case prepare ev0 of
            Inl _ \<Rightarrow> settle_postflight gw nd c res r cost (log_error ''event_redaction_failed'' s2)
          | Inr ev \<Rightarrow> (let s3 = save_contents gw c r ev s2 in
              if gw_recorder gw = JournalRecorder \<and> gw_has_policy gw \<and> res \<noteq> []
              then attempt_op ''journal_write_failed'' (on_journal
                (postflight_and_append (nd_now_day nd) (outcome_of (outcome_facts_of c res r cost)) ev [] cost)) s3
              else attempt_op ''journal_write_failed'' (record_by (gw_recorder gw) (nd_wait nd) (nd_now_append nd) ev)
                (settle_postflight gw nd c res r cost s3)))))"

section \<open>Admission\<close>

definition facts_of :: "router \<Rightarrow> model_call \<Rightarrow> request_facts" where
  "facts_of gw c = (let g = gw_guardrails gw in
     \<lparr>rf_run_id = mc_run_id c, rf_provider = mc_provider c, rf_model = mc_model c, rf_tools = mc_tools c, rf_started = mc_started c,
      rf_cost = gr_est_cost g, rf_input = (if gr_est_input g > 0 then Some (gr_est_input g) else None),
      rf_output = (if gr_est_output g > 0 then Some (gr_est_output g) else None)\<rparr>)"

datatype admission = Unavailable | Blocked decision | Admitted string

definition admit :: "router \<Rightarrow> surroundings \<Rightarrow> model_call \<Rightarrow> core \<Rightarrow> admission \<times> core" where
  "admit gw su c s =
     (if \<not> gw_has_policy gw then (Admitted [], s)
      else (case preflight su (facts_of gw c) (cs_engine s) of
          (Inl _, e) \<Rightarrow> (Unavailable, s\<lparr>cs_engine := e\<rparr>)
        | (Inr d, e) \<Rightarrow> (if de_decision d = ''block'' then Blocked d else Admitted (de_reservation_id d), s\<lparr>cs_engine := e\<rparr>)))"

definition block_notice :: "router \<Rightarrow> model_call \<Rightarrow> decision \<Rightarrow> time \<Rightarrow> policy_block_notice" where
  "block_notice gw c d ended = \<lparr>pb_run_id = mc_run_id c, pb_reason = de_reason d, pb_policy = de_policy d, pb_attempt = de_attempt d,
     pb_threshold = de_threshold d, pb_estimate = gr_est_cost (gw_guardrails gw), pb_occurred = ended, pb_persistence_failed = False\<rparr>"

definition block_attempt :: "router \<Rightarrow> model_call \<Rightarrow> decision \<Rightarrow> time \<Rightarrow> attempt" where
  "block_attempt gw c d ended = attempt_of gw c
     (zero_result\<lparr>re_usage_source := ''unknown'', re_status := ''policy_block'', re_error_code := de_reason d\<rparr>)
     (Some \<lparr>pd_decision = de_decision d, pd_reason = de_reason d, pd_policy = de_policy d, pd_attempt = de_attempt d, pd_threshold = de_threshold d\<rparr>)
     unpriced ended"

text \<open>The notice of the block, and whether the supervisor is still to be told.\<close>

definition finalize_policy_block :: "router \<Rightarrow> ending \<Rightarrow> model_call \<Rightarrow> decision \<Rightarrow> core \<Rightarrow> (policy_block_notice \<times> bool) \<times> core" where
  "finalize_policy_block gw nd c d s =
     (let notice = block_notice gw c d (nd_ended nd);
          (x, e) = (case rbind (build (nd_event_bytes nd) (block_attempt gw c d (nd_ended nd))) prepare of
              Inl err \<Rightarrow> (Inl err, cs_engine s)
            | Inr ev \<Rightarrow> (if mc_supervised c
                then (if gw_policy_blocks gw then on_journal (record_policy_block ev notice) (cs_engine s)
                      else (Inl (Errorf ''supervised policy block recorder unavailable''), cs_engine s))
                else record_by (gw_recorder gw) (nd_wait nd) (nd_now_append nd) ev (cs_engine s)));
          s1 = s\<lparr>cs_engine := e\<rparr> in
      case x of Inr _ \<Rightarrow> ((notice, True), s1)
      | Inl err \<Rightarrow> (if errors_is err ErrPolicyBlockRecorded then ((notice, False), s1)
          else ((notice\<lparr>pb_persistence_failed := True\<rparr>, True), log_error ''policy_block_persistence_failed'' s1)))"

section \<open>A guarded call\<close>

text \<open>What the client gets. \<open>Answered\<close> is the only reply for which the provider was asked.\<close>

datatype 'r call_reply = Rejected api_error | PolicyUnavailable | PolicyBlocked decision | Answered 'r

definition transport_result :: result where
  "transport_result = zero_result\<lparr>re_status := ''transport_error'', re_usage_source := ''unknown'', re_error_code := ''provider_transport_error''\<rparr>"

text \<open>\<open>answer\<close>: what asking the provider gives, the result of the call and what the client sees of it.\<close>

definition guarded_call :: "(string \<Rightarrow> result \<Rightarrow> core \<Rightarrow> core) \<Rightarrow> router \<Rightarrow> surroundings \<Rightarrow> ending \<Rightarrow> result \<times> 'r \<Rightarrow> model_call \<Rightarrow> core \<Rightarrow>
    'r call_reply \<times> core" where
  "guarded_call settle gw su nd answer c s = (case admit gw su c s of
     (Unavailable, s1) \<Rightarrow> (PolicyUnavailable, settle [] (transport_result\<lparr>re_error_code := ''policy_unavailable''\<rparr>) s1)
   | (Blocked d, s1) \<Rightarrow> (case finalize_policy_block gw nd c d s1 of ((notice, notify), s2) \<Rightarrow>
       (PolicyBlocked d, if mc_supervised c \<and> notify \<and> gw_notifier gw then s2\<lparr>cs_registry := notify_policy_block notice (cs_registry s2)\<rparr> else s2))
   | (Admitted res, s1) \<Rightarrow> (Answered (snd answer), settle res (fst answer) s1))"

section \<open>The chat handler\<close>

datatype 'b body_read = BodyTooLarge | BodyTimeout | BodyBroken | BodyRead 'b

record selector =
  sl_model :: string
  sl_stream :: bool
  sl_tools :: "string list"
  sl_prompt :: string

text \<open>The random bytes of a generated run identifier and of a new trace.\<close>

record identifiers =
  id_run_bytes :: "string option"
  id_trace_bytes :: "string option"
  id_span_bytes :: "string option"

definition read_error :: "string \<Rightarrow> 'b body_read \<Rightarrow> api_error + 'b" where
  "read_error too_large body = (case body of BodyTooLarge \<Rightarrow> Inl (413, too_large) | BodyTimeout \<Rightarrow> Inl (408, ''request_timeout'')
     | BodyBroken \<Rightarrow> Inl (400, ''invalid_request'') | BodyRead b \<Rightarrow> Inr b)"

definition chat_prepare :: "router \<Rightarrow> ('b \<Rightarrow> selector option) \<Rightarrow> (route \<Rightarrow> 'b \<Rightarrow> unit res) \<Rightarrow> (route \<Rightarrow> 'b \<Rightarrow> string \<Rightarrow> 'q res) \<Rightarrow>
    identifiers \<Rightarrow> time \<Rightarrow> request_identity \<Rightarrow> http_request \<Rightarrow> 'b body_read \<Rightarrow> api_error + (model_call \<times> bool \<times> 'q)" where
  "chat_prepare gw parse validate form ids started i rq body = (case read_error ''request_too_large'' body of Inl e \<Rightarrow> Inl e
   | Inr b \<Rightarrow> (case parse b of None \<Rightarrow> Inl (400, ''invalid_request'')
     | Some sel \<Rightarrow> (if sl_model sel = [] then Inl (400, ''invalid_request'')
       else (case gw_models gw (sl_model sel) of None \<Rightarrow> Inl (400, ''model_not_configured'')
       | Some rt \<Rightarrow> (if \<not> is_ok (validate rt b) then Inl (400, ''unsupported_request'')
         else (case key_of (gw_getenv gw) i rq (rt_key_env rt) of None \<Rightarrow> Inl (401, ''provider_key_required'')
         | Some key \<Rightarrow> (case run_of (id_run_bytes ids) i rq of Inl _ \<Rightarrow> Inl (500, ''run_id_unavailable'')
           | Inr rid \<Rightarrow> (case form rt b key of Inl _ \<Rightarrow> Inl (400, ''invalid_provider_config'')
             | Inr q \<Rightarrow> (case new_trace (id_trace_bytes ids) (id_span_bytes ids) (hq_traceparent rq) of Inl _ \<Rightarrow> Inl (500, ''trace_unavailable'')
               | Inr trace \<Rightarrow> Inr (\<lparr>mc_run_id = rid, mc_trace = trace, mc_provider = rt_provider rt, mc_model = sl_model sel,
                   mc_tools = sl_tools sel, mc_started = started, mc_supervised = ri_supervised i, mc_prompt = sl_prompt sel\<rparr>,
                   sl_stream sel, q))))))))))"

text \<open>What \<open>Do\<close> returns: an error, with whether the client has gone, or a response.\<close>

datatype 'p exchange = Unreachable bool | Response 'p

datatype chat_reply = GatewayError nat string | Relayed

record 'p adapter =
  ad_status :: "'p \<Rightarrow> nat"
  ad_stream :: "'p \<Rightarrow> result \<times> goerr option"
  ad_translate :: "'p \<Rightarrow> result \<times> goerr option"

definition chat_answer :: "'p adapter \<Rightarrow> bool \<Rightarrow> 'p exchange \<Rightarrow> result \<times> chat_reply" where
  "chat_answer ad wants_stream ex = (case ex of
     Unreachable gone \<Rightarrow> (if gone then transport_result\<lparr>re_status := ''client_cancelled'', re_error_code := ''client_cancelled''\<rparr>
         else transport_result, GatewayError 502 ''provider_transport_error'')
   | Response p \<Rightarrow>
       (if wants_stream \<and> 200 \<le> ad_status ad p \<and> ad_status ad p < 300
        then (case ad_stream ad p of (r, None) \<Rightarrow> (r, Relayed)
          | (r, Some _) \<Rightarrow> (r\<lparr>re_error_code := (if re_status r = ''client_cancelled'' then ''client_cancelled'' else ''provider_stream_error'')\<rparr>, Relayed))
        else (case ad_translate ad p of (r, None) \<Rightarrow> (r, Relayed)
          | (r, Some _) \<Rightarrow> (r\<lparr>re_status := ''provider_error'', re_error_code := ''provider_response_error'', re_usage_source := ''unknown''\<rparr>,
              GatewayError 502 ''provider_response_error''))))"

definition chat :: "router \<Rightarrow> ('b \<Rightarrow> selector option) \<Rightarrow> (route \<Rightarrow> 'b \<Rightarrow> unit res) \<Rightarrow> (route \<Rightarrow> 'b \<Rightarrow> string \<Rightarrow> 'q res) \<Rightarrow>
    'p adapter \<Rightarrow> ('q \<Rightarrow> 'p exchange) \<Rightarrow> identifiers \<Rightarrow> surroundings \<Rightarrow> ending \<Rightarrow> time \<Rightarrow> request_identity \<Rightarrow> http_request \<Rightarrow>
    'b body_read \<Rightarrow> core \<Rightarrow> chat_reply call_reply \<times> core" where
  "chat gw parse validate form ad send ids su nd started i rq body s =
     (case chat_prepare gw parse validate form ids started i rq body of Inl e \<Rightarrow> (Rejected e, s)
      | Inr (c, wants_stream, q) \<Rightarrow> guarded_call (settle_chat gw nd c) gw su nd (chat_answer ad wants_stream (send q)) c s)"

section \<open>What settles a reservation\<close>

abbreviation core_tables :: "core \<Rightarrow> tables" where
  "core_tables s \<equiv> tbl (en_journal (cs_engine s))"

text \<open>The reservations other than one.\<close>

definition others :: "string \<Rightarrow> tables \<Rightarrow> reservation list" where
  "others res t = filter (\<lambda>v. rv_id v \<noteq> res) (t_reservations t)"

definition reconciled :: "string \<Rightarrow> string \<Rightarrow> tables \<Rightarrow> bool" where
  "reconciled res rid t \<longleftrightarrow> (\<exists>v. select_reservation res rid t = Some v \<and> rv_reconciled v)"

definition held :: "string \<Rightarrow> string \<Rightarrow> tables \<Rightarrow> bool" where
  "held res rid t \<longleftrightarrow> select_reservation res rid t \<noteq> None"

text \<open>The settlement of a call may fail, but not without a trace.\<close>

definition settle_failed :: "core \<Rightarrow> core \<Rightarrow> bool" where
  "settle_failed s s' \<longleftrightarrow> (\<exists>code \<in> {''policy_postflight_failed'', ''journal_write_failed''}.
     code \<in> set (drop (length (cs_log s)) (cs_log s')))"

lemma same_reservations:
  assumes "t_reservations t' = t_reservations t"
  shows "others res t' = others res t \<and> reconciled res rid t' = reconciled res rid t \<and> held res rid t' = held res rid t"
  using assms by (simp add: others_def reconciled_def held_def select_reservation_def)

lemma settled_reservations:
  assumes "settled oc t t'"
  shows "others (oc_reservation_id oc) t' = others (oc_reservation_id oc) t \<and> reconciled (oc_reservation_id oc) (oc_run_id oc) t'"
proof -
  from assms obtain old i out u c a b d e rid where old: "select_reservation (oc_reservation_id oc) (oc_run_id oc) t = Some old"
    and t': "t' = set_reconciled (oc_reservation_id oc) i out u c (set_run_totals rid a b d e t)"
    unfolding settled_def by blast
  have "filter (\<lambda>v. rv_id v \<noteq> k) (update_where (\<lambda>v. rv_id v = k) f xs) = filter (\<lambda>v. rv_id v \<noteq> k) xs"
    if "\<And>v. rv_id (f v) = rv_id v" for k f and xs :: "reservation list"
    using that by (induction xs) (auto simp: update_where_def)
  then show ?thesis using old unfolding t'
    by (auto simp: others_def reconciled_def select_set_reconciled) (simp add: set_reconciled_def set_run_totals_def)
qed

lemma reconcile_tx_reservations:
  assumes "reconcile_policy_tx oc j = (Inr (), j')"
  shows "others (oc_reservation_id oc) (tbl j') = others (oc_reservation_id oc) (tbl j) \<and>
    reconciled (oc_reservation_id oc) (oc_run_id oc) (tbl j')"
  using reconcile_tx_run [OF assms] settled_reservations by (auto simp: reconciled_def)

lemma keeps_reservations:
  "keeps (\<lambda>t. t_reservations t = R) (increment_daily_counters_tx now c)"
  "keeps (\<lambda>t. t_reservations t = R) (increment_daily_counters now c)"
  "keeps (\<lambda>t. t_reservations t = R) (save_repetition_state now rid kind n vs)"
  unfolding increment_daily_counters_def increment_daily_counters_tx_def save_repetition_state_def
  by (auto intro!: keeps_intros keeps_tx_body split: option.split if_splits simp: insert_daily_def update_daily_def)

lemma keeps_reservations_content: "keeps (\<lambda>t. t_reservations t = R) (save_content row)"
proof -
  have "keeps (\<lambda>t. t_reservations t = R) (exec_stmt (\<lambda>t. Inr ((), t\<lparr>t_contents := f t\<rparr>)))" for f
    by (auto intro!: keeps_intros)
  then show ?thesis by (auto simp: save_content_def keeps_def split: if_splits)
qed

lemma keeps_reservations_append: "keeps (\<lambda>t. t_reservations t = R) (append w now ev ds)"
proof -
  have tx: "t_reservations (tbl j') = t_reservations (tbl j)" if "append_transaction now ev ds j = (x, j')" for x j j'
    using append_transaction_run(1) [of now ev ds j _ j'] append_transaction_error [of now ev ds j _ j'] that
    by (cases x) (auto simp: appended_def)
  then show ?thesis by (auto simp: keeps_def append_def split: if_splits append_wait.splits) (metis prod.collapse)
qed

lemma keeps_reservations_postflight:
  assumes "postflight_and_append now oc ev ds cost j = (Inr u, j')"
  shows "others (oc_reservation_id oc) (tbl j') = others (oc_reservation_id oc) (tbl j) \<and>
    reconciled (oc_reservation_id oc) (oc_run_id oc) (tbl j')"
proof -
  obtain j1 j2 j3 j4 j5 where b: "tbl j1 = tbl j" "reconcile_policy_tx oc j1 = (Inr (), j2)"
    "increment_daily_counters_tx now cost j2 = (Inr (), j3)" "insert_event ev j3 = (Inr (), j4)"
    "for_each (insert_outbox now ev) ds j4 = (Inr (), j5)" "tbl j' = tbl j5"
    using assms by (metis postflight_and_append_run)
  have "t_reservations (tbl j3) = t_reservations (tbl j2)" using keepsD [OF keeps_reservations(1) b(3) refl] .
  moreover have "t_reservations (tbl j') = t_reservations (tbl j3)"
    using insert_event_run(2) [OF b(4)] insert_outboxes_run [OF b(5)] b(6) by simp
  ultimately show ?thesis using reconcile_tx_reservations [OF b(2)] b(1) same_reservations [of "tbl j'" "tbl j2"] by simp
qed

lemma reconcile_reservations:
  assumes "reconcile_policy oc j = (x, j')"
  shows "others (oc_reservation_id oc) (tbl j') = others (oc_reservation_id oc) (tbl j) \<and>
    (is_ok x \<longrightarrow> reconciled (oc_reservation_id oc) (oc_run_id oc) (tbl j'))"
proof (cases x)
  case (Inl err)
  with assms have "tbl j' = tbl j" by (auto simp: reconcile_policy_def dest: tx_error_rolls_back split: if_splits)
  with Inl show ?thesis by simp
next
  case (Inr u)
  with assms have "reconcile_policy oc j = (Inr (), j')" by simp
  from reconcile_policy_run [OF this] settled_reservations show ?thesis by (auto simp: reconciled_def)
qed

lemma postflight_reservations:
  assumes "postflight now f e = (x, e')"
  shows "others (of_reservation_id f) (tbl (en_journal e')) = others (of_reservation_id f) (tbl (en_journal e)) \<and>
    (is_ok x \<longrightarrow> reconciled (of_reservation_id f) (of_run_id f) (tbl (en_journal e')))"
proof -
  let ?oc = "outcome_of f"
  have ids: "oc_reservation_id ?oc = of_reservation_id f" "oc_run_id ?oc = of_run_id f" by (simp_all add: outcome_of_def)
  obtain y j1 where y: "reconcile_policy ?oc (en_journal e) = (y, j1)" by fastforce
  note r = reconcile_reservations [OF y, unfolded ids]
  obtain z j2 where z: "increment_daily_counters now (of_cost f) j1 = (z, j2)" by fastforce
  have "t_reservations (tbl j2) = t_reservations (tbl j1)" using keepsD [OF keeps_reservations(2) z refl] .
  note same = same_reservations [OF this]
  from assms consider "e' = e" "\<not> is_ok x" | "y = Inl undefined \<or> \<not> is_ok y" "en_journal e' = j1" "\<not> is_ok x"
    | "is_ok y" "en_journal e' = j2" "is_ok x = is_ok z"
    using y z by (cases y) (auto simp: postflight_def on_journal_def bindE_def split: if_splits sum.splits)
  then show ?thesis using r same by cases auto
qed

text \<open>The operations before the settlement.\<close>

lemma record_tool_calls_reservations:
  "t_reservations (tbl (en_journal (snd (record_tool_calls ctx now rid fps e)))) = t_reservations (tbl (en_journal e))"
  using keeps_snd [OF keeps_reservations(3)] by (auto simp: record_tool_calls_def Let_def split: option.split)

lemma record_provider_outcome_reservations:
  "t_reservations (tbl (en_journal (snd (record_provider_outcome ctx now rid st code e)))) = t_reservations (tbl (en_journal e))"
  using keeps_snd [OF keeps_reservations(3)] by (auto simp: record_provider_outcome_def Let_def split: option.split)

lemma attempt_op_cases:
  obtains x e where "m (cs_engine s) = (x, e)" "cs_engine (attempt_op code m s) = e"
    "cs_log (attempt_op code m s) = cs_log s @ (if is_ok x then [] else [code])"
proof -
  obtain x e where "m (cs_engine s) = (x, e)" by fastforce
  then show ?thesis using that by (cases x) (auto simp: attempt_op_def log_error_def)
qed

text \<open>A core whose reservations are those of another and whose log continues it.\<close>

definition follows :: "core \<Rightarrow> core \<Rightarrow> bool" where
  "follows s s' \<longleftrightarrow> t_reservations (core_tables s') = t_reservations (core_tables s) \<and> (\<exists>l. cs_log s' = cs_log s @ l)"

lemma follows_refl [simp]: "follows s s"
  by (simp add: follows_def)

lemma follows_log: "follows s s' \<Longrightarrow> follows s (log_error code s')"
  by (auto simp: follows_def log_error_def)

lemma follows_attempt:
  assumes "follows s s'" "\<And>e. t_reservations (tbl (en_journal (snd (m e)))) = t_reservations (tbl (en_journal e))"
  shows "follows s (attempt_op code m s')"
proof (rule attempt_op_cases [of m s' code])
  fix x e
  assume "m (cs_engine s') = (x, e)" "cs_engine (attempt_op code m s') = e"
    "cs_log (attempt_op code m s') = cs_log s' @ (if is_ok x then [] else [code])"
  with assms(1) assms(2) [of "cs_engine s'"] show ?thesis by (auto simp: follows_def)
qed

lemma follows_save_contents: "follows s s' \<Longrightarrow> follows s (save_contents gw c r ev s')"
  using keeps_snd [OF keeps_reservations_content]
  by (auto simp: follows_def save_contents_def Let_def on_journal_def split: prod.split) (metis snd_conv)+

lemma record_by_reservations:
  "t_reservations (tbl (en_journal (snd (record_by rc w now ev (e :: engine))))) = t_reservations (tbl (en_journal e))"
proof -
  have "t_reservations (tbl (snd (append w now ev ds (en_journal e)))) = t_reservations (tbl (en_journal e))" for ds
    using keeps_snd [OF keeps_reservations_append refl] .
  then show ?thesis by (simp add: record_by_def record_event_def on_journal_def case_prod_beta split: recorder.split)
qed

lemma follows_record: "follows s s' \<Longrightarrow> follows s (attempt_op code (record_by rc w now ev) s')"
  by (rule follows_attempt) (simp_all add: record_by_reservations)

definition settles_call :: "string \<Rightarrow> string \<Rightarrow> core \<Rightarrow> core \<Rightarrow> bool" where
  "settles_call res rid s s' \<longleftrightarrow> others res (core_tables s') = others res (core_tables s) \<and>
     (reconciled res rid (core_tables s') \<or> settle_failed s s')"

lemma settles_then_follows:
  assumes "settles_call res rid s s1" "\<exists>l. cs_log s1 = cs_log s @ l" "follows s1 s2"
  shows "settles_call res rid s s2"
  using assms same_reservations [of "core_tables s2" "core_tables s1"] by (auto simp: settles_call_def follows_def settle_failed_def)

lemma settling_op:
  assumes "follows s s1" "code \<in> {''policy_postflight_failed'', ''journal_write_failed''}"
    and "\<And>x e. m (cs_engine s1) = (x, e) \<Longrightarrow> others res (tbl (en_journal e)) = others res (core_tables s1) \<and>
      (is_ok x \<longrightarrow> reconciled res rid (tbl (en_journal e)))"
  shows "settles_call res rid s (attempt_op code m s1) \<and> (\<exists>l. cs_log (attempt_op code m s1) = cs_log s @ l)"
proof (rule attempt_op_cases [of m s1 code])
  fix x e
  assume a: "m (cs_engine s1) = (x, e)" "cs_engine (attempt_op code m s1) = e"
    "cs_log (attempt_op code m s1) = cs_log s1 @ (if is_ok x then [] else [code])"
  have "others res (core_tables s1) = others res (core_tables s)"
    using assms(1) same_reservations unfolding follows_def by blast
  with a assms(3) [OF a(1)] assms(1,2) show ?thesis
    by (cases "is_ok x") (auto simp: settles_call_def settle_failed_def follows_def)
qed

lemma settle_postflight_settles:
  assumes "follows s s1" "gw_has_policy gw" "res \<noteq> []"
  shows "settles_call res (mc_run_id c) s (settle_postflight gw nd c res r cost s1) \<and>
    (\<exists>l. cs_log (settle_postflight gw nd c res r cost s1) = cs_log s @ l)"
proof -
  have "settles_call res (mc_run_id c) s (attempt_op ''policy_postflight_failed'' (postflight (nd_now_day nd) (outcome_facts_of c res r cost)) s1) \<and>
    (\<exists>l. cs_log (attempt_op ''policy_postflight_failed'' (postflight (nd_now_day nd) (outcome_facts_of c res r cost)) s1) = cs_log s @ l)"
    by (rule settling_op [OF assms(1)], simp, drule postflight_reservations) (simp add: outcome_facts_of_def)
  then show ?thesis using assms(2,3) by (simp add: settle_postflight_def)
qed

lemma settle_append_settles:
  assumes "follows s s1"
  shows "settles_call res (mc_run_id c) s (attempt_op ''journal_write_failed'' (on_journal
    (postflight_and_append now (outcome_of (outcome_facts_of c res r cost)) ev ds cost)) s1)"
proof -
  let ?oc = "outcome_of (outcome_facts_of c res r cost)"
  have ids: "oc_reservation_id ?oc = res" "oc_run_id ?oc = mc_run_id c" by (simp_all add: outcome_of_def outcome_facts_of_def)
  have "others res (tbl j') = others res (tbl j) \<and> (is_ok x \<longrightarrow> reconciled res (mc_run_id c) (tbl j'))"
    if "postflight_and_append now ?oc ev ds cost j = (x, j')" for x j j'
    using that keeps_reservations_postflight [of now ?oc ev ds cost j _ j'] postflight_and_append_error [of now ?oc ev ds cost j _ j'] ids
    by (cases x) auto
  then have "others res (tbl (en_journal e')) = others res (tbl (en_journal e)) \<and> (is_ok x \<longrightarrow> reconciled res (mc_run_id c) (tbl (en_journal e')))"
    if "on_journal (postflight_and_append now ?oc ev ds cost) e = (x, e')" for x e e'
    using that by (auto simp: on_journal_def split: prod.splits)
  then show ?thesis by (intro settling_op [OF assms, THEN conjunct1]) simp_all
qed

section \<open>A policy block\<close>

lemma guarded_call_unanswered:
  assumes "guarded_call settle gw su nd answer c s = (reply, s')" "\<And>a. reply \<noteq> Answered a"
  shows "guarded_call settle gw su nd answer' c s = (reply, s')"
  using assms by (auto simp: guarded_call_def split: prod.splits admission.splits)

lemma run_of_label:
  assumes "run_of raw i rq = Inr rid" "ri_run_id i = [] \<or> label_pattern (ri_run_id i)" "\<forall>bs. raw = Some bs \<longrightarrow> length bs = 16"
  shows "label_pattern rid"
  using assms by (auto simp: run_of_def resolve_run_id_def new_id_def intro!: label_pattern_run_prefix [simplified] split: if_splits option.splits)

lemma record_policy_block_reservations:
  assumes "record_policy_block ev n j = (x, j')"
  shows "t_reservations (tbl j') = t_reservations (tbl j)"
proof (cases x)
  case (Inl err)
  with assms show ?thesis by (auto dest: record_policy_block_error)
next
  case (Inr u)
  with assms have "record_policy_block ev n j = (Inr u, j')" by simp
  from record_policy_block_run(1) [OF this] show ?thesis by (simp add: block_recorded_def)
qed

text \<open>The errors of building an event are plain ones.\<close>

definition plain_error :: "goerr \<Rightarrow> bool" where "plain_error e \<longleftrightarrow> (\<exists>m. e = Errorf m)"

lemma plain_if: "(if b then Inl (Errorf m) else x) = Inl e \<Longrightarrow> (x = Inl e \<Longrightarrow> plain_error e) \<Longrightarrow> plain_error e"
  by (auto simp: plain_error_def split: if_splits)

lemma plain_bind: "rbind x f = Inl e \<Longrightarrow> (x = Inl e \<Longrightarrow> plain_error e) \<Longrightarrow> (\<And>y. f y = Inl e \<Longrightarrow> plain_error e) \<Longrightarrow> plain_error e"
  by (cases x) (auto simp: rbind_def)

lemma check_error: "check_usage_source s i out c = Inl e \<Longrightarrow> plain_error e" "check_costs s a b = Inl e \<Longrightarrow> plain_error e"
  by (auto simp: check_usage_source_def check_costs_def plain_error_def split: if_splits)

lemma build_error: 
  assumes "build raw a = Inl e" shows "plain_error e"
proof -
  have "new_id raw = Inl e \<Longrightarrow> plain_error e" by (auto simp: new_id_def plain_error_def split: option.splits)
  with check_error assms show ?thesis unfolding build_def by (elim plain_if plain_bind) blast+
qed

lemma prepare_error: "prepare ev = Inl e \<Longrightarrow> plain_error e"
  unfolding prepare_def validate_event_def
  by (elim plain_if plain_bind check_error) (auto simp: plain_error_def split: option.splits if_splits)

lemma tx_failed:
  assumes "tx body j = (Inl e, j')" "e \<noteq> ErrDriver"
  shows "\<exists>j1 j2. tbl j1 = tbl j \<and> body j1 = (Inl e, j2)"
proof -
  have f: "r \<noteq> Inl e" if "fault k = (r, k')" for r k k'
    using that assms(2) by (auto simp: fault_def split: list.splits if_splits)
  obtain r j1 where 1: "fault j = (r, j1)" by fastforce
  obtain x j2 where 2: "body j1 = (x, j2)" by fastforce
  from 1 have "tbl j1 = tbl j" by (rule fault_tbl)
  moreover from assms(1) 1 2 f have "x = Inl e" by (auto simp: tx_def split: sum.splits prod.splits if_splits)
  ultimately show ?thesis using 2 by blast
qed

lemma block_conflict_recorded:
  assumes "block_conflict n j = (Inl ErrPolicyBlockRecorded, j')"
  shows "\<exists>x. select_execution (pb_run_id n) (tbl j) = Some x \<and> ex_state x = StateBlocked"
  using assms by (auto simp: block_conflict_def query_row_def query_def bindE_def fault_def fail_def ret_def split: prod.splits sum.splits if_splits list.splits option.splits)

text \<open>Only a run that is blocked already is refused with \<open>ErrPolicyBlockRecorded\<close>.\<close>

lemma record_policy_block_recorded:
  assumes "record_policy_block ev n j = (Inl err, j')" "errors_is err ErrPolicyBlockRecorded" "executions_ok (tbl j)"
  shows "\<exists>x. select_execution (pb_run_id n) (tbl j) = Some x \<and> ex_state x = StateBlocked"
proof -
  let ?P = "\<lambda>x. ex_run_id x = pb_run_id n \<and> ex_state x = StateRunning"
  let ?body = "bindE (update_blocked n) (\<lambda>rows. if rows \<noteq> 1 then block_conflict n else bindE (insert_event ev) (\<lambda>_. ret (True, ())))"
  have nd: "err \<noteq> ErrDriver" and np: "\<not> plain_error err" using assms(2) by (auto simp: plain_error_def)
  from assms(1) np have "tx ?body j = (Inl err, j')"
    by (auto simp: record_policy_block_def plain_error_def dest: prepare_error split: if_splits sum.splits)
  from tx_failed [OF this nd] obtain j1 j2 where b: "tbl j1 = tbl j" "?body j1 = (Inl err, j2)" by blast
  obtain y j3 where u: "update_blocked n j1 = (y, j3)" by fastforce
  have "y \<noteq> Inl err" using u nd by (auto simp: update_blocked_def exec_stmt_def bindE_def fault_def Let_def split: if_splits prod.splits sum.splits list.splits)
  have ie: "insert_event ev k \<noteq> (Inl err, k')" for k k'
    using nd np by (auto simp: insert_event_def exec_stmt_def bindE_def fault_def Let_def plain_error_def split: if_splits prod.splits sum.splits list.splits)
  obtain rows where r: "y = Inr rows" "rows \<noteq> 1" "block_conflict n j3 = (Inl err, j2)"
    using b(2) u \<open>y \<noteq> Inl err\<close> ie 
    by (cases y) (auto simp: bindE_def ret_def split: if_splits prod.splits sum.splits)
  have "err = ErrPolicyBlockRecorded" using r(3) assms(2) by (auto simp: block_conflict_def split: prod.splits sum.splits if_splits)
  with block_conflict_recorded r(3) obtain x where x: "select_execution (pb_run_id n) (tbl j3) = Some x" "ex_state x = StateBlocked" by blast
  from update_blocked_run [OF u [unfolded r(1)]] have c: "rows = count_where ?P (t_executions (tbl j))"
    "t_executions (tbl j3) = update_where ?P (set_blocked n) (t_executions (tbl j))" using b(1) by auto
  have "distinct_on ex_run_id (t_executions (tbl j))" using assms(3) by (simp add: executions_ok_def)
  then have "rows \<le> 1" unfolding c(1) by (rule count_where_key_le [where P = "\<lambda>x. ex_state x = StateRunning"])
  with r(2) have "rows = 0" by simp
  then have "\<forall>y \<in> set (t_executions (tbl j)). \<not> ?P y" using c(1) by (simp only: count_where_0)
  then have "t_executions (tbl j3) = t_executions (tbl j)" unfolding c(2) by (rule update_where_none)
  with x show ?thesis by (simp add: select_execution_def)
qed

text \<open>What \<open>finalizePolicyBlock\<close> writes, and how.\<close>

definition write_block :: "router \<Rightarrow> ending \<Rightarrow> model_call \<Rightarrow> decision \<Rightarrow> engine \<Rightarrow> unit res \<times> engine" where
  "write_block gw nd c d e = (case rbind (build (nd_event_bytes nd) (block_attempt gw c d (nd_ended nd))) prepare of
     Inl err \<Rightarrow> (Inl err, e)
   | Inr ev \<Rightarrow> (if mc_supervised c
       then (if gw_policy_blocks gw then on_journal (record_policy_block ev (block_notice gw c d (nd_ended nd))) e
             else (Inl (Errorf ''supervised policy block recorder unavailable''), e))
       else record_by (gw_recorder gw) (nd_wait nd) (nd_now_append nd) ev e))"

lemma finalize_writes:
  "finalize_policy_block gw nd c d s = (case write_block gw nd c d (cs_engine s) of
     (Inr u, e) \<Rightarrow> ((block_notice gw c d (nd_ended nd), True), s\<lparr>cs_engine := e\<rparr>)
   | (Inl err, e) \<Rightarrow> (if errors_is err ErrPolicyBlockRecorded then ((block_notice gw c d (nd_ended nd), False), s\<lparr>cs_engine := e\<rparr>)
       else (((block_notice gw c d (nd_ended nd))\<lparr>pb_persistence_failed := True\<rparr>, True),
             log_error ''policy_block_persistence_failed'' (s\<lparr>cs_engine := e\<rparr>))))"
  by (simp add: finalize_policy_block_def write_block_def Let_def case_prod_beta split: sum.split)

lemma write_block_reservations:
  "t_reservations (tbl (en_journal (snd (write_block gw nd c d e)))) = t_reservations (tbl (en_journal e))"
  by (auto simp: write_block_def on_journal_def case_prod_beta record_by_reservations split: sum.split
      intro: record_policy_block_reservations [OF prod.collapse [symmetric]])

lemma finalize_reservations:
  assumes "finalize_policy_block gw nd c d s = (x, s')"
  shows "t_reservations (core_tables s') = t_reservations (core_tables s)"
proof (cases "write_block gw nd c d (cs_engine s)")
  case (Pair y e)
  with write_block_reservations [of gw nd c d "cs_engine s"] assms show ?thesis
    by (auto simp: finalize_writes log_error_def split: sum.splits if_splits)
qed

lemma preflight_decides:
  assumes "preflight su rf e = (Inr d, e')"
  shows "de_decision d = ''allow'' \<or> de_decision d = ''block''"
  using assms
proof (cases rule: preflight_run)
  case (limits rid e1)
  from limits(3) show ?thesis
    by (cases rule: preflight_limits_run) (auto simp: decide_reservation_def allow_run_def)
qed simp

lemma admitted_fresh:
  assumes "admitted now r est cap t x t'"
  shows "\<exists>v. t_reservations t' = t_reservations t @ [v] \<and> rv_id v = rs_reservation_id r \<and> others (rv_id v) t' = t_reservations t"
proof -
  from assms obtain c1 c2 where i: "insert_reservation r c1 (charge_run r c2
      (insert_or_ignore_run (rs_run_id r) (rs_started r) t)) = Inr ((), t')"
    unfolding admitted_def by blast
  have "t_reservations (charge_run r c2 (insert_or_ignore_run (rs_run_id r) (rs_started r) t)) = t_reservations t"
    by (simp add: charge_run_def insert_or_ignore_run_def)
  with i show ?thesis by (auto simp: insert_reservation_def others_def intro!: filter_True split: if_splits)
qed

section \<open>The contract of a settlement, and a guarded call\<close>

locale settlement =
  fixes settle :: "router \<Rightarrow> ending \<Rightarrow> model_call \<Rightarrow> string \<Rightarrow> result \<Rightarrow> core \<Rightarrow> core"
  assumes settles: "gw_has_policy gw \<Longrightarrow> res \<noteq> [] \<Longrightarrow> settles_call res (mc_run_id c) s (settle gw nd c res r s)"
    and nothing_held: "follows s (settle gw nd c [] r s)"
begin

text \<open>The provider is asked only for a call the limits permit; such a call adds one reservation, which is then
  reconciled, or the failure is logged; any other call leaves the reservations as they were.\<close>

lemma guarded:
  assumes "guarded_call (settle gw nd c) gw su nd answer c s = (reply, s')" "gw_has_policy gw"
    and "ledger_ok (core_tables s)" "limits_ok (en_limits (cs_engine s))" "facts_int64 (facts_of gw c)"
    and "label_pattern (mc_run_id c)" "\<forall>bs. su_reservation_bytes su = Some bs \<longrightarrow> bs \<noteq> []"
  shows "case reply of Answered _ \<Rightarrow> (\<exists>v t. t_reservations t = t_reservations (core_tables s) @ [v] \<and>
        permits (en_limits (cs_engine s)) (call_after (su_now su) (mc_run_id c) (facts_of gw c) t) \<and>
        others (rv_id v) (core_tables s') = t_reservations (core_tables s) \<and>
        (reconciled (rv_id v) (mc_run_id c) (core_tables s') \<or> settle_failed s s'))
    | _ \<Rightarrow> t_reservations (core_tables s') = t_reservations (core_tables s)"
proof -
  obtain x e where p: "preflight su (facts_of gw c) (cs_engine s) = (x, e)" by fastforce
  show ?thesis
  proof (cases "\<exists>d. x = Inr d \<and> de_decision d = ''allow''")
    case True
    then obtain d where d: "x = Inr d" "de_decision d = ''allow''" by blast
    let ?s1 = "s\<lparr>cs_engine := e\<rparr>" and ?res = "de_reservation_id d"
    from assms(1,2) p d have g: "reply = Answered (snd answer)" "s' = settle gw nd c ?res (fst answer) ?s1"
      by (simp_all add: guarded_call_def admit_def)
    show ?thesis
    proof (rule preflight_allowed [OF p [unfolded d(1)] d(2) assms(3-5)], goal_cases)
      case (1 res est cap r j1 j2)
      have rid: "de_run_id d = mc_run_id c" using 1(9) assms(6) by (simp add: facts_of_def Let_def)
      have ne: "?res \<noteq> []" using 1(5,8) assms(7) by (cases "su_reservation_bytes su") (auto simp: new_id_def hex_encode_def)
      from admitted_fresh [OF 1(6)] 1(5) obtain v where v: "t_reservations (tbl (en_journal e)) = t_reservations (core_tables s) @ [v]"
        "rv_id v = ?res" "others ?res (tbl (en_journal e)) = t_reservations (core_tables s)" by auto
      have st: "settles_call ?res (mc_run_id c) ?s1 s'" using settles [OF assms(2) ne] g(2) by simp
      have "others ?res (core_tables s') = t_reservations (core_tables s)" using st v(3) by (simp add: settles_call_def)
      moreover have "reconciled ?res (mc_run_id c) (core_tables s') \<or> settle_failed s s'"
        using st by (simp add: settles_call_def settle_failed_def)
      moreover have "permits (en_limits (cs_engine s)) (call_after (su_now su) (mc_run_id c) (facts_of gw c) (tbl (en_journal e)))"
        using 1(7) rid by simp
      ultimately show ?thesis using v(1,2) unfolding g(1) by (auto intro!: exI [of _ v])
    qed
  next
    case False
    with preflight_refused [OF p] have t: "tbl (en_journal e) = core_tables s" by blast
    show ?thesis
    proof (cases x)
      case (Inl err)
      with assms(1,2) p have g: "reply = PolicyUnavailable"
          "s' = settle gw nd c [] (transport_result\<lparr>re_error_code := ''policy_unavailable''\<rparr>) (s\<lparr>cs_engine := e\<rparr>)"
        by (simp_all add: guarded_call_def admit_def)
      with nothing_held [of "s\<lparr>cs_engine := e\<rparr>" gw nd c] t show ?thesis by (simp add: follows_def)
    next
      case (Inr d)
      have "de_decision d = ''block''" using preflight_decides p Inr False by blast
      with assms(1,2) p Inr obtain notice notify s2 where
        f: "finalize_policy_block gw nd c d (s\<lparr>cs_engine := e\<rparr>) = ((notice, notify), s2)" "reply = PolicyBlocked d"
          "cs_engine s' = cs_engine s2"
        by (auto simp: guarded_call_def admit_def split: prod.splits)
      with finalize_reservations [OF f(1)] t show ?thesis by simp
    qed
  qed
qed

end

lemma follows_counted: "follows s (chat_counted gw nd c res r s)"
  by (auto simp: chat_counted_def Let_def record_tool_calls_reservations record_provider_outcome_reservations intro!: follows_attempt)

lemma settle_chat_settles:
  assumes "gw_has_policy gw" "res \<noteq> []"
  shows "settles_call res (mc_run_id c) s (settle_chat gw nd c res r s)"
proof -
  let ?s2 = "chat_counted gw nd c res r s" and ?cost = "cost_text (chat_cost gw (mc_provider c) r)"
  let ?b = "build (nd_event_bytes nd) (attempt_of gw c r None (chat_cost gw (mc_provider c) r) (nd_ended nd))"
  note f = follows_counted [of s gw nd c res r]
  note pf = settle_postflight_settles [OF _ assms]
  consider (silent) "settle_chat gw nd c res r s = settle_postflight gw nd c res r ?cost ?s2"
    | (broken) code where "settle_chat gw nd c res r s = settle_postflight gw nd c res r ?cost (log_error code ?s2)"
    | (joint) ev where "settle_chat gw nd c res r s = attempt_op ''journal_write_failed'' (on_journal
        (postflight_and_append (nd_now_day nd) (outcome_of (outcome_facts_of c res r ?cost)) ev [] ?cost)) (save_contents gw c r ev ?s2)"
    | (apart) ev where "settle_chat gw nd c res r s = attempt_op ''journal_write_failed''
        (record_by (gw_recorder gw) (nd_wait nd) (nd_now_append nd) ev) (settle_postflight gw nd c res r ?cost (save_contents gw c r ev ?s2))"
  proof (cases "gw_recorder gw = NoRecorder")
    case True
    then show thesis by (intro silent) (simp add: settle_chat_def Let_def)
  next
    case False
    show thesis
    proof (cases "rbind ?b prepare")
      case (Inl err)
      with False show thesis
        by (cases ?b) (auto simp: settle_chat_def Let_def rbind_def intro: broken)
    next
      case (Inr ev)
      with False assms show thesis
        by (cases ?b; cases "gw_recorder gw = JournalRecorder")
          (auto simp: settle_chat_def Let_def rbind_def intro: joint apart)
    qed
  qed
  then show ?thesis
  proof cases
    case silent
    then show ?thesis using pf [OF f] by simp
  next
    case broken
    then show ?thesis using pf [OF follows_log [OF f]] by simp
  next
    case joint
    then show ?thesis using settle_append_settles [OF follows_save_contents [OF f]] by simp
  next
    case (apart ev)
    note p = pf [OF follows_save_contents [OF f, of gw c r ev], of c nd r ?cost]
    show ?thesis unfolding apart by (rule settles_then_follows [OF p [THEN conjunct1] p [THEN conjunct2]]) (rule follows_record [OF follows_refl])
  qed
qed

lemma settle_chat_nothing: "follows s (settle_chat gw nd c [] r s)"
  by (auto simp: settle_chat_def settle_postflight_def Let_def follows_counted
      intro!: follows_log follows_record follows_save_contents split: sum.split)

interpretation chats: settlement settle_chat
  by unfold_locales (simp_all add: settle_chat_settles settle_chat_nothing)

section \<open>Calls of the chat endpoint\<close>

text \<open>C25: A chat call reaches its provider only with a reservation the limits permit. When the provider was asked,
  exactly one reservation was added, at an admission where all limits held with it, and it is reconciled by the end of
  the handler, or the log has an entry that says so. When the provider was not asked, whether for a rejected
  request, an error of the engine or a block, the reply and the state are those of any provider, and no reservation
  was added; a rejected request changes nothing at all.\<close>

theorem chat_call_is_guarded:
  assumes "chat gw parse validate form ad send ids su nd started i rq body s = (reply, s')" "gw_has_policy gw"
    and "ledger_ok (core_tables s)" "limits_ok (en_limits (cs_engine s))"
    and "is_int64 (gr_est_input (gw_guardrails gw))" "is_int64 (gr_est_output (gw_guardrails gw))"
    and "ri_run_id i = [] \<or> label_pattern (ri_run_id i)" "\<forall>bs. id_run_bytes ids = Some bs \<longrightarrow> length bs = 16"
    and "\<forall>bs. su_reservation_bytes su = Some bs \<longrightarrow> length bs = 16"
  shows "case reply of
      Answered _ \<Rightarrow> (\<exists>c ws q v t. chat_prepare gw parse validate form ids started i rq body = Inr (c, ws, q) \<and>
        t_reservations t = t_reservations (core_tables s) @ [v] \<and>
        permits (en_limits (cs_engine s)) (call_after (su_now su) (mc_run_id c) (facts_of gw c) t) \<and>
        others (rv_id v) (core_tables s') = t_reservations (core_tables s) \<and>
        (reconciled (rv_id v) (mc_run_id c) (core_tables s') \<or> settle_failed s s'))
    | Rejected _ \<Rightarrow> s' = s
    | _ \<Rightarrow> t_reservations (core_tables s') = t_reservations (core_tables s) \<and>
        (\<forall>ad' send'. chat gw parse validate form ad' send' ids su nd started i rq body s = (reply, s'))"
proof (cases "chat_prepare gw parse validate form ids started i rq body")
  case (Inl e)
  with assms(1) show ?thesis by (auto simp: chat_def)
next
  case (Inr p)
  obtain c ws q where p: "p = (c, ws, q)" by (cases p)
  have rid: "run_of (id_run_bytes ids) i rq = Inr (mc_run_id c)"
    using Inr p by (auto simp: chat_prepare_def split: sum.splits option.splits if_splits)
  have label: "label_pattern (mc_run_id c)"
    using run_of_label [OF rid] assms(7,8) by blast
  have i64: "facts_int64 (facts_of gw c)"
    using assms(5,6) by (auto simp: facts_int64_def facts_of_def Let_def tokens_or_0_def is_int64_def min_int64_def max_int64_def)
  have g: "guarded_call (settle_chat gw nd c) gw su nd (chat_answer ad ws (send q)) c s = (reply, s')"
    using assms(1) Inr p by (simp add: chat_def)
  have ne: "\<forall>bs. su_reservation_bytes su = Some bs \<longrightarrow> bs \<noteq> []" using assms(9) by auto
  note r = chats.guarded [OF g assms(2-4) i64 label ne]
  have same: "chat gw parse validate form ad' send' ids su nd started i rq body s = (reply, s')"
    if "\<And>a. reply \<noteq> Answered a" for ad' :: "'e adapter" and send'
    using guarded_call_unanswered [OF g that, of "chat_answer ad' ws (send' q)"] Inr p by (simp add: chat_def)
  show ?thesis
  proof (cases reply)
    case (Rejected e)
    with g show ?thesis by (simp add: guarded_call_def split: prod.splits admission.splits)
  next
    case (Answered a)
    with r Inr p show ?thesis by auto
  qed (use r same in auto)
qed

text \<open>A gateway with one model, and what its calls take from outside.\<close>

definition sample_route :: route where
  "sample_route = \<lparr>rt_adapter = OpenAICompatible ''u'', rt_key_env = [], rt_provider = ''openai'', rt_capabilities = None,
     rt_base_url = [], rt_type = [], rt_backend = []\<rparr>"

definition sample_router :: "string \<Rightarrow> router" where
  "sample_router provider = \<lparr>gw_models = [''gpt-4o'' \<mapsto> sample_route\<lparr>rt_provider := provider\<rparr>], gw_getenv = (\<lambda>_. []),
     gw_recorder = JournalRecorder, gw_installation = ''i'', gw_has_policy = True,
     gw_guardrails = \<lparr>gr_max_requests = 5, gr_max_cost = ''1.50'', gr_max_input = 0, gr_max_output = 0, gr_max_total = 1000,
       gr_max_duration = 0, gr_max_tools = 0, gr_providers = [''openai'', ''anthropic''], gr_models = [], gr_tools = [],
       gr_est_cost = ''0.25'', gr_est_input = 10, gr_est_output = 20, gr_max_calls_day = 4, gr_max_cost_day = []\<rparr>,
     gw_privacy = \<lparr>pv_prompts = False, pv_responses = False, pv_tool_arguments = False\<rparr>,
     gw_pricing = \<lparr>pg_version = ''v1'', pg_currency = ''USD'', pg_models = []\<rparr>, gw_prices = new_price_registry,
     gw_policy_blocks = True, gw_notifier = True\<rparr>"

definition sample_identifiers :: identifiers where
  "sample_identifiers = \<lparr>id_run_bytes = None, id_trace_bytes = Some ''0123456789abcdef'', id_span_bytes = Some ''01234567''\<rparr>"

definition sample_ending :: ending where
  "sample_ending = \<lparr>nd_ctx_calls = None, nd_now_calls = 2, nd_ctx_outcome = None, nd_now_outcome = 2, nd_now_day = 2, nd_ended = 3,
     nd_event_bytes = Some ''0123456789abcdef'', nd_now_append = 3, nd_wait = Waited\<rparr>"

definition sample_selector :: selector where
  "sample_selector = \<lparr>sl_model = ''gpt-4o'', sl_stream = False, sl_tools = [], sl_prompt = []\<rparr>"

definition sample_answer :: "unit adapter" where
  "sample_answer = \<lparr>ad_status = (\<lambda>_. 200), ad_stream = (\<lambda>_. (zero_result, None)),
     ad_translate = (\<lambda>_. (zero_result\<lparr>re_model := ''gpt-4o'', re_input := Some 7, re_output := Some 5, re_usage_source := ''provider'',
       re_status := ''success''\<rparr>, None))\<rparr>"

definition sample_core :: "journal \<Rightarrow> core" where
  "sample_core j = \<lparr>cs_engine = (engine_of [])\<lparr>en_journal := j\<rparr>, cs_registry = wd_registry live_world, cs_log = []\<rparr>"

definition sample_chat_call :: "string \<Rightarrow> request_identity \<Rightarrow> core \<Rightarrow> chat_reply call_reply \<times> core" where
  "sample_chat_call provider i = chat (sample_router provider) (\<lambda>_. Some sample_selector) (\<lambda>_ _. Inr ()) (\<lambda>_ _ key. Inr key) sample_answer
     (\<lambda>_. Response ()) sample_identifiers sample_surroundings sample_ending 1 i (sample_request\<lparr>hq_run_id := ''run-1''\<rparr>) (BodyRead ())"

lemma sample_chat_runs:
  "(case sample_chat_call ''openai'' no_identity (sample_core (new_journal ''i'')) of (reply, s) \<Rightarrow>
     reply = Answered Relayed \<and> cs_log s = [] \<and> map (\<lambda>v. (rv_run_id v, rv_reconciled v, rv_input v)) (t_reservations (core_tables s)) = [(''run-1'', True, 7)]
     \<and> map er_status (t_events (core_tables s)) = [''success''])"
  by code_simp

lemma chat_call_is_guarded_witness:
  "\<exists>v :: reservation. reconciled (rv_id v) ''run-1'' (core_tables (snd (sample_chat_call ''openai'' no_identity (sample_core (new_journal ''i'')))))"
proof -
  obtain reply s where c: "sample_chat_call ''openai'' no_identity (sample_core (new_journal ''i'')) = (reply, s)" by fastforce
  with sample_chat_runs have r: "reply = Answered Relayed" "cs_log s = []" by auto
  have l: "ledger_ok (core_tables (sample_core (new_journal ''i'')))" "limits_ok (en_limits (cs_engine (sample_core (new_journal ''i''))))"
    by (simp_all add: sample_core_def engine_of_sel new_journal_def ledger_ok_empty sample_limits_ok)
  have g: "is_int64 (gr_est_input (gw_guardrails (sample_router ''openai'')))" "is_int64 (gr_est_output (gw_guardrails (sample_router ''openai'')))"
    by code_simp+
  have p: "gw_has_policy (sample_router ''openai'')" by (simp add: sample_router_def)
  have i: "ri_run_id no_identity = [] \<or> label_pattern (ri_run_id no_identity)" by (simp add: no_identity_def)
  have b: "\<forall>bs. id_run_bytes sample_identifiers = Some bs \<longrightarrow> length bs = 16" by (simp add: sample_identifiers_def)
  have rb: "\<forall>bs. su_reservation_bytes sample_surroundings = Some bs \<longrightarrow> length bs = 16" by (simp add: sample_surroundings_def)
  from chat_call_is_guarded [OF c [unfolded sample_chat_call_def r(1)] p l g i b rb, unfolded call_reply.case]
  obtain k :: model_call and ws q and v :: reservation where k: "chat_prepare (sample_router ''openai'') (\<lambda>_. Some sample_selector) (\<lambda>_ _. Inr ()) (\<lambda>_ _ key. Inr key)
      sample_identifiers 1 no_identity (sample_request\<lparr>hq_run_id := ''run-1''\<rparr>) (BodyRead ()) = Inr (k, ws, q)"
    and v: "reconciled (rv_id v) (mc_run_id k) (core_tables s) \<or> settle_failed (sample_core (new_journal ''i'')) s"
    by blast
  have "run_of None no_identity (sample_request\<lparr>hq_run_id := ''run-1''\<rparr>) = Inr ''run-1''" by code_simp
  with k have "mc_run_id k = ''run-1''"
    by (auto simp: chat_prepare_def sample_identifiers_def split: sum.splits option.splits if_splits)
  with v r(2) c show ?thesis by (auto simp: settle_failed_def)
qed

section \<open>Blocked calls\<close>

text \<open>How a supervised block ends: its row and its event are written together, or the run was blocked before.\<close>

lemma supervised_write_block:
  assumes "write_block gw nd c d e = (x, e')" "mc_supervised c" "gw_policy_blocks gw" "executions_ok (tbl (en_journal e))"
  shows "case x of
      Inr _ \<Rightarrow> (\<exists>ev. ev_status ev = ''policy_block'' \<and> block_recorded ev (block_notice gw c d (nd_ended nd)) (tbl (en_journal e)) (tbl (en_journal e')))
    | Inl err \<Rightarrow> tbl (en_journal e') = tbl (en_journal e) \<and> (errors_is err ErrPolicyBlockRecorded \<longrightarrow>
        (\<exists>row. select_execution (mc_run_id c) (tbl (en_journal e)) = Some row \<and> ex_state row = StateBlocked))"
proof (cases "rbind (build (nd_event_bytes nd) (block_attempt gw c d (nd_ended nd))) prepare")
  case (Inl err)
  then have "plain_error err" by (elim plain_bind build_error prepare_error)
  with Inl assms(1) show ?thesis by (auto simp: write_block_def plain_error_def)
next
  case (Inr ev)
  then have "build (nd_event_bytes nd) (block_attempt gw c d (nd_ended nd)) = Inr ev"
    by (auto simp: rbind_Inr_iff prepare_Inr_iff)
  then have st: "ev_status ev = ''policy_block''"
    by (auto simp: build_def rbind_Inr_iff built_event_def block_attempt_def attempt_of_def unpriced_def split: if_splits)
  obtain j' where r: "record_policy_block ev (block_notice gw c d (nd_ended nd)) (en_journal e) = (x, j')" "en_journal e' = j'"
    using assms(1-3) Inr by (auto simp: write_block_def on_journal_def split: prod.splits)
  have n: "pb_run_id (block_notice gw c d (nd_ended nd)) = mc_run_id c" by (simp add: block_notice_def)
  show ?thesis
  proof (cases x)
    case (Inl err)
    note rec = record_policy_block_recorded [OF _ _ assms(4), of ev "block_notice gw c d (nd_ended nd)" err "en_journal e'", unfolded n]
    from Inl r rec record_policy_block_error show ?thesis by auto
  next
    case (Inr u)
    with r record_policy_block_run(1) st show ?thesis by auto
  qed
qed

text \<open>C26: A blocked call of a supervised run is never lost. Either the run is marked blocked and the event of the
  block is in the journal, both in one step, and the supervisor is told; or nothing was written, and then the run was
  blocked already, or the supervisor is told that the block could not be recorded and the log says so. No
  delivery for the control plane is ever queued for such a block.\<close>

theorem supervised_block_is_reported:
  assumes "chat gw parse validate form ad send ids su nd started i rq body s = (PolicyBlocked d, s')" "ri_supervised i"
    and "gw_has_policy gw" "gw_policy_blocks gw" "gw_notifier gw" "executions_ok (core_tables s)"
  shows "\<exists>c. mc_supervised c \<and> run_of (id_run_bytes ids) i rq = Inr (mc_run_id c) \<and> t_outbox (core_tables s') = t_outbox (core_tables s) \<and>
    (let notice = block_notice gw c d (nd_ended nd) in
       (\<exists>ev. ev_status ev = ''policy_block'' \<and> block_recorded ev notice (core_tables s) (core_tables s') \<and>
          cs_registry s' = notify_policy_block notice (cs_registry s) \<and> cs_log s' = cs_log s)
     \<or> core_tables s' = core_tables s \<and> cs_registry s' = cs_registry s \<and>
         (\<exists>row. select_execution (mc_run_id c) (core_tables s) = Some row \<and> ex_state row = StateBlocked)
     \<or> core_tables s' = core_tables s \<and>
         cs_registry s' = notify_policy_block (notice\<lparr>pb_persistence_failed := True\<rparr>) (cs_registry s) \<and>
         cs_log s' = cs_log s @ [''policy_block_persistence_failed''])"
proof -
  obtain c ws q where c: "chat_prepare gw parse validate form ids started i rq body = Inr (c, ws, q)"
    "guarded_call (settle_chat gw nd c) gw su nd (chat_answer ad ws (send q)) c s = (PolicyBlocked d, s')"
    using assms(1) by (auto simp: chat_def split: sum.splits)
  have sup: "mc_supervised c" "run_of (id_run_bytes ids) i rq = Inr (mc_run_id c)"
    using c(1) assms(2) by (auto simp: chat_prepare_def split: sum.splits option.splits if_splits)
  obtain e where p: "preflight su (facts_of gw c) (cs_engine s) = (Inr d, e)" and bl: "de_decision d = ''block''"
    and f: "(case finalize_policy_block gw nd c d (s\<lparr>cs_engine := e\<rparr>) of ((notice, notify), s2) \<Rightarrow>
      if notify then s2\<lparr>cs_registry := notify_policy_block notice (cs_registry s2)\<rparr> else s2) = s'"
    using c(2) assms(3,5) sup(1) by (auto simp: guarded_call_def admit_def split: prod.splits sum.splits if_splits)
  have t: "tbl (en_journal e) = core_tables s" using preflight_refused [OF p] bl by simp
  obtain x e2 where w: "write_block gw nd c d e = (x, e2)" by fastforce
  note b = supervised_write_block [OF w sup(1) assms(4)]
  show ?thesis
  proof (cases x)
    case (Inl err)
    with b assms(6) t f w sup show ?thesis
      by (intro exI [of _ c]) (auto simp: finalize_writes log_error_def Let_def split: if_splits)
  next
    case (Inr u)
    with b assms(6) t f w sup show ?thesis
      by (intro exI [of _ c]) (auto simp: finalize_writes Let_def block_recorded_def)
  qed
qed

lemma sample_block_runs:
  "(case sample_chat_call ''mistral'' \<lparr>ri_run_id = ''r'', ri_configured_key = False, ri_supervised = True\<rparr> (sample_core started_journal) of (reply, s) \<Rightarrow>
     (case reply of PolicyBlocked d \<Rightarrow> de_reason d = ''provider_not_allowed'' | _ \<Rightarrow> False) \<and>
     map ex_state (t_executions (core_tables s)) = [StateBlocked])"
  by code_simp

lemma supervised_block_is_reported_witness:
  "\<exists>d s c. sample_chat_call ''mistral'' \<lparr>ri_run_id = ''r'', ri_configured_key = False, ri_supervised = True\<rparr> (sample_core started_journal) = (PolicyBlocked d, s) \<and>
     cs_registry s = notify_policy_block (block_notice (sample_router ''mistral'') c d 3) (wd_registry live_world)"
proof -
  let ?i = "\<lparr>ri_run_id = ''r'', ri_configured_key = False, ri_supervised = True\<rparr>" and ?s = "sample_core started_journal"
  obtain reply s where c: "sample_chat_call ''mistral'' ?i ?s = (reply, s)" by fastforce
  with sample_block_runs obtain d where r: "reply = PolicyBlocked d" "map ex_state (t_executions (core_tables s)) = [StateBlocked]"
    by (auto split: call_reply.splits)
  have st: "map ex_state (t_executions (core_tables ?s)) = [StateRunning]" by code_simp
  have "executions_ok (core_tables ?s)" using sample_journals_ok(1) by (simp add: sample_core_def)
  from supervised_block_is_reported [OF c [unfolded r(1) sample_chat_call_def] _ _ _ _ this] r st
  obtain k where "cs_registry s = notify_policy_block (block_notice (sample_router ''mistral'') k d (nd_ended sample_ending)) (cs_registry ?s)"
    by (auto simp: sample_router_def Let_def)
  then show ?thesis using c r(1) by (auto simp: sample_ending_def sample_core_def)
qed

end
