(* ===== verification/Json_Value.thy ===== *)
theory Json_Value
  imports Go_Strings
begin

text \<open>
  JSON values and what \<open>encoding/json\<close> makes of them: the decoding of a value into a string, a list or an object
  and the fields of a struct, whose names are matched without regard to case. The text of a value is not
  modelled. Of two fields with one name the later one wins.
\<close>

datatype jvalue = VNull | VBool bool | VInt int | VFloat string | VString string | VArray "jvalue list"
  | VObject "(string \<times> jvalue) list"

text \<open>\<open>Unmarshal\<close> into a variable that holds its zero value; \<open>null\<close> leaves it as it is.\<close>

definition un_string :: "jvalue \<Rightarrow> string res" where
  "un_string v = (case v of VString s \<Rightarrow> Inr s | VNull \<Rightarrow> Inr [] | _ \<Rightarrow> Inl (Errorf ''json: cannot unmarshal''))"

definition un_array :: "jvalue \<Rightarrow> jvalue list res" where
  "un_array v = (case v of VArray xs \<Rightarrow> Inr xs | VNull \<Rightarrow> Inr [] | _ \<Rightarrow> Inl (Errorf ''json: cannot unmarshal''))"

text \<open>The fields of a struct: \<open>null\<close> leaves all of them as they are.\<close>

definition un_struct :: "jvalue \<Rightarrow> (string \<times> jvalue) list res" where
  "un_struct v = (case v of VObject kvs \<Rightarrow> Inr kvs | VNull \<Rightarrow> Inr [] | _ \<Rightarrow> Inl (Errorf ''json: cannot unmarshal''))"

definition struct_field :: "(string \<times> jvalue) list \<Rightarrow> string \<Rightarrow> jvalue option" where
  "struct_field kvs name = map_option snd (first_row (\<lambda>(k, v). equal_fold k name) (rev kvs))"

definition string_field :: "(string \<times> jvalue) list \<Rightarrow> string \<Rightarrow> string res" where
  "string_field kvs name = (case struct_field kvs name of None \<Rightarrow> Inr [] | Some v \<Rightarrow> un_string v)"

definition array_field :: "(string \<times> jvalue) list \<Rightarrow> string \<Rightarrow> jvalue list res" where
  "array_field kvs name = (case struct_field kvs name of None \<Rightarrow> Inr [] | Some v \<Rightarrow> un_array v)"

text \<open>The values of a list, up to the first error.\<close>

fun each :: "('a \<Rightarrow> 'b res) \<Rightarrow> 'a list \<Rightarrow> 'b list res" where
  "each f [] = Inr []"
| "each f (x # xs) = rbind (f x) (\<lambda>y. rbind (each f xs) (\<lambda>ys. Inr (y # ys)))"

lemma each_Inr: "each f xs = Inr ys \<longleftrightarrow> list_all2 (\<lambda>x y. f x = Inr y) xs ys"
proof (induction xs arbitrary: ys)
  case (Cons x xs)
  show ?case by (cases ys) (auto simp: rbind_Inr_iff Cons.IH)
qed auto

lemma each_agree:
  "each f xs = Inr ys \<Longrightarrow> each g xs = Inr zs \<Longrightarrow> (\<And>x y z. f x = Inr y \<Longrightarrow> g x = Inr z \<Longrightarrow> R y z) \<Longrightarrow> list_all2 R ys zs"
  by (induction xs arbitrary: ys zs) (auto simp: rbind_Inr_iff)

lemma first_row_rev_key: "first_row (\<lambda>(k, v). k = a) xs = map_option (Pair a) (map_of xs a)"
  by (induction xs) auto

text \<open>Where the keys are known in their exact spelling, a field of a struct is a field of the object.\<close>

lemma struct_field_exact:
  assumes "\<forall>(k, v) \<in> set kvs. equal_fold k name \<longrightarrow> k = name"
  shows "struct_field kvs name = map_of (rev kvs) name"
proof -
  have "first_row (\<lambda>(k, v). equal_fold k name) xs = first_row (\<lambda>(k, v). k = name) xs"
    if "\<forall>(k, v) \<in> set xs. equal_fold k name \<longrightarrow> k = name" for xs :: "(string \<times> jvalue) list"
    using that by (induction xs) (auto simp: equal_fold_def)
  from this [of "rev kvs"] assms show ?thesis
    by (simp add: struct_field_def first_row_rev_key option.map_comp comp_def option.map_ident)
qed

end
