(* ===== verification/Responses_Chat.thy ===== *)
theory Responses_Chat
  imports Json_Value Sse "HOL-Library.AList"
begin

text \<open>
  \<open>internal/gateway/responses_chat.go\<close> and the parser of \<open>responses.go\<close>: a request of the Responses API as a
  chat request, and the answer of the chat API, whole or streamed, as a response. Strings are decoded as in
  \<open>Json_Value\<close>; whether a text is valid JSON is a parameter.
\<close>

section \<open>The request\<close>

text \<open>\<open>rq_\<close> fields of type \<open>jvalue option\<close> are raw messages; \<open>None\<close> is a field that is not there.\<close>

record responses_request =
  rq_model :: string
  rq_input :: "jvalue option"
  rq_stream :: bool
  rq_store :: "bool option"
  rq_background :: bool
  rq_previous :: string
  rq_tools :: "jvalue list"
  rq_instructions :: "jvalue option"
  rq_choice :: "jvalue option"
  rq_parallel :: "bool option"
  rq_max_tokens :: "int option"
  rq_reasoning :: "jvalue option"
  rq_text :: "jvalue option"
  rq_include :: "jvalue option"
  rq_metadata :: "jvalue option"
  rq_truncation :: string
  rq_temperature :: "jvalue option"
  rq_top_p :: "jvalue option"
  rq_user :: string
  rq_cache_key :: string
  rq_safety :: string
  rq_tier :: string
  rq_client_metadata :: "jvalue option"

record tool_decl =
  td_type :: string
  td_name :: string
  td_members :: "string list"

definition member_name :: "jvalue \<Rightarrow> string res" where
  "member_name v = rbind (un_struct v) (\<lambda>kvs. string_field kvs ''name'')"

definition decode_tool :: "jvalue \<Rightarrow> tool_decl res" where
  "decode_tool v = rbind (un_struct v) (\<lambda>kvs. rbind (string_field kvs ''type'') (\<lambda>ty. rbind (string_field kvs ''name'') (\<lambda>nm.
     rbind (array_field kvs ''tools'') (\<lambda>ms. rbind (each member_name ms) (\<lambda>names.
     Inr \<lparr>td_type = ty, td_name = nm, td_members = names\<rparr>)))))"

text \<open>The names the policy is asked about.\<close>

definition tool_names :: "jvalue \<Rightarrow> string list res" where
  "tool_names v = rbind (decode_tool v) (\<lambda>t.
     if td_type t = ''function'' then (if td_name t = [] then Inl (Errorf ''unnamed function tool'') else Inr [td_name t])
     else if td_type t = ''namespace'' then
       (if td_name t = [] \<or> td_members t = [] then Inl (Errorf ''invalid namespace tool'')
        else if [] \<in> set (td_members t) then Inl (Errorf ''unnamed namespace tool'')
        else Inr (map (\<lambda>m. td_name t @ ''.'' @ m) (td_members t)))
     else if td_type t = ''web_search'' then Inr [''web_search'']
     else Inl (Errorf ''unsupported tool type''))"

definition parse_responses_request :: "('b \<Rightarrow> responses_request res) \<Rightarrow> ('b \<Rightarrow> bool) \<Rightarrow> 'b \<Rightarrow> (responses_request \<times> string list) res" where
  "parse_responses_request decode trailing body = rbind (decode body) (\<lambda>rq.
     if trailing body then Inl (Errorf ''extra JSON value'')
     else if rq_model rq = [] \<or> rq_input rq = None \<or> rq_input rq = Some VNull then Inl (Errorf ''model and input are required'')
     else if rq_background rq \<or> rq_previous rq \<noteq> [] then Inl (Errorf ''stateful and background requests are unsupported'')
     else if rq_store rq = Some True then Inl (Errorf ''store=true is unsupported'')
     else if (case rq_max_tokens rq of None \<Rightarrow> False | Some n \<Rightarrow> n < 0) then Inl (Errorf ''negative token limit'')
     else rbind (each tool_names (rq_tools rq)) (\<lambda>ns. Inr (rq, concat ns)))"

section \<open>Reading objects\<close>

definition chat_object :: "string list \<Rightarrow> jvalue \<Rightarrow> (string \<rightharpoonup> jvalue) res" where
  "chat_object allowed v = (case v of
     VObject kvs \<Rightarrow> (if \<exists>(k, x) \<in> set kvs. k \<notin> set allowed then Inl (Errorf ''unsupported field'') else Inr (map_of (rev kvs)))
   | _ \<Rightarrow> Inl (Errorf ''expected object''))"

definition chat_string :: "(string \<rightharpoonup> jvalue) \<Rightarrow> string \<Rightarrow> string res" where
  "chat_string fs key = (case fs key of None \<Rightarrow> Inl (Errorf ''invalid field'') | Some v \<Rightarrow> un_string v)"

definition content_part :: "jvalue \<Rightarrow> string res" where
  "content_part v = rbind (chat_object [''type'', ''text''] v) (\<lambda>fs. rbind (chat_string fs ''type'') (\<lambda>kind.
     if kind \<noteq> ''input_text'' \<and> kind \<noteq> ''output_text'' then Inl (Errorf ''unsupported content part'') else chat_string fs ''text''))"

definition response_content :: "jvalue option \<Rightarrow> string res" where
  "response_content raw = (case raw of None \<Rightarrow> Inl (Errorf ''missing content'')
   | Some v \<Rightarrow> (case un_string v of Inr s \<Rightarrow> Inr s
     | Inl _ \<Rightarrow> (case un_array v of Inl _ \<Rightarrow> Inl (Errorf ''unsupported content'')
       | Inr parts \<Rightarrow> rbind (each content_part parts) (\<lambda>ts. Inr (concat ts)))))"

definition check_completed_item :: "(string \<rightharpoonup> jvalue) \<Rightarrow> unit res" where
  "check_completed_item fs =
     (if fs ''id'' \<noteq> None \<and> (case chat_string fs ''id'' of Inl _ \<Rightarrow> True | Inr i \<Rightarrow> i = []) then Inl (Errorf ''invalid item id'')
      else if fs ''status'' \<noteq> None \<and> chat_string fs ''status'' \<noteq> Inr ''completed'' then Inl (Errorf ''unsupported item status'')
      else Inr ())"

section \<open>Names of namespace members\<close>

text \<open>\<open>strings.Cut\<close> at a separator of one or more characters.\<close>

fun cut_at :: "string \<Rightarrow> string \<Rightarrow> (string \<times> string) option" where
  "cut_at sep s = (if has_prefix s sep then Some ([], drop (length sep) s)
     else (case s of [] \<Rightarrow> None | c # cs \<Rightarrow> map_option (\<lambda>(a, b). (c # a, b)) (cut_at sep cs)))"

definition encode_namespace_call :: "string \<Rightarrow> string" where
  "encode_namespace_call name = (case cut_at ''.'' name of None \<Rightarrow> name
     | Some (space, member) \<Rightarrow> ''virgil_ns_'' @ space @ ''__'' @ member)"

definition decode_namespace_call :: "string \<Rightarrow> string" where
  "decode_namespace_call name =
     (if has_prefix name ''virgil_ns_''
      then (case cut_at ''__'' (trim_prefix name ''virgil_ns_'') of None \<Rightarrow> name | Some (space, member) \<Rightarrow> space @ ''.'' @ member)
      else name)"

section \<open>Messages\<close>

record call_out =
  ca_id :: string
  ca_name :: string
  ca_args :: string

text \<open>\<open>cg_content\<close> is \<open>None\<close> for the message of a call.\<close>

record chat_message =
  cg_role :: string
  cg_content :: "string option"
  cg_call :: "call_out option"
  cg_call_id :: string

definition plain_message :: "string \<Rightarrow> string \<Rightarrow> chat_message" where
  "plain_message role content = \<lparr>cg_role = role, cg_content = Some content, cg_call = None, cg_call_id = []\<rparr>"

definition any_field :: "(string \<rightharpoonup> jvalue) \<Rightarrow> string list \<Rightarrow> bool" where
  "any_field fs keys \<longleftrightarrow> (\<exists>k \<in> set keys. fs k \<noteq> None)"

definition message_item :: "(string \<rightharpoonup> jvalue) \<Rightarrow> chat_message res" where
  "message_item fs =
     (if any_field fs [''call_id'', ''name'', ''arguments'', ''output''] then Inl (Errorf ''unsupported message field'')
      else rbind (check_completed_item fs) (\<lambda>_. rbind (chat_string fs ''role'') (\<lambda>role.
        if role \<notin> set [''user'', ''system'', ''developer'', ''assistant''] then Inl (Errorf ''unsupported role'')
        else rbind (response_content (fs ''content'')) (\<lambda>content. Inr (plain_message role content)))))"

definition call_item :: "(string \<Rightarrow> bool) \<Rightarrow> (string \<rightharpoonup> jvalue) \<Rightarrow> chat_message res" where
  "call_item valid fs =
     (if any_field fs [''role'', ''content'', ''output''] then Inl (Errorf ''unsupported function call field'')
      else rbind (check_completed_item fs) (\<lambda>_.
        case (chat_string fs ''call_id'', chat_string fs ''name'', chat_string fs ''arguments'') of
          (Inr i, Inr name, Inr args) \<Rightarrow>
            (if i = [] \<or> name = [] \<or> \<not> valid args then Inl (Errorf ''invalid function call'')
             else Inr \<lparr>cg_role = ''assistant'', cg_content = None,
               cg_call = Some \<lparr>ca_id = i, ca_name = encode_namespace_call name, ca_args = args\<rparr>, cg_call_id = []\<rparr>)
        | _ \<Rightarrow> Inl (Errorf ''invalid function call'')))"

definition output_item :: "(string \<rightharpoonup> jvalue) \<Rightarrow> chat_message res" where
  "output_item fs =
     (if any_field fs [''role'', ''content'', ''name'', ''arguments''] then Inl (Errorf ''unsupported function output field'')
      else rbind (check_completed_item fs) (\<lambda>_. case (chat_string fs ''call_id'', response_content (fs ''output'')) of
          (Inr i, Inr content) \<Rightarrow> (if i = [] then Inl (Errorf ''invalid function output'')
            else Inr \<lparr>cg_role = ''tool'', cg_content = Some content, cg_call = None, cg_call_id = i\<rparr>)
        | _ \<Rightarrow> Inl (Errorf ''invalid function output'')))"

definition input_item :: "(string \<Rightarrow> bool) \<Rightarrow> jvalue \<Rightarrow> chat_message res" where
  "input_item valid v = rbind (chat_object [''type'', ''role'', ''content'', ''call_id'', ''name'', ''arguments'', ''output'', ''id'', ''status''] v) (\<lambda>fs.
     rbind (if fs ''type'' = None then Inr [] else chat_string fs ''type'') (\<lambda>kind.
     if kind = [] \<or> kind = ''message'' then message_item fs
     else if kind = ''function_call'' then call_item valid fs
     else if kind = ''function_call_output'' then output_item fs
     else Inl (Errorf ''unsupported input item'')))"

definition input_messages :: "(string \<Rightarrow> bool) \<Rightarrow> jvalue option \<Rightarrow> chat_message list res" where
  "input_messages valid raw = (case raw of None \<Rightarrow> Inl (Errorf ''unsupported input'')
   | Some v \<Rightarrow> (case un_string v of Inr prompt \<Rightarrow> Inr [plain_message ''user'' prompt]
     | Inl _ \<Rightarrow> (case un_array v of Inl _ \<Rightarrow> Inl (Errorf ''unsupported input'')
       | Inr items \<Rightarrow> (if items = [] then Inl (Errorf ''unsupported input'') else each (input_item valid) items))))"

definition text_of :: "chat_message \<Rightarrow> string" where
  "text_of m = (case cg_content m of None \<Rightarrow> [] | Some s \<Rightarrow> s)"

definition append_text :: "string \<Rightarrow> chat_message \<Rightarrow> chat_message" where
  "append_text s m = m\<lparr>cg_content := Some (text_of m @ [lf, lf] @ s)\<rparr>"

text \<open>One leading system message, and no two user messages in a row.\<close>

fun normalize :: "chat_message list \<Rightarrow> chat_message list \<Rightarrow> chat_message list res" where
  "normalize [] acc = Inr acc"
| "normalize (m # ms) acc =
     (if cg_role m = ''developer'' \<or> cg_role m = ''system'' then
        (if acc \<noteq> [] \<and> cg_role (last acc) \<noteq> ''system'' then Inl (Errorf ''system guidance after conversation start'')
         else normalize ms (if acc = [] then [plain_message ''system'' (text_of m)] else append_text (text_of m) (hd acc) # tl acc))
      else if cg_role m = ''user'' \<and> acc \<noteq> [] \<and> cg_role (last acc) = ''user''
        then normalize ms (butlast acc @ [append_text (text_of m) (last acc)])
      else normalize ms (acc @ [m]))"

section \<open>Tools\<close>

record function_out =
  fu_name :: string
  fu_description :: "jvalue option"
  fu_parameters :: "jvalue option"
  fu_strict :: "jvalue option"

definition function_of :: "string \<Rightarrow> (string \<rightharpoonup> jvalue) \<Rightarrow> function_out" where
  "function_of name fs = \<lparr>fu_name = name, fu_description = fs ''description'', fu_parameters = fs ''parameters'', fu_strict = fs ''strict''\<rparr>"

definition member_tool :: "string \<Rightarrow> jvalue \<Rightarrow> function_out res" where
  "member_tool space v = rbind (chat_object [''name'', ''description'', ''parameters'', ''strict'', ''type''] v) (\<lambda>fs.
     case chat_string fs ''name'' of Inl _ \<Rightarrow> Inl (Errorf ''unnamed namespace tool'')
     | Inr name \<Rightarrow> (if name = [] then Inl (Errorf ''unnamed namespace tool'')
         else if fs ''type'' \<noteq> None \<and> chat_string fs ''type'' \<noteq> Inr ''function'' then Inl (Errorf ''unsupported namespace member'')
         else Inr (function_of (encode_namespace_call (space @ ''.'' @ name)) fs)))"

definition chat_tool :: "jvalue \<Rightarrow> function_out list res" where
  "chat_tool v = rbind (chat_object [''type'', ''name'', ''description'', ''parameters'', ''strict'', ''tools''] v) (\<lambda>fs.
     case chat_string fs ''type'' of Inl _ \<Rightarrow> Inl (Errorf ''unsupported tool'')
     | Inr kind \<Rightarrow> (if kind \<noteq> ''function'' \<and> kind \<noteq> ''namespace'' then Inl (Errorf ''unsupported tool'')
       else (case chat_string fs ''name'' of Inl _ \<Rightarrow> Inl (Errorf ''unnamed tool'')
         | Inr name \<Rightarrow> (if name = [] then Inl (Errorf ''unnamed tool'')
           else if kind = ''namespace'' then
             (if contains name ''__'' \<or> fs ''parameters'' \<noteq> None \<or> fs ''strict'' \<noteq> None then Inl (Errorf ''unsupported namespace'')
              else (case fs ''tools'' of None \<Rightarrow> Inl (Errorf ''empty namespace'')
                | Some ts \<Rightarrow> (case un_array ts of Inl _ \<Rightarrow> Inl (Errorf ''empty namespace'')
                  | Inr members \<Rightarrow> (if members = [] then Inl (Errorf ''empty namespace'') else each (member_tool name) members))))
           else if fs ''tools'' \<noteq> None \<or> has_prefix name ''virgil_ns_'' then Inl (Errorf ''unsupported function tool'')
           else Inr [function_of name fs]))))"

datatype chosen = ChooseText string | ChooseFunction string

definition chat_choice :: "jvalue \<Rightarrow> chosen res" where
  "chat_choice v = (case un_string v of
     Inr c \<Rightarrow> (if c \<in> set [''auto'', ''none'', ''required''] then Inr (ChooseText c) else Inl (Errorf ''unsupported tool choice''))
   | Inl _ \<Rightarrow> rbind (chat_object [''type'', ''name''] v) (\<lambda>fs.
       if chat_string fs ''type'' \<noteq> Inr ''function'' then Inl (Errorf ''unsupported tool choice'')
       else (case chat_string fs ''name'' of Inl _ \<Rightarrow> Inl (Errorf ''unsupported tool choice'')
         | Inr name \<Rightarrow> (if name = [] then Inl (Errorf ''unsupported tool choice'') else Inr (ChooseFunction (encode_namespace_call name))))))"

section \<open>The chat request\<close>

text \<open>A streamed request also asks for its usage.\<close>

record chat_out =
  ch_model :: string
  ch_messages :: "chat_message list"
  ch_stream :: bool
  ch_max_tokens :: "int option"
  ch_temperature :: "jvalue option"
  ch_top_p :: "jvalue option"
  ch_parallel :: "bool option"
  ch_tools :: "function_out list"
  ch_choice :: "chosen option"

definition given :: "jvalue option \<Rightarrow> jvalue option" where
  "given v = (if v = Some VNull then None else v)"

definition include_ok :: "jvalue option \<Rightarrow> bool" where
  "include_ok v = (case given v of None \<Rightarrow> True
     | Some w \<Rightarrow> rbind (un_array w) (each un_string) = Inr [''reasoning.encrypted_content''])"

definition check_reasoning :: "jvalue option \<Rightarrow> unit res" where
  "check_reasoning v = (case given v of None \<Rightarrow> Inr ()
     | Some w \<Rightarrow> rbind (chat_object [''summary''] w) (\<lambda>fs.
         if chat_string fs ''summary'' = Inr ''auto'' then Inr () else Inl (Errorf ''unsupported reasoning'')))"

definition build_chat_request :: "(string \<Rightarrow> bool) \<Rightarrow> responses_request \<Rightarrow> chat_out res" where
  "build_chat_request valid rq =
     (if rq_background rq \<or> rq_previous rq \<noteq> [] \<or> rq_store rq = Some True \<or> rq_metadata rq \<noteq> None \<or> rq_truncation rq \<noteq> [] \<or>
         rq_safety rq \<noteq> [] \<or> rq_tier rq \<noteq> [] \<or> rq_user rq \<noteq> [] then Inl (Errorf ''unsupported Responses option'')
      else if \<not> include_ok (rq_include rq) then Inl (Errorf ''unsupported include'')
      else rbind (check_reasoning (rq_reasoning rq)) (\<lambda>_.
        if given (rq_text rq) \<noteq> None then Inl (Errorf ''unsupported text format'')
        else if rq_model rq = [] then Inl (Errorf ''missing model'')
        else rbind (if rq_instructions rq = None then Inr [] else rbind (response_content (rq_instructions rq))
              (\<lambda>t. Inr [plain_message ''system'' t])) (\<lambda>guide.
          rbind (input_messages valid (rq_input rq)) (\<lambda>items.
          rbind (normalize (guide @ items) []) (\<lambda>messages.
          rbind (each chat_tool (rq_tools rq)) (\<lambda>tools.
          rbind (case rq_choice rq of None \<Rightarrow> Inr None | Some v \<Rightarrow> rbind (chat_choice v) (\<lambda>c. Inr (Some c))) (\<lambda>choice.
          Inr \<lparr>ch_model = rq_model rq, ch_messages = messages, ch_stream = rq_stream rq, ch_max_tokens = rq_max_tokens rq,
            ch_temperature = rq_temperature rq, ch_top_p = rq_top_p rq, ch_parallel = rq_parallel rq, ch_tools = concat tools,
            ch_choice = choice\<rparr>)))))))"

section \<open>Answers of the chat API\<close>

record tool_piece =
  tp_index :: int
  tp_id :: string
  tp_name :: string
  tp_args :: string

record reply_choice =
  rc_index :: int
  rc_role :: string
  rc_content :: "string option"
  rc_calls :: "tool_piece list"
  rc_delta :: "string option"
  rc_delta_calls :: "tool_piece list"
  rc_finish :: "string option"

record reply_usage =
  ru_prompt :: int
  ru_completion :: int
  ru_cached :: "int option"

record chat_reply_in =
  cy_id :: string
  cy_model :: string
  cy_choices :: "reply_choice list"
  cy_usage :: "reply_usage option"

datatype response_item = MessageItem string string | FunctionCall string string string

text \<open>\<open>MessageItem id text\<close>, \<open>FunctionCall call_id name arguments\<close>; the usage is input, output, total and cached.\<close>

record response_out =
  ro_id :: string
  ro_model :: string
  ro_output :: "response_item list"
  ro_usage :: "(int \<times> int \<times> int \<times> int option) option"

definition call_item_of :: "tool_piece \<Rightarrow> response_item" where
  "call_item_of c = FunctionCall (tp_id c) (decode_namespace_call (tp_name c)) (tp_args c)"

definition complete_chat_reply :: "(string \<Rightarrow> bool) \<Rightarrow> string \<Rightarrow> string \<Rightarrow> reply_usage option \<Rightarrow> string \<Rightarrow> tool_piece list \<Rightarrow> response_out res" where
  "complete_chat_reply valid i model usage content calls =
     (if model = [] \<or> i = [] then Inl (Errorf ''invalid chat response'')
      else if \<exists>c \<in> set calls. tp_id c = [] \<or> tp_name c = [] \<or> \<not> valid (tp_args c) then Inl (Errorf ''invalid tool call'')
      else if (case usage of None \<Rightarrow> False | Some u \<Rightarrow> ru_prompt u < 0 \<or> ru_completion u < 0) then Inl (Errorf ''invalid usage'')
      else Inr \<lparr>ro_id = ''resp_'' @ i, ro_model = model,
        ro_output = (if content \<noteq> [] then [MessageItem (''msg_'' @ i) content] else []) @ map call_item_of calls,
        ro_usage = map_option (\<lambda>u. (ru_prompt u, ru_completion u, wrap64 (ru_prompt u + ru_completion u), ru_cached u)) usage\<rparr>)"

definition translate_chat_response :: "(string \<Rightarrow> bool) \<Rightarrow> chat_reply_in res \<Rightarrow> response_out res" where
  "translate_chat_response valid raw = rbind raw (\<lambda>reply. case cy_choices reply of
     [choice] \<Rightarrow> (if rc_index choice \<noteq> 0 then Inl (Errorf ''unsupported chat choices'')
       else if rc_role choice \<noteq> ''assistant'' then Inl (Errorf ''unexpected chat role'')
       else complete_chat_reply valid (cy_id reply) (cy_model reply) (cy_usage reply)
         (case rc_content choice of None \<Rightarrow> [] | Some t \<Rightarrow> t) (rc_calls choice))
   | _ \<Rightarrow> Inl (Errorf ''unsupported chat choices''))"

section \<open>Streams of the chat API\<close>

datatype chat_event =
    ResponseCreated string string
  | TextItemAdded string | TextPartAdded | TextDelta string | TextDone string | TextPartDone string | TextItemDone string string
  | CallAdded nat response_item | CallDone nat response_item
  | ResponseCompleted response_out

record chat_stream =
  ss_id :: string
  ss_model :: string
  ss_usage :: "reply_usage option"
  ss_content :: string
  ss_calls :: "(int \<times> tool_piece) list"
  ss_finished :: bool
  ss_created :: bool
  ss_text :: bool
  ss_out :: "chat_event list"

definition new_chat_stream :: chat_stream where
  "new_chat_stream = \<lparr>ss_id = [], ss_model = [], ss_usage = None, ss_content = [], ss_calls = [], ss_finished = False,
     ss_created = False, ss_text = False, ss_out = []\<rparr>"

text \<open>A step fails with an error and what has been written, or goes on.\<close>

type_synonym stream_step = "goerr \<times> chat_event list + chat_stream"

definition go_on :: "stream_step \<Rightarrow> (chat_stream \<Rightarrow> stream_step) \<Rightarrow> stream_step" where
  "go_on r k = (case r of Inl e \<Rightarrow> Inl e | Inr s \<Rightarrow> k s)"

definition chat_fails :: "string \<Rightarrow> chat_stream \<Rightarrow> stream_step" where
  "chat_fails msg s = Inl (Errorf msg, ss_out s)"

definition write_chat_event :: "(chat_event list \<Rightarrow> goerr option) \<Rightarrow> chat_event \<Rightarrow> chat_stream \<Rightarrow> stream_step" where
  "write_chat_event wr ev s = (case wr (ss_out s) of Some e \<Rightarrow> Inl (e, ss_out s) | None \<Rightarrow> Inr (s\<lparr>ss_out := ss_out s @ [ev]\<rparr>))"

definition add_fragment :: "tool_piece \<Rightarrow> chat_stream \<Rightarrow> chat_stream" where
  "add_fragment p s = (let c = (case map_of (ss_calls s) (tp_index p) of
       None \<Rightarrow> \<lparr>tp_index = tp_index p, tp_id = [], tp_name = [], tp_args = []\<rparr> | Some c \<Rightarrow> c);
       c' = c\<lparr>tp_id := tp_id c @ tp_id p, tp_name := tp_name c @ tp_name p, tp_args := tp_args c @ tp_args p\<rparr> in
     s\<lparr>ss_calls := AList.update (tp_index p) c' (ss_calls s)\<rparr>)"

definition take_delta :: "(chat_event list \<Rightarrow> goerr option) \<Rightarrow> string \<Rightarrow> chat_stream \<Rightarrow> stream_step" where
  "take_delta wr t s = go_on
     (if ss_text s then Inr s
      else go_on (write_chat_event wr (TextItemAdded (''msg_'' @ ss_id s)) s) (\<lambda>s1.
        go_on (write_chat_event wr TextPartAdded s1) (\<lambda>s2. Inr (s2\<lparr>ss_text := True\<rparr>))))
     (\<lambda>s1. write_chat_event wr (TextDelta t) (s1\<lparr>ss_content := ss_content s1 @ t\<rparr>))"

definition take_choice :: "(chat_event list \<Rightarrow> goerr option) \<Rightarrow> reply_choice \<Rightarrow> chat_stream \<Rightarrow> stream_step" where
  "take_choice wr c s =
     (if rc_index c \<noteq> 0 then chat_fails ''unsupported chat choice index'' s
      else go_on (case rc_delta c of None \<Rightarrow> Inr s | Some t \<Rightarrow> take_delta wr t s) (\<lambda>s1.
        let s2 = fold add_fragment (rc_delta_calls c) s1 in
        case rc_finish c of None \<Rightarrow> Inr s2
        | Some f \<Rightarrow> (if f \<noteq> ''stop'' \<and> f \<noteq> ''tool_calls'' then chat_fails ''unsupported finish reason'' s2
            else Inr (s2\<lparr>ss_finished := True\<rparr>))))"

fun take_reply_choices :: "(chat_event list \<Rightarrow> goerr option) \<Rightarrow> reply_choice list \<Rightarrow> chat_stream \<Rightarrow> stream_step" where
  "take_reply_choices wr [] s = Inr s"
| "take_reply_choices wr (c # cs) s = go_on (take_choice wr c s) (take_reply_choices wr cs)"

definition take_chunk :: "(chat_event list \<Rightarrow> goerr option) \<Rightarrow> chat_reply_in \<Rightarrow> chat_stream \<Rightarrow> stream_step" where
  "take_chunk wr chunk s =
     (if cy_id chunk = [] \<or> cy_model chunk = [] then chat_fails ''incomplete chat chunk'' s
      else if ss_id s \<noteq> [] \<and> (ss_id s \<noteq> cy_id chunk \<or> ss_model s \<noteq> cy_model chunk) then chat_fails ''chat stream identity changed'' s
      else let s1 = s\<lparr>ss_id := cy_id chunk, ss_model := cy_model chunk\<rparr> in
        go_on (if ss_created s1 then Inr s1
          else go_on (write_chat_event wr (ResponseCreated (''resp_'' @ ss_id s1) (ss_model s1)) s1) (\<lambda>s2. Inr (s2\<lparr>ss_created := True\<rparr>)))
        (\<lambda>s2. take_reply_choices wr (cy_choices chunk) (case cy_usage chunk of None \<Rightarrow> s2 | Some u \<Rightarrow> s2\<lparr>ss_usage := Some u\<rparr>)))"

text \<open>The data lines of a frame; the flag tells that the end marker was found, which ends the frame.\<close>

fun chat_parts :: "(string \<Rightarrow> chat_reply_in option) \<Rightarrow> (chat_event list \<Rightarrow> goerr option) \<Rightarrow> string list \<Rightarrow> chat_stream \<Rightarrow>
    goerr \<times> chat_event list + bool \<times> chat_stream" where
  "chat_parts unmarshal wr [] s = Inr (False, s)"
| "chat_parts unmarshal wr (p # ps) s = (let part = trim_space p in
     if \<not> has_prefix part ''data:'' then chat_parts unmarshal wr ps s
     else (let payload = trim_space (drop 5 part) in
       if payload = ''[DONE]'' then Inr (True, s)
       else (case unmarshal payload of None \<Rightarrow> Inl (Errorf ''invalid chat chunk'', ss_out s)
         | Some chunk \<Rightarrow> (case take_chunk wr chunk s of Inl e \<Rightarrow> Inl e | Inr s1 \<Rightarrow> chat_parts unmarshal wr ps s1))))"

definition max_responses_body :: nat where
  "max_responses_body = 16777216"

text \<open>The state of the loop: the frame, the bytes read and the stream.\<close>

definition chat_line :: "(string \<Rightarrow> chat_reply_in option) \<Rightarrow> (chat_event list \<Rightarrow> goerr option) \<Rightarrow> string \<Rightarrow> string \<times> nat \<times> chat_stream \<Rightarrow>
    goerr \<times> chat_event list + bool \<times> string \<times> nat \<times> chat_stream" where
  "chat_line unmarshal wr line st = (case st of (frame, sofar, s) \<Rightarrow>
     if line = [] then Inr (False, frame, sofar, s)
     else if sofar + length line > max_responses_body \<or> length frame + length line > max_sse_frame
       then Inl (Errorf ''chat stream exceeds limit'', ss_out s)
     else if trim_space line \<noteq> [] then Inr (False, frame @ line, sofar + length line, s)
     else (case chat_parts unmarshal wr (split_on lf (frame @ line)) s of Inl e \<Rightarrow> Inl e
       | Inr (done, s1) \<Rightarrow> Inr (done, [], sofar + length line, s1)))"

text \<open>\<open>None\<close>: the provider has sent no more and has not closed the connection.\<close>

fun chat_reads :: "(string \<Rightarrow> chat_reply_in option) \<Rightarrow> (chat_event list \<Rightarrow> goerr option) \<Rightarrow> line_read list \<Rightarrow> string \<times> nat \<times> chat_stream \<Rightarrow>
    stream_step option" where
  "chat_reads unmarshal wr [] st = None"
| "chat_reads unmarshal wr (x # xs) st =
     (if lr_gone x then Some (Inl (ErrContext, ss_out (snd (snd st))))
      else (case read_line_bounded (lr_slices x) [] of None \<Rightarrow> None
        | Some (line, err, _) \<Rightarrow> (case chat_line unmarshal wr line st of
            Inl e \<Rightarrow> Some (Inl e)
          | Inr (True, _, _, s) \<Rightarrow> Some (Inr s)
          | Inr (False, st1) \<Rightarrow> (case err of Some e \<Rightarrow> Some (Inl (e, ss_out (snd (snd st1)))) | None \<Rightarrow> chat_reads unmarshal wr xs st1))))"

fun write_calls :: "(chat_event list \<Rightarrow> goerr option) \<Rightarrow> nat \<Rightarrow> response_item list \<Rightarrow> chat_stream \<Rightarrow> stream_step" where
  "write_calls wr i [] s = Inr s"
| "write_calls wr i (c # cs) s = go_on (write_chat_event wr (CallAdded i c) s) (\<lambda>s1.
     go_on (write_chat_event wr (CallDone i c) s1) (write_calls wr (i + 1) cs))"

definition ordered_calls :: "chat_stream \<Rightarrow> tool_piece list res" where
  "ordered_calls s = each (\<lambda>i. case map_of (ss_calls s) (int i) of None \<Rightarrow> Inl (Errorf ''non-contiguous tool calls'') | Some c \<Rightarrow> Inr c)
     [0..<length (ss_calls s)]"

definition write_text_done :: "(chat_event list \<Rightarrow> goerr option) \<Rightarrow> chat_stream \<Rightarrow> stream_step" where
  "write_text_done wr s = (if \<not> ss_text s then Inr s
     else go_on (write_chat_event wr (TextDone (ss_content s)) s) (\<lambda>s1.
       go_on (write_chat_event wr (TextPartDone (ss_content s)) s1)
         (write_chat_event wr (TextItemDone (''msg_'' @ ss_id s) (ss_content s)))))"

text \<open>
  The source encodes the completed response and decodes the text again into a map to put it into its event
  (responses_chat.go:573-582); numbers pass through float64 there, which is exact up to \<open>2^53\<close>.  The model writes the
  response itself, so it says nothing of larger token counts in that event.
\<close>

definition chat_stream_end :: "(string \<Rightarrow> bool) \<Rightarrow> (chat_event list \<Rightarrow> goerr option) \<Rightarrow> chat_stream \<Rightarrow> response_out res \<times> chat_event list" where
  "chat_stream_end valid wr s =
     (if \<not> ss_finished s then (Inl (Errorf ''chat stream not finished''), ss_out s)
      else (case ordered_calls s of Inl e \<Rightarrow> (Inl e, ss_out s)
        | Inr calls \<Rightarrow> (case complete_chat_reply valid (ss_id s) (ss_model s) (ss_usage s) (ss_content s) calls of Inl e \<Rightarrow> (Inl e, ss_out s)
          | Inr response \<Rightarrow> (case go_on (write_text_done wr s) (\<lambda>s1.
                go_on (write_calls wr (if ss_text s then 1 else 0) (map call_item_of calls) s1)
                  (write_chat_event wr (ResponseCompleted response))) of
              Inl (e, out) \<Rightarrow> (Inl e, out) | Inr s1 \<Rightarrow> (Inr response, ss_out s1)))))"

definition translate_chat_stream :: "(string \<Rightarrow> bool) \<Rightarrow> (string \<Rightarrow> chat_reply_in option) \<Rightarrow> (chat_event list \<Rightarrow> goerr option) \<Rightarrow> line_read list \<Rightarrow>
    (response_out res \<times> chat_event list) option" where
  "translate_chat_stream valid unmarshal wr xs = (case chat_reads unmarshal wr xs ([], 0, new_chat_stream) of None \<Rightarrow> None
     | Some (Inl (e, out)) \<Rightarrow> Some (Inl e, out) | Some (Inr s) \<Rightarrow> Some (chat_stream_end valid wr s))"

section \<open>What a response says of the call\<close>

record payload_usage =
  py_input :: int
  py_output :: int
  py_cached :: "int option"

text \<open>\<open>rp_output\<close>: type, name and arguments of the items.\<close>

record responses_payload =
  rp_model :: string
  rp_status :: string
  rp_usage :: "payload_usage option"
  rp_output :: "(string \<times> string \<times> string) list"

text \<open>What decoding an encoded response gives.\<close>

definition payload_of :: "response_out \<Rightarrow> responses_payload" where
  "payload_of r = \<lparr>rp_model = ro_model r, rp_status = ''completed'',
     rp_usage = map_option (\<lambda>(i, outp, sum_of, c). \<lparr>py_input = i, py_output = outp, py_cached = c\<rparr>) (ro_usage r),
     rp_output = map (\<lambda>x. case x of MessageItem i t \<Rightarrow> (''message'', [], []) | FunctionCall i n a \<Rightarrow> (''function_call'', n, a)) (ro_output r)\<rparr>"

definition item_fingerprint :: "(string \<Rightarrow> string) \<Rightarrow> string \<Rightarrow> string \<Rightarrow> string" where
  "item_fingerprint sha name args = hex_encode (sha (name @ [CHR 0x00] @ args))"

definition inspect_responses_payload :: "(string \<Rightarrow> string) \<Rightarrow> responses_payload res \<Rightarrow> result \<times> goerr option" where
  "inspect_responses_payload sha raw = (let r0 = start_result in
     case raw of Inl e \<Rightarrow> (r0, Some e)
     | Inr p \<Rightarrow>
       (if rp_status p \<noteq> ''completed'' \<or> rp_model p = [] then (r0, Some (Errorf ''incomplete response''))
        else let r1 = r0\<lparr>re_model := rp_model p\<rparr>;
               counted = (case rp_usage p of None \<Rightarrow> (r1, None)
                 | Some u \<Rightarrow> (if py_input u < 0 \<or> py_output u < 0 then (r1, Some (Errorf ''negative usage''))
                     else let r2 = r1\<lparr>re_input := Some (py_input u), re_output := Some (py_output u)\<rparr> in
                       if (case py_cached u of None \<Rightarrow> False | Some c \<Rightarrow> c < 0 \<or> c > py_input u) then (r2, Some (Errorf ''invalid cached usage''))
                       else (r2\<lparr>re_cached := py_cached u, re_usage_source := ''provider''\<rparr>, None))) in
          (case counted of (r, Some e) \<Rightarrow> (r, Some e)
           | (r, None) \<Rightarrow> (r\<lparr>re_fingerprints := map (\<lambda>(ty, n, a). item_fingerprint sha n a)
               (filter (\<lambda>(ty, n, a). ty = ''function_call'' \<or> ty = ''custom_tool_call'') (rp_output p))\<rparr>, None))))"

section \<open>Cutting and names\<close>

declare cut_at.simps [simp del]

lemma cut_at_here: "has_prefix s sep \<Longrightarrow> cut_at sep s = Some ([], drop (length sep) s)"
  and cut_at_later: "\<not> has_prefix (c # cs) sep \<Longrightarrow> cut_at sep (c # cs) = map_option (\<lambda>(a, b). (c # a, b)) (cut_at sep cs)"
  and cut_at_end: "\<not> has_prefix [] sep \<Longrightarrow> cut_at sep [] = None"
  by (simp_all add: cut_at.simps)

lemma cut_at_SomeD:
  "cut_at sep s = Some (a, b) \<Longrightarrow> s = a @ sep @ b \<and> (\<forall>a' b'. s = a' @ sep @ b' \<longrightarrow> length a \<le> length a')"
proof (induction sep s arbitrary: a b rule: cut_at.induct)
  case (1 sep s)
  show ?case
  proof (cases "has_prefix s sep")
    case True
    with 1(2) show ?thesis by (auto simp: cut_at_here has_prefix_iff)
  next
    case False
    with 1(2) obtain c cs a0 where s: "s = c # cs" "a = c # a0" "cut_at sep cs = Some (a0, b)"
      by (cases s) (auto simp: cut_at_end cut_at_later)
    note ih = 1(1) [OF False s(1) s(3)]
    have "length a \<le> length a'" if "s = a' @ sep @ b'" for a' b'
      using that False s ih by (cases a') (auto simp: has_prefix_iff)
    with ih s show ?thesis by simp
  qed
qed

lemma cut_at_NoneD: "cut_at sep s = None \<Longrightarrow> s \<noteq> a @ sep @ b"
proof (induction sep s arbitrary: a rule: cut_at.induct)
  case (1 sep s)
  have np: "\<not> has_prefix s sep" using 1(2) cut_at_here by fastforce
  show ?case
  proof (cases a)
    case Nil
    with np show ?thesis by (auto simp: has_prefix_iff)
  next
    case (Cons c a')
    show ?thesis
    proof
      assume s: "s = a @ sep @ b"
      then have "cut_at sep (a' @ sep @ b) = None" using 1(2) np Cons by (simp add: cut_at_later)
      from 1(1) [OF np _ this, of c a'] s Cons show False by simp
    qed
  qed
qed

lemma contains_iff: "contains s p \<longleftrightarrow> (\<exists>a b. s = a @ p @ b)"
proof (induction s p rule: contains.induct)
  case (2 c s p)
  have "(\<exists>a b. c # s = a @ p @ b) \<longleftrightarrow> has_prefix (c # s) p \<or> (\<exists>a b. s = a @ p @ b)"
    by (auto simp: has_prefix_iff Cons_eq_append_conv)
  then show ?case using 2 by auto
qed auto

lemma dot_name:
  assumes "cut_at ''.'' name = Some (space, member)"
  shows "name = space @ ''.'' @ member" "CHR ''.'' \<notin> set space"
proof -
  show n: "name = space @ ''.'' @ member" using cut_at_SomeD [OF assms] by blast
  show "CHR ''.'' \<notin> set space"
  proof
    assume "CHR ''.'' \<in> set space"
    then obtain x y where "space = x @ CHR ''.'' # y" by (meson split_list)
    with n have "name = x @ ''.'' @ (y @ ''.'' @ member)" by simp
    with cut_at_SomeD [OF assms] have "length space \<le> length x" by blast
    with \<open>space = x @ CHR ''.'' # y\<close> show False by simp
  qed
qed

text \<open>Cutting a name with a separator before its end.\<close>

lemma cut_space:
  assumes "CHR ''.'' \<notin> set space" "cut_at ''__'' (space @ ''__'' @ member) = Some (a, b)"
  shows "a @ ''.'' @ b = space @ ''.'' @ member \<longleftrightarrow> \<not> contains (space @ ''_'') ''__''"
proof -
  let ?s = "space @ ''__'' @ member"
  have c: "?s = a @ ''__'' @ b" and least: "\<And>a' b'. ?s = a' @ ''__'' @ b' \<Longrightarrow> length a \<le> length a'"
    using cut_at_SomeD [OF assms(2)] by blast+
  have le: "length a \<le> length space" using least by blast
  show ?thesis
  proof (cases "length a = length space")
    case True
    then have same: "a = space" "b = member" using c by auto
    have "\<not> contains (space @ ''_'') ''__''"
    proof
      assume "contains (space @ ''_'') ''__''"
      then obtain x y where xy: "space @ ''_'' = x @ ''__'' @ y" by (auto simp: contains_iff)
      then have "?s = x @ ''__'' @ (y @ CHR ''_'' # member)" by (metis append.assoc append_Cons append_Nil)
      from least [OF this] True have "length space \<le> length x" by simp
      with arg_cong [OF xy, of length] show False by simp
    qed
    with same show ?thesis by simp
  next
    case False
    with le obtain c' t where sp: "space = a @ c' # t" and n: "c' \<noteq> CHR ''.''"
    proof -
      from c le obtain u where u: "space = a @ u" by (auto simp: append_eq_append_conv2)
      with False obtain c' t where "u = c' # t" by (cases u) auto
      with u assms(1) that show thesis by auto
    qed
    from c sp have u: "c' # t @ ''__'' @ member = ''__'' @ b" by simp
    then have "c' = CHR ''_''" by simp
    have "contains (space @ ''_'') ''__''"
    proof (cases t)
      case Nil
      with sp \<open>c' = CHR ''_''\<close> show ?thesis by (auto simp: contains_iff)
    next
      case (Cons d t')
      with u have "d = CHR ''_''" by simp
      with sp \<open>c' = CHR ''_''\<close> Cons have "space @ ''_'' = a @ ''__'' @ (t' @ ''_'')" by simp
      then show ?thesis unfolding contains_iff by blast
    qed
    moreover have "a @ ''.'' @ b \<noteq> space @ ''.'' @ member" using sp n by simp
    ultimately show ?thesis by simp
  qed
qed

text \<open>Decoding undoes encoding exactly for the names where it can. A dotted name comes back as it was exactly
  when its part before the dot, followed by an underscore, holds no two underscores in a row; so a namespace whose
  name ends with an underscore, which the request check accepts, does not come back. A name without a dot
  comes back exactly when it does not look like an encoded one.\<close>

theorem namespace_names_roundtrip:
  "decode_namespace_call (encode_namespace_call name) = name \<longleftrightarrow> (case cut_at ''.'' name of
     Some (space, member) \<Rightarrow> \<not> contains (space @ ''_'') ''__''
   | None \<Rightarrow> \<not> (\<exists>space member. name = ''virgil_ns_'' @ space @ ''__'' @ member))"
proof (cases "cut_at ''.'' name")
  case None
  have nodot: "CHR ''.'' \<notin> set name"
  proof
    assume "CHR ''.'' \<in> set name"
    then obtain x y where "name = x @ ''.'' @ y" by (metis append_Cons append_Nil split_list)
    with cut_at_NoneD [OF None] show False by blast
  qed
  show ?thesis
  proof (cases "\<exists>space member. name = ''virgil_ns_'' @ space @ ''__'' @ member")
    case True
    then obtain t where t: "name = ''virgil_ns_'' @ t" "\<exists>space member. t = space @ ''__'' @ member" by blast
    then obtain a b where ab: "cut_at ''__'' t = Some (a, b)" using cut_at_NoneD [of "''__''" t] by (cases "cut_at ''__'' t") auto
    have "decode_namespace_call name = a @ ''.'' @ b"
      unfolding decode_namespace_call_def t(1) trim_prefix_def using ab by (simp add: has_prefix_iff)
    moreover have "a @ ''.'' @ b \<noteq> name" using nodot by (metis append_Cons in_set_conv_decomp append_Nil)
    ultimately show ?thesis using None True by (simp add: encode_namespace_call_def)
  next
    case False
    then have "cut_at ''__'' t = None" if "name = ''virgil_ns_'' @ t" for t
      using that cut_at_SomeD [of "''__''" t] by (cases "cut_at ''__'' t") auto
    then have "decode_namespace_call name = name"
      by (auto simp: decode_namespace_call_def trim_prefix_def has_prefix_iff)
    with None False show ?thesis by (simp add: encode_namespace_call_def)
  qed
next
  case (Some p)
  obtain space member where p: "p = (space, member)" by (cases p)
  note d = dot_name [OF Some [unfolded p]]
  have "cut_at ''__'' (space @ ''__'' @ member) \<noteq> None" using cut_at_NoneD by blast
  then obtain a b where ab: "cut_at ''__'' (space @ ''__'' @ member) = Some (a, b)" by auto
  have "decode_namespace_call (encode_namespace_call name) = a @ ''.'' @ b"
    unfolding encode_namespace_call_def Some p option.case prod.case decode_namespace_call_def trim_prefix_def
    using ab by (simp add: has_prefix_iff)
  with cut_space [OF d(2) ab] Some p d(1) show ?thesis by simp
qed

section \<open>The tools that are offered\<close>

lemma chat_object_InrD:
  assumes "chat_object keys v = Inr fs"
  obtains kvs where "v = VObject kvs" "fst ` set kvs \<subseteq> set keys" "fs = map_of (rev kvs)"
  using assms that by (cases v) (force simp: chat_object_def split: if_splits)+

text \<open>Where the strict reader finds a field, the decoder of the policy finds the same.\<close>

lemma struct_field_of_object:
  assumes "fst ` set kvs \<subseteq> set keys" "\<forall>k \<in> set keys. equal_fold k name \<longrightarrow> k = name"
  shows "struct_field kvs name = map_of (rev kvs) name"
  using assms by (intro struct_field_exact) force

lemma string_field_of_object:
  assumes "fst ` set kvs \<subseteq> set keys" "\<forall>k \<in> set keys. equal_fold k name \<longrightarrow> k = name" "chat_string (map_of (rev kvs)) name = Inr s"
  shows "string_field kvs name = Inr s"
  using assms(3) struct_field_of_object [OF assms(1,2)]
  by (simp add: string_field_def chat_string_def split: option.splits)

definition tool_keys :: "string list" where
  "tool_keys = [''type'', ''name'', ''description'', ''parameters'', ''strict'', ''tools'']"

lemma exact_keys:
  "\<forall>k \<in> set tool_keys. equal_fold k ''type'' \<longrightarrow> k = ''type''"
  "\<forall>k \<in> set tool_keys. equal_fold k ''name'' \<longrightarrow> k = ''name''"
  "\<forall>k \<in> set tool_keys. equal_fold k ''tools'' \<longrightarrow> k = ''tools''"
  "\<forall>k \<in> set [''name'', ''description'', ''parameters'', ''strict'', ''type'']. equal_fold k ''name'' \<longrightarrow> k = ''name''"
  by code_simp+

text \<open>The name of an offered tool, and the name the policy is asked about.\<close>

definition offered_as :: "function_out \<Rightarrow> string \<Rightarrow> bool" where
  "offered_as f name \<longleftrightarrow> fu_name f = name \<and> decode_namespace_call name = name \<or> fu_name f = encode_namespace_call name"

lemma member_offered:
  assumes "member_tool space v = Inr f" "member_name v = Inr n"
  shows "fu_name f = encode_namespace_call (space @ ''.'' @ n)"
proof -
  obtain fs where fs: "chat_object [''name'', ''description'', ''parameters'', ''strict'', ''type''] v = Inr fs"
    using assms(1) by (auto simp: member_tool_def rbind_Inr_iff)
  obtain m where m: "chat_string fs ''name'' = Inr m" "fu_name f = encode_namespace_call (space @ ''.'' @ m)"
    using assms(1) fs by (auto simp: member_tool_def function_of_def split: sum.splits if_splits)
  obtain kvs where k: "v = VObject kvs" "fst ` set kvs \<subseteq> set [''name'', ''description'', ''parameters'', ''strict'', ''type'']" "fs = map_of (rev kvs)"
    using fs by (rule chat_object_InrD)
  have "string_field kvs ''name'' = Inr m" using string_field_of_object [OF k(2) exact_keys(4)] m(1) k(3) by simp
  with assms(2) k(1) have "n = m" by (simp add: member_name_def un_struct_def)
  with m(2) show ?thesis by simp
qed

lemma tool_offered:
  assumes "chat_tool v = Inr fns" "tool_names v = Inr names"
  shows "list_all2 offered_as fns names"
proof -
  obtain fs where fs: "chat_object tool_keys v = Inr fs" using assms(1) by (auto simp: chat_tool_def tool_keys_def rbind_Inr_iff)
  obtain kvs where k: "v = VObject kvs" "fst ` set kvs \<subseteq> set tool_keys" "fs = map_of (rev kvs)" using fs by (rule chat_object_InrD)
  obtain kind name where kn: "chat_string fs ''type'' = Inr kind" "chat_string fs ''name'' = Inr name" "kind = ''function'' \<or> kind = ''namespace''" "name \<noteq> []"
    using assms(1) fs by (auto simp: chat_tool_def tool_keys_def split: sum.splits if_splits)
  obtain t where t: "decode_tool v = Inr t" using assms(2) by (auto simp: tool_names_def rbind_Inr_iff)
  have ty: "td_type t = kind" "td_name t = name"
    using t string_field_of_object [OF k(2) exact_keys(1)] string_field_of_object [OF k(2) exact_keys(2)] kn(1,2) k(1,3)
    by (auto simp: decode_tool_def un_struct_def rbind_Inr_iff)
  show ?thesis
  proof (cases "kind = ''function''")
    case True
    with assms(1) fs kn have "fns = [function_of name fs]" "\<not> has_prefix name ''virgil_ns_''"
      by (auto simp: chat_tool_def tool_keys_def split: if_splits)
    moreover have "names = [name]" using assms(2) t ty kn(4) True by (simp add: tool_names_def)
    ultimately show ?thesis by (simp add: offered_as_def function_of_def decode_namespace_call_def)
  next
    case False
    with kn(3) have kind: "kind = ''namespace''" by simp
    with assms(1) fs kn obtain ts members where ms: "fs ''tools'' = Some ts" "un_array ts = Inr members" "each (member_tool name) members = Inr fns"
      by (auto simp: chat_tool_def tool_keys_def split: if_splits option.splits sum.splits)
    have "array_field kvs ''tools'' = Inr members"
      using struct_field_of_object [OF k(2) exact_keys(3)] ms(1,2) k(3) by (simp add: array_field_def)
    then have "each member_name members = Inr (td_members t)"
      using t k(1) by (auto simp: decode_tool_def un_struct_def rbind_Inr_iff)
    from each_agree [OF ms(3) this member_offered]
    have "list_all2 (\<lambda>f n. fu_name f = encode_namespace_call (name @ ''.'' @ n)) fns (td_members t)" .
    moreover have "names = map (\<lambda>m. name @ ''.'' @ m) (td_members t)"
      using assms(2) t ty kind kn(4) by (auto simp: tool_names_def split: if_splits)
    ultimately show ?thesis by (auto simp: list_all2_conv_all_nth offered_as_def)
  qed
qed

lemma list_all2_concat: "list_all2 (list_all2 R) xss yss \<Longrightarrow> list_all2 R (concat xss) (concat yss)"
  by (induction rule: list_all2_induct) (auto intro: list_all2_appendI)

text \<open>What the policy is asked about is what the provider is offered. When a request is translated for the chat
  API, the tools of the translation are, one by one and in order, the tools whose names the policy checks:
  each is offered under its name, which comes back as it is, or under the encoding of its name. No tool is
  offered that the policy has not seen.\<close>

theorem offered_tools_are_checked:
  assumes "parse_responses_request decode trailing body = Inr (rq, names)" "build_chat_request valid rq = Inr out"
  shows "list_all2 offered_as (ch_tools out) names"
proof -
  obtain ns where ns: "each tool_names (rq_tools rq) = Inr ns" "names = concat ns"
    using assms(1) by (auto simp: parse_responses_request_def rbind_Inr_iff split: if_splits)
  obtain ts where ts: "each chat_tool (rq_tools rq) = Inr ts" "ch_tools out = concat ts"
    using assms(2) by (auto simp: build_chat_request_def rbind_Inr_iff split: if_splits)
  have "list_all2 (list_all2 offered_as) ts ns"
    using each_agree [OF ts(1) ns(1) tool_offered] .
  with ns(2) ts(2) show ?thesis by (simp add: list_all2_concat)
qed

definition sample_tool_request :: responses_request where
  "sample_tool_request = \<lparr>rq_model = ''m'', rq_input = Some (VString ''hello''), rq_stream = False, rq_store = None, rq_background = False,
     rq_previous = [], rq_tools = [VObject [(''type'', VString ''namespace''), (''name'', VString ''fs''),
       (''tools'', VArray [VObject [(''name'', VString ''read'')]])], VObject [(''type'', VString ''function''), (''name'', VString ''ls'')]],
     rq_instructions = Some (VString ''guide''), rq_choice = None, rq_parallel = None, rq_max_tokens = None, rq_reasoning = None, rq_text = None,
     rq_include = None, rq_metadata = None, rq_truncation = [], rq_temperature = None, rq_top_p = None, rq_user = [], rq_cache_key = [],
     rq_safety = [], rq_tier = [], rq_client_metadata = None\<rparr>"

lemma offered_tools_are_checked_witness:
  "\<exists>out. build_chat_request (\<lambda>_. True) sample_tool_request = Inr out \<and> list_all2 offered_as (ch_tools out) [''fs.read'', ''ls'']"
proof -
  have p: "parse_responses_request Inr (\<lambda>_. False) sample_tool_request = Inr (sample_tool_request, [''fs.read'', ''ls''])" by code_simp
  have "is_ok (build_chat_request (\<lambda>_. True) sample_tool_request)" by code_simp
  then obtain out where o: "build_chat_request (\<lambda>_. True) sample_tool_request = Inr out" by (auto simp: is_ok_iff)
  with offered_tools_are_checked [OF p o] show ?thesis by blast
qed

section \<open>What a translated stream sends\<close>

fun delta_of :: "chat_event \<Rightarrow> string" where
  "delta_of (TextDelta t) = t"
| "delta_of _ = []"

fun call_of :: "chat_event \<Rightarrow> response_item list" where
  "call_of (CallDone i c) = [c]"
| "call_of _ = []"

fun response_of :: "chat_event \<Rightarrow> response_out list" where
  "response_of (ResponseCompleted r) = [r]"
| "response_of _ = []"

definition sent_text :: "chat_event list \<Rightarrow> string" where
  "sent_text out = concat (map delta_of out)"

definition sent_calls :: "chat_event list \<Rightarrow> response_item list" where
  "sent_calls out = concat (map call_of out)"

definition sent_responses :: "chat_event list \<Rightarrow> response_out list" where
  "sent_responses out = concat (map response_of out)"

lemmas sent_defs = sent_text_def sent_calls_def sent_responses_def

text \<open>A stream that is still open: the text so far has been sent, and neither a call nor the response.\<close>

definition open_stream :: "chat_stream \<Rightarrow> bool" where
  "open_stream s \<longleftrightarrow> sent_text (ss_out s) = ss_content s \<and> sent_calls (ss_out s) = [] \<and> sent_responses (ss_out s) = []"

definition step_keeps :: "(chat_stream \<Rightarrow> bool) \<Rightarrow> stream_step \<Rightarrow> bool" where
  "step_keeps Q r \<longleftrightarrow> (case r of Inl (e, out) \<Rightarrow> sent_responses out = [] | Inr s \<Rightarrow> Q s)"

lemma step_keeps_simps [simp]:
  "step_keeps Q (Inl (e, out)) \<longleftrightarrow> sent_responses out = []" "step_keeps Q (Inr s) \<longleftrightarrow> Q s"
  by (simp_all add: step_keeps_def)

lemma go_on_keeps: "step_keeps Q r \<Longrightarrow> (\<And>s. Q s \<Longrightarrow> step_keeps R (k s)) \<Longrightarrow> step_keeps R (go_on r k)"
  by (cases r) (auto simp: go_on_def step_keeps_def split: prod.splits)

lemma write_keeps:
  assumes "sent_responses (ss_out s) = []" "Q (s\<lparr>ss_out := ss_out s @ [ev]\<rparr>)"
  shows "step_keeps Q (write_chat_event wr ev s)"
  using assms by (simp add: write_chat_event_def split: option.split)

lemma open_streamD: "open_stream s \<Longrightarrow> sent_responses (ss_out s) = []"
  by (simp add: open_stream_def)

lemma open_stream_cong: "ss_out s' = ss_out s \<Longrightarrow> ss_content s' = ss_content s \<Longrightarrow> open_stream s' = open_stream s"
  by (simp add: open_stream_def)

lemma take_delta_keeps: "open_stream s \<Longrightarrow> step_keeps open_stream (take_delta wr t s)"
  unfolding take_delta_def
  by (intro go_on_keeps [where Q = open_stream] write_keeps) (auto simp: open_stream_def sent_defs intro!: go_on_keeps [where Q = open_stream] write_keeps)

lemma fragments_keep: "ss_out (fold add_fragment ps s) = ss_out s \<and> ss_content (fold add_fragment ps s) = ss_content s"
  by (induction ps arbitrary: s) (simp_all add: add_fragment_def Let_def)

lemma take_choice_keeps: "open_stream s \<Longrightarrow> step_keeps open_stream (take_choice wr c s)"
  unfolding take_choice_def
  by (auto simp: chat_fails_def Let_def fragments_keep open_stream_def take_delta_keeps
      intro!: go_on_keeps [where Q = open_stream] split: option.split)

lemma take_reply_choices_keeps: "open_stream s \<Longrightarrow> step_keeps open_stream (take_reply_choices wr cs s)"
  by (induction cs arbitrary: s) (auto intro!: go_on_keeps [where Q = open_stream] take_choice_keeps)

lemma take_chunk_keeps: "open_stream s \<Longrightarrow> step_keeps open_stream (take_chunk wr c s)"
  unfolding take_chunk_def Let_def chat_fails_def
  by (auto simp: open_stream_def sent_defs intro!: go_on_keeps [where Q = open_stream] write_keeps take_reply_choices_keeps split: option.split)

lemma chat_parts_keep:
  "open_stream s \<Longrightarrow> case chat_parts unmarshal wr ps s of Inl (e, out) \<Rightarrow> sent_responses out = [] | Inr (b, s1) \<Rightarrow> open_stream s1"
proof (induction ps arbitrary: s)
  case (Cons p ps)
  show ?case
  proof (cases "has_prefix (trim_space p) ''data:'' \<and> trim_space (drop 5 (trim_space p)) \<noteq> ''[DONE]''")
    case False
    with Cons show ?thesis by (auto simp: Let_def)
  next
    case True
    show ?thesis
    proof (cases "unmarshal (trim_space (drop 5 (trim_space p)))")
      case None
      with True Cons.prems show ?thesis by (simp add: open_streamD)
    next
      case (Some chunk)
      note k = take_chunk_keeps [OF Cons.prems, of wr chunk]
      show ?thesis
      proof (cases "take_chunk wr chunk s")
        case (Inl e)
        with True Some k show ?thesis by (auto simp: step_keeps_def)
      next
        case (Inr s1)
        with k have "open_stream s1" by simp
        with True Some Inr Cons.IH [of s1] show ?thesis by simp
      qed
    qed
  qed
qed simp

lemma chat_line_keeps:
  assumes "open_stream s"
  shows "case chat_line unmarshal wr line (frame, n, s) of Inl (e, out) \<Rightarrow> sent_responses out = [] | Inr (b, frame1, n1, s1) \<Rightarrow> open_stream s1"
  using assms chat_parts_keep [OF assms, of unmarshal wr "split_on lf (frame @ line)"]
  by (auto simp: chat_line_def open_streamD split: sum.splits prod.splits)

lemma chat_reads_keep:
  "chat_reads unmarshal wr xs (frame, n, s) = Some r \<Longrightarrow> open_stream s \<Longrightarrow> step_keeps open_stream r"
proof (induction xs arbitrary: frame n s)
  case (Cons x xs)
  show ?case
  proof (cases "lr_gone x")
    case True
    with Cons.prems show ?thesis by (auto simp: open_streamD)
  next
    case False
    obtain line err eof where l: "read_line_bounded (lr_slices x) [] = Some (line, err, eof)"
      using Cons.prems(1) False by (auto split: option.splits)
    note k = chat_line_keeps [OF Cons.prems(2), of unmarshal wr line frame n]
    show ?thesis
    proof (cases "chat_line unmarshal wr line (frame, n, s)")
      case (Inl e)
      with k Cons.prems(1) False l show ?thesis by (auto split: prod.splits)
    next
      case (Inr q)
      obtain b frame1 n1 s1 where q: "q = (b, frame1, n1, s1)" by (cases q)
      with k Inr have o: "open_stream s1" by simp
      with Cons False l Inr q show ?thesis by (cases b; cases err) (auto simp: open_streamD)
    qed
  qed
qed simp

text \<open>A step that only writes: all of its events, or some of them and an error.\<close>

definition writes :: "stream_step \<Rightarrow> chat_stream \<Rightarrow> chat_event list \<Rightarrow> bool" where
  "writes r s evs \<longleftrightarrow> (case r of Inr s1 \<Rightarrow> ss_out s1 = ss_out s @ evs
     | Inl (e, out) \<Rightarrow> \<exists>k < length evs. out = ss_out s @ take k evs)"

lemma writes_one: "writes (write_chat_event wr ev s) s [ev]"
  by (auto simp: writes_def write_chat_event_def split: option.split intro!: exI [of _ 0])

lemma writes_more:
  assumes "writes r s evs" "\<And>s1. ss_out s1 = ss_out s @ evs \<Longrightarrow> writes (k s1) s1 evs'"
  shows "writes (go_on r k) s (evs @ evs')"
proof (cases r)
  case (Inl e)
  obtain err out where e: "e = (err, out)" by (cases e)
  with assms(1) Inl obtain n where n: "n < length evs" "out = ss_out s @ take n evs" by (auto simp: writes_def)
  then show ?thesis using Inl e by (auto simp: go_on_def writes_def intro!: exI [of _ n])
next
  case (Inr s1)
  with assms(1) have o: "ss_out s1 = ss_out s @ evs" by (simp add: writes_def)
  show ?thesis
  proof (cases "k s1")
    case (Inl e)
    obtain err out where e: "e = (err, out)" by (cases e)
    with assms(2) [OF o] Inl obtain n where n: "n < length evs'" "out = ss_out s1 @ take n evs'" by (auto simp: writes_def)
    then show ?thesis using Inl \<open>r = Inr s1\<close> e o by (auto simp: go_on_def writes_def intro!: exI [of _ "length evs + n"])
  next
    case (Inr s2)
    with assms(2) [OF o] \<open>r = Inr s1\<close> o show ?thesis by (simp add: go_on_def writes_def)
  qed
qed

definition text_done :: "chat_stream \<Rightarrow> chat_event list" where
  "text_done s = (if ss_text s then [TextDone (ss_content s), TextPartDone (ss_content s), TextItemDone (''msg_'' @ ss_id s) (ss_content s)] else [])"

lemma writes_text_done: "writes (write_text_done wr s) s (text_done s)"
proof (cases "ss_text s")
  case True
  have "writes (write_text_done wr s) s ([TextDone (ss_content s)] @ [TextPartDone (ss_content s)] @ [TextItemDone (''msg_'' @ ss_id s) (ss_content s)])"
    using True unfolding write_text_done_def by (simp only: simp_thms if_False) (intro writes_more writes_one)
  with True show ?thesis by (simp add: text_done_def)
qed (simp add: write_text_done_def text_done_def writes_def)

fun call_events :: "nat \<Rightarrow> response_item list \<Rightarrow> chat_event list" where
  "call_events i [] = []"
| "call_events i (c # cs) = CallAdded i c # CallDone i c # call_events (i + 1) cs"

lemma writes_calls: "writes (write_calls wr i cs s) s (call_events i cs)"
proof (induction cs arbitrary: i s)
  case (Cons c cs)
  have "writes (write_calls wr i (c # cs) s) s ([CallAdded i c] @ [CallDone i c] @ call_events (i + 1) cs)"
    unfolding write_calls.simps by (intro writes_more writes_one Cons.IH)
  then show ?case by simp
qed (simp add: writes_def)

lemma call_events_sent: "sent_text (call_events i cs) = [] \<and> sent_calls (call_events i cs) = cs \<and> sent_responses (call_events i cs) = []"
  by (induction cs arbitrary: i) (auto simp: sent_defs)

lemma sent_append:
  "sent_text (a @ b) = sent_text a @ sent_text b" "sent_calls (a @ b) = sent_calls a @ sent_calls b"
  "sent_responses (a @ b) = sent_responses a @ sent_responses b"
  by (simp_all add: sent_defs)

lemma text_done_sent: "sent_text (text_done s) = [] \<and> sent_calls (text_done s) = [] \<and> sent_responses (text_done s) = []"
  by (cases "ss_text s") (simp_all add: text_done_def sent_defs)

lemma sent_responses_take: "sent_responses evs = [] \<Longrightarrow> sent_responses (take n evs) = []"
  by (metis append_take_drop_id append_is_Nil_conv sent_append(3))

text \<open>The text and the calls a response holds.\<close>

definition response_text :: "response_out \<Rightarrow> string" where
  "response_text r = concat (map (\<lambda>x. case x of MessageItem i t \<Rightarrow> t | _ \<Rightarrow> []) (ro_output r))"

definition response_calls :: "response_out \<Rightarrow> response_item list" where
  "response_calls r = filter (\<lambda>x. case x of FunctionCall i n a \<Rightarrow> True | _ \<Rightarrow> False) (ro_output r)"

lemma completed_reply:
  assumes "complete_chat_reply valid i model usage content calls = Inr r"
  shows "response_text r = content" "response_calls r = map call_item_of calls"
proof -
  have "concat (map (\<lambda>x. case x of MessageItem i t \<Rightarrow> t | _ \<Rightarrow> []) (map call_item_of calls)) = []"
    and "filter (\<lambda>x. case x of FunctionCall i n a \<Rightarrow> True | _ \<Rightarrow> False) (map call_item_of calls) = map call_item_of calls"
    by (induction calls) (simp_all add: call_item_of_def)
  then show "response_text r = content" "response_calls r = map call_item_of calls"
    using assms by (auto simp: complete_chat_reply_def response_text_def response_calls_def split: if_splits)
qed

lemma inspected_calls:
  assumes "inspect_responses_payload sha (Inr (payload_of r)) = (x, None)"
  shows "re_fingerprints x = map (\<lambda>c. case c of FunctionCall i n a \<Rightarrow> item_fingerprint sha n a | _ \<Rightarrow> []) (response_calls r)"
proof -
  have "map (\<lambda>(ty, n, a). item_fingerprint sha n a) (filter (\<lambda>(ty, n, a). ty = ''function_call'' \<or> ty = ''custom_tool_call'')
      (map (\<lambda>x. case x of MessageItem i t \<Rightarrow> (''message'', [], []) | FunctionCall i n a \<Rightarrow> (''function_call'', n, a)) xs)) =
    map (\<lambda>c. case c of FunctionCall i n a \<Rightarrow> item_fingerprint sha n a | _ \<Rightarrow> [])
      (filter (\<lambda>x. case x of FunctionCall i n a \<Rightarrow> True | _ \<Rightarrow> False) xs)" for xs
    by (induction xs) (auto split: response_item.split)
  then show ?thesis using assms
    by (auto simp: inspect_responses_payload_def payload_of_def response_calls_def Let_def split: if_splits option.splits)
qed

text \<open>C31: The three accounts of a streamed answer agree. When the stream of a chat provider is translated to its end, the
  client has been sent exactly one completed response, last; the text of the deltas it was sent is the text of that
  response, and the calls it was sent are the calls of that response; and the fingerprints the gateway
  records are those of these calls. When the translation fails, at any point, no completed response was sent.\<close>

theorem translated_stream_agrees:
  assumes "translate_chat_stream valid unmarshal wr xs = Some (x, out)"
  shows "case x of Inl e \<Rightarrow> sent_responses out = []
    | Inr r \<Rightarrow> sent_responses out = [r] \<and> last out = ResponseCompleted r \<and> sent_text out = response_text r \<and>
        sent_calls out = response_calls r \<and>
        (\<forall>res. inspect_responses_payload sha (Inr (payload_of r)) = (res, None) \<longrightarrow> re_fingerprints res =
          map (\<lambda>c. case c of FunctionCall i n a \<Rightarrow> item_fingerprint sha n a | _ \<Rightarrow> []) (sent_calls out))"
proof -
  have "open_stream new_chat_stream" by (simp add: open_stream_def new_chat_stream_def sent_defs)
  note keep = chat_reads_keep [OF _ this]
  from assms consider (failed) e where "chat_reads unmarshal wr xs ([], 0, new_chat_stream) = Some (Inl (e, out))" "x = Inl e"
    | (read) s where "chat_reads unmarshal wr xs ([], 0, new_chat_stream) = Some (Inr s)" "chat_stream_end valid wr s = (x, out)"
    by (auto simp: translate_chat_stream_def split: option.splits sum.splits prod.splits)
  then show ?thesis
  proof cases
    case failed
    with keep show ?thesis by force
  next
    case read
    with keep have s: "open_stream s" by force
    show ?thesis
    proof (cases "ss_finished s \<and> (\<exists>calls r. ordered_calls s = Inr calls \<and>
        complete_chat_reply valid (ss_id s) (ss_model s) (ss_usage s) (ss_content s) calls = Inr r)")
      case False
      with read(2) s show ?thesis by (auto simp: chat_stream_end_def open_streamD split: sum.splits if_splits)
    next
      case True
      then obtain calls r where c: "ss_finished s" "ordered_calls s = Inr calls"
        "complete_chat_reply valid (ss_id s) (ss_model s) (ss_usage s) (ss_content s) calls = Inr r" by blast
      let ?w = "go_on (write_text_done wr s) (\<lambda>s1. go_on (write_calls wr (if ss_text s then 1 else 0) (map call_item_of calls) s1)
                  (write_chat_event wr (ResponseCompleted r)))"
      let ?before = "text_done s @ call_events (if ss_text s then 1 else 0) (map call_item_of calls)"
      have "writes ?w s (text_done s @ call_events (if ss_text s then 1 else 0) (map call_item_of calls) @ [ResponseCompleted r])"
        by (intro writes_more writes_text_done writes_calls writes_one)
      then have w: "writes ?w s (?before @ [ResponseCompleted r])" by simp
      have quiet: "sent_text ?before = []" "sent_calls ?before = map call_item_of calls" "sent_responses ?before = []"
        by (simp_all add: sent_append text_done_sent call_events_sent)
      show ?thesis
      proof (cases ?w)
        case (Inl e)
        obtain err out' where e: "e = (err, out')" by (cases e)
        with read(2) c Inl have x: "x = Inl err" "out = out'" by (auto simp: chat_stream_end_def)
        from w Inl e obtain k where "k \<le> length ?before" "out' = ss_out s @ take k (?before @ [ResponseCompleted r])"
          by (auto simp: writes_def less_Suc_eq_le)
        then have "out' = ss_out s @ take k ?before" by simp
        with x s quiet(3) show ?thesis by (simp add: sent_append open_streamD sent_responses_take del: append_assoc take_append)
      next
        case (Inr s1)
        with read(2) c have x: "x = Inr r" "out = ss_out s1" by (auto simp: chat_stream_end_def)
        from w Inr have o: "ss_out s1 = ss_out s @ ?before @ [ResponseCompleted r]" by (simp add: writes_def)
        have one: "sent_text [ResponseCompleted r] = []" "sent_calls [ResponseCompleted r] = []" "sent_responses [ResponseCompleted r] = [r]"
          by (simp_all add: sent_defs)
        have lo: "sent_text out = ss_content s" "sent_calls out = map call_item_of calls" "sent_responses out = [r]"
          unfolding x(2) o using s one by (simp_all add: sent_append text_done_sent call_events_sent open_stream_def)
        have "last out = ResponseCompleted r" unfolding x(2) o by simp
        with x(1) lo completed_reply [OF c(3)] inspected_calls [of sha r] show ?thesis by auto
      qed
    qed
  qed
qed

definition sample_chunk :: "string \<Rightarrow> chat_reply_in option" where
  "sample_chunk p = (if p = ''c'' then Some \<lparr>cy_id = ''1'', cy_model = ''m'', cy_choices = [\<lparr>rc_index = 0, rc_role = [], rc_content = None,
     rc_calls = [], rc_delta = Some ''hi'', rc_delta_calls = [\<lparr>tp_index = 0, tp_id = ''k'', tp_name = ''virgil_ns_fs__read'', tp_args = ''{}''\<rparr>],
     rc_finish = Some ''tool_calls''\<rparr>], cy_usage = None\<rparr> else None)"

definition sample_chat_reads :: "line_read list" where
  "sample_chat_reads = map (\<lambda>l. \<lparr>lr_gone = False, lr_slices = [(l, SliceLine)], lr_gone_after = False\<rparr>)
     [''data: c'' @ [lf], ''data: [DONE]'' @ [lf], [lf]]"

lemma sample_translated:
  "case chat_parts sample_chunk (\<lambda>_. None) (split_on lf (''data: c'' @ [lf] @ ''data: [DONE]'' @ [lf] @ [lf])) new_chat_stream of
     Inr (True, s) \<Rightarrow> (case chat_stream_end (\<lambda>_. True) (\<lambda>_. None) s of (Inr r, out) \<Rightarrow> ro_output r = [MessageItem ''msg_1'' ''hi'', FunctionCall ''k'' ''fs.read'' ''{}'']
       | _ \<Rightarrow> False) | _ \<Rightarrow> False"
  by code_simp

lemma translated_stream_agrees_witness:
  "\<exists>r out. translate_chat_stream (\<lambda>_. True) sample_chunk (\<lambda>_. None) sample_chat_reads = Some (Inr r, out) \<and>
     sent_text out = ''hi'' \<and> sent_calls out = [FunctionCall ''k'' ''fs.read'' ''{}'']"
proof -
  let ?a = "''data: c'' @ [lf]" and ?b = "''data: [DONE]'' @ [lf]"
  have f: "trim_space ?a \<noteq> []" "trim_space ?b \<noteq> []" "trim_space [lf] = []" "length ?a = 8" "length ?b = 13" "?a \<noteq> []" "?b \<noteq> []"
    by code_simp+
  obtain s r out where s: "chat_parts sample_chunk (\<lambda>_. None) (split_on lf ((?a @ ?b) @ [lf])) new_chat_stream = Inr (True, s)"
    "chat_stream_end (\<lambda>_. True) (\<lambda>_. None) s = (Inr r, out)" "ro_output r = [MessageItem ''msg_1'' ''hi'', FunctionCall ''k'' ''fs.read'' ''{}'']"
    using sample_translated by (auto split: sum.splits prod.splits bool.splits)
  have 1: "chat_line sample_chunk (\<lambda>_. None) ?a ([], 0, new_chat_stream) = Inr (False, ?a, 8, new_chat_stream)"
    unfolding chat_line_def prod.case using f(1,4,6) by (simp del: append_Cons append.simps add: max_sse_frame_def max_responses_body_def)
  have 2: "chat_line sample_chunk (\<lambda>_. None) ?b (?a, 8, new_chat_stream) = Inr (False, ?a @ ?b, 21, new_chat_stream)"
    unfolding chat_line_def prod.case using f(2,4,5,7) by (simp del: append_Cons append.simps add: max_sse_frame_def max_responses_body_def)
  have 3: "chat_line sample_chunk (\<lambda>_. None) [lf] (?a @ ?b, 21, new_chat_stream) = Inr (True, [], 22, s)"
    unfolding chat_line_def prod.case s(1) using f(3,4,5) by (simp del: append_Cons append.simps add: max_sse_frame_def max_responses_body_def)
  have l: "read_line_bounded [(?a, SliceLine)] [] = Some (?a, None, False)" "read_line_bounded [(?b, SliceLine)] [] = Some (?b, None, False)"
    "read_line_bounded [([lf], SliceLine)] [] = Some ([lf], None, False)"
    using f(4,5) by (simp_all add: max_sse_frame_def slice_error_def)
  have "translate_chat_stream (\<lambda>_. True) sample_chunk (\<lambda>_. None) sample_chat_reads = Some (Inr r, out)"
    using 1 2 3 l s(2) by (simp del: append_Cons append.simps append_assoc add: translate_chat_stream_def sample_chat_reads_def)
  moreover from translated_stream_agrees [OF this, of "\<lambda>x. x"] s(3) have "sent_text out = ''hi''" "sent_calls out = [FunctionCall ''k'' ''fs.read'' ''{}'']"
    by (simp_all add: response_text_def response_calls_def)
  ultimately show ?thesis by blast
qed

end
