(* ===== verification/Responses_Call.thy ===== *)
theory Responses_Call
  imports Gateway_Call Responses_Chat
begin

text \<open>
  The Responses endpoint (\<open>internal/gateway/responses.go\<close>): the decoding of a request, its way to the provider as
  it is or as a chat request, the inspection of answers and streams, and the end of the call, which the
  Messages endpoint shares. Like the end of a chat call it keeps the contract \<open>settlement\<close>.
\<close>

section \<open>Decoding a request\<close>

definition request_fields :: "string list" where
  "request_fields = [''model'', ''input'', ''stream'', ''store'', ''background'', ''previous_response_id'', ''tools'', ''instructions'',
     ''tool_choice'', ''parallel_tool_calls'', ''max_output_tokens'', ''reasoning'', ''text'', ''include'', ''metadata'', ''truncation'',
     ''temperature'', ''top_p'', ''user'', ''prompt_cache_key'', ''safety_identifier'', ''service_tier'', ''client_metadata'']"

text \<open>Fields that are values, and pointers, for which \<open>null\<close> is no value.\<close>

definition bool_field :: "(string \<times> jvalue) list \<Rightarrow> string \<Rightarrow> bool option res" where
  "bool_field kvs name = (case struct_field kvs name of None \<Rightarrow> Inr None | Some VNull \<Rightarrow> Inr None | Some (VBool b) \<Rightarrow> Inr (Some b)
     | _ \<Rightarrow> Inl (Errorf ''json: cannot unmarshal''))"

definition int_field :: "(string \<times> jvalue) list \<Rightarrow> string \<Rightarrow> int option res" where
  "int_field kvs name = (case struct_field kvs name of None \<Rightarrow> Inr None | Some VNull \<Rightarrow> Inr None
     | Some (VInt n) \<Rightarrow> (if is_int64 n then Inr (Some n) else Inl (Errorf ''json: cannot unmarshal''))
     | _ \<Rightarrow> Inl (Errorf ''json: cannot unmarshal''))"

definition number_field :: "(string \<times> jvalue) list \<Rightarrow> string \<Rightarrow> jvalue option res" where
  "number_field kvs name = (case struct_field kvs name of None \<Rightarrow> Inr None | Some VNull \<Rightarrow> Inr None
     | Some (VInt n) \<Rightarrow> Inr (Some (VInt n)) | Some (VFloat x) \<Rightarrow> Inr (Some (VFloat x)) | _ \<Rightarrow> Inl (Errorf ''json: cannot unmarshal''))"

definition decode_responses :: "jvalue \<Rightarrow> responses_request res" where
  "decode_responses v = rbind (un_struct v) (\<lambda>kvs.
     if \<exists>(k, x) \<in> set kvs. \<not> list_ex (equal_fold k) request_fields then Inl (Errorf ''json: unknown field'')
     else rbind (string_field kvs ''model'') (\<lambda>model. rbind (bool_field kvs ''stream'') (\<lambda>stream.
       rbind (bool_field kvs ''store'') (\<lambda>store. rbind (bool_field kvs ''background'') (\<lambda>background.
       rbind (string_field kvs ''previous_response_id'') (\<lambda>previous. rbind (array_field kvs ''tools'') (\<lambda>tools.
       rbind (bool_field kvs ''parallel_tool_calls'') (\<lambda>parallel. rbind (int_field kvs ''max_output_tokens'') (\<lambda>max_tokens.
       rbind (string_field kvs ''truncation'') (\<lambda>truncation. rbind (number_field kvs ''temperature'') (\<lambda>temperature.
       rbind (number_field kvs ''top_p'') (\<lambda>top_p. rbind (string_field kvs ''user'') (\<lambda>user.
       rbind (string_field kvs ''prompt_cache_key'') (\<lambda>cache_key. rbind (string_field kvs ''safety_identifier'') (\<lambda>safety.
       rbind (string_field kvs ''service_tier'') (\<lambda>tier.
       Inr \<lparr>rq_model = model, rq_input = struct_field kvs ''input'', rq_stream = (stream = Some True), rq_store = store,
         rq_background = (background = Some True), rq_previous = previous, rq_tools = tools,
         rq_instructions = struct_field kvs ''instructions'', rq_choice = struct_field kvs ''tool_choice'', rq_parallel = parallel,
         rq_max_tokens = max_tokens, rq_reasoning = struct_field kvs ''reasoning'', rq_text = struct_field kvs ''text'',
         rq_include = struct_field kvs ''include'', rq_metadata = struct_field kvs ''metadata'', rq_truncation = truncation,
         rq_temperature = temperature, rq_top_p = top_p, rq_user = user, rq_cache_key = cache_key, rq_safety = safety, rq_tier = tier,
         rq_client_metadata = struct_field kvs ''client_metadata''\<rparr>))))))))))))))))"

section \<open>The way to the provider\<close>

text \<open>A body, decoded: its first value, \<open>None\<close> when it is not JSON, and whether something follows it.\<close>

type_synonym json_body = "jvalue option \<times> bool"

definition decode_body :: "json_body \<Rightarrow> responses_request res" where
  "decode_body b = (case fst b of None \<Rightarrow> Inl (Errorf ''json: syntax error'') | Some v \<Rightarrow> decode_responses v)"

datatype upstream_body = Native "(string \<times> jvalue) list" | Translated chat_out

record upstream_request =
  up_path :: string
  up_key :: string
  up_body :: upstream_body

text \<open>\<open>upstreamFields\<close>: the fields of the body without the client metadata, and with \<open>store\<close>.\<close>

definition upstream_fields :: "(string \<times> jvalue) list \<Rightarrow> bool option \<Rightarrow> (string \<times> jvalue) list" where
  "upstream_fields kvs store = (let fs = AList.delete ''client_metadata'' (AList.updates (map fst kvs) (map snd kvs) []) in
     if store = None then AList.update ''store'' (VBool False) fs else fs)"

definition responses_run :: "(string \<Rightarrow> string) \<Rightarrow> string option \<Rightarrow> request_identity \<Rightarrow> http_request \<Rightarrow> responses_request \<Rightarrow> string res" where
  "responses_run sha raw i hq rq =
     (let rid = (if ri_run_id i = ''desktop_codex''
        then (case rq_client_metadata rq of None \<Rightarrow> ri_run_id i
          | Some v \<Rightarrow> (case rbind (un_struct v) (\<lambda>kvs. string_field kvs ''session_id'') of Inl _ \<Rightarrow> ri_run_id i
              | Inr session \<Rightarrow> desktop_session_run_id sha ''codex'' session))
        else ri_run_id i) in
      if rid = [] then resolve_run_id raw (hq_run_id hq) else Inr rid)"

definition responses_body :: "(string \<Rightarrow> bool) \<Rightarrow> route \<Rightarrow> jvalue \<Rightarrow> responses_request \<Rightarrow> upstream_body res" where
  "responses_body valid rt v rq =
     (if rt_backend rt = ''chat-completions'' then rbind (build_chat_request valid rq) (\<lambda>out. Inr (Translated out))
      else rbind (un_struct v) (\<lambda>kvs. Inr (Native (upstream_fields kvs (rq_store rq)))))"

text \<open>\<open>base\<close>: the path of a base URL that has a host.\<close>

definition responses_prepare :: "(string \<Rightarrow> string) \<Rightarrow> (string \<Rightarrow> bool) \<Rightarrow> (string \<Rightarrow> string option) \<Rightarrow> router \<Rightarrow> identifiers \<Rightarrow> time \<Rightarrow>
    request_identity \<Rightarrow> http_request \<Rightarrow> json_body body_read \<Rightarrow> api_error + (model_call \<times> route \<times> bool \<times> upstream_request)" where
  "responses_prepare sha valid base gw ids started i hq body = (case read_error ''responses_request_too_large'' body of Inl e \<Rightarrow> Inl e
   | Inr b \<Rightarrow> (case parse_responses_request decode_body snd b of Inl _ \<Rightarrow> Inl (400, ''unsupported_request'')
     | Inr (rq, names) \<Rightarrow> (case gw_models gw (rq_model rq) of None \<Rightarrow> Inl (400, ''model_not_configured'')
       | Some rt \<Rightarrow> (if rt_type rt \<noteq> ''openai'' \<and> rt_type rt \<noteq> ''openai-compatible'' then Inl (400, ''unsupported_request'')
         else (case responses_body valid rt (the (fst b)) rq of Inl _ \<Rightarrow> Inl (400, ''unsupported_request'')
         | Inr upstream \<Rightarrow> (case key_of (gw_getenv gw) i hq (rt_key_env rt) of None \<Rightarrow> Inl (401, ''provider_key_required'')
           | Some key \<Rightarrow> (case responses_run sha (id_run_bytes ids) i hq rq of Inl _ \<Rightarrow> Inl (500, ''run_id_unavailable'')
             | Inr rid \<Rightarrow> (case new_trace (id_trace_bytes ids) (id_span_bytes ids) (hq_traceparent hq) of Inl _ \<Rightarrow> Inl (500, ''trace_unavailable'')
               | Inr trace \<Rightarrow> (case base (rt_base_url rt) of None \<Rightarrow> Inl (400, ''invalid_provider_config'')
                 | Some path \<Rightarrow> Inr (\<lparr>mc_run_id = rid, mc_trace = trace, mc_provider = rt_provider rt, mc_model = rq_model rq,
                     mc_tools = names, mc_started = started, mc_supervised = ri_supervised i, mc_prompt = []\<rparr>, rt, rq_stream rq,
                     \<lparr>up_path = trim_right_slashes path @ (if rt_backend rt = ''chat-completions'' then ''/chat/completions'' else ''/responses''),
                       up_key = key, up_body = upstream\<rparr>))))))))))"

section \<open>Streams of the Responses API\<close>

text \<open>The data lines of a frame. An event is its type and what its response decodes to.\<close>

fun response_parts :: "(string \<Rightarrow> string) \<Rightarrow> (string \<Rightarrow> (string \<times> responses_payload res) option) \<Rightarrow> string list \<Rightarrow> result \<Rightarrow> (result \<times> goerr) + result" where
  "response_parts sha unmarshal [] r = Inr r"
| "response_parts sha unmarshal (p # ps) r =
     (case (if has_prefix p ''data:'' then unmarshal (trim_space (drop 5 p)) else None) of None \<Rightarrow> response_parts sha unmarshal ps r
      | Some (ty, response) \<Rightarrow>
          (if ty = ''response.completed'' then (case inspect_responses_payload sha response of (parsed, Some e) \<Rightarrow> Inl (r, e)
             | (parsed, None) \<Rightarrow> response_parts sha unmarshal ps parsed)
           else if ty = ''response.failed'' then Inl (r\<lparr>re_status := ''provider_error'', re_error_code := ''provider_response_error''\<rparr>,
             Errorf ''provider response failed'')
           else response_parts sha unmarshal ps r))"

definition responses_line :: "(string \<Rightarrow> string) \<Rightarrow> (string \<Rightarrow> (string \<times> responses_payload res) option) \<Rightarrow> (string list \<Rightarrow> goerr option) \<Rightarrow> string \<Rightarrow>
    string \<times> nat \<times> result \<times> string list \<Rightarrow> stream_end + (string \<times> nat \<times> result \<times> string list)" where
  "responses_line sha unmarshal wr line st = (case st of (frame, sofar, r, out) \<Rightarrow>
     if line = [] then Inr (frame, sofar, r, out)
     else if length frame + length line > max_sse_frame \<or> sofar + length line > max_responses_body
       then Inl ((r, Some (Errorf ''Responses stream exceeds limit'')), stream_error wr ''provider_stream_error'' out)
     else if trim_space line \<noteq> [] then Inr (frame @ line, sofar + length line, r, out)
     else (case response_parts sha unmarshal (split_on lf (frame @ line)) r of
         Inl (r1, e) \<Rightarrow> Inl ((r1, Some e), stream_error wr ''provider_stream_error'' out)
       | Inr r1 \<Rightarrow> (case wr out of
           Some e \<Rightarrow> Inl ((r1\<lparr>re_status := ''client_cancelled'', re_error_code := ''client_cancelled''\<rparr>, Some e), out)
         | None \<Rightarrow> (if re_status r1 = ''success'' then Inl ((r1, None), out @ [frame @ line])
             else Inr ([], sofar + length line, r1, out @ [frame @ line])))))"

fun responses_reads :: "(string \<Rightarrow> string) \<Rightarrow> (string \<Rightarrow> (string \<times> responses_payload res) option) \<Rightarrow> (string list \<Rightarrow> goerr option) \<Rightarrow> line_read list \<Rightarrow>
    string \<times> nat \<times> result \<times> string list \<Rightarrow> stream_end option" where
  "responses_reads sha unmarshal wr [] st = None"
| "responses_reads sha unmarshal wr (x # xs) st = (case st of (frame, sofar, r, out) \<Rightarrow>
     if lr_gone x then Some ((r\<lparr>re_status := ''client_cancelled'', re_error_code := ''client_cancelled''\<rparr>, Some ErrContext), out)
     else (case read_line_bounded (lr_slices x) [] of None \<Rightarrow> None
       | Some (line, err, _) \<Rightarrow> (case responses_line sha unmarshal wr line st of Inl d \<Rightarrow> Some d
         | Inr st1 \<Rightarrow> (case err of None \<Rightarrow> responses_reads sha unmarshal wr xs st1
           | Some e \<Rightarrow> (case st1 of (_, _, r1, out1) \<Rightarrow> Some ((r1, Some e), stream_error wr ''provider_stream_error'' out1))))))"

definition interrupted_result :: result where
  "interrupted_result = transport_result\<lparr>re_error_code := ''provider_stream_error''\<rparr>"

definition stream_responses :: "(string \<Rightarrow> string) \<Rightarrow> (string \<Rightarrow> (string \<times> responses_payload res) option) \<Rightarrow> (string list \<Rightarrow> goerr option) \<Rightarrow>
    line_read list \<Rightarrow> stream_end option" where
  "stream_responses sha unmarshal wr xs = responses_reads sha unmarshal wr xs ([], 0, interrupted_result, [])"

section \<open>Answers\<close>

text \<open>What the provider sends back: the status, the reads of a stream, whether the client has gone by the end of it, whether a
  body could be read within its bound, and the body decoded as a response or as a chat answer.\<close>

record responses_answer =
  ra_status :: nat
  ra_reads :: "line_read list"
  ra_gone :: bool
  ra_readable :: bool
  ra_payload :: "responses_payload res"
  ra_reply :: "chat_reply_in res"

record decoders =
  dc_sha :: "string \<Rightarrow> string"
  dc_valid :: "string \<Rightarrow> bool"
  dc_event :: "string \<Rightarrow> (string \<times> responses_payload res) option"
  dc_chunk :: "string \<Rightarrow> chat_reply_in option"
  dc_write :: "string list \<Rightarrow> goerr option"
  dc_write_event :: "chat_event list \<Rightarrow> goerr option"

definition refused_by :: "result \<Rightarrow> string \<Rightarrow> result" where
  "refused_by r code = r\<lparr>re_status := ''provider_error'', re_error_code := code\<rparr>"

definition translated_answer :: "decoders \<Rightarrow> responses_answer \<Rightarrow> (result \<times> chat_reply) option" where
  "translated_answer dc ra = (case translate_chat_stream (dc_valid dc) (dc_chunk dc) (dc_write_event dc) (ra_reads ra) of None \<Rightarrow> None
   | Some (x, _) \<Rightarrow> (case (case x of Inl e \<Rightarrow> (transport_result, Some e) | Inr r \<Rightarrow> inspect_responses_payload (dc_sha dc) (Inr (payload_of r))) of
       (r, None) \<Rightarrow> Some (r, Relayed)
     | (r, Some _) \<Rightarrow> Some (if ra_gone ra then r\<lparr>re_status := ''client_cancelled'', re_error_code := ''client_cancelled''\<rparr>
         else refused_by r ''provider_stream_error'', Relayed)))"

definition whole_answer :: "decoders \<Rightarrow> route \<Rightarrow> responses_answer \<Rightarrow> result \<times> chat_reply" where
  "whole_answer dc rt ra =
     (let bad = GatewayError 502 ''provider_response_error'' in
      if \<not> ra_readable ra then (refused_by transport_result ''provider_response_error'', bad)
      else (case (if rt_backend rt = ''chat-completions'' then rbind (translate_chat_response (dc_valid dc) (ra_reply ra)) (\<lambda>r. Inr (Inr (payload_of r)))
            else Inr (ra_payload ra)) of
          Inl _ \<Rightarrow> (refused_by transport_result ''provider_response_error'', bad)
        | Inr payload \<Rightarrow> (case inspect_responses_payload (dc_sha dc) payload of
            (r, None) \<Rightarrow> (r, Relayed) | (r, Some _) \<Rightarrow> (refused_by r ''provider_response_error'', bad))))"

definition responses_reply :: "decoders \<Rightarrow> route \<Rightarrow> bool \<Rightarrow> responses_answer exchange \<Rightarrow> (result \<times> chat_reply) option" where
  "responses_reply dc rt wants_stream ex = (case ex of
     Unreachable gone \<Rightarrow> Some (if gone then transport_result\<lparr>re_status := ''client_cancelled'', re_error_code := ''client_cancelled''\<rparr>
         else transport_result, GatewayError 502 ''provider_transport_error'')
   | Response ra \<Rightarrow>
       (if ra_status ra < 200 \<or> 300 \<le> ra_status ra
        then Some (refused_by transport_result (''provider_http_'' @ show_nat (ra_status ra)), GatewayError (ra_status ra) ''provider_error'')
        else if wants_stream
        then (if rt_backend rt = ''chat-completions'' then translated_answer dc ra
          else map_option (\<lambda>d. (fst (fst d), Relayed)) (stream_responses (dc_sha dc) (dc_event dc) (dc_write dc) (ra_reads ra)))
        else Some (whole_answer dc rt ra)))"

section \<open>The end of a call\<close>

text \<open>An operation of the engine whose error is not even logged.\<close>

definition ignore_op :: "(engine \<Rightarrow> 'a \<times> engine) \<Rightarrow> core \<Rightarrow> core" where
  "ignore_op m s = s\<lparr>cs_engine := snd (m (cs_engine s))\<rparr>"

definition responses_price :: "router \<Rightarrow> string \<Rightarrow> string \<Rightarrow> price_table option" where
  "responses_price gw provider model = (case map_of (pg_models (gw_pricing gw)) model of
     Some e \<Rightarrow> Some (price_table_of gw (me_input e) (me_output e) (me_cached e))
   | None \<Rightarrow> map_option (\<lambda>p. price_table_of gw (en_input p) (en_output p) (en_cached p)) (lookup_price (gw_prices gw) provider model))"

text \<open>The result and its price; a success that cannot be priced costs the estimate, if there is one.\<close>

definition responses_cost :: "router \<Rightarrow> string \<Rightarrow> result \<Rightarrow> result \<times> priced" where
  "responses_cost gw provider r =
     (let (actual, version, currency) = (case (if re_usage_source r = ''provider'' then responses_price gw provider (re_model r) else None) of
          None \<Rightarrow> (None, [], [])
        | Some t \<Rightarrow> (if pt_input t = [] then (None, [], [])
            else (case calculate (from_result (re_usage_source r) (re_input r) (re_output r) (re_cached r)) t of Inl _ \<Rightarrow> (None, [], [])
              | Inr c \<Rightarrow> (co_actual c, pg_version (gw_pricing gw), pg_currency (gw_pricing gw)))));
          estimate = gr_est_cost (gw_guardrails gw) in
      if (actual = None \<or> actual = Some []) \<and> estimate \<noteq> [] \<and> re_status r = ''success''
      then (r\<lparr>re_usage_source := ''estimated''\<rparr>, (actual, Some estimate, version, currency))
      else (r, (actual, None, version, currency)))"

definition responses_counted :: "router \<Rightarrow> ending \<Rightarrow> model_call \<Rightarrow> string \<Rightarrow> result \<Rightarrow> core \<Rightarrow> core" where
  "responses_counted gw nd c res r s = (let held = (gw_has_policy gw \<and> res \<noteq> []);
     s1 = (if held \<and> re_status r \<in> set [''success'', ''provider_error'', ''transport_error'']
       then ignore_op (record_provider_outcome (nd_ctx_outcome nd) (nd_now_outcome nd) (mc_run_id c) (re_status r) (re_error_code r)) s else s) in
     if held \<and> re_fingerprints r \<noteq> []
     then ignore_op (record_tool_calls (nd_ctx_calls nd) (nd_now_calls nd) (mc_run_id c) (re_fingerprints r)) s1 else s1)"

definition settle_event :: "router \<Rightarrow> ending \<Rightarrow> model_call \<Rightarrow> string \<Rightarrow> result \<Rightarrow> string \<Rightarrow> event res \<Rightarrow> core \<Rightarrow> core" where
  "settle_event gw nd c res r cost x s = (case x of
     Inr ev \<Rightarrow> (if gw_recorder gw = JournalRecorder \<and> gw_has_policy gw \<and> res \<noteq> []
       then attempt_op ''journal_write_failed'' (on_journal
         (postflight_and_append (nd_now_day nd) (outcome_of (outcome_facts_of c res r cost)) ev [] cost)) s
       else if gw_recorder gw = NoRecorder then settle_postflight gw nd c res r cost s
       else attempt_op ''journal_write_failed'' (record_by (gw_recorder gw) (nd_wait nd) (nd_now_append nd) ev)
         (settle_postflight gw nd c res r cost s))
   | Inl _ \<Rightarrow> settle_postflight gw nd c res r cost s)"

definition record_responses_outcome :: "router \<Rightarrow> ending \<Rightarrow> model_call \<Rightarrow> string \<Rightarrow> result \<Rightarrow> core \<Rightarrow> core" where
  "record_responses_outcome gw nd c res r s =
     (let (r1, pc) = responses_cost gw (mc_provider c) r;
          cost = (case pc of (Some a, None, _) \<Rightarrow> a | (_, Some e, _) \<Rightarrow> e | _ \<Rightarrow> []) in
      settle_event gw nd c res r1 cost (rbind (build (nd_event_bytes nd) (attempt_of gw c r1 None pc (nd_ended nd))) prepare)
        (responses_counted gw nd c res r s))"

section \<open>The handler\<close>

text \<open>A call that is guarded, with an answer that may not come to an end.\<close>

definition guarded_exchange :: "(string \<Rightarrow> result \<Rightarrow> core \<Rightarrow> core) \<Rightarrow> router \<Rightarrow> surroundings \<Rightarrow> ending \<Rightarrow> (result \<times> chat_reply) option \<Rightarrow> model_call \<Rightarrow>
    core \<Rightarrow> (chat_reply call_reply \<times> core) option" where
  "guarded_exchange settle gw su nd answer c s = (case answer of
     Some a \<Rightarrow> Some (guarded_call settle gw su nd a c s)
   | None \<Rightarrow> (case admit gw su c s of (Admitted _, _) \<Rightarrow> None | _ \<Rightarrow> Some (guarded_call settle gw su nd (transport_result, Relayed) c s)))"

definition responses :: "decoders \<Rightarrow> (string \<Rightarrow> string option) \<Rightarrow> router \<Rightarrow> (upstream_request \<Rightarrow> responses_answer exchange) \<Rightarrow> identifiers \<Rightarrow> surroundings \<Rightarrow>
    ending \<Rightarrow> time \<Rightarrow> request_identity \<Rightarrow> http_request \<Rightarrow> json_body body_read \<Rightarrow> core \<Rightarrow> (chat_reply call_reply \<times> core) option" where
  "responses dc base gw send ids su nd started i hq body s =
     (case responses_prepare (dc_sha dc) (dc_valid dc) base gw ids started i hq body of Inl e \<Rightarrow> Some (Rejected e, s)
      | Inr (c, rt, wants_stream, q) \<Rightarrow>
          guarded_exchange (record_responses_outcome gw nd c) gw su nd (responses_reply dc rt wants_stream (send q)) c s)"

section \<open>The end of a call keeps the contract\<close>

lemma follows_ignore:
  assumes "follows s s'" "\<And>e. t_reservations (tbl (en_journal (snd (m e)))) = t_reservations (tbl (en_journal e))"
  shows "follows s (ignore_op m s')"
  using assms by (simp add: follows_def ignore_op_def)

lemma follows_responses_counted: "follows s (responses_counted gw nd c res r s)"
  by (auto simp: responses_counted_def Let_def record_tool_calls_reservations record_provider_outcome_reservations intro!: follows_ignore)

lemma settle_event_settles:
  assumes "gw_has_policy gw" "res \<noteq> []" "follows s s2"
  shows "settles_call res (mc_run_id c) s (settle_event gw nd c res r cost x s2)"
proof -
  note pf = settle_postflight_settles [OF assms(3,1,2)]
  consider "settle_event gw nd c res r cost x s2 = settle_postflight gw nd c res r cost s2"
    | (joint) ev where "settle_event gw nd c res r cost x s2 = attempt_op ''journal_write_failed'' (on_journal
        (postflight_and_append (nd_now_day nd) (outcome_of (outcome_facts_of c res r cost)) ev [] cost)) s2"
    | (both) ev where "settle_event gw nd c res r cost x s2 = attempt_op ''journal_write_failed''
        (record_by (gw_recorder gw) (nd_wait nd) (nd_now_append nd) ev) (settle_postflight gw nd c res r cost s2)"
    using assms(1,2) by (cases x; cases "gw_recorder gw") (auto simp: settle_event_def)
  then show ?thesis
  proof cases
    case joint
    then show ?thesis using settle_append_settles [OF assms(3)] by simp
  next
    case both
    show ?thesis unfolding both
      by (rule settles_then_follows [OF pf [THEN conjunct1] pf [THEN conjunct2]]) (rule follows_record [OF follows_refl])
  qed (use pf in simp)
qed

lemma settle_event_nothing: "follows s s2 \<Longrightarrow> follows s (settle_event gw nd c [] r cost x s2)"
  by (auto simp: settle_event_def settle_postflight_def intro!: follows_record split: sum.split)

lemma record_responses_settles:
  "gw_has_policy gw \<Longrightarrow> res \<noteq> [] \<Longrightarrow> settles_call res (mc_run_id c) s (record_responses_outcome gw nd c res r s)"
  unfolding record_responses_outcome_def Let_def case_prod_beta
  by (rule settle_event_settles [OF _ _ follows_responses_counted])

lemma record_responses_nothing: "follows s (record_responses_outcome gw nd c [] r s)"
  unfolding record_responses_outcome_def Let_def case_prod_beta
  by (rule settle_event_nothing [OF follows_responses_counted])

interpretation responses: settlement record_responses_outcome
  by unfold_locales (simp_all add: record_responses_settles record_responses_nothing)

section \<open>Calls of the Responses endpoint\<close>

lemma guarded_exchangeD:
  assumes "guarded_exchange settle gw su nd answer c s = Some (reply, s')"
  shows "\<exists>a. guarded_call settle gw su nd a c s = (reply, s') \<and> ((\<exists>x. reply = Answered x) \<longrightarrow> answer = Some a)"
proof (cases answer)
  case (Some a)
  with assms show ?thesis by (intro exI [of _ a]) (simp add: guarded_exchange_def)
next
  case None
  with assms show ?thesis by (auto simp: guarded_exchange_def guarded_call_def split: prod.splits admission.splits)
qed

lemma session_run_label: "kind = ''codex'' \<or> kind = ''claude'' \<Longrightarrow> label_pattern (desktop_session_run_id sha kind session)"
proof -
  assume k: "kind = ''codex'' \<or> kind = ''claude''"
  have h: "length (hex_encode (take 12 (sha session))) \<le> 24" "list_all label_char (hex_encode (take 12 (sha session)))"
    using hex_encode_lower by (auto simp: length_hex_encode list_all_iff is_hex_lower_label)
  have "label_pattern (''desktop_'' @ kind)" "list_all label_char (''desktop_'' @ kind @ ''_'')" "length kind \<le> 6"
    using k by (auto simp: label_pattern_def label_char_def is_alnum_def is_lower_def is_upper_def is_digit_def)
  with h show ?thesis by (auto simp: desktop_session_run_id_def Let_def label_pattern_def)
qed

lemma responses_run_label:
  assumes "responses_run sha raw i hq rq = Inr rid" "ri_run_id i = [] \<or> label_pattern (ri_run_id i)" "\<forall>bs. raw = Some bs \<longrightarrow> length bs = 16"
  shows "label_pattern rid"
proof -
  define rid0 where "rid0 = (if ri_run_id i = ''desktop_codex''
        then (case rq_client_metadata rq of None \<Rightarrow> ri_run_id i
          | Some v \<Rightarrow> (case rbind (un_struct v) (\<lambda>kvs. string_field kvs ''session_id'') of Inl _ \<Rightarrow> ri_run_id i
              | Inr session \<Rightarrow> desktop_session_run_id sha ''codex'' session))
        else ri_run_id i)"
  have "rid0 = [] \<or> label_pattern rid0"
    using assms(2) by (auto simp: rid0_def session_run_label split: option.split sum.split)
  moreover have "(if rid0 = [] then resolve_run_id raw (hq_run_id hq) else Inr rid0) = Inr rid"
    using assms(1) unfolding responses_run_def Let_def rid0_def .
  ultimately show ?thesis using assms(3)
    by (auto simp: resolve_run_id_def new_id_def intro!: label_pattern_run_prefix [simplified] split: if_splits option.splits)
qed

lemma guardrail_facts:
  "is_int64 (gr_est_input (gw_guardrails gw)) \<Longrightarrow> is_int64 (gr_est_output (gw_guardrails gw)) \<Longrightarrow> facts_int64 (facts_of gw c)"
  by (auto simp: facts_int64_def facts_of_def Let_def tokens_or_0_def is_int64_def min_int64_def max_int64_def)

text \<open>C30: A Responses call is guarded as a chat call is, however its provider is reached. When the handler has answered it
  with the provider, exactly one reservation was added, at an admission where all limits held for the tools that were
  checked, and it is reconciled at the end, or the log says that it is not. Otherwise no reservation was added,
  and a rejected request changes nothing.\<close>

theorem responses_call_is_guarded:
  assumes "responses dc base gw send ids su nd started i hq body s = Some (reply, s')" "gw_has_policy gw"
    and "ledger_ok (core_tables s)" "limits_ok (en_limits (cs_engine s))"
    and "is_int64 (gr_est_input (gw_guardrails gw))" "is_int64 (gr_est_output (gw_guardrails gw))"
    and "ri_run_id i = [] \<or> label_pattern (ri_run_id i)" "\<forall>bs. id_run_bytes ids = Some bs \<longrightarrow> length bs = 16"
    and "\<forall>bs. su_reservation_bytes su = Some bs \<longrightarrow> length bs = 16"
  shows "case reply of
      Answered _ \<Rightarrow> (\<exists>c rt ws q v t. responses_prepare (dc_sha dc) (dc_valid dc) base gw ids started i hq body = Inr (c, rt, ws, q) \<and>
        t_reservations t = t_reservations (core_tables s) @ [v] \<and>
        permits (en_limits (cs_engine s)) (call_after (su_now su) (mc_run_id c) (facts_of gw c) t) \<and>
        others (rv_id v) (core_tables s') = t_reservations (core_tables s) \<and>
        (reconciled (rv_id v) (mc_run_id c) (core_tables s') \<or> settle_failed s s'))
    | Rejected _ \<Rightarrow> s' = s
    | _ \<Rightarrow> t_reservations (core_tables s') = t_reservations (core_tables s)"
proof (cases "responses_prepare (dc_sha dc) (dc_valid dc) base gw ids started i hq body")
  case (Inl e)
  with assms(1) show ?thesis by (auto simp: responses_def)
next
  case (Inr p)
  obtain c rt ws q where p: "p = (c, rt, ws, q)" by (cases p)
  obtain rq where rid: "responses_run (dc_sha dc) (id_run_bytes ids) i hq rq = Inr (mc_run_id c)"
    using Inr p by (auto simp: responses_prepare_def split: sum.splits option.splits if_splits)
  note label = responses_run_label [OF rid assms(7,8)]
  have ne: "\<forall>bs. su_reservation_bytes su = Some bs \<longrightarrow> bs \<noteq> []" using assms(9) by auto
  obtain a where g: "guarded_call (record_responses_outcome gw nd c) gw su nd a c s = (reply, s')"
    using assms(1) Inr p guarded_exchangeD by (fastforce simp: responses_def)
  note r = responses.guarded [OF g assms(2-4) guardrail_facts [OF assms(5,6)] label ne]
  show ?thesis
  proof (cases reply)
    case (Rejected e)
    with g show ?thesis by (simp add: guarded_call_def split: prod.splits admission.splits)
  next
    case (Answered x)
    with r Inr p show ?thesis by auto
  qed (use r in auto)
qed

section \<open>Streams of the Responses endpoint\<close>

text \<open>The response events of a frame, and those that say that the response is complete.\<close>

definition frame_events :: "(string \<Rightarrow> (string \<times> responses_payload res) option) \<Rightarrow> string list \<Rightarrow> (string \<times> responses_payload res) list" where
  "frame_events unmarshal ps = concat (map (\<lambda>p. case (if has_prefix p ''data:'' then unmarshal (trim_space (drop 5 p)) else None) of
     None \<Rightarrow> [] | Some ev \<Rightarrow> [ev]) ps)"

definition completions :: "(string \<times> responses_payload res) list \<Rightarrow> responses_payload res list" where
  "completions evs = map snd (filter (\<lambda>(ty, x). ty = ''response.completed'') evs)"

lemma inspect_ok_status: "inspect_responses_payload sha x = (r, None) \<Longrightarrow> re_status r = ''success''"
  by (auto simp: inspect_responses_payload_def Let_def start_result_def split: sum.splits if_splits option.splits)

lemma response_parts_Cons:
  "response_parts sha unmarshal (p # ps) r = (case frame_events unmarshal [p] of [] \<Rightarrow> response_parts sha unmarshal ps r
     | (ty, response) # _ \<Rightarrow>
          (if ty = ''response.completed'' then (case inspect_responses_payload sha response of (parsed, Some e) \<Rightarrow> Inl (r, e)
             | (parsed, None) \<Rightarrow> response_parts sha unmarshal ps parsed)
           else if ty = ''response.failed'' then Inl (r\<lparr>re_status := ''provider_error'', re_error_code := ''provider_response_error''\<rparr>,
             Errorf ''provider response failed'')
           else response_parts sha unmarshal ps r))"
  by (simp add: frame_events_def split: option.split)

lemma frame_events_Cons: "frame_events unmarshal (p # ps) = frame_events unmarshal [p] @ frame_events unmarshal ps"
  by (simp add: frame_events_def)

lemma frame_events_one: "frame_events unmarshal [p] = [] \<or> (\<exists>ty x. frame_events unmarshal [p] = [(ty, x)])"
  by (auto simp: frame_events_def split: option.split)

lemma response_parts_done:
  "response_parts sha unmarshal ps r = Inr r1 \<Longrightarrow>
     r1 = r \<or> (\<exists>x \<in> set (completions (frame_events unmarshal ps)). inspect_responses_payload sha x = (r1, None))"
proof (induction ps arbitrary: r)
  case (Cons p ps)
  from frame_events_one [of unmarshal p] show ?case
  proof (elim disjE exE)
    assume e: "frame_events unmarshal [p] = []"
    with Cons.prems have "response_parts sha unmarshal ps r = Inr r1" unfolding response_parts_Cons by simp
    with Cons.IH e show ?thesis unfolding frame_events_Cons [of _ p ps] by simp
  next
    fix ty x
    assume e: "frame_events unmarshal [p] = [(ty, x)]"
    show ?thesis
    proof (cases "ty = ''response.completed''")
      case True
      with Cons.prems e obtain parsed where i: "inspect_responses_payload sha x = (parsed, None)" "response_parts sha unmarshal ps parsed = Inr r1"
        unfolding response_parts_Cons by (auto split: prod.splits option.splits)
      from Cons.IH [OF i(2)] i(1) True e show ?thesis unfolding frame_events_Cons [of _ p ps] by (auto simp: completions_def)
    next
      case False
      with Cons.prems e have "response_parts sha unmarshal ps r = Inr r1" unfolding response_parts_Cons by (auto split: if_splits)
      with Cons.IH e False show ?thesis unfolding frame_events_Cons [of _ p ps] by (auto simp: completions_def)
    qed
  qed
qed simp

lemma response_parts_failed:
  "response_parts sha unmarshal ps r = Inl (r1, e) \<Longrightarrow> re_status r1 = ''success'' \<Longrightarrow>
     (if re_status r = ''success'' then 1 else 2) \<le> length (completions (frame_events unmarshal ps))"
proof (induction ps arbitrary: r)
  case (Cons p ps)
  from frame_events_one [of unmarshal p] show ?case
  proof (elim disjE exE)
    assume e: "frame_events unmarshal [p] = []"
    with Cons.prems have "response_parts sha unmarshal ps r = Inl (r1, e)" unfolding response_parts_Cons by simp
    from Cons.IH [OF this Cons.prems(2)] e show ?thesis unfolding frame_events_Cons [of _ p ps] by simp
  next
    fix ty x
    assume e: "frame_events unmarshal [p] = [(ty, x)]"
    show ?thesis
    proof (cases "ty = ''response.completed''")
      case True
      obtain parsed err where i: "inspect_responses_payload sha x = (parsed, err)" by fastforce
      show ?thesis
      proof (cases err)
        case None
        with Cons.prems e True i have "response_parts sha unmarshal ps parsed = Inl (r1, e)" unfolding response_parts_Cons by simp
        from Cons.IH [OF this Cons.prems(2)] inspect_ok_status [of sha x parsed] i None True e show ?thesis
          unfolding frame_events_Cons [of _ p ps] by (auto simp: completions_def split: if_splits)
      next
        case (Some err')
        with Cons.prems e True i have "r1 = r" unfolding response_parts_Cons by simp
        with Cons.prems(2) True e show ?thesis unfolding frame_events_Cons [of _ p ps] by (simp add: completions_def)
      qed
    next
      case False
      with Cons.prems e have "response_parts sha unmarshal ps r = Inl (r1, e)" unfolding response_parts_Cons by (auto split: if_splits)
      from Cons.IH [OF this Cons.prems(2)] e False show ?thesis unfolding frame_events_Cons [of _ p ps] by (auto simp: completions_def)
    qed
  qed
qed simp

text \<open>What has been written when a stream ends, after \<open>out\<close> and for the input that was left.\<close>

definition relayed_to :: "(string \<Rightarrow> string) \<Rightarrow> (string \<Rightarrow> (string \<times> responses_payload res) option) \<Rightarrow> string list \<Rightarrow> string \<Rightarrow> result \<Rightarrow> goerr option \<Rightarrow>
    string list \<Rightarrow> bool" where
  "relayed_to sha unmarshal out input r e out' \<longleftrightarrow> (\<exists>relayed tail. out' = out @ relayed @ tail \<and> prefix (concat relayed) input \<and>
     (tail = [] \<or> tail = [error_event ''provider_stream_error'']) \<and>
     (if e = None then tail = [] \<and> concat relayed = input \<and> relayed \<noteq> [] \<and>
        (\<exists>x \<in> set (completions (frame_events unmarshal (split_on lf (last relayed)))). inspect_responses_payload sha x = (r, None))
      else re_status r = ''success'' \<longrightarrow> (\<exists>frame. sublist frame input \<and> 2 \<le> length (completions (frame_events unmarshal (split_on lf frame))))))"

lemma relayed_failed: "e \<noteq> None \<Longrightarrow> re_status r \<noteq> ''success'' \<Longrightarrow> relayed_to sha unmarshal out input r e out"
  unfolding relayed_to_def by (intro exI [of _ "[]"]) simp

lemma relayed_error:
  "e \<noteq> None \<Longrightarrow> re_status r \<noteq> ''success'' \<or> (\<exists>frame. sublist frame input \<and> 2 \<le> length (completions (frame_events unmarshal (split_on lf frame)))) \<Longrightarrow>
   relayed_to sha unmarshal out input r e (stream_error wr ''provider_stream_error'' out)"
  unfolding stream_error_def relayed_to_def
  by (cases "wr out", simp_all) (intro exI [of _ "[]"] exI [of _ "[error_event ''provider_stream_error'']"], auto)+

lemma relayed_more:
  assumes "relayed_to sha unmarshal (out @ [f]) input r e out'"
  shows "relayed_to sha unmarshal out (f @ input) r e out'"
proof -
  from assms obtain relayed tail where o: "out' = (out @ [f]) @ relayed @ tail" "prefix (concat relayed) input"
     "tail = [] \<or> tail = [error_event ''provider_stream_error'']"
     "if e = None then tail = [] \<and> concat relayed = input \<and> relayed \<noteq> [] \<and>
        (\<exists>x \<in> set (completions (frame_events unmarshal (split_on lf (last relayed)))). inspect_responses_payload sha x = (r, None))
      else re_status r = ''success'' \<longrightarrow> (\<exists>frame. sublist frame input \<and> 2 \<le> length (completions (frame_events unmarshal (split_on lf frame))))"
    unfolding relayed_to_def by blast
  from o(4) have "if e = None then tail = [] \<and> concat (f # relayed) = f @ input \<and> f # relayed \<noteq> [] \<and>
        (\<exists>x \<in> set (completions (frame_events unmarshal (split_on lf (last (f # relayed))))). inspect_responses_payload sha x = (r, None))
      else re_status r = ''success'' \<longrightarrow> (\<exists>frame. sublist frame (f @ input) \<and> 2 \<le> length (completions (frame_events unmarshal (split_on lf frame))))"
    by (auto split: if_splits simp: sublist_append)
  with o(1-3) show ?thesis unfolding relayed_to_def
    by (intro exI [of _ "f # relayed"] exI [of _ tail] conjI) simp_all
qed

lemma responses_line_end:
  assumes "responses_line sha unmarshal wr line (frame, n, r, out) = Inl ((r', e), out')" "re_status r \<noteq> ''success''"
  shows "relayed_to sha unmarshal out (frame @ line) r' e out'"
proof -
  have ne: "line \<noteq> []" using assms(1) by (auto simp: responses_line_def)
  show ?thesis
  proof (cases "length frame + length line > max_sse_frame \<or> n + length line > max_responses_body")
    case True
    with assms ne show ?thesis by (auto simp: responses_line_def intro!: relayed_error)
  next
    case False
    with assms(1) ne have t: "trim_space line = []" by (auto simp: responses_line_def split: if_splits)
    show ?thesis
    proof (cases "response_parts sha unmarshal (split_on lf (frame @ line)) r")
      case (Inl p)
      obtain r1 err where p: "p = (r1, err)" by (cases p)
      with assms(1) ne False t Inl have d: "r' = r1" "e = Some err" "out' = stream_error wr ''provider_stream_error'' out"
        by (auto simp: responses_line_def)
      have "re_status r1 = ''success'' \<Longrightarrow> 2 \<le> length (completions (frame_events unmarshal (split_on lf (frame @ line))))"
        using response_parts_failed [OF Inl [unfolded p]] assms(2) by simp
      then have "re_status r1 \<noteq> ''success'' \<or> (\<exists>f. sublist f (frame @ line) \<and> 2 \<le> length (completions (frame_events unmarshal (split_on lf f))))"
        by blast
      then show ?thesis unfolding d by (intro relayed_error) simp_all
    next
      case (Inr r1)
      show ?thesis
      proof (cases "wr out")
        case (Some err)
        with assms(1) ne False t Inr have "re_status r' \<noteq> ''success''" "e = Some err" "out' = out"
          by (auto simp: responses_line_def)
        then show ?thesis by (simp add: relayed_failed)
      next
        case None
        with assms(1) ne False t Inr have d: "re_status r1 = ''success''" "r' = r1" "e = None" "out' = out @ [frame @ line]"
          by (auto simp: responses_line_def split: if_splits)
        with response_parts_done [OF Inr] assms(2)
        have "\<exists>x \<in> set (completions (frame_events unmarshal (split_on lf (frame @ line)))). inspect_responses_payload sha x = (r', None)" by auto
        with d show ?thesis unfolding relayed_to_def
          by (intro exI [of _ "[frame @ line]"] exI [of _ "[]"]) simp
      qed
    qed
  qed
qed

lemma responses_line_more:
  assumes "responses_line sha unmarshal wr line (frame, n, r, out) = Inr (frame', n', r', out')" "re_status r \<noteq> ''success''"
  shows "re_status r' \<noteq> ''success'' \<and> (out' = out \<and> frame' = frame @ line \<or> out' = out @ [frame @ line] \<and> frame' = [])"
  using assms by (auto simp: responses_line_def split: if_splits sum.splits prod.splits option.splits)

lemma responses_reads_relayed:
  "responses_reads sha unmarshal wr xs (frame, n, r, out) = Some ((r', e), out') \<Longrightarrow> re_status r \<noteq> ''success'' \<Longrightarrow>
   \<exists>k \<le> length xs. relayed_to sha unmarshal out (frame @ concat (map line_of (take k xs))) r' e out'"
proof (induction xs arbitrary: frame n r out)
  case (Cons x xs)
  show ?case
  proof (cases "lr_gone x")
    case True
    with Cons.prems have "re_status r' \<noteq> ''success''" "e \<noteq> None" "out' = out" by auto
    then show ?thesis using relayed_failed by blast
  next
    case False
    then obtain line err eof where l: "read_line_bounded (lr_slices x) [] = Some (line, err, eof)"
      using Cons.prems(1) by (auto split: option.splits)
    then have lo: "line_of x = line" by (simp add: line_of_def)
    show ?thesis
    proof (cases "responses_line sha unmarshal wr line (frame, n, r, out)")
      case (Inl d)
      with Cons.prems(1) False l have "d = ((r', e), out')" by simp
      with Inl have "relayed_to sha unmarshal out (frame @ line) r' e out'" using responses_line_end Cons.prems(2) by blast
      then show ?thesis by (intro exI [of _ 1]) (simp add: lo)
    next
      case (Inr s)
      obtain frame1 n1 r1 out1 where s: "s = (frame1, n1, r1, out1)" by (cases s)
      note more = responses_line_more [OF Inr [unfolded s] Cons.prems(2)]
      have step: "relayed_to sha unmarshal out (frame @ line @ t) r' e out'" if "relayed_to sha unmarshal out1 (frame1 @ t) r' e out'" for t
        using more that relayed_more [of sha unmarshal out "frame @ line" t r' e out'] by auto
      show ?thesis
      proof (cases err)
        case None
        with Cons.prems(1) False l Inr s have "responses_reads sha unmarshal wr xs (frame1, n1, r1, out1) = Some ((r', e), out')" by simp
        with Cons.IH more obtain k where k: "k \<le> length xs"
          "relayed_to sha unmarshal out1 (frame1 @ concat (map line_of (take k xs))) r' e out'" by blast
        from k(1) step [OF k(2)] show ?thesis by (intro exI [of _ "Suc k"]) (simp add: lo)
      next
        case (Some y)
        with Cons.prems(1) False l Inr s more have "r' = r1" "re_status r' \<noteq> ''success''" "e \<noteq> None"
            "out' = stream_error wr ''provider_stream_error'' out1" by auto
        then have "relayed_to sha unmarshal out1 (frame1 @ []) r' e out'" by (auto intro: relayed_error)
        from step [OF this] show ?thesis by (intro exI [of _ 1]) (simp add: lo)
      qed
    qed
  qed
qed simp

text \<open>The relay of a Responses stream sends a prefix of the provider's bytes, cut at frame ends, and after it at most one error
  event. It ends without an error only when everything read was relayed and the last frame holds the completed
  response, whose inspection is what is recorded. It ends with an error and is recorded as a success only if one frame
  held two completed responses.\<close>

theorem responses_stream_relays:
  assumes "stream_responses sha unmarshal wr xs = Some ((r, e), out)"
  shows "\<exists>k relayed tail. k \<le> length xs \<and> out = relayed @ tail \<and> prefix (concat relayed) (concat (map line_of (take k xs))) \<and>
    (tail = [] \<or> tail = [error_event ''provider_stream_error'']) \<and>
    (if e = None then tail = [] \<and> concat relayed = concat (map line_of (take k xs)) \<and> relayed \<noteq> [] \<and>
       (\<exists>x \<in> set (completions (frame_events unmarshal (split_on lf (last relayed)))). inspect_responses_payload sha x = (r, None))
     else re_status r = ''success'' \<longrightarrow> (\<exists>frame. sublist frame (concat (map line_of (take k xs))) \<and>
       2 \<le> length (completions (frame_events unmarshal (split_on lf frame)))))"
proof -
  have "re_status interrupted_result \<noteq> ''success''" by (simp add: interrupted_result_def transport_result_def)
  from responses_reads_relayed [OF assms [unfolded stream_responses_def] this] obtain k
    where "k \<le> length xs" "relayed_to sha unmarshal [] (concat (map line_of (take k xs))) r e out" by auto
  then show ?thesis unfolding relayed_to_def append_Nil by blast
qed

definition sample_payload :: responses_payload where
  "sample_payload = \<lparr>rp_model = ''m'', rp_status = ''completed'', rp_usage = Some \<lparr>py_input = 7, py_output = 5, py_cached = None\<rparr>,
     rp_output = [(''function_call'', ''ls'', ''{}'')]\<rparr>"

definition sample_event :: "string \<Rightarrow> (string \<times> responses_payload res) option" where
  "sample_event p = (if p = ''c'' then Some (''response.completed'', Inr sample_payload) else None)"

lemma responses_stream_relays_witness:
  "\<exists>r out. stream_responses (\<lambda>s. s) sample_event (\<lambda>_. None)
       (map (\<lambda>l. \<lparr>lr_gone = False, lr_slices = [(l, SliceLine)], lr_gone_after = False\<rparr>) [''data: c'' @ [lf], [lf]]) = Some ((r, None), out) \<and>
     (\<exists>x. inspect_responses_payload (\<lambda>s. s) x = (r, None))"
proof -
  let ?a = "''data: c'' @ [lf]" and ?xs = "map (\<lambda>l. \<lparr>lr_gone = False, lr_slices = [(l, SliceLine)], lr_gone_after = False\<rparr>) [''data: c'' @ [lf], [lf]]"
  have f: "trim_space ?a \<noteq> []" "trim_space [lf] = []" "length ?a = 8" "?a \<noteq> []" by code_simp+
  define parts where "parts = response_parts (\<lambda>s. s) sample_event (split_on lf (?a @ [lf])) interrupted_result"
  have "case parts of Inr r \<Rightarrow> re_status r = ''success'' | _ \<Rightarrow> False" unfolding parts_def by code_simp
  then obtain r where p: "parts = Inr r" and st: "re_status r = ''success''" by (cases parts) simp_all
  note r = p [unfolded parts_def] st
  have 1: "responses_line (\<lambda>s. s) sample_event (\<lambda>_. None) ?a ([], 0, interrupted_result, []) = Inr (?a, 8, interrupted_result, [])"
    unfolding responses_line_def prod.case using f(1,3,4) by (simp del: append_Cons append.simps add: max_sse_frame_def max_responses_body_def)
  have 2: "responses_line (\<lambda>s. s) sample_event (\<lambda>_. None) [lf] (?a, 8, interrupted_result, []) = Inl ((r, None), [?a @ [lf]])"
    unfolding responses_line_def prod.case r(1) using f(2,3) r(2) by (simp del: append_Cons append.simps add: max_sse_frame_def max_responses_body_def)
  have l: "read_line_bounded [(?a, SliceLine)] [] = Some (?a, None, False)" "read_line_bounded [([lf], SliceLine)] [] = Some ([lf], None, False)"
    using f(3) by (simp_all add: max_sse_frame_def slice_error_def)
  have s: "stream_responses (\<lambda>s. s) sample_event (\<lambda>_. None) ?xs = Some ((r, None), [?a @ [lf]])"
    using 1 2 l by (simp del: append_Cons append.simps add: stream_responses_def)
  from responses_stream_relays [OF s] s show ?thesis by auto
qed

definition responses_router :: router where
  "responses_router = (sample_router ''openai'')\<lparr>gw_models := [''gpt-4o'' \<mapsto> sample_route\<lparr>rt_type := ''openai''\<rparr>]\<rparr>"

definition sample_decoders :: decoders where
  "sample_decoders = \<lparr>dc_sha = (\<lambda>s. s), dc_valid = (\<lambda>_. True), dc_event = sample_event, dc_chunk = (\<lambda>_. None), dc_write = (\<lambda>_. None),
     dc_write_event = (\<lambda>_. None)\<rparr>"

definition sample_body :: "json_body body_read" where
  "sample_body = BodyRead (Some (VObject [(''model'', VString ''gpt-4o''), (''input'', VString ''hi''), (''client_metadata'', VNull)]), False)"

definition sample_whole :: responses_answer where
  "sample_whole = \<lparr>ra_status = 200, ra_reads = [], ra_gone = False, ra_readable = True,
     ra_payload = Inr (sample_payload\<lparr>rp_output := []\<rparr>), ra_reply = Inl ErrContext\<rparr>"

definition sample_responses :: "(chat_reply call_reply \<times> core) option" where
  "sample_responses = responses sample_decoders (\<lambda>_. Some ''/v1'') responses_router (\<lambda>q. Response sample_whole) sample_identifiers sample_surroundings
     sample_ending 1 no_identity (sample_request\<lparr>hq_run_id := ''run-1''\<rparr>) sample_body (sample_core (new_journal ''i''))"

lemma sample_responses_runs:
  "(case sample_responses of Some (Answered Relayed, s) \<Rightarrow> cs_log s = [] \<and>
     map (\<lambda>v. (rv_run_id v, rv_reconciled v, rv_input v)) (t_reservations (core_tables s)) = [(''run-1'', True, 7)] | _ \<Rightarrow> False)"
  by code_simp

lemma responses_call_is_guarded_witness:
  "\<exists>s (c :: model_call). sample_responses = Some (Answered Relayed, s) \<and> (\<exists>v :: reservation. reconciled (rv_id v) (mc_run_id c) (core_tables s))"
proof -
  obtain s where c: "sample_responses = Some (Answered Relayed, s)" and r: "cs_log s = []"
    using sample_responses_runs by (auto split: option.splits prod.splits call_reply.splits chat_reply.splits)
  have l: "ledger_ok (core_tables (sample_core (new_journal ''i'')))" "limits_ok (en_limits (cs_engine (sample_core (new_journal ''i''))))"
    by (simp_all add: sample_core_def engine_of_sel new_journal_def ledger_ok_empty sample_limits_ok)
  have g: "is_int64 (gr_est_input (gw_guardrails responses_router))" "is_int64 (gr_est_output (gw_guardrails responses_router))"
    by code_simp+
  have p: "gw_has_policy responses_router" by (simp add: responses_router_def sample_router_def)
  have i: "ri_run_id no_identity = [] \<or> label_pattern (ri_run_id no_identity)" by (simp add: no_identity_def)
  have b: "\<forall>bs. id_run_bytes sample_identifiers = Some bs \<longrightarrow> length bs = 16" by (simp add: sample_identifiers_def)
  have rb: "\<forall>bs. su_reservation_bytes sample_surroundings = Some bs \<longrightarrow> length bs = 16" by (simp add: sample_surroundings_def)
  from responses_call_is_guarded [OF c [unfolded sample_responses_def] p l g i b rb, unfolded call_reply.case]
  obtain k :: model_call and v :: reservation
    where "reconciled (rv_id v) (mc_run_id k) (core_tables s) \<or> settle_failed (sample_core (new_journal ''i'')) s" by blast
  with r c show ?thesis by (auto simp: settle_failed_def)
qed

text \<open>A request whose tools are named twice, in two spellings, offers the provider tools that the policy has not seen.\<close>

lemma tools_can_be_smuggled:
  "map_option (\<lambda>b. rbind (parse_responses_request decode_body snd b) (\<lambda>(rq, names). rbind (responses_body (\<lambda>_. True) sample_route (the (fst b)) rq)
       (\<lambda>up. Inr (names, case up of Native kvs \<Rightarrow> map_of kvs ''tools'' \<noteq> None | _ \<Rightarrow> False))))
     (Some (Some (VObject [(''model'', VString ''m''), (''input'', VString ''hi''),
       (''tools'', VArray [VObject [(''type'', VString ''function''), (''name'', VString ''rm'')]]), (''Tools'', VArray [])]), False)) =
   Some (Inr ([], True))"
  by code_simp

end
