(* ===== verification/Messages_Call.thy ===== *)
theory Messages_Call
  imports Responses_Call
begin

text \<open>
  The Messages endpoint (\<open>internal/gateway/messages.go\<close>): the native interface of Anthropic clients. A body is
  forwarded as it is once its fields are known; whole and streamed answers are inspected for their usage and
  their tool calls, and the call ends as a Responses call does.
\<close>

section \<open>Decoding a request\<close>

definition allowed_messages_fields :: "string list" where
  "allowed_messages_fields = [''model'', ''max_tokens'', ''messages'', ''stream'', ''system'', ''tools'', ''tool_choice'', ''temperature'', ''top_p'',
     ''top_k'', ''stop_sequences'', ''metadata'', ''thinking'', ''output_config'', ''service_tier'']"

record messages_request =
  mq_model :: string
  mq_stream :: bool

definition messages_tool :: "jvalue \<Rightarrow> (string \<times> string) res" where
  "messages_tool v = rbind (un_struct v) (\<lambda>kvs. rbind (string_field kvs ''name'') (\<lambda>nm. rbind (string_field kvs ''type'') (\<lambda>ty. Inr (nm, ty))))"

text \<open>The request and the names of its tools.\<close>

definition parse_messages_request :: "jvalue option \<Rightarrow> (messages_request \<times> string list) res" where
  "parse_messages_request body = (case body of
     Some (VObject kvs) \<Rightarrow>
       (if \<exists>(k, x) \<in> set kvs. k \<notin> set allowed_messages_fields then Inl (Errorf ''unsupported Messages field'')
        else rbind (string_field kvs ''model'') (\<lambda>model. rbind (int_field kvs ''max_tokens'') (\<lambda>max_tokens.
          rbind (bool_field kvs ''stream'') (\<lambda>stream. rbind (array_field kvs ''tools'') (\<lambda>ts. rbind (each messages_tool ts) (\<lambda>tools.
          if model = [] \<or> (case max_tokens of None \<Rightarrow> 0 | Some n \<Rightarrow> n) \<le> 0 \<or> struct_field kvs ''messages'' = None \<or>
             struct_field kvs ''messages'' = Some VNull then Inl (Errorf ''invalid Messages request'')
          else if (case un_array (the (struct_field kvs ''messages'')) of Inl _ \<Rightarrow> True | Inr xs \<Rightarrow> xs = []) then Inl (Errorf ''messages required'')
          else if \<exists>(nm, ty) \<in> set tools. nm = [] \<or> (ty \<noteq> [] \<and> ty \<noteq> ''custom'') then Inl (Errorf ''unsupported tool'')
          else Inr (\<lparr>mq_model = model, mq_stream = (stream = Some True)\<rparr>, map fst tools)))))))
   | _ \<Rightarrow> Inl (Errorf ''invalid JSON object''))"

section \<open>Whole answers\<close>

text \<open>The content is the type, the name and the text of the input of each block.\<close>

record messages_payload =
  mp_resp_model :: string
  mp_in :: int
  mp_out :: int
  mp_read :: int
  mp_creation :: int
  mp_content :: "(string \<times> string \<times> string) list"

definition usage_fits :: "int \<Rightarrow> int \<Rightarrow> int \<Rightarrow> int \<Rightarrow> bool" where
  "usage_fits inp outp cache creation \<longleftrightarrow> 0 \<le> inp \<and> 0 \<le> outp \<and> 0 \<le> cache \<and> 0 \<le> creation \<and>
     inp \<le> max_int64 - cache \<and> inp + cache \<le> max_int64 - creation"

definition messages_result :: "string \<Rightarrow> string list \<Rightarrow> result" where
  "messages_result model fps = start_result\<lparr>re_model := model, re_usage_source := ''provider'', re_fingerprints := fps\<rparr>"

definition with_counts :: "int \<Rightarrow> int \<Rightarrow> int \<Rightarrow> result \<Rightarrow> result" where
  "with_counts inp outp cache r = r\<lparr>re_input := Some inp, re_output := Some outp, re_cached := Some cache\<rparr>"

definition inspect_messages_payload :: "(string \<Rightarrow> string) \<Rightarrow> messages_payload res \<Rightarrow> result \<times> goerr option" where
  "inspect_messages_payload sha raw = (case raw of Inl _ \<Rightarrow> (start_result, Some (Errorf ''invalid provider Messages response''))
   | Inr p \<Rightarrow>
       (if mp_resp_model p = [] \<or> \<not> usage_fits (mp_in p) (mp_out p) (mp_read p) (mp_creation p)
        then (start_result, Some (Errorf ''invalid provider Messages response''))
        else (with_counts (mp_in p + (mp_read p + mp_creation p)) (mp_out p) (mp_read p)
          (messages_result (mp_resp_model p) (map (\<lambda>(ty, n, x). item_fingerprint sha n x) (filter (\<lambda>(ty, n, x). ty = ''tool_use'') (mp_content p)))), None)))"

section \<open>Streams\<close>

record message_event =
  mv_type :: string
  mv_model :: string
  mv_input :: int
  mv_read :: int
  mv_creation :: int
  mv_output :: int
  mv_block_type :: string
  mv_block_name :: string
  mv_block_input :: string
  mv_delta_type :: string
  mv_partial :: string

text \<open>The counts of a result are pointers to the variables of the stream once \<open>mg_counted\<close> is set.\<close>

record message_stream =
  mg_model :: string
  mg_input :: int
  mg_output :: int
  mg_cache :: int
  mg_creation :: int
  mg_tools :: "string list"
  mg_name :: string
  mg_buffer :: string
  mg_result :: result
  mg_counted :: bool

definition new_message_stream :: message_stream where
  "new_message_stream = \<lparr>mg_model = [], mg_input = 0, mg_output = 0, mg_cache = 0, mg_creation = 0, mg_tools = [], mg_name = [], mg_buffer = [],
     mg_result = interrupted_result, mg_counted = False\<rparr>"

definition final_result :: "message_stream \<Rightarrow> result" where
  "final_result s = (if mg_counted s then with_counts (mg_input s) (mg_output s) (mg_cache s) (mg_result s) else mg_result s)"

definition message_step :: "(string \<Rightarrow> string) \<Rightarrow> message_event \<Rightarrow> message_stream \<Rightarrow> goerr \<times> message_stream + message_stream" where
  "message_step sha ev s =
     (if mv_type ev = ''message_start'' then
        Inr (s\<lparr>mg_model := mv_model ev, mg_input := mv_input ev, mg_cache := mv_read ev, mg_creation := mv_creation ev\<rparr>)
      else if mv_type ev = ''message_delta'' then Inr (s\<lparr>mg_output := mv_output ev\<rparr>)
      else if mv_type ev = ''content_block_start'' then
        Inr (if mv_block_type ev = ''tool_use'' then s\<lparr>mg_name := mv_block_name ev, mg_buffer := mv_block_input ev\<rparr> else s)
      else if mv_type ev = ''content_block_delta'' then
        Inr (if mv_delta_type ev = ''input_json_delta'' then s\<lparr>mg_buffer := mg_buffer s @ mv_partial ev\<rparr> else s)
      else if mv_type ev = ''content_block_stop'' then
        Inr (if mg_name s \<noteq> [] then s\<lparr>mg_tools := mg_tools s @ [item_fingerprint sha (mg_name s) (mg_buffer s)], mg_name := []\<rparr> else s)
      else if mv_type ev = ''message_stop'' then
        (if mg_model s = [] \<or> \<not> usage_fits (mg_input s) (mg_output s) (mg_cache s) (mg_creation s)
         then Inl (Errorf ''invalid Messages stream'', s)
         else Inr (s\<lparr>mg_input := mg_input s + (mg_cache s + mg_creation s), mg_result := messages_result (mg_model s) (mg_tools s), mg_counted := True\<rparr>))
      else if mv_type ev = ''error'' then
        Inl (Errorf ''provider stream error'', s\<lparr>mg_result := (mg_result s)\<lparr>re_status := ''provider_error'', re_error_code := ''provider_stream_error''\<rparr>\<rparr>)
      else Inr s)"

fun message_steps :: "(string \<Rightarrow> string) \<Rightarrow> message_event list \<Rightarrow> message_stream \<Rightarrow> goerr \<times> message_stream + message_stream" where
  "message_steps sha [] s = Inr s"
| "message_steps sha (ev # evs) s = (case message_step sha ev s of Inl e \<Rightarrow> Inl e | Inr s1 \<Rightarrow> message_steps sha evs s1)"

text \<open>The events of the data lines of a frame; a line that does not decode is passed over.\<close>

definition message_events :: "(string \<Rightarrow> message_event option) \<Rightarrow> string \<Rightarrow> message_event list" where
  "message_events unmarshal frame = concat (map (\<lambda>p. case (if has_prefix p ''data:'' then unmarshal (trim_space (drop 5 p)) else None) of
     None \<Rightarrow> [] | Some ev \<Rightarrow> [ev]) (split_on lf frame))"

definition messages_line :: "(string \<Rightarrow> string) \<Rightarrow> (string \<Rightarrow> message_event option) \<Rightarrow> (string list \<Rightarrow> goerr option) \<Rightarrow> string \<Rightarrow>
    string \<times> nat \<times> message_stream \<times> string list \<Rightarrow> stream_end + (string \<times> nat \<times> message_stream \<times> string list)" where
  "messages_line sha unmarshal wr line st = (case st of (frame, sofar, s, out) \<Rightarrow>
     if line = [] then Inr (frame, sofar, s, out)
     else if sofar + length line > max_responses_body \<or> length frame + length line > max_sse_frame
       then Inl ((final_result s, Some (Errorf ''Messages stream exceeds limit'')), out)
     else if trim_space line \<noteq> [] then Inr (frame @ line, sofar + length line, s, out)
     else (case message_steps sha (message_events unmarshal (frame @ line)) s of
         Inl (e, s1) \<Rightarrow> Inl ((final_result s1, Some e), out)
       | Inr s1 \<Rightarrow> (case wr out of
           Some e \<Rightarrow> Inl (((final_result s1)\<lparr>re_status := ''client_cancelled'', re_error_code := ''client_cancelled''\<rparr>, Some e), out)
         | None \<Rightarrow> (if re_status (mg_result s1) = ''success'' then Inl ((final_result s1, None), out @ [frame @ line])
             else Inr ([], sofar + length line, s1, out @ [frame @ line])))))"

fun messages_reads :: "(string \<Rightarrow> string) \<Rightarrow> (string \<Rightarrow> message_event option) \<Rightarrow> (string list \<Rightarrow> goerr option) \<Rightarrow> line_read list \<Rightarrow>
    string \<times> nat \<times> message_stream \<times> string list \<Rightarrow> stream_end option" where
  "messages_reads sha unmarshal wr [] st = None"
| "messages_reads sha unmarshal wr (x # xs) st = (case st of (frame, sofar, s, out) \<Rightarrow>
     if lr_gone x then Some (((final_result s)\<lparr>re_status := ''client_cancelled'', re_error_code := ''client_cancelled''\<rparr>, Some ErrContext), out)
     else (case read_line_bounded (lr_slices x) [] of None \<Rightarrow> None
       | Some (line, err, _) \<Rightarrow> (case messages_line sha unmarshal wr line st of Inl d \<Rightarrow> Some d
         | Inr st1 \<Rightarrow> (case err of None \<Rightarrow> messages_reads sha unmarshal wr xs st1
           | Some e \<Rightarrow> (case st1 of (_, _, s1, out1) \<Rightarrow> Some ((final_result s1, Some e), out1))))))"

definition stream_messages :: "(string \<Rightarrow> string) \<Rightarrow> (string \<Rightarrow> message_event option) \<Rightarrow> (string list \<Rightarrow> goerr option) \<Rightarrow> line_read list \<Rightarrow>
    stream_end option" where
  "stream_messages sha unmarshal wr xs = messages_reads sha unmarshal wr xs ([], 0, new_message_stream, [])"

section \<open>The handler\<close>

record messages_upstream =
  um_path :: string
  um_query :: string
  um_key :: string
  um_version :: string
  um_beta :: string
  um_body :: jvalue

record messages_headers =
  mh_query :: string
  mh_version :: string
  mh_beta :: string

definition messages_prepare :: "(string \<Rightarrow> string option) \<Rightarrow> router \<Rightarrow> identifiers \<Rightarrow> time \<Rightarrow> request_identity \<Rightarrow> http_request \<Rightarrow> messages_headers \<Rightarrow>
    jvalue option body_read \<Rightarrow> api_error + (model_call \<times> bool \<times> messages_upstream)" where
  "messages_prepare base gw ids started i hq mh body =
     (if mh_query mh \<noteq> [] \<and> mh_query mh \<noteq> ''beta=true'' then Inl (400, ''unsupported_request'')
      else (case body of BodyRead b \<Rightarrow> (case parse_messages_request b of Inl _ \<Rightarrow> Inl (400, ''unsupported_request'')
        | Inr (mq, names) \<Rightarrow> (case gw_models gw (mq_model mq) of None \<Rightarrow> Inl (400, ''model_not_configured'')
          | Some rt \<Rightarrow> (if rt_type rt \<noteq> ''anthropic'' then Inl (400, ''unsupported_request'')
            else (case key_of (gw_getenv gw) i hq (rt_key_env rt) of None \<Rightarrow> Inl (401, ''provider_key_required'')
            | Some key \<Rightarrow> (case run_of (id_run_bytes ids) i hq of Inl _ \<Rightarrow> Inl (500, ''run_id_unavailable'')
              | Inr rid \<Rightarrow> (case new_trace (id_trace_bytes ids) (id_span_bytes ids) (hq_traceparent hq) of Inl _ \<Rightarrow> Inl (500, ''trace_unavailable'')
                | Inr trace \<Rightarrow> (case base (rt_base_url rt) of None \<Rightarrow> Inl (400, ''invalid_provider_config'')
                  | Some path \<Rightarrow> Inr (\<lparr>mc_run_id = rid, mc_trace = trace, mc_provider = rt_provider rt, mc_model = mq_model mq,
                      mc_tools = names, mc_started = started, mc_supervised = ri_supervised i, mc_prompt = []\<rparr>, mq_stream mq,
                      \<lparr>um_path = trim_right_slashes path @ ''/messages'', um_query = mh_query mh, um_key = key,
                        um_version = (if mh_version mh = [] then ''2023-06-01'' else mh_version mh), um_beta = mh_beta mh, um_body = the b\<rparr>))))))))
      | _ \<Rightarrow> Inl (413, ''responses_request_too_large'')))"

record messages_answer =
  ma_status :: nat
  ma_reads :: "line_read list"
  ma_readable :: bool
  ma_payload :: "messages_payload res"

definition messages_reply :: "(string \<Rightarrow> string) \<Rightarrow> (string \<Rightarrow> message_event option) \<Rightarrow> (string list \<Rightarrow> goerr option) \<Rightarrow> bool \<Rightarrow>
    messages_answer exchange \<Rightarrow> (result \<times> chat_reply) option" where
  "messages_reply sha unmarshal wr wants_stream ex = (case ex of
     Unreachable _ \<Rightarrow> Some (transport_result, GatewayError 502 ''provider_transport_error'')
   | Response ma \<Rightarrow>
       (if ma_status ma < 200 \<or> 300 \<le> ma_status ma
        then Some (refused_by transport_result ''provider_http_error'', GatewayError (ma_status ma) ''provider_response_error'')
        else if wants_stream then map_option (\<lambda>d. (fst (fst d), Relayed)) (stream_messages sha unmarshal wr (ma_reads ma))
        else if \<not> ma_readable ma then Some (refused_by transport_result ''provider_response_error'', GatewayError 502 ''provider_response_error'')
        else (case inspect_messages_payload sha (ma_payload ma) of (r, None) \<Rightarrow> Some (r, Relayed)
          | (r, Some _) \<Rightarrow> Some (refused_by r ''provider_response_error'', GatewayError 502 ''provider_response_error''))))"

definition messages :: "(string \<Rightarrow> string) \<Rightarrow> (string \<Rightarrow> message_event option) \<Rightarrow> (string list \<Rightarrow> goerr option) \<Rightarrow> (string \<Rightarrow> string option) \<Rightarrow> router \<Rightarrow>
    (messages_upstream \<Rightarrow> messages_answer exchange) \<Rightarrow> identifiers \<Rightarrow> surroundings \<Rightarrow> ending \<Rightarrow> time \<Rightarrow> request_identity \<Rightarrow> http_request \<Rightarrow>
    messages_headers \<Rightarrow> jvalue option body_read \<Rightarrow> core \<Rightarrow> (chat_reply call_reply \<times> core) option" where
  "messages sha unmarshal wr base gw send ids su nd started i hq mh body s = (case messages_prepare base gw ids started i hq mh body of
     Inl e \<Rightarrow> Some (Rejected e, s)
   | Inr (c, wants_stream, q) \<Rightarrow>
       guarded_exchange (record_responses_outcome gw nd c) gw su nd (messages_reply sha unmarshal wr wants_stream (send q)) c s)"

section \<open>A streamed message is recorded as the whole one\<close>

text \<open>A message as a provider streams it: a tool block carries the text \<open>first\<close> of the input its start event has, and the
  pieces of the input that follow.\<close>

datatype streamed_block = StreamedText "string list" | StreamedTool string string "string list"

record streamed_message =
  sm_model :: string
  sm_in :: int
  sm_out :: int
  sm_read :: int
  sm_creation :: int
  sm_blocks :: "streamed_block list"

definition plain_event :: "string \<Rightarrow> message_event" where
  "plain_event ty = \<lparr>mv_type = ty, mv_model = [], mv_input = 0, mv_read = 0, mv_creation = 0, mv_output = 0, mv_block_type = [], mv_block_name = [],
     mv_block_input = [], mv_delta_type = [], mv_partial = []\<rparr>"

fun block_events :: "streamed_block \<Rightarrow> message_event list" where
  "block_events (StreamedText ts) = (plain_event ''content_block_start'')\<lparr>mv_block_type := ''text''\<rparr> #
     map (\<lambda>t. (plain_event ''content_block_delta'')\<lparr>mv_delta_type := ''text_delta''\<rparr>) ts @ [plain_event ''content_block_stop'']"
| "block_events (StreamedTool name first ts) =
     (plain_event ''content_block_start'')\<lparr>mv_block_type := ''tool_use'', mv_block_name := name, mv_block_input := first\<rparr> #
     map (\<lambda>t. (plain_event ''content_block_delta'')\<lparr>mv_delta_type := ''input_json_delta'', mv_partial := t\<rparr>) ts @ [plain_event ''content_block_stop'']"

definition events_of :: "streamed_message \<Rightarrow> message_event list" where
  "events_of m = (plain_event ''message_start'')\<lparr>mv_model := sm_model m, mv_input := sm_in m, mv_read := sm_read m, mv_creation := sm_creation m\<rparr> #
     concat (map block_events (sm_blocks m)) @ [(plain_event ''message_delta'')\<lparr>mv_output := sm_out m\<rparr>, plain_event ''message_stop'']"

text \<open>The same message as a whole answer: the input of a tool call is the text of its pieces, without what the start event
  carried.\<close>

definition whole_message :: "streamed_message \<Rightarrow> messages_payload" where
  "whole_message m = \<lparr>mp_resp_model = sm_model m, mp_in = sm_in m, mp_out = sm_out m, mp_read = sm_read m, mp_creation = sm_creation m,
     mp_content = map (\<lambda>b. case b of StreamedText ts \<Rightarrow> (''text'', [], []) | StreamedTool name first ts \<Rightarrow> (''tool_use'', name, concat ts))
       (sm_blocks m)\<rparr>"

lemma message_steps_append:
  "message_steps sha (a @ b) s = (case message_steps sha a s of Inl e \<Rightarrow> Inl e | Inr s1 \<Rightarrow> message_steps sha b s1)"
  by (induction a arbitrary: s) (auto split: sum.split)

lemma text_pieces:
  "message_steps sha (map (\<lambda>t. (plain_event ''content_block_delta'')\<lparr>mv_delta_type := ''text_delta''\<rparr>) ts) s = Inr s"
  by (induction ts) (simp_all add: message_step_def plain_event_def)

lemma input_pieces:
  "message_steps sha (map (\<lambda>t. (plain_event ''content_block_delta'')\<lparr>mv_delta_type := ''input_json_delta'', mv_partial := t\<rparr>) ts) s =
   Inr (s\<lparr>mg_buffer := mg_buffer s @ concat ts\<rparr>)"
  by (induction ts arbitrary: s) (simp_all add: message_step_def plain_event_def)

definition block_fingerprints :: "(string \<Rightarrow> string) \<Rightarrow> streamed_block \<Rightarrow> string list" where
  "block_fingerprints sha b = (case b of StreamedText _ \<Rightarrow> [] | StreamedTool name first ts \<Rightarrow> [item_fingerprint sha name (first @ concat ts)])"

lemma block_steps:
  assumes "mg_name s = []" "case b of StreamedText _ \<Rightarrow> True | StreamedTool name _ _ \<Rightarrow> name \<noteq> []"
  shows "\<exists>buf. message_steps sha (block_events b) s = Inr (s\<lparr>mg_tools := mg_tools s @ block_fingerprints sha b, mg_buffer := buf\<rparr>)"
proof -
  have start: "message_step sha ((plain_event ''content_block_start'')\<lparr>mv_block_type := ''text''\<rparr>) s = Inr s"
    "message_step sha ((plain_event ''content_block_start'')\<lparr>mv_block_type := ''tool_use'', mv_block_name := name, mv_block_input := first\<rparr>) s =
      Inr (s\<lparr>mg_name := name, mg_buffer := first\<rparr>)" for name first
    by (simp_all add: message_step_def plain_event_def)
  have stop: "message_step sha (plain_event ''content_block_stop'') t = Inr (if mg_name t \<noteq> []
      then t\<lparr>mg_tools := mg_tools t @ [item_fingerprint sha (mg_name t) (mg_buffer t)], mg_name := []\<rparr> else t)" for t
    by (simp add: message_step_def plain_event_def)
  show ?thesis
  proof (cases b)
    case (StreamedText ts)
    with assms(1) show ?thesis
      by (intro exI [of _ "mg_buffer s"]) (simp add: start stop message_steps_append text_pieces block_fingerprints_def)
  next
    case (StreamedTool name first ts)
    with assms show ?thesis
      by (intro exI [of _ "first @ concat ts"]) (simp add: start stop message_steps_append input_pieces block_fingerprints_def)
  qed
qed

lemma blocks_steps:
  "mg_name s = [] \<Longrightarrow> \<forall>b \<in> set bs. case b of StreamedText _ \<Rightarrow> True | StreamedTool name _ _ \<Rightarrow> name \<noteq> [] \<Longrightarrow>
   \<exists>buf. message_steps sha (concat (map block_events bs)) s =
     Inr (s\<lparr>mg_tools := mg_tools s @ concat (map (block_fingerprints sha) bs), mg_buffer := buf\<rparr>)"
proof (induction bs arbitrary: s)
  case (Cons b bs)
  then obtain buf where b: "message_steps sha (block_events b) s = Inr (s\<lparr>mg_tools := mg_tools s @ block_fingerprints sha b, mg_buffer := buf\<rparr>)"
    using block_steps [of s b sha] by auto
  from Cons.IH [of "s\<lparr>mg_tools := mg_tools s @ block_fingerprints sha b, mg_buffer := buf\<rparr>"] Cons.prems b show ?case
    by (auto simp: message_steps_append)
next
  case Nil
  show ?case by (intro exI [of _ "mg_buffer s"]) simp
qed

text \<open>The fingerprints of the whole message, and when they are those of the stream.\<close>

definition whole_fingerprints :: "(string \<Rightarrow> string) \<Rightarrow> streamed_message \<Rightarrow> string list" where
  "whole_fingerprints sha m = map (\<lambda>(ty, n, x). item_fingerprint sha n x) (filter (\<lambda>(ty, n, x). ty = ''tool_use'') (mp_content (whole_message m)))"

definition bare_starts :: "streamed_message \<Rightarrow> bool" where
  "bare_starts m \<longleftrightarrow> (\<forall>b \<in> set (sm_blocks m). case b of StreamedText _ \<Rightarrow> True | StreamedTool _ first _ \<Rightarrow> first = [])"

lemma whole_fingerprints_blocks:
  "whole_fingerprints sha m = concat (map (\<lambda>b. case b of StreamedText _ \<Rightarrow> [] | StreamedTool name first ts \<Rightarrow> [item_fingerprint sha name (concat ts)])
     (sm_blocks m))"
proof -
  have "map (\<lambda>(ty, n, x). item_fingerprint sha n x) (filter (\<lambda>(ty, n, x). ty = ''tool_use'')
      (map (\<lambda>b. case b of StreamedText ts \<Rightarrow> (''text'', [], []) | StreamedTool name first ts \<Rightarrow> (''tool_use'', name, concat ts)) bs)) =
    concat (map (\<lambda>b. case b of StreamedText _ \<Rightarrow> [] | StreamedTool name first ts \<Rightarrow> [item_fingerprint sha name (concat ts)]) bs)" for bs
    by (induction bs) (auto split: streamed_block.split)
  then show ?thesis by (simp add: whole_fingerprints_def whole_message_def)
qed

lemma hex_digit_inj: "d < 16 \<Longrightarrow> e < 16 \<Longrightarrow> hex_digit d = hex_digit e \<Longrightarrow> d = e"
proof -
  have all: "list_all (\<lambda>d. list_all (\<lambda>e. hex_digit d = hex_digit e \<longrightarrow> d = e) [0..<16]) [0..<16]" by code_simp
  assume "d < 16" "e < 16" "hex_digit d = hex_digit e"
  then show "d = e" using all unfolding list_all_iff by simp
qed

lemma hex_encode_inj: "hex_encode xs = hex_encode ys \<Longrightarrow> xs = ys"
proof (induction xs arbitrary: ys)
  case Nil
  then show ?case using length_hex_encode [of ys] by (simp add: hex_encode_def)
next
  case (Cons c xs)
  then obtain d zs where ys: "ys = d # zs" using length_hex_encode [of "c # xs"] length_hex_encode [of ys] by (cases ys) auto
  have lt: "of_char x div 16 < (16 :: nat)" for x using of_char_less_256 [of x] by (simp add: less_mult_imp_div_less)
  have "of_char c div 16 = (of_char d div 16 :: nat)" "of_char c mod 16 = (of_char d mod 16 :: nat)" "hex_encode xs = hex_encode zs"
    using Cons.prems hex_digit_inj [OF lt lt, of c d] hex_digit_inj [of "of_char c mod 16" "of_char d mod 16"]
    unfolding ys by (simp_all add: hex_encode_def)
  then have "of_char c = (of_char d :: nat)" "xs = zs" using Cons.IH by (metis mult_div_mod_eq, simp)
  then show ?case by (simp add: ys of_char_eq_iff)
qed

lemma item_fingerprint_inj: "inj sha \<Longrightarrow> item_fingerprint sha n x = item_fingerprint sha n y \<longleftrightarrow> x = y"
  by (auto simp: item_fingerprint_def dest!: hex_encode_inj injD)

lemma bare_fingerprints:
  shows "bare_starts m \<Longrightarrow> concat (map (block_fingerprints sha) (sm_blocks m)) = whole_fingerprints sha m"
    and "inj sha \<Longrightarrow> concat (map (block_fingerprints sha) (sm_blocks m)) = whole_fingerprints sha m \<Longrightarrow> bare_starts m"
proof -
  let ?w = "\<lambda>b. case b of StreamedText _ \<Rightarrow> [] | StreamedTool name first ts \<Rightarrow> [item_fingerprint sha name (concat ts)]"
  have "(\<forall>b \<in> set bs. case b of StreamedText _ \<Rightarrow> True | StreamedTool _ first _ \<Rightarrow> first = []) \<Longrightarrow>
      concat (map (block_fingerprints sha) bs) = concat (map ?w bs)" for bs
    by (induction bs) (auto simp: block_fingerprints_def split: streamed_block.splits)
  then show "bare_starts m \<Longrightarrow> concat (map (block_fingerprints sha) (sm_blocks m)) = whole_fingerprints sha m"
    by (simp add: bare_starts_def whole_fingerprints_blocks)
  have "\<forall>b \<in> set bs. case b of StreamedText _ \<Rightarrow> True | StreamedTool _ first _ \<Rightarrow> first = []"
    if "inj sha" "concat (map (block_fingerprints sha) bs) = concat (map ?w bs)" for bs
    using that(2)
  proof (induction bs)
    case (Cons b bs)
    have "length (block_fingerprints sha b) = length (?w b)" by (simp add: block_fingerprints_def split: streamed_block.split)
    with Cons.prems have "block_fingerprints sha b = ?w b" "concat (map (block_fingerprints sha) bs) = concat (map ?w bs)"
      by simp_all
    note this(1) and Cons.IH [OF this(2)]
    with that(1) show ?case
      by (cases b) (simp_all add: block_fingerprints_def item_fingerprint_inj)
  qed simp
  then show "inj sha \<Longrightarrow> concat (map (block_fingerprints sha) (sm_blocks m)) = whole_fingerprints sha m \<Longrightarrow> bare_starts m"
    by (simp add: bare_starts_def whole_fingerprints_blocks)
qed

text \<open>C32: Streaming a message changes nothing of what is recorded but the fingerprints of its tool calls, and these exactly
  when a start event carries an input. A message whose tools are named, cut into the events of a stream in any way, ends
  with an error exactly when the whole message is refused. Otherwise the counts, the cache, the model and the status recorded
  are those of the whole message; there is one fingerprint per tool call, in order, of the input of the start event
  followed by the pieces. They are the fingerprints of the whole message if no start event carries an input; with a hash without
  collisions, only then. The Messages API sends an empty object there, so its streamed calls are recorded with other fingerprints
  than the same calls in a whole answer.\<close>

theorem streamed_message_records_as_whole:
  assumes "\<forall>b \<in> set (sm_blocks m). case b of StreamedText _ \<Rightarrow> True | StreamedTool name _ _ \<Rightarrow> name \<noteq> []"
  shows "case message_steps sha (events_of m) new_message_stream of
      Inr s \<Rightarrow> \<exists>r. inspect_messages_payload sha (Inr (whole_message m)) = (r, None) \<and>
        re_fingerprints r = whole_fingerprints sha m \<and>
        re_fingerprints (final_result s) = concat (map (block_fingerprints sha) (sm_blocks m)) \<and>
        (final_result s)\<lparr>re_fingerprints := re_fingerprints r\<rparr> = r \<and>
        (bare_starts m \<longrightarrow> final_result s = r) \<and> (inj sha \<and> final_result s = r \<longrightarrow> bare_starts m)
    | Inl (e, s) \<Rightarrow> snd (inspect_messages_payload sha (Inr (whole_message m))) \<noteq> None \<and> re_status (final_result s) \<noteq> ''success''"
proof -
  let ?s0 = "new_message_stream\<lparr>mg_model := sm_model m, mg_input := sm_in m, mg_cache := sm_read m, mg_creation := sm_creation m\<rparr>"
  have start: "message_step sha ((plain_event ''message_start'')\<lparr>mv_model := sm_model m, mv_input := sm_in m, mv_read := sm_read m,
      mv_creation := sm_creation m\<rparr>) new_message_stream = Inr ?s0"
    by (simp add: message_step_def plain_event_def)
  have delta: "message_step sha ((plain_event ''message_delta'')\<lparr>mv_output := x\<rparr>) s = Inr (s\<lparr>mg_output := x\<rparr>)" for x s
    by (simp add: message_step_def plain_event_def)
  have "mg_name ?s0 = []" by (simp add: new_message_stream_def)
  from blocks_steps [OF this assms, of sha] obtain buf where
    "message_steps sha (concat (map block_events (sm_blocks m))) ?s0 =
      Inr (?s0\<lparr>mg_tools := concat (map (block_fingerprints sha) (sm_blocks m)), mg_buffer := buf\<rparr>)"
    by (auto simp: new_message_stream_def)
  then have steps: "message_steps sha (events_of m) new_message_stream = message_step sha (plain_event ''message_stop'')
      (?s0\<lparr>mg_tools := concat (map (block_fingerprints sha) (sm_blocks m)), mg_buffer := buf, mg_output := sm_out m\<rparr>)"
    by (simp add: events_of_def message_steps_append start delta split: sum.split)
  let ?fps = "concat (map (block_fingerprints sha) (sm_blocks m))"
  let ?r = "\<lambda>fps. with_counts (sm_in m + (sm_read m + sm_creation m)) (sm_out m) (sm_read m) (messages_result (sm_model m) fps)"
  show ?thesis
  proof (cases "sm_model m = [] \<or> \<not> usage_fits (sm_in m) (sm_out m) (sm_read m) (sm_creation m)")
    case True
    then show ?thesis
      unfolding steps by (auto simp: message_step_def plain_event_def inspect_messages_payload_def whole_message_def final_result_def
        new_message_stream_def interrupted_result_def transport_result_def)
  next
    case False
    from False have w: "inspect_messages_payload sha (Inr (whole_message m)) = (?r (whole_fingerprints sha m), None)"
      by (simp add: inspect_messages_payload_def whole_fingerprints_def) (simp add: whole_message_def)
    obtain s where s: "message_steps sha (events_of m) new_message_stream = Inr s" "final_result s = ?r ?fps"
      using False unfolding steps by (simp add: message_step_def plain_event_def final_result_def new_message_stream_def)
    have fp: "re_fingerprints (?r x) = x" "(?r x)\<lparr>re_fingerprints := y\<rparr> = ?r y" for x y
      by (simp_all add: with_counts_def messages_result_def)
    then have same: "?r ?fps = ?r (whole_fingerprints sha m) \<longleftrightarrow> ?fps = whole_fingerprints sha m" by metis
    show ?thesis using w s fp same bare_fingerprints [where m = m and sha = sha] by auto
  qed
qed

definition sample_message :: streamed_message where
  "sample_message = \<lparr>sm_model = ''m'', sm_in = 3, sm_out = 4, sm_read = 2, sm_creation = 1,
     sm_blocks = [StreamedText [''a'', ''b''], StreamedTool ''ls'' [] [''{'', ''}'']]\<rparr>"

text \<open>The same message as the Messages API streams it.\<close>

definition api_message :: streamed_message where
  "api_message = sample_message\<lparr>sm_blocks := [StreamedText [''a'', ''b''], StreamedTool ''ls'' ''{}'' [''{'', ''}'']]\<rparr>"

lemma streamed_message_records_as_whole_witness:
  "(\<exists>s. message_steps (\<lambda>x. x) (events_of sample_message) new_message_stream = Inr s \<and>
     inspect_messages_payload (\<lambda>x. x) (Inr (whole_message sample_message)) = (final_result s, None)) \<and>
   (\<exists>s r. message_steps (\<lambda>x. x) (events_of api_message) new_message_stream = Inr s \<and>
     inspect_messages_payload (\<lambda>x. x) (Inr (whole_message api_message)) = (r, None) \<and> final_result s \<noteq> r)"
proof -
  have ok: "case message_steps (\<lambda>x. x) (events_of sample_message) new_message_stream of Inl _ \<Rightarrow> False | Inr _ \<Rightarrow> True"
    "case message_steps (\<lambda>x. x) (events_of api_message) new_message_stream of Inl _ \<Rightarrow> False | Inr _ \<Rightarrow> True" by code_simp+
  have named: "\<forall>b \<in> set (sm_blocks m). case b of StreamedText _ \<Rightarrow> True | StreamedTool name _ _ \<Rightarrow> name \<noteq> []"
    if "m \<in> {sample_message, api_message}" for m
    using that by (auto simp: sample_message_def api_message_def)
  have "bare_starts sample_message" "\<not> bare_starts api_message" "inj (\<lambda>x :: string. x)"
    by (simp_all add: bare_starts_def sample_message_def api_message_def)
  with streamed_message_records_as_whole [of sample_message "\<lambda>x. x"] streamed_message_records_as_whole [of api_message "\<lambda>x. x"] named ok
  show ?thesis
    by (cases "message_steps (\<lambda>x. x) (events_of sample_message) new_message_stream";
        cases "message_steps (\<lambda>x. x) (events_of api_message) new_message_stream") auto
qed

section \<open>Calls of the Messages endpoint\<close>

lemma messages_call_is_guarded:
  assumes "messages sha unmarshal wr base gw send ids su nd started i hq mh body s = Some (reply, s')" "gw_has_policy gw"
    and "ledger_ok (core_tables s)" "limits_ok (en_limits (cs_engine s))"
    and "is_int64 (gr_est_input (gw_guardrails gw))" "is_int64 (gr_est_output (gw_guardrails gw))"
    and "ri_run_id i = [] \<or> label_pattern (ri_run_id i)" "\<forall>bs. id_run_bytes ids = Some bs \<longrightarrow> length bs = 16"
    and "\<forall>bs. su_reservation_bytes su = Some bs \<longrightarrow> length bs = 16" "reply = Answered x"
  shows "\<exists>c ws q v t. messages_prepare base gw ids started i hq mh body = Inr (c, ws, q) \<and>
    t_reservations t = t_reservations (core_tables s) @ [v] \<and>
    permits (en_limits (cs_engine s)) (call_after (su_now su) (mc_run_id c) (facts_of gw c) t) \<and>
    others (rv_id v) (core_tables s') = t_reservations (core_tables s) \<and>
    (reconciled (rv_id v) (mc_run_id c) (core_tables s') \<or> settle_failed s s')"
proof -
  obtain c ws q where p: "messages_prepare base gw ids started i hq mh body = Inr (c, ws, q)"
    using assms(1,10) by (auto simp: messages_def split: sum.splits)
  have "run_of (id_run_bytes ids) i hq = Inr (mc_run_id c)"
    using p by (auto simp: messages_prepare_def split: sum.splits option.splits if_splits body_read.splits)
  note label = run_of_label [OF this assms(7,8)]
  have ne: "\<forall>bs. su_reservation_bytes su = Some bs \<longrightarrow> bs \<noteq> []" using assms(9) by auto
  obtain a where g: "guarded_call (record_responses_outcome gw nd c) gw su nd a c s = (reply, s')"
    using assms(1) p guarded_exchangeD by (fastforce simp: messages_def)
  from responses.guarded [OF g assms(2-4) guardrail_facts [OF assms(5,6)] label ne] assms(10) p show ?thesis by auto
qed

end
