(* ===== verification/Env_File.thy ===== *)
theory Env_File
  imports Go_Strings
begin

text \<open>
  The local environment file that holds the credentials (\<open>internal/settings/credentials.go\<close>), how the core reads
  it at its start (\<open>loadDotEnv\<close> in \<open>internal/app/core.go\<close>), and the replacement of a stored by a finished copy
  (\<open>internal/settings/replace_unix.go\<close>). What each call of the operating system answers is a parameter; the
  content of a stored is \<open>None\<close> when there is no stored.
\<close>

section \<open>Replacing a file\<close>

record disk =
  dk_read :: "unit res"
  dk_mkdir :: "unit res"
  dk_create :: "unit res"
  dk_chmod :: "unit res"
  dk_write :: "unit res"
  dk_sync :: "unit res"
  dk_close :: "unit res"
  dk_protect :: "unit res"
  dk_rename :: "unit res"
  dk_dirsync :: "unit res"

definition failing :: "string \<Rightarrow> 'a res \<Rightarrow> 'a res" where
  "failing what r = (case r of Inl e \<Rightarrow> Inl (Wrapf what e) | Inr x \<Rightarrow> Inr x)"

text \<open>The copy is renamed onto the file, then the directory is synchronised: the answer and the file.\<close>

definition atomic_replace :: "disk \<Rightarrow> string option \<Rightarrow> string \<Rightarrow> unit res \<times> string option" where
  "atomic_replace d old new = (case dk_rename d of Inl e \<Rightarrow> (Inl e, old) | Inr _ \<Rightarrow> (dk_dirsync d, Some new))"

section \<open>Reading the environment file\<close>

text \<open>The environment of a process: \<open>os.Getenv\<close>, empty for a variable that is not set.\<close>

type_synonym environment = "string \<Rightarrow> string"

definition setenv :: "environment \<Rightarrow> string \<Rightarrow> string \<Rightarrow> environment" where
  "setenv env k v = (if k = [] \<or> CHR ''='' \<in> set k \<or> CHR 0x00 \<in> set k \<union> set v then env else env(k := v))"

definition is_quote :: "char \<Rightarrow> bool" where
  "is_quote c \<longleftrightarrow> c = CHR 0x22 \<or> c = CHR 0x27"

definition trim_quotes :: "string \<Rightarrow> string" where
  "trim_quotes s = rev (dropWhile is_quote (rev (dropWhile is_quote s)))"

text \<open>One line: the variable and the value it gives, unless it is empty, a comment or has no \<open>=\<close>.\<close>

definition env_line :: "string \<Rightarrow> (string \<times> string) option" where
  "env_line raw = (let line = trim_space raw in
     if line = [] \<or> has_prefix line ''#'' then None
     else (case cut (CHR ''='') line of (k, v, ok) \<Rightarrow>
       if \<not> ok \<or> trim_space k = [] then None else Some (trim_space k, trim_quotes (trim_space v))))"

definition load_line :: "string \<Rightarrow> environment \<Rightarrow> environment" where
  "load_line raw env = (case env_line raw of None \<Rightarrow> env
     | Some (k, v) \<Rightarrow> if env k = [] then setenv env k v else env)"

definition load_dot_env :: "string option \<Rightarrow> environment \<Rightarrow> environment" where
  "load_dot_env stored env = (case stored of None \<Rightarrow> env | Some content \<Rightarrow> fold load_line (split_on (CHR 0x0A) content) env)"

section \<open>Credentials\<close>

text \<open>\<open>^[A-Za-z_][A-Za-z0-9_]*$\<close>\<close>

definition credential_name :: "string \<Rightarrow> bool" where
  "credential_name s = (case s of [] \<Rightarrow> False
     | c # cs \<Rightarrow> (is_upper c \<or> is_lower c \<or> c = CHR ''_'') \<and> list_all (\<lambda>x. is_alnum x \<or> x = CHR ''_'') cs)"

definition gives_credential :: "string \<Rightarrow> string \<Rightarrow> bool" where
  "gives_credential name raw = (case cut (CHR ''='') (trim_space raw) of (k, v, found) \<Rightarrow>
     found \<and> trim_space k = name \<and> trim_quotes (trim_space v) \<noteq> [])"

definition has_credential :: "environment \<Rightarrow> string option \<Rightarrow> string \<Rightarrow> bool" where
  "has_credential env stored name \<longleftrightarrow> credential_name name \<and>
     (env name \<noteq> [] \<or> (case stored of None \<Rightarrow> False | Some content \<Rightarrow> list_ex (gives_credential name) (split_on (CHR 0x0A) content)))"

definition credential_value :: "string \<Rightarrow> bool" where
  "credential_value v \<longleftrightarrow> v \<noteq> [] \<and> length v \<le> 16384 \<and> trim_space v = v \<and>
     \<not> list_ex (\<lambda>c. c \<in> {CHR 0x0D, CHR 0x0A, CHR 0x00}) v \<and>
     \<not> has_prefix v [CHR 0x22] \<and> \<not> has_suffix v [CHR 0x22] \<and> \<not> has_prefix v [CHR 0x27] \<and> \<not> has_suffix v [CHR 0x27]"

text \<open>\<open>strings.ReplaceAll(s, "\r\n", "\n")\<close>\<close>

fun unix_lines :: "string \<Rightarrow> string" where
  "unix_lines [] = []"
| "unix_lines [c] = [c]"
| "unix_lines (c # d # s) = (if c = CHR 0x0D \<and> d = CHR 0x0A then CHR 0x0A # unix_lines s else c # unix_lines (d # s))"

definition names_variable :: "string \<Rightarrow> string \<Rightarrow> bool" where
  "names_variable name line = (case cut (CHR ''='') line of (k, _, found) \<Rightarrow> found \<and> trim_space k = name)"

text \<open>The first line of the variable is replaced, its other lines and the empty lines are dropped.\<close>

fun update_lines :: "string \<Rightarrow> string \<Rightarrow> bool \<Rightarrow> string list \<Rightarrow> string list" where
  "update_lines name val replaced [] = (if replaced then [] else [name @ CHR ''='' # val])"
| "update_lines name val replaced (line # ls) =
     (if line = [] then update_lines name val replaced ls
      else if names_variable name line
        then (if replaced then update_lines name val True ls else (name @ CHR ''='' # val) # update_lines name val True ls)
      else line # update_lines name val replaced ls)"

definition updated_text :: "string \<Rightarrow> string \<Rightarrow> string \<Rightarrow> string" where
  "updated_text name val content =
     join_with [CHR 0x0A] (update_lines name val False (split_on (CHR 0x0A) (unix_lines content))) @ [CHR 0x0A]"

definition write_copy :: "disk \<Rightarrow> string \<Rightarrow> string \<Rightarrow> string \<Rightarrow> unit res" where
  "write_copy d owner temporary copy =
     rbind (failing (''create '' @ owner @ '' directory'') (dk_mkdir d)) (\<lambda>_.
     rbind (failing (''create temporary '' @ temporary) (dk_create d)) (\<lambda>_.
     rbind (failing (''protect '' @ copy) (dk_chmod d)) (\<lambda>_.
     rbind (failing (''write '' @ copy) (dk_write d)) (\<lambda>_.
     rbind (failing (''sync '' @ copy) (dk_sync d)) (\<lambda>_.
       failing (''close '' @ copy) (dk_close d))))))"

text \<open>\<open>ended1\<close>, \<open>ended2\<close>: the context has ended when it is asked first and just before the replacement.\<close>

definition save_credential :: "disk \<Rightarrow> bool \<Rightarrow> bool \<Rightarrow> string \<Rightarrow> string \<Rightarrow> string option \<Rightarrow> unit res \<times> string option" where
  "save_credential d ended1 ended2 name val stored =
     (if \<not> credential_name name then (Inl (Errorf ''invalid credential name''), stored)
      else if \<not> credential_value val then (Inl (Errorf ''invalid credential value''), stored)
      else if ended1 then (Inl ErrContext, stored)
      else (case (case stored of None \<Rightarrow> Inr [] | Some content \<Rightarrow> rbind (dk_read d) (\<lambda>_. Inr content)) of
          Inl e \<Rightarrow> (Inl (Wrapf ''read credential file'' e), stored)
        | Inr content \<Rightarrow>
            (case write_copy d ''credential'' ''credential file'' ''credential file'' of Inl e \<Rightarrow> (Inl e, stored)
             | Inr _ \<Rightarrow>
                 if ended2 then (Inl ErrContext, stored)
                 else (case atomic_replace d stored (updated_text name val content) of
                    (r, stored') \<Rightarrow> (failing ''replace credential file'' r, stored')))))"

section \<open>Trimming\<close>

definition trim_right :: "string \<Rightarrow> string" where
  "trim_right s = rev (dropWhile is_space (rev s))"

lemma dropWhile_append_keep: "\<not> P y \<Longrightarrow> dropWhile P (xs @ y # ys) = dropWhile P xs @ y # ys"
  by (induction xs) auto

lemma trim_space_around:
  "\<not> is_space c \<Longrightarrow> trim_space (a @ c # b) = dropWhile is_space a @ c # trim_right b"
  by (simp add: trim_space_def trim_right_def dropWhile_append_keep)

lemma trim_space_dropWhile [simp]: "trim_space (dropWhile is_space a) = trim_space a"
  by (simp add: trim_space_def dropWhile_idem)

lemma dropWhile_id: "length (dropWhile P xs) \<ge> length xs \<Longrightarrow> dropWhile P xs = xs"
  by (metis dropWhile_eq_drop length_drop length_takeWhile_le diff_is_0_eq' diff_diff_cancel drop_0 le_antisym length_dropWhile_le)

lemma trim_right_id:
  assumes "trim_space v = v"
  shows "trim_right v = v"
proof -
  have "length v \<le> length (dropWhile is_space v)"
    using assms length_dropWhile_le [of is_space "rev (dropWhile is_space v)"] by (metis length_rev trim_space_def)
  then have "dropWhile is_space v = v" by (rule dropWhile_id)
  with assms show ?thesis by (simp add: trim_space_def trim_right_def)
qed

lemma trim_space_carriage: "trim_space (a @ [CHR 0x0D]) = trim_space a"
proof -
  have sp: "is_space (CHR 0x0D)" by (simp add: is_space_def)
  show ?thesis
  proof (cases "list_all is_space a")
    case True
    with sp have "list_all is_space (a @ [CHR 0x0D])" by simp
    with True show ?thesis by (simp add: trim_space_def dropWhile_all del: list_all_append)
  next
    case False
    then have "dropWhile is_space (a @ [CHR 0x0D]) = dropWhile is_space a @ [CHR 0x0D]"
      by (induction a) auto
    with sp show ?thesis by (simp add: trim_space_def)
  qed
qed

lemma alnum_plain:
  "is_alnum c \<or> c = CHR ''_'' \<Longrightarrow> \<not> is_space c \<and> c \<noteq> CHR ''='' \<and> c \<noteq> CHR 0x00 \<and> c \<noteq> CHR 0x0A \<and> c \<noteq> CHR ''#''"
  by (auto simp: is_alnum_def is_upper_def is_lower_def is_digit_def is_space_def less_eq_char_def)

lemma credential_nameD:
  assumes "credential_name name"
  shows "name \<noteq> []" "list_all (\<lambda>c. c \<noteq> CHR ''='') name" "CHR 0x00 \<notin> set name" "CHR 0x0A \<notin> set name" "trim_space name = name"
    "\<not> has_prefix (name @ rest) ''#''" "dropWhile is_space name = name"
proof -
  have ch: "\<forall>c \<in> set name. is_alnum c \<or> c = CHR ''_''"
    using assms by (auto simp: credential_name_def is_alnum_def list_all_iff split: list.splits)
  then have plain: "\<forall>c \<in> set name. \<not> is_space c \<and> c \<noteq> CHR ''='' \<and> c \<noteq> CHR 0x00 \<and> c \<noteq> CHR 0x0A \<and> c \<noteq> CHR ''#''"
    using alnum_plain by blast
  show ne: "name \<noteq> []" using assms by (auto simp: credential_name_def)
  from plain show "list_all (\<lambda>c. c \<noteq> CHR ''='') name" "CHR 0x00 \<notin> set name" "CHR 0x0A \<notin> set name"
    by (auto simp: list_all_iff)
  from plain ne show "\<not> has_prefix (name @ rest) ''#''" by (cases name) (auto simp: has_prefix_def)
  show dw: "dropWhile is_space name = name" using plain by (cases name) auto
  have "dropWhile is_space (rev name) = rev name"
    using plain by (cases name rule: rev_cases) auto
  with dw show "trim_space name = name" by (simp add: trim_space_def)
qed

section \<open>Lines\<close>

lemma env_line_names: "env_line raw = Some (k, v) \<Longrightarrow> names_variable k raw"
proof -
  assume "env_line raw = Some (k, v)"
  then obtain a b where c: "cut (CHR ''='') (trim_space raw) = (a, b, True)" "k = trim_space a"
    by (auto simp: env_line_def Let_def split: if_splits prod.splits)
  have sp: "\<not> is_space (CHR ''='')" by (simp add: is_space_def)
  obtain a' b' f where c': "cut (CHR ''='') raw = (a', b', f)" by (metis prod.exhaust)
  have f: f
  proof (rule ccontr)
    assume "\<not> f"
    then have "CHR ''='' \<notin> set raw" using c' cut_not_found by fastforce
    moreover have "set (trim_space raw) \<subseteq> set raw"
      by (auto simp: trim_space_def dest!: set_dropWhileD)
    ultimately show False using cut_found [OF c(1)] by auto
  qed
  with c' have r: "raw = a' @ CHR ''='' # b'" "list_all (\<lambda>c. c \<noteq> CHR ''='') a'" using cut_found by auto
  then have "trim_space raw = dropWhile is_space a' @ CHR ''='' # trim_right b'"
    using trim_space_around [OF sp] by simp
  moreover have "list_all (\<lambda>c. c \<noteq> CHR ''='') (dropWhile is_space a')"
    using r(2) by (auto simp: list_all_iff dest!: set_dropWhileD)
  ultimately have "cut (CHR ''='') (trim_space raw) = (dropWhile is_space a', trim_right b', True)"
    by (simp add: cut_append)
  with c(1) have "dropWhile is_space a' = a" by simp
  then have "trim_space a' = k" using c(2) trim_space_dropWhile [of a'] by simp
  with c' f show ?thesis by (simp add: names_variable_def)
qed

lemma trim_quotes_id:
  assumes "v \<noteq> []" "\<not> has_prefix v [CHR 0x22]" "\<not> has_suffix v [CHR 0x22]" "\<not> has_prefix v [CHR 0x27]" "\<not> has_suffix v [CHR 0x27]"
  shows "trim_quotes v = v"
proof -
  have "dropWhile is_quote v = v" using assms by (cases v) (auto simp: has_prefix_def is_quote_def)
  moreover have "dropWhile is_quote (rev v) = rev v"
    using assms by (cases v rule: rev_cases) (auto simp: has_suffix_def is_quote_def)
  ultimately show ?thesis by (simp add: trim_quotes_def)
qed

lemma env_line_saved:
  assumes n: "credential_name name" and v: "credential_value val"
  shows "env_line (name @ CHR ''='' # val) = Some (name, val)"
proof -
  have sp: "\<not> is_space (CHR ''='')" by (simp add: is_space_def)
  have t: "trim_space val = val" and q: "trim_quotes val = val"
    using v trim_quotes_id by (auto simp: credential_value_def)
  have "trim_space (name @ CHR ''='' # val) = name @ CHR ''='' # val"
    using trim_space_around [OF sp, of name val] credential_nameD(7) [OF n] trim_right_id [OF t] by simp
  with credential_nameD [OF n] t q show ?thesis by (simp add: env_line_def Let_def cut_append)
qed

lemma names_variable_saved: "credential_name name \<Longrightarrow> names_variable name (name @ CHR ''='' # val)"
  by (simp add: names_variable_def cut_append credential_nameD)

section \<open>What a variable is after loading\<close>

fun value_after :: "string \<Rightarrow> string list \<Rightarrow> string \<Rightarrow> string" where
  "value_after k [] x = x"
| "value_after k (l # ls) x = value_after k ls (case env_line l of None \<Rightarrow> x
     | Some (k', v) \<Rightarrow> if k' = k \<and> x = [] \<and> CHR ''='' \<notin> set k \<and> CHR 0x00 \<notin> set k \<union> set v then v else x)"

lemma env_line_key: "env_line l = Some (k, v) \<Longrightarrow> k \<noteq> []"
  by (auto simp: env_line_def Let_def split: if_splits prod.splits)

lemma load_value_after: "fold load_line ls env k = value_after k ls (env k)"
proof (induction ls arbitrary: env)
  case (Cons l ls)
  have "load_line l env k = (case env_line l of None \<Rightarrow> env k
     | Some (k', v) \<Rightarrow> if k' = k \<and> env k = [] \<and> CHR ''='' \<notin> set k \<and> CHR 0x00 \<notin> set k \<union> set v then v else env k)"
    using env_line_key by (auto simp: load_line_def setenv_def split: option.splits)
  with Cons show ?case by simp
qed simp

lemma value_after_kept: "x \<noteq> [] \<Longrightarrow> value_after k ls x = x"
  by (induction ls) (auto split: option.splits)

lemma env_line_nil [simp]: "env_line [] = None"
  by (simp add: env_line_def trim_space_def)

lemma load_line_nil [simp]: "load_line [] env = env"
  by (simp add: load_line_def)

lemma value_after_append: "value_after k (xs @ ys) x = value_after k ys (value_after k xs x)"
  by (induction xs arbitrary: x) simp_all

lemma env_line_other: "names_variable name l \<Longrightarrow> env_line l = Some (k, v) \<Longrightarrow> k = name"
  by (auto simp: names_variable_def dest: env_line_names)

lemma value_after_unnamed: "\<not> names_variable k l \<Longrightarrow> value_after k (l # ls) x = value_after k ls x"
  by (auto dest: env_line_names split: option.splits)

lemma update_lines_others:
  assumes n: "credential_name name" and k: "k \<noteq> name"
  shows "value_after k (update_lines name val r ls) x = value_after k ls x"
proof (induction ls arbitrary: r x)
  case Nil
  have "\<And>v. env_line (name @ CHR ''='' # val) \<noteq> Some (k, v)"
    using env_line_other names_variable_saved [OF n] k by blast
  then show ?case by (auto split: option.splits)
next
  case (Cons l ls)
  have "\<And>v. env_line (name @ CHR ''='' # val) \<noteq> Some (k, v)"
    using env_line_other names_variable_saved [OF n] k by blast
  moreover have "names_variable name l \<Longrightarrow> env_line l \<noteq> Some (k, v)" for v
    using env_line_other k by blast
  ultimately show ?case using Cons.IH by (auto split: option.splits)
qed

lemma update_lines_replaced:
  assumes "credential_name name"
  shows "value_after name (update_lines name val True ls) x = x"
proof (induction ls arbitrary: x)
  case (Cons l ls)
  have "\<not> names_variable name l \<Longrightarrow> env_line l \<noteq> Some (name, v)" for v using env_line_names by blast
  with Cons show ?case by (auto split: option.splits)
qed simp

lemma update_lines_given:
  assumes n: "credential_name name" and v: "credential_value val"
  shows "value_after name (update_lines name val False ls) x = (if x = [] then val else x)"
proof -
  have s: "value_after name [name @ CHR ''='' # val] x = (if x = [] then val else x)" for x
    using env_line_saved [OF n v] credential_nameD [OF n] v by (auto simp: credential_value_def list_all_iff list_ex_iff)
  show ?thesis
  proof (induction ls arbitrary: x)
    case Nil
    show ?case using s by simp
  next
    case (Cons l ls)
    consider "l = []" | "l \<noteq> []" "names_variable name l" | "l \<noteq> []" "\<not> names_variable name l" by blast
    then show ?case
    proof cases
      case 2
      then have "update_lines name val False (l # ls) = [name @ CHR ''='' # val] @ update_lines name val True ls" by simp
      with s update_lines_replaced [OF n] show ?thesis by (simp only: value_after_append)
    next
      case 3
      then have "update_lines name val False (l # ls) = l # update_lines name val False ls" by simp
      with Cons value_after_unnamed [OF 3(2)] show ?thesis by (simp only:)
    qed (simp add: Cons)
  qed
qed

section \<open>Line ends\<close>

definition carriage :: "string \<Rightarrow> string \<Rightarrow> bool" where
  "carriage a b \<longleftrightarrow> b = a \<or> b = a @ [CHR 0x0D]"

lemma carriage_Cons: "carriage (c # a) (c # b) \<longleftrightarrow> carriage a b"
  by (auto simp: carriage_def)

lemma split_on_other: "c \<noteq> sep \<Longrightarrow> split_on sep (c # s) = (c # hd (split_on sep s)) # tl (split_on sep s)"
  by (cases "split_on sep s") auto

lemma carriage_split_Cons:
  assumes "list_all2 carriage (split_on (CHR 0x0A) s) (split_on (CHR 0x0A) t)"
  shows "list_all2 carriage (split_on (CHR 0x0A) (c # s)) (split_on (CHR 0x0A) (c # t))"
proof (cases "c = CHR 0x0A")
  case True
  with assms show ?thesis by (simp add: carriage_def)
next
  case False
  obtain p ps q qs where "split_on (CHR 0x0A) s = p # ps" "split_on (CHR 0x0A) t = q # qs"
    by (meson list.exhaust split_on_nonempty)
  with assms False show ?thesis by (simp add: carriage_Cons)
qed

lemma unix_lines_carriage: "list_all2 carriage (split_on (CHR 0x0A) (unix_lines s)) (split_on (CHR 0x0A) s)"
proof (induction s rule: unix_lines.induct)
  case (3 c d s)
  show ?case
  proof (cases "c = CHR 0x0D \<and> d = CHR 0x0A")
    case True
    with 3 show ?thesis by (simp add: carriage_def)
  next
    case False
    then have "unix_lines (c # d # s) = c # unix_lines (d # s)" by simp
    moreover have "list_all2 carriage (split_on (CHR 0x0A) (unix_lines (d # s))) (split_on (CHR 0x0A) (d # s))"
      using 3 False by blast
    ultimately show ?thesis using carriage_split_Cons by metis
  qed
qed (simp_all add: carriage_def)

lemma env_line_carriage: "carriage a b \<Longrightarrow> env_line b = env_line a"
  by (auto simp: carriage_def env_line_def trim_space_carriage)

lemma value_after_carriage: "list_all2 carriage ls ms \<Longrightarrow> value_after k ms x = value_after k ls x"
  by (induction ls ms arbitrary: x rule: list_all2_induct) (simp_all add: env_line_carriage)

lemma split_on_lines: "sep \<notin> set a \<Longrightarrow> split_on sep (a @ sep # s) = a # split_on sep s"
  by (induction a) auto

lemma split_joined:
  assumes "ls \<noteq> []" "\<forall>l \<in> set ls. sep \<notin> set l"
  shows "split_on sep (join_with [sep] ls @ [sep]) = ls @ [[]]"
  using assms
proof (induction "[sep]" ls rule: join_with.induct)
  case (2 x)
  then show ?case using split_on_lines [of sep x "[]"] by simp
next
  case (3 x y ys)
  then show ?case using split_on_lines [of sep x "join_with [sep] (y # ys) @ [sep]"] by simp
qed simp

lemma split_on_clean: "\<forall>l \<in> set (split_on sep s). sep \<notin> set l"
  by (induction s) (auto split: list.splits)

lemma update_lines_set: "set (update_lines name val r ls) \<subseteq> insert (name @ CHR ''='' # val) (set ls)"
  by (induction ls arbitrary: r) auto

lemma update_lines_ne: "r \<or> update_lines name val r ls \<noteq> []"
  by (induction ls arbitrary: r) auto

lemma updated_text_lines:
  assumes n: "credential_name name" and v: "credential_value val"
  shows "split_on (CHR 0x0A) (updated_text name val content) =
    update_lines name val False (split_on (CHR 0x0A) (unix_lines content)) @ [[]]"
proof -
  have "CHR 0x0A \<notin> set (name @ CHR ''='' # val)"
    using credential_nameD(4) [OF n] v by (auto simp: credential_value_def list_ex_iff)
  then have "\<forall>l \<in> set (update_lines name val False (split_on (CHR 0x0A) (unix_lines content))). CHR 0x0A \<notin> set l"
    using update_lines_set [of name val False "split_on (CHR 0x0A) (unix_lines content)"]
      split_on_clean [of "CHR 0x0A" "unix_lines content"] by blast
  then show ?thesis
    unfolding updated_text_def using update_lines_ne [of False] by (intro split_joined) auto
qed

lemma load_updated_text:
  assumes n: "credential_name name" and v: "credential_value val"
  shows "load_dot_env (Some (updated_text name val content)) env k =
    (if k = name then (if env name = [] then val else env name) else load_dot_env (Some content) env k)"
  using update_lines_given [OF n v] update_lines_others [OF n] value_after_carriage [OF unix_lines_carriage [of content]]
  by (simp add: load_dot_env_def load_value_after updated_text_lines [OF n v] value_after_append)

lemma load_nothing: "load_dot_env (Some []) env = env"
  by (simp add: load_dot_env_def load_line_def)

section \<open>Saved credentials\<close>

lemma trim_space_hash: "\<exists>u. trim_space (CHR ''#'' # t) = CHR ''#'' # u"
  by (simp add: trim_space_def is_space_def dropWhile_append_keep)

lemma trim_set: "set (trim_space s) \<subseteq> set s" "set (trim_quotes s) \<subseteq> set s"
  by (auto simp: trim_space_def trim_quotes_def dest!: set_dropWhileD)

lemma env_line_set: "env_line l = Some (k, v) \<Longrightarrow> set v \<subseteq> set l"
proof -
  assume "env_line l = Some (k, v)"
  then obtain a b where c: "cut (CHR ''='') (trim_space l) = (a, b, True)" "v = trim_quotes (trim_space b)"
    by (auto simp: env_line_def Let_def split: if_splits prod.splits)
  then have "set b \<subseteq> set (trim_space l)" using cut_found [OF c(1)] by auto
  with c(2) trim_set(1) [of l] trim_set(1) [of b] trim_set(2) [of "trim_space b"] show ?thesis by blast
qed

lemma gives_credential_line:
  assumes n: "credential_name name"
  shows "gives_credential name l \<longleftrightarrow> (\<exists>v. env_line l = Some (name, v) \<and> v \<noteq> [])"
proof
  assume g: "gives_credential name l"
  then obtain a b where c: "cut (CHR ''='') (trim_space l) = (a, b, True)" "trim_space a = name" "trim_quotes (trim_space b) \<noteq> []"
    by (auto simp: gives_credential_def split: prod.splits)
  have l: "trim_space l = a @ CHR ''='' # b" using cut_found [OF c(1)] by simp
  have "\<not> has_prefix (trim_space l) ''#''"
  proof
    assume "has_prefix (trim_space l) ''#''"
    then have "\<exists>t. a = CHR ''#'' # t" using l by (cases a) (auto simp: has_prefix_def)
    then have "\<exists>u. name = CHR ''#'' # u"
      using c(2) trim_space_hash by blast
    with credential_nameD(6) [OF n, of "[]"] show False by (auto simp: has_prefix_def)
  qed
  moreover have "trim_space l \<noteq> []" using l by simp
  ultimately show "\<exists>v. env_line l = Some (name, v) \<and> v \<noteq> []"
    using c credential_nameD(1) [OF n] by (simp add: env_line_def Let_def)
qed (auto simp: env_line_def gives_credential_def Let_def split: if_splits prod.splits)

lemma split_on_subset: "l \<in> set (split_on sep s) \<Longrightarrow> set l \<subseteq> set s"
proof (induction s arbitrary: l)
  case (Cons c s)
  obtain p ps where "split_on sep s = p # ps" by (meson list.exhaust split_on_nonempty)
  with Cons show ?case by (fastforce split: if_splits)
qed simp

lemma value_after_given:
  assumes n: "credential_name name" and z: "\<forall>l \<in> set ls. CHR 0x00 \<notin> set l"
  shows "value_after name ls [] \<noteq> [] \<longleftrightarrow> list_ex (gives_credential name) ls"
  using z
proof (induction ls)
  case (Cons l ls)
  have z0: "CHR 0x00 \<notin> set v" if "env_line l = Some (k, v)" for k v
    using env_line_set [OF that] Cons.prems by auto
  have nm: "CHR ''='' \<notin> set name" "CHR 0x00 \<notin> set name" using credential_nameD [OF n] by (auto simp: list_all_iff)
  show ?case
  proof (cases "gives_credential name l")
    case True
    then obtain v where v: "env_line l = Some (name, v)" "v \<noteq> []" using gives_credential_line [OF n] by blast
    with z0 nm have "value_after name (l # ls) [] = value_after name ls v" by simp
    with True v value_after_kept show ?thesis by simp
  next
    case False
    then have "value_after name (l # ls) [] = value_after name ls []"
      using gives_credential_line [OF n] by (auto split: option.splits)
    with False Cons show ?thesis by simp
  qed
qed simp

lemma update_lines_mem: "name @ CHR ''='' # val \<in> set (update_lines name val False ls)"
  by (induction ls) auto

lemma failing_Inr [simp]: "failing m r = Inr x \<longleftrightarrow> r = Inr x"
  by (cases r) (simp_all add: failing_def)

lemma saved_file:
  assumes "save_credential d e1 e2 name val stored = (Inr (), stored')"
  shows "credential_name name \<and> credential_value val \<and>
    stored' = Some (updated_text name val (case stored of None \<Rightarrow> [] | Some content \<Rightarrow> content))"
  using assms by (auto simp: save_credential_def atomic_replace_def rbind_Inr_iff failing_def split: if_splits sum.splits option.splits)

text \<open>A credential that is saved is the one the core has after its next start, unless the variable is already
  set in its environment; every other variable gets exactly the value it had from the file before, whatever the
  file holds (comments, repeated lines, either kind of line end); and the panel reports the credential.\<close>

theorem saved_credential_is_loaded:
  assumes "save_credential d e1 e2 name val stored = (Inr (), stored')"
  shows "load_dot_env stored' env k = (if k = name then (if env name = [] then val else env name) else load_dot_env stored env k) \<and>
    has_credential env stored' name"
proof -
  define content where "content = (case stored of None \<Rightarrow> [] | Some t \<Rightarrow> t)"
  have f: "credential_name name" "credential_value val" "stored' = Some (updated_text name val content)"
    using saved_file [OF assms] by (simp_all add: content_def)
  have old: "load_dot_env (Some content) env = load_dot_env stored env"
    by (cases stored) (simp_all add: content_def load_nothing, simp add: load_dot_env_def)
  have "list_ex (gives_credential name) (split_on (CHR 0x0A) (updated_text name val content))"
    using update_lines_mem [of name val] env_line_saved [OF f(1,2)] gives_credential_line [OF f(1)] f(2)
    by (auto simp: updated_text_lines [OF f(1,2)] list_ex_iff credential_value_def intro!: bexI)
  with load_updated_text [OF f(1,2)] old f show ?thesis by (simp add: has_credential_def)
qed

definition plain_disk :: disk where
  "plain_disk = \<lparr>dk_read = Inr (), dk_mkdir = Inr (), dk_create = Inr (), dk_chmod = Inr (), dk_write = Inr (), dk_sync = Inr (),
     dk_close = Inr (), dk_protect = Inr (), dk_rename = Inr (), dk_dirsync = Inr ()\<rparr>"

definition sample_env_file :: string where
  "sample_env_file = ''# keys'' @ [CHR 0x0D, CHR 0x0A] @ ''KEY = old'' @ [CHR 0x0A, CHR 0x0A] @ ''OTHER='' @ [CHR 0x22, CHR ''x'', CHR 0x22] @ [CHR 0x0A] @ ''KEY=older''"

definition sample_env_after :: string where
  "sample_env_after = ''# keys'' @ [CHR 0x0A] @ ''KEY=sk-1'' @ [CHR 0x0A] @ ''OTHER='' @ [CHR 0x22, CHR ''x'', CHR 0x22] @ [CHR 0x0A]"

lemma saved_credential_is_loaded_witness:
  "load_dot_env (Some sample_env_after) (\<lambda>_. []) ''KEY'' = ''sk-1'' \<and> has_credential (\<lambda>_. []) (Some sample_env_after) ''KEY'' \<and>
   load_dot_env (Some sample_env_file) (\<lambda>_. []) ''KEY'' = ''old'' \<and> load_dot_env (Some sample_env_after) (\<lambda>_. []) ''OTHER'' = ''x''"
proof -
  have s: "save_credential plain_disk False False ''KEY'' ''sk-1'' (Some sample_env_file) = (Inr (), Some sample_env_after)"
    by code_simp
  have o: "load_dot_env (Some sample_env_file) (\<lambda>_. []) ''KEY'' = ''old''" "load_dot_env (Some sample_env_file) (\<lambda>_. []) ''OTHER'' = ''x''"
    by code_simp+
  show ?thesis
    using saved_credential_is_loaded [OF s, of "\<lambda>_. []" "''KEY''"] saved_credential_is_loaded [OF s, of "\<lambda>_. []" "''OTHER''"] o by simp
qed

text \<open>What the panel says of a credential is what the core finds: a credential is reported exactly when the
  variable is not empty after the environment file has been loaded.\<close>

theorem reported_credentials_load:
  assumes "case stored of None \<Rightarrow> True | Some content \<Rightarrow> CHR 0x00 \<notin> set content"
  shows "has_credential env stored name \<longleftrightarrow> credential_name name \<and> load_dot_env stored env name \<noteq> []"
proof (cases "credential_name name")
  case n: True
  show ?thesis
  proof (cases stored)
    case None
    with n show ?thesis by (simp add: has_credential_def load_dot_env_def)
  next
    case (Some content)
    have "\<forall>l \<in> set (split_on (CHR 0x0A) content). CHR 0x00 \<notin> set l"
      using split_on_subset [of _ "CHR 0x0A" content] assms Some by auto
    from value_after_given [OF n this] value_after_kept [of "env name" name] Some n show ?thesis
      by (cases "env name = []") (simp_all add: has_credential_def load_dot_env_def load_value_after)
  qed
qed (simp add: has_credential_def)

lemma reported_credentials_load_witness:
  "has_credential (\<lambda>_. []) (Some sample_env_file) ''OTHER'' \<and> \<not> has_credential (\<lambda>_. []) (Some sample_env_file) ''NONE''"
proof -
  have z: "case Some sample_env_file of None \<Rightarrow> True | Some content \<Rightarrow> CHR 0x00 \<notin> set content" by code_simp
  have o: "load_dot_env (Some sample_env_file) (\<lambda>_. []) ''OTHER'' = ''x''" "load_dot_env (Some sample_env_file) (\<lambda>_. []) ''NONE'' = []"
    "credential_name ''OTHER''" by code_simp+
  show ?thesis using reported_credentials_load [OF z, of "\<lambda>_. []"] o by simp
qed

end
