(* ===== verification/Settings.thy ===== *)
theory Settings
  imports Provider_Registry Env_File
begin

text \<open>
  The store of the settings (\<open>internal/settings/store.go\<close>): how the panel changes the configuration file. The TOML
  encoder and decoder are parameters, and so is what each call of the operating system answers (\<open>disk\<close>).
\<close>

section \<open>The file\<close>

record toml =
  tm_decode :: "string \<Rightarrow> config res"
  tm_encode :: "config \<Rightarrow> string res"

definition err_not_exist :: goerr where
  "err_not_exist = Errorf ''file does not exist''"

text \<open>\<open>config.Load\<close> of a file: reading, decoding over the defaults, checking.\<close>

definition load_file :: "config_world \<Rightarrow> toml \<Rightarrow> string option \<Rightarrow> config res" where
  "load_file w t stored = (case stored of None \<Rightarrow> Inl (Wrapf ''read config'' err_not_exist) | Some raw \<Rightarrow> load w (tm_decode t raw))"

section \<open>Update\<close>

text \<open>The key of a provider is written as a reference to its variable.\<close>

definition key_reference :: "provider_config \<Rightarrow> provider_config" where
  "key_reference p = (if pc_key_env p \<noteq> [] then p\<lparr>pc_api_key := ''${'' @ pc_key_env p @ ''}''\<rparr> else p)"

definition reference_keys :: "config \<Rightarrow> config" where
  "reference_keys c = c\<lparr>cf_providers := map (\<lambda>(n, p). (n, key_reference p)) (cf_providers c)\<rparr>"

text \<open>The text an update writes: the file decoded (not loaded, so references stay references), changed, encoded.\<close>

definition updated_config :: "toml \<Rightarrow> (config \<Rightarrow> config res) \<Rightarrow> string \<Rightarrow> string res" where
  "updated_config t mutate raw =
     rbind (failing ''parse config'' (tm_decode t raw)) (\<lambda>c. rbind (mutate c) (\<lambda>c'.
       failing ''encode config'' (tm_encode t (reference_keys c'))))"

definition validate_copy :: "config_world \<Rightarrow> net_world \<Rightarrow> toml \<Rightarrow> string \<Rightarrow> unit res" where
  "validate_copy w nw t raw =
     rbind (failing ''validate config'' (load w (tm_decode t raw))) (\<lambda>c. failing ''validate providers'' (validate_config nw c))"

text \<open>Everything up to the replacement; \<open>ended1\<close>, \<open>ended2\<close>: the context has ended when it is asked.\<close>

definition prepare_update :: "config_world \<Rightarrow> net_world \<Rightarrow> toml \<Rightarrow> disk \<Rightarrow> bool \<Rightarrow> bool \<Rightarrow> (config \<Rightarrow> config res) option \<Rightarrow>
    string option \<Rightarrow> string res" where
  "prepare_update w nw t d ended1 ended2 mutate stored =
     (case mutate of None \<Rightarrow> Inl (Errorf ''settings mutation is required'')
      | Some m \<Rightarrow>
        rbind (if ended1 then Inl ErrContext else Inr ()) (\<lambda>_.
        rbind (load_file w t stored) (\<lambda>_.
        rbind (failing ''read config'' (dk_read d)) (\<lambda>_.
        rbind (updated_config t m (the stored)) (\<lambda>raw.
        rbind (write_copy d ''config'' ''config'' ''temporary config'') (\<lambda>_.
        rbind (if ended2 then Inl ErrContext else Inr ()) (\<lambda>_.
        rbind (validate_copy w nw t raw) (\<lambda>_.
        rbind (failing ''protect config'' (dk_protect d)) (\<lambda>_. Inr raw)))))))))"

definition store_update :: "config_world \<Rightarrow> net_world \<Rightarrow> toml \<Rightarrow> disk \<Rightarrow> bool \<Rightarrow> bool \<Rightarrow> (config \<Rightarrow> config res) option \<Rightarrow>
    string option \<Rightarrow> unit res \<times> string option" where
  "store_update w nw t d ended1 ended2 mutate stored =
     (case prepare_update w nw t d ended1 ended2 mutate stored of Inl e \<Rightarrow> (Inl e, stored)
      | Inr raw \<Rightarrow> (case atomic_replace d stored raw of (r, stored') \<Rightarrow> (failing ''replace config'' r, stored')))"

section \<open>What an update leaves behind\<close>

text \<open>A file the core starts with.\<close>

definition startable :: "config_world \<Rightarrow> net_world \<Rightarrow> toml \<Rightarrow> string option \<Rightarrow> bool" where
  "startable w nw t stored \<longleftrightarrow> (\<exists>raw. stored = Some raw \<and> is_ok (validate_copy w nw t raw))"

text \<open>A file without a key in it: every provider entry is empty or a reference.\<close>

definition keyless :: "toml \<Rightarrow> string option \<Rightarrow> bool" where
  "keyless t stored \<longleftrightarrow> (\<exists>raw c. stored = Some raw \<and> tm_decode t raw = Inr c \<and>
     (\<forall>(n, p) \<in> set (cf_providers c). pc_api_key p = [] \<or> env_reference (pc_api_key p) \<noteq> None))"

lemma load_providers_references:
  "load_providers ps = Inr qs \<Longrightarrow> \<forall>(n, p) \<in> set ps. pc_api_key p = [] \<or> env_reference (pc_api_key p) \<noteq> None"
proof (induction ps arbitrary: qs rule: load_providers.induct)
  case (2 n p ps)
  then have "pc_api_key p = [] \<or> env_reference (pc_api_key p) \<noteq> None" "\<exists>rest. load_providers ps = Inr rest"
    by (auto simp: rbind_Inr_iff split: if_splits option.splits)
  with 2 show ?case by (auto split: if_splits option.splits)
qed simp

lemma failing_InrD: "failing m r = Inr x \<Longrightarrow> r = Inr x"
  by simp

lemma startable_keyless:
  assumes "startable w nw t stored"
  shows "keyless t stored"
proof -
  obtain raw where r: "stored = Some raw" "is_ok (validate_copy w nw t raw)" using assms by (auto simp: startable_def)
  then obtain c where "load w (tm_decode t raw) = Inr c"
    by (auto simp: validate_copy_def is_ok_iff rbind_Inr_iff)
  then obtain d :: config and ps where "tm_decode t raw = Inr d" "load_providers (cf_providers d) = Inr ps"
    by (elim loadD) blast
  with load_providers_references r(1) show ?thesis unfolding keyless_def by blast
qed

lemma prepare_updateD:
  assumes "prepare_update w nw t d e1 e2 mutate stored = Inr raw"
  shows "\<exists>m old. mutate = Some m \<and> stored = Some old \<and> updated_config t m old = Inr raw \<and> is_ok (validate_copy w nw t raw) \<and>
    is_ok (load w (tm_decode t old))"
  using assms
  by (auto simp: prepare_update_def load_file_def rbind_Inr_iff is_ok_iff split: option.splits if_splits)

lemma store_update_cases:
  assumes "store_update w nw t d e1 e2 mutate stored = (r, stored')"
  obtains (kept) "stored' = stored" "r \<noteq> Inr ()"
  | (replaced) raw m old where "mutate = Some m" "stored = Some old" "updated_config t m old = Inr raw" "stored' = Some raw"
      "is_ok (validate_copy w nw t raw)" "r = failing ''replace config'' (dk_dirsync d)"
proof (cases "prepare_update w nw t d e1 e2 mutate stored")
  case (Inl e)
  with assms kept show thesis by (auto simp: store_update_def)
next
  case (Inr raw)
  then obtain m old where p: "mutate = Some m" "stored = Some old" "updated_config t m old = Inr raw" "is_ok (validate_copy w nw t raw)"
    using prepare_updateD by blast
  show thesis
  proof (cases "dk_rename d")
    case Inl
    with assms Inr kept show thesis by (auto simp: store_update_def atomic_replace_def failing_def)
  next
    case (Inr u)
    with assms \<open>prepare_update w nw t d e1 e2 mutate stored = Inr raw\<close> replaced p show thesis
      by (auto simp: store_update_def atomic_replace_def)
  qed
qed

lemma updates_keep_file_startable:
  assumes "store_update w nw t d e1 e2 mutate stored = (r, stored')" "startable w nw t stored"
  shows "startable w nw t stored' \<and> keyless t stored' \<and> (r = Inr () \<longrightarrow> (\<exists>m old raw. mutate = Some m \<and> stored = Some old \<and>
    updated_config t m old = Inr raw \<and> stored' = Some raw))"
  using assms(1)
proof (cases rule: store_update_cases)
  case kept
  with assms(2) startable_keyless show ?thesis by blast
next
  case (replaced raw m old)
  then have "startable w nw t stored'" by (simp add: startable_def)
  with replaced startable_keyless show ?thesis by blast
qed

definition sample_toml :: toml where
  "sample_toml = \<lparr>tm_decode = (\<lambda>raw. if raw = ''one'' then Inr sample_config else if raw = ''two'' then Inr two_providers
       else Inl (Errorf ''toml'')), tm_encode = (\<lambda>_. Inr ''two'')\<rparr>"

definition sample_mutation :: "config \<Rightarrow> config res" where
  "sample_mutation c = Inr (c\<lparr>cf_providers := cf_providers two_providers\<rparr>)"

section \<open>Capabilities that are read back\<close>

text \<open>
  A provider without \<open>capabilities\<close> is not restricted (\<open>nil\<close>); one with an empty list may neither stream nor use
  tools. The two are different in the program and the field of the file has no \<open>omitempty\<close>: with an encoder that writes
  an empty list for \<open>nil\<close>, an update of any setting restricts every provider that was not restricted.
\<close>

lemma emptied_capabilities_refuse:
  assumes "register_provider nw n (p\<lparr>pc_capabilities := Some []\<rparr>) = Inr r" "cq_stream q \<or> uses_tools q"
  shows "registration_validate r (Inr ()) (Inr q) \<noteq> Inr ()"
  using assms by (auto simp: register_provider_def registration_validate_def rbind_Inr_iff split: if_splits option.splits)

lemma absent_capabilities_allow:
  assumes "register_provider nw n (p\<lparr>pc_capabilities := None\<rparr>) = Inr r"
  shows "registration_validate r (Inr ()) (Inr q) = Inr ()"
  using assms by (auto simp: register_provider_def registration_validate_def rbind_Inr_iff split: if_splits option.splits)

end
