(* ===== verification/Panel.thy ===== *)
theory Panel
  imports Settings
begin

text \<open>
  The panel's own state machine (\<open>internal/dashboard/auth.go\<close>, \<open>layout.go\<close>, \<open>protections.go\<close>, \<open>providers.go\<close> and the
  login of \<open>handler.go\<close>): sessions, the token against forged requests, and the two pages that change the settings.
  A page is the status it is sent with and the error it shows; its HTML is not modelled. \<open>pw_mac\<close> is HMAC-SHA-256
  under a secret of the process, \<open>pw_sha\<close> is SHA-256.  The code draws one secret for each of the two pages
  (newCSRFGuard in protections.go and in providers.go); the model uses one for both, as no page reads the token of the other.
\<close>

section \<open>Requests and replies\<close>

record panel_request =
  pr_method :: string
  pr_cookie :: "string option"
  pr_form_ok :: bool
  pr_form :: "string \<Rightarrow> string list"

definition form_value :: "panel_request \<Rightarrow> string \<Rightarrow> string" where
  "form_value rq key = (case pr_form rq key of [] \<Rightarrow> [] | v # _ \<Rightarrow> v)"

datatype panel_reply = Redirected string | Shown nat "goerr option" | Refused nat string

type_synonym sessions = "string \<rightharpoonup> int"

record panel =
  pl_sessions :: sessions
  pl_config :: "string option"
  pl_env :: "string option"

record panel_world =
  pw_config :: config_world
  pw_net :: net_world
  pw_toml :: toml
  pw_password :: string
  pw_mac :: "string \<Rightarrow> string"
  pw_sha :: "string \<Rightarrow> string"

section \<open>Sessions\<close>

definition session_ttl :: int where
  "session_ttl = 86400000000000"

definition is_authed :: "int \<Rightarrow> string \<Rightarrow> string option \<Rightarrow> sessions \<Rightarrow> bool \<times> sessions" where
  "is_authed now password cookie s =
     (if password = [] then (True, s)
      else (case cookie of None \<Rightarrow> (False, s)
        | Some c \<Rightarrow> (case s c of None \<Rightarrow> (False, s(c := None))
            | Some expires \<Rightarrow> if expires < now then (False, s(c := None)) else (True, s))))"

text \<open>\<open>Login\<close>: whether the password is right, and the cookie of the new session; \<open>random\<close> is what the system's random
  source gives.\<close>

definition login :: "int \<Rightarrow> string \<Rightarrow> string \<Rightarrow> string res \<Rightarrow> sessions \<Rightarrow> (string option) res \<times> sessions" where
  "login now password given random s =
     (if given \<noteq> password then (Inr None, s)
      else (case random of Inl e \<Rightarrow> (Inl e, s)
        | Inr bs \<Rightarrow> (Inr (Some (hex_encode bs)), s(hex_encode bs \<mapsto> now + session_ttl))))"

definition logout :: "string option \<Rightarrow> sessions \<Rightarrow> sessions" where
  "logout cookie s = (case cookie of None \<Rightarrow> s | Some c \<Rightarrow> s(c := None))"

definition login_handler :: "int \<Rightarrow> string \<Rightarrow> string res \<Rightarrow> panel_request \<Rightarrow> sessions \<Rightarrow> panel_reply \<times> sessions" where
  "login_handler now password random rq s =
     (if pr_method rq = ''POST'' then
        (case login now password (form_value rq ''password'') random s of
           (Inl _, s') \<Rightarrow> (Refused 500 ''internal error'', s')
         | (Inr (Some _), s') \<Rightarrow> (Redirected ''/dashboard'', s')
         | (Inr None, s') \<Rightarrow> (Shown 401 (Some (Errorf ''Invalid password.'')), s'))
      else (Shown 200 None, s))"

definition logout_handler :: "panel_request \<Rightarrow> sessions \<Rightarrow> panel_reply \<times> sessions" where
  "logout_handler rq s = (Redirected ''/login'', logout (pr_cookie rq) s)"

definition require_panel_auth :: "int \<Rightarrow> string \<Rightarrow> panel_request \<Rightarrow> (panel \<Rightarrow> panel_reply \<times> panel) \<Rightarrow> panel \<Rightarrow> panel_reply \<times> panel" where
  "require_panel_auth now password rq page p = (case is_authed now password (pr_cookie rq) (pl_sessions p) of
     (ok, s) \<Rightarrow> if ok then page (p\<lparr>pl_sessions := s\<rparr>) else (Redirected ''/login'', p\<lparr>pl_sessions := s\<rparr>))"

section \<open>Forged requests\<close>

definition hex_value :: "char \<Rightarrow> nat option" where
  "hex_value c = (if is_digit c then Some (of_char c - 48)
     else if CHR ''a'' \<le> c \<and> c \<le> CHR ''f'' then Some (of_char c - 87)
     else if CHR ''A'' \<le> c \<and> c \<le> CHR ''F'' then Some (of_char c - 55) else None)"

text \<open>\<open>hex.DecodeString\<close>\<close>

fun hex_decode :: "string \<Rightarrow> string option" where
  "hex_decode [] = Some []"
| "hex_decode [c] = None"
| "hex_decode (a # b # s) = (case (hex_value a, hex_value b, hex_decode s) of
     (Some x, Some y, Some bs) \<Rightarrow> Some (char_of (16 * x + y) # bs) | _ \<Rightarrow> None)"

definition csrf_identity :: "panel_request \<Rightarrow> string" where
  "csrf_identity rq = (case pr_cookie rq of None \<Rightarrow> ''open-loopback-session''
     | Some c \<Rightarrow> if c \<noteq> [] then c else ''open-loopback-session'')"

definition csrf_token :: "(string \<Rightarrow> string) \<Rightarrow> panel_request \<Rightarrow> string" where
  "csrf_token mac rq = hex_encode (mac (csrf_identity rq))"

definition csrf_valid :: "(string \<Rightarrow> string) \<Rightarrow> panel_request \<Rightarrow> string \<Rightarrow> bool" where
  "csrf_valid mac rq candidate = (case hex_decode (csrf_token mac rq) of None \<Rightarrow> False
     | Some expected \<Rightarrow> hex_decode candidate = Some expected)"

section \<open>The protections page\<close>

text \<open>\<open>strconv.ParseInt(v, 10, 64)\<close>\<close>

definition parse_int64 :: "string \<Rightarrow> int option" where
  "parse_int64 s = (case s of [] \<Rightarrow> None
     | c # t \<Rightarrow> (case parse_nat (if c = CHR ''-'' \<or> c = CHR ''+'' then t else s) of None \<Rightarrow> None
         | Some n \<Rightarrow> (let i = (if c = CHR ''-'' then - int n else int n) in if is_int64 i then Some i else None)))"

definition parse_count :: "(string \<Rightarrow> string) \<Rightarrow> string \<Rightarrow> int res" where
  "parse_count form key = (let v = trim_space (form key) in
     if v = [] then Inr 0
     else (case parse_int64 v of None \<Rightarrow> Inl (Errorf (key @ '' cannot be negative and must be a whole number''))
       | Some n \<Rightarrow> if n < 0 then Inl (Errorf (key @ '' cannot be negative and must be a whole number'')) else Inr n))"

definition csv :: "string \<Rightarrow> string list" where
  "csv v = filter (\<lambda>p. p \<noteq> []) (map trim_space (split_on (CHR '','') v))"

definition check_cost :: "string \<times> string \<Rightarrow> unit res" where
  "check_cost = (\<lambda>(what, v). if v \<noteq> [] \<and> \<not> decimal_pattern (Some 9) v
     then Inl (Errorf (what @ '' must be a non-negative decimal'')) else Inr ())"

definition check_labels :: "string \<times> string list \<Rightarrow> unit res" where
  "check_labels = (\<lambda>(what, vs). if \<not> list_all model_pattern vs
     then Inl (Errorf (what @ '' contains an invalid value'')) else Inr ())"

fun check_each :: "('a \<Rightarrow> unit res) \<Rightarrow> 'a list \<Rightarrow> unit res" where
  "check_each f [] = Inr ()"
| "check_each f (x # xs) = rbind (f x) (\<lambda>_. check_each f xs)"

text \<open>The program ranges over the maps of costs and of labels in any order; here it is the order of the source.\<close>

definition parse_guardrails :: "(string \<Rightarrow> string) \<Rightarrow> guardrails_config \<Rightarrow> guardrails_config res" where
  "parse_guardrails form g =
     rbind (parse_count form ''max_requests_per_run'') (\<lambda>requests.
     rbind (parse_count form ''max_input_tokens_per_run'') (\<lambda>input.
     rbind (parse_count form ''max_output_tokens_per_run'') (\<lambda>output.
     rbind (parse_count form ''max_total_tokens_per_run'') (\<lambda>total.
     rbind (parse_count form ''max_duration_seconds'') (\<lambda>duration.
     rbind (parse_count form ''max_tool_calls_per_run'') (\<lambda>tools.
     rbind (parse_count form ''max_calls_per_day'') (\<lambda>day.
       let cost = trim_space (form ''max_cost_per_run_usd''); cost_day = trim_space (form ''max_cost_per_day_usd'');
           ps = csv (form ''allowed_providers''); ms = csv (form ''allowed_models''); ts = csv (form ''allowed_tools'') in
       rbind (check_each check_cost [(''cost per run'', cost), (''daily cost'', cost_day)]) (\<lambda>_.
       rbind (check_each check_labels [(''allowed providers'', ps), (''allowed models'', ms), (''allowed tools'', ts)]) (\<lambda>_.
         Inr (g\<lparr>gr_max_requests := requests, gr_max_input := input, gr_max_output := output, gr_max_total := total,
           gr_max_duration := duration, gr_max_tools := tools, gr_max_calls_day := day, gr_max_cost := cost,
           gr_max_cost_day := cost_day, gr_providers := ps, gr_models := ms, gr_tools := ts\<rparr>))))))))))"

definition protections_page :: "panel_world \<Rightarrow> disk \<Rightarrow> bool \<Rightarrow> bool \<Rightarrow> panel_request \<Rightarrow> panel \<Rightarrow> panel_reply \<times> panel" where
  "protections_page w d ended1 ended2 rq p =
     (case load_file (pw_config w) (pw_toml w) (pl_config p) of
        Inl _ \<Rightarrow> (Refused 500 ''Could not load configuration.'', p)
      | Inr cfg \<Rightarrow>
          if pr_method rq = ''POST'' then
            (if \<not> pr_form_ok rq then (Refused 400 ''bad form'', p)
             else if \<not> csrf_valid (pw_mac w) rq (form_value rq ''csrf_token'') then (Refused 403 ''invalid CSRF token'', p)
             else (case parse_guardrails (form_value rq) (cf_guardrails cfg) of
                 Inl e \<Rightarrow> (Shown 422 (Some e), p)
               | Inr g \<Rightarrow>
                   (case store_update (pw_config w) (pw_net w) (pw_toml w) d ended1 ended2
                       (Some (\<lambda>c. Inr (c\<lparr>cf_guardrails := g\<rparr>))) (pl_config p) of
                      (Inl _, f) \<Rightarrow> (Shown 422 (Some (Errorf ''Could not save configuration. Check the Virgil logs.'')), p\<lparr>pl_config := f\<rparr>)
                    | (Inr _, f) \<Rightarrow> (Shown 200 None, p\<lparr>pl_config := f\<rparr>))))
          else if pr_method rq \<noteq> ''GET'' then (Refused 405 ''method not allowed'', p)
          else (Shown 200 None, p))"

definition protections_handler :: "panel_world \<Rightarrow> int \<Rightarrow> disk \<Rightarrow> bool \<Rightarrow> bool \<Rightarrow> panel_request \<Rightarrow> panel \<Rightarrow> panel_reply \<times> panel" where
  "protections_handler w now d ended1 ended2 rq p =
     require_panel_auth now (pw_password w) rq (protections_page w d ended1 ended2 rq) p"

section \<open>The providers page\<close>

text \<open>\<open>^[A-Za-z0-9][A-Za-z0-9_.-]{0,63}$\<close>\<close>

definition provider_name_pattern :: "string \<Rightarrow> bool" where
  "provider_name_pattern s = (case s of [] \<Rightarrow> False | c # t \<Rightarrow> is_alnum c \<and> length t \<le> 63 \<and> list_all label_char t)"

record provider_preset =
  ps_type :: string
  ps_base_url :: string
  ps_backend :: string
  ps_model :: string
  ps_local :: bool

definition provider_presets :: "string \<Rightarrow> provider_preset option" where
  "provider_presets = map_of [
     (''nvidia'', \<lparr>ps_type = ''openai-compatible'', ps_base_url = ''https://integrate.api.nvidia.com/v1'',
        ps_backend = ''chat-completions'', ps_model = ''meta/muse-glimmer-30b'', ps_local = False\<rparr>),
     (''openai'', \<lparr>ps_type = ''openai'', ps_base_url = ''https://api.openai.com/v1'', ps_backend = [], ps_model = [], ps_local = False\<rparr>),
     (''anthropic'', \<lparr>ps_type = ''anthropic'', ps_base_url = ''https://api.anthropic.com/v1'', ps_backend = [], ps_model = [], ps_local = False\<rparr>),
     (''kimi'', \<lparr>ps_type = ''kimi'', ps_base_url = ''https://api.moonshot.ai/v1'', ps_backend = [], ps_model = [], ps_local = False\<rparr>),
     (''ollama'', \<lparr>ps_type = ''ollama'', ps_base_url = ''http://127.0.0.1:11434/v1'', ps_backend = [], ps_model = [], ps_local = True\<rparr>)]"

definition credential_env_name :: "(string \<Rightarrow> string) \<Rightarrow> string \<Rightarrow> string" where
  "credential_env_name sha name = ''VIRGIL_PROVIDER_'' @ to_upper (map (\<lambda>c. if c = CHR ''-'' \<or> c = CHR ''.'' then CHR ''_'' else c) name) @
     ''_'' @ hex_encode (take 4 (sha name)) @ ''_API_KEY''"

definition row_raw :: "(string \<Rightarrow> string list) \<Rightarrow> string \<Rightarrow> nat \<Rightarrow> string" where
  "row_raw form key i = (if length (form key) \<le> i then [] else form key ! i)"

definition row_value :: "(string \<Rightarrow> string list) \<Rightarrow> string \<Rightarrow> nat \<Rightarrow> string" where
  "row_value form key i = trim_space (row_raw form key i)"

definition empty_provider :: provider_config where
  "empty_provider = \<lparr>pc_type = [], pc_backend = [], pc_base_url = [], pc_model = [], pc_api_key = [], pc_key_env = [],
     pc_capabilities = None, pc_local = False\<rparr>"

definition posted_env :: "(string \<Rightarrow> string) \<Rightarrow> (string \<Rightarrow> string list) \<Rightarrow> nat \<Rightarrow> string \<Rightarrow> string" where
  "posted_env sha form i name = (let env = row_value form ''provider_api_key_env'' i in
     if env = [] \<and> row_raw form ''provider_api_key'' i \<noteq> [] then credential_env_name sha name else env)"

text \<open>The service of a row: a preset, or what the row says of itself.\<close>

definition row_service :: "(string \<Rightarrow> string list) \<Rightarrow> nat \<Rightarrow> provider_preset res" where
  "row_service form i = (let preset = row_value form ''provider_preset'' i in
     if preset \<noteq> [] \<and> preset \<noteq> ''custom'' then
       (case provider_presets preset of None \<Rightarrow> Inl (Errorf ''unsupported provider service'') | Some s \<Rightarrow> Inr s)
     else Inr \<lparr>ps_type = row_value form ''provider_type'' i, ps_base_url = row_value form ''provider_base_url'' i,
       ps_backend = row_value form ''provider_responses_backend'' i, ps_model = [],
       ps_local = (row_value form ''provider_local'' i = ''true'')\<rparr>)"

definition provider_row :: "net_world \<Rightarrow> (string \<Rightarrow> string) \<Rightarrow> (string \<Rightarrow> string list) \<Rightarrow> (string \<times> provider_config) list \<Rightarrow> nat \<Rightarrow> string \<Rightarrow>
    (string \<times> provider_config) list \<Rightarrow> provider_config res" where
  "provider_row nw sha form existing i name out =
     (if \<not> provider_name_pattern name then Inl (Errorf ''invalid provider name'')
      else if name \<in> fst ` set out then Inl (Errorf ''provider name is already in use'')
      else if row_value form ''provider_api_key_env'' i \<noteq> [] \<and> \<not> credential_name (row_value form ''provider_api_key_env'' i)
        then Inl (Errorf ''credential must be an environment variable name, not a secret value'')
      else rbind (row_service form i) (\<lambda>s.
        if ps_type s \<notin> set [''openai-compatible'', ''openai'', ''kimi'', ''anthropic'', ''ollama''] then Inl (Errorf ''unsupported provider type'')
        else if (case nw_parse_url nw (ps_base_url s) of None \<Rightarrow> True | Some u \<Rightarrow> \<not> http_url u) then Inl (Errorf ''invalid provider base URL'')
        else (let model = row_value form ''provider_model'' i; model1 = (if model = [] then ps_model s else model) in
          if model1 = [] then Inl (Errorf ''provider model is required'')
          else Inr ((case map_of existing name of None \<Rightarrow> empty_provider | Some p \<Rightarrow> p)
            \<lparr>pc_type := ps_type s, pc_base_url := ps_base_url s, pc_model := model1, pc_key_env := posted_env sha form i name,
             pc_api_key := [], pc_local := ps_local s, pc_backend := ps_backend s\<rparr>))))"

fun provider_rows :: "net_world \<Rightarrow> (string \<Rightarrow> string) \<Rightarrow> (string \<Rightarrow> string list) \<Rightarrow> (string \<times> provider_config) list \<Rightarrow> nat \<Rightarrow> string list \<Rightarrow>
    (string \<times> provider_config) list \<Rightarrow> (string \<times> provider_config) list res" where
  "provider_rows nw sha form existing i [] out = Inr out"
| "provider_rows nw sha form existing i (raw # rs) out =
     (let name = trim_space raw in
      if row_value form ''provider_remove'' i = ''true'' \<or> name = [] then provider_rows nw sha form existing (Suc i) rs out
      else rbind (provider_row nw sha form existing i name out) (\<lambda>p. provider_rows nw sha form existing (Suc i) rs (out @ [(name, p)])))"

text \<open>\<open>providers.ValidateConfig\<close> of a configuration with nothing but these providers.\<close>

definition only_providers :: "(string \<times> provider_config) list \<Rightarrow> config" where
  "only_providers ps = \<lparr>cf_server = \<lparr>sc_listen = [], sc_log_level = []\<rparr>, cf_storage = \<lparr>st_path = [], st_retention_days = 0\<rparr>,
     cf_control_plane = \<lparr>cc_enabled = False, cc_endpoint = [], cc_credential_path = [], cc_allowed_fields = []\<rparr>,
     cf_privacy = \<lparr>pv_prompts = False, pv_responses = False, pv_tool_arguments = False\<rparr>,
     cf_guardrails = \<lparr>gr_max_requests = 0, gr_max_cost = [], gr_max_input = 0, gr_max_output = 0, gr_max_total = 0,
       gr_max_duration = 0, gr_max_tools = 0, gr_providers = [], gr_models = [], gr_tools = [], gr_est_cost = [],
       gr_est_input = 0, gr_est_output = 0, gr_max_calls_day = 0, gr_max_cost_day = []\<rparr>,
     cf_providers = ps, cf_pricing = \<lparr>pg_version = [], pg_currency = [], pg_models = []\<rparr>, cf_password = []\<rparr>"

definition parse_providers :: "net_world \<Rightarrow> (string \<Rightarrow> string) \<Rightarrow> (string \<Rightarrow> string list) \<Rightarrow> (string \<times> provider_config) list \<Rightarrow>
    (string \<times> provider_config) list res" where
  "parse_providers nw sha form existing =
     rbind (provider_rows nw sha form existing 0 (form ''provider_name'') []) (\<lambda>out.
       (case validate_config nw (only_providers out) of
          Inl _ \<Rightarrow> Inl (Errorf ''provider settings are invalid'') | Inr _ \<Rightarrow> Inr out))"

text \<open>The keys of the form, saved row by row; \<open>disks\<close> is what happens to each save.\<close>

fun save_keys :: "(nat \<Rightarrow> disk \<times> bool \<times> bool) \<Rightarrow> (string \<Rightarrow> string list) \<Rightarrow> (string \<times> provider_config) list \<Rightarrow> nat \<Rightarrow> string list \<Rightarrow>
    string option \<Rightarrow> unit res \<times> string option" where
  "save_keys disks form ps i [] env = (Inr (), env)"
| "save_keys disks form ps i (raw # rs) env =
     (let name = trim_space raw; key = row_raw form ''provider_api_key'' i in
      if name = [] \<or> key = [] then save_keys disks form ps (Suc i) rs env
      else (case map_of ps name of None \<Rightarrow> save_keys disks form ps (Suc i) rs env
        | Some p \<Rightarrow> (case disks i of (d, ended1, ended2) \<Rightarrow>
            (case save_credential d ended1 ended2 (pc_key_env p) key env of
               (Inl e, env') \<Rightarrow> (Inl e, env')
             | (Inr _, env') \<Rightarrow> save_keys disks form ps (Suc i) rs env'))))"

definition providers_page :: "panel_world \<Rightarrow> (nat \<Rightarrow> disk \<times> bool \<times> bool) \<Rightarrow> disk \<Rightarrow> bool \<Rightarrow> bool \<Rightarrow> panel_request \<Rightarrow> panel \<Rightarrow>
    panel_reply \<times> panel" where
  "providers_page w disks d ended1 ended2 rq p =
     (case load_file (pw_config w) (pw_toml w) (pl_config p) of
        Inl _ \<Rightarrow> (Refused 500 ''Could not load configuration.'', p)
      | Inr cfg \<Rightarrow>
          if pr_method rq = ''POST'' then
            (if \<not> pr_form_ok rq then (Refused 400 ''bad form'', p)
             else if \<not> csrf_valid (pw_mac w) rq (form_value rq ''csrf_token'') then (Refused 403 ''invalid CSRF token'', p)
             else (case parse_providers (pw_net w) (pw_sha w) (pr_form rq) (cf_providers cfg) of
                 Inl e \<Rightarrow> (Shown 422 (Some e), p)
               | Inr ps \<Rightarrow>
                   (case save_keys disks (pr_form rq) ps 0 (pr_form rq ''provider_name'') (pl_env p) of
                      (Inl _, env) \<Rightarrow> (Shown 422 (Some (Errorf ''Could not save the API key. Remove spaces around it and line breaks.'')),
                         p\<lparr>pl_env := env\<rparr>)
                    | (Inr _, env) \<Rightarrow>
                        (case store_update (pw_config w) (pw_net w) (pw_toml w) d ended1 ended2
                            (Some (\<lambda>c. Inr (c\<lparr>cf_providers := ps\<rparr>))) (pl_config p) of
                           (Inl _, f) \<Rightarrow> (Shown 422 (Some (Errorf ''Could not save the provider. Check the Virgil logs.'')),
                              p\<lparr>pl_config := f, pl_env := env\<rparr>)
                         | (Inr _, f) \<Rightarrow>
                              ((if is_ok (load_file (pw_config w) (pw_toml w) f) then Shown 200 None else Refused 500 ''render error''),
                               p\<lparr>pl_config := f, pl_env := env\<rparr>)))))
          else if pr_method rq \<noteq> ''GET'' then (Refused 405 ''method not allowed'', p)
          else (Shown 200 None, p))"

definition providers_handler :: "panel_world \<Rightarrow> int \<Rightarrow> (nat \<Rightarrow> disk \<times> bool \<times> bool) \<Rightarrow> disk \<Rightarrow> bool \<Rightarrow> bool \<Rightarrow> panel_request \<Rightarrow> panel \<Rightarrow>
    panel_reply \<times> panel" where
  "providers_handler w now disks d ended1 ended2 rq p =
     require_panel_auth now (pw_password w) rq (providers_page w disks d ended1 ended2 rq) p"

section \<open>What happens to a panel\<close>

datatype panel_event =
    PostLogin int "string res" panel_request
  | PostLogout panel_request
  | AtProtections int disk bool bool panel_request
  | AtProviders int "nat \<Rightarrow> disk \<times> bool \<times> bool" disk bool bool panel_request

definition panel_step :: "panel_world \<Rightarrow> panel_event \<Rightarrow> panel \<Rightarrow> panel_reply \<times> panel" where
  "panel_step w e p = (case e of
     PostLogin now random rq \<Rightarrow> (case login_handler now (pw_password w) random rq (pl_sessions p) of (r, s) \<Rightarrow> (r, p\<lparr>pl_sessions := s\<rparr>))
   | PostLogout rq \<Rightarrow> (case logout_handler rq (pl_sessions p) of (r, s) \<Rightarrow> (r, p\<lparr>pl_sessions := s\<rparr>))
   | AtProtections now d e1 e2 rq \<Rightarrow> protections_handler w now d e1 e2 rq p
   | AtProviders now disks d e1 e2 rq \<Rightarrow> providers_handler w now disks d e1 e2 rq p)"

definition run_panel :: "panel_world \<Rightarrow> panel_event list \<Rightarrow> panel \<Rightarrow> panel" where
  "run_panel w es p = fold (\<lambda>e p. snd (panel_step w e p)) es p"

section \<open>Who may change the settings\<close>

lemma hex_value_digit: "d < 16 \<Longrightarrow> hex_value (hex_digit d) = Some d"
proof -
  assume "d < 16"
  then have "d \<in> set [0..<16]" by simp
  moreover have "list_all (\<lambda>d. hex_value (hex_digit d) = Some d) [0..<16]" by code_simp
  ultimately show ?thesis by (simp add: list_all_iff)
qed

lemma hex_decode_encode: "hex_decode (hex_encode bs) = Some bs"
proof (induction bs)
  case (Cons c bs)
  have "of_char c div 16 < (16 :: nat)" using of_char_less_256 [of c] by (simp add: less_mult_imp_div_less)
  moreover have "of_char c mod 16 < (16 :: nat)" by simp
  moreover have "16 * (of_char c div 16) + of_char c mod 16 = (of_char c :: nat)" by (rule mult_div_mod_eq)
  ultimately show ?case using Cons by (simp add: hex_encode_def hex_value_digit)
qed (simp add: hex_encode_def)

lemma csrf_valid_iff: "csrf_valid mac rq candidate \<longleftrightarrow> hex_decode candidate = Some (mac (csrf_identity rq))"
  by (simp add: csrf_valid_def csrf_token_def hex_decode_encode)

text \<open>A request that is let in: there is no password, or the cookie names a session that has not expired.\<close>

definition authorised :: "panel_world \<Rightarrow> int \<Rightarrow> panel_request \<Rightarrow> panel \<Rightarrow> bool" where
  "authorised w now rq p \<longleftrightarrow> pw_password w = [] \<or>
     (\<exists>c expires. pr_cookie rq = Some c \<and> pl_sessions p c = Some expires \<and> now \<le> expires)"

lemma is_authed_iff: "fst (is_authed now (pw_password w) (pr_cookie rq) (pl_sessions p)) \<longleftrightarrow> authorised w now rq p"
  by (auto simp: is_authed_def authorised_def split: option.splits)

lemma is_authed_sessions: "is_authed now password cookie s = (ok, s') \<Longrightarrow> s' \<subseteq>\<^sub>m s"
  by (auto simp: is_authed_def map_le_def split: if_splits option.splits)

lemma require_panel_auth_cases:
  assumes "require_panel_auth now (pw_password w) rq page p = (r, p')"
  obtains (refused) "\<not> authorised w now rq p" "r = Redirected ''/login''" "pl_config p' = pl_config p" "pl_env p' = pl_env p"
    "pl_sessions p' \<subseteq>\<^sub>m pl_sessions p"
  | (let_in) s where "authorised w now rq p" "page (p\<lparr>pl_sessions := s\<rparr>) = (r, p')" "s \<subseteq>\<^sub>m pl_sessions p"
proof -
  obtain ok s where a: "is_authed now (pw_password w) (pr_cookie rq) (pl_sessions p) = (ok, s)" by (metis prod.exhaust)
  with is_authed_iff [of now w rq p] have ok: "ok = authorised w now rq p" by simp
  note le = is_authed_sessions [OF a]
  show thesis
  proof (cases ok)
    case True
    with assms a ok le let_in show thesis by (simp add: require_panel_auth_def)
  next
    case False
    with assms a ok le refused show thesis by (auto simp: require_panel_auth_def)
  qed
qed

definition submitted :: "panel_world \<Rightarrow> panel_request \<Rightarrow> bool" where
  "submitted w rq \<longleftrightarrow> pr_method rq = ''POST'' \<and> pr_form_ok rq \<and>
     hex_decode (form_value rq ''csrf_token'') = Some (pw_mac w (csrf_identity rq))"

lemma protections_page_cases:
  assumes "protections_page w d e1 e2 rq p = (r, p')"
  obtains (unchanged) "p' = p"
  | (updated) g x f where "submitted w rq" "store_update (pw_config w) (pw_net w) (pw_toml w) d e1 e2
        (Some (\<lambda>c. Inr (c\<lparr>cf_guardrails := g\<rparr>))) (pl_config p) = (x, f)" "p' = p\<lparr>pl_config := f\<rparr>"
proof (cases "load_file (pw_config w) (pw_toml w) (pl_config p)")
  case Inl
  with assms unchanged show thesis by (simp add: protections_page_def)
next
  case cfg: (Inr cfg)
  show thesis
  proof (cases "submitted w rq")
    case False
    with assms cfg have "p' = p" by (simp add: protections_page_def submitted_def csrf_valid_iff split: if_splits)
    then show thesis by (rule unchanged)
  next
    case sub: True
    then have q: "pr_method rq = ''POST''" "pr_form_ok rq" "csrf_valid (pw_mac w) rq (form_value rq ''csrf_token'')"
      by (simp_all add: submitted_def csrf_valid_iff)
    show thesis
    proof (cases "parse_guardrails (form_value rq) (cf_guardrails cfg)")
      case Inl
      with assms cfg q have "p' = p" by (simp add: protections_page_def)
      then show thesis by (rule unchanged)
    next
      case (Inr g)
      obtain x f where u: "store_update (pw_config w) (pw_net w) (pw_toml w) d e1 e2
        (Some (\<lambda>c. Inr (c\<lparr>cf_guardrails := g\<rparr>))) (pl_config p) = (x, f)" by (metis prod.exhaust)
      with assms cfg q Inr have "p' = p\<lparr>pl_config := f\<rparr>"
        by (cases x) (simp_all add: protections_page_def)
      with sub u show thesis by (rule updated)
    qed
  qed
qed

lemma providers_page_cases:
  assumes "providers_page w disks d e1 e2 rq p = (r, p')"
  obtains (unchanged) "p' = p"
  | (keys) env where "submitted w rq" "p' = p\<lparr>pl_env := env\<rparr>" "\<exists>e. r = Shown 422 (Some e)"
  | (updated) cfg ps env x f where "submitted w rq" "load_file (pw_config w) (pw_toml w) (pl_config p) = Inr cfg"
      "parse_providers (pw_net w) (pw_sha w) (pr_form rq) (cf_providers cfg) = Inr ps"
      "save_keys disks (pr_form rq) ps 0 (pr_form rq ''provider_name'') (pl_env p) = (Inr (), env)"
      "store_update (pw_config w) (pw_net w) (pw_toml w) d e1 e2 (Some (\<lambda>c. Inr (c\<lparr>cf_providers := ps\<rparr>))) (pl_config p) = (x, f)"
      "p' = p\<lparr>pl_config := f, pl_env := env\<rparr>" "x = Inr () \<or> (\<exists>e. r = Shown 422 (Some e))"
proof (cases "load_file (pw_config w) (pw_toml w) (pl_config p)")
  case Inl
  with assms unchanged show thesis by (simp add: providers_page_def)
next
  case cfg: (Inr cfg)
  show thesis
  proof (cases "submitted w rq")
    case False
    with assms cfg have "p' = p" by (simp add: providers_page_def submitted_def csrf_valid_iff split: if_splits)
    then show thesis by (rule unchanged)
  next
    case sub: True
    then have q: "pr_method rq = ''POST''" "pr_form_ok rq" "csrf_valid (pw_mac w) rq (form_value rq ''csrf_token'')"
      by (simp_all add: submitted_def csrf_valid_iff)
    show thesis
    proof (cases "parse_providers (pw_net w) (pw_sha w) (pr_form rq) (cf_providers cfg)")
      case Inl
      with assms cfg q have "p' = p" by (simp add: providers_page_def)
      then show thesis by (rule unchanged)
    next
      case ps: (Inr ps)
      obtain y env where k: "save_keys disks (pr_form rq) ps 0 (pr_form rq ''provider_name'') (pl_env p) = (y, env)" by (metis prod.exhaust)
      obtain x f where u: "store_update (pw_config w) (pw_net w) (pw_toml w) d e1 e2
        (Some (\<lambda>c. Inr (c\<lparr>cf_providers := ps\<rparr>))) (pl_config p) = (x, f)" by (metis prod.exhaust)
      show thesis
      proof (cases y)
        case Inl
        with assms cfg q ps k have "p' = p\<lparr>pl_env := env\<rparr>" "\<exists>e. r = Shown 422 (Some e)"
          by (auto simp: providers_page_def)
        with sub show thesis by (rule keys)
      next
        case (Inr z)
        then have y: "y = Inr ()" by simp
        have "p' = p\<lparr>pl_config := f, pl_env := env\<rparr>" "x = Inr () \<or> (\<exists>e. r = Shown 422 (Some e))"
          using assms cfg q ps k y u by (cases x; auto simp: providers_page_def)+
        with sub cfg ps k y u show thesis using updated by simp
      qed
    qed
  qed
qed

definition event_request :: "panel_event \<Rightarrow> (int \<times> panel_request) option" where
  "event_request e = (case e of AtProtections now _ _ _ rq \<Rightarrow> Some (now, rq) | AtProviders now _ _ _ _ rq \<Rightarrow> Some (now, rq) | _ \<Rightarrow> None)"

text \<open>C34: The panel changes the configuration or the credentials only for a form that was posted by a client that is
  let in (by the password's session, or because there is no password) and that carries the token of that client's
  session: neither a stranger nor a page of another site that only borrows the cookie can change anything.\<close>

theorem panel_changes_are_guarded:
  assumes "panel_step w e p = (r, p')" "pl_config p' \<noteq> pl_config p \<or> pl_env p' \<noteq> pl_env p"
  shows "\<exists>now rq. event_request e = Some (now, rq) \<and> authorised w now rq p \<and> submitted w rq"
proof (cases e)
  case (PostLogin now random rq)
  with assms show ?thesis by (auto simp: panel_step_def split: prod.splits)
next
  case (PostLogout rq)
  with assms show ?thesis by (auto simp: panel_step_def logout_handler_def)
next
  case (AtProtections now d e1 e2 rq)
  then have "require_panel_auth now (pw_password w) rq (protections_page w d e1 e2 rq) p = (r, p')"
    using assms(1) by (simp add: panel_step_def protections_handler_def)
  then show ?thesis
  proof (cases rule: require_panel_auth_cases)
    case (let_in s)
    from let_in(2) show ?thesis
      using assms(2) let_in(1) AtProtections by (cases rule: protections_page_cases) (auto simp: event_request_def)
  qed (use assms(2) in simp)
next
  case (AtProviders now disks d e1 e2 rq)
  then have "require_panel_auth now (pw_password w) rq (providers_page w disks d e1 e2 rq) p = (r, p')"
    using assms(1) by (simp add: panel_step_def providers_handler_def)
  then show ?thesis
  proof (cases rule: require_panel_auth_cases)
    case (let_in s)
    from let_in(2) show ?thesis
      using assms(2) let_in(1) AtProviders by (cases rule: providers_page_cases) (auto simp: event_request_def)
  qed (use assms(2) in simp)
qed

section \<open>The file is always one the core starts with\<close>

lemma panel_step_startable:
  assumes "panel_step w e p = (r, p')" "startable (pw_config w) (pw_net w) (pw_toml w) (pl_config p)"
  shows "startable (pw_config w) (pw_net w) (pw_toml w) (pl_config p')"
proof (cases e)
  case (PostLogin now random rq)
  with assms show ?thesis by (auto simp: panel_step_def split: prod.splits)
next
  case (PostLogout rq)
  with assms show ?thesis by (auto simp: panel_step_def logout_handler_def)
next
  case (AtProtections now d e1 e2 rq)
  then have "require_panel_auth now (pw_password w) rq (protections_page w d e1 e2 rq) p = (r, p')"
    using assms(1) by (simp add: panel_step_def protections_handler_def)
  then show ?thesis
  proof (cases rule: require_panel_auth_cases)
    case (let_in s)
    from let_in(2) show ?thesis
      using assms(2) updates_keep_file_startable by (cases rule: protections_page_cases) auto
  qed (use assms(2) in simp)
next
  case (AtProviders now disks d e1 e2 rq)
  then have "require_panel_auth now (pw_password w) rq (providers_page w disks d e1 e2 rq) p = (r, p')"
    using assms(1) by (simp add: panel_step_def providers_handler_def)
  then show ?thesis
  proof (cases rule: require_panel_auth_cases)
    case (let_in s)
    from let_in(2) show ?thesis
      using assms(2) updates_keep_file_startable by (cases rule: providers_page_cases) auto
  qed (use assms(2) in simp)
qed

text \<open>C33: Whatever is posted to the panel, in whatever order, and whatever the operating system refuses on the way,
  the file it leaves is one the core starts with: it loads, its providers are valid, and it holds no key, only
  references to variables.\<close>

theorem panel_keeps_core_startable:
  assumes "startable (pw_config w) (pw_net w) (pw_toml w) (pl_config p)"
  shows "startable (pw_config w) (pw_net w) (pw_toml w) (pl_config (run_panel w es p)) \<and>
    keyless (pw_toml w) (pl_config (run_panel w es p))"
proof -
  have "startable (pw_config w) (pw_net w) (pw_toml w) (pl_config (run_panel w es p))"
    using assms
  proof (induction es arbitrary: p)
    case (Cons e es)
    obtain r p' where "panel_step w e p = (r, p')" by (metis prod.exhaust)
    with Cons panel_step_startable show ?case by (simp add: run_panel_def)
  qed (simp add: run_panel_def)
  with startable_keyless show ?thesis by blast
qed

section \<open>What a session is worth\<close>

lemma login_handler_sessions:
  assumes "login_handler now password random rq s = (r, s')" "s' c = Some x"
  shows "s c = Some x \<or> (\<exists>bs. random = Inr bs \<and> pr_method rq = ''POST'' \<and> form_value rq ''password'' = password \<and>
    c = hex_encode bs \<and> x = now + session_ttl)"
  using assms by (auto simp: login_handler_def login_def split: if_splits sum.splits)

lemma page_sessions:
  "protections_page w d e1 e2 rq p = (r, p') \<Longrightarrow> pl_sessions p' = pl_sessions p"
  "providers_page w disks d e1 e2 rq p = (r, p') \<Longrightarrow> pl_sessions p' = pl_sessions p"
  by (erule protections_page_cases; simp) (erule providers_page_cases; simp)

lemma panel_step_sessions:
  assumes "panel_step w e p = (r, p')" "pl_sessions p' c = Some x"
  shows "(\<exists>t bs lq. e = PostLogin t (Inr bs) lq \<and> pr_method lq = ''POST'' \<and> form_value lq ''password'' = pw_password w \<and>
      c = hex_encode bs \<and> x = t + session_ttl) \<or>
    (pl_sessions p c = Some x \<and> (\<forall>oq. e = PostLogout oq \<longrightarrow> pr_cookie oq \<noteq> Some c))"
proof (cases e)
  case (PostLogin now random rq)
  obtain r' s' where l: "login_handler now (pw_password w) random rq (pl_sessions p) = (r', s')" by (metis prod.exhaust)
  with assms PostLogin have "s' c = Some x" by (auto simp: panel_step_def)
  from login_handler_sessions [OF l this] PostLogin show ?thesis by auto
next
  case (PostLogout rq)
  with assms show ?thesis by (auto simp: panel_step_def logout_handler_def logout_def split: option.splits if_splits)
next
  case (AtProtections now d e1 e2 rq)
  then have "require_panel_auth now (pw_password w) rq (protections_page w d e1 e2 rq) p = (r, p')"
    using assms(1) by (simp add: panel_step_def protections_handler_def)
  then have "pl_sessions p' \<subseteq>\<^sub>m pl_sessions p"
    by (cases rule: require_panel_auth_cases) (auto dest: page_sessions)
  with assms(2) AtProtections show ?thesis by (auto simp: map_le_def dom_def)
next
  case (AtProviders now disks d e1 e2 rq)
  then have "require_panel_auth now (pw_password w) rq (providers_page w disks d e1 e2 rq) p = (r, p')"
    using assms(1) by (simp add: panel_step_def providers_handler_def)
  then have "pl_sessions p' \<subseteq>\<^sub>m pl_sessions p"
    by (cases rule: require_panel_auth_cases) (auto dest: page_sessions)
  with assms(2) AtProviders show ?thesis by (auto simp: map_le_def dom_def)
qed

text \<open>A session of the cookie \<open>c\<close> in a history: the login that opened it, at \<open>t\<close>, and no logout of it since.\<close>

definition opened_by :: "panel_world \<Rightarrow> panel_event list \<Rightarrow> string \<Rightarrow> int \<Rightarrow> bool" where
  "opened_by w es c t \<longleftrightarrow> (\<exists>es1 bs lq es2. es = es1 @ PostLogin t (Inr bs) lq # es2 \<and> pr_method lq = ''POST'' \<and>
     form_value lq ''password'' = pw_password w \<and> c = hex_encode bs \<and>
     (\<forall>oq. PostLogout oq \<in> set es2 \<longrightarrow> pr_cookie oq \<noteq> Some c))"

lemma opened_by_snoc:
  assumes "opened_by w es c t" "\<forall>oq. e = PostLogout oq \<longrightarrow> pr_cookie oq \<noteq> Some c"
  shows "opened_by w (es @ [e]) c t"
proof -
  obtain es1 bs lq es2 where d: "es = es1 @ PostLogin t (Inr bs) lq # es2" "pr_method lq = ''POST''"
    "form_value lq ''password'' = pw_password w" "c = hex_encode bs" "\<forall>oq. PostLogout oq \<in> set es2 \<longrightarrow> pr_cookie oq \<noteq> Some c"
    using assms(1) unfolding opened_by_def by blast
  then have "es @ [e] = es1 @ PostLogin t (Inr bs) lq # (es2 @ [e])" "\<forall>oq. PostLogout oq \<in> set (es2 @ [e]) \<longrightarrow> pr_cookie oq \<noteq> Some c"
    using assms(2) by auto
  with d(2-4) show ?thesis unfolding opened_by_def by blast
qed

lemma sessions_opened:
  assumes "pl_sessions p = Map.empty" "pl_sessions (run_panel w es p) c = Some x"
  shows "\<exists>t. opened_by w es c t \<and> x = t + session_ttl"
  using assms(2)
proof (induction es arbitrary: x rule: rev_induct)
  case Nil
  with assms(1) show ?case by (simp add: run_panel_def)
next
  case (snoc e es)
  obtain r p' where st: "panel_step w e (run_panel w es p) = (r, p')" by (metis prod.exhaust)
  with snoc.prems have "pl_sessions p' c = Some x" by (simp add: run_panel_def)
  from panel_step_sessions [OF st this] show ?case
  proof
    assume "\<exists>t bs lq. e = PostLogin t (Inr bs) lq \<and> pr_method lq = ''POST'' \<and> form_value lq ''password'' = pw_password w \<and>
      c = hex_encode bs \<and> x = t + session_ttl"
    then obtain t bs lq where l: "e = PostLogin t (Inr bs) lq" "pr_method lq = ''POST''" "form_value lq ''password'' = pw_password w"
      "c = hex_encode bs" "x = t + session_ttl" by blast
    then have "opened_by w (es @ [e]) c t" unfolding opened_by_def by (intro exI [of _ es] exI [of _ bs] exI [of _ lq] exI [of _ "[]"]) simp
    with l show ?thesis by blast
  next
    assume "pl_sessions (run_panel w es p) c = Some x \<and> (\<forall>oq. e = PostLogout oq \<longrightarrow> pr_cookie oq \<noteq> Some c)"
    with snoc.IH opened_by_snoc show ?thesis by blast
  qed
qed

text \<open>C35: With a password set, the panel lets a request in only for a session that a login with that password opened
  (with the token drawn for it as the cookie), at most 24 hours ago, and that nobody has logged out since.\<close>

theorem sessions_come_from_logins:
  assumes "pw_password w \<noteq> []" "pl_sessions p = Map.empty" "authorised w now rq (run_panel w es p)"
  shows "\<exists>c t. pr_cookie rq = Some c \<and> opened_by w es c t \<and> now \<le> t + session_ttl"
  using assms sessions_opened [OF assms(2)] unfolding authorised_def by blast

section \<open>Samples\<close>

definition sample_panel_world :: panel_world where
  "sample_panel_world = \<lparr>pw_config = sample_world, pw_net = sample_net, pw_toml = sample_toml, pw_password = ''pw'',
     pw_mac = (\<lambda>_. ''m''), pw_sha = (\<lambda>_. ''abcd'')\<rparr>"

definition sample_panel :: panel where
  "sample_panel = \<lparr>pl_sessions = Map.empty, pl_config = Some ''one'', pl_env = None\<rparr>"

definition posted :: "string option \<Rightarrow> (string \<times> string) list \<Rightarrow> panel_request" where
  "posted cookie entries = \<lparr>pr_method = ''POST'', pr_cookie = cookie, pr_form_ok = True,
     pr_form = (\<lambda>k. map snd (filter (\<lambda>(k', _). k' = k) entries))\<rparr>"

definition sample_login :: panel_event where
  "sample_login = PostLogin 0 (Inr ''A'') (posted None [(''password'', ''pw'')])"

definition sample_post :: panel_request where
  "sample_post = posted (Some ''41'') [(''csrf_token'', ''6D''), (''max_requests_per_run'', ''3'')]"

definition sample_change :: panel_event where
  "sample_change = AtProtections 5 plain_disk False False sample_post"

lemma sample_logged_in: "authorised sample_panel_world 5 sample_post (run_panel sample_panel_world [sample_login] sample_panel)"
  unfolding authorised_def by (rule disjI2, rule exI [of _ "''41''"], rule exI [of _ session_ttl]) code_simp

lemma panel_changes_are_guarded_witness:
  "pl_config (snd (panel_step sample_panel_world sample_change (run_panel sample_panel_world [sample_login] sample_panel))) = Some ''two'' \<and>
   (\<exists>now rq. event_request sample_change = Some (now, rq) \<and>
      authorised sample_panel_world now rq (run_panel sample_panel_world [sample_login] sample_panel) \<and> submitted sample_panel_world rq)"
proof -
  define q where "q = run_panel sample_panel_world [sample_login] sample_panel"
  have old: "pl_config q = Some ''one''" unfolding q_def by code_simp
  have new: "pl_config (snd (panel_step sample_panel_world sample_change q)) = Some ''two''" unfolding q_def by code_simp
  obtain r q' where st: "panel_step sample_panel_world sample_change q = (r, q')" by (metis prod.exhaust)
  with new old have "pl_config q' \<noteq> pl_config q \<or> pl_env q' \<noteq> pl_env q" by simp
  from panel_changes_are_guarded [OF st this] new show ?thesis unfolding q_def by blast
qed

lemma panel_keeps_core_startable_witness:
  "pl_config (run_panel sample_panel_world [sample_login, sample_change] sample_panel) = Some ''two'' \<and>
   keyless sample_toml (pl_config (run_panel sample_panel_world [sample_login, sample_change] sample_panel))"
proof -
  have n: "pl_config (run_panel sample_panel_world [sample_login, sample_change] sample_panel) = Some ''two''" by code_simp
  have "is_ok (validate_copy sample_world sample_net sample_toml ''one'')" by code_simp
  then have s: "startable (pw_config sample_panel_world) (pw_net sample_panel_world) (pw_toml sample_panel_world) (pl_config sample_panel)"
    by (simp add: startable_def sample_panel_world_def sample_panel_def)
  have "pw_toml sample_panel_world = sample_toml" by (simp add: sample_panel_world_def)
  with panel_keeps_core_startable [OF s, of "[sample_login, sample_change]"] n show ?thesis by simp
qed

lemma sessions_come_from_logins_witness:
  "\<exists>c t. pr_cookie sample_post = Some c \<and> opened_by sample_panel_world [sample_login] c t \<and> 5 \<le> t + session_ttl"
proof -
  have "pw_password sample_panel_world \<noteq> []" "pl_sessions sample_panel = Map.empty"
    by (simp_all add: sample_panel_world_def sample_panel_def)
  from sessions_come_from_logins [OF this sample_logged_in] show ?thesis .
qed

end
