(* ===== verification/Panel_Keys.thy ===== *)
theory Panel_Keys
  imports Panel
begin

text \<open>
  The way of a key through the panel: from the form of the providers page (\<open>internal/dashboard/providers.go\<close>) over the
  environment file and the configuration file (\<open>internal/settings\<close>) to the next start of the core
  (\<open>internal/app/core.go\<close>, \<open>internal/config\<close>).
\<close>

section \<open>From the form to the next start\<close>

text \<open>
  What is read back of a configuration that was written: the variable of a key is not a field of the file (the key
  itself refers to it), and \<open>caps\<close> says what becomes of the two kinds of empty capability lists.
\<close>

definition read_back :: "(string list option \<Rightarrow> string list option) \<Rightarrow> config \<Rightarrow> config" where
  "read_back caps c = c\<lparr>cf_providers := map (\<lambda>(n, p). (n, p\<lparr>pc_key_env := [], pc_capabilities := caps (pc_capabilities p)\<rparr>)) (cf_providers c)\<rparr>"

lemma env_reference_of: "credential_name v \<Longrightarrow> env_reference (''${'' @ v @ ''}'') = Some v"
proof -
  assume c: "credential_name v"
  have l: "last (''${'' @ v @ ''}'') = CHR ''}''" by simp
  have b: "butlast (drop 2 (''${'' @ v @ ''}'')) = v" by simp
  have n: "4 \<le> length (''${'' @ v @ ''}'')" using c by (cases v) (auto simp: credential_name_def)
  have "case v of [] \<Rightarrow> False | c # cs \<Rightarrow> (is_upper c \<or> is_lower c \<or> c = CHR ''_'') \<and> list_all (\<lambda>x. is_alnum x \<or> x = CHR ''_'') cs"
    using c unfolding credential_name_def .
  with l b n show ?thesis unfolding env_reference_def Let_def by (simp only: has_prefix_append simp_thms if_True)
qed

lemma load_providers_map_of:
  assumes "load_providers ps = Inr qs" "map_of ps n = Some p"
  shows "\<exists>q. map_of qs n = Some q \<and> (pc_api_key p = [] \<longrightarrow> q = p) \<and>
    (\<forall>v. pc_api_key p \<noteq> [] \<and> env_reference (pc_api_key p) = Some v \<longrightarrow> q = p\<lparr>pc_key_env := v, pc_api_key := []\<rparr>)"
  using assms
proof (induction ps arbitrary: qs rule: load_providers.induct)
  case (2 m r ps)
  show ?case
  proof (cases "pc_api_key r = []")
    case True
    then obtain rest where "load_providers ps = Inr rest" "qs = (m, r) # rest"
      using 2(3) by (auto simp: rbind_Inr_iff split: if_splits)
    with 2 True show ?thesis by (auto split: if_splits)
  next
    case False
    then obtain v rest where "env_reference (pc_api_key r) = Some v" "load_providers ps = Inr rest"
      "qs = (m, r\<lparr>pc_key_env := v, pc_api_key := []\<rparr>) # rest"
      using 2(3) by (auto simp: rbind_Inr_iff split: if_splits option.splits)
    with 2 False show ?thesis by (auto split: if_splits)
  qed
qed simp

lemma read_back_provider:
  "map_of ps n = Some p \<Longrightarrow> map_of (cf_providers (read_back caps (reference_keys (c\<lparr>cf_providers := ps\<rparr>)))) n =
    Some ((key_reference p)\<lparr>pc_key_env := [], pc_capabilities := caps (pc_capabilities (key_reference p))\<rparr>)"
  by (induction ps) (auto simp: read_back_def reference_keys_def)

lemma provider_row_fields:
  assumes "provider_row nw sha form existing i name out = Inr p"
  shows "pc_key_env p = posted_env sha form i name \<and> pc_api_key p = [] \<and> name \<notin> fst ` set out"
  using assms by (auto simp: provider_row_def Let_def rbind_Inr_iff split: if_splits)

lemma provider_rows_keep:
  assumes "provider_rows nw sha form existing i raws out = Inr ps" "map_of out n = Some p"
  shows "map_of ps n = Some p"
  using assms
proof (induction raws arbitrary: i out)
  case (Cons raw raws)
  show ?case
  proof (cases "row_value form ''provider_remove'' i = ''true'' \<or> trim_space raw = []")
    case True
    with Cons show ?thesis by (simp add: Let_def)
  next
    case False
    then obtain q where "provider_rows nw sha form existing (Suc i) raws (out @ [(trim_space raw, q)]) = Inr ps"
      using Cons.prems by (auto simp: Let_def rbind_Inr_iff)
    with Cons show ?thesis by simp
  qed
qed simp

lemma provider_rows_row:
  assumes "provider_rows nw sha form existing i raws out = Inr ps" "k < length raws" "trim_space (raws ! k) \<noteq> []"
    "row_value form ''provider_remove'' (i + k) \<noteq> ''true''"
  shows "\<exists>p. map_of ps (trim_space (raws ! k)) = Some p \<and> pc_key_env p = posted_env sha form (i + k) (trim_space (raws ! k)) \<and>
    pc_api_key p = []"
  using assms
proof (induction raws arbitrary: i k out)
  case (Cons raw raws)
  show ?case
  proof (cases "row_value form ''provider_remove'' i = ''true'' \<or> trim_space raw = []")
    case True
    with Cons.prems obtain k' where k: "k = Suc k'" by (cases k) auto
    have "provider_rows nw sha form existing (Suc i) raws out = Inr ps" using True Cons.prems(1) by (simp add: Let_def)
    from Cons.IH [OF this, of k'] Cons.prems k show ?thesis by simp
  next
    case False
    then obtain q where q: "provider_row nw sha form existing i (trim_space raw) out = Inr q"
      "provider_rows nw sha form existing (Suc i) raws (out @ [(trim_space raw, q)]) = Inr ps"
      using Cons.prems by (auto simp: Let_def rbind_Inr_iff)
    show ?thesis
    proof (cases k)
      case 0
      have "map_of (out @ [(trim_space raw, q)]) (trim_space raw) = Some q"
        using provider_row_fields [OF q(1)] by (simp add: map_add_def map_of_eq_None_iff [THEN iffD2])
      from provider_rows_keep [OF q(2) this] provider_row_fields [OF q(1)] 0 show ?thesis by simp
    next
      case (Suc k')
      from Cons.IH [OF q(2), of k'] Cons.prems Suc show ?thesis by simp
    qed
  qed
qed simp

lemma save_keys_none:
  assumes "\<forall>j. i \<le> j \<longrightarrow> row_raw form ''provider_api_key'' j = []"
  shows "save_keys disks form ps i raws env = (Inr (), env)"
  using assms by (induction raws arbitrary: i) (simp_all add: Let_def)

lemma save_keys_one:
  assumes "save_keys disks form ps i raws env = (Inr (), env')" "\<forall>j. j \<noteq> i + k \<longrightarrow> row_raw form ''provider_api_key'' j = []"
    "k < length raws" "trim_space (raws ! k) \<noteq> []" "row_raw form ''provider_api_key'' (i + k) \<noteq> []"
    "map_of ps (trim_space (raws ! k)) = Some p"
  shows "\<exists>d e1 e2. save_credential d e1 e2 (pc_key_env p) (row_raw form ''provider_api_key'' (i + k)) env = (Inr (), env')"
  using assms
proof (induction raws arbitrary: i k)
  case (Cons raw raws)
  show ?case
  proof (cases k)
    case 0
    obtain d e1 e2 where d: "disks i = (d, e1, e2)" by (metis prod.exhaust)
    obtain r env1 where s: "save_credential d e1 e2 (pc_key_env p) (row_raw form ''provider_api_key'' i) env = (r, env1)"
      by (metis prod.exhaust)
    have "\<forall>j. Suc i \<le> j \<longrightarrow> row_raw form ''provider_api_key'' j = []" using Cons.prems(2) 0 by simp
    from save_keys_none [OF this] have n: "save_keys disks form ps (Suc i) raws env1 = (Inr (), env1)" .
    from Cons.prems 0 d s n have "r = Inr () \<and> env1 = env'" by (cases r) (auto simp: Let_def)
    with s 0 show ?thesis by auto
  next
    case (Suc k')
    with Cons.prems have "save_keys disks form ps (Suc i) raws env = (Inr (), env')" by (simp add: Let_def)
    from Cons.IH [OF this, of k'] Cons.prems Suc show ?thesis by simp
  qed
qed simp

lemma accepted_post:
  assumes "providers_page w disks d e1 e2 rq p = (Shown 200 None, p')" "pr_method rq = ''POST''"
  shows "\<exists>(cfg :: config) ps env f. parse_providers (pw_net w) (pw_sha w) (pr_form rq) (cf_providers cfg) = Inr ps \<and>
      save_keys disks (pr_form rq) ps 0 (pr_form rq ''provider_name'') (pl_env p) = (Inr (), env) \<and>
      store_update (pw_config w) (pw_net w) (pw_toml w) d e1 e2 (Some (\<lambda>c. Inr (c\<lparr>cf_providers := ps\<rparr>))) (pl_config p) = (Inr (), f) \<and>
      p' = p\<lparr>pl_config := f, pl_env := env\<rparr>"
proof (cases "load_file (pw_config w) (pw_toml w) (pl_config p)")
  case Inl
  with assms show ?thesis by (simp add: providers_page_def)
next
  case cfg: (Inr cfg)
  have q: "pr_form_ok rq" "csrf_valid (pw_mac w) rq (form_value rq ''csrf_token'')"
    using assms cfg by (auto simp: providers_page_def split: if_splits)
  show ?thesis
  proof (cases "parse_providers (pw_net w) (pw_sha w) (pr_form rq) (cf_providers cfg)")
    case Inl
    with assms cfg q show ?thesis by (simp add: providers_page_def)
  next
    case ps: (Inr ps)
    obtain y env where k: "save_keys disks (pr_form rq) ps 0 (pr_form rq ''provider_name'') (pl_env p) = (y, env)" by (metis prod.exhaust)
    obtain x f where u: "store_update (pw_config w) (pw_net w) (pw_toml w) d e1 e2
      (Some (\<lambda>c. Inr (c\<lparr>cf_providers := ps\<rparr>))) (pl_config p) = (x, f)" by (metis prod.exhaust)
    have y: "y = Inr ()" using assms cfg q ps k by (cases y) (simp_all add: providers_page_def)
    have "x = Inr ()" "p' = p\<lparr>pl_config := f, pl_env := env\<rparr>"
      using assms cfg q ps k y u by (cases x; simp add: providers_page_def)+
    with ps k y u show ?thesis by blast
  qed
qed

lemma parsed_rows:
  "parse_providers nw sha form existing = Inr ps \<Longrightarrow> provider_rows nw sha form existing 0 (form ''provider_name'') [] = Inr ps"
  by (cases "provider_rows nw sha form existing 0 (form ''provider_name'') []") (auto simp: parse_providers_def split: sum.splits)

lemma key_loaded:
  assumes "save_credential d e1 e2 name val stored = (Inr (), stored')"
  shows "load_dot_env stored' env name = (if env name = [] then val else env name)"
  using saved_file [OF assms] load_updated_text by auto

text \<open>C36: A key pasted into the panel reaches the provider: when the page accepts the form, the next start of the core
  finds a provider of that name whose variable holds the key (unless the variable is set already), while the
  configuration file itself only refers to the variable.\<close>

theorem posted_key_reaches_next_start:
  assumes toml: "\<forall>c raw. tm_encode (pw_toml w) c = Inr raw \<longrightarrow> tm_decode (pw_toml w) raw = Inr (read_back caps c)"
    and accepted: "providers_page w disks d e1 e2 rq p = (Shown 200 None, p')" "pr_method rq = ''POST''"
    and row: "i < length (pr_form rq ''provider_name'')" "name = trim_space (pr_form rq ''provider_name'' ! i)" "name \<noteq> []"
      "row_value (pr_form rq) ''provider_remove'' i \<noteq> ''true''"
    and key: "key = row_raw (pr_form rq) ''provider_api_key'' i" "key \<noteq> []"
      "\<forall>j. j \<noteq> i \<longrightarrow> row_raw (pr_form rq) ''provider_api_key'' j = []"
  shows "\<exists>c q. load_file (pw_config w) (pw_toml w) (pl_config p') = Inr c \<and> map_of (cf_providers c) name = Some q \<and>
    pc_key_env q = posted_env (pw_sha w) (pr_form rq) i name \<and> keyless (pw_toml w) (pl_config p') \<and>
    (\<forall>env. env (pc_key_env q) = [] \<longrightarrow> load_dot_env (pl_env p') env (pc_key_env q) = key)"
proof -
  obtain cfg :: config and ps env f where u: "parse_providers (pw_net w) (pw_sha w) (pr_form rq) (cf_providers cfg) = Inr ps"
      "save_keys disks (pr_form rq) ps 0 (pr_form rq ''provider_name'') (pl_env p) = (Inr (), env)"
      "store_update (pw_config w) (pw_net w) (pw_toml w) d e1 e2 (Some (\<lambda>c. Inr (c\<lparr>cf_providers := ps\<rparr>))) (pl_config p) = (Inr (), f)"
      "p' = p\<lparr>pl_config := f, pl_env := env\<rparr>"
    using accepted_post [OF accepted] by blast
  from parsed_rows [OF u(1)]
  have "provider_rows (pw_net w) (pw_sha w) (pr_form rq) (cf_providers cfg) 0 (pr_form rq ''provider_name'') [] = Inr ps" .
  from provider_rows_row [OF this row(1)] row obtain q0 where q0: "map_of ps name = Some q0"
    "pc_key_env q0 = posted_env (pw_sha w) (pr_form rq) i name" "pc_api_key q0 = []" by auto
  obtain d' e1' e2' where sv: "save_credential d' e1' e2' (pc_key_env q0) key (pl_env p) = (Inr (), env)"
    using save_keys_one [OF u(2), of i q0] row key q0(1) by auto
  then have v: "credential_name (pc_key_env q0)" using saved_file by blast
  then have ne: "pc_key_env q0 \<noteq> []" by (rule credential_nameD)
  from u(3) obtain raw m old where r: "updated_config (pw_toml w) (\<lambda>c. Inr (c\<lparr>cf_providers := ps\<rparr>)) old = Inr raw" "f = Some raw"
    "is_ok (validate_copy (pw_config w) (pw_net w) (pw_toml w) raw)"
    by (cases rule: store_update_cases) auto
  then obtain c0 where "tm_encode (pw_toml w) (reference_keys (c0\<lparr>cf_providers := ps\<rparr>)) = Inr raw"
    by (auto simp: updated_config_def rbind_Inr_iff)
  with toml have dec: "tm_decode (pw_toml w) raw = Inr (read_back caps (reference_keys (c0\<lparr>cf_providers := ps\<rparr>)))" by blast
  from r(3) obtain c where c: "load (pw_config w) (tm_decode (pw_toml w) raw) = Inr c"
    by (auto simp: validate_copy_def is_ok_iff rbind_Inr_iff)
  then obtain qs where qs: "load_providers (cf_providers (read_back caps (reference_keys (c0\<lparr>cf_providers := ps\<rparr>)))) = Inr qs" "cf_providers c = qs"
    unfolding dec by (elim loadD) auto
  have "map_of (cf_providers (read_back caps (reference_keys (c0\<lparr>cf_providers := ps\<rparr>)))) name =
      Some ((key_reference q0)\<lparr>pc_key_env := [], pc_capabilities := caps (pc_capabilities (key_reference q0))\<rparr>)"
    using q0(1) by (rule read_back_provider)
  from load_providers_map_of [OF qs(1) this] env_reference_of [OF v] ne
  obtain q where q: "map_of (cf_providers c) name = Some q" "pc_key_env q = pc_key_env q0"
    unfolding qs(2) by (auto simp: key_reference_def)
  have "startable (pw_config w) (pw_net w) (pw_toml w) f" using r by (simp add: startable_def)
  from startable_keyless [OF this] have "keyless (pw_toml w) (pl_config p')" by (simp add: u(4))
  moreover have "load_file (pw_config w) (pw_toml w) (pl_config p') = Inr c" using c r(2) by (simp add: load_file_def u(4))
  moreover have "load_dot_env env en (pc_key_env q0) = (if en (pc_key_env q0) = [] then key else en (pc_key_env q0))" for en
    using key_loaded [OF sv] .
  ultimately show ?thesis using q q0(2) by (intro exI [of _ c] exI [of _ q]) (simp add: u(4))
qed

section \<open>A pasted key\<close>

definition pasted_config :: config where
  "pasted_config = sample_config\<lparr>cf_providers := [(''new'', \<lparr>pc_type = ''openai'', pc_backend = [], pc_base_url = ''u'', pc_model = ''m'',
     pc_api_key = ''${VIRGIL_PROVIDER_NEW_61626364_API_KEY}'', pc_key_env = ''VIRGIL_PROVIDER_NEW_61626364_API_KEY'',
     pc_capabilities = None, pc_local = False\<rparr>)]\<rparr>"

definition pasting_toml :: toml where
  "pasting_toml = \<lparr>tm_decode = (\<lambda>raw. if raw = ''one'' then Inr sample_config else Inr (read_back (\<lambda>c. c) pasted_config)),
     tm_encode = (\<lambda>c. if c = pasted_config then Inr ''three'' else Inl (Errorf ''toml''))\<rparr>"

definition pasting_world :: panel_world where
  "pasting_world = sample_panel_world\<lparr>pw_toml := pasting_toml\<rparr>"

definition pasted_form :: panel_request where
  "pasted_form = posted None [(''csrf_token'', ''6d''), (''provider_name'', '' new ''), (''provider_type'', ''openai''),
     (''provider_base_url'', ''u''), (''provider_model'', ''m''), (''provider_api_key'', ''sk-1'')]"

lemma posted_key_reaches_next_start_witness:
  "\<exists>p' (q :: provider_config). providers_page pasting_world (\<lambda>_. (plain_disk, False, False)) plain_disk False False pasted_form sample_panel = (Shown 200 None, p') \<and>
     pc_key_env q = ''VIRGIL_PROVIDER_NEW_61626364_API_KEY'' \<and> load_dot_env (pl_env p') (\<lambda>_. []) (pc_key_env q) = ''sk-1'' \<and>
     keyless pasting_toml (pl_config p')"
proof -
  have f: "pl_config (snd (providers_page pasting_world (\<lambda>_. (plain_disk, False, False)) plain_disk False False pasted_form sample_panel)) = Some ''three''"
    by code_simp
  have "fst (providers_page pasting_world (\<lambda>_. (plain_disk, False, False)) plain_disk False False pasted_form sample_panel) = Shown 200 None"
    by code_simp
  then obtain p' where acc: "providers_page pasting_world (\<lambda>_. (plain_disk, False, False)) plain_disk False False pasted_form sample_panel =
    (Shown 200 None, p')" by (metis prod.collapse)
  have "\<forall>c raw. tm_encode (pw_toml pasting_world) c = Inr raw \<longrightarrow> tm_decode (pw_toml pasting_world) raw = Inr (read_back (\<lambda>c. c) c)"
    by (auto simp: pasting_world_def pasting_toml_def split: if_splits)
  note reached = posted_key_reaches_next_start [where w = pasting_world and caps = "\<lambda>c. c", OF this acc, of 0 "''new''" "''sk-1''"]
  have m: "pr_method pasted_form = ''POST''" "0 < length (pr_form pasted_form ''provider_name'')"
    "''new'' = trim_space (pr_form pasted_form ''provider_name'' ! 0)" "row_value (pr_form pasted_form) ''provider_remove'' 0 \<noteq> ''true''"
    "''sk-1'' = row_raw (pr_form pasted_form) ''provider_api_key'' 0" by code_simp+
  have "length (pr_form pasted_form ''provider_api_key'') = 1" by code_simp
  then have k: "\<forall>j. j \<noteq> 0 \<longrightarrow> row_raw (pr_form pasted_form) ''provider_api_key'' j = []" by (auto simp: row_raw_def)
  have v: "posted_env (pw_sha pasting_world) (pr_form pasted_form) 0 ''new'' = ''VIRGIL_PROVIDER_NEW_61626364_API_KEY''" by code_simp
  have "pw_toml pasting_world = pasting_toml" by (simp add: pasting_world_def)
  with reached [OF m(1,2,3) _ m(4) m(5) _ k] acc v show ?thesis by auto
qed

end
