(* ===== verification/Panel_Queries.thy ===== *)
theory Panel_Queries
  imports Panel Event_Journal Execution_Store
begin

text \<open>
  What the read-only pages of the panel ask the journal (\<open>internal/dashboard/queries.go\<close>, \<open>executions.go\<close>,
  \<open>overview.go\<close>, and the pages of \<open>handler.go\<close> that show them). A query is a function of the tables. Costs and mean
  latencies are floating-point numbers of SQLite and Go; what the code does with them is a parameter (\<open>reals\<close>).
\<close>

section \<open>Columns of an event\<close>

record 'r reals =
  rl_zero :: 'r
  rl_cast :: "string \<Rightarrow> 'r"
  rl_sum :: "'r list \<Rightarrow> 'r"
  rl_mean :: "int list \<Rightarrow> 'r"

text \<open>\<open>costExpr\<close>\<close>

definition cost_expr :: "'r reals \<Rightarrow> event \<Rightarrow> 'r" where
  "cost_expr R e = (case ev_actual_cost e of Some s \<Rightarrow> rl_cast R s
     | None \<Rightarrow> (case ev_estimated_cost e of Some s \<Rightarrow> rl_cast R s | None \<Rightarrow> rl_zero R))"

definition tokens_or_zero :: "int option \<Rightarrow> int" where
  "tokens_or_zero n = (case n of None \<Rightarrow> 0 | Some k \<Rightarrow> k)"

definition failed_event :: "event_row \<Rightarrow> bool" where
  "failed_event r \<longleftrightarrow> er_status r \<noteq> ''success''"

text \<open>What every aggregate asks of its group: rows, errors, costs, mean latency and tokens.\<close>

record 'r totals =
  tt_calls :: int
  tt_errors :: int
  tt_cost :: 'r
  tt_latency :: 'r
  tt_input :: int
  tt_output :: int

definition totals_of :: "'r reals \<Rightarrow> event_row list \<Rightarrow> 'r totals" where
  "totals_of R rows = (if rows = [] then \<lparr>tt_calls = 0, tt_errors = 0, tt_cost = rl_zero R, tt_latency = rl_zero R, tt_input = 0, tt_output = 0\<rparr>
     else \<lparr>tt_calls = int (length rows), tt_errors = int (length (filter failed_event rows)),
       tt_cost = rl_sum R (map (cost_expr R \<circ> er_payload) rows), tt_latency = rl_mean R (map (ev_latency_ms \<circ> er_payload) rows),
       tt_input = sum_list (map (tokens_or_zero \<circ> ev_input_tokens \<circ> er_payload) rows),
       tt_output = sum_list (map (tokens_or_zero \<circ> ev_output_tokens \<circ> er_payload) rows)\<rparr>)"

text \<open>\<open>SUM\<close> of integers is an error of the driver when it leaves 64 bits.\<close>

definition checked_totals :: "'r totals \<Rightarrow> 'r totals sql" where
  "checked_totals t = (if is_int64 (tt_input t) \<and> is_int64 (tt_output t) then ret t else fail ErrDriver)"

definition since_rows :: "time \<Rightarrow> tables \<Rightarrow> event_row list" where
  "since_rows start t = filter (\<lambda>r. start \<le> er_created r) (t_events t)"

text \<open>The groups of \<open>GROUP BY\<close>, each with its key.\<close>

definition groups_by :: "(event_row \<Rightarrow> 'k) \<Rightarrow> event_row list \<Rightarrow> ('k \<times> event_row list) list" where
  "groups_by key rows = map (\<lambda>k. (k, filter (\<lambda>r. key r = k) rows)) (remdups (map key rows))"

fun checked_groups :: "('k \<times> 'r totals) list \<Rightarrow> ('k \<times> 'r totals) list sql" where
  "checked_groups [] = ret []"
| "checked_groups ((k, t) # gs) = bindE (checked_totals t) (\<lambda>t'. bindE (checked_groups gs) (\<lambda>rest. ret ((k, t') # rest)))"

definition wrapping :: "string \<Rightarrow> 'a sql \<Rightarrow> 'a sql" where
  "wrapping what m j = (case m j of (Inl e, j') \<Rightarrow> (Inl (Wrapf what e), j') | (Inr x, j') \<Rightarrow> (Inr x, j'))"

section \<open>Usage\<close>

definition query_summary :: "'r reals \<Rightarrow> time \<Rightarrow> 'r totals sql" where
  "query_summary R start = wrapping ''query summary'' (bindE (query (totals_of R \<circ> since_rows start)) checked_totals)"

definition usage_key :: "event_row \<Rightarrow> string \<times> string" where
  "usage_key r = (ev_provider (er_payload r), ev_requested_model (er_payload r))"

definition wanted :: "string \<Rightarrow> string \<Rightarrow> event_row \<Rightarrow> bool" where
  "wanted model provider r \<longleftrightarrow> (model = [] \<or> ev_requested_model (er_payload r) = model) \<and> (provider = [] \<or> ev_provider (er_payload r) = provider)"

text \<open>The rows of a provider and model, the dearest first; the tokens are not asked for.\<close>

definition query_usage :: "('r :: linorder) reals \<Rightarrow> time \<Rightarrow> string \<Rightarrow> string \<Rightarrow> ((string \<times> string) \<times> 'r totals) list sql" where
  "query_usage R start model provider = wrapping ''query usage'' (query (\<lambda>t.
     rev (sort_key (tt_cost \<circ> snd) (map (\<lambda>(k, rows). (k, totals_of R rows))
       (groups_by usage_key (filter (wanted model provider) (since_rows start t)))))))"

section \<open>Sessions\<close>

text \<open>Integer division of SQLite and Go: towards zero.\<close>

definition tdiv :: "int \<Rightarrow> int \<Rightarrow> int" where
  "tdiv a b = (if a < 0 then - ((- a) div b) else a div b)"

definition bucket_of :: "event_row \<Rightarrow> int" where
  "bucket_of r = tdiv (tdiv (er_created r) 1000000000) 60 * 60"

record session_filter =
  sf_model :: string
  sf_provider :: string
  sf_status :: string
  sf_min_latency :: int
  sf_max_latency :: int

definition in_session_filter :: "session_filter \<Rightarrow> event_row \<Rightarrow> bool" where
  "in_session_filter f r \<longleftrightarrow> wanted (sf_model f) (sf_provider f) r \<and>
     (sf_status f = ''success'' \<longrightarrow> \<not> failed_event r) \<and> (sf_status f = ''error'' \<longrightarrow> failed_event r) \<and>
     (sf_min_latency f > 0 \<longrightarrow> sf_min_latency f \<le> ev_latency_ms (er_payload r)) \<and>
     (sf_max_latency f > 0 \<longrightarrow> ev_latency_ms (er_payload r) \<le> sf_max_latency f)"

datatype session_key = SessionKey int string

instantiation session_key :: linorder
begin

fun less_eq_session_key :: "session_key \<Rightarrow> session_key \<Rightarrow> bool" where
  "less_eq_session_key (SessionKey b m) (SessionKey b' m') = (b' < b \<or> (b' = b \<and> text_le m m'))"

definition less_session_key :: "session_key \<Rightarrow> session_key \<Rightarrow> bool" where
  "less_session_key a b \<longleftrightarrow> a \<le> b \<and> \<not> b \<le> (a :: session_key)"

instance
proof
  fix x y z :: session_key
  show "x < y \<longleftrightarrow> x \<le> y \<and> \<not> y \<le> x" by (rule less_session_key_def)
  show "x \<le> x" by (cases x) simp
  show "x \<le> y \<Longrightarrow> y \<le> z \<Longrightarrow> x \<le> z"
    by (cases x; cases y; cases z) (auto intro: text_le_trans)
  show "x \<le> y \<Longrightarrow> y \<le> x \<Longrightarrow> x = y"
    by (cases x; cases y) (auto intro: text_le_antisym)
  show "x \<le> y \<or> y \<le> x"
    by (cases x; cases y) (use text_le_total in auto)
qed

end

definition session_key_of :: "event_row \<Rightarrow> session_key" where
  "session_key_of r = SessionKey (bucket_of r) (ev_requested_model (er_payload r))"

record 'r session_row =
  sr_bucket :: int
  sr_model :: string
  sr_providers :: "string list"
  sr_totals :: "'r totals"
  sr_first :: time
  sr_last :: time

definition session_row_of :: "'r reals \<Rightarrow> session_key \<times> event_row list \<Rightarrow> 'r session_row" where
  "session_row_of R g = (case g of (k, rows) \<Rightarrow> case k of SessionKey b m \<Rightarrow> \<lparr>sr_bucket = b, sr_model = m,
     sr_providers = remdups (map (ev_provider \<circ> er_payload) rows), sr_totals = totals_of R rows,
     sr_first = Min (set (map er_created rows)), sr_last = Max (set (map er_created rows))\<rparr>)"

text \<open>One row per minute and model, the newest first, at most 200.\<close>

definition session_rows :: "'r reals \<Rightarrow> time \<Rightarrow> session_filter \<Rightarrow> tables \<Rightarrow> 'r session_row list" where
  "session_rows R start f t = map (session_row_of R) (take 200 (sort_key fst
     (groups_by session_key_of (filter (in_session_filter f) (since_rows start t)))))"

fun checked_sessions :: "'r session_row list \<Rightarrow> 'r session_row list sql" where
  "checked_sessions [] = ret []"
| "checked_sessions (s # ss) = bindE (checked_totals (sr_totals s)) (\<lambda>_. bindE (checked_sessions ss) (\<lambda>rest. ret (s # rest)))"

definition query_sessions :: "'r reals \<Rightarrow> time \<Rightarrow> session_filter \<Rightarrow> 'r session_row list sql" where
  "query_sessions R start f = wrapping ''query sessions'' (bindE (query (session_rows R start f)) checked_sessions)"

section \<open>Events of a session, of a run\<close>

record 'r event_view =
  ew_event_id :: string
  ew_provider :: string
  ew_model :: string
  ew_status :: string
  ew_cost :: 'r
  ew_latency :: int
  ew_input :: int
  ew_output :: int
  ew_created :: time

definition view_event :: "'r reals \<Rightarrow> event_row \<Rightarrow> 'r event_view" where
  "view_event R r = \<lparr>ew_event_id = er_event_id r, ew_provider = ev_provider (er_payload r),
     ew_model = ev_requested_model (er_payload r), ew_status = er_status r, ew_cost = cost_expr R (er_payload r),
     ew_latency = ev_latency_ms (er_payload r), ew_input = tokens_or_zero (ev_input_tokens (er_payload r)),
     ew_output = tokens_or_zero (ev_output_tokens (er_payload r)), ew_created = er_created r\<rparr>"

definition session_events :: "int \<Rightarrow> string \<Rightarrow> tables \<Rightarrow> event_row list" where
  "session_events bucket model t = sort_key er_created (filter (\<lambda>r.
     wrap64 (bucket * 1000000000) \<le> er_created r \<and> er_created r < wrap64 (wrap64 (bucket + 60) * 1000000000) \<and>
     wanted model [] r) (t_events t))"

definition query_session_events :: "'r reals \<Rightarrow> int \<Rightarrow> string \<Rightarrow> 'r event_view list sql" where
  "query_session_events R bucket model =
     wrapping ''query session events'' (query (map (view_event R) \<circ> session_events bucket model))"

definition query_run_events :: "'r reals \<Rightarrow> string \<Rightarrow> 'r event_view list sql" where
  "query_run_events R run_id = wrapping ''query run events'' (query (\<lambda>t. map (view_event R)
     (take 200 (sort_key (\<lambda>r. - er_created r) (filter (\<lambda>r. ev_run_id (er_payload r) = run_id) (t_events t))))))"

definition query_event_by_id :: "'r reals \<Rightarrow> string \<Rightarrow> 'r event_view sql" where
  "query_event_by_id R event_id = query_row (\<lambda>t. map_option (view_event R) (first_row (\<lambda>r. er_event_id r = event_id) (t_events t)))"

definition query_distinct :: "(event \<Rightarrow> string) \<Rightarrow> time \<Rightarrow> string list sql" where
  "query_distinct column start = query (\<lambda>t. map (\<lambda>k. case k of SessionKey _ s \<Rightarrow> s)
     (sort_key id (remdups (map (SessionKey 0 \<circ> column \<circ> er_payload) (since_rows start t)))))"

text \<open>What \<open>SessionHandler\<close> adds up over the events it shows.\<close>

record session_page =
  sp_events :: nat
  sp_errors :: int
  sp_input :: int
  sp_output :: int

definition session_page_of :: "'r event_view list \<Rightarrow> session_page" where
  "session_page_of es = \<lparr>sp_events = length es, sp_errors = int (length (filter (\<lambda>e. ew_status e \<noteq> ''success'') es)),
     sp_input = wrap64 (sum_list (map ew_input es)), sp_output = wrap64 (sum_list (map ew_output es))\<rparr>"

definition session_handler :: "'r reals \<Rightarrow> (string \<Rightarrow> int option) \<Rightarrow> string \<Rightarrow> string \<Rightarrow> (nat + session_page) sql" where
  "session_handler R parse path_bucket model = (case parse path_bucket of None \<Rightarrow> ret (Inl 400)
     | Some b \<Rightarrow> (\<lambda>j. case query_session_events R b model j of
         (Inl _, j') \<Rightarrow> (Inr (Inl 500), j') | (Inr es, j') \<Rightarrow> (Inr (Inr (session_page_of es)), j')))"

section \<open>A session page shows what its row counted\<close>

definition no_filter :: session_filter where
  "no_filter = \<lparr>sf_model = [], sf_provider = [], sf_status = [], sf_min_latency = 0, sf_max_latency = 0\<rparr>"

lemma checked_totals_Inr: "checked_totals t j = (Inr t', j') \<Longrightarrow> t' = t \<and> j' = j \<and> is_int64 (tt_input t) \<and> is_int64 (tt_output t)"
  by (auto simp: checked_totals_def ret_def fail_def split: if_splits)

lemma checked_sessions_Inr:
  "checked_sessions ss j = (Inr rows, j') \<Longrightarrow> rows = ss \<and> (\<forall>s \<in> set ss. is_int64 (tt_input (sr_totals s)) \<and> is_int64 (tt_output (sr_totals s)))"
proof (induction ss arbitrary: rows j j')
  case (Cons s ss)
  then show ?case by (fastforce elim!: bindE_okE dest!: checked_totals_Inr simp: ret_def)
qed (simp add: ret_def)

lemma wrapping_Inr: "wrapping what m j = (Inr x, j') \<longleftrightarrow> m j = (Inr x, j')"
  by (auto simp: wrapping_def split: prod.splits sum.splits)

lemma tdiv_nonneg: "0 \<le> a \<Longrightarrow> tdiv a b = a div b"
  by (simp add: tdiv_def)

lemma div_window:
  assumes "0 < (c :: int)"
  shows "x div c = n \<longleftrightarrow> n * c \<le> x \<and> x < (n + 1) * c"
proof
  assume "x div c = n"
  then have "n * c = x - x mod c" using div_mult_mod_eq [of x c] by simp
  moreover have "0 \<le> x mod c" "x mod c < c" using assms by simp_all
  ultimately show "n * c \<le> x \<and> x < (n + 1) * c" by (simp add: algebra_simps)
next
  assume "n * c \<le> x \<and> x < (n + 1) * c"
  then show "x div c = n" using int_div_pos_eq [of x c n "x - n * c"] by (simp add: algebra_simps)
qed

lemma bucket_iff:
  assumes "0 \<le> er_created r" "0 \<le> er_created q"
  shows "bucket_of r = bucket_of q \<longleftrightarrow> bucket_of q * 1000000000 \<le> er_created r \<and> er_created r < (bucket_of q + 60) * 1000000000"
proof -
  have b: "bucket_of x = (er_created x div 60000000000) * 60" if "0 \<le> er_created x" for x
    using that zdiv_zmult2_eq [of 60 "er_created x" 1000000000] by (simp add: bucket_of_def tdiv_nonneg pos_imp_zdiv_nonneg_iff)
  define n where "n = er_created q div 60000000000"
  have "er_created r div 60000000000 = n \<longleftrightarrow> n * 60000000000 \<le> er_created r \<and> er_created r < (n + 1) * 60000000000"
    by (rule div_window) simp
  with b [OF assms(1)] b [OF assms(2)] show ?thesis by (simp add: n_def algebra_simps)
qed

lemma sum_list_sorted: "sum_list (map g (sort_key f xs)) = sum_list (map g (xs :: event_row list))" for g :: "event_row \<Rightarrow> int"
  by (metis mset_map mset_sort sum_mset_sum_list)

lemma groups_by_mem: "g \<in> set (groups_by key rows) \<Longrightarrow> \<exists>r \<in> set rows. g = (key r, filter (\<lambda>x. key x = key r) rows)"
  by (auto simp: groups_by_def)

lemma session_row_mem:
  assumes "s \<in> set (session_rows R start no_filter t)"
  shows "\<exists>q \<in> set (t_events t). sr_bucket s = bucket_of q \<and> sr_model s = ev_requested_model (er_payload q) \<and>
    sr_totals s = totals_of R (filter (\<lambda>r. session_key_of r = session_key_of q) (since_rows start t)) \<and> start \<le> er_created q"
proof -
  have f: "filter (in_session_filter no_filter) rows = rows" for rows
    by (simp add: in_session_filter_def no_filter_def wanted_def)
  from assms obtain g where g: "s = session_row_of R g" "g \<in> set (groups_by session_key_of (since_rows start t))"
    unfolding session_rows_def f by (auto dest: in_set_takeD)
  then obtain q where q: "q \<in> set (since_rows start t)" "g = (session_key_of q, filter (\<lambda>x. session_key_of x = session_key_of q) (since_rows start t))"
    using groups_by_mem by blast
  with g show ?thesis by (intro bexI [of _ q]) (auto simp: session_row_of_def session_key_of_def since_rows_def)
qed

lemma session_group:
  assumes "\<forall>r \<in> set (t_events t). 0 \<le> er_created r \<and> er_created r < 9223371900000000000" "q \<in> set (t_events t)"
    "start \<le> bucket_of q * 1000000000" "ev_requested_model (er_payload q) \<noteq> []"
  shows "session_events (bucket_of q) (ev_requested_model (er_payload q)) t =
    sort_key er_created (filter (\<lambda>r. session_key_of r = session_key_of q) (since_rows start t))"
proof -
  have q: "0 \<le> er_created q" "er_created q < 9223371900000000000" using assms by auto
  have b: "bucket_of q = (er_created q div 60000000000) * 60"
    using q zdiv_zmult2_eq [of 60 "er_created q" 1000000000] by (simp add: bucket_of_def tdiv_nonneg pos_imp_zdiv_nonneg_iff)
  then have "0 \<le> bucket_of q" "bucket_of q * 1000000000 \<le> 9223371900000000000" using q by (simp_all add: pos_imp_zdiv_nonneg_iff)
  then have w: "wrap64 (bucket_of q * 1000000000) = bucket_of q * 1000000000"
    "wrap64 (wrap64 (bucket_of q + 60) * 1000000000) = (bucket_of q + 60) * 1000000000"
    by (simp_all add: wrap64_nonneg_id max_int64_def)
  have "filter (\<lambda>r. bucket_of q * 1000000000 \<le> er_created r \<and> er_created r < (bucket_of q + 60) * 1000000000 \<and>
      wanted (ev_requested_model (er_payload q)) [] r) (t_events t) =
    filter (\<lambda>r. start \<le> er_created r \<and> session_key_of r = session_key_of q) (t_events t)"
  proof (rule filter_cong [OF refl])
    fix r assume "r \<in> set (t_events t)"
    then have "0 \<le> er_created r" using assms(1) by blast
    from bucket_iff [OF this q(1)] assms(3,4)
    show "(bucket_of q * 1000000000 \<le> er_created r \<and> er_created r < (bucket_of q + 60) * 1000000000 \<and>
        wanted (ev_requested_model (er_payload q)) [] r) =
      (start \<le> er_created r \<and> session_key_of r = session_key_of q)"
      by (auto simp: session_key_of_def wanted_def)
  qed
  then show ?thesis by (simp add: session_events_def w since_rows_def)
qed

text \<open>The page of a session shows exactly the calls its row in the overview counted: as many events, as many errors
  and the same tokens, for every minute that begins within the period shown.\<close>

theorem session_page_agrees_with_row:
  assumes "query_sessions R start no_filter j = (Inr rows, j1)" "s \<in> set rows"
    "query_session_events R (sr_bucket s) (sr_model s) j = (Inr es, j2)"
    "\<forall>r \<in> set (t_events (tbl j)). 0 \<le> er_created r \<and> er_created r < 9223371900000000000"
    "start \<le> sr_bucket s * 1000000000" "sr_model s \<noteq> []"
  shows "session_page_of es = \<lparr>sp_events = nat (tt_calls (sr_totals s)), sp_errors = tt_errors (sr_totals s),
    sp_input = tt_input (sr_totals s), sp_output = tt_output (sr_totals s)\<rparr>"
proof -
  have rows: "rows = session_rows R start no_filter (tbl j)" and ok: "is_int64 (tt_input (sr_totals s))" "is_int64 (tt_output (sr_totals s))"
    using assms(1,2) by (auto simp: query_sessions_def wrapping_Inr elim!: bindE_okE dest!: query_run checked_sessions_Inr)
  then obtain q where q: "q \<in> set (t_events (tbl j))" "sr_bucket s = bucket_of q" "sr_model s = ev_requested_model (er_payload q)"
    "sr_totals s = totals_of R (filter (\<lambda>r. session_key_of r = session_key_of q) (since_rows start (tbl j)))" "start \<le> er_created q"
    using session_row_mem assms(2) by blast
  define group where "group = filter (\<lambda>r. session_key_of r = session_key_of q) (since_rows start (tbl j))"
  have "es = map (view_event R) (session_events (sr_bucket s) (sr_model s) (tbl j))"
    using assms(3) by (auto simp: query_session_events_def wrapping_Inr dest!: query_run)
  then have es: "es = map (view_event R) (sort_key er_created group)"
    using session_group [OF assms(4) q(1)] assms(5,6) q(2,3) by (simp add: group_def)
  have "q \<in> set group" using q(1,5) by (simp add: group_def since_rows_def)
  then have ne: "group \<noteq> []" by auto
  have e: "filter (\<lambda>e. ew_status e \<noteq> ''success'') es = map (view_event R) (sort_key er_created (filter failed_event group))"
    unfolding es filter_map by (simp add: comp_def view_event_def failed_event_def [abs_def] filter_sort)
  have "map ew_input es = map (tokens_or_zero \<circ> ev_input_tokens \<circ> er_payload) (sort_key er_created group)"
    "map ew_output es = map (tokens_or_zero \<circ> ev_output_tokens \<circ> er_payload) (sort_key er_created group)"
    by (simp_all add: es view_event_def)
  then have "sum_list (map ew_input es) = tt_input (sr_totals s)" "sum_list (map ew_output es) = tt_output (sr_totals s)"
    using ne q(4) by (simp_all add: sum_list_sorted totals_of_def group_def [symmetric])
  moreover have "int (length es) = tt_calls (sr_totals s)" using ne q(4) by (simp add: es totals_of_def group_def [symmetric])
  moreover have "int (length (filter (\<lambda>e. ew_status e \<noteq> ''success'') es)) = tt_errors (sr_totals s)"
    using ne q(4) by (simp add: e totals_of_def group_def [symmetric])
  ultimately show ?thesis using ok by (simp add: session_page_of_def wrap64_id)
qed

definition sample_reals :: "int reals" where
  "sample_reals = \<lparr>rl_zero = 0, rl_cast = (\<lambda>_. 1), rl_sum = sum_list, rl_mean = (\<lambda>_. 0)\<rparr>"

definition panel_row :: "string \<Rightarrow> time \<Rightarrow> event_row" where
  "panel_row i at_ns = \<lparr>er_event_id = i, er_installation_id = ''i'', er_created = at_ns, er_status = ''success'',
     er_payload = example_event\<lparr>ev_run_id := ''r'', ev_requested_model := ''m'', ev_input_tokens := Some 7\<rparr>\<rparr>"

definition panel_journal :: journal where
  "panel_journal = (new_journal ''i'')\<lparr>tbl := empty_tables\<lparr>t_executions := [started_row],
     t_events := [panel_row ''a'' 61000000000, panel_row ''b'' 119000000000, panel_row ''c'' 121000000000]\<rparr>\<rparr>"

lemma session_page_agrees_with_row_witness:
  "\<exists>es. fst (query_session_events sample_reals 60 ''m'' panel_journal) = Inr es \<and> length es = 2 \<and>
     session_page_of es = \<lparr>sp_events = 2, sp_errors = 0, sp_input = 14, sp_output = sp_output (session_page_of es)\<rparr>"
proof -
  have "is_ok (fst (query_sessions sample_reals 60000000000 no_filter panel_journal))" by code_simp
  then obtain rows where q: "query_sessions sample_reals 60000000000 no_filter panel_journal =
      (Inr rows, snd (query_sessions sample_reals 60000000000 no_filter panel_journal))"
    unfolding is_ok_iff by (metis prod.collapse)
  have "case fst (query_sessions sample_reals 60000000000 no_filter panel_journal) of Inl _ \<Rightarrow> False
    | Inr rows \<Rightarrow> map (\<lambda>s. (sr_bucket s, sr_model s, tt_calls (sr_totals s), tt_errors (sr_totals s), tt_input (sr_totals s))) rows =
        [(120, ''m'', 1, 0, 7), (60, ''m'', 2, 0, 14)]" by code_simp
  then have "(60, ''m'', 2, 0, 14) \<in> (\<lambda>s. (sr_bucket s, sr_model s, tt_calls (sr_totals s), tt_errors (sr_totals s), tt_input (sr_totals s))) ` set rows"
    by (subst (asm) q) (simp flip: set_map)
  then obtain s where s: "s \<in> set rows" "sr_bucket s = 60" "sr_model s = ''m''" "tt_calls (sr_totals s) = 2"
    "tt_errors (sr_totals s) = 0" "tt_input (sr_totals s) = 14" by auto
  have "is_ok (fst (query_session_events sample_reals 60 ''m'' panel_journal))" by code_simp
  then obtain es where es: "query_session_events sample_reals (sr_bucket s) (sr_model s) panel_journal =
      (Inr es, snd (query_session_events sample_reals 60 ''m'' panel_journal))"
    unfolding is_ok_iff s by (metis prod.collapse)
  have t: "\<forall>r \<in> set (t_events (tbl panel_journal)). 0 \<le> er_created r \<and> er_created r < 9223371900000000000" by code_simp
  have "60000000000 \<le> sr_bucket s * 1000000000" "sr_model s \<noteq> []" by (simp_all add: s)
  from session_page_agrees_with_row [OF q s(1) es t this] s
  have "session_page_of es = \<lparr>sp_events = 2, sp_errors = 0, sp_input = 14, sp_output = tt_output (sr_totals s)\<rparr>" by simp
  moreover from this have "length es = 2" by (simp add: session_page_of_def)
  moreover have "fst (query_session_events sample_reals 60 ''m'' panel_journal) = Inr es"
    using es s(2,3) by (metis fst_conv)
  ultimately show ?thesis by (intro exI [of _ es]) simp
qed

end
