(* ===== verification/Panel_Pages.thy ===== *)
theory Panel_Pages
  imports Panel_Queries
begin

text \<open>
  The pages over those queries: the hourly chart (\<open>internal/dashboard/queries.go\<close>), the overview
  (\<open>overview.go\<close>), the history and the detail of executions (\<open>executions.go\<close>) and the health page (\<open>health.go\<close>).
  A page is the data it renders; formatting of times and floating-point numbers is left out.
\<close>

section \<open>The hourly chart\<close>

text \<open>\<open>ch_label\<close> is \<open>strftime\<close> in the zone of the machine, with the day when its first argument says so;
  \<open>ch_scaled v m\<close> is \<open>int(v / m * 80)\<close>, \<open>ch_percent\<close> the percentage of two counts.\<close>

record 'r chart =
  ch_label :: "bool \<Rightarrow> time \<Rightarrow> string"
  ch_of_int :: "int \<Rightarrow> 'r"
  ch_scaled :: "'r \<Rightarrow> 'r \<Rightarrow> int"
  ch_percent :: "int \<Rightarrow> int \<Rightarrow> 'r"

record 'r hour_point =
  hp_label :: string
  hp_totals :: "'r totals"

definition hour_groups :: "'r chart \<Rightarrow> int \<Rightarrow> time \<Rightarrow> tables \<Rightarrow> (string \<times> event_row list) list" where
  "hour_groups ch hours now t = sort_key (\<lambda>g. Min (er_created ` set (snd g)))
     (groups_by (ch_label ch (hours > 24) \<circ> er_created) (since_rows (now - hours * 3600000000000) t))"

definition hour_points :: "'r reals \<Rightarrow> 'r chart \<Rightarrow> int \<Rightarrow> time \<Rightarrow> tables \<Rightarrow> 'r hour_point list" where
  "hour_points R ch hours now t = map (\<lambda>(l, rows). \<lparr>hp_label = l, hp_totals = totals_of R rows\<rparr>) (hour_groups ch hours now t)"

text \<open>The geometry: 520 units for all bars, each in its slot.\<close>

record bar =
  br_x :: int
  br_w :: int
  br_cx :: int

definition slot_width :: "nat \<Rightarrow> int" where
  "slot_width n = 520 div int n"

definition bar_width :: "nat \<Rightarrow> int" where
  "bar_width n = (let b = slot_width n - 4; b1 = (if b < 3 then 3 else b) in if b1 > 22 then 22 else b1)"

definition bar_at :: "nat \<Rightarrow> nat \<Rightarrow> bar" where
  "bar_at n i = \<lparr>br_x = 50 + int i * slot_width n + tdiv (slot_width n - bar_width n) 2, br_w = bar_width n,
     br_cx = 50 + int i * slot_width n + tdiv (slot_width n) 2\<rparr>"

definition bar_height :: "('r :: linorder) reals \<Rightarrow> 'r chart \<Rightarrow> 'r \<Rightarrow> 'r \<Rightarrow> int" where
  "bar_height R ch v mx = (if mx = rl_zero R then 0
     else (let h = ch_scaled ch v mx in if h < 1 \<and> rl_zero R < v then 1 else h))"

definition greatest :: "('a :: linorder) \<Rightarrow> 'a list \<Rightarrow> 'a" where
  "greatest z xs = fold (\<lambda>x m. if m < x then x else m) xs z"

record heights =
  ht_cost :: int
  ht_calls :: int
  ht_latency :: int
  ht_input :: int
  ht_output :: int
  ht_errors :: int

definition heights_of :: "('r :: linorder) reals \<Rightarrow> 'r chart \<Rightarrow> 'r hour_point list \<Rightarrow> 'r hour_point \<Rightarrow> heights" where
  "heights_of R ch pts p = (let t = hp_totals p; ts = map hp_totals pts;
       count = (\<lambda>n m. bar_height R ch (ch_of_int ch n) (ch_of_int ch m)) in
     \<lparr>ht_cost = bar_height R ch (tt_cost t) (greatest (rl_zero R) (map tt_cost ts)),
      ht_calls = count (tt_calls t) (greatest 0 (map tt_calls ts)),
      ht_latency = bar_height R ch (tt_latency t) (greatest (rl_zero R) (map tt_latency ts)),
      ht_input = count (tt_input t) (greatest 0 (map tt_input ts)),
      ht_output = count (tt_output t) (greatest 0 (map tt_output ts)),
      ht_errors = (if tt_calls t > 0 then bar_height R ch (ch_percent ch (tt_errors t) (tt_calls t)) (ch_of_int ch 100) else 0)\<rparr>)"

fun checked_points :: "'r hour_point list \<Rightarrow> 'r hour_point list sql" where
  "checked_points [] = ret []"
| "checked_points (p # ps) = bindE (checked_totals (hp_totals p)) (\<lambda>_. bindE (checked_points ps) (\<lambda>rest. ret (p # rest)))"

definition query_hourly :: "('r :: linorder) reals \<Rightarrow> 'r chart \<Rightarrow> int \<Rightarrow> time \<Rightarrow> ('r hour_point \<times> bar \<times> heights) list sql" where
  "query_hourly R ch hours now = bindE (wrapping ''query hourly'' (bindE (query (hour_points R ch hours now)) checked_points))
     (\<lambda>pts. ret (map (\<lambda>i. (pts ! i, bar_at (length pts) i, heights_of R ch pts (pts ! i))) [0..<length pts]))"

section \<open>The overview\<close>

record 'r overview =
  ov_active :: int
  ov_blocked :: int
  ov_breaks :: int
  ov_failures :: int
  ov_calls :: int
  ov_cost :: 'r

definition count_executions :: "(execution \<Rightarrow> bool) \<Rightarrow> tables \<Rightarrow> int" where
  "count_executions P t = int (length (filter P (t_executions t)))"

definition active_state :: "exec_state \<Rightarrow> bool" where
  "active_state s \<longleftrightarrow> s = StateStarting \<or> s = StateRunning"

definition query_overview :: "'r reals \<Rightarrow> time \<Rightarrow> 'r overview sql" where
  "query_overview R start =
     bindE (wrapping ''query protection overview'' (query (\<lambda>t.
       (count_executions (\<lambda>x. active_state (ex_state x)) t,
        count_executions (\<lambda>x. ex_policy x \<noteq> None \<and> start \<le> ex_started x) t,
        count_executions (\<lambda>x. ex_state x = StateBlocked \<and> ex_term_status x = Some TerminationSucceeded \<and> start \<le> ex_started x) t,
        count_executions (\<lambda>x. ex_state x = StateTerminationFailed \<and> start \<le> ex_started x) t))))
     (\<lambda>(active, blocked, breaks, failures). bindE (query_summary R start) (\<lambda>s.
       ret \<lparr>ov_active = active, ov_blocked = blocked, ov_breaks = breaks, ov_failures = failures,
         ov_calls = tt_calls s, ov_cost = tt_cost s\<rparr>))"

text \<open>\<open>parseIntClamp\<close>\<close>

definition parse_int_clamp :: "string \<Rightarrow> int \<Rightarrow> int \<Rightarrow> int \<Rightarrow> int" where
  "parse_int_clamp s fallback lo hi = (if s = [] then fallback
     else (case parse_int64 s of None \<Rightarrow> fallback | Some v \<Rightarrow> if v < lo then lo else if v > hi then hi else v))"

text \<open>The overview sends a fresh installation to the providers page.\<close>

definition overview_handler :: "'r reals \<Rightarrow> bool option \<Rightarrow> string \<Rightarrow> time \<Rightarrow> (panel_reply + int \<times> 'r overview) sql" where
  "overview_handler R configured hours_text now =
     (if configured = Some False then ret (Inl (Redirected ''/dashboard/providers?onboarding=1''))
      else (let hours = parse_int_clamp hours_text 24 1 744 in
        (\<lambda>j. case query_overview R (now - hours * 3600000000000) j of
           (Inl _, j') \<Rightarrow> (Inr (Inl (Refused 500 ''query error'')), j')
         | (Inr ov, j') \<Rightarrow> (Inr (Inr (hours, ov)), j'))))"

section \<open>Executions\<close>

record 'r execution_metrics =
  em_calls :: int
  em_events :: int
  em_tokens :: int
  em_cost :: 'r

definition metrics_of :: "'r reals \<Rightarrow> event_row list \<Rightarrow> 'r execution_metrics" where
  "metrics_of R rows = \<lparr>em_calls = int (length (filter (\<lambda>r. er_status r \<noteq> ''policy_block'') rows)), em_events = int (length rows),
     em_tokens = sum_list (map (\<lambda>r. tokens_or_zero (ev_input_tokens (er_payload r)) + tokens_or_zero (ev_output_tokens (er_payload r))) rows),
     em_cost = rl_sum R (map (cost_expr R \<circ> er_payload) rows)\<rparr>"

definition no_metrics :: "'r reals \<Rightarrow> 'r execution_metrics" where
  "no_metrics R = \<lparr>em_calls = 0, em_events = 0, em_tokens = 0, em_cost = rl_zero R\<rparr>"

text \<open>The metrics of the runs asked for; a run without events has none.\<close>

definition metrics_of_runs :: "'r reals \<Rightarrow> string list \<Rightarrow> tables \<Rightarrow> (string \<times> 'r execution_metrics) list" where
  "metrics_of_runs R ids t = map (\<lambda>(k, rows). (k, metrics_of R rows))
     (groups_by (ev_run_id \<circ> er_payload) (filter (\<lambda>r. ev_run_id (er_payload r) \<in> set ids) (t_events t)))"

definition query_execution_metrics :: "'r reals \<Rightarrow> string list \<Rightarrow> (string \<times> 'r execution_metrics) list sql" where
  "query_execution_metrics R ids = (if ids = [] then ret []
     else wrapping ''query execution metrics'' (bindE (query (metrics_of_runs R ids)) (\<lambda>ms.
       if list_all (\<lambda>(_, m). is_int64 (em_tokens m)) ms then ret ms else fail ErrDriver)))"

definition metrics_for :: "'r reals \<Rightarrow> (string \<times> 'r execution_metrics) list \<Rightarrow> string \<Rightarrow> 'r execution_metrics" where
  "metrics_for R ms rid = (case map_of ms rid of None \<Rightarrow> no_metrics R | Some m \<Rightarrow> m)"

definition bounded_query_int :: "string \<Rightarrow> int \<Rightarrow> int \<Rightarrow> int \<Rightarrow> int res" where
  "bounded_query_int raw fallback lo hi = (if raw = [] then Inr fallback
     else (case parse_int64 raw of None \<Rightarrow> Inl (Errorf ''value outside allowed range'')
       | Some v \<Rightarrow> if v < lo \<or> v > hi then Inl (Errorf ''value outside allowed range'') else Inr v))"

definition parse_execution_filters :: "string \<Rightarrow> string \<Rightarrow> string \<Rightarrow> (execution_filter \<times> int) res" where
  "parse_execution_filters state hours_text limit_text =
     (if state \<noteq> [] \<and> parse_state state = None then Inl (Errorf ''invalid state'')
      else rbind (bounded_query_int hours_text 24 1 168) (\<lambda>hours.
        rbind (bounded_query_int limit_text 50 1 200) (\<lambda>limit.
          Inr (\<lparr>xf_state = state, xf_since = zero_time, xf_limit = limit\<rparr>, hours))))"

definition run_id_char :: "char \<Rightarrow> bool" where
  "run_id_char c \<longleftrightarrow> is_lower c \<or> is_upper c \<or> is_digit c \<or> c = CHR ''_'' \<or> c = CHR ''-'' \<or> c = CHR ''.''"

definition valid_execution_run_id :: "string \<Rightarrow> bool" where
  "valid_execution_run_id rid \<longleftrightarrow> rid \<noteq> [] \<and> length rid \<le> 64 \<and> list_all run_id_char rid"

definition dash :: string where
  "dash = [CHR 0xE2, CHR 0x80, CHR 0x94]"

definition policy_outcome_text :: "execution_view \<Rightarrow> string" where
  "policy_outcome_text x = (if xv_policy x = [] then dash else if xv_policy_reason x = [] then xv_policy x
     else xv_policy x @ '' / '' @ xv_policy_reason x)"

definition termination_outcome :: "execution_view \<Rightarrow> string" where
  "termination_outcome x = (if xv_state x = StateTerminationFailed \<or> xv_term_status x = term_name TerminationFailed then ''Termination failed''
     else if xv_term_status x = term_name TerminationSucceeded then ''Process tree terminated''
     else if xv_term_status x = term_name TerminationNotRequired then ''Not required'' else ''Pending'')"

text \<open>The length of a run, never negative, rounded to seconds.\<close>

definition execution_duration :: "execution_view \<Rightarrow> time \<Rightarrow> int" where
  "execution_duration x now = (let d = max 0 ((case xv_ended x of None \<Rightarrow> now | Some e \<Rightarrow> e) - xv_started x); r = d mod 1000000000 in
     if r + r < 1000000000 then d - r else d + (1000000000 - r))"

record 'r execution_list_row =
  el_run_id :: string
  el_state :: exec_state
  el_duration :: int
  el_metrics :: "'r execution_metrics"
  el_policy :: string
  el_termination :: string

definition execution_list_row_of :: "'r reals \<Rightarrow> (string \<times> 'r execution_metrics) list \<Rightarrow> time \<Rightarrow> execution_view \<Rightarrow> 'r execution_list_row" where
  "execution_list_row_of R ms now x = \<lparr>el_run_id = xv_run_id x, el_state = xv_state x, el_duration = execution_duration x now,
     el_metrics = metrics_for R ms (xv_run_id x), el_policy = policy_outcome_text x, el_termination = termination_outcome x\<rparr>"

text \<open>\<open>ExecutionsHandler\<close>: the status of a refusal, or the rows.\<close>

definition executions_handler :: "'r reals \<Rightarrow> time \<Rightarrow> string \<Rightarrow> string \<Rightarrow> string \<Rightarrow> (nat + 'r execution_list_row list) sql" where
  "executions_handler R now state hours_text limit_text = (\<lambda>j.
     case parse_execution_filters state hours_text limit_text of Inl _ \<Rightarrow> (Inr (Inl 400), j)
     | Inr (f, hours) \<Rightarrow> (case list_executions_filtered (f\<lparr>xf_since := now - hours * 3600000000000\<rparr>) j of
         (Inl _, j1) \<Rightarrow> (Inr (Inl 500), j1)
       | (Inr xs, j1) \<Rightarrow> (case query_execution_metrics R (map xv_run_id xs) j1 of
           (Inl _, j2) \<Rightarrow> (Inr (Inl 500), j2)
         | (Inr ms, j2) \<Rightarrow> (Inr (Inr (map (execution_list_row_of R ms now) xs)), j2))))"

record 'r execution_page =
  xp_view :: execution_view
  xp_duration :: int
  xp_metrics :: "'r execution_metrics"
  xp_events :: "'r event_view list"
  xp_notice :: "(nat \<times> int) option"

text \<open>\<open>ExecutionHandler\<close>: the notice says how many of how many events are shown.\<close>

definition execution_handler :: "'r reals \<Rightarrow> time \<Rightarrow> string \<Rightarrow> (nat + 'r execution_page) sql" where
  "execution_handler R now rid = (\<lambda>j.
     if \<not> valid_execution_run_id rid then (Inr (Inl 400), j)
     else (case get_execution rid j of
        (Inl e, j1) \<Rightarrow> (Inr (Inl (if errors_is e ErrRunNotFound then 404 else 500)), j1)
      | (Inr x, j1) \<Rightarrow> (case query_run_events R rid j1 of
          (Inl _, j2) \<Rightarrow> (Inr (Inl 500), j2)
        | (Inr es, j2) \<Rightarrow> (case query_execution_metrics R [rid] j2 of
            (Inl _, j3) \<Rightarrow> (Inr (Inl 500), j3)
          | (Inr ms, j3) \<Rightarrow> (let m = metrics_for R ms rid in
              (Inr (Inr \<lparr>xp_view = x, xp_duration = execution_duration x now, xp_metrics = m, xp_events = es,
                 xp_notice = (if em_events m > int (length es) then Some (length es, em_events m) else None)\<rparr>), j3))))))"

section \<open>Health\<close>

record health_page =
  hl_restart :: bool
  hl_active :: int
  hl_dead_letters :: int

definition short_hash :: "string \<Rightarrow> string" where
  "short_hash v = (if length v > 12 then take 12 v else if v = [] then ''unavailable'' else v)"

text \<open>\<open>pending\<close> is the hash of the configuration file now, \<open>ping\<close> what the database answers.\<close>

definition health_handler :: "string \<Rightarrow> string res \<Rightarrow> unit res \<Rightarrow> (nat + health_page) sql" where
  "health_handler applied pending ping = (\<lambda>j. case pending of Inl _ \<Rightarrow> (Inr (Inl 500), j)
     | Inr h \<Rightarrow> (case ping of Inl _ \<Rightarrow> (Inr (Inl 500), j)
       | Inr _ \<Rightarrow> (case bindE (query (count_executions (\<lambda>x. active_state (ex_state x)))) (\<lambda>a.
             bindE (query (\<lambda>t. int (length (filter (\<lambda>x. ob_state x = DeadLettered) (t_outbox t))))) (\<lambda>d. ret (a, d))) j of
           (Inl _, j1) \<Rightarrow> (Inr (Inl 500), j1)
         | (Inr (a, d), j1) \<Rightarrow> (Inr (Inr \<lparr>hl_restart = (applied = [] \<or> h \<noteq> applied), hl_active = a, hl_dead_letters = d\<rparr>), j1))))"

section \<open>The chart holds its bars\<close>

lemma bar_width_fits: "0 < n \<Longrightarrow> n \<le> 173 \<Longrightarrow> 3 \<le> bar_width n \<and> bar_width n \<le> 22 \<and> bar_width n \<le> slot_width n"
proof -
  assume n: "0 < n" "n \<le> 173"
  have "3 * int n \<le> 520" using n by simp
  then have "3 \<le> slot_width n" using n zdiv_mono1 [of "3 * int n" 520 "int n"] by (simp add: slot_width_def)
  then show ?thesis by (simp add: bar_width_def Let_def)
qed

lemma slots_fit: "0 < n \<Longrightarrow> int n * slot_width n \<le> 520"
proof -
  assume "0 < n"
  have "int n * (520 div int n) + 520 mod int n = 520" by (rule mult_div_mod_eq)
  moreover have "0 \<le> 520 mod int n" using \<open>0 < n\<close> by simp
  ultimately show ?thesis unfolding slot_width_def by linarith
qed

lemma hourly_bars_fit:
  assumes "i < n" "n \<le> 173"
  shows "50 \<le> br_x (bar_at n i) \<and> br_x (bar_at n i) + br_w (bar_at n i) \<le> 570 \<and>
    br_x (bar_at n i) + br_w (bar_at n i) \<le> br_x (bar_at n (Suc i))"
proof -
  have b: "3 \<le> bar_width n" "bar_width n \<le> slot_width n" using bar_width_fits [of n] assms by auto
  have "(int i + 1) * slot_width n \<le> int n * slot_width n" using assms b by (intro mult_right_mono) auto
  also have "\<dots> \<le> 520" using slots_fit assms by simp
  finally have s: "int i * slot_width n + slot_width n \<le> 520" by (simp add: algebra_simps)
  have d: "tdiv (slot_width n - bar_width n) 2 = (slot_width n - bar_width n) div 2" using b by (simp add: tdiv_nonneg)
  have h: "2 * ((slot_width n - bar_width n) div 2) \<le> slot_width n - bar_width n" by linarith
  have p: "0 \<le> int i * slot_width n" "0 \<le> (slot_width n - bar_width n) div 2" using b by (simp_all add: pos_imp_zdiv_nonneg_iff)
  have e: "int (Suc i) * slot_width n = int i * slot_width n + slot_width n" by (simp add: algebra_simps)
  show ?thesis unfolding bar_at_def d using b s h p e by simp
qed

text \<open>With the period of a day, the label of a bar is the hour alone: what was recorded a day ago less a quarter of an
  hour is added to the bar of the current hour. \<open>utc_label\<close> is the label for a machine on UTC.\<close>

definition utc_label :: "bool \<Rightarrow> time \<Rightarrow> string" where
  "utc_label with_day ns = (let h = ns div 3600000000000 in
     (if with_day then show_int (h div 24) @ '' '' else []) @ show_int (h mod 24) @ '':00'')"

lemma utc_label_quarter:
  assumes "now mod 3600000000000 < 2700000000000"
  shows "utc_label False (now - 85500000000000) = utc_label False now"
proof -
  have "(now + 900000000000) div 3600000000000 = now div 3600000000000"
  proof (subst div_window)
    have "now = 3600000000000 * (now div 3600000000000) + now mod 3600000000000" by simp
    moreover have "0 \<le> now mod 3600000000000" by simp
    ultimately show "now div 3600000000000 * 3600000000000 \<le> now + 900000000000 \<and>
        now + 900000000000 < (now div 3600000000000 + 1) * 3600000000000"
      using assms unfolding distrib_right by linarith
  qed simp
  moreover have "(now - 85500000000000) div 3600000000000 = (now + 900000000000) div 3600000000000 + (- 24)"
    using div_mult_self1 [of 3600000000000 "now + 900000000000" "- 24"] by simp
  ultimately have "(now - 85500000000000) div 3600000000000 mod 24 = (now div 3600000000000 + (- 1) * 24) mod 24" by simp
  also have "\<dots> = now div 3600000000000 mod 24" by (rule mod_mult_self1)
  finally show ?thesis by (simp add: utc_label_def Let_def)
qed

lemma groups_by_together:
  assumes "r \<in> set rows" "q \<in> set rows" "key r = key q"
  shows "\<exists>g \<in> set (groups_by key rows). r \<in> set (snd g) \<and> q \<in> set (snd g)"
  using assms by (intro bexI [of _ "(key q, filter (\<lambda>x. key x = key q) rows)"]) (auto simp: groups_by_def)

lemma day_chart_merges_hours:
  assumes "ch_label ch = utc_label" "now mod 3600000000000 < 2700000000000" "r \<in> set (t_events t)" "q \<in> set (t_events t)"
    "er_created r = now - 85500000000000" "er_created q = now"
  shows "\<exists>g \<in> set (hour_groups ch 24 now t). r \<in> set (snd g) \<and> q \<in> set (snd g)"
proof -
  have "(ch_label ch False \<circ> er_created) r = (ch_label ch False \<circ> er_created) q"
    using utc_label_quarter [OF assms(2)] assms by simp
  moreover have "r \<in> set (since_rows (now - 24 * 3600000000000) t)" "q \<in> set (since_rows (now - 24 * 3600000000000) t)"
    using assms by (simp_all add: since_rows_def)
  ultimately have "\<exists>g \<in> set (groups_by (ch_label ch False \<circ> er_created) (since_rows (now - 24 * 3600000000000) t)).
      r \<in> set (snd g) \<and> q \<in> set (snd g)" by (intro groups_by_together)
  then show ?thesis by (simp add: hour_groups_def)
qed

section \<open>The page of an execution\<close>

lemma filter_remdups_one: "filter (\<lambda>k. k = x) (remdups xs) = (if x \<in> set xs then [x] else [])"
  by (induction xs) auto

lemma metrics_for_run:
  "metrics_for R (metrics_of_runs R [rid] t) rid =
    (let rows = filter (\<lambda>r. ev_run_id (er_payload r) = rid) (t_events t) in if rows = [] then no_metrics R else metrics_of R rows)"
proof -
  define rows where "rows = filter (\<lambda>r. ev_run_id (er_payload r) = rid) (t_events t)"
  have keys: "remdups (map (ev_run_id \<circ> er_payload) rows) = (if rows = [] then [] else [rid])"
  proof -
    have "\<forall>k \<in> set (map (ev_run_id \<circ> er_payload) rows). k = rid" by (auto simp: rows_def)
    then have "remdups (map (ev_run_id \<circ> er_payload) rows) = filter (\<lambda>k. k = rid) (remdups (map (ev_run_id \<circ> er_payload) rows))"
      by (simp add: filter_id_conv)
    also have "\<dots> = (if rid \<in> set (map (ev_run_id \<circ> er_payload) rows) then [rid] else [])" by (rule filter_remdups_one)
    also have "\<dots> = (if rows = [] then [] else [rid])"
      using \<open>\<forall>k \<in> set (map (ev_run_id \<circ> er_payload) rows). k = rid\<close> by (cases rows) auto
    finally show ?thesis .
  qed
  have "filter (\<lambda>r. (ev_run_id \<circ> er_payload) r = rid) rows = rows" by (simp add: rows_def)
  with keys have "groups_by (ev_run_id \<circ> er_payload) rows = (if rows = [] then [] else [(rid, rows)])"
    by (simp add: groups_by_def)
  then show ?thesis by (simp add: metrics_of_runs_def metrics_for_def rows_def [symmetric])
qed

lemma get_execution_tbl: "get_execution rid j = (Inr x, j') \<Longrightarrow> tbl j' = tbl j"
  by (auto simp: get_execution_def dest!: query_row_run split: prod.splits sum.splits if_splits)

text \<open>The page of an execution accounts for every event of the run: its calls and its blocks add up to the events
  recorded, the timeline holds the newest 200 of them, newest first, and the page says so exactly when there are more.\<close>

theorem execution_page_accounts_for_run:
  assumes "execution_handler R now rid j = (Inr (Inr p), j')"
  shows "\<exists>shown rest. xp_events p = map (view_event R) shown \<and>
    mset (shown @ rest) = mset (filter (\<lambda>r. ev_run_id (er_payload r) = rid) (t_events (tbl j))) \<and>
    sorted_wrt (\<lambda>a b. er_created b \<le> er_created a) (shown @ rest) \<and> length shown = min 200 (length (shown @ rest)) \<and>
    em_events (xp_metrics p) = int (length (shown @ rest)) \<and>
    em_events (xp_metrics p) = em_calls (xp_metrics p) + int (length (filter (\<lambda>r. er_status r = ''policy_block'') (shown @ rest))) \<and>
    xp_notice p = (if rest = [] then None else Some (length shown, int (length (shown @ rest))))"
proof -
  define rows where "rows = filter (\<lambda>r. ev_run_id (er_payload r) = rid) (t_events (tbl j))"
  define ordered where "ordered = sort_key (\<lambda>r. - er_created r) rows"
  obtain x j1 es j2 ms where g: "get_execution rid j = (Inr x, j1)" "query_run_events R rid j1 = (Inr es, j2)"
    "query_execution_metrics R [rid] j2 = (Inr ms, j')" "p = \<lparr>xp_view = x, xp_duration = execution_duration x now, xp_metrics = metrics_for R ms rid,
      xp_events = es, xp_notice = (if em_events (metrics_for R ms rid) > int (length es)
        then Some (length es, em_events (metrics_for R ms rid)) else None)\<rparr>"
    using assms by (auto simp: execution_handler_def Let_def split: if_splits prod.splits sum.splits)
  have t1: "tbl j1 = tbl j" using get_execution_tbl [OF g(1)] .
  have es: "es = map (view_event R) (take 200 ordered)" and t2: "tbl j2 = tbl j1"
    using g(2) t1 by (auto simp: query_run_events_def wrapping_Inr ordered_def rows_def dest!: query_run)
  have "ms = metrics_of_runs R [rid] (tbl j)"
    using g(3) t1 t2 by (auto simp: query_execution_metrics_def wrapping_Inr ret_def fail_def elim!: bindE_okE dest!: query_run split: if_splits)
  then have m: "metrics_for R ms rid = (if rows = [] then no_metrics R else metrics_of R rows)"
    by (simp add: metrics_for_run rows_def Let_def)
  have split: "take 200 ordered @ drop 200 ordered = ordered" by simp
  have n: "em_events (metrics_for R ms rid) = int (length rows)" by (simp add: m no_metrics_def metrics_of_def)
  have c: "em_events (metrics_for R ms rid) = em_calls (metrics_for R ms rid) + int (length (filter (\<lambda>r. er_status r = ''policy_block'') rows))"
    using sum_length_filter_compl [of "\<lambda>r. er_status r = ''policy_block''" rows] by (auto simp: m no_metrics_def metrics_of_def)
  have o: "length ordered = length rows" "mset ordered = mset rows" by (simp_all add: ordered_def)
  have f: "length (filter (\<lambda>r. er_status r = ''policy_block'') ordered) = length (filter (\<lambda>r. er_status r = ''policy_block'') rows)"
    by (simp add: ordered_def filter_sort)
  have so: "sorted_wrt (\<lambda>a b. er_created b \<le> er_created a) ordered"
    using sorted_sort_key [of "\<lambda>r. - er_created r" rows] unfolding ordered_def [symmetric] sorted_map by simp
  have nt: "xp_notice p = (if drop 200 ordered = [] then None else Some (length (take 200 ordered), int (length rows)))"
    using n o(1) by (simp add: g(4) es min_def)
  show ?thesis
    by (rule exI [of _ "take 200 ordered"], rule exI [of _ "drop 200 ordered"], unfold split)
      (use es g(4) o so n c f nt rows_def in \<open>simp add: min.commute\<close>)
qed

lemma execution_page_accounts_for_run_witness:
  "\<exists>p. fst (execution_handler sample_reals 0 ''r'' panel_journal) = Inr (Inr p) \<and> em_events (xp_metrics p) = int (length (xp_events p)) \<and>
     em_calls (xp_metrics p) = 3 \<and> xp_notice p = None"
proof -
  have e: "case fst (execution_handler sample_reals 0 ''r'' panel_journal) of Inl _ \<Rightarrow> False | Inr r \<Rightarrow> (case r of Inl _ \<Rightarrow> False
    | Inr p \<Rightarrow> length (xp_events p) = 3 \<and> em_calls (xp_metrics p) = 3 \<and> xp_notice p = None)" by code_simp
  then obtain p where p: "fst (execution_handler sample_reals 0 ''r'' panel_journal) = Inr (Inr p)"
    "length (xp_events p) = 3" "em_calls (xp_metrics p) = 3" "xp_notice p = None"
    by (auto split: sum.splits)
  then obtain j' where "execution_handler sample_reals 0 ''r'' panel_journal = (Inr (Inr p), j')" by (metis prod.collapse)
  from execution_page_accounts_for_run [OF this] p(2,4) have "em_events (xp_metrics p) = int (length (xp_events p))"
    by (auto split: if_splits)
  with p show ?thesis by blast
qed

end
