(* ===== verification/Control_Credential.thy ===== *)
theory Control_Credential
  imports Settings Exec_Http
begin

text \<open>
  \<open>internal/controlauth/credential.go\<close>: the secret of an installation, a file with 32 random bytes in
  unpadded URL base64. The encoding is that of \<open>encoding/base64\<close>, written out. \<open>LoadOrCreate\<close> is given twice: as
  the function one starter runs, and as the steps of a starter between which other processes may run
  (\<open>createMu\<close> excludes the goroutines of one process only). The theorems show that the two agree, that
  starters whose writes succeed all return the same credential, and that a created credential is loaded again
  and opens the control protocol. Two counterexamples show what fails without these hypotheses.
\<close>

section \<open>Unpadded URL base64\<close>

definition base64_char :: "nat \<Rightarrow> char" where
  "base64_char n = (if n < 26 then char_of (n + 65) else if n < 52 then char_of (n + 71)
     else if n < 62 then char_of (n - 4) else if n = 62 then CHR ''-'' else CHR ''_'')"

definition base64_value :: "char \<Rightarrow> nat option" where
  "base64_value c = (let k = of_char c in
     if 65 \<le> k \<and> k \<le> 90 then Some (k - 65) else if 97 \<le> k \<and> k \<le> 122 then Some (k - 71)
     else if 48 \<le> k \<and> k \<le> 57 then Some (k + 4) else if c = CHR ''-'' then Some 62
     else if c = CHR ''_'' then Some 63 else None)"

text \<open>The bytes as sextets, three bytes to four; a rest of one or two bytes gives two or three.\<close>

fun to_sextets :: "nat list \<Rightarrow> nat list" where
  "to_sextets [] = []"
| "to_sextets [a] = [a div 4, a mod 4 * 16]"
| "to_sextets [a, b] = [a div 4, a mod 4 * 16 + b div 16, b mod 16 * 4]"
| "to_sextets (a # b # c # bs) = [a div 4, a mod 4 * 16 + b div 16, b mod 16 * 4 + c div 64, c mod 64] @ to_sextets bs"

text \<open>A single sextet at the end is an error; the bits a short last group has too many are dropped.\<close>

fun of_sextets :: "nat list \<Rightarrow> nat list option" where
  "of_sextets [] = Some []"
| "of_sextets [w] = None"
| "of_sextets [w, x] = Some [w * 4 + x div 16]"
| "of_sextets [w, x, y] = Some [w * 4 + x div 16, x mod 16 * 16 + y div 4]"
| "of_sextets (w # x # y # z # ss) = map_option (\<lambda>bs. [w * 4 + x div 16, x mod 16 * 16 + y div 4, y mod 4 * 64 + z] @ bs) (of_sextets ss)"

definition raw_url_encode :: "string \<Rightarrow> string" where
  "raw_url_encode bytes = map base64_char (to_sextets (map of_char bytes))"

text \<open>The decoder skips line breaks.\<close>

definition line_break :: "char \<Rightarrow> bool" where
  "line_break c \<longleftrightarrow> c = CHR 0x0A \<or> c = CHR 0x0D"

definition raw_url_decode :: "string \<Rightarrow> string option" where
  "raw_url_decode s = Option.bind (those (map base64_value (filter (\<lambda>c. \<not> line_break c) s)))
     (\<lambda>ss. map_option (map char_of) (of_sextets ss))"

section \<open>The file\<close>

definition credential_bytes :: nat where
  "credential_bytes = 32"

text \<open>The results of the calls a starter makes; \<open>io_written\<close> is what a failed write leaves of the value.\<close>

record io =
  io_read :: "unit res"
  io_chmod :: "unit res"
  io_mkdir :: "unit res"
  io_rand :: "string res"
  io_open :: "unit res"
  io_write :: "unit res"
  io_written :: nat
  io_sync :: "unit res"
  io_close :: "unit res"

definition valid_credential :: "string \<Rightarrow> bool" where
  "valid_credential value = (case raw_url_decode value of None \<Rightarrow> False | Some raw \<Rightarrow> length raw = credential_bytes)"

definition load_credential :: "(string \<Rightarrow> string) \<Rightarrow> io \<Rightarrow> string option \<Rightarrow> credential res" where
  "load_credential sha i stored = (case stored of None \<Rightarrow> Inl err_not_exist | Some value \<Rightarrow>
     rbind (io_read i) (\<lambda>_.
       if \<not> valid_credential value then Inl (Errorf ''invalid control credential file'')
       else rbind (failing ''secure control credential'' (io_chmod i)) (\<lambda>_. Inr (new_credential sha value))))"

text \<open>What follows the exclusive creation: the file is removed again unless every call succeeds.\<close>

definition fill_file :: "(string \<Rightarrow> string) \<Rightarrow> io \<Rightarrow> string \<Rightarrow> credential res \<times> string option" where
  "fill_file sha i value = (case failing ''write control credential'' (io_write i) of Inl e \<Rightarrow> (Inl e, None) | Inr _ \<Rightarrow>
     (case failing ''sync control credential'' (io_sync i) of Inl e \<Rightarrow> (Inl e, None) | Inr _ \<Rightarrow>
     (case failing ''close control credential'' (io_close i) of Inl e \<Rightarrow> (Inl e, None) | Inr _ \<Rightarrow>
       (Inr (new_credential sha value), Some value))))"

text \<open>\<open>LoadOrCreate\<close> when no other process touches the file: the answer and the file.\<close>

definition load_or_create :: "(string \<Rightarrow> string) \<Rightarrow> io \<Rightarrow> string option \<Rightarrow> credential res \<times> string option" where
  "load_or_create sha i stored = (case load_credential sha i stored of
     Inr c \<Rightarrow> (Inr c, stored)
   | Inl e \<Rightarrow>
     if \<not> errors_is e err_not_exist then (Inl e, stored)
     else (case failing ''create control credential directory'' (io_mkdir i) of Inl e \<Rightarrow> (Inl e, stored) | Inr _ \<Rightarrow>
       (case failing ''generate control credential'' (io_rand i) of Inl e \<Rightarrow> (Inl e, stored) | Inr raw \<Rightarrow>
         (case failing ''create control credential'' (io_open i) of Inl e \<Rightarrow> (Inl e, stored) | Inr _ \<Rightarrow>
           if stored \<noteq> None then (load_credential sha i stored, stored)
           else fill_file sha i (raw_url_encode raw)))))"

section \<open>Starters\<close>

text \<open>Where a starter is in \<open>LoadOrCreate\<close>: the next call on the shared file.\<close>

datatype starter =
    Loading
  | Creating
  | Reloading
  | Writing string
  | Syncing string
  | Closing string
  | Removing goerr
  | Done "credential res"

fun starter_step :: "(string \<Rightarrow> string) \<Rightarrow> io \<Rightarrow> starter \<Rightarrow> string option \<Rightarrow> starter \<times> string option" where
  "starter_step sha i Loading f = (case load_credential sha i f of
     Inr c \<Rightarrow> (Done (Inr c), f)
   | Inl e \<Rightarrow> (if \<not> errors_is e err_not_exist then Done (Inl e) else Creating, f))"
| "starter_step sha i Creating f =
    (case failing ''create control credential directory'' (io_mkdir i) of Inl e \<Rightarrow> (Done (Inl e), f) | Inr _ \<Rightarrow>
    (case failing ''generate control credential'' (io_rand i) of Inl e \<Rightarrow> (Done (Inl e), f) | Inr raw \<Rightarrow>
      (case failing ''create control credential'' (io_open i) of Inl e \<Rightarrow> (Done (Inl e), f) | Inr _ \<Rightarrow>
        if f \<noteq> None then (Reloading, f) else (Writing (raw_url_encode raw), Some []))))"
| "starter_step sha i Reloading f = (Done (load_credential sha i f), f)"
| "starter_step sha i (Writing v) f = (case failing ''write control credential'' (io_write i) of
     Inl e \<Rightarrow> (Removing e, Some (take (io_written i) v)) | Inr _ \<Rightarrow> (Syncing v, Some v))"
| "starter_step sha i (Syncing v) f = (case failing ''sync control credential'' (io_sync i) of
     Inl e \<Rightarrow> (Removing e, f) | Inr _ \<Rightarrow> (Closing v, f))"
| "starter_step sha i (Closing v) f = (case failing ''close control credential'' (io_close i) of
     Inl e \<Rightarrow> (Removing e, f) | Inr _ \<Rightarrow> (Done (Inr (new_credential sha v)), f))"
| "starter_step sha i (Removing e) f = (Done (Inl e), None)"
| "starter_step sha i (Done r) f = (Done r, f)"

text \<open>The processes that start, with the file they share: one step of one of them.\<close>

definition system_step :: "(string \<Rightarrow> string) \<Rightarrow> nat \<Rightarrow> io \<Rightarrow> starter list \<times> string option \<Rightarrow> starter list \<times> string option" where
  "system_step sha n i s = (case s of (ps, f) \<Rightarrow> if n < length ps
     then (case starter_step sha i (ps ! n) f of (p, f') \<Rightarrow> (ps[n := p], f')) else (ps, f))"

fun run_steps :: "(string \<Rightarrow> string) \<Rightarrow> (nat \<times> io) list \<Rightarrow> starter list \<times> string option \<Rightarrow> starter list \<times> string option" where
  "run_steps sha [] s = s"
| "run_steps sha ((n, i) # sched) s = run_steps sha sched (system_step sha n i s)"

section \<open>The encoding\<close>

lemma to_sextets_bound: "\<forall>b \<in> set bs. b < 256 \<Longrightarrow> \<forall>n \<in> set (to_sextets bs). n < 64"
  by (induction bs rule: to_sextets.induct) auto

lemma of_to_sextets: "\<forall>b \<in> set bs. b < 256 \<Longrightarrow> of_sextets (to_sextets bs) = Some bs"
  by (induction bs rule: to_sextets.induct) (auto simp: of_sextets.simps)

lemma base64_value_char: "n < 64 \<Longrightarrow> base64_value (base64_char n) = Some n"
  by (auto simp: base64_value_def base64_char_def Let_def)

lemma base64_char_no_break: "n < 64 \<Longrightarrow> \<not> line_break (base64_char n)"
  using base64_value_char [of n] by (auto simp: line_break_def base64_value_def Let_def)

lemma those_map_Some: "\<forall>x \<in> set xs. g (h x) = Some x \<Longrightarrow> those (map (g \<circ> h) xs) = Some xs"
  by (induction xs) auto

lemma raw_url_decode_encode: "raw_url_decode (raw_url_encode bytes) = Some bytes"
proof -
  let ?ss = "to_sextets (map of_char bytes)"
  have b: "\<forall>n \<in> set ?ss. n < 64" by (rule to_sextets_bound) simp
  then have "filter (\<lambda>c. \<not> line_break c) (map base64_char ?ss) = map base64_char ?ss"
    by (auto intro!: filter_True simp: base64_char_no_break)
  moreover have "those (map (base64_value \<circ> base64_char) ?ss) = Some ?ss"
    using b by (intro those_map_Some) (auto simp: base64_value_char)
  moreover have "of_sextets ?ss = Some (map of_char bytes)" by (rule of_to_sextets) simp
  ultimately show ?thesis by (simp add: raw_url_decode_def raw_url_encode_def comp_def)
qed

lemma encoded_is_valid: "length raw = credential_bytes \<Longrightarrow> valid_credential (raw_url_encode raw)"
  by (simp add: valid_credential_def raw_url_decode_encode)

lemma valid_not_empty: "valid_credential v \<Longrightarrow> v \<noteq> []"
  by (auto simp: valid_credential_def raw_url_decode_def credential_bytes_def)

text \<open>A line break at the end of the file does not make it invalid; it stays in the value that is sent.\<close>

lemma trailing_break_is_kept:
  assumes "valid_credential v"
  shows "valid_credential (v @ [CHR 0x0A])"
    and "load_credential sha i (Some (v @ [CHR 0x0A])) = rbind (io_read i)
       (\<lambda>_. rbind (failing ''secure control credential'' (io_chmod i)) (\<lambda>_. Inr (new_credential sha (v @ [CHR 0x0A]))))"
proof -
  have "raw_url_decode (v @ [CHR 0x0A]) = raw_url_decode v" by (simp add: raw_url_decode_def line_break_def)
  then show "valid_credential (v @ [CHR 0x0A])" using assms by (simp add: valid_credential_def)
  then show "load_credential sha i (Some (v @ [CHR 0x0A])) = rbind (io_read i)
       (\<lambda>_. rbind (failing ''secure control credential'' (io_chmod i)) (\<lambda>_. Inr (new_credential sha (v @ [CHR 0x0A]))))"
    by (simp add: load_credential_def)
qed

section \<open>A starter alone\<close>

lemma failing_ok [simp]: "failing w (Inr x) = Inr x"
  by (simp add: failing_def)

text \<open>Six steps of a starter that runs alone are the function.\<close>

lemma steps_are_load_or_create:
  "run_steps sha (replicate 6 (0, i)) ([Loading], f) = (case load_or_create sha i f of (r, f') \<Rightarrow> ([Done r], f'))"
  by (auto simp: system_step_def load_or_create_def fill_file_def eval_nat_numeral split: sum.splits prod.splits)

section \<open>Starters together\<close>

fun writing :: "starter \<Rightarrow> bool" where
  "writing (Writing v) = True"
| "writing p = False"

text \<open>What a starter that has seen no failed write knows of the file.\<close>

fun knows :: "(string \<Rightarrow> string) \<Rightarrow> string option \<Rightarrow> starter \<Rightarrow> bool" where
  "knows sha f (Writing v) = (f = Some [] \<and> valid_credential v)"
| "knows sha f (Syncing v) = (f = Some v \<and> valid_credential v)"
| "knows sha f (Closing v) = (f = Some v \<and> valid_credential v)"
| "knows sha f (Removing e) = False"
| "knows sha f (Done (Inr c)) = (\<exists>v. f = Some v \<and> valid_credential v \<and> c = new_credential sha v)"
| "knows sha f p = True"

definition agreed :: "(string \<Rightarrow> string) \<Rightarrow> starter list \<times> string option \<Rightarrow> bool" where
  "agreed sha s = (case s of (ps, f) \<Rightarrow> (\<forall>m < length ps. knows sha f (ps ! m)) \<and>
     (\<forall>m < length ps. \<forall>n < length ps. writing (ps ! m) \<and> writing (ps ! n) \<longrightarrow> m = n))"

text \<open>The writes succeed, and the random source gives as many bytes as are asked for.\<close>

definition writes_ok :: "io \<Rightarrow> bool" where
  "writes_ok i \<longleftrightarrow> io_write i = Inr () \<and> io_sync i = Inr () \<and> io_close i = Inr () \<and>
     (case io_rand i of Inl _ \<Rightarrow> True | Inr raw \<Rightarrow> length raw = credential_bytes)"

lemma knows_none: "knows sha None p \<Longrightarrow> \<not> writing p \<and> knows sha f p"
  by (cases "(sha, f, p)" rule: knows.cases) auto

lemma knows_empty: "knows sha (Some []) p \<Longrightarrow> \<not> writing p \<Longrightarrow> knows sha f p"
  by (cases "(sha, f, p)" rule: knows.cases) (auto dest: valid_not_empty)

lemma load_credential_Inr:
  "load_credential sha i f = Inr c \<Longrightarrow> \<exists>v. f = Some v \<and> valid_credential v \<and> c = new_credential sha v"
  by (auto simp: load_credential_def rbind_Inr_iff split: option.splits if_splits)

lemma knows_loaded: "knows sha f (Done (load_credential sha i f))"
  using load_credential_Inr [of sha i f] by (cases "load_credential sha i f") auto

text \<open>A step keeps the file, creates it, or fills the file it created; what the starter knows then is true.\<close>

lemma starter_step_cases:
  assumes "knows sha f p" "writes_ok i" "starter_step sha i p f = (q, f')"
  shows "knows sha f' q \<and> (f' = f \<and> \<not> writing p \<and> \<not> writing q \<or> f = None \<and> f' \<noteq> None \<or> f = Some [] \<and> writing p \<and> \<not> writing q)"
proof (cases p)
  case Loading
  then show ?thesis using assms load_credential_Inr [of sha i f] by (auto split: sum.splits if_splits)
next
  case Creating
  then show ?thesis using assms by (auto simp: writes_ok_def encoded_is_valid split: sum.splits if_splits)
next
  case Reloading
  then show ?thesis using assms knows_loaded [of sha f i] by auto
next
  case (Done r)
  then show ?thesis using assms by (cases r) auto
qed (use assms in \<open>auto simp: writes_ok_def\<close>)

lemma agreed_step:
  assumes "agreed sha (ps, f)" "writes_ok i"
  shows "agreed sha (system_step sha n i (ps, f))"
proof (cases "n < length ps")
  case False
  then show ?thesis using assms by (simp add: system_step_def)
next
  case True
  obtain q f' where q: "starter_step sha i (ps ! n) f = (q, f')" by (cases "starter_step sha i (ps ! n) f")
  have k: "\<And>m. m < length ps \<Longrightarrow> knows sha f (ps ! m)"
    and w: "\<And>m m'. m < length ps \<Longrightarrow> m' < length ps \<Longrightarrow> writing (ps ! m) \<Longrightarrow> writing (ps ! m') \<Longrightarrow> m = m'"
    using assms(1) by (auto simp: agreed_def)
  from starter_step_cases [OF k [OF True] assms(2) q]
  have kq: "knows sha f' q" and c: "f' = f \<and> \<not> writing (ps ! n) \<and> \<not> writing q \<or> f = None \<or> f = Some [] \<and> writing (ps ! n) \<and> \<not> writing q"
    by blast+
  have others: "knows sha f' (ps ! m) \<and> (writing (ps ! m) \<longrightarrow> \<not> writing q)" if m: "m < length ps" "m \<noteq> n" for m
    using c k [OF m(1)] w [OF m(1) True] m(2) knows_none [of sha "ps ! m" f'] knows_empty [of sha "ps ! m" f'] by blast
  have "knows sha f' (ps[n := q] ! m)" if "m < length ps" for m
    using kq others that by (cases "m = n") simp_all
  moreover have "m = m'" if "m < length ps" "m' < length ps" "writing (ps[n := q] ! m)" "writing (ps[n := q] ! m')" for m m'
    using w [OF that(1,2)] others [OF that(1)] others [OF that(2)] that(3,4) True by (cases "m = n"; cases "m' = n") simp_all
  ultimately have "agreed sha (ps[n := q], f')" by (simp add: agreed_def)
  then show ?thesis using q True by (simp add: system_step_def)
qed

lemma agreed_run: "agreed sha s \<Longrightarrow> \<forall>(n, i) \<in> set sched. writes_ok i \<Longrightarrow> agreed sha (run_steps sha sched s)"
proof (induction sched arbitrary: s)
  case (Cons a sched)
  then show ?case by (cases a; cases s) (auto simp: agreed_step)
qed simp

text \<open>A file that was there is kept, whatever fails.\<close>

fun waits :: "starter \<Rightarrow> bool" where
  "waits Loading = True"
| "waits Creating = True"
| "waits Reloading = True"
| "waits (Done r) = True"
| "waits p = False"

lemma existing_step: "waits p \<Longrightarrow> starter_step sha i p (Some v) = (q, f') \<Longrightarrow> waits q \<and> f' = Some v"
  by (cases p) (auto split: sum.splits if_splits)

lemma existing_credential_is_kept:
  "\<forall>p \<in> set ps. waits p \<Longrightarrow> snd (run_steps sha sched (ps, Some v)) = Some v"
proof (induction sched arbitrary: ps)
  case (Cons a sched)
  obtain n i where a: "a = (n, i)" by (cases a)
  show ?case
  proof (cases "n < length ps")
    case True
    obtain q f' where q: "starter_step sha i (ps ! n) (Some v) = (q, f')" by (cases "starter_step sha i (ps ! n) (Some v)")
    with existing_step Cons.prems True have "waits q \<and> f' = Some v" by (metis nth_mem)
    then have "\<forall>p \<in> set (ps[n := q]). waits p" "f' = Some v"
      using Cons.prems set_update_subset_insert [of ps n q] by auto
    then show ?thesis using Cons.IH q a True by (simp add: system_step_def)
  qed (use Cons a in \<open>simp add: system_step_def\<close>)
qed simp

text \<open>C37: Starters that begin together, in any number of processes and in any interleaving of their calls, agree:
  when no write, sync or close fails, whoever returns a credential returns the one that is in the file, so that
  no two hold different ones; and a file that was there before is not replaced.\<close>

theorem starters_agree_on_credential:
  assumes "\<forall>(n, i) \<in> set sched. writes_ok i" "run_steps sha sched (replicate k Loading, f0) = (ps, f)" "Done (Inr c) \<in> set ps"
  shows "(\<exists>v. f = Some v \<and> valid_credential v \<and> c = new_credential sha v) \<and>
    (\<forall>d. Done (Inr d) \<in> set ps \<longrightarrow> d = c) \<and> (f0 \<noteq> None \<longrightarrow> f = f0)"
proof -
  have "agreed sha (replicate k Loading, f0)" by (simp add: agreed_def)
  from agreed_run [OF this assms(1)] assms(2) have "\<forall>p \<in> set ps. knows sha f p"
    by (auto simp: agreed_def in_set_conv_nth)
  then have k: "\<exists>v. f = Some v \<and> valid_credential v \<and> d = new_credential sha v" if "Done (Inr d) \<in> set ps" for d
    using that by (metis knows.simps(5))
  have "f = f0" if "f0 = Some v" for v
    using existing_credential_is_kept [of "replicate k Loading" sha sched v] assms(2) that by simp
  then have "f0 \<noteq> None \<longrightarrow> f = f0" by blast
  moreover obtain v where v: "f = Some v" "valid_credential v" "c = new_credential sha v" using k [OF assms(3)] by blast
  moreover have "d = c" if "Done (Inr d) \<in> set ps" for d using k [OF that] v by auto
  ultimately show ?thesis by blast
qed

definition calm :: "char \<Rightarrow> io" where
  "calm c = \<lparr>io_read = Inr (), io_chmod = Inr (), io_mkdir = Inr (), io_rand = Inr (replicate 32 c), io_open = Inr (),
     io_write = Inr (), io_written = 0, io_sync = Inr (), io_close = Inr ()\<rparr>"

definition sample_schedule :: "(nat \<times> io) list" where
  "sample_schedule = [(0, calm CHR ''a''), (1, calm CHR ''b''), (0, calm CHR ''a''), (1, calm CHR ''b''), (0, calm CHR ''a''),
     (1, calm CHR ''b''), (0, calm CHR ''a''), (0, calm CHR ''a'')]"

definition secret_a :: string where
  "secret_a = raw_url_encode (replicate 32 CHR ''a'')"

lemma sample_run:
  "run_steps id sample_schedule (replicate 2 Loading, None) = (replicate 2 (Done (Inr (new_credential id secret_a))), Some secret_a)"
  by code_simp

lemma starters_agree_witness:
  "\<exists>v. Some secret_a = Some v \<and> valid_credential v \<and> new_credential id secret_a = new_credential id v"
proof -
  have "\<forall>(n, i) \<in> set sample_schedule. writes_ok i" by code_simp
  from starters_agree_on_credential [OF this sample_run] show ?thesis by simp
qed

section \<open>What the hypotheses are for\<close>

text \<open>A starter that reads between the creation of the file and the write finds an invalid credential, and stops.\<close>

lemma empty_file_is_invalid:
  "run_steps id [(0, calm CHR ''a''), (0, calm CHR ''a''), (1, calm CHR ''b'')] ([Loading, Loading], None) =
     ([Writing secret_a, Done (Inl (Errorf ''invalid control credential file''))], Some [])"
  by code_simp

text \<open>A credential that another starter has already returned is removed when the sync of its creator fails, and
  the next starter makes another one.\<close>

definition failing_sync :: io where
  "failing_sync = (calm CHR ''a'')\<lparr>io_sync := Inl ErrDriver\<rparr>"

definition replaced_schedule :: "(nat \<times> io) list" where
  "replaced_schedule = [(0, failing_sync), (0, failing_sync), (0, failing_sync), (1, calm CHR ''b''), (0, failing_sync), (0, failing_sync)]
     @ replicate 5 (2, calm CHR ''c'')"

lemma observed_credential_is_replaced:
  "run_steps id replaced_schedule (replicate 3 Loading, None) =
     ([Done (Inl (Wrapf ''sync control credential'' ErrDriver)), Done (Inr (new_credential id secret_a)),
       Done (Inr (new_credential id (raw_url_encode (replicate 32 CHR ''c''))))], Some (raw_url_encode (replicate 32 CHR ''c'')))"
  and "secret_a \<noteq> raw_url_encode (replicate 32 CHR ''c'')"
  by code_simp+

section \<open>From the file to the control protocol\<close>

lemma no_space_in_prefix: "cut (CHR '' '') (''Bearer '' @ v) = (''Bearer'', v, True)"
  by (simp add: cut_def)

lemma credential_opens:
  assumes "valid_credential v"
  shows "authenticate sha (new_credential sha v) (''Bearer '' @ v)"
proof -
  have "verify_credential sha (new_credential sha v) v"
    using assms by (auto simp: verify_credential_def new_credential_def dest: valid_not_empty)
  then show ?thesis unfolding authenticate_def no_space_in_prefix by simp
qed

text \<open>\<open>virgil run\<close>: the file is read again, checked in the same way and sent as it is.\<close>

definition runner_credential :: "string res \<Rightarrow> string res" where
  "runner_credential contents = rbind (failing ''read local control credential'' contents)
     (\<lambda>text. if \<not> valid_credential text then Inl (Errorf ''invalid local control credential'') else Inr text)"

lemma load_or_create_Inr:
  assumes "load_or_create sha i f = (Inr c, f')" "\<forall>raw. io_rand i = Inr raw \<longrightarrow> length raw = credential_bytes"
  shows "\<exists>v. f' = Some v \<and> valid_credential v \<and> c = new_credential sha v"
  using assms load_credential_Inr [of sha i f c]
  by (auto simp: load_or_create_def fill_file_def encoded_is_valid failing_def split: sum.splits if_splits)

text \<open>The credential the core returns is the one the next start returns, and the one \<open>virgil run\<close> reads from
  the file: the core's control handler accepts it, whatever the hash.\<close>

theorem core_credential_opens_control:
  assumes "load_or_create sha i f = (Inr c, f')" "\<forall>raw. io_rand i = Inr raw \<longrightarrow> length raw = credential_bytes"
    "io_read j = Inr ()" "io_chmod j = Inr ()"
  shows "load_or_create sha j f' = (Inr c, f') \<and>
    (\<exists>token. f' = Some token \<and> runner_credential (Inr token) = Inr token \<and> authenticate sha c (''Bearer '' @ token))"
proof -
  from load_or_create_Inr [OF assms(1,2)] obtain v where v: "f' = Some v" "valid_credential v" "c = new_credential sha v" by blast
  then have l: "load_credential sha j f' = Inr c" using assms(3,4) by (simp add: load_credential_def)
  with credential_opens [OF v(2), of sha] v show ?thesis
    by (auto simp: load_or_create_def runner_credential_def)
qed

lemma core_credential_witness:
  "load_or_create id (calm CHR ''b'') (Some secret_a) = (Inr (new_credential id secret_a), Some secret_a)"
proof -
  have "load_or_create id (calm CHR ''a'') None = (Inr (new_credential id secret_a), Some secret_a)" by code_simp
  from core_credential_opens_control [OF this, of "calm CHR ''b''"] show ?thesis
    by (simp add: calm_def credential_bytes_def)
qed

end
