(* ===== verification/Core_Startup.thy ===== *)
theory Core_Startup
  imports Control_Credential Control_Plane Gateway_Call Panel
begin

text \<open>
  \<open>RunCore\<close> and \<open>runSetupServer\<close> of \<open>internal/app/core.go\<close>: the start of the core over the components, in the order
  of the calls, with what every \<open>defer\<close> closes. The state is the database, the configuration file and the credential file; the trace
  records what is opened, recovered, served and closed. The theorems show what holds when the first request is
  served, and that everything opened is closed again, last first, however the start ends. The opening of the panel
  (\<open>servePanel\<close>) and the shutdown (\<open>serve\<close> of \<open>internal/gateway/server.go\<close>) follow.
\<close>

section \<open>State\<close>

datatype resource = Store | ReadPool | Journal_Writer | Plane_Delivery | Listener

text \<open>What serves the first request: the configuration, the router, the state of the core and its credential.\<close>

record served =
  se_config :: config
  se_router :: router
  se_core :: core
  se_credential :: credential

datatype boot_event =
    Opened resource
  | Closed resource
  | Recovered
  | Serving served
  | Serving_Setup

record boot_state =
  bs_db :: journal
  bs_config :: "string option"
  bs_token :: "string option"
  bs_trace :: "boot_event list"

text \<open>What the start takes from outside: the files, the environment, and the results of the calls that are not
  modelled. \<open>bo_migrate\<close> gives the identifier of the installation, \<open>bo_cutoff\<close> the time so many days ago, \<open>bo_config_left\<close> what a failed write of the configuration leaves.\<close>

record boot =
  bo_env :: environment
  bo_dotenv :: "string option"
  bo_config_world :: "environment \<Rightarrow> config_world"
  bo_toml :: toml
  bo_sha :: "string \<Rightarrow> string"
  bo_io :: io
  bo_open :: "unit res"
  bo_open_read :: "unit res"
  bo_migrate :: "string res"
  bo_net :: net_world
  bo_now :: time
  bo_cutoff :: "int \<Rightarrow> time"
  bo_has_plane :: bool
  bo_client :: "unit res"
  bo_listen :: "unit res"
  bo_serve :: "unit res"
  bo_mkdir :: "unit res"
  bo_in_dot :: bool
  bo_write_config :: "unit res"
  bo_config_left :: "string option"

definition emit :: "boot_event \<Rightarrow> boot_state \<Rightarrow> boot_state" where
  "emit ev s = s\<lparr>bs_trace := bs_trace s @ [ev]\<rparr>"

text \<open>Opening a resource, then the rest of the function with the deferred close behind it.\<close>

definition while_open :: "resource \<Rightarrow> unit res \<Rightarrow> (boot_state \<Rightarrow> unit res \<times> boot_state) \<Rightarrow> boot_state \<Rightarrow> unit res \<times> boot_state" where
  "while_open x opened body s = (case opened of Inl e \<Rightarrow> (Inl e, s)
     | Inr _ \<Rightarrow> (case body (emit (Opened x) s) of (r, s') \<Rightarrow> (r, emit (Closed x) s')))"

section \<open>The start\<close>

definition listen_core :: "boot \<Rightarrow> served \<Rightarrow> boot_state \<Rightarrow> unit res \<times> boot_state" where
  "listen_core b v = while_open Listener (failing ''listen'' (bo_listen b)) (\<lambda>s. (bo_serve b, emit (Serving v) s))"

text \<open>\<open>startControlPlane\<close> of the command: the cached policy is applied before the client is made.\<close>

definition start_control_plane :: "boot \<Rightarrow> served \<Rightarrow> engine \<Rightarrow> boot_state \<Rightarrow> unit res \<times> boot_state" where
  "start_control_plane b v eng s = (case load_cached_policy eng of
     (Inl e, eng') \<Rightarrow> (Inl (Wrapf ''cached control plane policy'' e), s\<lparr>bs_db := en_journal eng'\<rparr>)
   | (Inr _, eng') \<Rightarrow> while_open Plane_Delivery (failing ''control plane credential'' (bo_client b))
       (listen_core b (v\<lparr>se_core := (se_core v)\<lparr>cs_engine := eng'\<rparr>\<rparr>)) (s\<lparr>bs_db := en_journal eng'\<rparr>))"

text \<open>From \<open>RecoverExecutions\<close> on. An error of the retention is only logged.\<close>

definition retained :: "boot \<Rightarrow> config \<Rightarrow> engine \<Rightarrow> engine" where
  "retained b cfg eng = (if st_retention_days (cf_storage cfg) > 0
     then eng\<lparr>en_journal := snd (prune (bo_cutoff b (st_retention_days (cf_storage cfg))) (en_journal eng))\<rparr> else eng)"

definition recover_and_serve :: "boot \<Rightarrow> served \<Rightarrow> boot_state \<Rightarrow> unit res \<times> boot_state" where
  "recover_and_serve b v s = (case on_journal (recover_executions (bo_now b)) (cs_engine (se_core v)) of
     (Inl e, eng) \<Rightarrow> (Inl (Wrapf ''recover executions'' e), s\<lparr>bs_db := en_journal eng\<rparr>)
   | (Inr _, eng) \<Rightarrow>
      (let eng1 = retained b (se_config v) eng; s1 = emit Recovered (s\<lparr>bs_db := en_journal eng1\<rparr>) in
       if cc_enabled (cf_control_plane (se_config v)) then
         (if \<not> bo_has_plane b then (Inl (Errorf ''control plane startup is unavailable''), s1)
          else start_control_plane b v eng1 s1)
       else listen_core b (v\<lparr>se_core := (se_core v)\<lparr>cs_engine := eng1\<rparr>\<rparr>) s1))"

text \<open>\<open>buildHandlerWithControlVersion\<close> after the journal is made: the engine, the registry and the router. What it
  returns closes the journal at once or is followed by the deferred close, which is the same.\<close>

definition build_handler :: "boot \<Rightarrow> environment \<Rightarrow> config \<Rightarrow> credential \<Rightarrow> string \<Rightarrow> journal \<Rightarrow> served res" where
  "build_handler b env cfg cred iid j = rbind (new_engine j (limits_of (cf_guardrails cfg))) (\<lambda>eng.
     rbind (core_router (bo_net b) cfg env iid) (\<lambda>gw.
     Inr \<lparr>se_config = cfg, se_router = gw, se_core = \<lparr>cs_engine = eng, cs_registry = new_registry, cs_log = []\<rparr>,
       se_credential = cred\<rparr>))"

definition core_session :: "boot \<Rightarrow> environment \<Rightarrow> config \<Rightarrow> credential \<Rightarrow> boot_state \<Rightarrow> unit res \<times> boot_state" where
  "core_session b env cfg cred = while_open Store (bo_open b) (while_open ReadPool (bo_open_read b) (\<lambda>s.
     case bo_migrate b of Inl e \<Rightarrow> (Inl e, s) | Inr iid \<Rightarrow>
       while_open Journal_Writer (Inr ()) (\<lambda>s. case build_handler b env cfg cred iid (bs_db s) of
         Inl e \<Rightarrow> (Inl e, s) | Inr v \<Rightarrow> recover_and_serve b v s) s))"

definition default_config :: string where
  "default_config = concat (map (\<lambda>l. l @ [CHR 0x0A])
     [''[server]'', ''listen = '' @ [CHR 0x22] @ ''127.0.0.1:8787'' @ [CHR 0x22],
      ''log_level = '' @ [CHR 0x22] @ ''info'' @ [CHR 0x22], [], ''[storage]'',
      ''path = '' @ [CHR 0x22] @ ''./data/virgil.db'' @ [CHR 0x22], ''retention_days = 30''])"

definition write_default_config :: "boot \<Rightarrow> boot_state \<Rightarrow> unit res \<times> boot_state" where
  "write_default_config b s = (if bs_config s = None then
      (if \<not> is_ok (bo_mkdir b) \<and> \<not> bo_in_dot b then (failing ''create config directory'' (bo_mkdir b), s)
       else case failing ''create initial config'' (bo_write_config b) of
         Inl e \<Rightarrow> (Inl e, s\<lparr>bs_config := bo_config_left b\<rparr>) | Inr _ \<Rightarrow> (Inr (), s\<lparr>bs_config := Some default_config\<rparr>))
    else (Inr (), s))"

definition run_setup_server :: "boot \<Rightarrow> boot_state \<Rightarrow> unit res \<times> boot_state" where
  "run_setup_server b s = (case write_default_config b s of
     (Inl e, s1) \<Rightarrow> (Inl e, s1)
   | (Inr _, s1) \<Rightarrow> while_open Listener (failing ''listen setup server'' (bo_listen b)) (\<lambda>s. (bo_serve b, emit Serving_Setup s)) s1)"

definition start_env :: "boot \<Rightarrow> environment" where
  "start_env b = load_dot_env (bo_dotenv b) (bo_env b)"

definition run_core :: "boot \<Rightarrow> boot_state \<Rightarrow> unit res \<times> boot_state" where
  "run_core b s = (case load_file (bo_config_world b (start_env b)) (bo_toml b) (bs_config s) of
     Inl e \<Rightarrow> if \<not> errors_is e err_not_exist then (Inl (Wrapf ''load config'' e), s) else run_setup_server b s
   | Inr cfg \<Rightarrow> (case load_or_create (bo_sha b) (bo_io b) (bs_token s) of
       (Inl e, token) \<Rightarrow> (Inl (Wrapf ''load control credential'' e), s\<lparr>bs_token := token\<rparr>)
     | (Inr cred, token) \<Rightarrow> core_session b (start_env b) cfg cred (s\<lparr>bs_token := token\<rparr>)))"

section \<open>Everything opened is closed\<close>

fun open_after :: "boot_event list \<Rightarrow> resource list \<Rightarrow> resource list option" where
  "open_after [] st = Some st"
| "open_after (Opened x # es) st = open_after es (x # st)"
| "open_after (Closed x # es) st = (case st of [] \<Rightarrow> None | y # ys \<Rightarrow> if y = x then open_after es ys else None)"
| "open_after (ev # es) st = open_after es st"

lemma open_after_append: "open_after (xs @ ys) st = Option.bind (open_after xs st) (open_after ys)"
  by (induction xs st rule: open_after.induct) (auto split: list.split)

text \<open>A part of the start adds balanced events to the trace, and it serves only what satisfies \<open>P\<close>.\<close>

definition session :: "(served \<Rightarrow> bool) \<Rightarrow> (boot_state \<Rightarrow> unit res \<times> boot_state) \<Rightarrow> bool" where
  "session P m \<longleftrightarrow> (\<forall>s r s'. m s = (r, s') \<longrightarrow> (\<exists>tr. bs_trace s' = bs_trace s @ tr \<and>
     (\<forall>st. open_after tr st = Some st) \<and> (\<forall>v. Serving v \<in> set tr \<longrightarrow> P v)))"

lemma sessionD:
  "session P m \<Longrightarrow> m s = (r, s') \<Longrightarrow>
   \<exists>tr. bs_trace s' = bs_trace s @ tr \<and> (\<forall>st. open_after tr st = Some st) \<and> (\<forall>v. Serving v \<in> set tr \<longrightarrow> P v)"
  unfolding session_def by blast

lemma session_quiet:
  "(\<And>s. bs_trace (snd (m s)) = bs_trace s) \<Longrightarrow> session P m"
  unfolding session_def by (metis append_Nil2 open_after.simps(1) list.distinct(1) list.set(1) empty_iff snd_conv)

lemma session_while_open:
  assumes "session P body"
  shows "session P (while_open x opened body)"
  unfolding session_def
proof (intro allI impI)
  fix s r s'
  assume w: "while_open x opened body s = (r, s')"
  show "\<exists>tr. bs_trace s' = bs_trace s @ tr \<and> (\<forall>st. open_after tr st = Some st) \<and> (\<forall>v. Serving v \<in> set tr \<longrightarrow> P v)"
  proof (cases opened)
    case (Inl e)
    then show ?thesis using w by (intro exI [of _ "[]"]) (simp add: while_open_def)
  next
    case (Inr u)
    obtain r1 s1 where m: "body (emit (Opened x) s) = (r1, s1)" by (cases "body (emit (Opened x) s)")
    from sessionD [OF assms m] obtain tr where tr: "bs_trace s1 = bs_trace (emit (Opened x) s) @ tr"
      "\<forall>st. open_after tr st = Some st" "\<forall>v. Serving v \<in> set tr \<longrightarrow> P v" by blast
    with w m Inr show ?thesis
      by (intro exI [of _ "Opened x # tr @ [Closed x]"]) (auto simp: while_open_def emit_def open_after_append)
  qed
qed

text \<open>What a step does before the rest of the function: it adds a neutral event, or none.\<close>

lemma session_before:
  assumes "session P m" "m s1 = (r, s')" "bs_trace s1 = bs_trace s @ es" "set es \<subseteq> {Recovered}"
  shows "\<exists>tr. bs_trace s' = bs_trace s @ tr \<and> (\<forall>st. open_after tr st = Some st) \<and> (\<forall>v. Serving v \<in> set tr \<longrightarrow> P v)"
proof -
  from sessionD [OF assms(1,2)] obtain tr where tr: "bs_trace s' = bs_trace s1 @ tr"
    "\<forall>st. open_after tr st = Some st" "\<forall>v. Serving v \<in> set tr \<longrightarrow> P v" by blast
  have "open_after es st = Some st" for st using assms(4) by (induction es) auto
  with tr assms(3,4) show ?thesis by (intro exI [of _ "es @ tr"]) (auto simp: open_after_append)
qed

lemma session_listen: "P v \<Longrightarrow> session P (listen_core b v)"
  unfolding listen_core_def by (rule session_while_open) (auto simp: session_def emit_def)

section \<open>What is served is ready\<close>

definition quiesced :: "tables \<Rightarrow> bool" where
  "quiesced t \<longleftrightarrow> (\<forall>x \<in> set (t_executions t). ex_state x \<notin> {StateStarting, StateRunning})"

definition active_row :: "execution \<Rightarrow> bool" where
  "active_row x \<longleftrightarrow> ex_state x \<in> {StateStarting, StateRunning}"

definition interrupted_at :: "time \<Rightarrow> execution \<Rightarrow> execution" where
  "interrupted_at now x = x\<lparr>ex_state := StateInterrupted, ex_ended := Some now, ex_stop_reason := Some ''virgil_restart''\<rparr>"

lemma recover_interrupts:
  assumes "recover_executions now j = (Inr u, j')"
  shows "t_executions (tbl j') = update_where active_row (interrupted_at now) (t_executions (tbl j))"
proof -
  have "tx (recover_body now) j = (Inr u, j')"
    using assms by (auto simp: recover_executions_def fail_def split: if_splits prod.splits sum.splits)
  from tx_run [OF this] obtain j1 commit j2 where b: "tbl j1 = tbl j" "recover_body now j1 = (Inr (commit, u), j2)"
    "tbl j' = (if commit then tbl j2 else tbl j)" by blast
  then obtain n where c: "commit" and "update_executions active_row (interrupted_at now) j1 = (Inr n, j2)"
    unfolding recover_body_def active_row_def interrupted_at_def by (elim bindE_okE) (simp add: ret_def)
  from update_executions_run [OF this(2)] b(1,3) c show ?thesis by simp
qed

lemma recover_quiesces: "recover_executions now j = (Inr u, j') \<Longrightarrow> quiesced (tbl j')"
  by (auto simp: quiesced_def recover_interrupts set_update_where active_row_def interrupted_at_def)

lemma prune_keeps_executions: "t_executions (tbl (snd (prune before j))) = t_executions (tbl j)"
proof -
  let ?P = "\<lambda>t. t_executions t = t_executions (tbl j)"
  obtain n err j' where p: "prune before j = ((n, err), j')" by (cases "prune before j") auto
  have d: "keeps ?P (delete_old_events before)"
    unfolding delete_old_events_def Let_def by (rule keeps_exec) auto
  have r: "keeps ?P (prune_rest before)" by (rule prune_rest_keeps) simp_all
  from p show ?thesis
  proof (cases rule: prune_run)
    case failed
    with p show ?thesis by simp
  next
    case (ran j1)
    with keepsD [OF r ran(2)] keepsD [OF d ran(1)] p show ?thesis by simp
  qed
qed

lemma prune_keeps_quiesced: "quiesced (tbl j) \<Longrightarrow> quiesced (tbl (snd (prune before j)))"
  by (simp add: quiesced_def prune_keeps_executions)

text \<open>The policy of the control plane that is in the database is in force when a control plane is configured.\<close>

definition policy_in_force :: "bool \<Rightarrow> engine \<Rightarrow> bool" where
  "policy_in_force enabled eng \<longleftrightarrow> (case (if enabled then t_remote (tbl (en_journal eng)) else None) of
     None \<Rightarrow> en_limits eng = en_local eng
   | Some (version, env) \<Rightarrow> en_remote_version eng = version \<and> pe_version env = version \<and>
       merge_limits (en_local eng) env 0 = Inr (en_limits eng))"

definition ready :: "served \<Rightarrow> bool" where
  "ready v \<longleftrightarrow> (let eng = cs_engine (se_core v) in
     quiesced (tbl (en_journal eng)) \<and> cs_registry (se_core v) = new_registry \<and>
     en_local eng = limits_of (cf_guardrails (se_config v)) \<and> gw_has_policy (se_router v) \<and>
     policy_in_force (cc_enabled (cf_control_plane (se_config v))) eng)"

text \<open>As \<open>build_handler\<close> makes it.\<close>

definition built :: "served \<Rightarrow> bool" where
  "built v \<longleftrightarrow> (let eng = cs_engine (se_core v) in
     cs_registry (se_core v) = new_registry \<and> en_local eng = limits_of (cf_guardrails (se_config v)) \<and>
     en_limits eng = en_local eng \<and> en_remote_version eng = 0 \<and> gw_has_policy (se_router v))"

lemma load_cached_policy_in_force:
  assumes "load_cached_policy eng = (Inr u, eng')" "en_limits eng = en_local eng" "en_remote_version eng = 0"
  shows "policy_in_force True eng' \<and> tbl (en_journal eng') = tbl (en_journal eng) \<and> en_local eng' = en_local eng"
  using assms
  by (auto simp: load_cached_policy_def apply_remote_policy_def policy_in_force_def on_journal_def load_remote_policy_def
      split: prod.splits sum.splits option.splits if_splits dest!: query_run)

lemma quiesced_start:
  assumes "on_journal (recover_executions now) eng = (Inr u, eng')"
  shows "quiesced (tbl (en_journal (retained b cfg eng')))" "en_local (retained b cfg eng') = en_local eng"
    "en_limits (retained b cfg eng') = en_limits eng" "en_remote_version (retained b cfg eng') = en_remote_version eng"
proof -
  obtain j' where j: "recover_executions now (en_journal eng) = (Inr u, j')" "eng' = eng\<lparr>en_journal := j'\<rparr>"
    using assms by (auto simp: on_journal_def split: prod.splits)
  from recover_quiesces [OF j(1)] prune_keeps_quiesced show "quiesced (tbl (en_journal (retained b cfg eng')))"
    using j(2) by (simp add: retained_def)
  show "en_local (retained b cfg eng') = en_local eng" "en_limits (retained b cfg eng') = en_limits eng"
    "en_remote_version (retained b cfg eng') = en_remote_version eng" using j(2) by (simp_all add: retained_def)
qed

lemma session_control_plane:
  assumes "\<And>u eng'. load_cached_policy eng = (Inr u, eng') \<Longrightarrow> P (v\<lparr>se_core := (se_core v)\<lparr>cs_engine := eng'\<rparr>\<rparr>)"
  shows "session P (start_control_plane b v eng)"
proof (cases "load_cached_policy eng")
  case (Pair r eng')
  show ?thesis
  proof (cases r)
    case (Inl e)
    with Pair show ?thesis by (intro session_quiet) (simp add: start_control_plane_def)
  next
    case (Inr u)
    let ?m = "while_open Plane_Delivery (failing ''control plane credential'' (bo_client b))
       (listen_core b (v\<lparr>se_core := (se_core v)\<lparr>cs_engine := eng'\<rparr>\<rparr>))"
    have "session P ?m" using assms [OF Pair [unfolded Inr]] by (intro session_while_open session_listen)
    then show ?thesis unfolding session_def start_control_plane_def Pair Inr
      by (fastforce dest: session_before [where es = "[]", rotated, rotated])
  qed
qed

text \<open>What a handler that was built becomes: ready, with the same configuration and credential.\<close>

definition serves :: "served \<Rightarrow> served \<Rightarrow> bool" where
  "serves v w \<longleftrightarrow> ready w \<and> se_config w = se_config v \<and> se_credential w = se_credential v"

lemma session_recover:
  assumes "built v"
  shows "session (serves v) (recover_and_serve b v)"
  unfolding session_def
proof (intro allI impI)
  fix s r s'
  assume m: "recover_and_serve b v s = (r, s')"
  let ?goal = "\<exists>tr. bs_trace s' = bs_trace s @ tr \<and> (\<forall>st. open_after tr st = Some st) \<and> (\<forall>w. Serving w \<in> set tr \<longrightarrow> serves v w)"
  obtain x eng where o: "on_journal (recover_executions (bo_now b)) (cs_engine (se_core v)) = (x, eng)" by fastforce
  show ?goal
  proof (cases x)
    case (Inl e)
    with m o show ?thesis by (intro exI [of _ "[]"]) (auto simp: recover_and_serve_def)
  next
    case (Inr u)
    let ?e = "retained b (se_config v) eng"
    let ?s = "emit Recovered (s\<lparr>bs_db := en_journal ?e\<rparr>)"
    let ?on = "cc_enabled (cf_control_plane (se_config v))"
    note st = quiesced_start [OF o [unfolded Inr], of b "se_config v"]
    have "session (serves v) (\<lambda>s. if ?on then (if \<not> bo_has_plane b then (Inl (Errorf ''control plane startup is unavailable''), s)
        else start_control_plane b v ?e s) else listen_core b (v\<lparr>se_core := (se_core v)\<lparr>cs_engine := ?e\<rparr>\<rparr>) s)"
    proof (cases ?on)
      case True
      have "serves v (v\<lparr>se_core := (se_core v)\<lparr>cs_engine := e\<rparr>\<rparr>)" if "load_cached_policy ?e = (Inr u', e)" for u' e
        using load_cached_policy_in_force [OF that] st assms True by (simp add: serves_def ready_def built_def Let_def)
      then have "session (serves v) (start_control_plane b v ?e)" by (rule session_control_plane)
      moreover have "session (serves v) (\<lambda>s. (Inl (Errorf ''control plane startup is unavailable''), s))" by (rule session_quiet) simp
      ultimately show ?thesis using True by (cases "bo_has_plane b") simp_all
    next
      case False
      then have "serves v (v\<lparr>se_core := (se_core v)\<lparr>cs_engine := ?e\<rparr>\<rparr>)"
        using st assms by (simp add: serves_def ready_def built_def Let_def policy_in_force_def)
      then have "session (serves v) (listen_core b (v\<lparr>se_core := (se_core v)\<lparr>cs_engine := ?e\<rparr>\<rparr>))" by (rule session_listen)
      then show ?thesis using False by simp
    qed
    moreover have "(if ?on then (if \<not> bo_has_plane b then (Inl (Errorf ''control plane startup is unavailable''), ?s)
        else start_control_plane b v ?e ?s) else listen_core b (v\<lparr>se_core := (se_core v)\<lparr>cs_engine := ?e\<rparr>\<rparr>) ?s) = (r, s')"
      using m o Inr by (simp add: recover_and_serve_def Let_def)
    ultimately show ?thesis by (rule session_before [where es = "[Recovered]"]) (simp_all add: emit_def)
  qed
qed

lemma build_handler_built: "build_handler b env cfg cred iid j = Inr v \<Longrightarrow> built v \<and> se_config v = cfg \<and> se_credential v = cred"
  by (auto simp: build_handler_def rbind_Inr_iff built_def new_engine_def core_router_def Let_def split: if_splits sum.splits)

lemma session_core: "session (\<lambda>w. ready w \<and> se_config w = cfg \<and> se_credential w = cred) (core_session b env cfg cred)"
proof -
  let ?P = "\<lambda>w. ready w \<and> se_config w = cfg \<and> se_credential w = cred"
  have "session ?P (\<lambda>s. case build_handler b env cfg cred iid (bs_db s) of Inl e \<Rightarrow> (Inl e, s) | Inr v \<Rightarrow> recover_and_serve b v s)" for iid
    unfolding session_def
  proof (intro allI impI)
    fix s r s'
    assume m: "(case build_handler b env cfg cred iid (bs_db s) of Inl e \<Rightarrow> (Inl e, s) | Inr v \<Rightarrow> recover_and_serve b v s) = (r, s')"
    show "\<exists>tr. bs_trace s' = bs_trace s @ tr \<and> (\<forall>st. open_after tr st = Some st) \<and> (\<forall>v. Serving v \<in> set tr \<longrightarrow> ?P v)"
    proof (cases "build_handler b env cfg cred iid (bs_db s)")
      case (Inl e)
      with m show ?thesis by (intro exI [of _ "[]"]) simp
    next
      case (Inr v)
      with m show ?thesis using sessionD [OF session_recover [of v b], of s r s'] build_handler_built [OF Inr] by (simp add: serves_def)
    qed
  qed
  then have "session ?P (\<lambda>s. case bo_migrate b of Inl e \<Rightarrow> (Inl e, s) | Inr iid \<Rightarrow>
       while_open Journal_Writer (Inr ()) (\<lambda>s. case build_handler b env cfg cred iid (bs_db s) of
         Inl e \<Rightarrow> (Inl e, s) | Inr v \<Rightarrow> recover_and_serve b v s) s)"
    by (cases "bo_migrate b") (simp_all add: session_while_open, rule session_quiet, simp)
  then show ?thesis unfolding core_session_def by (intro session_while_open)
qed

definition keeps_token :: "(boot_state \<Rightarrow> unit res \<times> boot_state) \<Rightarrow> bool" where
  "keeps_token m \<longleftrightarrow> (\<forall>s r s'. m s = (r, s') \<longrightarrow> bs_token s' = bs_token s)"

lemma emit_token [simp]: "bs_token (emit ev s) = bs_token s"
  by (simp add: emit_def)

lemma keeps_token_while_open: "keeps_token body \<Longrightarrow> keeps_token (while_open x opened body)"
  unfolding keeps_token_def while_open_def by (fastforce split: sum.splits prod.splits)

lemma keeps_token_listen: "keeps_token (listen_core b v)"
  unfolding listen_core_def by (rule keeps_token_while_open) (auto simp: keeps_token_def)

lemma keeps_token_recover: "keeps_token (recover_and_serve b v)"
  unfolding keeps_token_def
proof (intro allI impI)
  fix s r s'
  assume m: "recover_and_serve b v s = (r, s')"
  have c: "keeps_token (start_control_plane b w eng)" for w eng
    using keeps_token_while_open [OF keeps_token_listen [of b]]
    unfolding keeps_token_def start_control_plane_def by (fastforce split: sum.splits prod.splits)
  show "bs_token s' = bs_token s"
    using m c keeps_token_listen [of b] unfolding recover_and_serve_def keeps_token_def Let_def
    by (fastforce split: sum.splits prod.splits if_splits)
qed

lemma keeps_token_core: "keeps_token (core_session b env cfg cred)"
proof -
  have "keeps_token (\<lambda>s. case build_handler b env cfg cred iid (bs_db s) of Inl e \<Rightarrow> (Inl e, s) | Inr v \<Rightarrow> recover_and_serve b v s)" for iid
    using keeps_token_recover [of b] unfolding keeps_token_def by (auto split: sum.splits)
  then have "keeps_token (while_open Journal_Writer (Inr ()) (\<lambda>s. case build_handler b env cfg cred iid (bs_db s) of
      Inl e \<Rightarrow> (Inl e, s) | Inr v \<Rightarrow> recover_and_serve b v s))" for iid by (rule keeps_token_while_open)
  then have "keeps_token (\<lambda>s. case bo_migrate b of Inl e \<Rightarrow> (Inl e, s) | Inr iid \<Rightarrow>
       while_open Journal_Writer (Inr ()) (\<lambda>s. case build_handler b env cfg cred iid (bs_db s) of
         Inl e \<Rightarrow> (Inl e, s) | Inr v \<Rightarrow> recover_and_serve b v s) s)"
    by (cases "bo_migrate b") (simp_all add: keeps_token_def)
  then show ?thesis unfolding core_session_def by (intro keeps_token_while_open)
qed

lemma session_setup: "session (\<lambda>_. False) (run_setup_server b)"
proof -
  have w: "session (\<lambda>_. False) (while_open Listener (failing ''listen setup server'' (bo_listen b)) (\<lambda>s. (bo_serve b, emit Serving_Setup s)))"
    by (rule session_while_open) (auto simp: session_def emit_def)
  have t: "bs_trace s1 = bs_trace s @ []" if "write_default_config b s = (x, s1)" for s x s1
    using that by (auto simp: write_default_config_def split: if_splits sum.splits)
  show ?thesis unfolding session_def
  proof (intro allI impI)
    fix s r s'
    assume m: "run_setup_server b s = (r, s')"
    obtain x s1 where x: "write_default_config b s = (x, s1)" by fastforce
    show "\<exists>tr. bs_trace s' = bs_trace s @ tr \<and> (\<forall>st. open_after tr st = Some st) \<and> (\<forall>v. Serving v \<in> set tr \<longrightarrow> False)"
    proof (cases x)
      case (Inl e)
      with m x t [OF x] show ?thesis by (intro exI [of _ "[]"]) (simp add: run_setup_server_def)
    next
      case (Inr u)
      with m x have "while_open Listener (failing ''listen setup server'' (bo_listen b)) (\<lambda>s. (bo_serve b, emit Serving_Setup s)) s1 = (r, s')"
        by (simp add: run_setup_server_def)
      from session_before [OF w this t [OF x]] show ?thesis by simp
    qed
  qed
qed

text \<open>C38: However the start ends, it has closed whatever it opened, last first. And what it serves is ready: no execution
  of an earlier core is left starting or running, no run token of an earlier core opens anything, the limits of the
  loaded configuration are well formed and, when a control plane is configured, merged with the policy that was cached
  in the database; and the credential in the file opens the control protocol.\<close>

theorem core_serves_ready_state:
  assumes "run_core b s = (r, s')" "bs_trace s = []" "\<forall>raw. io_rand (bo_io b) = Inr raw \<longrightarrow> length raw = credential_bytes"
  shows "open_after (bs_trace s') [] = Some [] \<and>
    (\<forall>v. Serving v \<in> set (bs_trace s') \<longrightarrow> ready v \<and> limits_ok (en_local (cs_engine (se_core v))) \<and>
       load_file (bo_config_world b (start_env b)) (bo_toml b) (bs_config s) = Inr (se_config v) \<and>
       (\<exists>token. bs_token s' = Some token \<and> authenticate (bo_sha b) (se_credential v) (''Bearer '' @ token)))"
proof (cases "load_file (bo_config_world b (start_env b)) (bo_toml b) (bs_config s)")
  case (Inl e)
  show ?thesis
  proof (cases "errors_is e err_not_exist")
    case True
    with Inl assms(1) have "run_setup_server b s = (r, s')" by (simp add: run_core_def)
    from sessionD [OF session_setup this] assms(2) show ?thesis by auto
  qed (use Inl assms in \<open>auto simp: run_core_def\<close>)
next
  case (Inr cfg)
  obtain x token where l: "load_or_create (bo_sha b) (bo_io b) (bs_token s) = (x, token)" by fastforce
  show ?thesis
  proof (cases x)
    case (Inl e)
    with Inr l assms show ?thesis by (auto simp: run_core_def)
  next
    case cred: (Inr cred)
    have m: "core_session b (start_env b) cfg cred (s\<lparr>bs_token := token\<rparr>) = (r, s')"
      using Inr l cred assms(1) by (simp add: run_core_def)
    from sessionD [OF session_core m] assms(2) obtain tr where tr: "bs_trace s' = tr" "\<forall>st. open_after tr st = Some st"
      "\<forall>w. Serving w \<in> set tr \<longrightarrow> ready w \<and> se_config w = cfg \<and> se_credential w = cred" by auto
    have tok: "bs_token s' = token" using keeps_token_core m unfolding keeps_token_def by fastforce
    from load_or_create_Inr [OF l [unfolded cred] assms(3)]
    obtain v where v: "token = Some v" "valid_credential v" "cred = new_credential (bo_sha b) v" by blast
    then have "authenticate (bo_sha b) cred (''Bearer '' @ v)" using credential_opens by blast
    moreover have "limits_ok (limits_of (cf_guardrails cfg))"
      using Inr by (auto simp: load_file_def split: option.splits elim!: loadD dest!: guardrails_start_engine)
    ultimately show ?thesis using tr tok v(1) Inr by (auto simp: ready_def Let_def)
  qed
qed

text \<open>A core that was killed left a running execution and a cached policy in the database.\<close>

definition left_behind :: journal where
  "left_behind = snd (save_remote_policy (pe_version sample_envelope) sample_envelope
     (snd (mark_execution_running ''run'' (snd (start_execution ''run'' 5 (new_journal ''install''))))))"

definition sample_boot :: boot where
  "sample_boot = \<lparr>bo_env = (\<lambda>_. []), bo_dotenv = Some ''KEY=v'', bo_config_world = (\<lambda>_. sample_world), bo_toml = sample_toml,
     bo_sha = id, bo_io = calm CHR ''a'', bo_open = Inr (), bo_open_read = Inr (), bo_migrate = Inr ''install'', bo_net = sample_net,
     bo_now = 9, bo_cutoff = (\<lambda>_. 1), bo_has_plane = True, bo_client = Inr (), bo_listen = Inr (), bo_serve = Inr (),
     bo_mkdir = Inr (), bo_in_dot = False, bo_write_config = Inr (), bo_config_left = None\<rparr>"

definition sample_start :: boot_state where
  "sample_start = \<lparr>bs_db = left_behind, bs_config = Some ''one'', bs_token = None, bs_trace = []\<rparr>"

text \<open>What is needed to get to the first request.\<close>

definition plane_ready :: "boot \<Rightarrow> served \<Rightarrow> bool" where
  "plane_ready b v \<longleftrightarrow> cc_enabled (cf_control_plane (se_config v)) \<longrightarrow> bo_has_plane b \<and> bo_client b = Inr () \<and>
     is_ok (fst (load_cached_policy (retained b (se_config v) (snd (on_journal (recover_executions (bo_now b)) (cs_engine (se_core v)))))))"

lemma core_reaches_serving:
  assumes "load_file (bo_config_world b (start_env b)) (bo_toml b) (bs_config s) = Inr cfg"
    "load_or_create (bo_sha b) (bo_io b) (bs_token s) = (Inr cred, token)" "bo_open b = Inr ()" "bo_open_read b = Inr ()"
    "bo_migrate b = Inr iid" "build_handler b (start_env b) cfg cred iid (bs_db s) = Inr v"
    "fst (recover_executions (bo_now b) (bs_db s)) = Inr ()" "plane_ready b v" "bo_listen b = Inr ()"
  shows "\<exists>w s'. run_core b s = (bo_serve b, s') \<and> Serving w \<in> set (bs_trace s')"
proof -
  obtain j' where j: "recover_executions (bo_now b) (bs_db s) = (Inr (), j')"
    using assms(7) by (cases "recover_executions (bo_now b) (bs_db s)") auto
  have v: "en_journal (cs_engine (se_core v)) = bs_db s" "se_config v = cfg"
    using assms(6) by (auto simp: build_handler_def rbind_Inr_iff new_engine_def split: if_splits sum.splits)
  define e where "e = retained b cfg ((cs_engine (se_core v))\<lparr>en_journal := j'\<rparr>)"
  have o: "on_journal (recover_executions (bo_now b)) (cs_engine (se_core v)) = (Inr (), (cs_engine (se_core v))\<lparr>en_journal := j'\<rparr>)"
    using v j by (simp add: on_journal_def)
  let ?on = "cc_enabled (cf_control_plane cfg)"
  have r: "\<exists>w s2. recover_and_serve b v s1 = (bo_serve b, s2) \<and> Serving w \<in> set (bs_trace s2)" for s1
  proof (cases ?on)
    case True
    with assms(8) o v have p: "bo_has_plane b" "bo_client b = Inr ()" "is_ok (fst (load_cached_policy e))"
      by (simp_all add: plane_ready_def e_def)
    then obtain e' where "load_cached_policy e = (Inr (), e')" by (cases "load_cached_policy e") (auto simp: is_ok_iff)
    with p o v True assms(9) show ?thesis
      by (simp add: recover_and_serve_def start_control_plane_def e_def [symmetric] while_open_def emit_def listen_core_def
          Let_def) blast
  next
    case False
    with o v assms(9) show ?thesis
      by (simp add: recover_and_serve_def e_def [symmetric] while_open_def emit_def listen_core_def Let_def) blast
  qed
  define s1 where "s1 = emit (Opened Journal_Writer) (emit (Opened ReadPool) (emit (Opened Store) (s\<lparr>bs_token := token\<rparr>)))"
  obtain w s2 where w: "recover_and_serve b v s1 = (bo_serve b, s2)" "Serving w \<in> set (bs_trace s2)" using r by blast
  have d: "bs_db s1 = bs_db s" by (simp add: s1_def emit_def)
  have "run_core b s = (bo_serve b, emit (Closed Store) (emit (Closed ReadPool) (emit (Closed Journal_Writer) s2)))"
    using assms(1-6) w(1) d by (simp add: run_core_def core_session_def while_open_def s1_def)
  then show ?thesis using w(2) by (auto simp: emit_def)
qed

definition sample_loaded :: config where
  "sample_loaded = (case load sample_world (Inr sample_config) of Inr c \<Rightarrow> c)"

definition sample_served :: served where
  "sample_served = (case build_handler sample_boot (start_env sample_boot) sample_loaded (new_credential id secret_a) ''install'' left_behind of
     Inr v \<Rightarrow> v)"

lemma sample_build:
  "build_handler sample_boot (start_env sample_boot) sample_loaded (new_credential id secret_a) ''install'' left_behind = Inr sample_served"
proof -
  have e: "is_ok (new_engine left_behind (limits_of (cf_guardrails sample_loaded)))" by code_simp
  have n: "is_ok (new_provider_registry sample_net sample_loaded)" by code_simp
  then have c: "is_ok (core_router sample_net sample_loaded env iid)" for env iid
    by (auto simp: core_router_def new_router_def is_ok_iff rbind_Inr_iff)
  have "bo_net sample_boot = sample_net" by (simp add: sample_boot_def)
  with e c [of "start_env sample_boot" "''install''"] show ?thesis
    unfolding sample_served_def build_handler_def is_ok_iff by (elim exE) simp
qed

lemma sample_plane: "plane_ready sample_boot sample_served"
proof -
  obtain e where e: "new_engine left_behind (limits_of (cf_guardrails sample_loaded)) = Inr e"
    "cs_engine (se_core sample_served) = e" "se_config sample_served = sample_loaded"
    using sample_build unfolding build_handler_def rbind_Inr_iff
    by (metis sum.inject(2) core.select_convs(1) served.select_convs(1,3))
  have "case new_engine left_behind (limits_of (cf_guardrails sample_loaded)) of Inl _ \<Rightarrow> False
    | Inr e \<Rightarrow> is_ok (fst (load_cached_policy (retained sample_boot sample_loaded (snd (on_journal (recover_executions 9) e)))))"
    by code_simp
  with e show ?thesis by (simp add: plane_ready_def sample_boot_def)
qed

lemma core_serves_ready_state_witness:
  "\<exists>v. Serving v \<in> set (bs_trace (snd (run_core sample_boot sample_start))) \<and> ready v \<and>
     limits_ok (en_local (cs_engine (se_core v)))"
proof -
  have "is_ok (load sample_world (Inr sample_config))" by code_simp
  then have l: "load_file (bo_config_world sample_boot (start_env sample_boot)) (bo_toml sample_boot) (bs_config sample_start) = Inr sample_loaded"
    by (auto simp: load_file_def sample_start_def sample_boot_def sample_toml_def is_ok_iff sample_loaded_def)
  have c: "load_or_create (bo_sha sample_boot) (bo_io sample_boot) (bs_token sample_start) = (Inr (new_credential id secret_a), Some secret_a)"
    unfolding sample_boot_def sample_start_def boot.simps boot_state.simps by code_simp
  have r: "fst (recover_executions (bo_now sample_boot) (bs_db sample_start)) = Inr ()" by code_simp
  have "\<exists>w s'. run_core sample_boot sample_start = (bo_serve sample_boot, s') \<and> Serving w \<in> set (bs_trace s')"
    by (rule core_reaches_serving [OF l c _ _ _ _ r sample_plane]) (use sample_build in \<open>simp_all add: sample_boot_def sample_start_def\<close>)
  then obtain v where v: "Serving v \<in> set (bs_trace (snd (run_core sample_boot sample_start)))" by force
  have "bs_trace sample_start = []" "\<forall>raw. io_rand (bo_io sample_boot) = Inr raw \<longrightarrow> length raw = credential_bytes"
    by (simp_all add: sample_start_def sample_boot_def calm_def credential_bytes_def)
  from core_serves_ready_state [OF surjective_pairing this] v show ?thesis by blast
qed

section \<open>The order of recovery and listening\<close>

text \<open>The executions are recovered before the address is bound. A second core that is started by mistake fails to bind
  it, and by then it has marked the runs of the first core as interrupted.\<close>

lemma failed_listen_interrupts_runs:
  assumes "load_file (bo_config_world b (start_env b)) (bo_toml b) (bs_config s) = Inr cfg"
    "\<not> cc_enabled (cf_control_plane cfg)" "load_or_create (bo_sha b) (bo_io b) (bs_token s) = (Inr cred, token)"
    "bo_open b = Inr ()" "bo_open_read b = Inr ()" "bo_migrate b = Inr iid"
    "build_handler b (start_env b) cfg cred iid (bs_db s) = Inr v" "fst (recover_executions (bo_now b) (bs_db s)) = Inr ()"
    "bo_listen b = Inl e"
  shows "\<exists>s'. run_core b s = (Inl (Wrapf ''listen'' e), s') \<and>
    t_executions (tbl (bs_db s')) = update_where active_row (interrupted_at (bo_now b)) (t_executions (tbl (bs_db s)))"
proof -
  obtain j' where j: "recover_executions (bo_now b) (bs_db s) = (Inr (), j')"
    using assms(8) by (cases "recover_executions (bo_now b) (bs_db s)") auto
  have v: "en_journal (cs_engine (se_core v)) = bs_db s" "se_config v = cfg"
    using assms(7) by (auto simp: build_handler_def rbind_Inr_iff new_engine_def split: if_splits sum.splits)
  have "on_journal (recover_executions (bo_now b)) (cs_engine (se_core v)) = (Inr (), (cs_engine (se_core v))\<lparr>en_journal := j'\<rparr>)"
    using v j by (simp add: on_journal_def)
  then show ?thesis
    using assms v recover_interrupts [OF j]
    by (auto simp: run_core_def core_session_def while_open_def emit_def recover_and_serve_def listen_core_def Let_def
        retained_def prune_keeps_executions failing_def)
qed

section \<open>Serving\<close>

definition err_server_closed :: goerr where
  "err_server_closed = Errorf ''http: Server closed''"

text \<open>How \<open>serve\<close> leaves its \<open>select\<close>: the server stopped by itself, or the context ended, with the results of the
  shutdown and of the server. \<open>None\<close> is a nil error.\<close>

datatype serve_end = Server_Stopped "goerr option" | Context_Ended "goerr option" "goerr option"

definition is_closed_error :: "goerr option \<Rightarrow> bool" where
  "is_closed_error e = (case e of None \<Rightarrow> False | Some x \<Rightarrow> errors_is x err_server_closed)"

fun serve_result :: "serve_end \<Rightarrow> goerr option" where
  "serve_result (Server_Stopped e) = (if is_closed_error e then None else e)"
| "serve_result (Context_Ended shutdown e) = (if e \<noteq> None \<and> \<not> is_closed_error e then e else shutdown)"

section \<open>Opening the panel\<close>

text \<open>A turn of the readiness loop: how long the request took (in milliseconds, it is given up after 500), what it
  answered, whether the context has ended after it, and what the \<open>select\<close> finds ready.\<close>

datatype poll_wait = Wait_Cancelled | Wait_Served | Wait_Again

record poll =
  po_request :: "unit res"
  po_took :: nat
  po_status :: "nat option"
  po_cancelled :: bool
  po_wait :: poll_wait

datatype readiness = Panel_Ready | Panel_Stopped | Panel_Failed goerr

definition ready_limit :: nat where
  "ready_limit = 5000"

text \<open>\<open>clock\<close> is the time since the loop began. The wait of 25 ms ends early when the limit is reached.\<close>

fun panel_loop :: "nat \<Rightarrow> poll list \<Rightarrow> readiness option" where
  "panel_loop clock [] = None"
| "panel_loop clock (p # ps) = (case failing ''panel readiness request'' (po_request p) of Inl e \<Rightarrow> Some (Panel_Failed e) | Inr _ \<Rightarrow>
     (let now = clock + po_took p in
      if (case po_status p of None \<Rightarrow> False | Some n \<Rightarrow> 200 \<le> n \<and> n < 400) then Some Panel_Ready
      else if po_cancelled p then Some Panel_Stopped
      else (case po_wait p of
          Wait_Cancelled \<Rightarrow> Some Panel_Stopped
        | Wait_Served \<Rightarrow> Some Panel_Stopped
        | Wait_Again \<Rightarrow> if now + 25 \<ge> ready_limit then Some (Panel_Failed (Wrapf ''panel did not become ready'' ErrContext))
            else panel_loop (now + 25) ps)))"

text \<open>\<open>servePanel\<close>: the answer, and whether the browser was asked to open the panel. \<open>ended\<close> and \<open>served\<close> are the two
  last checks before that; an error of the browser is only logged. \<open>None\<close> is a loop that has not ended.\<close>

definition serve_panel :: "bool \<Rightarrow> poll list \<Rightarrow> bool \<Rightarrow> bool \<Rightarrow> goerr option \<Rightarrow> (goerr option \<times> bool) option" where
  "serve_panel opens ps ended served r = (if \<not> opens then Some (r, False)
     else case panel_loop 0 ps of
       None \<Rightarrow> None
     | Some (Panel_Failed e) \<Rightarrow> Some (Some e, False)
     | Some Panel_Stopped \<Rightarrow> Some (r, False)
     | Some Panel_Ready \<Rightarrow> Some (r, \<not> ended \<and> \<not> served))"

text \<open>Two hundred turns are enough for every answer.\<close>

lemma panel_loop_ends: "200 \<le> clock div 25 + length ps \<Longrightarrow> clock < 5000 \<Longrightarrow> ps \<noteq> [] \<Longrightarrow> panel_loop clock ps \<noteq> None"
proof (induction clock ps rule: panel_loop.induct)
  case (2 clock p ps)
  show ?case
  proof (cases "clock + po_took p + 25 \<ge> ready_limit")
    case False
    then have l: "clock + po_took p + 25 < 5000" by (simp add: ready_limit_def)
    then have "ps \<noteq> []" using 2(2) by auto
    moreover have "200 \<le> (clock + po_took p + 25) div 25 + length ps"
      using 2(2) div_le_mono [of "clock + 25" "clock + po_took p + 25" 25] by simp
    ultimately show ?thesis using 2(1) l by (auto simp: Let_def split: sum.split option.split poll_wait.split)
  qed (auto simp: Let_def split: sum.split option.split poll_wait.split)
qed simp

lemma panel_loop_ready:
  "panel_loop clock ps = Some Panel_Ready \<Longrightarrow> \<exists>p \<in> set ps. \<exists>n. po_status p = Some n \<and> 200 \<le> n \<and> n < 400"
  by (induction clock ps rule: panel_loop.induct)
    (auto simp: Let_def split: sum.splits option.splits poll_wait.splits if_splits)

text \<open>The start with the panel always comes to an end of its readiness loop, within two hundred requests; the browser is
  opened only after the panel has answered one of them with a success or a redirect, and while the core still serves.\<close>

theorem panel_opens_when_ready:
  "(200 \<le> length ps \<longrightarrow> serve_panel opens ps ended served r \<noteq> None) \<and>
   (\<forall>x. serve_panel opens ps ended served r = Some (x, True) \<longrightarrow> opens \<and> \<not> ended \<and> \<not> served \<and> x = r \<and>
      (\<exists>p \<in> set ps. \<exists>n. po_status p = Some n \<and> 200 \<le> n \<and> n < 400))"
proof (intro conjI impI allI)
  assume "200 \<le> length ps"
  then have "panel_loop 0 ps \<noteq> None" by (intro panel_loop_ends) auto
  then show "serve_panel opens ps ended served r \<noteq> None"
    by (auto simp: serve_panel_def split: option.split readiness.split)
next
  fix x
  assume s: "serve_panel opens ps ended served r = Some (x, True)"
  then have "panel_loop 0 ps = Some Panel_Ready" "opens" "\<not> ended" "\<not> served" "x = r"
    by (auto simp: serve_panel_def split: option.splits readiness.splits if_splits)
  with panel_loop_ready show "opens" "\<not> ended" "\<not> served" "x = r"
    "\<exists>p \<in> set ps. \<exists>n. po_status p = Some n \<and> 200 \<le> n \<and> n < 400" by blast+
qed

end
