(* ===== verification/Server_Routes.thy ===== *)
theory Server_Routes
  imports Core_Startup Panel_Pages "HOL-Library.Sublist"
begin

text \<open>
  \<open>NewServer\<close> of \<open>internal/gateway/server.go\<close>: its checks, the routes it registers and the answer of \<open>/health\<close>. The
  patterns are those of \<open>net/http\<close>: a method, literal segments, single wildcards and the trailing slash that matches
  every rest; the mux takes the most specific pattern that matches, and panics when two overlap and neither is more
  specific. A route is registered with the check that its handler is wrapped in, or makes first: \<open>authenticateExecution\<close>,
  \<open>authenticateMessages\<close>, the control handler's \<open>authenticate\<close>, or \<open>requirePanelAuth\<close>; these are run by the definitions of
  Gateway_Auth, Exec_Http and Panel. The theorem shows that no two routes conflict, and which credentials a request that
  reaches a page holds.
\<close>

section \<open>Patterns\<close>

datatype segment = Lit string | Wild

text \<open>\<open>pt_rest\<close>: the pattern ends in a slash and matches every path below.\<close>

record pattern =
  pt_method :: string
  pt_path :: "segment list"
  pt_rest :: bool

fun segment_matches :: "segment \<Rightarrow> string \<Rightarrow> bool" where
  "segment_matches (Lit a) x = (a = x)"
| "segment_matches Wild x = (x \<noteq> [])"

fun path_matches :: "bool \<Rightarrow> segment list \<Rightarrow> string list \<Rightarrow> bool" where
  "path_matches r [] xs = (r \<or> xs = [])"
| "path_matches r (p # ps) [] = False"
| "path_matches r (p # ps) (x # xs) = (segment_matches p x \<and> path_matches r ps xs)"

definition method_matches :: "string \<Rightarrow> string \<Rightarrow> bool" where
  "method_matches p m \<longleftrightarrow> p = [] \<or> p = m \<or> p = ''GET'' \<and> m = ''HEAD''"

definition matches :: "pattern \<Rightarrow> string \<Rightarrow> string list \<Rightarrow> bool" where
  "matches p m path \<longleftrightarrow> method_matches (pt_method p) m \<and> path_matches (pt_rest p) (pt_path p) path"

text \<open>Every path of the first pattern is one of the second; no path is one of both.\<close>

fun segment_below :: "segment \<Rightarrow> segment \<Rightarrow> bool" where
  "segment_below (Lit a) (Lit b) = (a = b)"
| "segment_below (Lit a) Wild = (a \<noteq> [])"
| "segment_below Wild (Lit b) = False"
| "segment_below Wild Wild = True"

fun segment_disjoint :: "segment \<Rightarrow> segment \<Rightarrow> bool" where
  "segment_disjoint (Lit a) (Lit b) = (a \<noteq> b)"
| "segment_disjoint p q = False"

fun path_below :: "bool \<Rightarrow> bool \<Rightarrow> segment list \<Rightarrow> segment list \<Rightarrow> bool" where
  "path_below r t ps [] = (t \<or> ps = [] \<and> \<not> r)"
| "path_below r t [] (q # qs) = False"
| "path_below r t (p # ps) (q # qs) = (segment_below p q \<and> path_below r t ps qs)"

fun path_disjoint :: "bool \<Rightarrow> bool \<Rightarrow> segment list \<Rightarrow> segment list \<Rightarrow> bool" where
  "path_disjoint r t [] [] = False"
| "path_disjoint r t [] (q # qs) = (\<not> r)"
| "path_disjoint r t (p # ps) [] = (\<not> t)"
| "path_disjoint r t (p # ps) (q # qs) = (segment_disjoint p q \<or> path_disjoint r t ps qs)"

definition method_below :: "string \<Rightarrow> string \<Rightarrow> bool" where
  "method_below m n \<longleftrightarrow> n = [] \<or> m = n \<or> n = ''GET'' \<and> m = ''HEAD''"

definition method_disjoint :: "string \<Rightarrow> string \<Rightarrow> bool" where
  "method_disjoint m n \<longleftrightarrow> m \<noteq> [] \<and> n \<noteq> [] \<and> m \<noteq> n \<and> \<not> (m = ''GET'' \<and> n = ''HEAD'') \<and> \<not> (m = ''HEAD'' \<and> n = ''GET'')"

definition more_specific :: "pattern \<Rightarrow> pattern \<Rightarrow> bool" where
  "more_specific p q \<longleftrightarrow> method_below (pt_method p) (pt_method q) \<and> path_below (pt_rest p) (pt_rest q) (pt_path p) (pt_path q)"

definition disjoint :: "pattern \<Rightarrow> pattern \<Rightarrow> bool" where
  "disjoint p q \<longleftrightarrow> method_disjoint (pt_method p) (pt_method q) \<or> path_disjoint (pt_rest p) (pt_rest q) (pt_path p) (pt_path q)"

text \<open>The mux panics on the second of two patterns that conflict.\<close>

definition conflict :: "pattern \<Rightarrow> pattern \<Rightarrow> bool" where
  "conflict p q \<longleftrightarrow> p = q \<or> \<not> disjoint p q \<and> \<not> more_specific p q \<and> \<not> more_specific q p"

fun registered :: "(pattern \<times> 'h) list \<Rightarrow> bool" where
  "registered [] = True"
| "registered (r # rs) = (list_all (\<lambda>q. \<not> conflict (fst r) (fst q)) rs \<and> registered rs)"

text \<open>What the mux does with a request: the handler of the most specific pattern, or \<open>None\<close>, which it answers itself
  with 405 when the path is known under another method and 404 otherwise.\<close>

definition dispatch :: "(pattern \<times> 'h) list \<Rightarrow> string \<Rightarrow> string list \<Rightarrow> 'h option" where
  "dispatch rs m path = (let ms = filter (\<lambda>r. matches (fst r) m path) rs in
     map_option snd (first_row (\<lambda>r. list_all (\<lambda>q. more_specific (fst r) (fst q)) ms) ms))"

section \<open>The routes of the core\<close>

datatype core_page =
    Chat | Responses | Messages | Tool_Results | Models
  | Register_Run | Run_Signals | Run_Running | Run_Finish
  | Setup | Login string | Logout | Root | Health | Onboarding
  | Overview | Executions | Execution_Page | Protections | Providers_Page | Health_Page | Settings_Page
  | Placeholder string | Usage | Session_Page | Run_Redirect | Event_Page

text \<open>The check in front of a page.\<close>

datatype route_guard = Unguarded | Execution_Token token_header | Messages_Token | Control_Credential | Panel_Session string

type_synonym core_handler = "route_guard \<times> core_page"

definition unguarded :: "core_page \<Rightarrow> core_handler" where
  "unguarded p = (Unguarded, p)"

definition with_execution_token :: "core_page \<Rightarrow> token_header \<Rightarrow> core_handler" where
  "with_execution_token next h = (Execution_Token h, next)"

definition with_messages_token :: "core_page \<Rightarrow> core_handler" where
  "with_messages_token next = (Messages_Token, next)"

definition with_panel_auth :: "string \<Rightarrow> core_page \<Rightarrow> core_handler" where
  "with_panel_auth password next = (Panel_Session password, next)"

text \<open>The handlers of the control protocol, each with its own check.\<close>

definition register_route :: core_handler where
  "register_route = (Control_Credential, Register_Run)"

definition running_route :: core_handler where
  "running_route = (Control_Credential, Run_Running)"

definition finish_route :: core_handler where
  "finish_route = (Control_Credential, Run_Finish)"

definition signals_route :: core_handler where
  "signals_route = (Control_Credential, Run_Signals)"

text \<open>The handlers of the panel, as their constructors wrap them.\<close>

definition overview_route :: "string \<Rightarrow> core_handler" where
  "overview_route password = with_panel_auth password Overview"

definition executions_route :: "string \<Rightarrow> core_handler" where
  "executions_route password = with_panel_auth password Executions"

definition execution_route :: "string \<Rightarrow> core_handler" where
  "execution_route password = with_panel_auth password Execution_Page"

definition protections_route :: "string \<Rightarrow> core_handler" where
  "protections_route password = with_panel_auth password Protections"

definition providers_route :: "string \<Rightarrow> core_handler" where
  "providers_route password = with_panel_auth password Providers_Page"

definition health_route :: "string \<Rightarrow> core_handler" where
  "health_route password = with_panel_auth password Health_Page"

definition settings_route :: "string \<Rightarrow> core_handler" where
  "settings_route password = with_panel_auth password Settings_Page"

definition placeholder_route :: "string \<Rightarrow> string \<Rightarrow> core_handler" where
  "placeholder_route password section = with_panel_auth password (Placeholder section)"

definition redirect_route :: "string \<Rightarrow> core_handler" where
  "redirect_route password = with_panel_auth password Run_Redirect"

text \<open>The older pages ask \<open>IsAuthed\<close> themselves.\<close>

definition usage_route :: "string \<Rightarrow> core_handler" where
  "usage_route password = (Panel_Session password, Usage)"

definition session_route :: "string \<Rightarrow> core_handler" where
  "session_route password = (Panel_Session password, Session_Page)"

definition event_route :: "string \<Rightarrow> core_handler" where
  "event_route password = (Panel_Session password, Event_Page)"

text \<open>What the server is given of \<open>Dependencies\<close>: whether there is a database, an engine, a control handler, and a
  settings store; the recorder; the path of the configuration; the password; the hash of the configuration in use.\<close>

record dependencies =
  dp_db :: bool
  dp_policy :: bool
  dp_recorder :: recorder
  dp_config_path :: string
  dp_password :: string
  dp_control :: bool
  dp_settings :: bool
  dp_applied_hash :: string

definition panel_path :: "segment list \<Rightarrow> segment list" where
  "panel_path ps = Lit ''dashboard'' # ps"

definition get_path :: "segment list \<Rightarrow> pattern" where
  "get_path ps = \<lparr>pt_method = ''GET'', pt_path = ps, pt_rest = False\<rparr>"

definition post_path :: "segment list \<Rightarrow> pattern" where
  "post_path ps = \<lparr>pt_method = ''POST'', pt_path = ps, pt_rest = False\<rparr>"

definition has_settings :: "dependencies \<Rightarrow> bool" where
  "has_settings d \<longleftrightarrow> dp_settings d \<or> dp_config_path d \<noteq> []"

definition call_routes :: "(pattern \<times> core_handler) list" where
  "call_routes =
     [(post_path [Lit ''v1'', Lit ''chat'', Lit ''completions''], with_execution_token Chat Authorization),
      (post_path [Lit ''v1'', Lit ''responses''], with_execution_token Responses Authorization),
      (post_path [Lit ''v1'', Lit ''messages''], with_messages_token Messages),
      (post_path [Lit ''v1'', Lit ''tool-results''], with_execution_token Tool_Results AppToken),
      (get_path [Lit ''v1'', Lit ''models''], unguarded Models)]"

definition control_routes :: "dependencies \<Rightarrow> (pattern \<times> core_handler) list" where
  "control_routes d = (if dp_control d then
     [(post_path [Lit ''api'', Lit ''executions''], register_route),
      (get_path [Lit ''api'', Lit ''executions'', Wild, Lit ''signals''], signals_route),
      (post_path [Lit ''api'', Lit ''executions'', Wild, Lit ''running''], running_route),
      (post_path [Lit ''api'', Lit ''executions'', Wild, Lit ''finish''], finish_route)] else [])"

definition setup_routes :: "dependencies \<Rightarrow> (pattern \<times> core_handler) list" where
  "setup_routes d = (if dp_config_path d \<noteq> []
     then [(get_path [Lit ''setup''], unguarded Setup), (post_path [Lit ''setup''], unguarded Setup)] else [])"

definition panel_routes :: "dependencies \<Rightarrow> (pattern \<times> core_handler) list" where
  "panel_routes d = (let pw = dp_password d in
     [(get_path [Lit ''login''], unguarded (Login pw)), (post_path [Lit ''login''], unguarded (Login pw)),
      (post_path [Lit ''logout''], unguarded Logout),
      (get_path (panel_path []), overview_route pw),
      (get_path (panel_path [Lit ''executions'']), executions_route pw),
      (get_path (panel_path [Lit ''executions'', Wild]), execution_route pw)] @
     (if has_settings d then
       [(get_path (panel_path [Lit ''protections'']), protections_route pw), (post_path (panel_path [Lit ''protections'']), protections_route pw),
        (get_path (panel_path [Lit ''providers'']), providers_route pw), (post_path (panel_path [Lit ''providers'']), providers_route pw),
        (get_path (panel_path [Lit ''health'']), health_route pw), (get_path (panel_path [Lit ''settings'']), settings_route pw)]
      else
       [(get_path (panel_path [Lit ''protections'']), placeholder_route pw ''protections''),
        (get_path (panel_path [Lit ''providers'']), placeholder_route pw ''providers''),
        (get_path (panel_path [Lit ''health'']), placeholder_route pw ''health''),
        (get_path (panel_path [Lit ''settings'']), placeholder_route pw ''settings'')]) @
     [(get_path (panel_path [Lit ''usage'']), usage_route pw),
      (get_path (panel_path [Lit ''session'', Wild]), session_route pw),
      (get_path (panel_path [Lit ''run'', Wild]), redirect_route pw)] @
     (if dp_recorder d = JournalRecorder then [(get_path (panel_path [Lit ''event'', Wild]), event_route pw)] else []) @
     [(\<lparr>pt_method = ''GET'', pt_path = [], pt_rest = True\<rparr>, unguarded Root), (get_path [Lit ''health''], unguarded Health)])"

text \<open>\<open>built_router\<close> is what \<open>newRouter\<close> answers.\<close>

definition new_server :: "config \<Rightarrow> dependencies \<Rightarrow> 'r res \<Rightarrow> ('r \<times> (pattern \<times> core_handler) list) res" where
  "new_server cfg d built_router =
     (if \<not> dp_db d then Inl (Errorf ''database connection is required'')
      else if \<not> dp_policy d \<and> has_guardrails (cf_guardrails cfg) then Inl (Errorf ''configured guardrails require a policy engine'')
      else rbind built_router (\<lambda>gw. Inr (gw, call_routes @ control_routes d @ setup_routes d @ panel_routes d)))"

text \<open>What \<open>buildHandlerWithControlVersion\<close> passes: the settings store is given when the configuration could be hashed.\<close>

definition core_dependencies :: "config \<Rightarrow> string \<Rightarrow> string res \<Rightarrow> bool \<Rightarrow> dependencies" where
  "core_dependencies cfg config_path hash with_control = \<lparr>dp_db = True, dp_policy = True,
     dp_recorder = (if cc_enabled (cf_control_plane cfg) then DestinationRecorder ''controlplane'' else JournalRecorder),
     dp_config_path = config_path, dp_password = cf_password cfg, dp_control = with_control, dp_settings = is_ok hash,
     dp_applied_hash = (case hash of Inl _ \<Rightarrow> [] | Inr h \<Rightarrow> h)\<rparr>"

text \<open>The routes of \<open>runSetupServer\<close>; the panel has no password there.\<close>

definition setup_server_routes :: "(pattern \<times> core_handler) list" where
  "setup_server_routes =
     [(get_path [Lit ''setup''], unguarded Setup), (post_path [Lit ''setup''], unguarded Setup),
      (get_path (panel_path [Lit ''providers'']), providers_route []), (post_path (panel_path [Lit ''providers'']), providers_route []),
      (get_path (panel_path [Lit ''protections'']), protections_route []), (post_path (panel_path [Lit ''protections'']), protections_route []),
      (get_path (panel_path []), unguarded Onboarding), (\<lparr>pt_method = [], pt_path = [], pt_rest = True\<rparr>, unguarded Onboarding)]"

section \<open>Answering a request\<close>

text \<open>What the checks look at: the registry of the runs (\<open>None\<close> without one), the control credential, the sessions of
  the panel and the time.\<close>

record gates =
  gt_sha :: "string \<Rightarrow> string"
  gt_getenv :: "string \<Rightarrow> string"
  gt_auth :: "registry option"
  gt_control :: credential
  gt_now :: int
  gt_sessions :: sessions

text \<open>The headers of a request, and the value of its session cookie.\<close>

definition passes :: "gates \<Rightarrow> http_request \<Rightarrow> string option \<Rightarrow> route_guard \<Rightarrow> bool" where
  "passes g rq cookie x = (case x of
     Unguarded \<Rightarrow> True
   | Execution_Token h \<Rightarrow> (case authenticate_execution (gt_sha g) (gt_getenv g) (gt_auth g) h rq of Inl _ \<Rightarrow> False | Inr _ \<Rightarrow> True)
   | Messages_Token \<Rightarrow> (case authenticate_messages (gt_sha g) (gt_getenv g) (gt_auth g) rq of Inl _ \<Rightarrow> False | Inr _ \<Rightarrow> True)
   | Control_Credential \<Rightarrow> authenticate (gt_sha g) (gt_control g) (hq_authorization rq)
   | Panel_Session password \<Rightarrow> fst (is_authed (gt_now g) password cookie (gt_sessions g)))"

datatype route_answer = No_Route | Turned_Away core_page | Reached core_page

definition answer_route :: "gates \<Rightarrow> (pattern \<times> core_handler) list \<Rightarrow> string \<Rightarrow> string list \<Rightarrow> http_request \<Rightarrow> string option \<Rightarrow> route_answer" where
  "answer_route g rs m path rq cookie = (case dispatch rs m path of
     None \<Rightarrow> No_Route
   | Some (x, p) \<Rightarrow> if passes g rq cookie x then Reached p else Turned_Away p)"

section \<open>Health\<close>

record health_answer =
  ha_status :: nat
  ha_ready :: bool
  ha_applied :: string
  ha_pending :: string
  ha_restart :: bool

text \<open>\<open>pending\<close> is the hash of the file now; an error of it is ignored and leaves the hash empty.\<close>

definition health_of :: "dependencies \<Rightarrow> string res \<Rightarrow> unit res \<Rightarrow> health_answer" where
  "health_of d pending ping = (let
     hash = (if has_settings d then (case pending of Inl _ \<Rightarrow> [] | Inr h \<Rightarrow> h) else []);
     ok = is_ok ping in
     \<lparr>ha_status = (if ok then 200 else 503), ha_ready = ok, ha_applied = dp_applied_hash d, ha_pending = hash,
      ha_restart = (has_settings d \<and> dp_applied_hash d \<noteq> [] \<and> hash \<noteq> [] \<and> dp_applied_hash d \<noteq> hash)\<rparr>)"

section \<open>What the relations of patterns mean\<close>

lemma segment_below_sound: "segment_below p q \<Longrightarrow> segment_matches p x \<Longrightarrow> segment_matches q x"
  by (cases p; cases q) auto

lemma segment_below_trans: "segment_below p q \<Longrightarrow> segment_below q s \<Longrightarrow> segment_below p s"
  by (cases p; cases q; cases s) auto

lemma segment_below_antisym: "segment_below p q \<Longrightarrow> segment_below q p \<Longrightarrow> p = q"
  by (cases p; cases q) auto

lemma segment_disjoint_sound: "segment_disjoint p q \<Longrightarrow> segment_matches p x \<Longrightarrow> \<not> segment_matches q x"
  by (cases p; cases q) auto

lemma path_below_sound: "path_below r t ps qs \<Longrightarrow> path_matches r ps xs \<Longrightarrow> path_matches t qs xs"
  by (induction r t ps qs arbitrary: xs rule: path_below.induct)
    (case_tac [!] xs, auto dest: segment_below_sound)

lemma path_disjoint_sound: "path_disjoint r t ps qs \<Longrightarrow> path_matches r ps xs \<Longrightarrow> \<not> path_matches t qs xs"
  by (induction r t ps qs arbitrary: xs rule: path_disjoint.induct)
    (case_tac [!] xs, auto dest: segment_disjoint_sound)

lemma path_below_trans: "path_below r t ps qs \<Longrightarrow> path_below t u qs vs \<Longrightarrow> path_below r u ps vs"
proof (induction r t ps qs arbitrary: vs rule: path_below.induct)
  case (3 r t p ps q qs)
  then show ?case by (cases vs) (auto dest: segment_below_trans)
qed (case_tac [!] vs, auto)

lemma path_below_antisym: "path_below r t ps qs \<Longrightarrow> path_below t r qs ps \<Longrightarrow> ps = qs \<and> r = t"
  by (induction r t ps qs rule: path_below.induct) (auto dest: segment_below_antisym elim: path_below.elims)

lemma more_specific_matches: "more_specific p q \<Longrightarrow> matches p m path \<Longrightarrow> matches q m path"
  by (auto simp: more_specific_def matches_def method_below_def method_matches_def dest: path_below_sound)

lemma more_specific_trans: "more_specific p q \<Longrightarrow> more_specific q s \<Longrightarrow> more_specific p s"
  by (auto simp: more_specific_def method_below_def dest: path_below_trans)

lemma more_specific_antisym: "more_specific p q \<Longrightarrow> more_specific q p \<Longrightarrow> p = q"
  by (cases p; cases q) (auto simp: more_specific_def method_below_def dest: path_below_antisym)

lemma disjoint_sound: "disjoint p q \<Longrightarrow> matches p m path \<Longrightarrow> \<not> matches q m path"
  by (auto simp: disjoint_def matches_def method_disjoint_def method_matches_def dest: path_disjoint_sound)

section \<open>Dispatching\<close>

lemma registered_pairs:
  "registered rs \<Longrightarrow> a \<in> set rs \<Longrightarrow> b \<in> set rs \<Longrightarrow> a = b \<or> \<not> conflict (fst a) (fst b) \<or> \<not> conflict (fst b) (fst a)"
  by (induction rs) (auto simp: list_all_iff)

text \<open>Of the patterns that match a request, one is more specific than all others.\<close>

lemma comparable:
  assumes "registered rs" "a \<in> set rs" "b \<in> set rs" "matches (fst a) m path" "matches (fst b) m path"
  shows "a = b \<or> fst a \<noteq> fst b \<and> (more_specific (fst a) (fst b) \<or> more_specific (fst b) (fst a))"
  using registered_pairs [OF assms(1-3)] disjoint_sound [of "fst a" "fst b" m path] disjoint_sound [of "fst b" "fst a" m path] assms(4,5)
  by (auto simp: conflict_def)

lemma most_specific_exists:
  assumes "registered rs" "set ms \<subseteq> set rs" "ms \<noteq> []" "\<forall>r \<in> set ms. matches (fst r) m path"
  shows "\<exists>r \<in> set ms. \<forall>q \<in> set ms. r = q \<or> more_specific (fst r) (fst q)"
  using assms(2-4)
proof (induction ms)
  case (Cons a ms)
  show ?case
  proof (cases "ms = []")
    case False
    then obtain r where r: "r \<in> set ms" "\<forall>q \<in> set ms. r = q \<or> more_specific (fst r) (fst q)" using Cons by auto
    have "a = r \<or> more_specific (fst a) (fst r) \<or> more_specific (fst r) (fst a)"
      using comparable [OF assms(1), of a r m path] Cons.prems r(1) by auto
    with r show ?thesis by (auto intro: more_specific_trans)
  qed simp
qed simp

lemma more_specific_refl: "more_specific p p"
proof -
  have "path_below r r ps ps" for r ps
  proof (induction ps)
    case (Cons p ps)
    then show ?case by (cases p) auto
  qed simp
  then show ?thesis by (simp add: more_specific_def method_below_def)
qed

definition best :: "(pattern \<times> 'h) list \<Rightarrow> string \<Rightarrow> string list \<Rightarrow> pattern \<times> 'h \<Rightarrow> bool" where
  "best rs m path r \<longleftrightarrow> r \<in> set rs \<and> matches (fst r) m path \<and>
     (\<forall>q \<in> set rs. matches (fst q) m path \<longrightarrow> more_specific (fst r) (fst q))"

lemma best_unique:
  assumes "registered rs" "best rs m path r" "best rs m path q"
  shows "r = q"
  using comparable [OF assms(1), of r q m path] more_specific_antisym [of "fst r" "fst q"] assms(2,3)
  by (auto simp: best_def)

lemma first_row_filter: "first_row P (filter Q xs) = first_row (\<lambda>x. Q x \<and> P x) xs"
  by (induction xs) auto

lemma list_all_filter: "list_all P (filter Q xs) = (\<forall>q \<in> set xs. Q q \<longrightarrow> P q)"
  by (induction xs) auto

lemma dispatch_first_row:
  "dispatch rs m path = map_option snd (first_row (\<lambda>r. matches (fst r) m path \<and>
     (\<forall>q \<in> set rs. matches (fst q) m path \<longrightarrow> more_specific (fst r) (fst q))) rs)"
  unfolding dispatch_def Let_def list_all_filter first_row_filter ..

lemma dispatch_Some:
  assumes "dispatch rs m path = Some h"
  shows "\<exists>p. best rs m path (p, h)"
proof -
  obtain r where r: "first_row (\<lambda>r. matches (fst r) m path \<and>
     (\<forall>q \<in> set rs. matches (fst q) m path \<longrightarrow> more_specific (fst r) (fst q))) rs = Some r" "snd r = h"
    using assms by (auto simp: dispatch_first_row)
  from first_row_Some [OF r(1)] r(2) have "best rs m path (fst r, h)" unfolding best_def by auto
  then show ?thesis ..
qed

lemma dispatch_None: "dispatch rs m path = None \<Longrightarrow> \<not> best rs m path r"
  unfolding dispatch_first_row best_def by (simp add: first_row_None)

lemma best_exists:
  assumes "registered rs" "q \<in> set rs" "matches (fst q) m path"
  shows "\<exists>r. best rs m path r"
proof -
  let ?ms = "filter (\<lambda>r. matches (fst r) m path) rs"
  have "?ms \<noteq> []" using assms(2,3) by (auto simp: filter_empty_conv)
  from most_specific_exists [OF assms(1) _ this] obtain r where r: "r \<in> set ?ms" "\<forall>q \<in> set ?ms. r = q \<or> more_specific (fst r) (fst q)"
    by (metis (mono_tags, lifting) filter_is_subset mem_Collect_eq set_filter)
  have "more_specific (fst r) (fst q)" if "q \<in> set rs" "matches (fst q) m path" for q
  proof -
    have "q \<in> set ?ms" using that by simp
    with r(2) more_specific_refl [of "fst r"] show ?thesis by metis
  qed
  moreover have "r \<in> set rs" "matches (fst r) m path" using r(1) by simp_all
  ultimately show ?thesis unfolding best_def by metis
qed

lemma best_cong: "set rs' = set rs \<Longrightarrow> best rs' m path r = best rs m path r"
  by (simp add: best_def)

text \<open>The handler does not depend on the order of registration.\<close>

lemma dispatch_order:
  assumes "registered rs" "set rs' = set rs"
  shows "dispatch rs' m path = dispatch rs m path"
proof (cases "dispatch rs' m path")
  case None
  then have "\<not> best rs m path r" for r using dispatch_None best_cong [OF assms(2)] by metis
  then show ?thesis using None dispatch_Some by (metis option.exhaust)
next
  case (Some h)
  then obtain p where p: "best rs m path (p, h)" using dispatch_Some best_cong [OF assms(2)] by metis
  then obtain h' where h: "dispatch rs m path = Some h'" using dispatch_None by (metis option.exhaust)
  then obtain p' where p': "best rs m path (p', h')" using dispatch_Some by metis
  from best_unique [OF assms(1) p p'] h Some show ?thesis by simp
qed

section \<open>The routes do not conflict\<close>

lemma registered_map: "registered rs = registered (map (\<lambda>r. (fst r, ())) rs)"
  by (induction rs) (auto simp: list_all_iff)

definition route_patterns :: "bool \<Rightarrow> bool \<Rightarrow> bool \<Rightarrow> bool \<Rightarrow> (pattern \<times> unit) list" where
  "route_patterns control path settings journal = (let d = \<lparr>dp_db = True, dp_policy = True,
     dp_recorder = (if journal then JournalRecorder else NoRecorder), dp_config_path = (if path then ''c'' else []), dp_password = [],
     dp_control = control, dp_settings = settings, dp_applied_hash = []\<rparr> in
     map (\<lambda>r. (fst r, ())) (call_routes @ control_routes d @ setup_routes d @ panel_routes d))"

lemma registered_patterns: "registered (route_patterns True True True True)"
  by code_simp

lemma registered_subseq: "subseq xs ys \<Longrightarrow> registered ys \<Longrightarrow> registered xs"
proof (induction rule: list_emb.induct)
  case (list_emb_Cons2 x y xs ys)
  then have "set xs \<subseteq> set ys" by (auto dest: list_emb_set)
  with list_emb_Cons2 show ?case by (auto simp: list_all_iff)
qed auto

lemma route_patterns_subseq: "subseq (route_patterns c p s j) (route_patterns True True True True)"
proof -
  have "list_all (\<lambda>((c, p), s, j). subseq (route_patterns c p s j) (route_patterns True True True True))
    (List.product (List.product [True, False] [True, False]) (List.product [True, False] [True, False]))"
    by code_simp
  then show ?thesis by (cases c; cases p; cases s; cases j) simp_all
qed

lemma new_server_registered:
  assumes "new_server cfg d r = Inr (gw, rs)"
  shows "registered rs"
proof -
  have rs: "rs = call_routes @ control_routes d @ setup_routes d @ panel_routes d"
    using assms by (auto simp: new_server_def rbind_Inr_iff split: if_splits)
  have "map (\<lambda>r. (fst r, ())) rs =
    route_patterns (dp_control d) (dp_config_path d \<noteq> []) (dp_settings d) (dp_recorder d = JournalRecorder)"
    unfolding rs route_patterns_def Let_def
    by (simp add: control_routes_def setup_routes_def panel_routes_def has_settings_def Let_def)
  then show ?thesis using registered_map [of rs] registered_subseq [OF route_patterns_subseq registered_patterns] by simp
qed

lemma setup_server_registered: "registered setup_server_routes"
  by code_simp

section \<open>Who is answered\<close>

text \<open>A token a caller may present: that of a live run, or the one of the desktop application. A gateway with neither a
  registry nor a desktop token asks for none.\<close>

definition caller_token :: "gates \<Rightarrow> string option \<Rightarrow> bool" where
  "caller_token g presented \<longleftrightarrow> gt_auth g = None \<and> gt_getenv g ''VIRGIL_DESKTOP_TOKEN'' = [] \<or>
     (\<exists>token. presented = Some token \<and>
        ((\<exists>rg rid. gt_auth g = Some rg \<and> resolve_run_token (gt_sha g) token rg = Some rid \<and> rid \<noteq> []) \<or>
         token = gt_getenv g ''VIRGIL_DESKTOP_TOKEN'' \<and> 32 \<le> length token))"

text \<open>What a request that reaches a page holds, and how it asked.\<close>

definition entitled :: "gates \<Rightarrow> dependencies \<Rightarrow> string \<Rightarrow> string list \<Rightarrow> http_request \<Rightarrow> string option \<Rightarrow> core_page \<Rightarrow> bool" where
  "entitled g d m path rq cookie p \<longleftrightarrow>
    (if p \<in> {Chat, Responses} then m = ''POST'' \<and> hd path = ''v1'' \<and> caller_token g (bearer (hq_authorization rq))
     else if p = Messages then m = ''POST'' \<and> hd path = ''v1'' \<and>
       (if hq_api_key rq = [] then caller_token g (bearer (hq_authorization rq))
        else hq_authorization rq = [] \<and> caller_token g (bearer (''Bearer '' @ hq_api_key rq)))
     else if p = Tool_Results then m = ''POST'' \<and> hd path = ''v1'' \<and> caller_token g (Some (hq_app_token rq))
     else if p \<in> {Register_Run, Run_Signals, Run_Running, Run_Finish} then dp_control d \<and> take 2 path = [''api'', ''executions''] \<and>
       (\<exists>token. hq_authorization rq = ''Bearer '' @ token \<and> verify_credential (gt_sha g) (gt_control g) token)
     else if p \<in> {Models, Setup, Login (dp_password d), Logout, Root, Health}
       then m \<in> {''GET'', ''HEAD''} \<or> m = ''POST'' \<and> path \<in> {[''setup''], [''login''], [''logout'']}
     else m \<in> {''GET'', ''HEAD'', ''POST''} \<and> hd path = ''dashboard'' \<and> (dp_password d = [] \<or>
       (\<exists>c expires. cookie = Some c \<and> gt_sessions g c = Some expires \<and> gt_now g \<le> expires)))"

lemma passes_execution: "passes g rq cookie (Execution_Token h) \<Longrightarrow> caller_token g (presented_token h rq)"
  by (auto simp: passes_def authenticate_execution_def caller_token_def desktop_identity_def Let_def
      split: sum.splits if_splits option.splits)

lemma passes_messages:
  assumes "passes g rq cookie Messages_Token"
  shows "if hq_api_key rq = [] then caller_token g (bearer (hq_authorization rq))
    else hq_authorization rq = [] \<and> caller_token g (bearer (''Bearer '' @ hq_api_key rq))"
proof -
  let ?rq = "if hq_api_key rq \<noteq> [] then rq\<lparr>hq_authorization := ''Bearer '' @ hq_api_key rq\<rparr> else rq"
  have "hq_api_key rq = [] \<or> hq_authorization rq = []" and "passes g ?rq cookie (Execution_Token Authorization)"
    using assms by (auto simp: passes_def authenticate_messages_def split: if_splits sum.splits)
  with passes_execution [of g ?rq cookie Authorization] show ?thesis by (auto simp: presented_token_def split: if_splits)
qed

lemma passes_control:
  assumes "passes g rq cookie Control_Credential"
  shows "\<exists>token. hq_authorization rq = ''Bearer '' @ token \<and> verify_credential (gt_sha g) (gt_control g) token"
proof -
  obtain scheme token ok where c: "cut (CHR '' '') (hq_authorization rq) = (scheme, token, ok)" by (metis prod.exhaust)
  with assms have t: "ok" "scheme = ''Bearer''" "verify_credential (gt_sha g) (gt_control g) token"
    by (simp_all add: passes_def authenticate_def)
  obtain x rest where d: "dropWhile (\<lambda>x. x \<noteq> CHR '' '') (hq_authorization rq) = x # rest"
  proof (cases "dropWhile (\<lambda>x. x \<noteq> CHR '' '') (hq_authorization rq)")
    case Nil
    with c t(1) show ?thesis unfolding cut_def Nil by simp
  qed
  then have "x = CHR '' ''" by (simp add: dropWhile_eq_Cons_conv)
  moreover have "takeWhile (\<lambda>x. x \<noteq> CHR '' '') (hq_authorization rq) = ''Bearer''" "rest = token" using c d t(2) by (simp_all add: cut_def)
  ultimately have "hq_authorization rq = ''Bearer '' @ token"
    using takeWhile_dropWhile_id [of "\<lambda>x. x \<noteq> CHR '' ''" "hq_authorization rq"] d by simp
  with t(3) show ?thesis by blast
qed

lemma passes_panel: "passes g rq cookie (Panel_Session pw) \<Longrightarrow>
  pw = [] \<or> (\<exists>c expires. cookie = Some c \<and> gt_sessions g c = Some expires \<and> gt_now g \<le> expires)"
  by (auto simp: passes_def is_authed_def split: if_splits option.splits)

lemma path_matches_Cons: "path_matches r (p # ps) path \<longleftrightarrow> (\<exists>x xs. path = x # xs \<and> segment_matches p x \<and> path_matches r ps xs)"
  by (cases path) auto

lemma matches_get: "matches (get_path ps) m path \<longleftrightarrow> m \<in> {''GET'', ''HEAD''} \<and> path_matches False ps path"
  by (auto simp: matches_def method_matches_def get_path_def)

lemma matches_post: "matches (post_path ps) m path \<longleftrightarrow> m = ''POST'' \<and> path_matches False ps path"
  by (auto simp: matches_def method_matches_def post_path_def)

lemma matches_panel: "path_matches r (panel_path ps) path \<Longrightarrow> hd path = ''dashboard''"
  by (auto simp: panel_path_def path_matches_Cons)

lemma matches_one: "path_matches False [Lit a] path \<longleftrightarrow> path = [a]"
  by (auto simp: path_matches_Cons)

lemma matches_rest: "matches \<lparr>pt_method = ''GET'', pt_path = [], pt_rest = True\<rparr> m path \<longleftrightarrow> m \<in> {''GET'', ''HEAD''}"
  by (auto simp: matches_def method_matches_def)

lemmas route_simps = matches_def method_matches_def get_path_def post_path_def panel_path_def path_matches_Cons

lemmas route_handlers = unguarded_def with_execution_token_def with_messages_token_def with_panel_auth_def register_route_def
  running_route_def finish_route_def signals_route_def overview_route_def executions_route_def execution_route_def
  protections_route_def providers_route_def health_route_def settings_route_def placeholder_route_def redirect_route_def
  usage_route_def session_route_def event_route_def

text \<open>What is registered where, with which check.\<close>

lemma call_route_kind:
  assumes "r \<in> set call_routes" "matches (fst r) m path"
  shows "snd r = (Unguarded, Models) \<and> m \<in> {''GET'', ''HEAD''} \<or> m = ''POST'' \<and> hd path = ''v1'' \<and>
    snd r \<in> {(Execution_Token Authorization, Chat), (Execution_Token Authorization, Responses), (Messages_Token, Messages),
      (Execution_Token AppToken, Tool_Results)}"
  using assms by (auto simp: call_routes_def route_simps route_handlers)

lemma control_route_kind:
  assumes "r \<in> set (control_routes d)" "matches (fst r) m path"
  shows "dp_control d \<and> take 2 path = [''api'', ''executions''] \<and>
    snd r \<in> Pair Control_Credential ` {Register_Run, Run_Signals, Run_Running, Run_Finish}"
  using assms by (auto simp: control_routes_def route_simps route_handlers split: if_splits)

lemma setup_route_kind:
  assumes "r \<in> set (setup_routes d)" "matches (fst r) m path"
  shows "snd r = (Unguarded, Setup) \<and> (m \<in> {''GET'', ''HEAD''} \<or> m = ''POST'' \<and> path = [''setup''])"
  using assms by (auto simp: setup_routes_def route_simps route_handlers split: if_splits)

definition panel_pages :: "core_page set" where
  "panel_pages = {Overview, Executions, Execution_Page, Protections, Providers_Page, Health_Page, Settings_Page, Placeholder ''protections'',
     Placeholder ''providers'', Placeholder ''health'', Placeholder ''settings'', Usage, Session_Page, Run_Redirect, Event_Page}"

lemma panel_route_kind:
  assumes "r \<in> set (panel_routes d)" "matches (fst r) m path"
  shows "m \<in> {''GET'', ''HEAD'', ''POST''} \<and> hd path = ''dashboard'' \<and> snd r \<in> Pair (Panel_Session (dp_password d)) ` panel_pages \<or>
    snd r \<in> Pair Unguarded ` {Login (dp_password d), Logout, Root, Health} \<and>
      (m \<in> {''GET'', ''HEAD''} \<or> m = ''POST'' \<and> path \<in> {[''login''], [''logout'']})"
  using assms unfolding panel_routes_def Let_def route_handlers
  by (auto simp: matches_get matches_post matches_rest matches_one panel_pages_def dest: matches_panel split: if_splits)

lemma route_entitled:
  assumes "r \<in> set (call_routes @ control_routes d @ setup_routes d @ panel_routes d)" "matches (fst r) m path"
    and p: "passes g rq cookie (fst (snd r))"
  shows "entitled g d m path rq cookie (snd (snd r))"
proof -
  consider "r \<in> set call_routes" | "r \<in> set (control_routes d)" | "r \<in> set (setup_routes d)" | "r \<in> set (panel_routes d)"
    using assms(1) by auto
  then show ?thesis
  proof cases
    case 1
    have t: "passes g rq cookie (Execution_Token Authorization) \<Longrightarrow> caller_token g (bearer (hq_authorization rq))"
      "passes g rq cookie (Execution_Token AppToken) \<Longrightarrow> caller_token g (Some (hq_app_token rq))"
      using passes_execution [of g rq cookie Authorization] passes_execution [of g rq cookie AppToken]
      by (simp_all add: presented_token_def)
    from call_route_kind [OF 1 assms(2)] p t passes_messages [of g rq cookie] show ?thesis
      by (elim disjE conjE insertE) (auto simp: entitled_def)
  next
    case 2
    from control_route_kind [OF this assms(2)] p passes_control [of g rq cookie] show ?thesis
      by (elim conjE imageE insertE) (simp_all add: entitled_def)
  next
    case 3
    from setup_route_kind [OF this assms(2)] show ?thesis by (auto simp: entitled_def)
  next
    case 4
    from panel_route_kind [OF this assms(2)] consider
      q where "snd r = (Panel_Session (dp_password d), q)" "q \<in> panel_pages" "m \<in> {''GET'', ''HEAD'', ''POST''}" "hd path = ''dashboard''"
    | q where "snd r = (Unguarded, q)" "q \<in> {Login (dp_password d), Logout, Root, Health}"
        "m \<in> {''GET'', ''HEAD''} \<or> m = ''POST'' \<and> path \<in> {[''login''], [''logout'']}" by blast
    then show ?thesis
    proof cases
      case 1
      have "q \<notin> {Chat, Responses, Messages, Tool_Results, Register_Run, Run_Signals, Run_Running, Run_Finish, Models, Setup,
          Login (dp_password d), Logout, Root, Health}"
        using 1(2) unfolding panel_pages_def by (elim insertE) simp_all
      with 1 passes_panel [of g rq cookie "dp_password d"] p show ?thesis by (simp add: entitled_def)
    next
      case 2
      from 2(2) have "q \<notin> {Chat, Responses, Messages, Tool_Results, Register_Run, Run_Signals, Run_Running, Run_Finish}"
        "q \<in> {Models, Setup, Login (dp_password d), Logout, Root, Health}" by auto
      with 2(1,3) show ?thesis by (auto simp: entitled_def)
    qed
  qed
qed

text \<open>The checks are those the handlers make themselves: a control handler answers 401 and changes nothing exactly when the
  check refuses, and the forms of the panel redirect to the login.\<close>

lemma control_checks:
  assumes "\<not> passes g rq cookie Control_Credential"
  shows "register_handler (gt_sha g) (gt_control g) now raw_id raw_run raw_signal (hq_authorization rq) body rg j = (http_error ''unauthorized'' 401, rg, j)"
    and "running_handler (gt_sha g) (gt_control g) (hq_authorization rq) body' rid j = (http_error ''unauthorized'' 401, j)"
    and "finish_handler (gt_sha g) (gt_control g) now (hq_authorization rq) body'' rid rg j = (http_error ''unauthorized'' 401, rg, j)"
    and "signals_handler (gt_sha g) (gt_control g) marshal (hq_authorization rq) rid token inputs rg = (Inl (http_error ''unauthorized'' 401), rg)"
  using assms by (simp_all add: passes_def register_handler_def running_handler_def finish_handler_def signals_handler_def)

lemma panel_checks:
  assumes "\<not> passes g rq (pr_cookie rp) (Panel_Session (pw_password w))" "gt_sessions g = pl_sessions p" "gt_now g = now"
  shows "fst (require_panel_auth now (pw_password w) rp page p) = Redirected ''/login''"
  using assms by (auto simp: passes_def require_panel_auth_def split: prod.splits)

text \<open>C39: No two routes of the core conflict, so that its start does not panic and the handler of a request does not
  depend on the order of registration, and a request is dispatched whenever a pattern matches it. A request that reaches a
  page has passed the check in front of it: a call of the gateway presents, in the header of its endpoint, the token of a
  live run or of the desktop application; a request of the control protocol, which exists only with a control handler,
  presents the control credential; a page of the panel is shown to a session that has not run out. What is left is answered to anybody
  and only reads, or sets up, logs in or out. The exceptions are those of the code: a panel without a password is open, and so are the
  calls of a gateway without a registry of runs and without a desktop token.\<close>

theorem routes_are_unambiguous:
  assumes "new_server cfg d r = Inr (gw, rs)"
  shows "registered rs \<and> (\<forall>rs'. set rs' = set rs \<longrightarrow> dispatch rs' m path = dispatch rs m path) \<and>
    (answer_route g rs m path rq cookie = No_Route \<longleftrightarrow> (\<forall>q \<in> set rs. \<not> matches (fst q) m path)) \<and>
    (\<forall>p. answer_route g rs m path rq cookie = Reached p \<longrightarrow> entitled g d m path rq cookie p)"
proof -
  note reg = new_server_registered [OF assms]
  have rs: "rs = call_routes @ control_routes d @ setup_routes d @ panel_routes d"
    using assms by (auto simp: new_server_def rbind_Inr_iff split: if_splits)
  have "dispatch rs m path = None \<longleftrightarrow> (\<forall>q \<in> set rs. \<not> matches (fst q) m path)"
    using best_exists [OF reg] dispatch_None dispatch_Some unfolding best_def by (metis option.exhaust)
  moreover have "answer_route g rs m path rq cookie = No_Route \<longleftrightarrow> dispatch rs m path = None"
    by (auto simp: answer_route_def split: option.splits if_splits)
  moreover have "entitled g d m path rq cookie p" if "answer_route g rs m path rq cookie = Reached p" for p
  proof -
    from that obtain x where x: "dispatch rs m path = Some (x, p)" "passes g rq cookie x"
      by (auto simp: answer_route_def split: option.splits if_splits)
    from dispatch_Some [OF x(1)] obtain pt where "(pt, x, p) \<in> set rs" "matches pt m path" unfolding best_def by auto
    with route_entitled [of "(pt, x, p)" d m path g rq cookie] x(2) show ?thesis unfolding rs by simp
  qed
  ultimately show ?thesis using reg dispatch_order [OF reg] by metis
qed

definition sample_dependencies :: dependencies where
  "sample_dependencies = \<lparr>dp_db = True, dp_policy = True, dp_recorder = JournalRecorder, dp_config_path = ''c'', dp_password = ''pw'',
     dp_control = True, dp_settings = True, dp_applied_hash = ''h''\<rparr>"

definition sample_gates :: gates where
  "sample_gates = \<lparr>gt_sha = id, gt_getenv = (\<lambda>_. []), gt_auth = Some new_registry, gt_control = new_credential id ''secret'', gt_now = 5,
     gt_sessions = [''tok'' \<mapsto> 9]\<rparr>"

definition sample_headers :: http_request where
  "sample_headers = \<lparr>hq_path = [], hq_authorization = [], hq_api_key = [], hq_app_token = [], hq_run_id = [], hq_session = [], hq_traceparent = []\<rparr>"

lemma routes_are_unambiguous_witness:
  "\<exists>rs. new_server sample_loaded sample_dependencies (Inr ()) = Inr ((), rs) \<and>
     answer_route sample_gates rs ''POST'' [''dashboard'', ''providers''] sample_headers (Some ''tok'') = Reached Providers_Page \<and>
     entitled sample_gates sample_dependencies ''POST'' [''dashboard'', ''providers''] sample_headers (Some ''tok'') Providers_Page \<and>
     answer_route sample_gates rs ''POST'' [''v1'', ''chat'', ''completions''] sample_headers None \<noteq> Reached Chat"
proof -
  let ?rs = "call_routes @ control_routes sample_dependencies @ setup_routes sample_dependencies @ panel_routes sample_dependencies"
  have n: "new_server sample_loaded sample_dependencies (Inr ()) = Inr ((), ?rs)"
    by (simp add: new_server_def sample_dependencies_def)
  have none: "bearer [] = None" by code_simp
  have "answer_route sample_gates ?rs ''POST'' [''dashboard'', ''providers''] sample_headers (Some ''tok'') = Reached Providers_Page"
    "\<not> entitled sample_gates sample_dependencies ''POST'' [''v1'', ''chat'', ''completions''] sample_headers None Chat"
    by code_simp (simp add: entitled_def caller_token_def sample_gates_def sample_headers_def none)
  with routes_are_unambiguous [OF n] n show ?thesis by blast
qed

text \<open>With a control plane the recorder of the core is not the journal itself: the pages that link to an event link to a
  route that does not exist.\<close>

lemma event_routes:
  assumes "r \<in> set (call_routes @ control_routes d @ setup_routes d @ panel_routes d)"
    "matches (fst r) ''GET'' [''dashboard'', ''event'', e]" "dp_recorder d \<noteq> JournalRecorder"
  shows "snd r = unguarded Root"
proof -
  have no: "\<not> matches (post_path ps) ''GET'' path" "matches (get_path ps) ''GET'' path \<longleftrightarrow> path_matches False ps path" for ps path
    by (simp_all add: matches_get matches_post)
  have "path_matches False (panel_path ps) [''dashboard'', ''event'', e] \<longleftrightarrow> path_matches False ps [''event'', e]" for ps
    by (simp add: panel_path_def)
  with assms no show ?thesis
    by (auto simp: call_routes_def control_routes_def setup_routes_def panel_routes_def Let_def split: if_splits)
qed

lemma event_page_needs_journal:
  assumes "new_server cfg d r = Inr (gw, rs)" "dp_recorder d \<noteq> JournalRecorder"
  shows "dispatch rs ''GET'' [''dashboard'', ''event'', e] = Some (unguarded Root)"
proof -
  have rs: "rs = call_routes @ control_routes d @ setup_routes d @ panel_routes d"
    using assms by (auto simp: new_server_def rbind_Inr_iff split: if_splits)
  have "(\<lparr>pt_method = ''GET'', pt_path = [], pt_rest = True\<rparr>, unguarded Root) \<in> set rs" by (simp add: rs panel_routes_def Let_def)
  from best_exists [OF new_server_registered [OF assms(1)] this, of "''GET''" "[''dashboard'', ''event'', e]"]
  obtain q where "best rs ''GET'' [''dashboard'', ''event'', e] q" by (auto simp: matches_def method_matches_def)
  then obtain h where h: "dispatch rs ''GET'' [''dashboard'', ''event'', e] = Some h" using dispatch_None by (metis option.exhaust)
  from dispatch_Some [OF h] obtain pt where "(pt, h) \<in> set rs" "matches pt ''GET'' [''dashboard'', ''event'', e]"
    unfolding best_def by auto
  with event_routes [of "(pt, h)" d e] assms(2) have "h = unguarded Root" unfolding rs by simp
  with h show ?thesis by simp
qed

section \<open>The two health reports\<close>

text \<open>\<open>/health\<close> and the health page say the same of a pending restart when the applied hash is known; when it is not, the
  page asks for a restart and the endpoint does not.\<close>

lemma health_reports:
  assumes "has_settings d" "pending = Inr h" "h \<noteq> []" "fst (health_handler (dp_applied_hash d) pending ping j) = Inr (Inr page)"
  shows "ha_restart (health_of d pending ping) = (dp_applied_hash d \<noteq> [] \<and> hl_restart page)"
    and "dp_applied_hash d = [] \<Longrightarrow> hl_restart page"
  using assms by (auto simp: health_of_def health_handler_def Let_def split: sum.splits prod.splits)

text \<open>The core passes the checks of \<open>NewServer\<close>, and with a control plane its event pages do not exist.\<close>

lemma core_passes_checks:
  "new_server cfg (core_dependencies cfg path hash cred) r = rbind r (\<lambda>gw. Inr (gw, call_routes @
     control_routes (core_dependencies cfg path hash cred) @ setup_routes (core_dependencies cfg path hash cred) @
     panel_routes (core_dependencies cfg path hash cred)))"
  by (simp add: new_server_def core_dependencies_def)

lemma control_plane_hides_event_pages:
  assumes "cc_enabled (cf_control_plane cfg)" "new_server cfg (core_dependencies cfg path hash cred) r = Inr (gw, rs)"
  shows "dispatch rs ''GET'' [''dashboard'', ''event'', e] = Some (unguarded Root)"
  using event_page_needs_journal [OF assms(2)] assms(1) by (simp add: core_dependencies_def)

end
