(* ===== verification/Command_Line.thy ===== *)
theory Command_Line
  imports Core_Startup Export Runner
begin

text \<open>
  The command line of \<open>cmd/virgil\<close>: the choice of the command, where the configuration is found, and the commands
  \<open>run\<close> (with \<open>NewControlClient\<close> of \<open>internal/runner/control_client.go\<close>), \<open>events export\<close>, \<open>tail\<close> and \<open>init\<close>.
  The flags are given as parsed. The theorems show what a zero exit code of \<open>virgil run\<close> means, what its child is
  given, and that the configuration \<open>virgil init\<close> writes admits no call.
\<close>

section \<open>The command\<close>

datatype command = Core_Command | Run_Command | Events_Command | Init_Command | Tail_Command | Version_Command

definition classify_command :: "string list \<Rightarrow> (command \<times> string list) res" where
  "classify_command args = (case args of
     [] \<Rightarrow> Inr (Core_Command, args)
   | a # rest \<Rightarrow> (if a = [] \<or> hd a = CHR ''-'' then Inr (Core_Command, args)
      else if a = ''serve'' then Inr (Core_Command, rest)
      else if a = ''run'' then Inr (Run_Command, rest)
      else if a = ''events'' then Inr (Events_Command, rest)
      else if a = ''init'' then Inr (Init_Command, rest)
      else if a = ''tail'' then Inr (Tail_Command, rest)
      else if a = ''version'' then Inr (Version_Command, rest)
      else Inl (Errorf (''unknown command: '' @ a @ '' (available: serve, run, events, init, tail, version)''))))"

text \<open>\<open>configPathFrom\<close>: \<open>join\<close>, \<open>dir\<close> and \<open>is_abs\<close> are those of \<open>path/filepath\<close>, \<open>is_file\<close> asks for a file that is not a directory.\<close>

definition config_path_from :: "(string \<Rightarrow> bool) \<Rightarrow> (string \<Rightarrow> string \<Rightarrow> string) \<Rightarrow> (string \<Rightarrow> string) \<Rightarrow> (string \<Rightarrow> bool) \<Rightarrow>
    string \<Rightarrow> string \<Rightarrow> string res" where
  "config_path_from is_abs join dir is_file home executable =
     (if home \<noteq> [] then
        (if \<not> is_abs home then Inl (Errorf ''VIRGIL_HOME must be an absolute path'') else Inr (join home ''virgil.toml''))
      else if executable \<noteq> [] \<and> is_file (join (dir executable) ''virgil.toml'') then Inr (join (dir executable) ''virgil.toml'')
      else Inr ''virgil.toml'')"

section \<open>The control client\<close>

text \<open>A parsed address with its path, and \<open>net.SplitHostPort\<close>.\<close>

record control_url = url +
  ur_path :: string
  ur_text :: string

record address_world =
  aw_parse :: "string \<Rightarrow> control_url option"
  aw_split :: "string \<Rightarrow> (string \<times> string) option"
  aw_ip :: "string \<Rightarrow> ip option"

text \<open>The base address and the credential of a client.\<close>

definition new_control_client :: "address_world \<Rightarrow> string \<Rightarrow> string \<Rightarrow> (string \<times> string) res" where
  "new_control_client w address cred = (case aw_parse w address of
     None \<Rightarrow> Inl (Errorf ''control address must be an HTTP loopback URL'')
   | Some u \<Rightarrow>
     (if ur_scheme u \<noteq> ''http'' \<or> ur_user u \<or> ur_query u \<noteq> [] \<or> ur_fragment u \<noteq> [] \<or> ur_path u \<noteq> [] \<and> ur_path u \<noteq> ''/''
      then Inl (Errorf ''control address must be an HTTP loopback URL'')
      else (case aw_split w (ur_host u) of
        None \<Rightarrow> Inl (Errorf ''control address must include a loopback port'')
      | Some (host, port) \<Rightarrow>
          (if port = [] then Inl (Errorf ''control address must include a loopback port'')
           else if (case aw_ip w host of None \<Rightarrow> True | Some i \<Rightarrow> \<not> is_loopback i)
             then Inl (Errorf ''control address must use a loopback IP'')
           else if cred = [] then Inl (Errorf ''control credential is required'')
           else Inr (trim_suffix (ur_text u) ''/'', cred)))))"

text \<open>\<open>OpenBrowser\<close> of \<open>internal/app/browser.go\<close> opens local addresses of the panel only.\<close>

record panel_url = control_url +
  ur_opaque :: string
  ur_raw_path :: string

definition validate_panel_url :: "(string \<Rightarrow> panel_url option) \<Rightarrow> (string \<Rightarrow> ip option) \<Rightarrow> string \<Rightarrow> unit res" where
  "validate_panel_url parse parse_ip text = (case parse text of
     None \<Rightarrow> Inl (Errorf ''invalid local panel URL'')
   | Some u \<Rightarrow>
     (if ur_scheme u \<noteq> ''http'' \<or> ur_host u = [] \<or> ur_user u \<or> ur_opaque u \<noteq> [] \<or> ur_query u \<noteq> [] \<or> ur_fragment u \<noteq> [] \<or>
         ur_raw_path u \<noteq> [] then Inl (Errorf ''invalid local panel URL'')
      else if (case parse_ip (ur_hostname u) of None \<Rightarrow> True | Some i \<Rightarrow> \<not> is_loopback i)
        then Inl (Errorf ''panel URL must use a loopback host'')
      else if ur_path u \<noteq> ''/dashboard'' \<and> \<not> has_prefix (ur_path u) ''/dashboard/'' then Inl (Errorf ''panel URL must use /dashboard'')
      else Inr ()))"

section \<open>virgil run\<close>

record run_flags =
  fl_address :: string
  fl_run_id :: string
  fl_deadline :: int
  fl_env :: string
  fl_args :: "string list"

text \<open>The pairs of \<open>--env\<close>; a later one replaces an earlier one of the same name.\<close>

fun env_pairs :: "string list \<Rightarrow> (string \<times> string) list \<Rightarrow> (string \<times> string) list res" where
  "env_pairs [] out = Inr out"
| "env_pairs (pair # ps) out = (case cut (CHR ''='') (trim_space pair) of (k, v, ok) \<Rightarrow>
     if \<not> ok \<or> k = [] then Inl (Errorf ''invalid --env entry: expected KEY=VALUE'') else env_pairs ps (map_put k v out))"

definition extra_env :: "string \<Rightarrow> (string \<times> string) list res" where
  "extra_env flag = (if flag = [] then Inr [] else env_pairs (split_on (CHR '','') flag) [])"

definition core_address :: "run_flags \<Rightarrow> config \<Rightarrow> string" where
  "core_address fl cfg = (let a = (if fl_address fl = [] then sc_listen (cf_server cfg) else fl_address fl) in
     if \<not> contains a ''://'' then ''http://'' @ a else a)"

definition provider_env :: "config \<Rightarrow> string list" where
  "provider_env cfg = filter (\<lambda>n. n \<noteq> []) (map (\<lambda>(n, p). pc_key_env p) (cf_providers cfg))"

text \<open>\<open>runRun\<close> up to \<open>Supervise\<close>: the client's address and credential, and what is to be run. \<open>config\<close> is what
  \<open>config.Load\<close> answers, \<open>contents\<close> what reading the credential file answers.\<close>

definition prepare_run :: "address_world \<Rightarrow> run_flags \<Rightarrow> config res \<Rightarrow> string res \<Rightarrow> ((string \<times> string) \<times> run_spec) res" where
  "prepare_run w fl cfg_res contents =
     (if fl_args fl = [] then Inl (Errorf ''usage: virgil run [flags] -- <command> [args...]'')
      else if fl_deadline fl < 0 then Inl (Errorf ''--deadline cannot be negative'')
      else rbind (extra_env (fl_env fl)) (\<lambda>env.
        rbind cfg_res (\<lambda>cfg.
        rbind (runner_credential contents) (\<lambda>cred.
        rbind (new_control_client w (core_address fl cfg) cred) (\<lambda>client.
        Inr (client, \<lparr>sp_command = fl_args fl, sp_env = env, sp_provider_env = provider_env cfg, sp_run_id = fl_run_id fl,
          sp_gateway_url = fst client, sp_deadline = fl_deadline fl\<rparr>))))))"

definition run_exit_code :: "execution_summary \<Rightarrow> int" where
  "run_exit_code s = (case sm_exit_code s of None \<Rightarrow> 1 | Some n \<Rightarrow>
     if n < 0 then 1 else if n \<noteq> 0 then n else if sm_state s \<noteq> StateCompleted then 1 else n)"

text \<open>The exit code of the process: \<open>main\<close> exits with 1 on any error. \<open>outcome\<close> is what \<open>Supervise\<close> answers.\<close>

definition run_result_code :: "execution_summary option \<times> goerr option \<Rightarrow> int" where
  "run_result_code outcome = (case outcome of
     (_, Some e) \<Rightarrow> 1
   | (None, None) \<Rightarrow> 1
   | (Some s, None) \<Rightarrow> (if sm_exit_code s = None then 1 else run_exit_code s))"

definition run_command ::
  "address_world \<Rightarrow> (string \<Rightarrow> string \<Rightarrow> 'w control_client) \<Rightarrow> (run_spec \<Rightarrow> goerr option) \<Rightarrow> supervisor_event list \<Rightarrow>
   goerr option \<Rightarrow> process_result \<Rightarrow> ('w \<Rightarrow> 'w) \<Rightarrow> run_flags \<Rightarrow> config res \<Rightarrow> string res \<Rightarrow> 'w \<Rightarrow> (int \<times> 'w) option" where
  "run_command w connect start events term_err waited meanwhile fl cfg contents x =
     (case prepare_run w fl cfg contents of Inl e \<Rightarrow> Some (1, x)
      | Inr ((base, cred), spec) \<Rightarrow>
        map_option (\<lambda>(outcome, x'). (run_result_code outcome, x')) (supervise (connect base cred) start events term_err waited meanwhile spec x))"

section \<open>virgil events export\<close>

fun split_fields :: "string \<Rightarrow> string \<Rightarrow> string list" where
  "split_fields cur [] = [cur]"
| "split_fields cur (c # s) = (if c = CHR '','' then cur # split_fields [] s else split_fields (cur @ [c]) s)"

text \<open>The flags of the export, checked; then the configuration, the database and \<open>export.JSONL\<close>.\<close>

definition export_fields :: "string list \<Rightarrow> string \<Rightarrow> string \<Rightarrow> string \<Rightarrow> string \<Rightarrow> string list res" where
  "export_fields args config_path format output field_flag =
     (if args = [] \<or> hd args \<noteq> ''export'' then Inl (Errorf ''usage: virgil events export --config <path> --format jsonl --output <path> --fields <f1,f2,...>'')
      else if config_path = [] then Inl (Errorf ''--config is required'')
      else if format \<noteq> ''jsonl'' then Inl (Errorf ''--format must be jsonl'')
      else if output = [] then Inl (Errorf ''--output is required'')
      else (let al = (if field_flag \<noteq> [] then filter (\<lambda>f. f \<noteq> []) (split_fields [] field_flag) else []) in
        if al = [] then Inl (Errorf ''--fields is required'') else Inr al))"

definition run_events :: "string list \<Rightarrow> string \<Rightarrow> string \<Rightarrow> string \<Rightarrow> string \<Rightarrow> unit res \<Rightarrow> nat \<Rightarrow> ((string \<rightharpoonup> json) \<Rightarrow> 'l res) \<Rightarrow>
    goerr option \<Rightarrow> ('l list \<Rightarrow> goerr option) \<Rightarrow> goerr option \<Rightarrow> journal \<Rightarrow> (('l list \<times> goerr option) \<times> journal) option" where
  "run_events args config_path format output field_flag opened fuel marshal create wr flush j =
     (case rbind (export_fields args config_path format output field_flag) (\<lambda>al. rbind opened (\<lambda>_. Inr al)) of
        Inl e \<Rightarrow> Some (([], Some e), j)
      | Inr al \<Rightarrow> jsonl fuel marshal create wr flush output al j)"

section \<open>virgil tail\<close>

definition tail_count :: "int \<Rightarrow> int" where
  "tail_count n = (let m = (if n < 1 then 1 else n) in if m > 1000 then 1000 else m)"

definition tail_latency :: "event \<Rightarrow> string" where
  "tail_latency ev = (if ev_latency_ms ev > 0 then show_int (ev_latency_ms ev) @ ''ms'' else [])"

definition tail_cost :: "event \<Rightarrow> string" where
  "tail_cost ev = (case ev_actual_cost ev of
     Some c \<Rightarrow> (if c \<noteq> [] then c else case ev_estimated_cost ev of Some d \<Rightarrow> if d \<noteq> [] then ''~'' @ d else [] | None \<Rightarrow> [])
   | None \<Rightarrow> (case ev_estimated_cost ev of Some d \<Rightarrow> if d \<noteq> [] then ''~'' @ d else [] | None \<Rightarrow> []))"

text \<open>A line of the text format; \<open>stamp\<close> formats a time.\<close>

definition tail_line :: "(time \<Rightarrow> string) \<Rightarrow> event \<Rightarrow> string" where
  "tail_line stamp ev = stamp (ev_created_at ev) @ '' '' @ ev_provider ev @ ''/'' @ ev_requested_model ev @ '' '' @
     ev_status ev @ '' '' @ tail_latency ev @ '' '' @ tail_cost ev"

definition run_tail :: "(time \<Rightarrow> string) \<Rightarrow> (event \<Rightarrow> string) \<Rightarrow> int \<Rightarrow> string \<Rightarrow> unit res \<Rightarrow> string list sql" where
  "run_tail stamp marshal n format opened =
     (if format \<noteq> ''text'' \<and> format \<noteq> ''json'' then fail (Errorf ''--format must be text or json'')
      else bindE (of_res opened) (\<lambda>_. bindE (list_recent (tail_count n)) (\<lambda>evs.
        ret (map (if format = ''json'' then marshal else tail_line stamp) evs))))"

section \<open>virgil init\<close>

text \<open>The guardrails of the template.\<close>

definition init_guardrails :: guardrails_config where
  "init_guardrails = \<lparr>gr_max_requests = 100, gr_max_cost = ''1.00'', gr_max_input = 0, gr_max_output = 0, gr_max_total = 200000,
     gr_max_duration = 0, gr_max_tools = 0, gr_providers = [], gr_models = [], gr_tools = [], gr_est_cost = [], gr_est_input = 0,
     gr_est_output = 0, gr_max_calls_day = 500, gr_max_cost_day = ''10.00''\<rparr>"

text \<open>The file is written only when there was none; \<open>left\<close> is what a failed write leaves.\<close>

definition run_init :: "string \<Rightarrow> unit res \<Rightarrow> unit res \<Rightarrow> string option \<Rightarrow> string option \<Rightarrow> unit res \<times> string option" where
  "run_init template mkdir write left stored =
     (if stored \<noteq> None then (Inl (Errorf ''already exists; delete it or use --output to choose a different path''), stored)
      else (case failing ''create config directory'' mkdir of Inl e \<Rightarrow> (Inl e, stored) | Inr _ \<Rightarrow>
        (case failing ''write config'' write of Inl e \<Rightarrow> (Inl e, left) | Inr _ \<Rightarrow> (Inr (), Some template))))"

section \<open>What virgil run promises\<close>

lemma env_pairs_names:
  assumes "env_pairs ps out = Inr env" "\<forall>(k, v) \<in> set out. k \<noteq> [] \<and> CHR ''='' \<notin> set k"
  shows "\<forall>(k, v) \<in> set env. k \<noteq> [] \<and> CHR ''='' \<notin> set k"
  using assms
proof (induction ps arbitrary: out)
  case (Cons pair ps)
  obtain k v ok where c: "cut (CHR ''='') (trim_space pair) = (k, v, ok)" by (cases "cut (CHR ''='') (trim_space pair)")
  with Cons.prems have ok: "ok" "k \<noteq> []" and r: "env_pairs ps (map_put k v out) = Inr env" by (auto split: if_splits)
  have "CHR ''='' \<notin> set k" using c ok by (auto simp: cut_def dest: set_takeWhileD split: list.splits)
  then have "\<forall>(k, v) \<in> set (map_put k v out). k \<noteq> [] \<and> CHR ''='' \<notin> set k"
    using Cons.prems(2) ok(2) by (auto simp: map_put_def)
  from Cons.IH [OF r this] show ?case .
qed simp

lemma run_exit_zero: "run_result_code outcome = 0 \<Longrightarrow>
  \<exists>s. outcome = (Some s, None) \<and> sm_exit_code s = Some 0 \<and> sm_state s = StateCompleted"
  by (cases outcome) (auto simp: run_result_code_def run_exit_code_def split: option.splits if_splits)

lemma control_client_loopback:
  "new_control_client w a cred = Inr (base, c) \<Longrightarrow> c = cred \<and> (\<exists>u host port i. aw_parse w a = Some u \<and> ur_scheme u = ''http'' \<and>
     aw_split w (ur_host u) = Some (host, port) \<and> aw_ip w host = Some i \<and> is_loopback i)"
  by (auto simp: new_control_client_def split: option.splits prod.splits if_splits)

lemma provider_env_withheld:
  assumes "(n, p) \<in> set (cf_providers cfg)" "pc_key_env p \<noteq> []" "sp_provider_env spec = provider_env cfg"
    "kv \<in> set (inherited_env spec raw)"
  shows "env_key kv \<noteq> pc_key_env p"
proof
  assume k: "env_key kv = pc_key_env p"
  have "pc_key_env p \<in> set (sp_provider_env spec)" using assms(1-3) by (force simp: provider_env_def)
  then have "list_ex (equal_fold (env_key kv)) (sp_provider_env spec)"
    using k by (auto simp: list_ex_iff equal_fold_def)
  with assms(4) show False by (simp add: inherited_env_def)
qed

lemma supervise_success:
  assumes "supervise cl start events term_err waited meanwhile spec w = Some ((Some sm, None), w')"
  obtains reg w1 w2 s where "cl_register cl (sp_run_id spec) w = (Inr reg, w1)" "cl_signals cl reg w1 = (None, w2)"
    "start (supervised_spec spec reg) = None" "supervise_loop events start_supervision = Some s"
    "finish_with_retry (cl_finish cl (rn_run_id reg)) (stop_child term_err waited s) (meanwhile w2) = (Inr sm, w')"
  using assms that by (auto simp: supervise_def Let_def split: if_splits sum.splits prod.splits option.splits)

text \<open>A supervised run that is answered as completed, over a core.\<close>

lemma supervised_completion:
  assumes run: "supervise (core_client sha c started now raw_id raw_run raw_signal lost cred) start events term_err waited meanwhile spec w =
      Some ((Some sm, None), w')"
    and key: "executions_ok (tbl (snd w))" "\<forall>y. executions_ok (tbl (snd y)) \<longrightarrow> executions_ok (tbl (snd (meanwhile y)))"
    and sm: "sm_state sm = StateCompleted"
  shows "\<exists>p y. ProcessDone p \<in> set events \<and> ps_exit_code p = 0 \<and> \<not> ps_failed p \<and> (\<exists>a b. MarkDone None a b \<in> set events) \<and>
    select_execution (sm_run_id sm) (tbl (snd w')) = Some y \<and> ex_state y = StateCompleted \<and> ex_exit_code y = sm_exit_code sm \<and>
    (sp_run_id spec \<noteq> [] \<longrightarrow> sm_run_id sm = sp_run_id spec)"
proof -
  let ?cl = "core_client sha c started now raw_id raw_run raw_signal lost cred"
  obtain reg w1 w2 s where reg: "core_register sha c started raw_id raw_run raw_signal cred (sp_run_id spec) w = (Inr reg, w1)"
    and sig: "core_signals sha c lost cred reg w1 = (None, w2)" and loop: "supervise_loop events start_supervision = Some s"
    and fin: "finish_with_retry (cl_finish ?cl (rn_run_id reg)) (stop_child term_err waited s) (meanwhile w2) = (Inr sm, w')"
    by (rule supervise_success [OF run]) (simp add: core_client_def)
  have "executions_ok (tbl (snd (meanwhile w2)))"
    using core_register_keeps(1) [OF reg key(1)] core_signals_keeps [OF sig] key(2) by metis
  from core_retry_recorded [OF fin this] obtain y where id: "sm_run_id sm = rn_run_id reg"
    and y: "select_execution (rn_run_id reg) (tbl (snd w')) = Some y" "sm = execution_summary_of (scan_execution y)"
      "closes_row y (fq_exit_code (sv_report (stop_child term_err waited s))) (fq_state (sv_report (stop_child term_err waited s)))" by blast
  have st: "ex_state y = StateCompleted" "ex_exit_code y = sm_exit_code sm"
    using sm y(2) by (simp_all add: execution_summary_of_def scan_execution_def)
  then have "fq_state (sv_report (stop_child term_err waited s)) = state_name StateCompleted"
    using y(3) by (auto simp: closes_row_def)
  then have "fq_state (sv_report s) = state_name StateCompleted"
    using stop_child_completed supervise_loop_ok [OF loop start_supervision_ok(1)] by blast
  from completed_by_exit [OF loop this] st y(1) id core_register_keeps(2) [OF reg refl] show ?thesis by auto
qed

text \<open>C40: When \<open>virgil run\<close> exits with zero against a core, its child really succeeded: it exited by itself with exit
  code zero and no error of the wait, after the core had confirmed that it runs, and the run was neither blocked nor
  stopped. The execution row that the core keeps of the run, under the id that was asked for if one was, is completed with
  exit code zero. The credential was sent to a loopback address only and is one the core accepts the form of, and the
  child inherits no variable that the configuration names as the key of a provider. What happens meanwhile is arbitrary
  but keeps the primary key of the executions.\<close>

theorem zero_exit_means_completed:
  assumes run: "run_command w (\<lambda>base. core_client sha c started now raw_id raw_run raw_signal lost) start events term_err waited
      meanwhile fl (Inr cfg) contents x = Some (0, x')"
    and key: "executions_ok (tbl (snd x))" "\<forall>y. executions_ok (tbl (snd y)) \<longrightarrow> executions_ok (tbl (snd (meanwhile y)))"
  shows "(\<exists>p. ProcessDone p \<in> set events \<and> ps_exit_code p = 0 \<and> \<not> ps_failed p) \<and> (\<exists>a b. MarkDone None a b \<in> set events) \<and>
    (\<exists>rid y. select_execution rid (tbl (snd x')) = Some y \<and> ex_state y = StateCompleted \<and> ex_exit_code y = Some 0 \<and>
       (fl_run_id fl \<noteq> [] \<longrightarrow> rid = fl_run_id fl)) \<and>
    (\<exists>base cred spec u host port i. prepare_run w fl (Inr cfg) contents = Inr ((base, cred), spec) \<and>
       contents = Inr cred \<and> valid_credential cred \<and>
       aw_parse w (core_address fl cfg) = Some u \<and> aw_split w (ur_host u) = Some (host, port) \<and> aw_ip w host = Some i \<and> is_loopback i \<and>
       (\<forall>raw. \<forall>kv \<in> set (inherited_env spec raw). \<forall>(n, p) \<in> set (cf_providers cfg). pc_key_env p \<noteq> [] \<longrightarrow> env_key kv \<noteq> pc_key_env p) \<and>
       (\<forall>(k, v) \<in> set (sp_env spec). k \<noteq> [] \<and> CHR ''='' \<notin> set k))"
proof -
  obtain base cred spec where p: "prepare_run w fl (Inr cfg) contents = Inr ((base, cred), spec)"
    using run by (auto simp: run_command_def split: sum.splits)
  then obtain o' where o: "supervise (core_client sha c started now raw_id raw_run raw_signal lost cred) start events term_err waited meanwhile spec x =
      Some (o', x')" "run_result_code o' = 0" using run by (auto simp: run_command_def)
  from run_exit_zero [OF o(2)] obtain s where s: "o' = (Some s, None)" "sm_exit_code s = Some 0" "sm_state s = StateCompleted" by blast
  have rid: "sp_run_id spec = fl_run_id fl" using p by (auto simp: prepare_run_def rbind_Inr_iff split: if_splits)
  from supervised_completion [OF o(1) [unfolded s(1)] key s(3)] s(2) rid
  have finished: "(\<exists>p. ProcessDone p \<in> set events \<and> ps_exit_code p = 0 \<and> \<not> ps_failed p) \<and> (\<exists>a b. MarkDone None a b \<in> set events) \<and>
    (\<exists>rid y. select_execution rid (tbl (snd x')) = Some y \<and> ex_state y = StateCompleted \<and> ex_exit_code y = Some 0 \<and>
       (fl_run_id fl \<noteq> [] \<longrightarrow> rid = fl_run_id fl))" by auto
  from p obtain env cred' where q: "extra_env (fl_env fl) = Inr env" "runner_credential contents = Inr cred'"
    "new_control_client w (core_address fl cfg) cred' = Inr (base, cred)" "sp_env spec = env" "sp_provider_env spec = provider_env cfg"
    by (auto simp: prepare_run_def rbind_Inr_iff split: if_splits)
  from control_client_loopback [OF q(3)] obtain u host port i where u: "cred' = cred" "aw_parse w (core_address fl cfg) = Some u"
    "aw_split w (ur_host u) = Some (host, port)" "aw_ip w host = Some i" "is_loopback i" by blast
  have c: "contents = Inr cred" "valid_credential cred"
    using q(2) u(1) by (auto simp: runner_credential_def rbind_Inr_iff failing_def split: sum.splits if_splits)
  have "\<forall>(k, v) \<in> set (sp_env spec). k \<noteq> [] \<and> CHR ''='' \<notin> set k"
    using q(1,4) env_pairs_names [of "split_on (CHR '','') (fl_env fl)" "[]" env] by (auto simp: extra_env_def split: if_splits)
  moreover have "env_key kv \<noteq> pc_key_env r" if "kv \<in> set (inherited_env spec raw)" "(n, r) \<in> set (cf_providers cfg)" "pc_key_env r \<noteq> []"
    for raw kv n r using provider_env_withheld [OF that(2,3) q(5) that(1)] .
  ultimately show ?thesis using finished p c u(2-5) by blast
qed

text \<open>A run against a new core, whose child exits with zero.\<close>

definition sample_addresses :: address_world where
  "sample_addresses = \<lparr>aw_parse = (\<lambda>a. Some \<lparr>ur_scheme = ''http'', ur_host = drop 7 a, ur_hostname = ''127.0.0.1'', ur_user = False,
     ur_query = [], ur_fragment = [], ur_path = [], ur_text = a\<rparr>), aw_split = (\<lambda>h. Some (take 9 h, drop 10 h)), aw_ip = (\<lambda>_. Some (V4 127 0 0 1))\<rparr>"

definition sample_flags :: run_flags where
  "sample_flags = \<lparr>fl_address = [], fl_run_id = ''r'', fl_deadline = 0, fl_env = ''A=1,B=2'', fl_args = [''agent'']\<rparr>"

definition new_core :: "registry \<times> journal" where
  "new_core = (new_registry, new_journal ''i'')"

text \<open>Meanwhile the core marks the run as running.\<close>

definition sample_meanwhile :: "registry \<times> journal \<Rightarrow> registry \<times> journal" where
  "sample_meanwhile w = (fst w, snd (mark_execution_running ''r'' (snd w)))"

lemma zero_exit_means_completed_witness:
  "\<exists>w rid y. run_command sample_addresses
      (\<lambda>base. core_client id (new_credential id secret_a) 5 9 None (Some ''t'') (Some ''s'') None)
      (\<lambda>_. None) exit_events None \<lparr>ps_exit_code = 0, ps_failed = False\<rparr> sample_meanwhile sample_flags (Inr sample_loaded) (Inr secret_a)
      new_core = Some (0, w) \<and>
    select_execution rid (tbl (snd w)) = Some y \<and> ex_state y = StateCompleted \<and> ex_exit_code y = Some 0"
proof -
  let ?run = "run_command sample_addresses
      (\<lambda>base. core_client id (new_credential id secret_a) 5 9 None (Some ''t'') (Some ''s'') None)
      (\<lambda>_. None) exit_events None \<lparr>ps_exit_code = 0, ps_failed = False\<rparr> sample_meanwhile sample_flags (Inr sample_loaded) (Inr secret_a) new_core"
  have "map_option fst ?run = Some 0" by code_simp
  then obtain w where w: "?run = Some (0, w)" by (cases ?run) auto
  have key: "executions_ok (tbl (snd new_core))" by (simp add: new_core_def executions_ok_new)
  have "executions_ok (tbl (snd y)) \<longrightarrow> executions_ok (tbl (snd (sample_meanwhile y)))" for y
    using advances_ok [OF mark_advances] by (cases "mark_execution_running ''r'' (snd y)") (auto simp: sample_meanwhile_def)
  with zero_exit_means_completed [OF w key] w show ?thesis by blast
qed

section \<open>The other commands\<close>

lemma panel_url_is_local:
  "validate_panel_url parse parse_ip text = Inr () \<longleftrightarrow> (\<exists>u i. parse text = Some u \<and> ur_scheme u = ''http'' \<and> ur_host u \<noteq> [] \<and>
     \<not> ur_user u \<and> ur_opaque u = [] \<and> ur_query u = [] \<and> ur_fragment u = [] \<and> ur_raw_path u = [] \<and>
     parse_ip (ur_hostname u) = Some i \<and> is_loopback i \<and> (ur_path u = ''/dashboard'' \<or> has_prefix (ur_path u) ''/dashboard/''))"
  by (cases "parse text"; cases "parse_ip (ur_hostname (the (parse text)))") (auto simp: validate_panel_url_def)

lemma split_fields_is_split: "split_fields cur s = (case split_on (CHR '','') s of [] \<Rightarrow> [cur] | p # ps \<Rightarrow> (cur @ p) # ps)"
  by (induction cur s rule: split_fields.induct) (auto split: list.split)

lemma export_fields_nonempty: "export_fields args c f out flag = Inr al \<Longrightarrow> al \<noteq> [] \<and> [] \<notin> set al \<and> out \<noteq> []"
  by (auto simp: export_fields_def Let_def split: if_splits)

lemma tail_count_bounds: "1 \<le> tail_count n \<and> tail_count n \<le> 1000 \<and> (1 \<le> n \<and> n \<le> 1000 \<longrightarrow> tail_count n = n)"
  by (simp add: tail_count_def Let_def)

lemma tail_is_bounded:
  "run_tail stamp marshal n format opened j = (Inr ls, j') \<Longrightarrow> length ls \<le> 1000 \<and> length ls \<le> nat (tail_count n) \<and> tbl j' = tbl j"
  using tail_count_bounds [of n]
  by (auto simp: run_tail_def list_recent_def run_simps Let_def split: if_splits dest!: query_run)

lemma init_keeps_file: "run_init template mkdir write left (Some text) = (r, stored) \<Longrightarrow> stored = Some text \<and> \<not> is_ok r"
  by (auto simp: run_init_def)

text \<open>A cap on the cost of a run without an estimate of the cost of a call blocks every call.\<close>

lemma cost_cap_needs_estimate:
  assumes "gr_est_cost (gw_guardrails gw) = []" "gw_has_policy gw" "lm_max_cost (en_limits (cs_engine s)) \<noteq> []"
  shows "(\<forall>res. fst (admit gw su c s) \<noteq> Admitted res) \<and> tbl (en_journal (cs_engine (snd (admit gw su c s)))) = tbl (en_journal (cs_engine s))"
proof -
  let ?f = "facts_of gw c"
  have cost: "rf_cost ?f = []" using assms(1) by (simp add: facts_of_def Let_def)
  obtain x e' where p: "preflight su ?f (cs_engine s) = (x, e')" by (cases "preflight su ?f (cs_engine s)")
  have "tbl (en_journal e') = tbl (en_journal (cs_engine s)) \<and> (\<forall>d. x = Inr d \<longrightarrow> de_decision d = ''block'')"
    using p
  proof (cases rule: preflight_run)
    case stopped
    then show ?thesis by blast
  next
    case (limits rid e1)
    obtain d where d: "list_block (en_limits (cs_engine s)) ?f rid = Some d"
      using cost assms(3) by (cases "list_block (en_limits (cs_engine s)) ?f rid") (auto simp: list_block_def split: if_splits)
    then have "preflight_limits su (en_limits (cs_engine s)) ?f rid (en_journal e1) = (Inr d, en_journal e1)"
      by (simp add: preflight_limits_def ret_def)
    with limits(2,3) list_block_blocks [OF d] show ?thesis by auto
  qed
  with p assms(2) show ?thesis by (cases x) (auto simp: admit_def)
qed

text \<open>The configuration that \<open>virgil init\<close> writes is such a one: the core it starts admits no call.\<close>

lemma init_config_admits_no_call:
  assumes "gw_guardrails gw = init_guardrails" "gw_has_policy gw" "en_limits (cs_engine s) = limits_of init_guardrails"
  shows "fst (admit gw su c s) \<noteq> Admitted res"
  using cost_cap_needs_estimate [of gw s su c] assms by (simp add: init_guardrails_def limits_of_def)

lemma init_guardrails_load: "check_guardrails init_guardrails = Inr ()"
  by code_simp

end
