(* ===== verification/Spec2Isabelle.thy ===== *)
theory Spec2Isabelle
  imports Prelude Go_Strings Go_Rat Telemetry Redaction Database Policy_Counters Execution_Store
    Event_Journal Outbox Pricing Policy_Merge Repetition Policy_Engine
    Exec_Registry Exec_Http Runner Export Control_Plane
    Tool_Stream Sse Chat_Request Anthropic_Stream Config Provider_Registry Gateway_Auth Gateway_Call
    Json_Value Responses_Chat Responses_Call Messages_Call
    Env_File Settings Panel Panel_Keys Panel_Queries Panel_Pages
    Control_Credential Core_Startup Server_Routes Command_Line
begin

text \<open>
  Virgil: a local circuit breaker for supervised AI agents.

  The program is a Go module under src/.  One executable runs a gateway that forwards
  model requests to a provider, a policy engine that admits or blocks each request before it is
  sent, a SQLite journal that keeps events, executions, the policy ledger and a delivery queue,
  exporters that drain the queue, and a runner that supervises a child process and ends it when
  the core blocks it.  The development models the code that decides: the journal with all the
  tables it keeps, the policy ledger and its arithmetic, the execution lifecycle, the outbox state
  machine, event validation and redaction, pricing, and the merge of local and remote limits.

  Theories and the code they model.

  \<^item> Prelude: the effect of a database call.  A Go function of the storage package is a function from
    the state of the database and a list of outcomes of the driver (each statement consumes one
    outcome) to a result or an error, the new state and the outcomes left.  A transaction restores the tables
    when its body returns an error or its commit fails.  The errors are the named errors of
    internal/executions/types.go plus the ones the calls return with a message.
  \<^item> Go_Strings, Go_Rat: what the code uses of the standard library: lower-casing and trimming, the regular
    expressions of the validators as predicates on strings, decimal texts and math/big rationals
    with RatString and FloatString.
  \<^item> Telemetry (internal/telemetry): trace context, the event an attempt is turned into by Build, and ValidateEvent.
  \<^item> Redaction (internal/redaction/event.go): the fields that may leave the installation.
  \<^item> Database (internal/storage/migrations): the tables as maps and lists of records, the journal's handle.
  \<^item> Policy_Counters (internal/storage/policy_counters.go, internal/policies/counters.go): reservation
    and reconciliation of a call in the ledger of its run, and the daily counters.
  \<^item> Execution_Store (internal/storage/executions.go, internal/executions/types.go): the supervised
    runs, their lifecycle as an inductive step relation, and the history query.
  \<^item> Event_Journal (internal/storage/sqlite.go, postflight.go, retention.go, remote_policy.go, repetition.go and
    List of outbox.go): appending events, the atomic policy block, post-flight, pruning, paging.
  \<^item> Outbox (internal/storage/outbox.go): leasing, acknowledging and failing deliveries.
  \<^item> Pricing (internal/pricing): the price registry and the bill of a call.
  \<^item> Policy_Merge (internal/policies/policy.go): Limits, Merge and the call-level permission.

  \<^item> Repetition (internal/policies/repetition.go): the three repetition detectors, their bounded caches and
    the persisted counts.
  \<^item> Policy_Engine (internal/policies/policy.go): Preflight, Postflight and the remote policy.
  \<^item> Exec_Registry (internal/executions/registry.go): the active runs, their tokens and signal channels.  The
    operations are split at their critical sections and an inductive step relation interleaves them.
  \<^item> Exec_Http (internal/executions/http.go, internal/controlauth/credential.go): the control handlers
    and the text of the signal stream.
  \<^item> Runner (internal/runner): the supervision loop, its report, the environment of the child, the
    reader of the signal stream with its limit of 16 KiB a line, and the control client over the handlers of Exec_Http.

  \<^item> Export (internal/export): the JSON lines file, the drains of the outbox and the OTLP spans.
  \<^item> Control_Plane (internal/controlplane, cmd/virgil/controlplane.go): the client of the hosted service, the
    synchronisation of its policy and the delivery loop with its back-off.
  \<^item> Tool_Stream, Sse, Chat_Request, Anthropic_Stream (internal/providers): the result of a call and the
    fingerprints of its tool calls, the relay of an OpenAI-compatible stream and its bounded reader, the validation
    of a chat request and its translation for the Anthropic API, and the Anthropic answers and streams.
  \<^item> Config, Provider_Registry (internal/config, internal/providers/registry.go, validate.go): what Load checks and fills
    in, the checks of base URLs and the names a provider is routed by.
  \<^item> Gateway_Auth (internal/gateway/execution_auth.go, tool_results.go): the identity of a request, the key of its
    provider, and the reports of tool results.
  \<^item> Gateway_Call (internal/gateway/chat.go, internal/app/core.go): the router and its wiring, and the chat endpoint
    from the checks of the request to the settlement of the call.  The locale settlement states what the end of a call
    owes to the ledger; the guarded call is shown once over it.
  \<^item> Json_Value: JSON values and what encoding/json decodes them into, for the handlers that read a body twice.
  \<^item> Responses_Chat (internal/gateway/responses_chat.go): the translation of a Responses request for the chat API, and of
    its whole and streamed answers back.
  \<^item> Responses_Call, Messages_Call (internal/gateway/responses.go, messages.go): the two native endpoints, the relay and
    the inspection of their streams, and the end of their calls, the second interpretation of settlement.
  \<^item> Env_File, Settings (internal/settings, loadDotEnv of internal/app/core.go): the environment file that holds the
    credentials and the update of the configuration file, over a file system whose every call may fail.
  \<^item> Panel, Panel_Keys (internal/dashboard): the sessions, the token against forged requests and the pages that change the
    settings, as a state machine of posted events, and the way of a key from the form to the next start.
  \<^item> Panel_Queries, Panel_Pages (internal/dashboard/queries.go, executions.go, overview.go, health.go): what the read-only
    pages ask the journal and the data they show; floating-point columns are a parameter.
  \<^item> Control_Credential (internal/controlauth/credential.go): the file of the installation's secret, with base64 written out.
    LoadOrCreate is a function for a process alone and a list of steps for processes that start together.
  \<^item> Core_Startup (internal/app/core.go, cmd/virgil/main.go): RunCore and the setup server as one composition of the
    components above; the trace says what is opened, served and closed.  The readiness loop of the panel has a clock in
    milliseconds and needs no more than two hundred turns, as each waits 25 ms of its 5000.
  \<^item> Server_Routes (internal/gateway/server.go): the patterns the server registers with the check in front of each handler, how
    net/http chooses among them, which page a request reaches, and the answer of the health endpoint.
  \<^item> Command_Line (cmd/virgil, internal/runner/control_client.go): the commands run, events export, tail and init.

  What is shown.  The ledger of a run equals the sum over its reservations under every
  sequence of operations and driver failures, so no call cap is exceeded and a refused call leaves no trace.
  Executions move along their lifecycle only, and a block is never undone.  Appends, blocks and post-flights
  happen entirely or not at all.  No queued delivery is lost, none is handed out twice within its
  lease, and each one is leased, also after a crash, once the leases cover the rows that are due before it.  Pruning keeps undelivered events and the ledger.
  Merged limits permit a call exactly when both sides permit it, and Preflight allows no other call.
  In every interleaving of the registry a run token opens a run that is not final; the runner closes
  every run at the core, whatever order its events come in, and reads the signal the core wrote if its line fits the reader.  The child inherits
  neither a variable named like a credential nor one that holds a provider key.  A cost text is within half of
  10^-10 of the exact bill.  A drain settles everything it leased, the JSON lines file holds each event
  once (one unit of fuel for a page of 200 events and one more), a span discloses the allowed fields only, and
  a fetched policy that is newer is in force, also after a restart, while any other changes nothing.  A call of any endpoint reaches its provider only with a reservation the
  limits permit, which is settled at the end or whose failure is logged; a block of a supervised run is recorded or
  reported; a relayed stream consists of whole frames of the provider, and what is recorded of a relayed or translated
  stream agrees with it; a streamed message is recorded as the whole one, but for the fingerprints of calls whose start
  event carries an input.  A loaded configuration has absolute paths and listens on loopback.  Build returns valid events only, and an export discloses the
  allowed fields only.  The panel changes settings only for a client that is let in and holds its session's token, the
  file it leaves is always one the core starts with, and a saved credential is found at the next start.  The page of a
  session and the page of an execution account for exactly the events the lists counted.  Cores that start together share one
  credential; a core that serves has recovered what an earlier one left, enforces the cached policy, and closes what it
  opened; no two routes conflict and a request that reaches a page holds its credential; and a zero exit of virgil run
  means that the child exited with zero and the core keeps the run as completed.

  Parameters.  Random bytes, the clock, SHA-256, the SQLite driver (the list of outcomes) and the
  network are arguments of the definitions.  Integers are int with the wrap-around of int64 written out
  where the code can reach it.

  Not modelled.  The HTML of the panel and the formatting of its numbers (internal/dashboard), the parsing of flags and the
  logging, the process control of the operating systems, the sockets and timers of net/http, and the form of
  internal/gateway/setup.go, which no handler reaches (NewSetupHandler only redirects to the panel).  Two
  simplifications change no decision: the two pages of the panel that take a form share one secret against forged requests
  (the code draws one for each), and the completed response of a translated stream is written as it is, where
  responses_chat.go decodes it again through float64 (exact up to 2^53).
\<close>

end
